(* ===== verification/Prelude.thy ===== *)
theory Prelude
  imports Main "HOL-Library.Word"
begin

text \<open>
  Shared vocabulary of the development: the machine types of \<open>kernel/types.h\<close>, the
  result type of kernel code that can panic, sequencing and loops over it, and the generic
  lemmas the components use.

  A C function that can reach \<open>panic()\<close>, a wild access or an endless spin is a
  function into \<open>'a res\<close>: \<open>Inl\<close> is the way it fails to return, \<open>Inr\<close> its result.
\<close>

unbundle bit_operations_syntax

section \<open>Machine types (kernel/types.h)\<close>

type_synonym uint8 = "8 word"
type_synonym uint16 = "16 word"
type_synonym uint = "32 word"
type_synonym uint64 = "64 word"

text \<open>A C \<open>int\<close> at its width; its value is \<open>sint\<close>, its arithmetic wraps.\<close>

type_synonym cint = "32 word"

section \<open>Results\<close>

datatype fault =
    Panic string   \<comment> \<open>\<open>panic(msg)\<close>: the kernel stops\<close>
  | Spin           \<comment> \<open>the spin loop of \<open>acquire\<close> does not end while another hart holds the lock\<close>
  | BadAccess      \<comment> \<open>an array index out of range or a null dereference\<close>
  | OutOfFuel      \<comment> \<open>a loop bounded by fuel used all of it\<close>

type_synonym 'a res = "fault + 'a"

definition bindR :: "'a res \<Rightarrow> ('a \<Rightarrow> 'b res) \<Rightarrow> 'b res" where
  "bindR m f = (case m of Inl e \<Rightarrow> Inl e | Inr x \<Rightarrow> f x)"

text \<open>A \<open>for\<close> loop over the elements of a list, left to right, that may fail.\<close>

primrec foldR :: "('x \<Rightarrow> 's \<Rightarrow> 's res) \<Rightarrow> 'x list \<Rightarrow> 's \<Rightarrow> 's res" where
  "foldR f [] s = Inr s"
| "foldR f (x # xs) s = bindR (f x s) (foldR f xs)"

named_theorems res_simps \<open>evaluation of results\<close>

lemma bindR_Inl [simp, res_simps]: "bindR (Inl e) f = Inl e"
  by (simp add: bindR_def)

lemma bindR_Inr [simp, res_simps]: "bindR (Inr x) f = f x"
  by (simp add: bindR_def)

lemma bindR_eq_Inr: "bindR m f = Inr y \<longleftrightarrow> (\<exists>x. m = Inr x \<and> f x = Inr y)"
  by (cases m) auto

lemma bindR_InrE [elim!]:
  assumes "bindR m f = Inr y"
  obtains x where "m = Inr x" and "f x = Inr y"
  using assms by (auto simp: bindR_eq_Inr)

lemma bindR_eq_Inl: "bindR m f = Inl e \<longleftrightarrow> m = Inl e \<or> (\<exists>x. m = Inr x \<and> f x = Inl e)"
  by (cases m) auto

lemma bindR_assoc: "bindR (bindR m f) g = bindR m (\<lambda>x. bindR (f x) g)"
  by (cases m) auto

lemma bindR_if: "bindR (if c then m else n) f = (if c then bindR m f else bindR n f)"
  by simp

lemma foldR_append: "foldR f (xs @ ys) s = bindR (foldR f xs s) (foldR f ys)"
  by (induction xs arbitrary: s) (auto simp: bindR_assoc bindR_def split: sum.splits)

text \<open>A loop whose body never fails is a fold.\<close>

lemma foldR_Inr:
  assumes "\<And>x s. x \<in> set xs \<Longrightarrow> f x s = Inr (g x s)"
  shows "foldR f xs s = Inr (fold g xs s)"
  using assms by (induction xs arbitrary: s) auto

text \<open>A loop whose body keeps an invariant and does not fail under it.\<close>

lemma foldR_inv:
  assumes "I s"
    and "\<And>x s. x \<in> set xs \<Longrightarrow> I s \<Longrightarrow> \<exists>s'. f x s = Inr s' \<and> I s'"
  shows "\<exists>s'. foldR f xs s = Inr s' \<and> I s'"
  using assms
proof (induction xs arbitrary: s)
  case Nil
  then show ?case by simp
next
  case (Cons x xs)
  from Cons.prems(2)[of x s] Cons.prems(1) obtain s1 where s1: "f x s = Inr s1" "I s1"
    by auto
  have "\<exists>s'. foldR f xs s1 = Inr s' \<and> I s'"
    by (rule Cons.IH[OF s1(2)]) (use Cons.prems(2) in auto)
  with s1 show ?case by simp
qed

text \<open>Two loops run in lock step keep a relation between their states.\<close>

lemma foldR_pres:
  assumes "foldR f xs s = Inr s'" and "I s"
    and "\<And>x s s'. x \<in> set xs \<Longrightarrow> I s \<Longrightarrow> f x s = Inr s' \<Longrightarrow> I s'"
  shows "I s'"
  using assms
proof (induction xs arbitrary: s)
  case Nil
  then show ?case by simp
next
  case (Cons x xs)
  from Cons.prems(1) obtain s1 where "f x s = Inr s1" "foldR f xs s1 = Inr s'" by auto
  with Cons.prems(2,3) Cons.IH[of s1] show ?case by auto
qed

section \<open>Lists\<close>

text \<open>The first index of a list whose element satisfies a test: a search loop with \<open>break\<close>.\<close>

fun find_index :: "('a \<Rightarrow> bool) \<Rightarrow> 'a list \<Rightarrow> nat option" where
  "find_index P [] = None"
| "find_index P (x # xs) = (if P x then Some 0 else map_option Suc (find_index P xs))"

lemma find_index_None: "find_index P xs = None \<longleftrightarrow> (\<forall>x \<in> set xs. \<not> P x)"
  by (induction xs) auto

lemma find_index_Some:
  "find_index P xs = Some i \<longleftrightarrow> i < length xs \<and> P (xs ! i) \<and> (\<forall>j < i. \<not> P (xs ! j))"
proof (induction xs arbitrary: i)
  case Nil
  then show ?case by simp
next
  case (Cons x xs)
  show ?case
  proof (cases i)
    case 0
    then show ?thesis by auto
  next
    case (Suc k)
    have "(\<forall>j < Suc k. \<not> P ((x # xs) ! j)) \<longleftrightarrow> \<not> P x \<and> (\<forall>j < k. \<not> P (xs ! j))"
      by (auto simp: less_Suc_eq_0_disj nth_Cons split: nat.splits)
    with Cons Suc show ?thesis by auto
  qed
qed

lemma find_index_map: "find_index P (map f xs) = find_index (\<lambda>x. P (f x)) xs"
  by (induction xs) auto

text \<open>On an interval, the element found and the index found are the same thing.\<close>

lemma find_upt: "List.find P [m..<n] = map_option (\<lambda>i. m + i) (find_index P [m..<n])"
proof (induction "n - m" arbitrary: m)
  case 0
  then show ?case by simp
next
  case (Suc k)
  then have "[m..<n] = m # [Suc m..<n]" by (simp add: upt_conv_Cons)
  with Suc.hyps(1)[of "Suc m"] Suc.hyps(2) show ?case
    by (cases "find_index P [Suc m..<n]") simp_all
qed

lemma find_upt0: "List.find P [0..<n] = find_index P [0..<n]"
  by (simp add: find_upt option.map_ident)

lemma find_Some_mem: "List.find P xs = Some x \<Longrightarrow> x \<in> set xs \<and> P x"
  by (auto simp: find_Some_iff)

lemma find_append:
  "List.find P (xs @ ys) = (case List.find P xs of Some x \<Rightarrow> Some x | None \<Rightarrow> List.find P ys)"
  by (induction xs) auto

lemma find_split:
  "List.find P xs = Some x \<Longrightarrow> \<exists>ys zs. xs = ys @ x # zs \<and> (\<forall>y \<in> set ys. \<not> P y)"
proof (induction xs)
  case Nil
  then show ?case by simp
next
  case (Cons a xs)
  show ?case
  proof (cases "P a")
    case True
    with Cons.prems have "a # xs = [] @ x # xs" by simp
    then show ?thesis by fastforce
  next
    case False
    with Cons obtain ys zs where "xs = ys @ x # zs" "\<forall>y \<in> set ys. \<not> P y" by auto
    with False have "a # xs = (a # ys) @ x # zs" "\<forall>y \<in> set (a # ys). \<not> P y" by simp_all
    then show ?thesis by blast
  qed
qed

text \<open>A search through numbered lists in turn stops in the first that has a match.\<close>

lemma find_concat_upt:
  "List.find P (concat (map f [0..<n])) = Some x \<Longrightarrow>
    \<exists>l < n. (\<forall>k < l. List.find P (f k) = None) \<and> List.find P (f l) = Some x"
proof (induction n)
  case 0
  then show ?case by simp
next
  case (Suc n)
  show ?case
  proof (cases "List.find P (concat (map f [0..<n]))")
    case None
    then have "\<forall>k < n. List.find P (f k) = None"
      by (auto simp: find_None_iff atLeast0LessThan)
    moreover have "List.find P (f n) = Some x" using None Suc.prems by (simp add: find_append)
    ultimately show ?thesis by blast
  next
    case (Some y)
    with Suc.prems have "y = x" by (simp add: find_append)
    with Some Suc.IH show ?thesis by (auto intro: less_SucI)
  qed
qed

lemma distinct_remove1_nth:
  assumes "distinct xs" and "i < length xs"
  shows "remove1 (xs ! i) xs = take i xs @ drop (i + 1) xs"
proof -
  have xs: "xs = take i xs @ xs ! i # drop (Suc i) xs"
    using assms(2) by (rule id_take_nth_drop)
  have "xs ! i \<notin> set (take i xs)"
    using assms by (metis distinct.simps(2) distinct_append disjoint_iff list.set_intros(1) xs)
  then have "remove1 (xs ! i) (take i xs @ xs ! i # drop (Suc i) xs) = take i xs @ drop (Suc i) xs"
    by (simp add: remove1_append)
  with xs show ?thesis by simp
qed

lemma distinct_filter_ne: "distinct xs \<Longrightarrow> filter (\<lambda>y. y \<noteq> x) xs = remove1 x xs"
  by (induction xs) (auto intro: filter_True)

section \<open>Words\<close>

text \<open>An \<open>int\<close> that is not negative reads the same signed and unsigned.\<close>

lemma uint_sint_nonneg:
  fixes x :: "'a :: len word"
  assumes "0 \<le> sint x"
  shows "uint x = sint x"
proof -
  have "sint x < 2 ^ (LENGTH('a) - 1)" by (rule sint_lt)
  also have "\<dots> \<le> (2 :: int) ^ LENGTH('a)" by (rule power_increasing) auto
  finally have "take_bit LENGTH('a) (sint x) = sint x"
    using assms by (simp add: take_bit_int_eq_self)
  then show ?thesis by (simp add: uint_sint)
qed

lemma sint_nonneg_unat:
  fixes x :: "'a :: len word"
  shows "0 \<le> sint x \<Longrightarrow> sint x = int (unat x)"
  using uint_sint_nonneg by (metis uint_nat)

lemma sint_uint_small:
  fixes x :: "'a :: len word"
  assumes "uint x < 2 ^ (LENGTH('a) - 1)"
  shows "sint x = uint x"
proof -
  have "- (2 ^ (LENGTH('a) - Suc 0)) \<le> uint x"
    by (rule order_trans[of _ 0]) simp_all
  then show ?thesis using assms by (subst sint_uint) (rule signed_take_bit_int_eq_self, simp_all)
qed

lemma sint_inject: "sint x = sint y \<longleftrightarrow> x = y"
  for x y :: "'a::len word"
  by (metis scast_eq scast_id)

end
