(* ===== verification/Spinlock.thy ===== *)
theory Spinlock
  imports Prelude
begin

text \<open>
  Spin locks, \<open>kernel/spinlock.c\<close> and \<open>kernel/spinlock.h\<close>, twice.

  First as one hart runs them: \<open>push_off\<close>, \<open>pop_off\<close>, \<open>acquire\<close>, \<open>release\<close> and
  \<open>holding\<close> are functions on the hart state \<open>hst\<close>. A lock is named by its address, a value of
  \<open>lock\<close>. The kernel states of the other theories pair a \<open>hst\<close> with the data the locks protect.

  Then as several harts run them at once: \<open>spin_step\<close> is the step relation of any number of
  harts on one lock, one step per memory access, and mutual exclusion is proved over it.
\<close>

section \<open>Data\<close>

text \<open>The addresses of the kernel's sleep locks (in a buffer, in an inode) and of its spin locks.\<close>

datatype sleeplk = BufLk nat | InodeLk nat

datatype lock =
    PidLock | WaitLock | TicksLock | PrLock | ProcLock nat | BcacheLock | LogLock | ItableLock | FtableLock
  | ConsLock | UartLock | VdiskLock | PipeLock uint64 | SleepLkLock sleeplk

record spinlock =
  lk_locked :: bool
  lk_name :: string
  lk_cpu :: "nat option"

record cpu =
  c_proc :: "nat option"
  c_noff :: int
  c_intena :: bool

record hst =
  hartid :: nat
  sie :: bool
  cpus :: "nat \<Rightarrow> cpu"
  locks :: "lock \<Rightarrow> spinlock"

text \<open>Hart \<open>i\<close> with every field zero: no lock held, interrupts off.\<close>

definition hst0 :: "nat \<Rightarrow> hst" where
  "hst0 i = \<lparr>hartid = i, sie = False, cpus = (\<lambda>_. \<lparr>c_proc = None, c_noff = 0, c_intena = False\<rparr>),
     locks = (\<lambda>_. \<lparr>lk_locked = False, lk_name = [], lk_cpu = None\<rparr>)\<rparr>"

section \<open>Operations of one hart\<close>

definition initlock :: "lock \<Rightarrow> string \<Rightarrow> hst \<Rightarrow> hst" where
  "initlock lk name s =
     s\<lparr>locks := (locks s)(lk := \<lparr>lk_locked = False, lk_name = name, lk_cpu = None\<rparr>)\<rparr>"

definition intr_get :: "hst \<Rightarrow> bool" where
  "intr_get s = sie s"

definition intr_on :: "hst \<Rightarrow> hst" where
  "intr_on s = s\<lparr>sie := True\<rparr>"

definition intr_off :: "hst \<Rightarrow> hst" where
  "intr_off s = s\<lparr>sie := False\<rparr>"

definition cpuid :: "hst \<Rightarrow> nat" where
  "cpuid s = hartid s"

definition mycpu :: "hst \<Rightarrow> cpu" where
  "mycpu s = cpus s (cpuid s)"

text \<open>A store through the pointer \<open>mycpu()\<close> returns.\<close>

definition mycpu_update :: "(cpu \<Rightarrow> cpu) \<Rightarrow> hst \<Rightarrow> hst" where
  "mycpu_update f s = s\<lparr>cpus := (cpus s)(cpuid s := f (mycpu s))\<rparr>"

definition push_off :: "hst \<Rightarrow> hst" where
  "push_off s =
     (let old = intr_get s;
          s = intr_off s;
          s = (if c_noff (mycpu s) = 0 then mycpu_update (\<lambda>c. c\<lparr>c_intena := old\<rparr>) s else s)
      in mycpu_update (\<lambda>c. c\<lparr>c_noff := c_noff c + 1\<rparr>) s)"

definition pop_off :: "hst \<Rightarrow> hst res" where
  "pop_off s =
     (if intr_get s then Inl (Panic ''pop_off - interruptible'')
      else if c_noff (mycpu s) < 1 then Inl (Panic ''pop_off'')
      else let s = mycpu_update (\<lambda>c. c\<lparr>c_noff := c_noff c - 1\<rparr>) s
           in Inr (if c_noff (mycpu s) = 0 \<and> c_intena (mycpu s) then intr_on s else s))"

definition holding_by :: "spinlock \<Rightarrow> nat \<Rightarrow> bool" where
  "holding_by l h \<longleftrightarrow> lk_locked l \<and> lk_cpu l = Some h"

definition holding :: "lock \<Rightarrow> hst \<Rightarrow> bool" where
  "holding lk s = holding_by (locks s lk) (cpuid s)"

text \<open>
  While another hart holds the lock the test-and-set loop goes round: for this hart alone
  that is \<open>Spin\<close>. \<open>spin_step\<close> below has the loop with the other harts running.
\<close>

definition acquire :: "lock \<Rightarrow> hst \<Rightarrow> hst res" where
  "acquire lk s =
     (let s = push_off s in
      if holding lk s then Inl (Panic ''acquire'')
      else if lk_locked (locks s lk) then Inl Spin
      else Inr (s\<lparr>locks := (locks s)(lk := (locks s lk)\<lparr>lk_locked := True, lk_cpu := Some (cpuid s)\<rparr>)\<rparr>))"

definition release :: "lock \<Rightarrow> hst \<Rightarrow> hst res" where
  "release lk s =
     (if \<not> holding lk s then Inl (Panic ''release'')
      else pop_off (s\<lparr>locks := (locks s)(lk := (locks s lk)\<lparr>lk_cpu := None, lk_locked := False\<rparr>)\<rparr>))"

text \<open>
  The state of the kernel as one hart runs it: the hart state and the data the locks protect.
  \<open>with_lock\<close> is the code's pattern \<open>acquire(lk); body; release(lk);\<close>, and \<open>on_data\<close> a body
  that works on the data alone.
\<close>

type_synonym 'd kst = "hst \<times> 'd"

fun with_lock :: "lock \<Rightarrow> ('d kst \<Rightarrow> 'd kst res) \<Rightarrow> 'd kst \<Rightarrow> 'd kst res" where
  "with_lock lk f (h, d) =
     bindR (acquire lk h) (\<lambda>h.
     bindR (f (h, d)) (\<lambda>(h, d).
     bindR (release lk h) (\<lambda>h. Inr (h, d))))"

text \<open>The same pattern around a body that returns a value.\<close>

fun with_lock_ret :: "lock \<Rightarrow> ('d kst \<Rightarrow> ('r \<times> 'd kst) res) \<Rightarrow> 'd kst \<Rightarrow> ('r \<times> 'd kst) res" where
  "with_lock_ret lk f (h, d) =
     bindR (acquire lk h) (\<lambda>h.
     bindR (f (h, d)) (\<lambda>(r, (h, d)).
     bindR (release lk h) (\<lambda>h. Inr (r, (h, d)))))"

fun on_data :: "('d \<Rightarrow> 'd res) \<Rightarrow> 'd kst \<Rightarrow> 'd kst res" where
  "on_data f (h, d) = bindR (f d) (\<lambda>d. Inr (h, d))"

section \<open>What one hart sees\<close>

lemmas hart_defs = intr_get_def intr_on_def intr_off_def cpuid_def mycpu_def mycpu_update_def
  push_off_def pop_off_def holding_def holding_by_def Let_def

text \<open>A hart's nesting depth counts, and interrupts are off while it is positive.\<close>

definition hart_ok :: "hst \<Rightarrow> bool" where
  "hart_ok s \<longleftrightarrow> 0 \<le> c_noff (mycpu s) \<and> (0 < c_noff (mycpu s) \<longrightarrow> \<not> sie s)"

definition lock_free :: "lock \<Rightarrow> hst \<Rightarrow> bool" where
  "lock_free lk s \<longleftrightarrow> \<not> lk_locked (locks s lk) \<and> lk_cpu (locks s lk) = None"

text \<open>The state of a hart inside the critical section it entered from \<open>s\<close>.\<close>

definition locked :: "lock \<Rightarrow> hst \<Rightarrow> hst" where
  "locked lk s = (push_off s)\<lparr>locks := (locks s)(lk := (locks s lk)\<lparr>lk_locked := True, lk_cpu := Some (hartid s)\<rparr>)\<rparr>"

text \<open>
  What a balanced section leaves of the hart state: \<open>intena\<close> is rewritten when the section was
  the outermost one (it is dead there: the next outermost \<open>push_off\<close> writes it first).
\<close>

definition settle :: "hst \<Rightarrow> hst" where
  "settle s = (if c_noff (mycpu s) = 0 then mycpu_update (\<lambda>c. c\<lparr>c_intena := sie s\<rparr>) s else s)"

lemma acquire_free: "lock_free lk s \<Longrightarrow> acquire lk s = Inr (locked lk s)"
  by (simp add: acquire_def locked_def lock_free_def hart_defs)

lemma acquire_held: "holding lk s \<Longrightarrow> acquire lk s = Inl (Panic ''acquire'')"
  by (simp add: acquire_def hart_defs)

lemma acquire_other:
  "lk_locked (locks s lk) \<Longrightarrow> lk_cpu (locks s lk) \<noteq> Some (hartid s) \<Longrightarrow> acquire lk s = Inl Spin"
  by (simp add: acquire_def hart_defs)

lemma hart_ok_locked: "hart_ok s \<Longrightarrow> hart_ok (locked lk s)"
  by (simp add: hart_ok_def locked_def hart_defs)

lemma push_pop_off: "hart_ok s \<Longrightarrow> pop_off (push_off s) = Inr (settle s)"
  by (auto simp: hart_ok_def settle_def hart_defs)

lemma release_locked:
  assumes "hart_ok s" and "lock_free lk s"
  shows "release lk (locked lk s) = Inr (settle s)"
proof -
  have l: "(locks s)(lk := (locks s lk)\<lparr>lk_cpu := None, lk_locked := False\<rparr>) = locks s"
    using assms(2) by (cases "locks s lk") (auto simp: lock_free_def)
  have "release lk (locked lk s) = pop_off (push_off s)"
    using l by (simp add: release_def locked_def hart_defs)
  with assms(1) show ?thesis by (simp add: push_pop_off)
qed

lemma settle_sel [simp]:
  "hartid (settle s) = hartid s" "sie (settle s) = sie s" "locks (settle s) = locks s"
  by (simp_all add: settle_def hart_defs)

lemma settle_cpu [simp]:
  "c_proc (mycpu (settle s)) = c_proc (mycpu s)" "c_noff (mycpu (settle s)) = c_noff (mycpu s)"
  by (simp_all add: settle_def hart_defs)

lemma settle_settle [simp]: "settle (settle s) = settle s"
  by (simp add: settle_def hart_defs)

lemma hart_ok_settle [simp]: "hart_ok (settle s) = hart_ok s"
  by (simp add: hart_ok_def settle_def hart_defs)

lemma lock_free_settle [simp]: "lock_free lk (settle s) = lock_free lk s"
  by (simp add: lock_free_def)

text \<open>What a balanced section left of the hart state makes no difference to the next one.\<close>

lemma locked_settle: "locked lk (settle h) = locked lk h"
  by (simp add: locked_def settle_def hart_defs)

text \<open>
  The contract the other components rely on: entered with the lock free, a section on data
  runs its body and leaves the hart as it was.
\<close>

lemma with_lock_data:
  assumes "hart_ok h" and "lock_free lk h"
  shows "with_lock lk (on_data f) (h, d) = bindR (f d) (\<lambda>d. Inr (settle h, d))"
  using assms by (cases "f d") (simp_all add: acquire_free release_locked)

lemma with_lock_ret_data:
  assumes "hart_ok h" and "lock_free lk h"
  shows "with_lock_ret lk (\<lambda>(h, d). bindR (f d) (\<lambda>(r, d). Inr (r, (h, d)))) (h, d) =
    bindR (f d) (\<lambda>(r, d). Inr (r, (settle h, d)))"
  using assms by (cases "f d") (auto simp: acquire_free release_locked)

text \<open>A scan of a table that locks each entry in turn.\<close>

lemma with_lock_scan:
  assumes "hart_ok h" and "\<And>i. i \<in> set is \<Longrightarrow> lock_free (L i) h"
  shows "foldR (\<lambda>i. with_lock (L i) (on_data (f i))) is (h, d) =
    bindR (foldR f is d) (\<lambda>d. Inr (if is = [] then h else settle h, d))"
  using assms
proof (induction "is" arbitrary: h d)
  case Nil
  then show ?case by simp
next
  case (Cons i "is")
  have "with_lock (L i) (on_data (f i)) (h, d) = bindR (f i d) (\<lambda>d. Inr (settle h, d))"
    by (rule with_lock_data) (use Cons.prems in auto)
  with Cons.IH[of "settle h"] Cons.prems show ?case
    by (cases "f i d") auto
qed

lemma settle_nested: "0 < c_noff (mycpu s) \<Longrightarrow> settle s = s"
  by (simp add: settle_def)

section \<open>Several harts on one lock\<close>

text \<open>
  Where a hart is in \<open>acquire\<close>/\<open>release\<close> of the lock: outside; in the \<open>holding\<close> of \<open>acquire\<close>, with the lock word read as set and \<open>lk->cpu\<close>
  to be read; in the test-and-set loop; past the loop but with \<open>lk->cpu\<close> not yet written; in its critical section; in the \<open>holding\<close>
  of \<open>release\<close> likewise, and past it; or in \<open>release\<close> with \<open>lk->cpu\<close> cleared and the lock word not yet. \<open>Dead\<close> is a hart that panicked.
\<close>

datatype spin_pc = Out | AcqHeld | Spinning | Got | Crit | RelHeld | RelMine | Rel | Dead

record spin_sys =
  sp_lock :: spinlock
  sp_pc :: "nat \<Rightarrow> spin_pc"

definition spin_init :: "string \<Rightarrow> spin_sys" where
  "spin_init name =
     \<lparr>sp_lock = \<lparr>lk_locked = False, lk_name = name, lk_cpu = None\<rparr>, sp_pc = (\<lambda>_. Out)\<rparr>"

text \<open>\<open>__sync_lock_test_and_set(&lk->locked, 1)\<close>: one atomic swap.\<close>

definition test_and_set :: "spinlock \<Rightarrow> bool \<times> spinlock" where
  "test_and_set l = (lk_locked l, l\<lparr>lk_locked := True\<rparr>)"

definition goto :: "nat \<Rightarrow> spin_pc \<Rightarrow> spin_sys \<Rightarrow> spin_sys" where
  "goto i c s = s\<lparr>sp_pc := (sp_pc s)(i := c)\<rparr>"

inductive spin_step :: "spin_sys \<Rightarrow> spin_sys \<Rightarrow> bool" where
  acq_free: "sp_pc s i = Out \<Longrightarrow> \<not> lk_locked (sp_lock s) \<Longrightarrow> spin_step s (goto i Spinning s)"
| acq_held: "sp_pc s i = Out \<Longrightarrow> lk_locked (sp_lock s) \<Longrightarrow> spin_step s (goto i AcqHeld s)"
| acq_other: "sp_pc s i = AcqHeld \<Longrightarrow> lk_cpu (sp_lock s) \<noteq> Some i \<Longrightarrow> spin_step s (goto i Spinning s)"
| acq_panic: "sp_pc s i = AcqHeld \<Longrightarrow> lk_cpu (sp_lock s) = Some i \<Longrightarrow> spin_step s (goto i Dead s)"
| acq_swap: "sp_pc s i = Spinning \<Longrightarrow> test_and_set (sp_lock s) = (old, l') \<Longrightarrow>
    spin_step s (goto i (if old then Spinning else Got) (s\<lparr>sp_lock := l'\<rparr>))"
| acq_setcpu: "sp_pc s i = Got \<Longrightarrow>
    spin_step s (goto i Crit (s\<lparr>sp_lock := (sp_lock s)\<lparr>lk_cpu := Some i\<rparr>\<rparr>))"
| rel_held: "sp_pc s i = Crit \<Longrightarrow> lk_locked (sp_lock s) \<Longrightarrow> spin_step s (goto i RelHeld s)"
| rel_free: "sp_pc s i = Crit \<Longrightarrow> \<not> lk_locked (sp_lock s) \<Longrightarrow> spin_step s (goto i Dead s)"
| rel_mine: "sp_pc s i = RelHeld \<Longrightarrow> lk_cpu (sp_lock s) = Some i \<Longrightarrow> spin_step s (goto i RelMine s)"
| rel_panic: "sp_pc s i = RelHeld \<Longrightarrow> lk_cpu (sp_lock s) \<noteq> Some i \<Longrightarrow> spin_step s (goto i Dead s)"
| rel_clear: "sp_pc s i = RelMine \<Longrightarrow>
    spin_step s (goto i Rel (s\<lparr>sp_lock := (sp_lock s)\<lparr>lk_cpu := None\<rparr>\<rparr>))"
| rel_unlock: "sp_pc s i = Rel \<Longrightarrow>
    spin_step s (goto i Out (s\<lparr>sp_lock := (sp_lock s)\<lparr>lk_locked := False\<rparr>\<rparr>))"

inductive spin_reach :: "spin_sys \<Rightarrow> bool" where
  spin_start: "spin_reach (spin_init name)"
| spin_more: "spin_reach s \<Longrightarrow> spin_step s t \<Longrightarrow> spin_reach t"

text \<open>A hart that has the lock, and one whose number is in \<open>lk->cpu\<close>.\<close>

definition spin_named :: "spin_pc \<Rightarrow> bool" where
  "spin_named c \<longleftrightarrow> c = Crit \<or> c = RelHeld \<or> c = RelMine"

definition spin_owner :: "spin_pc \<Rightarrow> bool" where
  "spin_owner c \<longleftrightarrow> c = Got \<or> spin_named c \<or> c = Rel"

text \<open>
  How the lock word, the owner field and the harts' positions agree, given which hart owns
  the lock.
\<close>

definition spin_inv_at :: "nat option \<Rightarrow> spin_sys \<Rightarrow> bool" where
  "spin_inv_at ow s \<longleftrightarrow>
     (\<forall>i. spin_owner (sp_pc s i) \<longleftrightarrow> ow = Some i) \<and>
     (lk_locked (sp_lock s) \<longleftrightarrow> ow \<noteq> None) \<and>
     (\<forall>i. lk_cpu (sp_lock s) = Some i \<longleftrightarrow> spin_named (sp_pc s i)) \<and>
     (\<forall>i. sp_pc s i \<noteq> Dead)"

definition spin_inv :: "spin_sys \<Rightarrow> bool" where
  "spin_inv s \<longleftrightarrow> (\<exists>ow. spin_inv_at ow s)"

lemma spin_owner_simps [simp]:
  "spin_named Crit" "spin_named RelHeld" "spin_named RelMine"
  "\<not> spin_named Out" "\<not> spin_named AcqHeld" "\<not> spin_named Spinning" "\<not> spin_named Got" "\<not> spin_named Rel" "\<not> spin_named Dead"
  "spin_owner Got" "spin_owner Crit" "spin_owner RelHeld" "spin_owner RelMine" "spin_owner Rel"
  "\<not> spin_owner Out" "\<not> spin_owner AcqHeld" "\<not> spin_owner Spinning" "\<not> spin_owner Dead"
  by (simp_all add: spin_owner_def spin_named_def)

lemma spin_inv_init: "spin_inv (spin_init name)"
  unfolding spin_inv_def
  by (rule exI[of _ None]) (simp add: spin_inv_at_def spin_init_def)

lemma spin_inv_atD:
  assumes "spin_inv_at ow s"
  shows "spin_owner (sp_pc s i) \<Longrightarrow> ow = Some i" and "sp_pc s i \<noteq> Dead"
    and "lk_locked (sp_lock s) \<longleftrightarrow> ow \<noteq> None"
    and "lk_cpu (sp_lock s) = Some i \<longleftrightarrow> spin_named (sp_pc s i)"
    and "\<not> spin_owner (sp_pc s i) \<Longrightarrow> ow \<noteq> Some i"
  using assms by (auto simp: spin_inv_at_def)

text \<open>A step that only moves a hart, to where it has the lock and is named as before.\<close>

lemma spin_inv_goto:
  assumes "spin_inv_at ow s" and "spin_owner c = spin_owner (sp_pc s i)" and "spin_named c = spin_named (sp_pc s i)" and "c \<noteq> Dead"
  shows "\<exists>ow'. spin_inv_at ow' (goto i c s)"
  using assms by (auto simp: spin_inv_at_def goto_def)

lemma spin_step_inv_at:
  assumes "spin_step s t" and "spin_inv_at ow s"
  shows "\<exists>ow'. spin_inv_at ow' t"
  using assms
proof (induction rule: spin_step.induct)
  case (acq_panic s i)
  then show ?case by (simp add: spin_inv_atD(4))
next
  case (acq_swap s i old l')
  then have "ow \<noteq> Some i" using spin_inv_atD(5) by force
  with acq_swap have "spin_inv_at (if old then ow else Some i)
      (goto i (if old then Spinning else Got) (s\<lparr>sp_lock := l'\<rparr>))"
    by (auto simp: spin_inv_at_def goto_def test_and_set_def split: if_splits)
  then show ?case by blast
next
  case (acq_setcpu s i)
  then have ow: "ow = Some i" using spin_inv_atD(1) by force
  have "\<not> spin_named (sp_pc s j)" if "j \<noteq> i" for j
    using that ow spin_inv_atD(1)[OF acq_setcpu(2), of j] by (auto simp: spin_owner_def)
  with acq_setcpu ow have "spin_inv_at ow (goto i Crit (s\<lparr>sp_lock := (sp_lock s)\<lparr>lk_cpu := Some i\<rparr>\<rparr>))"
    by (auto simp: spin_inv_at_def goto_def split: if_splits)
  then show ?case by blast
next
  case (rel_free s i)
  then have "ow = Some i" using spin_inv_atD(1)[OF rel_free(3), of i] by simp
  then show ?case using spin_inv_atD(3)[OF rel_free(3)] rel_free(2) by simp
next
  case (rel_panic s i)
  then show ?case by (simp add: spin_inv_atD(4))
next
  case (rel_clear s i)
  then have ow: "ow = Some i" using spin_inv_atD(1) by force
  have "\<not> spin_named (sp_pc s j)" if "j \<noteq> i" for j
    using that ow spin_inv_atD(1)[OF rel_clear(2), of j] by (auto simp: spin_owner_def)
  with rel_clear ow have "spin_inv_at ow (goto i Rel (s\<lparr>sp_lock := (sp_lock s)\<lparr>lk_cpu := None\<rparr>\<rparr>))"
    by (auto simp: spin_inv_at_def goto_def split: if_splits)
  then show ?case by blast
next
  case (rel_unlock s i)
  then have ow: "ow = Some i" using spin_inv_atD(1) by force
  with rel_unlock have "spin_inv_at None (goto i Out (s\<lparr>sp_lock := (sp_lock s)\<lparr>lk_locked := False\<rparr>\<rparr>))"
    by (auto simp: spin_inv_at_def goto_def split: if_splits)
  then show ?case by blast
qed (simp_all add: spin_inv_goto[of ow])

lemma spin_step_inv: "spin_step s t \<Longrightarrow> spin_inv s \<Longrightarrow> spin_inv t"
  by (auto simp: spin_inv_def dest: spin_step_inv_at)

lemma spin_reach_inv: "spin_reach s \<Longrightarrow> spin_inv s"
  by (induction rule: spin_reach.induct) (auto intro: spin_inv_init spin_step_inv)

text \<open>
  C4. Spin locks exclude. However many harts run \<open>acquire\<close> and \<open>release\<close> on a lock, in any
  interleaving of their memory accesses, at most one of them is between the two, and none
  ever reaches the \<open>panic\<close> in either.
\<close>

theorem spin_mutual_exclusion:
  assumes "spin_reach s"
  shows "(spin_owner (sp_pc s i) \<and> spin_owner (sp_pc s j) \<longrightarrow> i = j) \<and> sp_pc s i \<noteq> Dead"
proof -
  obtain ow where "spin_inv_at ow s" using spin_reach_inv[OF assms] by (auto simp: spin_inv_def)
  then show ?thesis using spin_inv_atD(1,2) by (metis option.inject)
qed

text \<open>Hart 0 takes the lock while hart 1 goes round the loop.\<close>

definition spin_demo :: spin_sys where
  "spin_demo = \<lparr>sp_lock = \<lparr>lk_locked = True, lk_name = ''proc'', lk_cpu = Some 0\<rparr>,
     sp_pc = ((\<lambda>_. Out)(0 := Crit))(1 := Spinning)\<rparr>"

lemma spin_demo_reach: "spin_reach spin_demo"
proof -
  define l where "l b c = \<lparr>lk_locked = b, lk_name = ''proc'', lk_cpu = c\<rparr>" for b c
  define s where "s b c p0 p1 = \<lparr>sp_lock = l b c, sp_pc = ((\<lambda>_. Out)(0 := p0))(1 := p1)\<rparr>" for b c p0 p1
  have s0: "spin_reach (s False None Out Out)"
    using spin_start[of "''proc''"] by (simp add: s_def l_def spin_init_def fun_upd_def)
  have "spin_step (s False None Out Out) (s False None Out Spinning)"
    using acq_free[of "s False None Out Out" 1] by (simp add: s_def l_def goto_def)
  with s0 have s1: "spin_reach (s False None Out Spinning)" by (rule spin_more)
  have "spin_step (s False None Out Spinning) (s False None Spinning Spinning)"
    using acq_free[of "s False None Out Spinning" 0]
    by (simp add: s_def l_def goto_def fun_upd_twist)
  with s1 have s2: "spin_reach (s False None Spinning Spinning)" by (rule spin_more)
  have "spin_step (s False None Spinning Spinning) (s True None Got Spinning)"
    using acq_swap[of "s False None Spinning Spinning" 0 False "l True None"]
    by (simp add: s_def l_def goto_def test_and_set_def fun_upd_twist)
  with s2 have s3: "spin_reach (s True None Got Spinning)" by (rule spin_more)
  have "spin_step (s True None Got Spinning) (s True (Some 0) Crit Spinning)"
    using acq_setcpu[of "s True None Got Spinning" 0]
    by (simp add: s_def l_def goto_def fun_upd_twist)
  with s3 have "spin_reach (s True (Some 0) Crit Spinning)" by (rule spin_more)
  then show ?thesis by (simp add: spin_demo_def s_def l_def)
qed

theorem spin_mutual_exclusion_witness:
  "sp_pc spin_demo 0 = Crit \<and> \<not> (spin_owner (sp_pc spin_demo 1) \<and> spin_owner (sp_pc spin_demo 0))"
  using spin_mutual_exclusion[OF spin_demo_reach, of 1 0] by (simp add: spin_demo_def)

text \<open>
  C12. A critical section that works on the data it protects, entered with its lock free, runs the
  body once and leaves lock, interrupt enable and nesting depth as they were.
\<close>

theorem critical_section_balanced:
  assumes "hart_ok h" and "lock_free lk h"
  shows "with_lock lk (on_data f) (h, d) = bindR (f d) (\<lambda>d. Inr (settle h, d)) \<and>
    locks (settle h) = locks h \<and> sie (settle h) = sie h \<and> c_noff (mycpu (settle h)) = c_noff (mycpu h)"
  using with_lock_data[OF assms] by simp

theorem critical_section_balanced_witness:
  "with_lock TicksLock (on_data (\<lambda>t :: uint. Inr (t + 1))) (hst0 2, 41) = Inr (hst0 2, 42)"
proof -
  have "hart_ok (hst0 2)" "lock_free TicksLock (hst0 2)" "settle (hst0 2) = hst0 2"
    by (simp_all add: hst0_def hart_ok_def lock_free_def settle_def hart_defs fun_eq_iff)
  with critical_section_balanced[of "hst0 2" TicksLock "\<lambda>t :: uint. Inr (t + 1)" 41] show ?thesis by simp
qed

end
