(* ===== verification/ProcTable.thy ===== *)
theory ProcTable
  imports Spinlock
begin

text \<open>
  The process table of \<open>kernel/proc.h\<close> and \<open>kernel/proc.c\<close> and the multi-level queue the MLFQ
  scheduler keeps of it: \<open>struct proc\<close>, the globals of \<open>proc.c\<close>, \<open>enqueue\<close> and \<open>dequeue\<close> as
  the array code they are, and the lists of processes they implement.

  A \<open>struct proc *\<close> is the index of the process in \<open>proc[NPROC]\<close>, \<open>None\<close> for a null pointer.
  An \<open>int\<close> flag that only holds 0 and 1 is a \<open>bool\<close>. The file tables are in other theories;
  \<open>pst\<close> is extended there.
\<close>

section \<open>Data\<close>

definition NPROC :: nat where "NPROC = 64"

datatype procstate = UNUSED | USED | SLEEPING | RUNNABLE | RUNNING | ZOMBIE

text \<open>What a process can sleep on: the addresses the kernel passes to \<open>sleep\<close> and \<open>wakeup\<close>.\<close>

datatype chan =
    ChanProc nat | ChanTicks | ChanLog | ChanSleeplock sleeplk | ChanPipeRead uint64
  | ChanPipeWrite uint64 | ChanConsole | ChanUart | ChanDiskFree | ChanBuf nat

text \<open>Saved registers for kernel context switches.\<close>

record kcontext =
  ctx_ra :: uint64
  ctx_sp :: uint64
  ctx_s :: "nat \<Rightarrow> uint64"

record proc =
  p_syscall_count :: "nat \<Rightarrow> cint"
  p_state :: procstate
  p_chan :: "chan option"
  p_killed :: bool
  p_xstate :: cint
  p_pid :: cint
  p_parent :: "nat option"
  p_kstack :: uint64
  p_sz :: uint64
  p_pagetable :: uint64
  p_trapframe :: uint64
  p_context :: kcontext
  p_ofile :: "nat \<Rightarrow> nat option"
  p_cwd :: "nat option"
  p_name :: "uint8 list"
  p_rtime :: uint
  p_ctime :: uint
  p_etime :: uint
  p_handler :: uint64
  p_ticks :: cint
  p_cur_ticks :: cint
  p_alarm_tf :: uint64
  p_alarm_on :: bool
  p_in_alarm_handler :: bool
  p_tickets :: cint
  p_arrival_time :: uint
  p_time_slice :: cint
  p_queue_number :: nat
  p_remainingtime :: cint
  p_last_scheduled :: cint
  p_queueticks :: cint

text \<open>
  The globals of \<open>proc.c\<close> and \<open>trap.c\<close>; \<open>seed\<close> is the static variable of \<open>rand\<close>. \<open>kout\<close> is what
  the kernel printed, one entry per call of \<open>printf\<close>: the format and the arguments.
\<close>

datatype parg = PInt cint | PStr "uint8 list" | PPtr uint64

record pst =
  procs :: "nat \<Rightarrow> proc"
  initproc :: "nat option"
  multique :: "nat \<Rightarrow> nat \<Rightarrow> nat option"
  sizeofq :: "nat \<Rightarrow> nat"
  nextpid :: cint
  ticks :: uint
  seed :: uint64
  kout :: "(string \<times> parg list) list"

text \<open>The globals before \<open>main\<close> runs: zeroed, but for the initialisers in the source.\<close>

definition kcontext0 :: kcontext where
  "kcontext0 = \<lparr>ctx_ra = 0, ctx_sp = 0, ctx_s = (\<lambda>_. 0)\<rparr>"

definition proc0 :: proc where
  "proc0 = \<lparr>p_syscall_count = (\<lambda>_. 0), p_state = UNUSED, p_chan = None, p_killed = False, p_xstate = 0,
     p_pid = 0, p_parent = None, p_kstack = 0, p_sz = 0, p_pagetable = 0, p_trapframe = 0,
     p_context = kcontext0, p_ofile = (\<lambda>_. None), p_cwd = None, p_name = [], p_rtime = 0, p_ctime = 0,
     p_etime = 0, p_handler = 0, p_ticks = 0, p_cur_ticks = 0, p_alarm_tf = 0, p_alarm_on = False,
     p_in_alarm_handler = False, p_tickets = 0, p_arrival_time = 0, p_time_slice = 0,
     p_queue_number = 0, p_remainingtime = 0, p_last_scheduled = 0, p_queueticks = 0\<rparr>"

definition pst0 :: pst where
  "pst0 = \<lparr>procs = (\<lambda>_. proc0), initproc = None, multique = (\<lambda>_ _. None), sizeofq = (\<lambda>_. 0),
     nextpid = 1, ticks = 0, seed = 123456789, kout = []\<rparr>"

text \<open>A store through a \<open>struct proc *\<close>.\<close>

definition upd_proc :: "nat \<Rightarrow> (proc \<Rightarrow> proc) \<Rightarrow> 'a pst_scheme \<Rightarrow> 'a pst_scheme" where
  "upd_proc p f d = d\<lparr>procs := (procs d)(p := f (procs d p))\<rparr>"

definition kprintf :: "string \<Rightarrow> parg list \<Rightarrow> 'a pst_scheme \<Rightarrow> 'a pst_scheme" where
  "kprintf fmt args d = d\<lparr>kout := kout d @ [(fmt, args)]\<rparr>"

definition timesliceq :: "nat \<Rightarrow> cint" where
  "timesliceq q = (if q = 0 then 1 else if q = 1 then 4 else if q = 2 then 8 else 16)"

section \<open>Operations\<close>

text \<open>
  The scan both functions start with: the first index of queue \<open>q\<close>, among those listed, whose
  process has the given pid. An entry that is null is dereferenced.
\<close>

fun queue_scan :: "'a pst_scheme \<Rightarrow> nat \<Rightarrow> cint \<Rightarrow> nat list \<Rightarrow> nat option res" where
  "queue_scan d q pid [] = Inr None"
| "queue_scan d q pid (i # is) =
     (case multique d q i of
        None \<Rightarrow> Inl BadAccess
      | Some p \<Rightarrow> if p_pid (procs d p) = pid then Inr (Some i) else queue_scan d q pid is)"

definition enqueue :: "nat \<Rightarrow> nat \<Rightarrow> 'a pst_scheme \<Rightarrow> 'a pst_scheme res" where
  "enqueue p priorityq d =
     (if 4 \<le> priorityq then Inl BadAccess
      else bindR (queue_scan d priorityq (p_pid (procs d p)) [0..<sizeofq d priorityq]) (\<lambda>found.
        if found \<noteq> None then Inr d
        else if NPROC \<le> sizeofq d priorityq then Inl BadAccess
        else Inr (upd_proc p (\<lambda>x. x\<lparr>p_queueticks := 0, p_queue_number := priorityq\<rparr>)
          (d\<lparr>multique := (multique d)(priorityq := (multique d priorityq)(sizeofq d priorityq := Some p)),
             sizeofq := (sizeofq d)(priorityq := sizeofq d priorityq + 1)\<rparr>))))"

text \<open>The inner loop of \<open>dequeue\<close>: \<open>a[j] = a[j + 1]\<close> for each \<open>j\<close> in turn.\<close>

fun shift_down :: "(nat \<Rightarrow> nat option) \<Rightarrow> nat list \<Rightarrow> (nat \<Rightarrow> nat option)" where
  "shift_down a [] = a"
| "shift_down a (j # js) = shift_down (a(j := a (j + 1))) js"

definition dequeue :: "nat \<Rightarrow> nat \<Rightarrow> 'a pst_scheme \<Rightarrow> 'a pst_scheme res" where
  "dequeue p priorityq d =
     (if 4 \<le> priorityq then Inl BadAccess
      else if sizeofq d priorityq = 0 then Inr d
      else bindR (queue_scan d priorityq (p_pid (procs d p)) [0..<sizeofq d priorityq]) (\<lambda>found.
        case found of
          None \<Rightarrow> Inr d
        | Some i \<Rightarrow>
            let n = sizeofq d priorityq - 1;
                a = shift_down (multique d priorityq) [i..<n]
            in Inr (d\<lparr>multique := (multique d)(priorityq := a(n := None)),
                      sizeofq := (sizeofq d)(priorityq := n)\<rparr>)))"

section \<open>The queues as lists\<close>

definition queue :: "'a pst_scheme \<Rightarrow> nat \<Rightarrow> nat list" where
  "queue d q = map (\<lambda>i. the (multique d q i)) [0..<sizeofq d q]"

text \<open>
  What the scheduler keeps true of the queues: every entry is a process of the table with a
  pid, in the queue its \<open>queue_number\<close> names, once; live pids are unique.
\<close>

definition pids_unique :: "'a pst_scheme \<Rightarrow> bool" where
  "pids_unique d \<longleftrightarrow>
     (\<forall>i < NPROC. \<forall>j < NPROC. p_pid (procs d i) = p_pid (procs d j) \<longrightarrow>
        p_pid (procs d i) \<noteq> 0 \<longrightarrow> i = j)"

definition mlfq_inv :: "'a pst_scheme \<Rightarrow> bool" where
  "mlfq_inv d \<longleftrightarrow> pids_unique d \<and>
     (\<forall>q < 4. distinct (queue d q) \<and>
        (\<forall>i < sizeofq d q. multique d q i \<noteq> None) \<and>
        (\<forall>p \<in> set (queue d q). p < NPROC \<and> p_pid (procs d p) \<noteq> 0 \<and> p_queue_number (procs d p) = q))"

lemma pids_unique_cong:
  "(\<And>i. p_pid (procs d' i) = p_pid (procs d i)) \<Longrightarrow> pids_unique d' = pids_unique d"
  by (simp add: pids_unique_def)

lemma length_queue [simp]: "length (queue d q) = sizeofq d q"
  by (simp add: queue_def)

lemma queue_nth: "i < sizeofq d q \<Longrightarrow> queue d q ! i = the (multique d q i)"
  by (simp add: queue_def)

lemma upd_proc_sel [simp]:
  "initproc (upd_proc p f d) = initproc d" "multique (upd_proc p f d) = multique d"
  "sizeofq (upd_proc p f d) = sizeofq d" "nextpid (upd_proc p f d) = nextpid d"
  "ticks (upd_proc p f d) = ticks d" "seed (upd_proc p f d) = seed d" "kout (upd_proc p f d) = kout d"
  "procs (upd_proc p f d) = (procs d)(p := f (procs d p))" "pst.more (upd_proc p f d) = pst.more d"
  by (simp_all add: upd_proc_def)

lemma queue_upd_proc [simp]: "queue (upd_proc p f d) = queue d"
  by (simp add: queue_def fun_eq_iff)

text \<open>What the queue operations leave alone: everything but the processes and the queues.\<close>

definition globals :: "'a pst_scheme \<Rightarrow> nat option \<times> cint \<times> uint \<times> uint64 \<times> (string \<times> parg list) list \<times> 'a" where
  "globals d = (initproc d, nextpid d, ticks d, seed d, kout d, pst.more d)"

lemma globals_upd_proc [simp]: "globals (upd_proc p f d) = globals d"
  by (simp add: globals_def)

lemma globals_enqueue: "enqueue p q d = Inr d' \<Longrightarrow> globals d' = globals d"
  by (auto simp: enqueue_def globals_def split: if_splits)

lemma globals_dequeue: "dequeue p q d = Inr d' \<Longrightarrow> globals d' = globals d"
  by (auto simp: dequeue_def globals_def Let_def split: if_splits option.splits)

lemma queue_scan_spec:
  assumes "\<forall>i \<in> set is. multique d q i \<noteq> None"
  shows "queue_scan d q pid is =
    Inr (List.find (\<lambda>i. p_pid (procs d (the (multique d q i))) = pid) is)"
  using assms by (induction "is") (auto split: option.splits)

text \<open>Searching the array by pid is searching the list.\<close>

lemma queue_scan_queue:
  assumes "\<forall>i < sizeofq d q. multique d q i \<noteq> None"
  shows "queue_scan d q pid [0..<sizeofq d q] = Inr (find_index (\<lambda>p. p_pid (procs d p) = pid) (queue d q))"
  using assms by (simp add: queue_scan_spec queue_def find_index_map find_upt0)

lemma shift_down_spec:
  "i \<le> n \<Longrightarrow> shift_down a [i..<n] = (\<lambda>j. if i \<le> j \<and> j < n then a (j + 1) else a j)"
proof (induction "n - i" arbitrary: i a)
  case 0
  then show ?case by (auto simp: fun_eq_iff)
next
  case (Suc k)
  then have "[i..<n] = i # [Suc i..<n]" by (simp add: upt_conv_Cons)
  with Suc.hyps(1)[of "Suc i" "a(i := a (i + 1))"] Suc.hyps(2) Suc.prems show ?case
    by (auto simp: fun_eq_iff)
qed

text \<open>\<open>dequeue\<close> on the array removes one list element.\<close>

lemma queue_shift:
  assumes "i < sizeofq d q" and "\<forall>i < sizeofq d q. multique d q i \<noteq> None"
  defines "n \<equiv> sizeofq d q - 1"
  defines "d' \<equiv> d\<lparr>multique := (multique d)(q := (shift_down (multique d q) [i..<n])(n := None)),
                    sizeofq := (sizeofq d)(q := n)\<rparr>"
  shows "queue d' q = take i (queue d q) @ drop (i + 1) (queue d q)"
    and "\<And>q'. q' \<noteq> q \<Longrightarrow> queue d' q' = queue d q'"
    and "\<forall>j < sizeofq d' q. multique d' q j \<noteq> None"
proof -
  have le: "i \<le> n" using assms(1) by (simp add: n_def)
  show "queue d' q = take i (queue d q) @ drop (i + 1) (queue d q)"
  proof (rule nth_equalityI)
    show "length (queue d' q) = length (take i (queue d q) @ drop (i + 1) (queue d q))"
      using assms(1) by (simp add: d'_def n_def)
    fix j assume "j < length (queue d' q)"
    then have "j < n" by (simp add: d'_def)
    then show "queue d' q ! j = (take i (queue d q) @ drop (i + 1) (queue d q)) ! j"
      using assms(1) le by (auto simp: queue_def d'_def shift_down_spec nth_append n_def)
  qed
  show "\<And>q'. q' \<noteq> q \<Longrightarrow> queue d' q' = queue d q'"
    by (simp add: queue_def d'_def)
  show "\<forall>j < sizeofq d' q. multique d' q j \<noteq> None"
    using assms(2) le by (auto simp: d'_def shift_down_spec n_def)
qed

section \<open>The interface of the queues\<close>

text \<open>
  What the scheduler, the timer interrupt and the process operations use of the queues: they
  are lists of eligible processes, disjoint and without repetition; \<open>enq\<close> appends a process
  that is in none of them, \<open>deq\<close> removes one, and both leave the rest alone.
\<close>

locale level_queues =
  fixes enq deq :: "nat \<Rightarrow> nat \<Rightarrow> 'd \<Rightarrow> 'd res"
    and q_of :: "'d \<Rightarrow> nat \<Rightarrow> nat list"
    and invar :: "'d \<Rightarrow> bool"
    and elig :: "'d \<Rightarrow> nat \<Rightarrow> bool"
  assumes q_elig: "invar d \<Longrightarrow> q < 4 \<Longrightarrow> p \<in> set (q_of d q) \<Longrightarrow> elig d p"
    and q_distinct: "invar d \<Longrightarrow> q < 4 \<Longrightarrow> distinct (q_of d q)"
    and q_disjoint: "invar d \<Longrightarrow> q < 4 \<Longrightarrow> q' < 4 \<Longrightarrow> p \<in> set (q_of d q) \<Longrightarrow> p \<in> set (q_of d q') \<Longrightarrow> q = q'"
    and enq_fresh: "invar d \<Longrightarrow> elig d p \<Longrightarrow> q < 4 \<Longrightarrow> (\<And>q'. q' < 4 \<Longrightarrow> p \<notin> set (q_of d q')) \<Longrightarrow>
      \<exists>d'. enq p q d = Inr d' \<and> invar d' \<and> elig d' = elig d \<and> q_of d' = (q_of d)(q := q_of d q @ [p])"
    and enq_again: "invar d \<Longrightarrow> q < 4 \<Longrightarrow> p \<in> set (q_of d q) \<Longrightarrow> enq p q d = Inr d"
    and deq_mem: "invar d \<Longrightarrow> q < 4 \<Longrightarrow> p \<in> set (q_of d q) \<Longrightarrow>
      \<exists>d'. deq p q d = Inr d' \<and> invar d' \<and> elig d' = elig d \<and> q_of d' = (q_of d)(q := remove1 p (q_of d q))"
    and deq_absent: "invar d \<Longrightarrow> elig d p \<Longrightarrow> q < 4 \<Longrightarrow> p \<notin> set (q_of d q) \<Longrightarrow> deq p q d = Inr d"
begin

text \<open>Moving a queued process to the tail of a level, the current one included.\<close>

lemma move:
  assumes "invar d" and "q < 4" and "q' < 4" and "p \<in> set (q_of d q)"
  shows "\<exists>d'. bindR (deq p q d) (enq p q') = Inr d' \<and> invar d' \<and> elig d' = elig d \<and>
    q_of d' = (let r = (q_of d)(q := remove1 p (q_of d q)) in r(q' := r q' @ [p]))"
proof -
  obtain d1 where d1: "deq p q d = Inr d1" "invar d1" "elig d1 = elig d"
      "q_of d1 = (q_of d)(q := remove1 p (q_of d q))"
    using deq_mem[OF assms(1,2,4)] by blast
  have el: "elig d1 p" using d1(3) q_elig[OF assms(1,2,4)] by simp
  have out: "p \<notin> set (q_of d1 r)" if "r < 4" for r
  proof (cases "r = q")
    case True
    with d1(4) q_distinct[OF assms(1,2)] show ?thesis by simp
  next
    case False
    with d1(4) q_disjoint[OF assms(1) assms(2) that assms(4)] show ?thesis by auto
  qed
  from enq_fresh[OF d1(2) el assms(3) out]
  obtain d2 where d2: "enq p q' d1 = Inr d2" "invar d2" "elig d2 = elig d1"
      "q_of d2 = (q_of d1)(q' := q_of d1 q' @ [p])" by blast
  have "bindR (deq p q d) (enq p q') = Inr d2" by (simp add: d1(1) d2(1))
  with d2(2,3,4) d1(3,4) show ?thesis unfolding Let_def by metis
qed

text \<open>A process that is in a queue after \<open>enq\<close> was there before or is the one enqueued.\<close>

lemma enq_any:
  assumes "invar d" and "elig d p" and "q < 4" and "\<And>r. r < 4 \<Longrightarrow> p \<in> set (q_of d r) \<Longrightarrow> r = q"
  shows "\<exists>d'. enq p q d = Inr d' \<and> invar d' \<and> elig d' = elig d \<and>
    q_of d' = (q_of d)(q := if p \<in> set (q_of d q) then q_of d q else q_of d q @ [p])"
proof (cases "p \<in> set (q_of d q)")
  case True
  from enq_again[OF assms(1,3) True] assms(1) True show ?thesis by simp
next
  case False
  with assms(4) have "\<And>r. r < 4 \<Longrightarrow> p \<notin> set (q_of d r)" by blast
  from enq_fresh[OF assms(1-3) this] show ?thesis using False by simp
qed

end

section \<open>The arrays implement the interface\<close>

definition live :: "'a pst_scheme \<Rightarrow> nat \<Rightarrow> bool" where
  "live d p \<longleftrightarrow> p < NPROC \<and> p_pid (procs d p) \<noteq> 0"

lemma mlfq_inv_mem:
  assumes "mlfq_inv d" and "q < 4" and "p \<in> set (queue d q)"
  shows "p < NPROC" and "p_pid (procs d p) \<noteq> 0" and "p_queue_number (procs d p) = q"
  using assms by (auto simp: mlfq_inv_def)

lemma mlfq_inv_pid:
  assumes "mlfq_inv d" and "q < 4" and "p' \<in> set (queue d q)" and "live d p"
  shows "p_pid (procs d p') = p_pid (procs d p) \<longleftrightarrow> p' = p"
proof -
  have "pids_unique d" using assms(1) by (simp add: mlfq_inv_def)
  then show ?thesis
    using assms(4) mlfq_inv_mem(1,2)[OF assms(1-3)] unfolding pids_unique_def live_def by metis
qed

text \<open>Under the invariant the search by pid finds the process itself.\<close>

lemma queue_scan_inv:
  assumes "mlfq_inv d" and "q < 4" and "live d p"
  shows "queue_scan d q (p_pid (procs d p)) [0..<sizeofq d q] = Inr (find_index ((=) p) (queue d q))"
proof -
  have "find_index (\<lambda>p'. p_pid (procs d p') = p_pid (procs d p)) xs = find_index ((=) p) xs"
    if "set xs \<subseteq> set (queue d q)" for xs
    using that mlfq_inv_pid[OF assms(1,2) _ assms(3)] by (induction xs) auto
  with assms show ?thesis by (simp add: queue_scan_queue mlfq_inv_def)
qed

lemma queue_length_bound:
  assumes "mlfq_inv d" and "q < 4" and "p < NPROC" and "p \<notin> set (queue d q)"
  shows "sizeofq d q < NPROC"
proof -
  have "set (queue d q) \<subseteq> {..<NPROC} - {p}"
    using assms mlfq_inv_mem(1)[OF assms(1,2)] by auto
  then have "card (set (queue d q)) \<le> card ({..<NPROC} - {p})"
    by (rule card_mono[rotated]) simp
  also have "\<dots> < NPROC" using assms(3) by simp
  finally show ?thesis using assms(1,2) by (simp add: mlfq_inv_def distinct_card)
qed

text \<open>The state \<open>enqueue\<close> leaves when it appends.\<close>

definition enqueued :: "nat \<Rightarrow> nat \<Rightarrow> 'a pst_scheme \<Rightarrow> 'a pst_scheme" where
  "enqueued p q d = upd_proc p (\<lambda>x. x\<lparr>p_queueticks := 0, p_queue_number := q\<rparr>)
     (d\<lparr>multique := (multique d)(q := (multique d q)(sizeofq d q := Some p)),
        sizeofq := (sizeofq d)(q := sizeofq d q + 1)\<rparr>)"

lemma procs_enqueued:
  "procs (enqueued p q d) = (procs d)(p := (procs d p)\<lparr>p_queueticks := 0, p_queue_number := q\<rparr>)"
  by (simp add: enqueued_def)

lemma queue_enqueued: "queue (enqueued p q d) = (queue d)(q := queue d q @ [p])"
proof
  fix r
  show "queue (enqueued p q d) r = ((queue d)(q := queue d q @ [p])) r"
    by (cases "r = q") (simp_all add: queue_def enqueued_def)
qed

lemma enqueue_fresh:
  assumes "mlfq_inv d" and "live d p" and "q < 4" and "p \<notin> set (queue d q)"
  shows "enqueue p q d = Inr (enqueued p q d)"
proof -
  have "find_index ((=) p) (queue d q) = None" using assms(4) by (auto simp: find_index_None)
  moreover have "sizeofq d q < NPROC"
    using assms(2) by (intro queue_length_bound[OF assms(1,3) _ assms(4)]) (simp add: live_def)
  ultimately show ?thesis
    using queue_scan_inv[OF assms(1,3,2)] assms(3) by (simp add: enqueue_def enqueued_def)
qed

lemma enqueue_again:
  assumes "mlfq_inv d" and "q < 4" and "p \<in> set (queue d q)"
  shows "enqueue p q d = Inr d"
proof -
  have "live d p" using mlfq_inv_mem[OF assms] by (simp add: live_def)
  moreover have "find_index ((=) p) (queue d q) \<noteq> None" using assms(3) by (auto simp: find_index_None)
  ultimately show ?thesis
    using queue_scan_inv[OF assms(1,2)] assms(2) by (auto simp: enqueue_def)
qed

lemma live_enqueued: "live (enqueued p q d) = live d"
  by (simp add: live_def procs_enqueued fun_eq_iff)

lemma mlfq_inv_enqueued:
  assumes "mlfq_inv d" and "live d p" and "q < 4" and "\<And>r. r < 4 \<Longrightarrow> p \<notin> set (queue d r)"
  shows "mlfq_inv (enqueued p q d)"
  unfolding mlfq_inv_def
proof (intro conjI allI impI)
  have "pids_unique (enqueued p q d) = pids_unique d"
    by (rule pids_unique_cong) (simp add: procs_enqueued)
  with assms(1) show "pids_unique (enqueued p q d)" by (simp add: mlfq_inv_def)
  fix r :: nat assume r: "r < 4"
  have "distinct (queue d r)" "\<forall>i < sizeofq d r. multique d r i \<noteq> None"
    using assms(1) r by (simp_all add: mlfq_inv_def)
  with assms(4) r show "distinct (queue (enqueued p q d) r)"
    by (auto simp: queue_enqueued)
  show "\<forall>x \<in> set (queue (enqueued p q d) r). x < NPROC \<and> p_pid (procs (enqueued p q d) x) \<noteq> 0 \<and>
      p_queue_number (procs (enqueued p q d) x) = r"
    using assms(2,4) r mlfq_inv_mem[OF assms(1) r]
    by (auto simp: queue_enqueued procs_enqueued live_def split: if_splits)
  fix i assume "i < sizeofq (enqueued p q d) r"
  then show "multique (enqueued p q d) r i \<noteq> None"
    using \<open>\<forall>i < sizeofq d r. multique d r i \<noteq> None\<close>
    by (cases "r = q") (auto simp: enqueued_def less_Suc_eq)
qed

lemma dequeue_mem:
  assumes "mlfq_inv d" and "q < 4" and "p \<in> set (queue d q)"
  shows "\<exists>d'. dequeue p q d = Inr d' \<and> mlfq_inv d' \<and> procs d' = procs d \<and>
    queue d' = (queue d)(q := remove1 p (queue d q))"
proof -
  have lv: "live d p" using mlfq_inv_mem[OF assms] by (simp add: live_def)
  have nn: "\<forall>i < sizeofq d q. multique d q i \<noteq> None" and dq: "distinct (queue d q)"
    using assms(1,2) by (simp_all add: mlfq_inv_def)
  obtain i where i: "find_index ((=) p) (queue d q) = Some i"
    using assms(3) by (metis find_index_None not_None_eq)
  then have iq: "i < sizeofq d q" "queue d q ! i = p" by (auto simp: find_index_Some)
  define n where "n = sizeofq d q - 1"
  define d' where "d' = d\<lparr>multique := (multique d)(q := (shift_down (multique d q) [i..<n])(n := None)),
                         sizeofq := (sizeofq d)(q := n)\<rparr>"
  have "dequeue p q d = Inr d'"
    using queue_scan_inv[OF assms(1,2) lv] i iq(1) assms(2) by (simp add: dequeue_def d'_def n_def Let_def)
  moreover have pr: "procs d' = procs d" by (simp add: d'_def)
  moreover have q': "queue d' = (queue d)(q := remove1 p (queue d q))"
  proof
    fix r
    have "remove1 p (queue d q) = take i (queue d q) @ drop (i + 1) (queue d q)"
      using dq iq by (metis Suc_eq_plus1 id_take_nth_drop length_queue distinct_remove1_nth)
    then show "queue d' r = ((queue d)(q := remove1 p (queue d q))) r"
      using queue_shift(1,2)[OF iq(1) nn] unfolding d'_def n_def by simp
  qed
  moreover have "mlfq_inv d'"
    unfolding mlfq_inv_def
  proof (intro conjI allI impI)
    show "pids_unique d'" using assms(1) pids_unique_cong[of d' d] pr by (simp add: mlfq_inv_def)
    fix r :: nat assume r: "r < 4"
    then have "distinct (queue d r)" using assms(1) by (simp add: mlfq_inv_def)
    then show "distinct (queue d' r)" by (auto simp: q')
    show "\<forall>x \<in> set (queue d' r). x < NPROC \<and> p_pid (procs d' x) \<noteq> 0 \<and> p_queue_number (procs d' x) = r"
      using mlfq_inv_mem[OF assms(1) r] by (auto simp: q' pr dest: notin_set_remove1[rotated] split: if_splits)
    fix j assume j: "j < sizeofq d' r"
    show "multique d' r j \<noteq> None"
    proof (cases "r = q")
      case True
      with j queue_shift(3)[OF iq(1) nn] show ?thesis unfolding d'_def n_def by simp
    next
      case False
      with j r assms(1) show ?thesis by (simp add: d'_def mlfq_inv_def)
    qed
  qed
  ultimately show ?thesis by blast
qed

lemma dequeue_absent:
  assumes "mlfq_inv d" and "live d p" and "q < 4" and "p \<notin> set (queue d q)"
  shows "dequeue p q d = Inr d"
proof -
  have "find_index ((=) p) (queue d q) = None" using assms(4) by (auto simp: find_index_None)
  then show ?thesis
    using queue_scan_inv[OF assms(1,3,2)] assms(3) by (simp add: dequeue_def)
qed

interpretation mlfq: level_queues enqueue dequeue queue mlfq_inv live
proof unfold_locales
  fix d :: "'a pst_scheme" and p q q' :: nat
  assume inv: "mlfq_inv d" and q: "q < 4"
  show "live d p" if "p \<in> set (queue d q)"
    using mlfq_inv_mem[OF inv q that] by (simp add: live_def)
  show "distinct (queue d q)"
    using inv q by (simp add: mlfq_inv_def)
  show "q = q'" if "q' < 4" "p \<in> set (queue d q)" "p \<in> set (queue d q')"
    using mlfq_inv_mem(3)[OF inv q that(2)] mlfq_inv_mem(3)[OF inv that(1,3)] by simp
  show "enqueue p q d = Inr d" if "p \<in> set (queue d q)"
    by (rule enqueue_again[OF inv q that])
  show "\<exists>d'. dequeue p q d = Inr d' \<and> mlfq_inv d' \<and> live d' = live d \<and>
      queue d' = (queue d)(q := remove1 p (queue d q))" if "p \<in> set (queue d q)"
    using dequeue_mem[OF inv q that] by (auto simp: live_def fun_eq_iff)
next
  fix d :: "'a pst_scheme" and p q :: nat
  assume inv: "mlfq_inv d" and lv: "live d p" and q: "q < 4"
  show "\<exists>d'. enqueue p q d = Inr d' \<and> mlfq_inv d' \<and> live d' = live d \<and>
      queue d' = (queue d)(q := queue d q @ [p])" if "\<And>q'. q' < 4 \<Longrightarrow> p \<notin> set (queue d q')"
    using enqueue_fresh[OF inv lv q that[OF q]] mlfq_inv_enqueued[OF inv lv q that]
      live_enqueued queue_enqueued by blast
  show "dequeue p q d = Inr d" if "p \<notin> set (queue d q)"
    by (rule dequeue_absent[OF inv lv q that])
qed

text \<open>
  C5. The arrays \<open>multique\<close> and \<open>sizeofq\<close> implement lists: taking a queued process out of its
  level and entering it at another removes it from the one list and appends it to the other,
  in bounds, and every other list stays as it is.
\<close>

theorem queue_move:
  assumes "mlfq_inv d" and "q < 4" and "q' < 4" and "p \<in> set (queue d q)"
  shows "\<exists>d'. bindR (dequeue p q d) (enqueue p q') = Inr d' \<and> mlfq_inv d' \<and>
    queue d' = (let r = (queue d)(q := remove1 p (queue d q)) in r(q' := r q' @ [p]))"
  using mlfq.move[OF assms] unfolding Let_def by metis

definition queue_demo :: pst where
  "queue_demo = enqueued 5 0 (enqueued 4 0
     (upd_proc 4 (\<lambda>x. x\<lparr>p_pid := 1\<rparr>) (upd_proc 5 (\<lambda>x. x\<lparr>p_pid := 2\<rparr>) pst0)))"

lemma queue_demo_inv: "mlfq_inv queue_demo" "queue queue_demo 0 = [4, 5]" "queue queue_demo 1 = []"
proof -
  have q: "queue queue_demo = (\<lambda>_. [])(0 := [4, 5])"
    by (simp add: queue_demo_def queue_enqueued) (simp add: queue_def pst0_def fun_eq_iff)
  then show "queue queue_demo 0 = [4, 5]" "queue queue_demo 1 = []" by simp_all
  show "mlfq_inv queue_demo"
    unfolding mlfq_inv_def q
    by (auto simp: pids_unique_def queue_demo_def enqueued_def pst0_def proc0_def NPROC_def less_Suc_eq)
qed

theorem queue_move_witness:
  "\<exists>d'. bindR (dequeue 4 0 queue_demo) (enqueue 4 1) = Inr d' \<and> mlfq_inv d' \<and>
    queue d' 0 = [5] \<and> queue d' 1 = [4]"
  using queue_move[OF queue_demo_inv(1), of 0 1 4] queue_demo_inv(2,3) by auto

end
