(* ===== verification/Sched.thy ===== *)
theory Sched
  imports ProcTable
begin

text \<open>
  The three schedulers of \<open>kernel/proc.c\<close> (\<open>scheduler\<close>, chosen at build time by \<open>LBS\<close>, \<open>MLFQ\<close>
  or neither) and the random numbers the lottery draws. One pass of the \<open>for(;;)\<close> loop of
  \<open>scheduler\<close> is one function.

  \<open>swtch\<close> hands the hart to the chosen process. What runs from there until the process
  switches back is the process itself, and stands as the parameter \<open>run\<close>.
\<close>

section \<open>Random numbers\<close>

definition LCG_A :: uint64 where "LCG_A = 1664525"
definition LCG_C :: uint64 where "LCG_C = 1013904223"
definition LCG_M :: uint64 where "LCG_M = 0xFFFFFFFF"

definition rand :: "'a pst_scheme \<Rightarrow> uint \<times> 'a pst_scheme" where
  "rand d = (let d = d\<lparr>seed := (LCG_A * seed d + LCG_C) AND LCG_M\<rparr> in (ucast (seed d), d))"

definition rand_at_max :: "cint \<Rightarrow> 'a pst_scheme \<Rightarrow> cint \<times> 'a pst_scheme" where
  "rand_at_max parameter d = (let (r, d) = rand d in (r mod (parameter + 1), d))"

section \<open>Running a process\<close>

text \<open>
  The block all three schedulers end in: lock the process, and if it is still RUNNABLE give it
  the hart.
\<close>

definition dispatch ::
  "(nat \<Rightarrow> 'a pst_scheme kst \<Rightarrow> 'a pst_scheme kst res) \<Rightarrow> nat \<Rightarrow> 'a pst_scheme kst \<Rightarrow> 'a pst_scheme kst res" where
  "dispatch run p = with_lock (ProcLock p) (\<lambda>(h, d).
     if p_state (procs d p) = RUNNABLE
     then let d = upd_proc p (\<lambda>x. x\<lparr>p_state := RUNNING\<rparr>) d;
              h = mycpu_update (\<lambda>c. c\<lparr>c_proc := Some p\<rparr>) h
          in bindR (run p (h, d)) (\<lambda>(h, d). Inr (mycpu_update (\<lambda>c. c\<lparr>c_proc := None\<rparr>) h, d))
     else Inr (h, d))"

section \<open>Round robin (neither macro defined)\<close>

definition scheduler_rr ::
  "(nat \<Rightarrow> 'a pst_scheme kst \<Rightarrow> 'a pst_scheme kst res) \<Rightarrow> 'a pst_scheme kst \<Rightarrow> 'a pst_scheme kst res" where
  "scheduler_rr run st = (case st of (h, d) \<Rightarrow> foldR (dispatch run) [0..<NPROC] (intr_on h, d))"

section \<open>Lottery (LBS)\<close>

text \<open>Step 1: the tickets of the RUNNABLE processes, each read under its lock.\<close>

definition add_tickets :: "nat \<Rightarrow> cint \<times> 'a pst_scheme \<Rightarrow> (cint \<times> 'a pst_scheme) res" where
  "add_tickets p x = (case x of (tot, d) \<Rightarrow>
     Inr (if p_state (procs d p) = RUNNABLE then tot + p_tickets (procs d p) else tot, d))"

definition total_tickets :: "'a pst_scheme kst \<Rightarrow> (cint \<times> 'a pst_scheme kst) res" where
  "total_tickets st = (case st of (h, d) \<Rightarrow>
     bindR (foldR (\<lambda>p. with_lock (ProcLock p) (on_data (add_tickets p))) [0..<NPROC] (h, (0, d)))
       (\<lambda>(h, (tot, d)). Inr (tot, (h, d))))"

text \<open>The process whose tickets bring the running sum to the drawn value.\<close>

fun lottery_scan :: "(nat \<Rightarrow> proc) \<Rightarrow> cint \<Rightarrow> cint \<Rightarrow> nat list \<Rightarrow> nat option" where
  "lottery_scan ps val acc [] = None"
| "lottery_scan ps val acc (p # is) =
     (if p_state (ps p) = RUNNABLE
      then let acc = acc + p_tickets (ps p)
           in if sint val \<le> sint acc then Some p else lottery_scan ps val acc is
      else lottery_scan ps val acc is)"

text \<open>Among the RUNNABLE processes with as many tickets, the one that arrived first.\<close>

fun lottery_tie :: "(nat \<Rightarrow> proc) \<Rightarrow> nat \<Rightarrow> nat list \<Rightarrow> nat" where
  "lottery_tie ps winner [] = winner"
| "lottery_tie ps winner (p # is) =
     (if p_state (ps p) \<noteq> RUNNABLE \<or> p_tickets (ps p) \<noteq> p_tickets (ps winner)
      then lottery_tie ps winner is
      else if p_arrival_time (ps p) < p_arrival_time (ps winner)
      then lottery_tie ps p is
      else lottery_tie ps winner is)"

text \<open>The draw: from the number of tickets to the process to run, if any.\<close>

definition lottery :: "cint \<Rightarrow> 'a pst_scheme \<Rightarrow> nat option \<times> 'a pst_scheme" where
  "lottery tot d =
     (let (r, d) = rand_at_max tot d;
          val = r + 1
      in (map_option (\<lambda>w. lottery_tie (procs d) w [0..<NPROC])
            (lottery_scan (procs d) val 0 [0..<NPROC]), d))"

definition scheduler_lbs ::
  "(nat \<Rightarrow> 'a pst_scheme kst \<Rightarrow> 'a pst_scheme kst res) \<Rightarrow> 'a pst_scheme kst \<Rightarrow> 'a pst_scheme kst res" where
  "scheduler_lbs run st = (case st of (h, d) \<Rightarrow>
     bindR (total_tickets (intr_on h, d)) (\<lambda>(tot, (h, d)).
       if 0 < sint tot
       then case lottery tot d of
              (None, d) \<Rightarrow> Inr (h, d)
            | (Some winner, d) \<Rightarrow> dispatch run winner (h, d)
       else Inr (h, d)))"

section \<open>Multi-level feedback queue (MLFQ)\<close>

text \<open>Put a process into the queue of its level without touching its tick count.\<close>

definition enqueue_keep :: "nat \<Rightarrow> 'a pst_scheme \<Rightarrow> 'a pst_scheme res" where
  "enqueue_keep p d =
     (let old_ticks = p_queueticks (procs d p)
      in bindR (enqueue p (p_queue_number (procs d p)) d)
           (\<lambda>d. Inr (upd_proc p (\<lambda>x. x\<lparr>p_queueticks := old_ticks\<rparr>) d)))"

definition requeue :: "nat \<Rightarrow> 'a pst_scheme \<Rightarrow> 'a pst_scheme res" where
  "requeue p d = (if p_state (procs d p) = RUNNABLE then enqueue_keep p d else Inr d)"

text \<open>The first RUNNABLE process of one level, then of the levels in order.\<close>

fun level_scan :: "'a pst_scheme \<Rightarrow> nat \<Rightarrow> nat list \<Rightarrow> nat option res" where
  "level_scan d level [] = Inr None"
| "level_scan d level (j # js) =
     (case multique d level j of
        None \<Rightarrow> Inl BadAccess
      | Some p \<Rightarrow> if p_state (procs d p) = RUNNABLE then Inr (Some p) else level_scan d level js)"

fun mlfq_scan :: "'a pst_scheme \<Rightarrow> nat list \<Rightarrow> nat option res" where
  "mlfq_scan d [] = Inr None"
| "mlfq_scan d (level # levels) =
     bindR (level_scan d level [0..<sizeofq d level]) (\<lambda>r.
       case r of Some p \<Rightarrow> Inr (Some p) | None \<Rightarrow> mlfq_scan d levels)"

definition scheduler_mlfq ::
  "(nat \<Rightarrow> 'a pst_scheme kst \<Rightarrow> 'a pst_scheme kst res) \<Rightarrow> 'a pst_scheme kst \<Rightarrow> 'a pst_scheme kst res" where
  "scheduler_mlfq run st = (case st of (h, d) \<Rightarrow>
     bindR (foldR (\<lambda>p. with_lock (ProcLock p) (on_data (requeue p))) [0..<NPROC] (intr_on h, d)) (\<lambda>(h, d).
     bindR (mlfq_scan d [0..<4]) (\<lambda>r.
       case r of None \<Rightarrow> Inr (h, d) | Some p \<Rightarrow> dispatch run p (h, d))))"

section \<open>Handing the hart over and back\<close>

definition runnable :: "(nat \<Rightarrow> proc) \<Rightarrow> nat \<Rightarrow> bool" where
  "runnable ps p \<longleftrightarrow> p_state (ps p) = RUNNABLE"

text \<open>
  How a process gives the hart back: on the same hart, holding its own lock and no other, with
  interrupts off. \<open>sched\<close> checks this before it switches.
\<close>

definition handed_back :: "nat \<Rightarrow> hst \<Rightarrow> hst \<Rightarrow> bool" where
  "handed_back p h h' \<longleftrightarrow> hartid h' = hartid h \<and> holding (ProcLock p) h' \<and> \<not> sie h' \<and> c_noff (mycpu h') = 1"

text \<open>The state in which \<open>dispatch\<close> switches to the process, and the state after it is back.\<close>

definition dispatched_h :: "nat \<Rightarrow> hst \<Rightarrow> hst" where
  "dispatched_h p h = mycpu_update (\<lambda>c. c\<lparr>c_proc := Some p\<rparr>) (locked (ProcLock p) h)"

definition idle_h :: "nat \<Rightarrow> hst \<Rightarrow> hst" where
  "idle_h p h = mycpu_update (\<lambda>c. c\<lparr>c_proc := None, c_noff := 0\<rparr>)
     (h\<lparr>sie := c_intena (mycpu h),
        locks := (locks h)(ProcLock p := (locks h (ProcLock p))\<lparr>lk_cpu := None, lk_locked := False\<rparr>)\<rparr>)"

abbreviation running :: "nat \<Rightarrow> 'a pst_scheme \<Rightarrow> 'a pst_scheme" where
  "running p d \<equiv> upd_proc p (\<lambda>x. x\<lparr>p_state := RUNNING\<rparr>) d"

lemma release_handed:
  assumes "handed_back p h h'"
  shows "release (ProcLock p) (mycpu_update (\<lambda>c. c\<lparr>c_proc := None\<rparr>) h') = Inr (idle_h p h')"
  using assms by (cases h') (simp add: handed_back_def release_def idle_h_def hart_defs)

lemma dispatch_run:
  assumes "lock_free (ProcLock p) h" and "runnable (procs d) p"
    and "run p (dispatched_h p h, running p d) = Inr (h', d')" and "handed_back p (dispatched_h p h) h'"
  shows "dispatch run p (h, d) = Inr (idle_h p h', d')"
  using assms release_handed[OF assms(4)]
  by (simp add: dispatch_def acquire_free runnable_def dispatched_h_def Let_def)

lemma dispatch_fault:
  assumes "lock_free (ProcLock p) h" and "runnable (procs d) p"
    and "run p (dispatched_h p h, running p d) = Inl e"
  shows "dispatch run p (h, d) = Inl e"
  using assms by (simp add: dispatch_def acquire_free runnable_def dispatched_h_def Let_def)

lemma dispatch_skip:
  assumes "hart_ok h" and "lock_free (ProcLock p) h" and "\<not> runnable (procs d) p"
  shows "dispatch run p (h, d) = Inr (settle h, d)"
  using assms by (simp add: dispatch_def acquire_free release_locked runnable_def)

lemma dispatch_settle:
  "lock_free (ProcLock p) h \<Longrightarrow> dispatch run p (settle h, d) = dispatch run p (h, d)"
  by (simp add: dispatch_def acquire_free locked_settle)

lemma idle_h_props:
  "hart_ok (idle_h p h)" "c_noff (mycpu (idle_h p h)) = 0" "c_proc (mycpu (idle_h p h)) = None"
  "settle (idle_h p h) = idle_h p h" "lock_free (ProcLock p) (idle_h p h)"
  "lk \<noteq> ProcLock p \<Longrightarrow> locks (idle_h p h) lk = locks h lk"
  by (simp_all add: idle_h_def hart_ok_def settle_def lock_free_def hart_defs)

text \<open>
  What the round robin scheduler relies on of a process it runs: it comes back as \<open>sched\<close> makes sure, on the same hart, with
  interrupts off and its own lock the only one held, and a lock of another process that was free is free again. What it has done
  to the table in between, to its own entry or to others', is open.
\<close>

definition hands_back :: "(nat \<Rightarrow> 'a pst_scheme kst \<Rightarrow> 'a pst_scheme kst res) \<Rightarrow> bool" where
  "hands_back run \<longleftrightarrow> (\<forall>p h d h' d'. run p (h, d) = Inr (h', d') \<longrightarrow> handed_back p h h' \<and>
     (\<forall>q. q \<noteq> p \<longrightarrow> lock_free (ProcLock q) h \<longrightarrow> lock_free (ProcLock q) h'))"

lemma lock_free_dispatched:
  "q \<noteq> p \<Longrightarrow> lock_free (ProcLock q) (dispatched_h p h) = lock_free (ProcLock q) h"
  by (simp add: dispatched_h_def locked_def lock_free_def hart_defs)

lemma dispatch_back:
  assumes "hands_back run" and "lock_free (ProcLock p) h" and "runnable (procs d) p" and "dispatch run p (h, d) = Inr (h', d')"
  shows "hart_ok h'" and "settle h' = h'" and "q \<noteq> p \<Longrightarrow> lock_free (ProcLock q) h \<Longrightarrow> lock_free (ProcLock q) h'"
proof -
  obtain h1 d1 where r: "run p (dispatched_h p h, running p d) = Inr (h1, d1)"
    using assms(4) dispatch_fault[OF assms(2,3), of run] by (cases "run p (dispatched_h p h, running p d)") auto
  then have b: "handed_back p (dispatched_h p h) h1"
    "q \<noteq> p \<Longrightarrow> lock_free (ProcLock q) (dispatched_h p h) \<Longrightarrow> lock_free (ProcLock q) h1" for q
    using assms(1) unfolding hands_back_def by blast+
  have h': "h' = idle_h p h1" using dispatch_run[of p h d run, OF assms(2,3) r b(1)] assms(4) by simp
  show "hart_ok h'" "settle h' = h'" unfolding h' by (fact idle_h_props)+
  show "lock_free (ProcLock q) h'" if "q \<noteq> p" "lock_free (ProcLock q) h"
    using b(2)[OF that(1)] that lock_free_dispatched[OF that(1)] idle_h_props(6)[of "ProcLock q" p h1]
    unfolding h' by (simp add: lock_free_def)
qed

text \<open>The processes among \<open>ps\<close> that get a turn, each judged in the state that the turns before it leave.\<close>

fun turns :: "(nat \<Rightarrow> 'a pst_scheme kst \<Rightarrow> 'a pst_scheme kst res) \<Rightarrow> nat list \<Rightarrow> 'a pst_scheme kst \<Rightarrow> nat list" where
  "turns run [] st = []"
| "turns run (p # ps) st =
     (if runnable (procs (snd st)) p then p # (case dispatch run p st of Inl e \<Rightarrow> [] | Inr st' \<Rightarrow> turns run ps st')
      else turns run ps st)"

lemma turns_subset: "set (turns run ps st) \<subseteq> set ps"
proof (induction ps arbitrary: st)
  case (Cons p ps)
  show ?case using Cons[of st] Cons by (cases "dispatch run p st") (simp_all add: subset_insertI2)
qed simp

lemma turns_sorted: "sorted_wrt (<) ps \<Longrightarrow> sorted_wrt (<) (turns run ps st)"
proof (induction ps arbitrary: st)
  case (Cons p ps)
  have "\<forall>q \<in> set (turns run ps st'). p < q" for st' using Cons.prems turns_subset[of run ps st'] by auto
  with Cons show ?case by (cases "dispatch run p st") simp_all
qed simp

lemma foldR_turns:
  assumes "hands_back run" and "hart_ok h" and "settle h = h" and "distinct ps" and "\<forall>p \<in> set ps. lock_free (ProcLock p) h"
  shows "foldR (dispatch run) ps (h, d) = foldR (dispatch run) (turns run ps (h, d)) (h, d)"
  using assms(2-)
proof (induction ps arbitrary: h d)
  case (Cons p ps)
  show ?case
  proof (cases "runnable (procs d) p")
    case False
    with Cons show ?thesis by (simp add: dispatch_skip)
  next
    case True
    show ?thesis
    proof (cases "dispatch run p (h, d)")
      case (Inr s)
      obtain h' d' where s: "s = (h', d')" by fastforce
      have free: "lock_free (ProcLock p) h" using Cons.prems(4) by simp
      note B = dispatch_back[OF assms(1) free True Inr[unfolded s]]
      have "\<forall>q \<in> set ps. lock_free (ProcLock q) h'" using B(3) Cons.prems(3,4) by (metis distinct.simps(2) list.set_intros(2))
      then show ?thesis using True Inr s Cons.IH[OF B(1,2)] Cons.prems(3) by simp
    qed (use True in simp)
  qed
qed simp

lemma turns_iff:
  assumes "sorted_wrt (<) ps" and "p \<in> set ps"
    and "foldR (dispatch run) (filter (\<lambda>q. q < p) (turns run ps (h, d))) (h, d) = Inr (h', d')"
  shows "p \<in> set (turns run ps (h, d)) \<longleftrightarrow> runnable (procs d') p"
  using assms
proof (induction ps arbitrary: h d)
  case (Cons q ps)
  have above: "\<forall>r \<in> set (turns run ps st). q < r" for st using Cons.prems(1) turns_subset[of run ps st] by auto
  have none: "filter (\<lambda>r. r < q) (turns run ps st) = []" for st using above[of st] by (auto simp: filter_empty_conv)
  show ?case
  proof (cases "p = q")
    case True
    then show ?thesis using Cons.prems(3) above[of "(h, d)"] none by (auto split: if_splits sum.splits)
  next
    case False
    then have "q < p" "p \<in> set ps" "sorted_wrt (<) ps" using Cons.prems(1,2) by auto
    then show ?thesis using Cons.prems(3) Cons.IH by (auto split: if_splits sum.splits)
  qed
qed simp

text \<open>
  C10. A pass of the round robin scheduler consists of turns in the order of the table, at most one for each process, and a process
  has one exactly when it is RUNNABLE in the state that the turns before it leave: also when it is RUNNABLE only because an
  earlier process of the pass has woken or forked it, and not when an earlier process has changed its state. The processes may
  change the table as they like; they hand the hart back as \<open>sched\<close> demands, and the locks of the table are free when the pass begins.
\<close>

theorem scheduler_rr_round:
  assumes "hands_back run" and "hart_ok (intr_on h)" and "\<forall>p < NPROC. lock_free (ProcLock p) h"
  shows "\<exists>ts. sorted_wrt (<) ts \<and> set ts \<subseteq> {..<NPROC} \<and>
    scheduler_rr run (h, d) = foldR (dispatch run) ts (settle (intr_on h), d) \<and>
    (\<forall>p h' d'. p < NPROC \<longrightarrow> foldR (dispatch run) (filter (\<lambda>q. q < p) ts) (settle (intr_on h), d) = Inr (h', d') \<longrightarrow>
       (p \<in> set ts \<longleftrightarrow> runnable (procs d') p))"
proof -
  let ?ts = "turns run [0..<NPROC] (settle (intr_on h), d)"
  have free: "\<forall>p < NPROC. lock_free (ProcLock p) (intr_on h)"
    using assms(3) by (simp add: lock_free_def intr_on_def)
  have "[0..<NPROC] = 0 # [1..<NPROC]" by (simp add: NPROC_def upt_conv_Cons)
  then have settled: "foldR (dispatch run) [0..<NPROC] (intr_on h, d) =
      foldR (dispatch run) [0..<NPROC] (settle (intr_on h), d)"
    using free by (simp add: dispatch_settle NPROC_def)
  have "scheduler_rr run (h, d) = foldR (dispatch run) ?ts (settle (intr_on h), d)"
    unfolding scheduler_rr_def prod.case settled by (rule foldR_turns[OF assms(1)]) (use assms(2) free in auto)
  moreover have "sorted_wrt (<) ?ts" "set ?ts \<subseteq> {..<NPROC}"
    using turns_sorted[of "[0..<NPROC]" run "(settle (intr_on h), d)"] turns_subset[of run "[0..<NPROC]" "(settle (intr_on h), d)"]
    by (auto simp: sorted_wrt_upt)
  moreover have "p \<in> set ?ts \<longleftrightarrow> runnable (procs d') p"
    if "p < NPROC" "foldR (dispatch run) (filter (\<lambda>q. q < p) ?ts) (settle (intr_on h), d) = Inr (h', d')" for p h' d'
    using turns_iff[OF _ _ that(2)] that(1) by simp
  ultimately show ?thesis by blast
qed

section \<open>The lottery is fair\<close>

text \<open>Tickets as numbers, zero for a process that is not RUNNABLE, and their sum.\<close>

definition stake :: "(nat \<Rightarrow> proc) \<Rightarrow> nat \<Rightarrow> int" where
  "stake ps p = (if runnable ps p then sint (p_tickets (ps p)) else 0)"

definition stakes :: "(nat \<Rightarrow> proc) \<Rightarrow> nat list \<Rightarrow> int" where
  "stakes ps is = sum_list (map (stake ps) is)"

text \<open>No process has a negative number of tickets and their sum fits an \<open>int\<close>.\<close>

definition tickets_ok :: "(nat \<Rightarrow> proc) \<Rightarrow> nat list \<Rightarrow> bool" where
  "tickets_ok ps is \<longleftrightarrow> (\<forall>p \<in> set is. 0 \<le> stake ps p) \<and> stakes ps is < 2 ^ 31 - 1"

lemma sint_add_small:
  fixes a b :: cint
  assumes "0 \<le> sint a" "0 \<le> sint b" "sint a + sint b < 2 ^ 31"
  shows "sint (a + b) = sint a + sint b"
  using assms by (simp add: sint_word_ariths signed_take_bit_int_eq_self)

lemma stakes_Cons [simp]: "stakes ps (p # is) = stake ps p + stakes ps is"
  by (simp add: stakes_def)

lemma stakes_Nil [simp]: "stakes ps [] = 0"
  by (simp add: stakes_def)

lemma stakes_append [simp]: "stakes ps (xs @ ys) = stakes ps xs + stakes ps ys"
  by (simp add: stakes_def)

lemma stakes_nonneg: "(\<forall>p \<in> set is. 0 \<le> stake ps p) \<Longrightarrow> 0 \<le> stakes ps is"
  by (induction "is") auto

lemma foldR_add_tickets:
  "foldR add_tickets is (t, d) =
    Inr (fold (\<lambda>p t. if runnable (procs d) p then t + p_tickets (procs d p) else t) is t, d)"
  by (induction "is" arbitrary: t) (auto simp: add_tickets_def runnable_def)

lemma sint_fold_tickets:
  assumes "\<forall>p \<in> set is. 0 \<le> stake ps p" and "0 \<le> sint t" and "sint t + stakes ps is < 2 ^ 31"
  shows "sint (fold (\<lambda>p t. if runnable ps p then t + p_tickets (ps p) else t) is t) = sint t + stakes ps is"
  using assms
proof (induction "is" arbitrary: t)
  case Nil
  then show ?case by simp
next
  case (Cons p "is")
  show ?case
  proof (cases "runnable ps p")
    case True
    have "0 \<le> stakes ps is" using Cons.prems(1) by (intro stakes_nonneg) simp
    with True Cons.prems have "sint (t + p_tickets (ps p)) = sint t + stake ps p"
      by (subst sint_add_small) (auto simp: stake_def)
    with True Cons.prems Cons.IH[of "t + p_tickets (ps p)"] show ?thesis by simp
  next
    case False
    with Cons show ?thesis by (simp add: stake_def)
  qed
qed

text \<open>Where the scan stops, in terms of sums of tickets.\<close>

lemma lottery_scan_None:
  assumes "\<forall>p \<in> set is. 0 \<le> stake ps p" and "0 \<le> sint acc" and "sint acc + stakes ps is < 2 ^ 31"
    and "sint acc < sint v"
  shows "lottery_scan ps v acc is = None \<longleftrightarrow> sint acc + stakes ps is < sint v"
  using assms
proof (induction "is" arbitrary: acc)
  case Nil
  then show ?case by simp
next
  case (Cons p "is")
  have nn: "0 \<le> stakes ps is" using Cons.prems(1) by (intro stakes_nonneg) simp
  show ?case
  proof (cases "runnable ps p")
    case True
    have eq: "sint (acc + p_tickets (ps p)) = sint acc + stake ps p"
      using True Cons.prems nn by (subst sint_add_small) (auto simp: stake_def)
    show ?thesis
    proof (cases "sint v \<le> sint acc + stake ps p")
      case le: True
      with True eq nn show ?thesis by (simp add: runnable_def)
    next
      case False
      with True eq Cons.prems Cons.IH[of "acc + p_tickets (ps p)"] show ?thesis
        by (simp add: runnable_def add.assoc)
    qed
  next
    case False
    with Cons show ?thesis by (simp add: stake_def runnable_def)
  qed
qed

lemma lottery_scan_Some:
  assumes "\<forall>p \<in> set is. 0 \<le> stake ps p" and "0 \<le> sint acc" and "sint acc + stakes ps is < 2 ^ 31"
    and "sint acc < sint v" and "lottery_scan ps v acc is = Some p"
  shows "\<exists>xs ys. is = xs @ p # ys \<and> runnable ps p \<and>
    sint acc + stakes ps xs < sint v \<and> sint v \<le> sint acc + stakes ps xs + stake ps p"
  using assms
proof (induction "is" arbitrary: acc)
  case Nil
  then show ?case by simp
next
  case (Cons x "is")
  have nn: "0 \<le> stakes ps is" using Cons.prems(1) by (intro stakes_nonneg) simp
  show ?case
  proof (cases "runnable ps x")
    case True
    have eq: "sint (acc + p_tickets (ps x)) = sint acc + stake ps x"
      using True Cons.prems nn by (subst sint_add_small) (auto simp: stake_def)
    show ?thesis
    proof (cases "sint v \<le> sint acc + stake ps x")
      case le: True
      with True eq Cons.prems(4,5) have "x = p" by (simp add: runnable_def)
      with le True Cons.prems(4) show ?thesis by (intro exI[of _ "[]"] exI[of _ "is"]) simp
    next
      case False
      with True eq Cons.prems(5) have "lottery_scan ps v (acc + p_tickets (ps x)) is = Some p"
        by (simp add: runnable_def)
      with False eq Cons.prems Cons.IH[of "acc + p_tickets (ps x)"]
      obtain xs ys where "is = xs @ p # ys" "runnable ps p"
          "sint acc + stake ps x + stakes ps xs < sint v"
          "sint v \<le> sint acc + stake ps x + stakes ps xs + stake ps p"
        by auto
      then show ?thesis by (intro exI[of _ "x # xs"] exI[of _ ys]) simp
    qed
  next
    case False
    with Cons.prems(5) have "lottery_scan ps v acc is = Some p" by (simp add: runnable_def)
    with False Cons.prems Cons.IH[of acc]
    obtain xs ys where "is = xs @ p # ys" "runnable ps p" "sint acc + stakes ps xs < sint v"
        "sint v \<le> sint acc + stakes ps xs + stake ps p"
      by (auto simp: stake_def)
    with False show ?thesis by (intro exI[of _ "x # xs"] exI[of _ ys]) (simp add: stake_def)
  qed
qed

text \<open>With every process listed once, the values that select a process are an interval.\<close>

lemma lottery_scan_iff:
  assumes ok: "tickets_ok ps (xs @ p # ys)" and d: "distinct (xs @ p # ys)" and v: "1 \<le> sint v"
    and r: "runnable ps p"
  shows "lottery_scan ps v 0 (xs @ p # ys) = Some p \<longleftrightarrow>
    stakes ps xs < sint v \<and> sint v \<le> stakes ps xs + stake ps p" (is "?L \<longleftrightarrow> ?R")
proof -
  have nn: "\<forall>q \<in> set (xs @ p # ys). 0 \<le> stake ps q" and b: "stakes ps (xs @ p # ys) < 2 ^ 31 - 1"
    using ok by (auto simp: tickets_ok_def)
  have mono: "stakes ps us + stake ps q \<le> stakes ps (us @ q # ws)"
    if "\<forall>x \<in> set ws. 0 \<le> stake ps x" for us q ws
    using stakes_nonneg[OF that] by simp
  show ?thesis
  proof
    assume ?L
    from lottery_scan_Some[OF nn _ _ _ this] b v
    obtain us ws where "xs @ p # ys = us @ p # ws"
        "stakes ps us < sint v" "sint v \<le> stakes ps us + stake ps p" by auto
    moreover from this(1) d have "us = xs" by (metis append_Cons_eq_iff distinct_append not_distinct_conv_prefix
      distinct.simps(2) disjoint_iff list.set_intros(1))
    ultimately show ?R by simp
  next
    assume R: ?R
    have "lottery_scan ps v 0 (xs @ p # ys) \<noteq> None"
      using lottery_scan_None[OF nn, of 0 v] b v R stakes_nonneg[of ys ps] nn by auto
    then obtain q where q: "lottery_scan ps v 0 (xs @ p # ys) = Some q" by blast
    from lottery_scan_Some[OF nn _ _ _ q] b v
    obtain us ws where e: "xs @ p # ys = us @ q # ws"
        "stakes ps us < sint v" "sint v \<le> stakes ps us + stake ps q" by auto
    have "q = p"
    proof (rule ccontr)
      assume "q \<noteq> p"
      from e(1) this consider zs where "xs = us @ q # zs" | zs where "us = xs @ p # zs"
        by (auto simp: append_eq_append_conv2 Cons_eq_append_conv append_eq_Cons_conv)
      then show False
      proof cases
        case 1
        then have "\<forall>x \<in> set zs. 0 \<le> stake ps x" using nn by auto
        from mono[OF this, of us q] 1 R e(3) show False by simp
      next
        case 2
        then have "\<forall>x \<in> set zs. 0 \<le> stake ps x" using nn e(1) by auto
        from mono[OF this, of xs p] 2 R e(2) show False by simp
      qed
    qed
    with q show ?L by simp
  qed
qed

lemma lottery_tie_spec:
  "p_tickets (ps (lottery_tie ps w is)) = p_tickets (ps w) \<and>
   (runnable ps w \<longrightarrow> runnable ps (lottery_tie ps w is)) \<and>
   p_arrival_time (ps (lottery_tie ps w is)) \<le> p_arrival_time (ps w) \<and>
   (\<forall>q \<in> set is. runnable ps q \<longrightarrow> p_tickets (ps q) = p_tickets (ps w) \<longrightarrow>
      p_arrival_time (ps (lottery_tie ps w is)) \<le> p_arrival_time (ps q)) \<and>
   (lottery_tie ps w is = w \<or> lottery_tie ps w is \<in> set is)"
proof (induction "is" arbitrary: w)
  case Nil
  then show ?case by simp
next
  case (Cons p "is")
  show ?case
  proof (cases "runnable ps p \<and> p_tickets (ps p) = p_tickets (ps w)")
    case False
    with Cons[of w] show ?thesis by (auto simp: runnable_def)
  next
    case True
    with Cons[of w] Cons[of p] show ?thesis
      by (cases "p_arrival_time (ps p) < p_arrival_time (ps w)")
        (auto simp: runnable_def intro: order.trans less_imp_le)
  qed
qed

text \<open>The draw: never negative and never above the number of tickets.\<close>

lemma rand_at_max_range:
  assumes "0 \<le> sint tot" and "sint tot < 2 ^ 31 - 1" and "rand_at_max tot d = (r, d')"
  shows "0 \<le> sint r \<and> sint r \<le> sint tot \<and> sint (r + 1) = sint r + 1"
proof -
  obtain x where r: "r = x mod (tot + 1)"
    using assms(3) by (auto simp: rand_at_max_def rand_def Let_def)
  have "uint (tot + 1) = uint tot + 1"
    using assms(2) unfolding uint_sint_nonneg[OF assms(1), symmetric] by (simp add: uint_word_ariths)
  then have "uint r = uint x mod (sint tot + 1)"
    by (simp add: r uint_mod uint_sint_nonneg[OF assms(1)])
  then have ur: "0 \<le> uint r" "uint r \<le> sint tot"
    using assms(1) pos_mod_bound[of "sint tot + 1" "uint x"] by (simp, linarith)
  have sr: "sint r = uint r" by (rule sint_uint_small) (use ur assms(2) in simp)
  have "sint (r + 1) = sint r + 1"
    using sint_add_small[of r 1] sr ur assms(2) by simp
  with ur sr show ?thesis by simp
qed

lemma rand_at_max_procs: "rand_at_max tot d = (r, d') \<Longrightarrow> procs d' = procs d"
  by (auto simp: rand_at_max_def rand_def Let_def)

lemma total_tickets_eq:
  assumes "hart_ok h" and "\<And>p. p < NPROC \<Longrightarrow> lock_free (ProcLock p) h"
    and "tickets_ok (procs d) [0..<NPROC]"
  shows "\<exists>tot. total_tickets (h, d) = Inr (tot, (settle h, d)) \<and> sint tot = stakes (procs d) [0..<NPROC]"
proof -
  define tot :: cint where "tot = fold (\<lambda>p t. if runnable (procs d) p then t + p_tickets (procs d p) else t) [0..<NPROC] 0"
  have "foldR (\<lambda>p. with_lock (ProcLock p) (on_data (add_tickets p))) [0..<NPROC] (h, (0, d)) =
      Inr (settle h, (tot, d))"
    by (subst with_lock_scan[OF assms(1)]) (use assms(2) in \<open>auto simp: foldR_add_tickets tot_def NPROC_def\<close>)
  moreover have "sint tot = stakes (procs d) [0..<NPROC]"
    using sint_fold_tickets[of "[0..<NPROC]" "procs d" 0] assms(3) by (simp add: tot_def tickets_ok_def)
  ultimately show ?thesis by (auto simp: total_tickets_def)
qed

lemma lottery_cases:
  assumes ok: "tickets_ok (procs d) [0..<NPROC]" and tot: "sint tot = stakes (procs d) [0..<NPROC]"
    and l: "lottery tot d = (w, d')"
  shows "procs d' = procs d"
    and "w = None \<longleftrightarrow> fst (rand_at_max tot d) = tot"
    and "\<And>p. w = Some p \<Longrightarrow> p < NPROC \<and> runnable (procs d) p \<and>
      (\<forall>q < NPROC. runnable (procs d) q \<longrightarrow> p_tickets (procs d q) = p_tickets (procs d p) \<longrightarrow>
        p_arrival_time (procs d p) \<le> p_arrival_time (procs d q))"
proof -
  obtain r d1 where r: "rand_at_max tot d = (r, d1)" by fastforce
  let ?scan = "lottery_scan (procs d) (r + 1) 0 [0..<NPROC]"
  have eq: "w = map_option (\<lambda>w. lottery_tie (procs d) w [0..<NPROC]) ?scan" "d' = d1"
    using l r rand_at_max_procs[OF r] by (auto simp: lottery_def)
  show "procs d' = procs d" using rand_at_max_procs[OF r] eq(2) by simp
  have nn: "\<forall>p \<in> set [0..<NPROC]. 0 \<le> stake (procs d) p"
    and b: "stakes (procs d) [0..<NPROC] < 2 ^ 31 - 1" using ok by (auto simp: tickets_ok_def)
  have rr: "0 \<le> sint r" "sint r \<le> sint tot" "sint (r + 1) = sint r + 1"
    using rand_at_max_range[OF _ _ r] stakes_nonneg[OF nn] b tot by simp_all
  have "?scan = None \<longleftrightarrow> sint tot < sint r + 1"
    using lottery_scan_None[OF nn, of 0 "r + 1"] b rr tot by simp
  also have "\<dots> \<longleftrightarrow> sint r = sint tot" using rr(2) by linarith
  also have "\<dots> \<longleftrightarrow> r = tot" by (rule sint_inject)
  finally show "w = None \<longleftrightarrow> fst (rand_at_max tot d) = tot" using eq(1) r by auto
  fix p assume "w = Some p"
  with eq(1) obtain v where v: "?scan = Some v" "p = lottery_tie (procs d) v [0..<NPROC]"
    by (cases ?scan) auto
  from lottery_scan_Some[OF nn _ _ _ v(1)] b rr
  obtain xs ys where v': "[0..<NPROC] = xs @ v # ys" "runnable (procs d) v" by auto
  from v'(1) have "v \<in> set [0..<NPROC]" by (metis in_set_conv_decomp)
  with v'(2) lottery_tie_spec[of "procs d" v "[0..<NPROC]"]
  show "p < NPROC \<and> runnable (procs d) p \<and>
      (\<forall>q < NPROC. runnable (procs d) q \<longrightarrow> p_tickets (procs d q) = p_tickets (procs d p) \<longrightarrow>
        p_arrival_time (procs d p) \<le> p_arrival_time (procs d q))"
    unfolding v(2) by auto
qed

text \<open>The values that select a process, of all the values from 1 to the number of tickets.\<close>

definition winning :: "(nat \<Rightarrow> proc) \<Rightarrow> nat \<Rightarrow> int set" where
  "winning ps p = {v. 1 \<le> v \<and> v \<le> stakes ps [0..<NPROC] \<and>
     lottery_scan ps (word_of_int v) 0 [0..<NPROC] = Some p}"

lemma winning_interval:
  assumes "tickets_ok ps (xs @ p # ys)" and "[0..<NPROC] = xs @ p # ys" and "runnable ps p"
  shows "winning ps p = {stakes ps xs <.. stakes ps xs + stake ps p}"
proof -
  have nn: "\<forall>q \<in> set (xs @ p # ys). 0 \<le> stake ps q" and b: "stakes ps (xs @ p # ys) < 2 ^ 31 - 1"
    using assms(1) by (auto simp: tickets_ok_def)
  have le: "0 \<le> stakes ps xs" "0 \<le> stakes ps ys" using nn by (auto intro: stakes_nonneg)
  have d: "distinct (xs @ p # ys)" using assms(2) by (metis distinct_upt)
  have "sint (word_of_int v :: cint) = v" if "1 \<le> v" "v \<le> stakes ps (xs @ p # ys)" for v
    using that b by (simp add: sint_uint uint_word_of_int signed_take_bit_int_eq_self)
  with lottery_scan_iff[OF assms(1) d _ assms(3)] le show ?thesis
    unfolding winning_def assms(2) by (auto simp: greaterThanAtMost_iff)
qed

text \<open>
  C2. The lottery is proportional: of the values 1 to \<open>total_tickets\<close> the scan can be started
  with, exactly as many select a RUNNABLE process as it has tickets.
\<close>

theorem lottery_proportional:
  assumes "tickets_ok ps [0..<NPROC]" and "p < NPROC" and "runnable ps p"
  shows "card (winning ps p) = unat (p_tickets (ps p))"
proof -
  have "p \<in> set [0..<NPROC]" using assms(2) by simp
  then obtain xs ys where xs: "[0..<NPROC] = xs @ p # ys" by (metis split_list)
  have "card (winning ps p) = nat (stake ps p)"
    using winning_interval[OF _ xs assms(3)] assms(1) xs by simp
  moreover have "0 \<le> stake ps p" using assms(1,2) by (auto simp: tickets_ok_def)
  ultimately show ?thesis using assms(3) by (simp add: stake_def sint_nonneg_unat)
qed

text \<open>
  C3. One round of the lottery scheduler. With no tickets among the RUNNABLE processes it idles.
  Otherwise it draws, and unless the draw is the number of tickets itself it runs a RUNNABLE
  process, the one that arrived first of those with as many tickets.
\<close>

theorem scheduler_lbs_round:
  assumes "hart_ok (intr_on h)" and "\<forall>p < NPROC. lock_free (ProcLock p) h"
    and "tickets_ok (procs d) [0..<NPROC]"
  shows "\<exists>tot d'. sint tot = stakes (procs d) [0..<NPROC] \<and> procs d' = procs d \<and>
    (if sint tot = 0 then scheduler_lbs run (h, d) = Inr (settle (intr_on h), d)
     else if fst (rand_at_max tot d) = tot then scheduler_lbs run (h, d) = Inr (settle (intr_on h), d')
     else \<exists>p < NPROC. runnable (procs d) p \<and>
       (\<forall>q < NPROC. runnable (procs d) q \<longrightarrow> p_tickets (procs d q) = p_tickets (procs d p) \<longrightarrow>
          p_arrival_time (procs d p) \<le> p_arrival_time (procs d q)) \<and>
       scheduler_lbs run (h, d) = dispatch run p (settle (intr_on h), d'))"
proof -
  have "\<And>p. p < NPROC \<Longrightarrow> lock_free (ProcLock p) (intr_on h)"
    using assms(2) by (simp add: lock_free_def intr_on_def)
  from total_tickets_eq[OF assms(1) this assms(3)] obtain tot where
    tot: "total_tickets (intr_on h, d) = Inr (tot, (settle (intr_on h), d))"
      "sint tot = stakes (procs d) [0..<NPROC]" by blast
  have "0 \<le> sint tot" using assms(3) tot(2) stakes_nonneg by (auto simp: tickets_ok_def)
  obtain w d' where l: "lottery tot d = (w, d')" by fastforce
  have eq: "scheduler_lbs run (h, d) = (if 0 < sint tot then case w of None \<Rightarrow> Inr (settle (intr_on h), d')
      | Some p \<Rightarrow> dispatch run p (settle (intr_on h), d') else Inr (settle (intr_on h), d))"
    using tot(1) l by (simp add: scheduler_lbs_def)
  note lc = lottery_cases[OF assms(3) tot(2) l]
  show ?thesis
  proof (cases w)
    case None
    with eq lc(1,2) tot(2) \<open>0 \<le> sint tot\<close> show ?thesis
      by (intro exI[of _ tot] exI[of _ d']) simp
  next
    case (Some p)
    from lc(3)[OF Some] lc(1,2) eq Some tot(2) \<open>0 \<le> sint tot\<close> show ?thesis
      by (intro exI[of _ tot] exI[of _ d']) auto
  qed
qed

lemma even_ucast: "even (ucast x :: uint) \<longleftrightarrow> even x" for x :: uint64
  using bit_ucast_iff[where 'a = 32, of x 0] unfolding bit_0 by simp

text \<open>The generator's low bit alternates.\<close>

lemma rand_parity:
  "rand d = (r, d') \<Longrightarrow> (odd r \<longleftrightarrow> even (seed d)) \<and> (odd (seed d') \<longleftrightarrow> even (seed d))"
  by (auto simp: rand_def Let_def LCG_A_def LCG_C_def LCG_M_def even_and_iff even_ucast)

text \<open>
  C11. The draw reaches one value too far. A lone RUNNABLE process with one ticket is passed over
  whenever the seed is even, and the seed is even in every other round: such a process
  runs in only half of the rounds.
\<close>

theorem lottery_lone_process:
  assumes "p < NPROC" and "\<forall>q < NPROC. runnable (procs d) q \<longleftrightarrow> q = p" and "p_tickets (procs d p) = 1"
  shows "\<exists>d'. lottery 1 d = (if even (seed d) then None else Some p, d') \<and>
    (even (seed d') \<longleftrightarrow> odd (seed d)) \<and> procs d' = procs d"
proof -
  have st: "stake (procs d) q = (if q = p then 1 else 0)" if "q < NPROC" for q
    using that assms(2,3) by (simp add: stake_def)
  have "stakes (procs d) [0..<NPROC] = (\<Sum>q \<leftarrow> [0..<NPROC]. if q = p then 1 else 0)"
    unfolding stakes_def by (rule arg_cong[where f = sum_list]) (simp add: st)
  also have "\<dots> = 1" using assms(1) by (simp add: sum_list_distinct_conv_sum_set sum.delta)
  finally have s1: "stakes (procs d) [0..<NPROC] = sint (1 :: cint)" by simp
  then have ok: "tickets_ok (procs d) [0..<NPROC]" by (auto simp: tickets_ok_def st)
  obtain r d1 where r: "rand d = (r, d1)" by fastforce
  then have r1: "rand_at_max 1 d = (r mod 2, d1)" by (simp add: rand_at_max_def)
  obtain w d' where l: "lottery 1 d = (w, d')" by fastforce
  note lc = lottery_cases[OF ok s1[symmetric] l]
  have "d' = d1" using l r1 by (auto simp: lottery_def)
  have "w = None \<longleftrightarrow> r mod 2 = 1" using lc(2) r1 by simp
  also have "\<dots> \<longleftrightarrow> even (seed d)" using rand_parity[OF r] by (simp add: odd_iff_mod_2_eq_one)
  finally have w: "w = None \<longleftrightarrow> even (seed d)" .
  moreover have "w = Some p" if "w \<noteq> None"
    using that lc(3) assms(2) by blast
  ultimately show ?thesis using l lc(1) rand_parity[OF r] \<open>d' = d1\<close> by auto
qed

section \<open>The multi-level queue is served in order\<close>

text \<open>A process that can be scheduled has a pid and a level.\<close>

definition mlfq_table_ok :: "'a pst_scheme \<Rightarrow> bool" where
  "mlfq_table_ok d \<longleftrightarrow> (\<forall>p < NPROC. runnable (procs d) p \<longrightarrow> live d p \<and> p_queue_number (procs d p) < 4)"

lemma enqueue_keep_eq:
  assumes "mlfq_inv d" and "live d p" and "p_queue_number (procs d p) < 4"
  defines "q \<equiv> p_queue_number (procs d p)"
  shows "\<exists>d'. enqueue_keep p d = Inr d' \<and> mlfq_inv d' \<and> procs d' = procs d \<and>
    queue d' = (queue d)(q := if p \<in> set (queue d q) then queue d q else queue d q @ [p])"
proof (cases "p \<in> set (queue d q)")
  case True
  then have "enqueue_keep p d = Inr d"
    using enqueue_again[OF assms(1,3)] by (simp add: enqueue_keep_def q_def upd_proc_def)
  with True assms(1) show ?thesis by simp
next
  case False
  define d' where "d' = upd_proc p (\<lambda>x. x\<lparr>p_queueticks := p_queueticks (procs d p)\<rparr>) (enqueued p q d)"
  have out: "p \<notin> set (queue d r)" if "r < 4" for r
    using False mlfq_inv_mem(3)[OF assms(1) that] q_def by blast
  have "enqueue_keep p d = Inr d'"
    using enqueue_fresh[OF assms(1,2,3)] False by (simp add: enqueue_keep_def q_def d'_def)
  moreover have pr: "procs d' = procs d" by (simp add: d'_def procs_enqueued q_def fun_eq_iff)
  moreover have qu: "queue d' = (queue d)(q := queue d q @ [p])" by (simp add: d'_def queue_enqueued)
  moreover have "mlfq_inv d'"
  proof -
    have "mlfq_inv (enqueued p q d)"
      by (rule mlfq_inv_enqueued[OF assms(1,2) _ out]) (use assms(3) in \<open>simp add: q_def\<close>)
    then show ?thesis
      unfolding mlfq_inv_def using pids_unique_cong[of d' "enqueued p q d"]
      by (auto simp: d'_def)
  qed
  ultimately show ?thesis using False by auto
qed

text \<open>The first loop appends to each queue the RUNNABLE processes of its level it lacks.\<close>

definition missing :: "'a pst_scheme \<Rightarrow> nat list \<Rightarrow> nat \<Rightarrow> nat list" where
  "missing d ps q = filter (\<lambda>p. runnable (procs d) p \<and> p_queue_number (procs d p) = q \<and> p \<notin> set (queue d q)) ps"

lemma foldR_requeue:
  assumes "mlfq_inv d" and "mlfq_table_ok d" and "set ps \<subseteq> {..<NPROC}" and "distinct ps"
  shows "\<exists>d'. foldR requeue ps d = Inr d' \<and> mlfq_inv d' \<and> procs d' = procs d \<and>
    queue d' = (\<lambda>q. queue d q @ missing d ps q)"
  using assms(3,4)
proof (induction ps rule: rev_induct)
  case Nil
  with assms(1) show ?case by (simp add: missing_def)
next
  case (snoc p ps)
  then obtain d1 where d1: "foldR requeue ps d = Inr d1" "mlfq_inv d1" "procs d1 = procs d"
      "queue d1 = (\<lambda>q. queue d q @ missing d ps q)" by auto
  have out: "p \<notin> set (missing d ps q)" for q using snoc.prems by (simp add: missing_def)
  show ?case
  proof (cases "runnable (procs d) p")
    case False
    with d1 have "foldR requeue (ps @ [p]) d = Inr d1"
      by (simp add: foldR_append requeue_def runnable_def)
    moreover from False have "missing d (ps @ [p]) = missing d ps"
      by (simp add: missing_def fun_eq_iff)
    ultimately show ?thesis using d1 by simp
  next
    case True
    then have lv: "live d1 p" "p_queue_number (procs d1 p) < 4"
      using assms(2) snoc.prems(1) d1(3) by (auto simp: mlfq_table_ok_def live_def)
    from enqueue_keep_eq[OF d1(2) lv] obtain d2 where d2: "enqueue_keep p d1 = Inr d2" "mlfq_inv d2"
        "procs d2 = procs d1" "queue d2 = (queue d1)(p_queue_number (procs d1 p) :=
          if p \<in> set (queue d1 (p_queue_number (procs d1 p))) then queue d1 (p_queue_number (procs d1 p))
          else queue d1 (p_queue_number (procs d1 p)) @ [p])" by blast
    have "foldR requeue (ps @ [p]) d = Inr d2"
      using True d1(1,3) d2(1) by (simp add: foldR_append requeue_def runnable_def)
    moreover have "queue d2 = (\<lambda>q. queue d q @ missing d (ps @ [p]) q)"
      using True d2(4) d1(3,4) out by (auto simp: fun_eq_iff missing_def)
    ultimately show ?thesis using d2 d1(3) by simp
  qed
qed

lemma level_scan_queue:
  assumes "\<forall>i < sizeofq d q. multique d q i \<noteq> None"
  shows "level_scan d q [0..<sizeofq d q] = Inr (List.find (runnable (procs d)) (queue d q))"
proof -
  have "level_scan d q is = Inr (List.find (runnable (procs d)) (map (\<lambda>i. the (multique d q i)) is))"
    if "\<forall>i \<in> set is. multique d q i \<noteq> None" for "is"
    using that by (induction "is") (auto simp: runnable_def split: option.splits)
  with assms show ?thesis by (simp add: queue_def)
qed

lemma mlfq_scan_queues:
  assumes "mlfq_inv d" and "\<forall>q \<in> set qs. q < 4"
  shows "mlfq_scan d qs = Inr (List.find (runnable (procs d)) (concat (map (queue d) qs)))"
  using assms(2)
proof (induction qs)
  case Nil
  then show ?case by simp
next
  case (Cons q qs)
  have "level_scan d q [0..<sizeofq d q] = Inr (List.find (runnable (procs d)) (queue d q))"
    using assms(1) Cons.prems by (intro level_scan_queue) (simp add: mlfq_inv_def)
  with Cons show ?case by (simp add: find_append split: option.splits)
qed

text \<open>The process an ordered search over the levels finds.\<close>

lemma find_levels:
  assumes "mlfq_inv d" and "\<forall>p < NPROC. runnable (procs d) p \<longrightarrow> p_queue_number (procs d p) < 4 \<and>
      p \<in> set (queue d (p_queue_number (procs d p)))"
    and "List.find (runnable (procs d)) (concat (map (queue d) [0..<4])) = Some p"
  shows "p < NPROC" and "runnable (procs d) p"
    and "\<forall>q < NPROC. runnable (procs d) q \<longrightarrow> p_queue_number (procs d p) \<le> p_queue_number (procs d q)"
    and "\<exists>xs ys. queue d (p_queue_number (procs d p)) = xs @ p # ys \<and> (\<forall>x \<in> set xs. \<not> runnable (procs d) x)"
proof -
  obtain l where l: "l < 4" "\<forall>k < l. List.find (runnable (procs d)) (queue d k) = None"
      "List.find (runnable (procs d)) (queue d l) = Some p"
    using find_concat_upt[OF assms(3)] by blast
  have p: "p \<in> set (queue d l)" "runnable (procs d) p" using find_Some_mem[OF l(3)] by simp_all
  note m = mlfq_inv_mem[OF assms(1) l(1) p(1)]
  show "p < NPROC" "runnable (procs d) p" using m(1) p(2) by simp_all
  show "\<exists>xs ys. queue d (p_queue_number (procs d p)) = xs @ p # ys \<and> (\<forall>x \<in> set xs. \<not> runnable (procs d) x)"
    using find_split[OF l(3)] unfolding m(3) by blast
  show "\<forall>q < NPROC. runnable (procs d) q \<longrightarrow> p_queue_number (procs d p) \<le> p_queue_number (procs d q)"
  proof (intro allI impI)
    fix q assume q: "q < NPROC" "runnable (procs d) q"
    then have "List.find (runnable (procs d)) (queue d (p_queue_number (procs d q))) \<noteq> None"
      using assms(2) by (auto simp: find_None_iff)
    with l(2) show "p_queue_number (procs d p) \<le> p_queue_number (procs d q)"
      unfolding m(3) by (meson not_le)
  qed
qed

lemma scheduler_mlfq_unfold:
  assumes "hart_ok (intr_on h)" and "\<And>p. p < NPROC \<Longrightarrow> lock_free (ProcLock p) h"
    and "foldR requeue [0..<NPROC] d = Inr d'"
  shows "scheduler_mlfq run (h, d) = bindR (mlfq_scan d' [0..<4]) (\<lambda>r.
    case r of None \<Rightarrow> Inr (settle (intr_on h), d') | Some p \<Rightarrow> dispatch run p (settle (intr_on h), d'))"
proof -
  have "foldR (\<lambda>p. with_lock (ProcLock p) (on_data (requeue p))) [0..<NPROC] (intr_on h, d) =
      Inr (settle (intr_on h), d')"
    by (subst with_lock_scan[OF assms(1)])
      (use assms(2,3) in \<open>auto simp: lock_free_def intr_on_def NPROC_def\<close>)
  then show ?thesis by (simp add: scheduler_mlfq_def)
qed

text \<open>
  C1. The MLFQ scheduler serves the highest-priority level that has a RUNNABLE process, and in it
  the process nearest the head of the queue; it idles only when nothing is RUNNABLE. On the
  way it enters every RUNNABLE process the queues lack at the tail of its level, and changes no
  process.
\<close>

theorem scheduler_mlfq_picks:
  assumes "hart_ok (intr_on h)" and "\<forall>p < NPROC. lock_free (ProcLock p) h"
    and "mlfq_inv d" and "mlfq_table_ok d"
  shows "\<exists>d'. mlfq_inv d' \<and> procs d' = procs d \<and> queue d' = (\<lambda>q. queue d q @ missing d [0..<NPROC] q) \<and>
    (if \<forall>p < NPROC. \<not> runnable (procs d) p
     then scheduler_mlfq run (h, d) = Inr (settle (intr_on h), d')
     else \<exists>p < NPROC. runnable (procs d) p \<and>
       (\<forall>r < NPROC. runnable (procs d) r \<longrightarrow> p_queue_number (procs d p) \<le> p_queue_number (procs d r)) \<and>
       (\<exists>xs ys. queue d' (p_queue_number (procs d p)) = xs @ p # ys \<and> (\<forall>x \<in> set xs. \<not> runnable (procs d) x)) \<and>
       scheduler_mlfq run (h, d) = dispatch run p (settle (intr_on h), d'))"
proof -
  obtain d' where d': "foldR requeue [0..<NPROC] d = Inr d'" "mlfq_inv d'" "procs d' = procs d"
      "queue d' = (\<lambda>q. queue d q @ missing d [0..<NPROC] q)"
    using foldR_requeue[OF assms(3,4), of "[0..<NPROC]"]
    by (auto simp: atLeast0LessThan)
  have all: "\<forall>p < NPROC. runnable (procs d') p \<longrightarrow> p_queue_number (procs d' p) < 4 \<and>
      p \<in> set (queue d' (p_queue_number (procs d' p)))"
    using assms(4) d'(3,4) by (auto simp: mlfq_table_ok_def missing_def)
  define r where "r = List.find (runnable (procs d')) (concat (map (queue d') [0..<4]))"
  have sched: "scheduler_mlfq run (h, d) = (case r of None \<Rightarrow> Inr (settle (intr_on h), d')
      | Some p \<Rightarrow> dispatch run p (settle (intr_on h), d'))"
    using scheduler_mlfq_unfold[OF assms(1) _ d'(1)] assms(2) mlfq_scan_queues[OF d'(2), of "[0..<4]"]
    by (simp add: r_def)
  show ?thesis
  proof (cases r)
    case None
    have "\<not> runnable (procs d) p" if "p < NPROC" for p
      using None all that d'(3) unfolding r_def find_None_iff by (auto simp: atLeast0LessThan)
    then have nr: "\<forall>p < NPROC. \<not> runnable (procs d) p" by blast
    have "scheduler_mlfq run (h, d) = Inr (settle (intr_on h), d')" using sched None by simp
    with d'(2-4) show ?thesis unfolding if_P[OF nr] by blast
  next
    case (Some p)
    note p = find_levels[OF d'(2) all Some[unfolded r_def], unfolded d'(3)]
    then have nr: "\<not> (\<forall>p < NPROC. \<not> runnable (procs d) p)" by blast
    have "scheduler_mlfq run (h, d) = dispatch run p (settle (intr_on h), d')"
      using sched Some by simp
    with p d'(2-4) show ?thesis unfolding if_not_P[OF nr] by blast
  qed
qed

section \<open>Concrete runs\<close>

text \<open>
  Two processes: pid 1 with three tickets at level 1, pid 2 with one ticket at level 0. A process
  that gives the hart back at once stands for \<open>run\<close>.
\<close>

definition demo_pst :: pst where
  "demo_pst =
     upd_proc 0 (\<lambda>x. x\<lparr>p_state := RUNNABLE, p_pid := 1, p_tickets := 3, p_arrival_time := 5, p_queue_number := 1\<rparr>)
    (upd_proc 1 (\<lambda>x. x\<lparr>p_state := RUNNABLE, p_pid := 2, p_tickets := 1, p_arrival_time := 7\<rparr>) pst0)"

definition demo_run :: "nat \<Rightarrow> 'a pst_scheme kst \<Rightarrow> 'a pst_scheme kst res" where
  "demo_run p st = (case st of (h, d) \<Rightarrow>
     if handed_back p h h then Inr (h, upd_proc p (\<lambda>x. x\<lparr>p_state := RUNNABLE\<rparr>) d) else Inl (Panic ''sched''))"

lemma hst0_ok: "hart_ok (intr_on (hst0 i))" "lock_free lk (hst0 i)"
  by (simp_all add: hst0_def hart_ok_def lock_free_def hart_defs)

lemma demo_table: "[0..<NPROC] = 0 # 1 # [2..<64]"
  by (simp add: NPROC_def upt_conv_Cons)

lemma demo_runnable: "runnable (procs demo_pst) p \<longleftrightarrow> p = 0 \<or> p = 1"
  by (simp add: runnable_def demo_pst_def pst0_def proc0_def)

lemma demo_mlfq: "mlfq_inv demo_pst" "mlfq_table_ok demo_pst"
  by (auto simp: mlfq_inv_def mlfq_table_ok_def pids_unique_def live_def queue_def runnable_def
      demo_pst_def pst0_def proc0_def NPROC_def)

lemma demo_stakes: "stakes (procs demo_pst) [0..<NPROC] = 4" "tickets_ok (procs demo_pst) [0..<NPROC]"
proof -
  have st: "stake (procs demo_pst) p = (if p = 0 then 3 else if p = 1 then 1 else 0)" for p
    by (simp add: stake_def runnable_def demo_pst_def pst0_def proc0_def)
  have "stakes (procs demo_pst) [2..<64] = 0"
    unfolding stakes_def by (rule sum_list_nonneg_eq_0_iff[THEN iffD2]) (auto simp: st)
  then show s: "stakes (procs demo_pst) [0..<NPROC] = 4" by (simp add: demo_table st)
  show "tickets_ok (procs demo_pst) [0..<NPROC]" by (simp add: tickets_ok_def s) (simp add: st)
qed

theorem scheduler_mlfq_picks_witness:
  "\<exists>d'. procs d' = procs demo_pst \<and> queue d' 0 = [1] \<and>
    scheduler_mlfq demo_run (hst0 0, demo_pst) = dispatch demo_run 1 (settle (intr_on (hst0 0)), d')"
proof -
  have q: "queue demo_pst 0 = []" by (simp add: queue_def demo_pst_def pst0_def)
  then have m: "missing demo_pst [0..<NPROC] 0 = [1]"
    unfolding missing_def demo_table by (simp add: demo_runnable filter_empty_conv)
      (simp add: demo_pst_def pst0_def proc0_def)
  have n: "\<not> (\<forall>p < NPROC. \<not> runnable (procs demo_pst) p)"
    using demo_runnable[of 0] by (auto simp: NPROC_def intro!: exI[of _ 0])
  have l: "p_queue_number (procs demo_pst 0) = 1" "p_queue_number (procs demo_pst 1) = 0"
    by (simp_all add: demo_pst_def pst0_def proc0_def)
  have free: "\<forall>p < NPROC. lock_free (ProcLock p) (hst0 0)" by (simp add: hst0_ok)
  obtain d' p where d': "procs d' = procs demo_pst"
      "queue d' = (\<lambda>q. queue demo_pst q @ missing demo_pst [0..<NPROC] q)"
      "runnable (procs demo_pst) p"
      "\<forall>r < NPROC. runnable (procs demo_pst) r \<longrightarrow> p_queue_number (procs demo_pst p) \<le> p_queue_number (procs demo_pst r)"
      "scheduler_mlfq demo_run (hst0 0, demo_pst) = dispatch demo_run p (settle (intr_on (hst0 0)), d')"
    using scheduler_mlfq_picks[of "hst0 0" demo_pst demo_run, OF hst0_ok(1) free demo_mlfq]
    unfolding if_not_P[OF n] by blast
  have "p_queue_number (procs demo_pst p) \<le> p_queue_number (procs demo_pst 1)"
    using d'(4) demo_runnable[of 1] by (simp add: NPROC_def)
  with l d'(3) have "p = 1" by (auto simp: demo_runnable)
  moreover have "queue d' 0 = [1]" using d'(2) q m by simp
  ultimately show ?thesis using d'(1,5) by blast
qed

theorem lottery_proportional_witness:
  "card (winning (procs demo_pst) 0) = 3 \<and> card (winning (procs demo_pst) 1) = 1"
proof -
  have "p_tickets (procs demo_pst 0) = 3" "p_tickets (procs demo_pst 1) = 1"
    by (simp_all add: demo_pst_def)
  then show ?thesis
    using lottery_proportional[OF demo_stakes(2), of 0] lottery_proportional[OF demo_stakes(2), of 1]
    by (simp add: demo_runnable NPROC_def)
qed

theorem scheduler_lbs_round_witness:
  "\<exists>p d'. p < 2 \<and> procs d' = procs demo_pst \<and>
    scheduler_lbs demo_run (hst0 0, demo_pst) = dispatch demo_run p (settle (intr_on (hst0 0)), d')"
proof -
  have free: "\<forall>p < NPROC. lock_free (ProcLock p) (hst0 0)" by (simp add: hst0_ok)
  have r: "fst (rand_at_max 4 demo_pst) \<noteq> 4"
    by (simp add: rand_at_max_def rand_def demo_pst_def pst0_def LCG_A_def LCG_C_def LCG_M_def)
  have tot: "tot = 4" if "sint tot = stakes (procs demo_pst) [0..<NPROC]" for tot :: cint
    using that sint_inject[of tot 4] demo_stakes(1) by simp
  obtain d' p where "procs d' = procs demo_pst" "runnable (procs demo_pst) p"
      "scheduler_lbs demo_run (hst0 0, demo_pst) = dispatch demo_run p (settle (intr_on (hst0 0)), d')"
    using scheduler_lbs_round[of "hst0 0" demo_pst demo_run, OF hst0_ok(1) free demo_stakes(2)] tot r
    by (auto simp: demo_stakes(1))
  moreover from this(2) have "p < 2" by (auto simp: demo_runnable)
  ultimately show ?thesis by blast
qed

definition lone_pst :: pst where
  "lone_pst = upd_proc 3 (\<lambda>x. x\<lparr>p_state := RUNNABLE, p_tickets := 1\<rparr>) (pst0\<lparr>seed := 2\<rparr>)"

theorem lottery_lone_process_witness: "\<exists>d'. lottery 1 lone_pst = (None, d')"
proof -
  have "runnable (procs lone_pst) q \<longleftrightarrow> q = 3" for q
    by (simp add: runnable_def lone_pst_def pst0_def proc0_def)
  moreover have "p_tickets (procs lone_pst 3) = 1" "even (seed lone_pst)" by (simp_all add: lone_pst_def)
  ultimately show ?thesis using lottery_lone_process[of 3 lone_pst] by (auto simp: NPROC_def)
qed

text \<open>A process that wakes process 1 and goes to sleep itself, started in a table where only process 0 is RUNNABLE.\<close>

definition wake_run :: "nat \<Rightarrow> 'a pst_scheme kst \<Rightarrow> 'a pst_scheme kst res" where
  "wake_run p st = (case st of (h, d) \<Rightarrow>
     if handed_back p h h
     then Inr (h, upd_proc 1 (\<lambda>x. x\<lparr>p_state := RUNNABLE\<rparr>) (upd_proc p (\<lambda>x. x\<lparr>p_state := SLEEPING\<rparr>) d))
     else Inl (Panic ''sched''))"

definition wake_pst :: pst where
  "wake_pst = upd_proc 0 (\<lambda>x. x\<lparr>p_state := RUNNABLE\<rparr>) pst0"

lemma wake_run_back: "hands_back wake_run"
  by (simp add: hands_back_def wake_run_def)

theorem scheduler_rr_round_witness:
  "\<exists>ts. scheduler_rr wake_run (hst0 0, wake_pst) = foldR (dispatch wake_run) ts (settle (intr_on (hst0 0)), wake_pst) \<and>
     filter (\<lambda>q. q < 2) ts = [0, 1] \<and> \<not> runnable (procs wake_pst) 1"
proof -
  let ?h = "settle (intr_on (hst0 0))"
  have r: "runnable (procs wake_pst) 0" "\<not> runnable (procs wake_pst) 1"
    by (simp_all add: wake_pst_def runnable_def pst0_def proc0_def upd_proc_def)
  obtain ts where ts: "sorted_wrt (<) ts" "scheduler_rr wake_run (hst0 0, wake_pst) = foldR (dispatch wake_run) ts (?h, wake_pst)"
    and turn: "\<forall>p h' d'. p < NPROC \<longrightarrow> foldR (dispatch wake_run) (filter (\<lambda>q. q < p) ts) (?h, wake_pst) = Inr (h', d') \<longrightarrow>
      (p \<in> set ts \<longleftrightarrow> runnable (procs d') p)"
    using scheduler_rr_round[OF wake_run_back, of "hst0 0" wake_pst] hst0_ok by auto
  have "0 \<in> set ts" using turn r(1) by (auto simp: NPROC_def)
  then obtain us where us: "ts = 0 # us" "\<forall>q \<in> set us. 0 < q" "sorted_wrt (<) us" using ts(1) by (cases ts) auto
  then have one: "filter (\<lambda>q. q < 1) ts = [0]" by (auto simp: filter_empty_conv)
  have free: "lock_free (ProcLock 0) ?h" using hst0_ok(2)[of "ProcLock 0" 0] by (simp add: lock_free_def settle_def intr_on_def hart_defs)
  have "handed_back 0 (dispatched_h 0 ?h) (dispatched_h 0 ?h)"
    by (simp add: handed_back_def dispatched_h_def locked_def settle_def intr_on_def hst0_def holding_def hart_defs)
  with dispatch_run[OF free r(1), of wake_run] obtain h' d' where
    "dispatch wake_run 0 (?h, wake_pst) = Inr (h', d')" "runnable (procs d') 1"
    by (auto simp: wake_run_def runnable_def upd_proc_def)
  then have "1 \<in> set ts" using turn[rule_format, of 1] unfolding one by (simp add: NPROC_def)
  then have "1 \<in> set us" using us(1) by simp
  then obtain vs where "us = 1 # vs" "\<forall>q \<in> set vs. 1 < q" using us(2,3) by (cases us) auto
  then have "filter (\<lambda>q. q < 2) ts = [0, 1]" using us(1) by (auto simp: filter_empty_conv)
  with ts(2) r(2) show ?thesis by blast
qed

end
