(* ===== verification/ProcOps.thy ===== *)
theory ProcOps
  imports Sched
begin

text \<open>
  The operations of \<open>kernel/proc.c\<close> on processes that are already there: giving up the hart
  (\<open>sched\<close>, \<open>yield\<close>), sleeping and waking (\<open>sleep\<close>, \<open>wakeup\<close>), killing (\<open>kill\<close>, \<open>setkilled\<close>,
  \<open>killed\<close>), handing children to init (\<open>reparent\<close>), numbering (\<open>allocpid\<close>) and accounting
  (\<open>update_time\<close>).

  \<open>swtch\<close> in \<open>sched\<close> saves the registers of the process and resumes the scheduler. What runs on
  the machine until the process is resumed is the parameter \<open>swt\<close>.
\<close>

section \<open>Operations\<close>

text \<open>A use of a pointer that may be null.\<close>

definition deref :: "'a option \<Rightarrow> ('a \<Rightarrow> 'b res) \<Rightarrow> 'b res" where
  "deref x f = (case x of None \<Rightarrow> Inl BadAccess | Some a \<Rightarrow> f a)"

definition myproc :: "hst \<Rightarrow> (nat option \<times> hst) res" where
  "myproc h = (let h = push_off h; p = c_proc (mycpu h) in bindR (pop_off h) (\<lambda>h. Inr (p, h)))"

definition allocpid :: "'a pst_scheme kst \<Rightarrow> (cint \<times> 'a pst_scheme kst) res" where
  "allocpid = with_lock_ret PidLock (\<lambda>(h, d). Inr (nextpid d, (h, d\<lparr>nextpid := nextpid d + 1\<rparr>)))"

definition sched ::
  "(nat \<Rightarrow> 'a pst_scheme kst \<Rightarrow> 'a pst_scheme kst res) \<Rightarrow> 'a pst_scheme kst \<Rightarrow> 'a pst_scheme kst res" where
  "sched swt st = (case st of (h, d) \<Rightarrow>
     bindR (myproc h) (\<lambda>(me, h). deref me (\<lambda>p.
       if \<not> holding (ProcLock p) h then Inl (Panic ''sched p->lock'')
       else if c_noff (mycpu h) \<noteq> 1 then Inl (Panic ''sched locks'')
       else if p_state (procs d p) = RUNNING then Inl (Panic ''sched running'')
       else if intr_get h then Inl (Panic ''sched interruptible'')
       else let intena = c_intena (mycpu h) in
         bindR (swt p (h, d)) (\<lambda>(h, d). Inr (mycpu_update (\<lambda>c. c\<lparr>c_intena := intena\<rparr>) h, d)))))"

definition yield ::
  "(nat \<Rightarrow> 'a pst_scheme kst \<Rightarrow> 'a pst_scheme kst res) \<Rightarrow> 'a pst_scheme kst \<Rightarrow> 'a pst_scheme kst res" where
  "yield swt st = (case st of (h, d) \<Rightarrow>
     bindR (myproc h) (\<lambda>(me, h). deref me (\<lambda>p.
       bindR (acquire (ProcLock p) h) (\<lambda>h.
       bindR (sched swt (h, upd_proc p (\<lambda>x. x\<lparr>p_state := RUNNABLE\<rparr>) d)) (\<lambda>(h, d).
       bindR (release (ProcLock p) h) (\<lambda>h. Inr (h, d)))))))"

definition sleep ::
  "(nat \<Rightarrow> 'a pst_scheme kst \<Rightarrow> 'a pst_scheme kst res) \<Rightarrow> chan \<Rightarrow> lock \<Rightarrow> 'a pst_scheme kst \<Rightarrow> 'a pst_scheme kst res" where
  "sleep swt ch lk st = (case st of (h, d) \<Rightarrow>
     bindR (myproc h) (\<lambda>(me, h). deref me (\<lambda>p.
       bindR (acquire (ProcLock p) h) (\<lambda>h.
       bindR (release lk h) (\<lambda>h.
       let d = upd_proc p (\<lambda>x. x\<lparr>p_chan := Some ch, p_state := SLEEPING\<rparr>) d in
       bindR (dequeue p (p_queue_number (procs d p)) d) (\<lambda>d.
       bindR (sched swt (h, d)) (\<lambda>(h, d).
       let d = upd_proc p (\<lambda>x. x\<lparr>p_chan := None\<rparr>) d in
       bindR (release (ProcLock p) h) (\<lambda>h.
       bindR (acquire lk h) (\<lambda>h. Inr (h, d))))))))))"

text \<open>The body of the loop of \<open>wakeup\<close>, with \<open>p->lock\<close> held.\<close>

definition wake_proc :: "chan option \<Rightarrow> nat \<Rightarrow> 'a pst_scheme \<Rightarrow> 'a pst_scheme res" where
  "wake_proc ch p d =
     (if p_state (procs d p) = SLEEPING \<and> p_chan (procs d p) = ch
      then enqueue_keep p (upd_proc p (\<lambda>x. x\<lparr>p_state := RUNNABLE\<rparr>) d) else Inr d)"

definition wakeup :: "chan option \<Rightarrow> 'a pst_scheme kst \<Rightarrow> 'a pst_scheme kst res" where
  "wakeup ch = foldR (\<lambda>p (h, d). bindR (myproc h) (\<lambda>(me, h).
     if Some p \<noteq> me then with_lock (ProcLock p) (on_data (wake_proc ch p)) (h, d) else Inr (h, d))) [0..<NPROC]"

definition kill_proc :: "nat \<Rightarrow> 'a pst_scheme \<Rightarrow> 'a pst_scheme res" where
  "kill_proc p d =
     (let d = upd_proc p (\<lambda>x. x\<lparr>p_killed := True\<rparr>) d
      in if p_state (procs d p) = SLEEPING
         then enqueue p (p_queue_number (procs d p)) (upd_proc p (\<lambda>x. x\<lparr>p_state := RUNNABLE\<rparr>) d)
         else Inr d)"

fun kill_scan :: "cint \<Rightarrow> nat list \<Rightarrow> 'a pst_scheme kst \<Rightarrow> (cint \<times> 'a pst_scheme kst) res" where
  "kill_scan pid [] st = Inr (- 1, st)"
| "kill_scan pid (p # ps) (h, d) =
     bindR (acquire (ProcLock p) h) (\<lambda>h.
     if p_pid (procs d p) = pid
     then bindR (kill_proc p d) (\<lambda>d. bindR (release (ProcLock p) h) (\<lambda>h. Inr (0, (h, d))))
     else bindR (release (ProcLock p) h) (\<lambda>h. kill_scan pid ps (h, d)))"

definition kill :: "cint \<Rightarrow> 'a pst_scheme kst \<Rightarrow> (cint \<times> 'a pst_scheme kst) res" where
  "kill pid = kill_scan pid [0..<NPROC]"

definition setkilled :: "nat \<Rightarrow> 'a pst_scheme kst \<Rightarrow> 'a pst_scheme kst res" where
  "setkilled p = with_lock (ProcLock p) (on_data (\<lambda>d. Inr (upd_proc p (\<lambda>x. x\<lparr>p_killed := True\<rparr>) d)))"

definition killed :: "nat \<Rightarrow> 'a pst_scheme kst \<Rightarrow> (bool \<times> 'a pst_scheme kst) res" where
  "killed p = with_lock_ret (ProcLock p) (\<lambda>(h, d). Inr (p_killed (procs d p), (h, d)))"

text \<open>\<open>wakeup(p)\<close> where \<open>p\<close> is a process pointer.\<close>

definition wakeup_proc :: "nat option \<Rightarrow> 'a pst_scheme kst \<Rightarrow> 'a pst_scheme kst res" where
  "wakeup_proc p = wakeup (map_option ChanProc p)"

definition reparent :: "nat \<Rightarrow> 'a pst_scheme kst \<Rightarrow> 'a pst_scheme kst res" where
  "reparent p = foldR (\<lambda>pp (h, d).
     if p_parent (procs d pp) = Some p
     then wakeup_proc (initproc d) (h, upd_proc pp (\<lambda>x. x\<lparr>p_parent := initproc d\<rparr>) d)
     else Inr (h, d)) [0..<NPROC]"

definition add_rtime :: "nat \<Rightarrow> 'a pst_scheme \<Rightarrow> 'a pst_scheme res" where
  "add_rtime p d = Inr (if p_state (procs d p) = RUNNING then upd_proc p (\<lambda>x. x\<lparr>p_rtime := p_rtime x + 1\<rparr>) d else d)"

definition print_times :: "nat \<Rightarrow> 'a pst_scheme \<Rightarrow> 'a pst_scheme" where
  "print_times p d =
     (if 3 \<le> sint (p_pid (procs d p)) \<and> sint (p_pid (procs d p)) \<le> 13
      then kprintf ''%d %d %d\<newline>'' [PInt (ticks d), PInt (p_pid (procs d p)), PInt (of_nat (p_queue_number (procs d p)))] d
      else d)"

definition update_time :: "'a pst_scheme kst \<Rightarrow> 'a pst_scheme kst res" where
  "update_time st =
     bindR (foldR (\<lambda>p. with_lock (ProcLock p) (on_data (add_rtime p))) [0..<NPROC] st)
       (\<lambda>(h, d). Inr (h, fold print_times [0..<NPROC] d))"

section \<open>The invariant of the process table\<close>

text \<open>
  A process that can run or is running is in the queue of its level, once, and no other process is
  in a queue; a slot in use has a pid.
\<close>

definition active :: "procstate \<Rightarrow> bool" where
  "active s \<longleftrightarrow> s = RUNNABLE \<or> s = RUNNING"

definition sched_inv :: "'a pst_scheme \<Rightarrow> bool" where
  "sched_inv d \<longleftrightarrow> mlfq_inv d \<and>
     (\<forall>p < NPROC. p_queue_number (procs d p) < 4 \<and>
        (p_state (procs d p) \<noteq> UNUSED \<longrightarrow> p_pid (procs d p) \<noteq> 0) \<and>
        (p \<in> set (queue d (p_queue_number (procs d p))) \<longleftrightarrow> active (p_state (procs d p))))"

lemma sched_invD:
  assumes "sched_inv d"
  shows "mlfq_inv d" and "p < NPROC \<Longrightarrow> p_queue_number (procs d p) < 4"
    and "p < NPROC \<Longrightarrow> p_state (procs d p) \<noteq> UNUSED \<Longrightarrow> live d p"
    and "p < NPROC \<Longrightarrow> p \<in> set (queue d (p_queue_number (procs d p))) \<longleftrightarrow> active (p_state (procs d p))"
  using assms by (auto simp: sched_inv_def live_def)

lemma sched_inv_table: "sched_inv d \<Longrightarrow> mlfq_table_ok d"
  using sched_invD(2,3)[of d] by (simp add: mlfq_table_ok_def runnable_def)

lemma mlfq_inv_upd_proc:
  assumes "p_pid (f (procs d p)) = p_pid (procs d p)" "p_queue_number (f (procs d p)) = p_queue_number (procs d p)"
  shows "mlfq_inv (upd_proc p f d) = mlfq_inv d"
proof -
  have pn: "p_pid (procs (upd_proc p f d) i) = p_pid (procs d i)"
    "p_queue_number (procs (upd_proc p f d) i) = p_queue_number (procs d i)" for i
    using assms by simp_all
  show ?thesis
    unfolding mlfq_inv_def pn queue_upd_proc upd_proc_sel(2,3) pids_unique_cong[OF pn(1)] ..
qed

lemma live_upd_proc: "p_pid (f (procs d p)) = p_pid (procs d p) \<Longrightarrow> live (upd_proc p f d) q = live d q"
  by (simp add: live_def)

text \<open>A store that leaves pid, level and state of a process alone keeps the invariant.\<close>

lemma sched_inv_upd_proc:
  assumes "sched_inv d" and "p_pid (f (procs d p)) = p_pid (procs d p)"
    and "p_queue_number (f (procs d p)) = p_queue_number (procs d p)"
    and "active (p_state (f (procs d p))) = active (p_state (procs d p))"
    and "p_state (procs d p) = UNUSED \<Longrightarrow> p_state (f (procs d p)) = UNUSED"
  shows "sched_inv (upd_proc p f d)"
  using assms(1) unfolding sched_inv_def
  by (simp add: mlfq_inv_upd_proc[of f d p, OF assms(2,3)] assms(2-4)) (metis assms(5))

text \<open>A process that becomes RUNNABLE is entered at its level.\<close>

lemma make_runnable:
  assumes "sched_inv d" and "p < NPROC" and "\<not> active (p_state (procs d p))" and "p_state (procs d p) \<noteq> UNUSED"
  defines "d1 \<equiv> upd_proc p (\<lambda>x. x\<lparr>p_state := RUNNABLE\<rparr>) d"
  defines "q \<equiv> p_queue_number (procs d p)"
  shows "enqueue_keep p d1 = Inr (upd_proc p (\<lambda>x. x\<lparr>p_queueticks := p_queueticks (procs d p)\<rparr>) (enqueued p q d1))"
    and "enqueue p q d1 = Inr (enqueued p q d1)"
    and "sched_inv (enqueued p q d1)"
proof -
  have q4: "q < 4" using sched_invD(2)[OF assms(1,2)] by (simp add: q_def)
  have lv: "live d1 p" using sched_invD(3)[OF assms(1,2,4)] by (simp add: d1_def live_def)
  have inv1: "mlfq_inv d1" unfolding d1_def using sched_invD(1)[OF assms(1)] by (subst mlfq_inv_upd_proc) simp_all
  have out: "p \<notin> set (queue d1 r)" if "r < 4" for r
  proof
    assume "p \<in> set (queue d1 r)"
    moreover from mlfq_inv_mem(3)[OF inv1 that this] have "r = q" by (simp add: d1_def q_def)
    ultimately show False using sched_invD(4)[OF assms(1,2)] assms(3) by (simp add: d1_def q_def)
  qed
  show enq: "enqueue p q d1 = Inr (enqueued p q d1)" by (rule enqueue_fresh[OF inv1 lv q4 out[OF q4]])
  then show "enqueue_keep p d1 = Inr (upd_proc p (\<lambda>x. x\<lparr>p_queueticks := p_queueticks (procs d p)\<rparr>) (enqueued p q d1))"
    by (simp add: enqueue_keep_def d1_def q_def)
  have inv2: "mlfq_inv (enqueued p q d1)" by (rule mlfq_inv_enqueued[OF inv1 lv q4 out])
  show "sched_inv (enqueued p q d1)"
    unfolding sched_inv_def
  proof (intro conjI allI impI)
    show "mlfq_inv (enqueued p q d1)" by (rule inv2)
    fix r assume r: "r < NPROC"
    show "p_queue_number (procs (enqueued p q d1) r) < 4"
      using sched_invD(2)[OF assms(1) r] q4 by (simp add: procs_enqueued d1_def)
    show "p_pid (procs (enqueued p q d1) r) \<noteq> 0" if "p_state (procs (enqueued p q d1) r) \<noteq> UNUSED"
      using that lv sched_invD(3)[OF assms(1) r] by (auto simp: procs_enqueued d1_def live_def split: if_splits)
    show "r \<in> set (queue (enqueued p q d1) (p_queue_number (procs (enqueued p q d1) r))) \<longleftrightarrow>
        active (p_state (procs (enqueued p q d1) r))"
      using sched_invD(4)[OF assms(1) r]
      by (auto simp: procs_enqueued queue_enqueued d1_def active_def q_def split: if_splits)
  qed
qed

text \<open>A process that stops running leaves its queue.\<close>

lemma make_inactive:
  assumes "sched_inv d" and "p < NPROC" and "active (p_state (procs d p))"
    and "\<not> active (p_state (f (procs d p)))" and "p_pid (f (procs d p)) = p_pid (procs d p)"
    and "p_queue_number (f (procs d p)) = p_queue_number (procs d p)"
  shows "\<exists>d'. dequeue p (p_queue_number (procs d p)) (upd_proc p f d) = Inr d' \<and> sched_inv d' \<and>
    procs d' = (procs d)(p := f (procs d p)) \<and>
    queue d' = (queue d)(p_queue_number (procs d p) := remove1 p (queue d (p_queue_number (procs d p))))"
proof -
  let ?q = "p_queue_number (procs d p)"
  have inv1: "mlfq_inv (upd_proc p f d)"
    using sched_invD(1)[OF assms(1)] by (simp add: mlfq_inv_upd_proc[of f d p, OF assms(5,6)])
  have q4: "?q < 4" by (rule sched_invD(2)[OF assms(1,2)])
  have mem: "p \<in> set (queue d ?q)" using sched_invD(4)[OF assms(1,2)] assms(3) by simp
  then obtain d' where d': "dequeue p ?q (upd_proc p f d) = Inr d'" "mlfq_inv d'"
      "procs d' = procs (upd_proc p f d)" "queue d' = (queue d)(?q := remove1 p (queue d ?q))"
    using dequeue_mem[OF inv1 q4] by auto
  have dq: "distinct (queue d ?q)" using sched_invD(1)[OF assms(1)] q4 by (simp add: mlfq_inv_def)
  have "sched_inv d'"
    unfolding sched_inv_def
  proof (intro conjI allI impI)
    show "mlfq_inv d'" by (rule d'(2))
    fix r assume r: "r < NPROC"
    show "p_queue_number (procs d' r) < 4" using sched_invD(2)[OF assms(1) r] assms(6) by (auto simp: d'(3))
    show "p_pid (procs d' r) \<noteq> 0" if "p_state (procs d' r) \<noteq> UNUSED"
      using that assms(3,5) sched_invD(3)[OF assms(1) r] by (auto simp: d'(3) live_def active_def split: if_splits)
    show "r \<in> set (queue d' (p_queue_number (procs d' r))) \<longleftrightarrow> active (p_state (procs d' r))"
      using sched_invD(4)[OF assms(1) r] assms(4,6) dq
      by (auto simp: d'(3,4) split: if_splits)
  qed
  with d' show ?thesis by auto
qed

section \<open>Waking\<close>

lemma myproc_eq: "hart_ok h \<Longrightarrow> myproc h = Inr (c_proc (mycpu h), settle h)"
  by (simp add: myproc_def Let_def push_pop_off) (simp add: hart_defs)

lemma settle_proc [simp]: "c_proc (mycpu (settle h)) = c_proc (mycpu h)"
  by (simp add: settle_def hart_defs)

definition wake_other :: "chan option \<Rightarrow> nat option \<Rightarrow> nat \<Rightarrow> 'a pst_scheme \<Rightarrow> 'a pst_scheme res" where
  "wake_other ch me p d = (if Some p \<noteq> me then wake_proc ch p d else Inr d)"

lemma wakeup_data:
  assumes "hart_ok h" and "\<forall>p < NPROC. Some p \<noteq> c_proc (mycpu h) \<longrightarrow> lock_free (ProcLock p) h"
  shows "wakeup ch (h, d) = bindR (foldR (wake_other ch (c_proc (mycpu h))) [0..<NPROC] d) (\<lambda>d. Inr (settle h, d))"
proof -
  let ?F = "\<lambda>p (h, d). bindR (myproc h) (\<lambda>(me, h).
     if Some p \<noteq> me then with_lock (ProcLock p) (on_data (wake_proc ch p)) (h, d) else Inr (h, d))"
  have step: "?F p (g, d) = bindR (wake_other ch (c_proc (mycpu g)) p d) (\<lambda>d. Inr (settle g, d))"
    if "hart_ok g" "Some p \<noteq> c_proc (mycpu g) \<longrightarrow> lock_free (ProcLock p) g" for p g d
    using that with_lock_data[of "settle g" "ProcLock p" "wake_proc ch p" d]
    by (auto simp: myproc_eq wake_other_def)
  have "foldR ?F ps (g, d) =
      bindR (foldR (wake_other ch (c_proc (mycpu g))) ps d) (\<lambda>d. Inr (if ps = [] then g else settle g, d))"
    if "hart_ok g" "\<forall>p \<in> set ps. Some p \<noteq> c_proc (mycpu g) \<longrightarrow> lock_free (ProcLock p) g" for ps g d
    using that
  proof (induction ps arbitrary: g d)
    case Nil
    then show ?case by simp
  next
    case (Cons p ps)
    have "?F p (g, d) = bindR (wake_other ch (c_proc (mycpu g)) p d) (\<lambda>d. Inr (settle g, d))"
      by (rule step) (use Cons.prems in auto)
    with Cons.IH[of "settle g"] Cons.prems show ?case
      by (cases "wake_other ch (c_proc (mycpu g)) p d") auto
  qed
  from this[OF assms(1), of "[0..<NPROC]" d] assms(2) show ?thesis
    by (simp add: wakeup_def NPROC_def)
qed

text \<open>The processes \<open>wakeup\<close> is for, and what it makes of the table and the queues.\<close>

definition sleeper :: "chan option \<Rightarrow> nat option \<Rightarrow> 'a pst_scheme \<Rightarrow> nat \<Rightarrow> bool" where
  "sleeper ch me d p \<longleftrightarrow> Some p \<noteq> me \<and> p_state (procs d p) = SLEEPING \<and> p_chan (procs d p) = ch"

definition woken :: "chan option \<Rightarrow> nat option \<Rightarrow> nat list \<Rightarrow> 'a pst_scheme \<Rightarrow> nat \<Rightarrow> proc" where
  "woken ch me ps d p = (if p \<in> set ps \<and> sleeper ch me d p then (procs d p)\<lparr>p_state := RUNNABLE\<rparr> else procs d p)"

lemma wake_other_eq:
  assumes "sched_inv d" and "p < NPROC"
  shows "\<exists>d'. wake_other ch me p d = Inr d' \<and> sched_inv d' \<and> procs d' = woken ch me [p] d \<and>
    queue d' = (\<lambda>q. queue d q @ (if sleeper ch me d p \<and> p_queue_number (procs d p) = q then [p] else []))"
proof (cases "sleeper ch me d p")
  case False
  then have "wake_other ch me p d = Inr d" by (auto simp: wake_other_def wake_proc_def sleeper_def)
  with False assms(1) show ?thesis by (auto simp: woken_def fun_eq_iff)
next
  case True
  then have s: "\<not> active (p_state (procs d p))" "p_state (procs d p) \<noteq> UNUSED"
    by (simp_all add: sleeper_def active_def)
  let ?d1 = "upd_proc p (\<lambda>x. x\<lparr>p_state := RUNNABLE\<rparr>) d"
  let ?q = "p_queue_number (procs d p)"
  let ?d' = "upd_proc p (\<lambda>x. x\<lparr>p_queueticks := p_queueticks (procs d p)\<rparr>) (enqueued p ?q ?d1)"
  note mr = make_runnable[OF assms s]
  have "wake_other ch me p d = Inr ?d'"
    using True mr(1) by (simp add: wake_other_def wake_proc_def sleeper_def)
  moreover have "sched_inv ?d'" by (rule sched_inv_upd_proc[OF mr(3)]) simp_all
  moreover have "procs ?d' = woken ch me [p] d" using True by (auto simp: woken_def procs_enqueued fun_eq_iff)
  moreover have "queue ?d' = (\<lambda>q. queue d q @ (if sleeper ch me d p \<and> ?q = q then [p] else []))"
    using True by (auto simp: queue_enqueued fun_eq_iff)
  ultimately show ?thesis by blast
qed

lemma foldR_wake_other:
  assumes "sched_inv d" and "set ps \<subseteq> {..<NPROC}" and "distinct ps"
  shows "\<exists>d'. foldR (wake_other ch me) ps d = Inr d' \<and> sched_inv d' \<and> procs d' = woken ch me ps d \<and>
    queue d' = (\<lambda>q. queue d q @ filter (\<lambda>p. sleeper ch me d p \<and> p_queue_number (procs d p) = q) ps)"
  using assms(2,3)
proof (induction ps rule: rev_induct)
  case Nil
  with assms(1) show ?case by (simp add: woken_def fun_eq_iff)
next
  case (snoc p ps)
  then obtain d1 where d1: "foldR (wake_other ch me) ps d = Inr d1" "sched_inv d1" "procs d1 = woken ch me ps d"
      "queue d1 = (\<lambda>q. queue d q @ filter (\<lambda>p. sleeper ch me d p \<and> p_queue_number (procs d p) = q) ps)"
    by auto
  have p: "p < NPROC" "p \<notin> set ps" using snoc.prems by auto
  then have pp: "procs d1 p = procs d p" by (simp add: d1(3) woken_def)
  then have s: "sleeper ch me d1 p = sleeper ch me d p" by (simp add: sleeper_def)
  obtain d2 where d2: "wake_other ch me p d1 = Inr d2" "sched_inv d2" "procs d2 = woken ch me [p] d1"
      "queue d2 = (\<lambda>q. queue d1 q @ (if sleeper ch me d1 p \<and> p_queue_number (procs d1 p) = q then [p] else []))"
    using wake_other_eq[OF d1(2) p(1)] by blast
  have "procs d2 = woken ch me (ps @ [p]) d"
    using pp s p(2) by (auto simp: d2(3) woken_def d1(3) fun_eq_iff)
  moreover have "foldR (wake_other ch me) (ps @ [p]) d = Inr d2"
    using d1(1) d2(1) by (simp add: foldR_append)
  ultimately show ?case using d2(2,4) pp s d1(4) by (auto simp: fun_eq_iff)
qed

text \<open>
  C18. \<open>wakeup\<close> makes RUNNABLE exactly the other processes that sleep on the channel, enters each at
  the tail of its level in table order, changes nothing else of any process, and keeps the
  invariant of the table.
\<close>

theorem wakeup_exact:
  assumes "hart_ok h" and "\<forall>p < NPROC. Some p \<noteq> c_proc (mycpu h) \<longrightarrow> lock_free (ProcLock p) h" and "sched_inv d"
  shows "\<exists>d'. wakeup ch (h, d) = Inr (settle h, d') \<and> sched_inv d' \<and>
    procs d' = woken ch (c_proc (mycpu h)) [0..<NPROC] d \<and>
    queue d' = (\<lambda>q. queue d q @
      filter (\<lambda>p. sleeper ch (c_proc (mycpu h)) d p \<and> p_queue_number (procs d p) = q) [0..<NPROC])"
  using foldR_wake_other[OF assms(3), of "[0..<NPROC]" ch "c_proc (mycpu h)"] wakeup_data[OF assms(1,2), of ch d]
  by (auto simp: atLeast0LessThan)

section \<open>Giving up the hart\<close>

text \<open>The guards of \<open>sched\<close>: it switches only from a state the scheduler can take over.\<close>

lemma sched_eq:
  assumes "hart_ok h" and "c_proc (mycpu h) = Some p" and "c_noff (mycpu h) = 1"
    and "holding (ProcLock p) h" and "p_state (procs d p) \<noteq> RUNNING"
  shows "sched swt (h, d) =
    bindR (swt p (h, d)) (\<lambda>(h', d). Inr (mycpu_update (\<lambda>c. c\<lparr>c_intena := c_intena (mycpu h)\<rparr>) h', d))"
proof -
  have "settle h = h" using assms(3) by (simp add: settle_nested)
  moreover have "\<not> intr_get h" using assms(1,3) by (simp add: hart_ok_def intr_get_def)
  ultimately show ?thesis using assms by (simp add: sched_def myproc_eq deref_def Let_def)
qed

text \<open>
  \<open>sched\<close> gives the hart away only on the terms the scheduler relies on: if it returns, it
  switched exactly once, holding the lock of the current process and no other, with interrupts off
  and the process no longer RUNNING.
\<close>

theorem sched_guarded:
  assumes "hart_ok h" and "sched swt (h, d) = Inr (h', d')"
  shows "\<exists>p h2. c_proc (mycpu h) = Some p \<and> handed_back p h (settle h) \<and> p_state (procs d p) \<noteq> RUNNING \<and>
    swt p (settle h, d) = Inr (h2, d') \<and> h' = mycpu_update (\<lambda>c. c\<lparr>c_intena := c_intena (mycpu (settle h))\<rparr>) h2"
  using assms
  by (auto simp: sched_def myproc_eq deref_def Let_def handed_back_def intr_get_def
      split: option.splits if_splits)

text \<open>How a process is resumed: current on its hart again, holding its own lock only.\<close>

definition resumed :: "nat \<Rightarrow> hst \<Rightarrow> bool" where
  "resumed p h \<longleftrightarrow> c_proc (mycpu h) = Some p \<and> handed_back p h h"

text \<open>The hart at the switch in \<open>sleep\<close>: in \<open>p->lock\<close>, out of \<open>lk\<close>.\<close>

definition asleep_h :: "nat \<Rightarrow> lock \<Rightarrow> hst \<Rightarrow> hst" where
  "asleep_h p lk h = h\<lparr>locks := ((locks h)(ProcLock p := (locks h (ProcLock p))\<lparr>lk_locked := True, lk_cpu := Some (hartid h)\<rparr>))
     (lk := (locks h lk)\<lparr>lk_cpu := None, lk_locked := False\<rparr>)\<rparr>"

lemma sleep_locks:
  assumes "hart_ok h" and "c_noff (mycpu h) = 1" and "holding lk h" and "lock_free (ProcLock p) h" and "lk \<noteq> ProcLock p"
  shows "bindR (acquire (ProcLock p) h) (release lk) = Inr (asleep_h p lk h)"
  using assms
  by (cases h; cases "cpus h (hartid h)") (simp add: acquire_free release_def asleep_h_def locked_def lock_free_def
      hart_ok_def hart_defs fun_upd_twist fun_upd_idem_iff)

lemma asleep_h_props:
  assumes "hart_ok h" and "c_noff (mycpu h) = 1" and "lk \<noteq> ProcLock p"
  shows "hart_ok (asleep_h p lk h)" "c_proc (mycpu (asleep_h p lk h)) = c_proc (mycpu h)"
    "c_noff (mycpu (asleep_h p lk h)) = 1" "holding (ProcLock p) (asleep_h p lk h)"
    "lock_free lk (asleep_h p lk h)"
  using assms by (simp_all add: asleep_h_def hart_ok_def lock_free_def hart_defs)

text \<open>The end of \<open>sleep\<close>, after the switch back: out of \<open>p->lock\<close>, into \<open>lk\<close> again.\<close>

lemma sleep_back:
  assumes "resumed p h" and "lock_free lk h" and "lk \<noteq> ProcLock p"
  shows "\<exists>h'. bindR (release (ProcLock p) (mycpu_update (\<lambda>c. c\<lparr>c_intena := i\<rparr>) h)) (acquire lk) = Inr h' \<and>
    holding lk h' \<and> lock_free (ProcLock p) h' \<and> c_noff (mycpu h') = 1 \<and> \<not> sie h' \<and>
    c_proc (mycpu h') = Some p \<and> c_intena (mycpu h') = i"
  using assms
  by (auto simp: resumed_def handed_back_def release_def acquire_def lock_free_def hart_defs)

text \<open>\<open>sleep\<close> up to and from the switch.\<close>

lemma sleep_switch:
  assumes "hart_ok h" and "c_proc (mycpu h) = Some p" and "c_noff (mycpu h) = 1"
    and "holding lk h" and "lock_free (ProcLock p) h" and "lk \<noteq> ProcLock p"
    and "sched_inv d" and "p < NPROC" and "p_state (procs d p) = RUNNING"
  shows "\<exists>d1. sched_inv d1 \<and> procs d1 = (procs d)(p := (procs d p)\<lparr>p_chan := Some ch, p_state := SLEEPING\<rparr>) \<and>
    globals d1 = globals d \<and>
    sleep swt ch lk (h, d) = bindR (swt p (asleep_h p lk h, d1)) (\<lambda>(h', d).
      bindR (bindR (release (ProcLock p) (mycpu_update (\<lambda>c. c\<lparr>c_intena := c_intena (mycpu h)\<rparr>) h')) (acquire lk))
        (\<lambda>h. Inr (h, upd_proc p (\<lambda>x. x\<lparr>p_chan := None\<rparr>) d)))"
proof -
  let ?f = "\<lambda>x. x\<lparr>p_chan := Some ch, p_state := SLEEPING\<rparr>"
  obtain d1 where d1: "dequeue p (p_queue_number (procs d p)) (upd_proc p ?f d) = Inr d1" "sched_inv d1"
      "procs d1 = (procs d)(p := ?f (procs d p))"
    using make_inactive[OF assms(7,8), of ?f] assms(9) by (auto simp: active_def)
  note ah = asleep_h_props[OF assms(1,3,6)]
  have sl: "sleep swt ch lk (h, d) = bindR (sched swt (asleep_h p lk h, d1)) (\<lambda>(h, d).
      bindR (bindR (release (ProcLock p) h) (acquire lk)) (\<lambda>h. Inr (h, upd_proc p (\<lambda>x. x\<lparr>p_chan := None\<rparr>) d)))"
    using assms sleep_locks[OF assms(1,3,4,5,6)] d1(1) settle_nested[of h]
    by (simp add: sleep_def myproc_eq deref_def bindR_assoc[symmetric] split_def)
  have sc: "sched swt (asleep_h p lk h, d1) = bindR (swt p (asleep_h p lk h, d1)) (\<lambda>(h', d).
      Inr (mycpu_update (\<lambda>c. c\<lparr>c_intena := c_intena (mycpu (asleep_h p lk h))\<rparr>) h', d))"
    by (rule sched_eq) (use ah assms(2) d1(3) in simp_all)
  have i: "c_intena (mycpu (asleep_h p lk h)) = c_intena (mycpu h)" by (simp add: asleep_h_def hart_defs)
  have g: "globals d1 = globals d" using globals_dequeue[OF d1(1)] by simp
  show ?thesis using d1(2,3) g sl unfolding sc i by (auto simp: bindR_assoc split_def)
qed

text \<open>
  C20. \<open>sleep\<close> gives up its lock and the hart in one go: when it switches away, the process is
  SLEEPING on the channel, out of every queue and locked against \<open>wakeup\<close>, the table keeps its
  invariant and no other process has changed. Resumed, it clears the channel and returns with the
  caller's lock, and only that one, held again.
\<close>

theorem sleep_protocol:
  assumes "hart_ok h" and "c_proc (mycpu h) = Some p" and "c_noff (mycpu h) = 1"
    and "holding lk h" and "lock_free (ProcLock p) h" and "lk \<noteq> ProcLock p"
    and "sched_inv d" and "p < NPROC" and "p_state (procs d p) = RUNNING"
  shows "\<exists>d1. sched_inv d1 \<and> procs d1 = (procs d)(p := (procs d p)\<lparr>p_chan := Some ch, p_state := SLEEPING\<rparr>) \<and>
    p \<notin> set (queue d1 (p_queue_number (procs d p))) \<and>
    (\<forall>h2 d2. swt p (asleep_h p lk h, d1) = Inr (h2, d2) \<and> resumed p h2 \<and> lock_free lk h2 \<longrightarrow>
      (\<exists>h3. sleep swt ch lk (h, d) = Inr (h3, upd_proc p (\<lambda>x. x\<lparr>p_chan := None\<rparr>) d2) \<and>
        holding lk h3 \<and> lock_free (ProcLock p) h3 \<and> c_noff (mycpu h3) = 1 \<and> c_intena (mycpu h3) = c_intena (mycpu h)))"
proof -
  obtain d1 where d1: "sched_inv d1" "procs d1 = (procs d)(p := (procs d p)\<lparr>p_chan := Some ch, p_state := SLEEPING\<rparr>)"
    and sl: "sleep swt ch lk (h, d) = bindR (swt p (asleep_h p lk h, d1)) (\<lambda>(h', d).
      bindR (bindR (release (ProcLock p) (mycpu_update (\<lambda>c. c\<lparr>c_intena := c_intena (mycpu h)\<rparr>) h')) (acquire lk))
        (\<lambda>h. Inr (h, upd_proc p (\<lambda>x. x\<lparr>p_chan := None\<rparr>) d)))"
    using sleep_switch[OF assms] by blast
  have out: "p \<notin> set (queue d1 (p_queue_number (procs d p)))"
    using sched_invD(4)[OF d1(1) assms(8)] by (simp add: d1(2) active_def)
  have "\<exists>h3. sleep swt ch lk (h, d) = Inr (h3, upd_proc p (\<lambda>x. x\<lparr>p_chan := None\<rparr>) d2) \<and>
      holding lk h3 \<and> lock_free (ProcLock p) h3 \<and> c_noff (mycpu h3) = 1 \<and> c_intena (mycpu h3) = c_intena (mycpu h)"
    if "swt p (asleep_h p lk h, d1) = Inr (h2, d2)" "resumed p h2" "lock_free lk h2" for h2 d2
    using sleep_back[OF that(2,3) assms(6), of "c_intena (mycpu h)"] that(1) by (auto simp: sl)
  with d1 out show ?thesis by blast
qed

text \<open>The same for \<open>yield\<close>, entered with no lock held.\<close>

lemma locked_props:
  assumes "hart_ok h" and "c_noff (mycpu h) = 0"
  shows "hart_ok (locked lk h)" "c_noff (mycpu (locked lk h)) = 1" "holding lk (locked lk h)"
    "c_proc (mycpu (locked lk h)) = c_proc (mycpu h)" "c_intena (mycpu (locked lk h)) = sie h"
  using assms by (simp_all add: locked_def hart_ok_def hart_defs)

lemma yield_back:
  assumes "resumed p h"
  shows "\<exists>h'. release (ProcLock p) (mycpu_update (\<lambda>c. c\<lparr>c_intena := i\<rparr>) h) = Inr h' \<and> lock_free (ProcLock p) h' \<and>
    c_noff (mycpu h') = 0 \<and> sie h' = i \<and> c_proc (mycpu h') = Some p \<and> (\<forall>lk. lk \<noteq> ProcLock p \<longrightarrow> locks h' lk = locks h lk)"
  using assms by (auto simp: resumed_def handed_back_def release_def lock_free_def hart_defs)

lemma yield_eq:
  assumes "hart_ok h" and "c_proc (mycpu h) = Some p" and "c_noff (mycpu h) = 0" and "lock_free (ProcLock p) h"
  shows "yield swt (h, d) = bindR (swt p (locked (ProcLock p) h, upd_proc p (\<lambda>x. x\<lparr>p_state := RUNNABLE\<rparr>) d))
    (\<lambda>(h', d). bindR (release (ProcLock p) (mycpu_update (\<lambda>c. c\<lparr>c_intena := sie h\<rparr>) h')) (\<lambda>h. Inr (h, d)))"
proof -
  let ?d = "upd_proc p (\<lambda>x. x\<lparr>p_state := RUNNABLE\<rparr>) d"
  have "sched swt (locked (ProcLock p) h, ?d) = bindR (swt p (locked (ProcLock p) h, ?d))
      (\<lambda>(h', d). Inr (mycpu_update (\<lambda>c. c\<lparr>c_intena := sie h\<rparr>) h', d))"
    by (subst sched_eq) (use locked_props[OF assms(1,3)] assms(2) in simp_all)
  with assms show ?thesis
    by (simp add: yield_def myproc_eq deref_def acquire_free locked_settle bindR_assoc split_def)
qed

section \<open>Killing\<close>

lemma kill_scan_eq:
  assumes "hart_ok h" and "\<forall>p \<in> set ps. lock_free (ProcLock p) h"
  shows "kill_scan pid ps (h, d) = (case List.find (\<lambda>p. p_pid (procs d p) = pid) ps of
      None \<Rightarrow> Inr (- 1, (if ps = [] then h else settle h, d))
    | Some p \<Rightarrow> bindR (kill_proc p d) (\<lambda>d. Inr (0, (settle h, d))))"
  using assms
proof (induction ps arbitrary: h)
  case Nil
  then show ?case by simp
next
  case (Cons p ps)
  with Cons.IH[of "settle h"] show ?case
    by (auto simp: acquire_free release_locked split: option.splits)
qed

lemma kill_proc_eq:
  assumes "sched_inv d" and "p < NPROC"
  shows "\<exists>d'. kill_proc p d = Inr d' \<and> sched_inv d' \<and> (\<forall>q. q \<noteq> p \<longrightarrow> procs d' q = procs d q) \<and>
    p_killed (procs d' p) \<and>
    p_state (procs d' p) = (if p_state (procs d p) = SLEEPING then RUNNABLE else p_state (procs d p)) \<and>
    (p_state (procs d p) = SLEEPING \<longrightarrow> p \<in> set (queue d' (p_queue_number (procs d' p))))"
proof -
  let ?d = "upd_proc p (\<lambda>x. x\<lparr>p_killed := True\<rparr>) d"
  have inv: "sched_inv ?d" by (rule sched_inv_upd_proc[OF assms(1)]) simp_all
  show ?thesis
  proof (cases "p_state (procs d p) = SLEEPING")
    case False
    with inv show ?thesis by (simp add: kill_proc_def)
  next
    case True
    then have s: "\<not> active (p_state (procs ?d p))" "p_state (procs ?d p) \<noteq> UNUSED" by (simp_all add: active_def)
    from make_runnable(2,3)[OF inv assms(2) s] True show ?thesis
      by (simp add: kill_proc_def Let_def) (simp add: procs_enqueued queue_enqueued)
  qed
qed

text \<open>
  \<open>kill\<close> marks the first process with the pid, and only that one; a sleeping victim becomes
  RUNNABLE and queued. Without such a process it returns -1 and changes nothing.
\<close>

theorem kill_exact:
  assumes "hart_ok h" and "\<forall>p < NPROC. lock_free (ProcLock p) h" and "sched_inv d"
  shows "case List.find (\<lambda>p. p_pid (procs d p) = pid) [0..<NPROC] of
      None \<Rightarrow> kill pid (h, d) = Inr (- 1, (settle h, d))
    | Some p \<Rightarrow> \<exists>d'. kill pid (h, d) = Inr (0, (settle h, d')) \<and> sched_inv d' \<and>
        (\<forall>q. q \<noteq> p \<longrightarrow> procs d' q = procs d q) \<and> p_killed (procs d' p) \<and>
        p_state (procs d' p) = (if p_state (procs d p) = SLEEPING then RUNNABLE else p_state (procs d p)) \<and>
        (p_state (procs d p) = SLEEPING \<longrightarrow> p \<in> set (queue d' (p_queue_number (procs d' p))))"
proof -
  have eq: "kill pid (h, d) = (case List.find (\<lambda>p. p_pid (procs d p) = pid) [0..<NPROC] of
      None \<Rightarrow> Inr (- 1, (settle h, d)) | Some p \<Rightarrow> bindR (kill_proc p d) (\<lambda>d. Inr (0, (settle h, d))))"
    using kill_scan_eq[OF assms(1), of "[0..<NPROC]" pid d] assms(2) by (simp add: kill_def NPROC_def)
  show ?thesis
  proof (cases "List.find (\<lambda>p. p_pid (procs d p) = pid) [0..<NPROC]")
    case None
    with eq show ?thesis by simp
  next
    case (Some p)
    then have "p < NPROC" using find_Some_mem by fastforce
    with kill_proc_eq[OF assms(3) this] eq Some show ?thesis by auto
  qed
qed

section \<open>Accounting\<close>

lemma print_times_procs: "procs (fold print_times ps d) = procs d"
  by (induction ps arbitrary: d) (simp_all add: print_times_def kprintf_def)

lemma fold_rtime:
  assumes "distinct ps"
  shows "\<exists>d'. foldR add_rtime ps d = Inr d' \<and> procs d' = (\<lambda>p.
    if p \<in> set ps \<and> p_state (procs d p) = RUNNING then (procs d p)\<lparr>p_rtime := p_rtime (procs d p) + 1\<rparr> else procs d p)"
  using assms
proof (induction ps rule: rev_induct)
  case Nil
  then show ?case by simp
next
  case (snoc p ps)
  then obtain d1 where d1: "foldR add_rtime ps d = Inr d1" "procs d1 = (\<lambda>p.
      if p \<in> set ps \<and> p_state (procs d p) = RUNNING then (procs d p)\<lparr>p_rtime := p_rtime (procs d p) + 1\<rparr> else procs d p)"
    by auto
  have "p \<notin> set ps" using snoc.prems by simp
  then have "procs d1 p = procs d p" by (simp add: d1(2))
  then have "foldR add_rtime (ps @ [p]) d = Inr (if p_state (procs d p) = RUNNING
      then upd_proc p (\<lambda>x. x\<lparr>p_rtime := p_rtime x + 1\<rparr>) d1 else d1)" (is "_ = Inr ?d2")
    by (simp add: foldR_append d1(1)) (simp add: add_rtime_def)
  with d1(2) \<open>p \<notin> set ps\<close> show ?case by (intro exI[of _ ?d2]) (auto simp: fun_eq_iff)
qed

text \<open>
  \<open>update_time\<close> charges the tick to the processes that are RUNNING, and to no other.
\<close>

theorem update_time_charges:
  assumes "hart_ok h" and "\<forall>p < NPROC. lock_free (ProcLock p) h"
  shows "\<exists>d'. update_time (h, d) = Inr (settle h, d') \<and> procs d' = (\<lambda>p.
    if p < NPROC \<and> p_state (procs d p) = RUNNING then (procs d p)\<lparr>p_rtime := p_rtime (procs d p) + 1\<rparr> else procs d p)"
proof -
  obtain d1 where d1: "foldR add_rtime [0..<NPROC] d = Inr d1" "procs d1 = (\<lambda>p.
      if p < NPROC \<and> p_state (procs d p) = RUNNING then (procs d p)\<lparr>p_rtime := p_rtime (procs d p) + 1\<rparr> else procs d p)"
    using fold_rtime[of "[0..<NPROC]" d] by auto
  have "foldR (\<lambda>p. with_lock (ProcLock p) (on_data (add_rtime p))) [0..<NPROC] (h, d) = Inr (settle h, d1)"
    by (subst with_lock_scan[OF assms(1)]) (use assms(2) d1(1) in \<open>auto simp: NPROC_def\<close>)
  then show ?thesis using d1(2) by (simp add: update_time_def print_times_procs)
qed

section \<open>Orphans\<close>

lemma globals_wake_other: "wake_other ch me p d = Inr d' \<Longrightarrow> globals d' = globals d"
  by (auto simp: wake_other_def wake_proc_def enqueue_keep_def Let_def dest!: globals_enqueue split: if_splits)

lemma wakeup_frame:
  assumes "hart_ok h" and "\<forall>p < NPROC. Some p \<noteq> c_proc (mycpu h) \<longrightarrow> lock_free (ProcLock p) h" and "sched_inv d"
  shows "\<exists>d'. wakeup ch (h, d) = Inr (settle h, d') \<and> sched_inv d' \<and> globals d' = globals d \<and>
    procs d' = woken ch (c_proc (mycpu h)) [0..<NPROC] d"
proof -
  obtain d' where d': "foldR (wake_other ch (c_proc (mycpu h))) [0..<NPROC] d = Inr d'" "sched_inv d'"
      "procs d' = woken ch (c_proc (mycpu h)) [0..<NPROC] d"
    using foldR_wake_other[OF assms(3), of "[0..<NPROC]" ch "c_proc (mycpu h)"] by (auto simp: atLeast0LessThan)
  moreover have "globals d' = globals d"
    by (rule foldR_pres[OF d'(1), where I = "\<lambda>x. globals x = globals d"]) (auto dest: globals_wake_other)
  ultimately show ?thesis using wakeup_data[OF assms(1,2), of ch d] by auto
qed

lemma woken_parent: "p_parent (woken ch me ps d q) = p_parent (procs d q)"
  by (simp add: woken_def)

text \<open>
  \<open>reparent\<close>, called with \<open>wait_lock\<close> held, leaves no process a child of the one that exits: its
  children become init's, all other parents stay, and the table keeps its invariant.
\<close>

theorem reparent_exact:
  assumes "hart_ok h" and "0 < c_noff (mycpu h)"
    and "\<forall>q < NPROC. Some q \<noteq> c_proc (mycpu h) \<longrightarrow> lock_free (ProcLock q) h" and "sched_inv d"
  shows "\<exists>d'. reparent p (h, d) = Inr (h, d') \<and> sched_inv d' \<and> globals d' = globals d \<and>
    (\<forall>q < NPROC. p_parent (procs d' q) = (if p_parent (procs d q) = Some p then initproc d else p_parent (procs d q)))"
proof -
  let ?f = "\<lambda>pp (h, d). if p_parent (procs d pp) = Some p
     then wakeup_proc (initproc d) (h, upd_proc pp (\<lambda>x. x\<lparr>p_parent := initproc d\<rparr>) d) else Inr (h, d)"
  have "\<exists>d'. foldR ?f ps (h, d) = Inr (h, d') \<and> sched_inv d' \<and> globals d' = globals d \<and>
      (\<forall>q. p_parent (procs d' q) =
        (if q \<in> set ps \<and> p_parent (procs d q) = Some p then initproc d else p_parent (procs d q)))"
    if "distinct ps" for ps
    using that
  proof (induction ps rule: rev_induct)
    case Nil
    with assms(4) show ?case by simp
  next
    case (snoc pp ps)
    then obtain d1 where d1: "foldR ?f ps (h, d) = Inr (h, d1)" "sched_inv d1" "globals d1 = globals d"
        "\<forall>q. p_parent (procs d1 q) =
          (if q \<in> set ps \<and> p_parent (procs d q) = Some p then initproc d else p_parent (procs d q))" by auto
    have pp: "pp \<notin> set ps" using snoc.prems by simp
    have ip: "initproc d1 = initproc d" using d1(3) by (simp add: globals_def)
    show ?case
    proof (cases "p_parent (procs d pp) = Some p")
      case False
      then have "foldR ?f (ps @ [pp]) (h, d) = Inr (h, d1)" using d1(1,4) pp by (simp add: foldR_append)
      with False d1(2-4) show ?thesis by auto
    next
      case True
      let ?d = "upd_proc pp (\<lambda>x. x\<lparr>p_parent := initproc d\<rparr>) d1"
      have inv: "sched_inv ?d" by (rule sched_inv_upd_proc[OF d1(2)]) simp_all
      obtain d2 where d2: "wakeup (map_option ChanProc (initproc d)) (h, ?d) = Inr (h, d2)" "sched_inv d2"
          "globals d2 = globals d1" "\<forall>q. p_parent (procs d2 q) = p_parent (procs ?d q)"
        using wakeup_frame[OF assms(1,3) inv, of "map_option ChanProc (initproc d)"] settle_nested[OF assms(2)]
        by (auto simp: woken_parent)
      have "foldR ?f (ps @ [pp]) (h, d) = Inr (h, d2)"
        using True d1(1,4) pp ip d2(1) by (simp add: foldR_append wakeup_proc_def)
      with True d2(2-4) d1(3,4) pp show ?thesis by auto
    qed
  qed
  from this[of "[0..<NPROC]"] show ?thesis by (auto simp: reparent_def)
qed

section \<open>Concrete runs\<close>

text \<open>
  Slot 0 is init and RUNNING on hart 0, slot 1 its child, asleep on the clock, and slot 2 a
  child of that one, asleep in \<open>wait\<close>.
\<close>

definition ops_pst :: pst where
  "ops_pst = enqueued 0 0
    (upd_proc 2 (\<lambda>x. x\<lparr>p_state := SLEEPING, p_pid := 3, p_chan := Some (ChanProc 2), p_parent := Some 1\<rparr>)
    (upd_proc 1 (\<lambda>x. x\<lparr>p_state := SLEEPING, p_pid := 2, p_chan := Some ChanTicks, p_parent := Some 0\<rparr>)
    (upd_proc 0 (\<lambda>x. x\<lparr>p_state := RUNNING, p_pid := 1\<rparr>) (pst0\<lparr>initproc := Some 0\<rparr>))))"

definition ops_hst :: hst where
  "ops_hst = mycpu_update (\<lambda>c. c\<lparr>c_proc := Some 0\<rparr>) (hst0 0)"

lemma ops_hst_ok: "hart_ok ops_hst" "lock_free lk ops_hst" "c_proc (mycpu ops_hst) = Some 0" "c_noff (mycpu ops_hst) = 0"
  by (simp_all add: ops_hst_def hst0_def hart_ok_def lock_free_def hart_defs)

lemma ops_queue: "queue ops_pst = (\<lambda>_. [])(0 := [0])"
  unfolding ops_pst_def queue_enqueued by (simp add: queue_def pst0_def fun_eq_iff)

lemma ops_procs:
  "p_state (procs ops_pst p) = (if p = 0 then RUNNING else if p = 1 \<or> p = 2 then SLEEPING else UNUSED)"
  "p_chan (procs ops_pst p) = (if p = 1 then Some ChanTicks else if p = 2 then Some (ChanProc 2) else None)"
  "p_pid (procs ops_pst p) = (if p = 0 then 1 else if p = 1 then 2 else if p = 2 then 3 else 0)"
  "p_parent (procs ops_pst p) = (if p = 1 then Some 0 else if p = 2 then Some 1 else None)"
  "p_queue_number (procs ops_pst p) = 0" "p_rtime (procs ops_pst p) = 0" "initproc ops_pst = Some 0"
  by (simp_all add: ops_pst_def procs_enqueued enqueued_def pst0_def proc0_def)

lemma ops_inv: "sched_inv ops_pst"
proof -
  have "multique ops_pst 0 0 = Some 0" "sizeofq ops_pst = (\<lambda>_. 0)(0 := 1)"
    by (simp_all add: ops_pst_def enqueued_def pst0_def)
  then show ?thesis
    by (auto simp: sched_inv_def mlfq_inv_def pids_unique_def ops_queue ops_procs active_def NPROC_def split: if_splits)
qed

theorem wakeup_exact_witness:
  "\<exists>d'. wakeup (Some ChanTicks) (ops_hst, ops_pst) = Inr (settle ops_hst, d') \<and>
    p_state (procs d' 1) = RUNNABLE \<and> p_state (procs d' 2) = SLEEPING \<and> 1 \<in> set (queue d' 0)"
proof -
  have s: "sleeper (Some ChanTicks) (Some 0) ops_pst p \<longleftrightarrow> p = 1" for p
    by (auto simp: sleeper_def ops_procs)
  have "\<forall>p < NPROC. Some p \<noteq> c_proc (mycpu ops_hst) \<longrightarrow> lock_free (ProcLock p) ops_hst"
    by (simp add: ops_hst_ok)
  from wakeup_exact[OF ops_hst_ok(1) this ops_inv, of "Some ChanTicks"] show ?thesis
    by (auto simp: woken_def ops_hst_ok(3) s ops_procs NPROC_def)
qed

theorem sched_guarded_witness:
  "\<exists>h'. yield demo_run (ops_hst, ops_pst) = Inr (h', upd_proc 0 (\<lambda>x. x\<lparr>p_state := RUNNABLE\<rparr>) ops_pst) \<and>
    handed_back 0 (locked (ProcLock 0) ops_hst) (settle (locked (ProcLock 0) ops_hst))"
proof -
  let ?h = "locked (ProcLock 0) ops_hst" and ?d = "upd_proc 0 (\<lambda>x. x\<lparr>p_state := RUNNABLE\<rparr>) ops_pst"
  note lp = locked_props[OF ops_hst_ok(1,4)]
  have hb: "handed_back 0 ?h ?h" using lp by (simp add: handed_back_def hart_ok_def)
  then have "demo_run 0 (?h, ?d) = Inr (?h, ?d)" by (simp add: demo_run_def upd_proc_def)
  moreover have "sched demo_run (?h, ?d) =
      Inr (mycpu_update (\<lambda>c. c\<lparr>c_intena := c_intena (mycpu ?h)\<rparr>) ?h, ?d)" (is "_ = Inr (?h2, ?d)")
    using calculation lp ops_hst_ok(3) by (subst sched_eq[where p = 0]) simp_all
  from sched_guarded[OF lp(1) this] have "handed_back 0 ?h (settle ?h)" using lp(4) ops_hst_ok(3) by simp
  moreover have "resumed 0 ?h" using hb lp(4) ops_hst_ok(3) by (simp add: resumed_def)
  ultimately show ?thesis
    using yield_eq[OF ops_hst_ok(1,3,4,2), of demo_run ops_pst] yield_back[of 0 ?h "sie ops_hst"] by auto
qed

theorem kill_exact_witness:
  "\<exists>d'. kill 3 (ops_hst, ops_pst) = Inr (0, (settle ops_hst, d')) \<and> p_killed (procs d' 2) \<and> p_state (procs d' 2) = RUNNABLE"
proof -
  have "[0..<NPROC] = 0 # 1 # 2 # [3..<64]" by (simp add: NPROC_def upt_conv_Cons)
  then have "List.find (\<lambda>p. p_pid (procs ops_pst p) = 3) [0..<NPROC] = Some 2" by (simp add: ops_procs)
  then show ?thesis
    using kill_exact[OF ops_hst_ok(1) _ ops_inv, of 3] by (auto simp: ops_hst_ok ops_procs)
qed

theorem update_time_charges_witness:
  "\<exists>d'. update_time (ops_hst, ops_pst) = Inr (settle ops_hst, d') \<and>
    p_rtime (procs d' 0) = 1 \<and> p_rtime (procs d' 1) = 0"
  using update_time_charges[OF ops_hst_ok(1), of ops_pst] by (auto simp: ops_hst_ok ops_procs NPROC_def)

theorem reparent_exact_witness:
  "\<exists>d'. reparent 1 (locked WaitLock ops_hst, ops_pst) = Inr (locked WaitLock ops_hst, d') \<and>
    p_parent (procs d' 2) = Some 0"
proof -
  note lp = locked_props[OF ops_hst_ok(1,4), of WaitLock]
  have "\<forall>q < NPROC. Some q \<noteq> c_proc (mycpu (locked WaitLock ops_hst)) \<longrightarrow> lock_free (ProcLock q) (locked WaitLock ops_hst)"
    using ops_hst_ok(2) by (simp add: locked_def lock_free_def)
  from reparent_exact[OF lp(1) _ this ops_inv, of 1] lp(2) show ?thesis
    by (auto simp: ops_procs NPROC_def)
qed

text \<open>A process that another hart wakes and resumes: it comes back holding its lock only.\<close>

definition back_run :: "nat \<Rightarrow> 'a pst_scheme kst \<Rightarrow> 'a pst_scheme kst res" where
  "back_run p st = (case st of (h, d) \<Rightarrow> Inr (h, upd_proc p (\<lambda>x. x\<lparr>p_state := RUNNING\<rparr>) d))"

theorem sleep_protocol_witness:
  "\<exists>h3 d2. sleep back_run ChanTicks TicksLock (locked TicksLock ops_hst, ops_pst) = Inr (h3, d2) \<and>
    holding TicksLock h3 \<and> lock_free (ProcLock 0) h3 \<and> p_state (procs d2 0) = RUNNING \<and> p_chan (procs d2 0) = None"
proof -
  let ?h = "locked TicksLock ops_hst"
  note lp = locked_props[OF ops_hst_ok(1,4), of TicksLock]
  have fr: "lock_free (ProcLock 0) ?h" using ops_hst_ok(2) by (simp add: locked_def lock_free_def)
  note ah = asleep_h_props[OF lp(1,2), of TicksLock 0]
  have re: "resumed 0 (asleep_h 0 TicksLock ?h)"
    using ah lp(4) ops_hst_ok(3) by (simp add: resumed_def handed_back_def hart_ok_def)
  have pre: "c_proc (mycpu ?h) = Some 0" "TicksLock \<noteq> ProcLock 0" "0 < NPROC" "p_state (procs ops_pst 0) = RUNNING"
    using lp(4) ops_hst_ok(3) by (simp_all add: ops_procs NPROC_def)
  from sleep_protocol[OF lp(1) pre(1) lp(2,3) fr pre(2) ops_inv pre(3,4), of ChanTicks back_run] obtain d1 where
    "\<forall>h2 d2. back_run 0 (asleep_h 0 TicksLock ?h, d1) = Inr (h2, d2) \<and> resumed 0 h2 \<and> lock_free TicksLock h2 \<longrightarrow>
      (\<exists>h3. sleep back_run ChanTicks TicksLock (?h, ops_pst) = Inr (h3, upd_proc 0 (\<lambda>x. x\<lparr>p_chan := None\<rparr>) d2) \<and>
        holding TicksLock h3 \<and> lock_free (ProcLock 0) h3 \<and> c_noff (mycpu h3) = 1 \<and> c_intena (mycpu h3) = c_intena (mycpu ?h))"
    by blast
  then have "\<exists>h3. sleep back_run ChanTicks TicksLock (?h, ops_pst) =
        Inr (h3, upd_proc 0 (\<lambda>x. x\<lparr>p_chan := None\<rparr>) (upd_proc 0 (\<lambda>x. x\<lparr>p_state := RUNNING\<rparr>) d1)) \<and>
      holding TicksLock h3 \<and> lock_free (ProcLock 0) h3"
    using re ah(5) by (auto simp: back_run_def)
  then show ?thesis by auto
qed

end
