(* ===== verification/SleepWake.thy ===== *)
theory SleepWake
  imports ProcTable
begin

text \<open>
  Sleeping and waking as they interleave: a process that waits for a condition with \<open>sleep\<close>, and
  any number of harts that set the condition and call \<open>wakeup\<close> (\<open>kernel/proc.c\<close>), one step per
  lock operation or locked store. The condition is protected by the lock \<open>lk\<close> that is passed to
  \<open>sleep\<close>, as the callers do: \<open>acquire(lk); while(!cond) sleep(chan, lk); ... release(lk)\<close> on
  one side, \<open>acquire(lk); cond = 1; wakeup(chan); release(lk)\<close> on the other.
\<close>

section \<open>The system\<close>

text \<open>The sleeper: which statement of the loop or of \<open>sleep\<close> it is about to execute.\<close>

datatype spc =
    SAcquire   \<comment> \<open>before \<open>acquire(lk)\<close>\<close>
  | STest      \<comment> \<open>testing the condition, \<open>lk\<close> held\<close>
  | SSleep     \<comment> \<open>\<open>sleep\<close> entered: before \<open>acquire(&p->lock)\<close>\<close>
  | SUnlock    \<comment> \<open>before \<open>release(lk)\<close>\<close>
  | SMark      \<comment> \<open>before \<open>p->chan = chan; p->state = SLEEPING\<close>\<close>
  | SSched     \<comment> \<open>before \<open>sched()\<close>, whose switch ends with the scheduler's \<open>release(&p->lock)\<close>\<close>
  | SAsleep    \<comment> \<open>switched away\<close>
  | SBack      \<comment> \<open>switched back, \<open>p->lock\<close> held: before \<open>p->chan = 0; release(&p->lock)\<close>\<close>
  | SUse       \<comment> \<open>the condition held: before using it up and \<open>release(lk)\<close>\<close>

datatype wpc =
    WAcquire   \<comment> \<open>before \<open>acquire(lk)\<close>\<close>
  | WSet       \<comment> \<open>before setting the condition\<close>
  | WWakeup    \<comment> \<open>\<open>wakeup\<close>: before \<open>acquire(&p->lock)\<close>\<close>
  | WCheck     \<comment> \<open>\<open>p->lock\<close> held: before the test of state and channel, and \<open>release(&p->lock)\<close>\<close>
  | WRelease   \<comment> \<open>before \<open>release(lk)\<close>\<close>

datatype agent = Sleeper | Waker nat

record sw_sys =
  sw_s :: spc
  sw_w :: "nat \<Rightarrow> wpc"
  sw_lk :: "agent option"
  sw_plock :: "agent option"
  sw_state :: procstate
  sw_chan :: "chan option"
  sw_cond :: bool

definition sw_init :: sw_sys where
  "sw_init = \<lparr>sw_s = SAcquire, sw_w = (\<lambda>_. WAcquire), sw_lk = None, sw_plock = None,
     sw_state = RUNNING, sw_chan = None, sw_cond = False\<rparr>"

definition waker_at :: "nat \<Rightarrow> wpc \<Rightarrow> sw_sys \<Rightarrow> sw_sys" where
  "waker_at i c s = s\<lparr>sw_w := (sw_w s)(i := c)\<rparr>"

inductive sw_step :: "chan \<Rightarrow> sw_sys \<Rightarrow> sw_sys \<Rightarrow> bool" for ch where
  s_acquire: "sw_s s = SAcquire \<Longrightarrow> sw_lk s = None \<Longrightarrow> sw_step ch s (s\<lparr>sw_s := STest, sw_lk := Some Sleeper\<rparr>)"
| s_test: "sw_s s = STest \<Longrightarrow> sw_step ch s (s\<lparr>sw_s := (if sw_cond s then SUse else SSleep)\<rparr>)"
| s_plock: "sw_s s = SSleep \<Longrightarrow> sw_plock s = None \<Longrightarrow> sw_step ch s (s\<lparr>sw_s := SUnlock, sw_plock := Some Sleeper\<rparr>)"
| s_unlock: "sw_s s = SUnlock \<Longrightarrow> sw_step ch s (s\<lparr>sw_s := SMark, sw_lk := None\<rparr>)"
| s_mark: "sw_s s = SMark \<Longrightarrow> sw_step ch s (s\<lparr>sw_s := SSched, sw_chan := Some ch, sw_state := SLEEPING\<rparr>)"
| s_sched: "sw_s s = SSched \<Longrightarrow> sw_step ch s (s\<lparr>sw_s := SAsleep, sw_plock := None\<rparr>)"
| s_resume: "sw_s s = SAsleep \<Longrightarrow> sw_state s = RUNNABLE \<Longrightarrow> sw_plock s = None \<Longrightarrow>
    sw_step ch s (s\<lparr>sw_s := SBack, sw_plock := Some Sleeper, sw_state := RUNNING\<rparr>)"
| s_back: "sw_s s = SBack \<Longrightarrow> sw_step ch s (s\<lparr>sw_s := SAcquire, sw_chan := None, sw_plock := None\<rparr>)"
| s_use: "sw_s s = SUse \<Longrightarrow> sw_step ch s (s\<lparr>sw_s := SAcquire, sw_cond := False, sw_lk := None\<rparr>)"
| w_acquire: "sw_w s i = WAcquire \<Longrightarrow> sw_lk s = None \<Longrightarrow> sw_step ch s (waker_at i WSet (s\<lparr>sw_lk := Some (Waker i)\<rparr>))"
| w_set: "sw_w s i = WSet \<Longrightarrow> sw_step ch s (waker_at i WWakeup (s\<lparr>sw_cond := True\<rparr>))"
| w_plock: "sw_w s i = WWakeup \<Longrightarrow> sw_plock s = None \<Longrightarrow>
    sw_step ch s (waker_at i WCheck (s\<lparr>sw_plock := Some (Waker i)\<rparr>))"
| w_check: "sw_w s i = WCheck \<Longrightarrow>
    sw_step ch s (waker_at i WRelease (s\<lparr>sw_plock := None,
      sw_state := (if sw_state s = SLEEPING \<and> sw_chan s = Some ch then RUNNABLE else sw_state s)\<rparr>))"
| w_release: "sw_w s i = WRelease \<Longrightarrow> sw_step ch s (waker_at i WAcquire (s\<lparr>sw_lk := None\<rparr>))"

inductive sw_reach :: "chan \<Rightarrow> sw_sys \<Rightarrow> bool" for ch where
  sw_start: "sw_reach ch sw_init"
| sw_more: "sw_reach ch s \<Longrightarrow> sw_step ch s t \<Longrightarrow> sw_reach ch t"

section \<open>No wakeup is lost\<close>

text \<open>Who holds the two locks is read off the positions.\<close>

definition sw_locks :: "sw_sys \<Rightarrow> bool" where
  "sw_locks s \<longleftrightarrow>
     (sw_lk s = Some Sleeper \<longleftrightarrow> sw_s s \<in> {STest, SSleep, SUnlock, SUse}) \<and>
     (\<forall>i. sw_lk s = Some (Waker i) \<longleftrightarrow> sw_w s i \<noteq> WAcquire) \<and>
     (sw_plock s = Some Sleeper \<longleftrightarrow> sw_s s \<in> {SUnlock, SMark, SSched, SBack}) \<and>
     (\<forall>i. sw_plock s = Some (Waker i) \<longleftrightarrow> sw_w s i = WCheck)"

text \<open>
  The process is SLEEPING only between the store and the switch back, on the channel; and once
  the condition holds while it is falling asleep, some hart is still on its way to wake it.
\<close>

definition sw_sleep_ok :: "chan \<Rightarrow> sw_sys \<Rightarrow> bool" where
  "sw_sleep_ok ch s \<longleftrightarrow>
     (sw_s s \<in> {SSched, SAsleep} \<longrightarrow> sw_chan s = Some ch) \<and>
     (sw_s s = SSched \<longrightarrow> sw_state s = SLEEPING) \<and>
     (sw_s s = SAsleep \<longrightarrow> sw_state s = SLEEPING \<or> sw_state s = RUNNABLE) \<and>
     (sw_s s \<notin> {SSched, SAsleep} \<longrightarrow> sw_state s = RUNNING) \<and>
     (sw_s s \<in> {SSleep, SUnlock} \<longrightarrow> \<not> sw_cond s) \<and>
     (sw_cond s \<and> (sw_s s = SMark \<or> sw_state s = SLEEPING) \<longrightarrow>
        (\<exists>i. sw_w s i = WWakeup \<or> sw_w s i = WCheck))"

lemma sw_locks_excl:
  assumes "sw_locks s"
  shows "sw_w s i \<noteq> WAcquire \<Longrightarrow> sw_w s j \<noteq> WAcquire \<Longrightarrow> i = j"
    and "sw_w s i \<noteq> WAcquire \<Longrightarrow> sw_s s \<notin> {STest, SSleep, SUnlock, SUse}"
    and "sw_w s i = WCheck \<Longrightarrow> sw_s s \<notin> {SUnlock, SMark, SSched, SBack}"
  using assms unfolding sw_locks_def by (metis agent.inject option.inject, metis agent.distinct(1) option.inject,
    metis agent.distinct(1) option.inject)

lemma sw_step_locks:
  assumes "sw_step ch s t" and "sw_locks s"
  shows "sw_locks t"
proof -
  have l: "sw_lk s = Some Sleeper \<longleftrightarrow> sw_s s \<in> {STest, SSleep, SUnlock, SUse}"
      "\<And>i. sw_lk s = Some (Waker i) \<longleftrightarrow> sw_w s i \<noteq> WAcquire"
      "sw_plock s = Some Sleeper \<longleftrightarrow> sw_s s \<in> {SUnlock, SMark, SSched, SBack}"
      "\<And>i. sw_plock s = Some (Waker i) \<longleftrightarrow> sw_w s i = WCheck"
    using assms(2) by (simp_all add: sw_locks_def)
  have none: "sw_w s j = WAcquire" if "sw_lk s = None \<or> sw_lk s = Some Sleeper" for j
    using l(2)[of j] that by auto
  have pnone: "sw_w s j \<noteq> WCheck" if "sw_plock s = None \<or> sw_plock s = Some Sleeper" for j
    using l(4)[of j] that by auto
  have oth: "sw_w s j = WAcquire" if "sw_w s i \<noteq> WAcquire" "j \<noteq> i" for i j
    using sw_locks_excl(1)[OF assms(2), of i j] that by auto
  show ?thesis
    using assms(1)
  proof (cases rule: sw_step.cases)
    case s_acquire
    with l none show ?thesis by (simp add: sw_locks_def)
  next
    case s_test
    with l none show ?thesis by (simp add: sw_locks_def)
  next
    case s_plock
    with l pnone show ?thesis by (simp add: sw_locks_def)
  next
    case s_unlock
    with l none show ?thesis by (simp add: sw_locks_def)
  next
    case s_mark
    with l show ?thesis by (simp add: sw_locks_def)
  next
    case s_sched
    with l pnone show ?thesis by (simp add: sw_locks_def)
  next
    case s_resume
    with l pnone show ?thesis by (simp add: sw_locks_def)
  next
    case s_back
    with l pnone show ?thesis by (simp add: sw_locks_def)
  next
    case s_use
    with l none show ?thesis by (simp add: sw_locks_def)
  next
    case (w_acquire i)
    with l none show ?thesis by (auto simp: sw_locks_def waker_at_def)
  next
    case (w_set i)
    with l show ?thesis by (simp add: sw_locks_def waker_at_def)
  next
    case (w_plock i)
    with l pnone show ?thesis by (auto simp: sw_locks_def waker_at_def)
  next
    case (w_check i)
    with l oth[of i] show ?thesis by (auto simp: sw_locks_def waker_at_def)
  next
    case (w_release i)
    with l oth[of i] show ?thesis by (auto simp: sw_locks_def waker_at_def)
  qed
qed

lemma sw_step_sleep_ok:
  assumes "sw_step ch s t" and "sw_locks s" and "sw_sleep_ok ch s"
  shows "sw_sleep_ok ch t"
proof -
  have oth: "sw_w s j = WAcquire" if "sw_w s i \<noteq> WAcquire" "j \<noteq> i" for i j
    using sw_locks_excl(1)[OF assms(2), of i j] that by auto
  have held: "sw_s s \<notin> {STest, SSleep, SUnlock, SUse}" if "sw_w s i \<noteq> WAcquire" for i
    using sw_locks_excl(2)[OF assms(2)] that by blast
  have free: "\<not> (sw_w s i = WWakeup \<or> sw_w s i = WCheck)" if "sw_s s = SUnlock \<or> sw_s s = STest" for i
    using held[of i] that by auto
  show ?thesis
    using assms(1)
  proof (cases rule: sw_step.cases)
    case (w_acquire i)
    with assms(3) show ?thesis unfolding sw_sleep_ok_def waker_at_def
      by simp (metis wpc.distinct(3) wpc.distinct(5))
  next
    case (w_set i)
    with assms(3) held[of i] show ?thesis unfolding sw_sleep_ok_def waker_at_def by auto
  next
    case (w_plock i)
    with assms(3) show ?thesis unfolding sw_sleep_ok_def waker_at_def by auto
  next
    case (w_check i)
    with sw_locks_excl(3)[OF assms(2), of i] assms(3) show ?thesis
      unfolding sw_sleep_ok_def waker_at_def by auto
  next
    case (w_release i)
    with assms(3) oth[of i] show ?thesis unfolding sw_sleep_ok_def waker_at_def
      by simp (metis wpc.distinct(3,5,13,15,17,19))
  qed (use assms(3) in \<open>auto simp: sw_sleep_ok_def\<close>)
qed

lemma sw_reach_inv: "sw_reach ch s \<Longrightarrow> sw_locks s \<and> sw_sleep_ok ch s"
proof (induction rule: sw_reach.induct)
  case sw_start
  then show ?case by (simp add: sw_init_def sw_locks_def sw_sleep_ok_def)
next
  case (sw_more s t)
  then show ?case using sw_step_locks sw_step_sleep_ok by blast
qed

text \<open>
  C19. No wakeup is lost: in every interleaving, when the condition holds and no hart is inside
  its call of \<open>wakeup\<close> any more, the process is not left SLEEPING.
\<close>

theorem no_lost_wakeup:
  assumes "sw_reach ch s" and "sw_cond s" and "\<forall>i. sw_w s i \<notin> {WWakeup, WCheck}"
  shows "sw_state s \<noteq> SLEEPING"
  using sw_reach_inv[OF assms(1)] assms(2,3) by (auto simp: sw_sleep_ok_def)

text \<open>One full run: the process falls asleep, hart 0 sets the condition and wakes it.\<close>

definition sw_at :: "spc \<Rightarrow> wpc \<Rightarrow> agent option \<Rightarrow> agent option \<Rightarrow> procstate \<Rightarrow> chan option \<Rightarrow> bool \<Rightarrow> sw_sys" where
  "sw_at a w l pl st c b = \<lparr>sw_s = a, sw_w = (\<lambda>_. WAcquire)(0 := w), sw_lk = l, sw_plock = pl,
     sw_state = st, sw_chan = c, sw_cond = b\<rparr>"

lemma sw_demo_reach: "sw_reach ch (sw_at SAsleep WAcquire None None RUNNABLE (Some ch) True)"
proof -
  note d = sw_at_def waker_at_def
  have "sw_reach ch (sw_at SAcquire WAcquire None None RUNNING None False)"
    using sw_start[of ch] by (simp add: sw_at_def sw_init_def fun_upd_def)
  then have "sw_reach ch (sw_at STest WAcquire (Some Sleeper) None RUNNING None False)"
    using s_acquire[of "sw_at SAcquire WAcquire None None RUNNING None False" ch] by (auto simp: d intro: sw_more)
  then have "sw_reach ch (sw_at SSleep WAcquire (Some Sleeper) None RUNNING None False)"
    using s_test[of "sw_at STest WAcquire (Some Sleeper) None RUNNING None False" ch] by (auto simp: d intro: sw_more)
  then have "sw_reach ch (sw_at SUnlock WAcquire (Some Sleeper) (Some Sleeper) RUNNING None False)"
    using s_plock[of "sw_at SSleep WAcquire (Some Sleeper) None RUNNING None False" ch] by (auto simp: d intro: sw_more)
  then have "sw_reach ch (sw_at SMark WAcquire None (Some Sleeper) RUNNING None False)"
    using s_unlock[of "sw_at SUnlock WAcquire (Some Sleeper) (Some Sleeper) RUNNING None False" ch] by (auto simp: d intro: sw_more)
  then have "sw_reach ch (sw_at SSched WAcquire None (Some Sleeper) SLEEPING (Some ch) False)"
    using s_mark[of "sw_at SMark WAcquire None (Some Sleeper) RUNNING None False" ch] by (auto simp: d intro: sw_more)
  then have "sw_reach ch (sw_at SAsleep WAcquire None None SLEEPING (Some ch) False)"
    using s_sched[of "sw_at SSched WAcquire None (Some Sleeper) SLEEPING (Some ch) False" ch] by (auto simp: d intro: sw_more)
  then have "sw_reach ch (sw_at SAsleep WSet (Some (Waker 0)) None SLEEPING (Some ch) False)"
    using w_acquire[of "sw_at SAsleep WAcquire None None SLEEPING (Some ch) False" 0 ch] by (auto simp: d intro: sw_more)
  then have "sw_reach ch (sw_at SAsleep WWakeup (Some (Waker 0)) None SLEEPING (Some ch) True)"
    using w_set[of "sw_at SAsleep WSet (Some (Waker 0)) None SLEEPING (Some ch) False" 0 ch] by (auto simp: d intro: sw_more)
  then have "sw_reach ch (sw_at SAsleep WCheck (Some (Waker 0)) (Some (Waker 0)) SLEEPING (Some ch) True)"
    using w_plock[of "sw_at SAsleep WWakeup (Some (Waker 0)) None SLEEPING (Some ch) True" 0 ch] by (auto simp: d intro: sw_more)
  then have "sw_reach ch (sw_at SAsleep WRelease (Some (Waker 0)) None RUNNABLE (Some ch) True)"
    using w_check[of "sw_at SAsleep WCheck (Some (Waker 0)) (Some (Waker 0)) SLEEPING (Some ch) True" 0 ch] by (auto simp: d intro: sw_more)
  then show ?thesis
    using w_release[of "sw_at SAsleep WRelease (Some (Waker 0)) None RUNNABLE (Some ch) True" 0 ch] by (auto simp: d intro: sw_more)
qed

theorem no_lost_wakeup_witness:
  "sw_state (sw_at SAsleep WAcquire None None RUNNABLE (Some ChanTicks) True) \<noteq> SLEEPING"
  by (rule no_lost_wakeup[OF sw_demo_reach]) (simp_all add: sw_at_def)

end
