(* ===== verification/Mem.thy ===== *)
theory Mem
  imports Prelude
begin

text \<open>
  Byte-addressed memory and the little-endian words the code keeps in it: loads and stores of
  machine words and of runs of bytes, what a load sees of a store, and the arithmetic of aligned
  addresses that tells pages and words apart.
\<close>

type_synonym bytemem = "uint64 \<Rightarrow> uint8"

section \<open>Little-endian words\<close>

primrec le_bytes :: "nat \<Rightarrow> 'a :: len word \<Rightarrow> uint8 list" where
  "le_bytes 0 v = []"
| "le_bytes (Suc n) v = ucast v # le_bytes n (drop_bit 8 v)"

primrec le_word :: "uint8 list \<Rightarrow> 'a :: len word" where
  "le_word [] = 0"
| "le_word (b # bs) = ucast b OR push_bit 8 (le_word bs)"

lemma length_le_bytes [simp]: "length (le_bytes n v) = n"
  by (induction n arbitrary: v) simp_all

lemma le_word_le_bytes_take: "le_word (le_bytes n v) = take_bit (8 * n) v"
proof (induction n arbitrary: v)
  case 0
  then show ?case by simp
next
  case (Suc n)
  show ?case
    by (rule bit_word_eqI) (auto simp: Suc bit_simps)
qed

lemma le_word_le_bytes: "LENGTH('a) \<le> 8 * n \<Longrightarrow> le_word (le_bytes n v) = v" for v :: "'a :: len word"
  by (simp add: le_word_le_bytes_take take_bit_word_eq_self)

lemma take_bit_more: "take_bit k w = w \<Longrightarrow> k \<le> l \<Longrightarrow> take_bit l w = w" for w :: "'a :: len word"
  by (metis min.absorb2 take_bit_take_bit)

lemma le_bytes_le_word:
  assumes "8 * length bs \<le> LENGTH('a)"
  shows "le_bytes (length bs) (le_word bs :: 'a :: len word) = bs"
  using assms
proof (induction bs)
  case Nil
  then show ?case by simp
next
  case (Cons b bs)
  have "ucast (ucast b OR push_bit 8 (le_word bs) :: 'a word) = b"
    using Cons.prems by (intro bit_word_eqI) (auto simp: bit_simps)
  moreover have "le_bytes (length bs) (drop_bit 8 (ucast b OR push_bit 8 (le_word bs) :: 'a word)) = bs"
  proof -
    have small: "take_bit (8 * length bs) (le_word bs :: 'a word) = le_word bs"
      using Cons.IH Cons.prems le_word_le_bytes_take[of "length bs" "le_word bs :: 'a word"] by simp
    have "drop_bit 8 (ucast b OR push_bit 8 (le_word bs) :: 'a word) = take_bit (LENGTH('a) - 8) (le_word bs)"
      by (rule bit_word_eqI) (auto simp: bit_simps dest: bit_imp_le_length)
    also have "\<dots> = le_word bs" by (rule take_bit_more[OF small]) (use Cons.prems in simp)
    finally show ?thesis using Cons by simp
  qed
  ultimately show ?case by simp
qed

section \<open>Aligned addresses\<close>

definition aligned :: "nat \<Rightarrow> uint64 \<Rightarrow> bool" where
  "aligned n a \<longleftrightarrow> take_bit n a = 0"

lemma aligned_mono: "aligned n a \<Longrightarrow> k \<le> n \<Longrightarrow> aligned k a"
  unfolding aligned_def by (metis min.absorb1 take_bit_of_0 take_bit_take_bit)

lemma aligned_add_or:
  assumes "aligned n a" and "drop_bit n x = 0"
  shows "a + x = a OR x"
proof (rule disjunctive_add)
  fix k
  show "\<not> bit a k \<or> \<not> bit x k"
  proof (cases "k < n")
    case True
    then have "bit a k = bit (take_bit n a) k" by (simp add: bit_take_bit_iff)
    with assms(1) show ?thesis by (simp add: aligned_def)
  next
    case False
    then have "bit x k = bit (drop_bit n x) (k - n)" by (simp add: bit_drop_bit_eq)
    with assms(2) show ?thesis by simp
  qed
qed

lemma unat_drop_bit: "unat (drop_bit n x) = unat x div 2 ^ n" for x :: uint64
proof -
  have "unat (drop_bit n x) = drop_bit n (unat x)"
    using unsigned_drop_bit_eq[of n x, where 'a = nat] take_bit_nat_eq_self[OF unsigned_less[of x]] by simp
  also have "\<dots> = unat x div 2 ^ n" by (rule drop_bit_eq_div)
  finally show ?thesis .
qed

lemma drop_bit_zero_iff: "drop_bit n x = 0 \<longleftrightarrow> unat x < 2 ^ n" for x :: uint64
  using unat_drop_bit[of n x] by (metis div_eq_0_iff power_not_zero unsigned_eq_0_iff zero_neq_numeral)

lemma drop_bit_of_nat: "i < 2 ^ n \<Longrightarrow> drop_bit n (of_nat i :: uint64) = 0"
  unfolding drop_bit_zero_iff unat_of_nat by (meson le_less_trans mod_less_eq_dividend)

lemma drop_bit_zero_bits: "drop_bit n x = 0 \<longleftrightarrow> (\<forall>k. bit x k \<longrightarrow> k < n)" for x :: "'a :: len word"
proof
  assume z: "drop_bit n x = 0"
  show "\<forall>k. bit x k \<longrightarrow> k < n"
  proof (intro allI impI)
    fix k assume b: "bit x k"
    show "k < n"
    proof (rule ccontr)
      assume "\<not> k < n"
      then have "bit (drop_bit n x) (k - n)" using b by (simp add: bit_drop_bit_eq)
      with z show False by simp
    qed
  qed
next
  assume "\<forall>k. bit x k \<longrightarrow> k < n"
  then show "drop_bit n x = 0" by (intro bit_word_eqI) (auto simp: bit_drop_bit_eq)
qed

lemma take_bit_zero_bits: "take_bit n x = 0 \<longleftrightarrow> (\<forall>k. bit x k \<longrightarrow> n \<le> k)" for x :: "'a :: len word"
proof
  assume z: "take_bit n x = 0"
  show "\<forall>k. bit x k \<longrightarrow> n \<le> k"
  proof (intro allI impI)
    fix k assume b: "bit x k"
    show "n \<le> k"
    proof (rule ccontr)
      assume "\<not> n \<le> k"
      then have "bit (take_bit n x) k" using b by (simp add: bit_take_bit_iff)
      with z show False by simp
    qed
  qed
next
  assume "\<forall>k. bit x k \<longrightarrow> n \<le> k"
  then show "take_bit n x = 0" by (intro bit_word_eqI) (auto simp: bit_take_bit_iff)
qed

text \<open>An offset below the alignment leaves the block and appears as the low bits.\<close>

lemma aligned_offset:
  assumes "aligned n a" and "drop_bit n x = 0"
  shows "drop_bit n (a + x) = drop_bit n a" and "take_bit n (a + x) = x"
proof -
  show "drop_bit n (a + x) = drop_bit n a" using assms by (simp add: aligned_add_or drop_bit_or)
  have "take_bit n x = x"
  proof (rule bit_word_eqI)
    fix k
    show "bit (take_bit n x) k = bit x k"
    proof (cases "k < n")
      case False
      then have "bit x k = bit (drop_bit n x) (k - n)" by (simp add: bit_drop_bit_eq)
      with assms(2) False show ?thesis by (simp add: bit_take_bit_iff)
    qed (simp add: bit_take_bit_iff)
  qed
  with assms show "take_bit n (a + x) = x" by (simp add: aligned_add_or take_bit_or aligned_def)
qed

lemma aligned_eq:
  assumes "aligned n a" and "aligned n b" and "drop_bit n a = drop_bit n b"
  shows "a = b"
proof (rule bit_word_eqI)
  fix k
  show "bit a k = bit b k"
  proof (cases "k < n")
    case True
    then have "bit a k = bit (take_bit n a) k" "bit b k = bit (take_bit n b) k" by (simp_all add: bit_take_bit_iff)
    with assms(1,2) show ?thesis by (simp add: aligned_def)
  next
    case False
    then have "bit a k = bit (drop_bit n a) (k - n)" "bit b k = bit (drop_bit n b) (k - n)"
      by (simp_all add: bit_drop_bit_eq)
    with assms(3) show ?thesis by simp
  qed
qed

text \<open>Distinct aligned blocks do not overlap.\<close>

lemma aligned_disjoint:
  assumes "aligned n a" and "aligned n b" and "a \<noteq> b" and "i < 2 ^ n" and "j < 2 ^ n"
  shows "a + of_nat i \<noteq> b + of_nat j"
proof
  assume "a + of_nat i = b + of_nat j"
  then have "drop_bit n a = drop_bit n b"
    using aligned_offset(1)[OF assms(1) drop_bit_of_nat[OF assms(4)]]
      aligned_offset(1)[OF assms(2) drop_bit_of_nat[OF assms(5)]] by simp
  with aligned_eq[OF assms(1,2)] assms(3) show False by simp
qed

text \<open>An address is in an aligned block iff it is that far behind its start.\<close>

lemma block_offset:
  assumes "aligned n p" and "n < 64"
  shows "unat (a - p) < 2 ^ n \<longleftrightarrow> drop_bit n a = drop_bit n p"
proof
  assume "unat (a - p) < 2 ^ n"
  then have "drop_bit n (a - p) = 0" by (simp add: drop_bit_zero_iff)
  from aligned_offset(1)[OF assms(1) this] show "drop_bit n a = drop_bit n p" by simp
next
  assume eq: "drop_bit n a = drop_bit n p"
  have z: "drop_bit n (take_bit n a) = 0"
    by (rule bit_word_eqI) (simp add: bit_simps)
  have "a = push_bit n (drop_bit n a) OR take_bit n a"
    by (rule bit_word_eqI) (auto simp: bit_simps)
  also have "push_bit n (drop_bit n a) = p"
    unfolding eq using assms(1) by (metis aligned_def bits_ident add.right_neutral)
  also have "p OR take_bit n a = p + take_bit n a" by (simp add: aligned_add_or[OF assms(1) z])
  finally have "a - p = take_bit n a" by (simp add: algebra_simps)
  with z show "unat (a - p) < 2 ^ n" by (simp add: drop_bit_zero_iff)
qed

section \<open>Loads and stores\<close>

definition load_bytes :: "bytemem \<Rightarrow> uint64 \<Rightarrow> nat \<Rightarrow> uint8 list" where
  "load_bytes m a n = map (\<lambda>i. m (a + of_nat i)) [0..<n]"

primrec store_bytes :: "bytemem \<Rightarrow> uint64 \<Rightarrow> uint8 list \<Rightarrow> bytemem" where
  "store_bytes m a [] = m"
| "store_bytes m a (b # bs) = store_bytes (m(a := b)) (a + 1) bs"

definition load64 :: "bytemem \<Rightarrow> uint64 \<Rightarrow> uint64" where
  "load64 m a = le_word (load_bytes m a 8)"

definition store64 :: "bytemem \<Rightarrow> uint64 \<Rightarrow> uint64 \<Rightarrow> bytemem" where
  "store64 m a v = store_bytes m a (le_bytes 8 v)"

lemma length_load_bytes [simp]: "length (load_bytes m a n) = n"
  by (simp add: load_bytes_def)

lemma store_bytes_apply:
  assumes "length bs < 2 ^ 64"
  shows "store_bytes m a bs x = (if unat (x - a) < length bs then bs ! unat (x - a) else m x)"
  using assms
proof (induction bs arbitrary: m a)
  case Nil
  then show ?case by simp
next
  case (Cons b bs)
  have IH: "store_bytes (m(a := b)) (a + 1) bs x =
      (if unat (x - (a + 1)) < length bs then bs ! unat (x - (a + 1)) else (m(a := b)) x)"
    using Cons by simp
  show ?case
  proof (cases "x = a")
    case True
    have "unat (x - (a + 1)) = 2 ^ 64 - 1" using True by (simp add: unsigned_minus_1_eq_mask mask_eq_exp_minus_1)
    with Cons.prems IH True show ?thesis by simp
  next
    case False
    then have ne: "x - a \<noteq> 0" by simp
    then have u: "unat (x - (a + 1)) = unat (x - a) - 1"
      by (metis diff_diff_eq unat_minus_one)
    from ne have "0 < unat (x - a)" by (simp add: unat_gt_0)
    with u IH False show ?thesis by (auto simp: nth_Cons')
  qed
qed

lemma offset_iff: "n < 2 ^ 64 \<Longrightarrow> x = a + of_nat n \<longleftrightarrow> unat (x - a) = n" for x a :: uint64
proof
  assume n: "n < 2 ^ 64"
  show "unat (x - a) = n" if "x = a + of_nat n" using that n by (simp add: unat_of_nat)
  show "x = a + of_nat n" if "unat (x - a) = n" unfolding that[symmetric] by simp
qed

text \<open>What is stored in a run of bytes is read back; a run that does not meet it is not affected.\<close>

lemma load_store_bytes:
  assumes "length bs < 2 ^ 64"
  shows "load_bytes (store_bytes m a bs) a (length bs) = bs"
proof (rule nth_equalityI)
  fix i assume "i < length (load_bytes (store_bytes m a bs) a (length bs))"
  then have i: "i < length bs" by simp
  then have "unat (a + of_nat i - a) = i" using assms by (simp add: unat_of_nat)
  with i assms show "load_bytes (store_bytes m a bs) a (length bs) ! i = bs ! i"
    by (simp add: load_bytes_def store_bytes_apply)
qed simp

lemma store_bytes_other:
  assumes "length bs < 2 ^ 64" and "\<And>i. i < length bs \<Longrightarrow> x \<noteq> a + of_nat i"
  shows "store_bytes m a bs x = m x"
proof -
  have "x = a + of_nat (unat (x - a))" by simp
  with assms(2)[of "unat (x - a)"] have "\<not> unat (x - a) < length bs" by blast
  with assms(1) show ?thesis by (simp add: store_bytes_apply)
qed

lemma load_bytes_other:
  assumes "length bs < 2 ^ 64" and "\<And>i j. i < length bs \<Longrightarrow> j < n \<Longrightarrow> b + of_nat j \<noteq> a + of_nat i"
  shows "load_bytes (store_bytes m a bs) b n = load_bytes m b n"
  unfolding load_bytes_def using assms by (auto intro!: store_bytes_other)

lemma load_store64 [simp]: "load64 (store64 m a v) a = v"
  using load_store_bytes[of "le_bytes 8 v" m a] by (simp add: load64_def store64_def le_word_le_bytes)

lemma load_store64_other:
  assumes "aligned 3 a" and "aligned 3 b" and "a \<noteq> b"
  shows "load64 (store64 m a v) b = load64 m b"
proof -
  have "load_bytes (store_bytes m a (le_bytes 8 v)) b 8 = load_bytes m b 8"
    using aligned_disjoint[OF assms(2,1)] assms(3) by (intro load_bytes_other) auto
  then show ?thesis by (simp add: load64_def store64_def)
qed

lemma store64_byte_other:
  assumes "aligned 3 a" and "drop_bit 3 x \<noteq> drop_bit 3 a"
  shows "store64 m a v x = m x"
  unfolding store64_def
proof (rule store_bytes_other)
  fix i assume "i < length (le_bytes 8 v)"
  then have "drop_bit 3 (a + of_nat i) = drop_bit 3 a"
    using aligned_offset(1)[OF assms(1) drop_bit_of_nat[of i 3]] by simp
  with assms(2) show "x \<noteq> a + of_nat i" by auto
qed simp

lemma load64_cong: "(\<And>i. i < 8 \<Longrightarrow> m (a + of_nat i) = m' (a + of_nat i)) \<Longrightarrow> load64 m a = load64 m' a"
  unfolding load64_def load_bytes_def by (intro arg_cong[where f = le_word] map_cong) simp_all

end
