(* ===== verification/KString.thy ===== *)
theory KString
  imports Mem
begin

text \<open>
  \<open>kernel/string.c\<close>. \<open>memset\<close>, \<open>memcmp\<close> and \<open>memmove\<close> work on memory; the string functions read
  their arguments through a pointer, here the function from offsets to bytes, and those that
  write return the bytes they write.
\<close>

section \<open>Memory\<close>

definition memset :: "bytemem \<Rightarrow> uint64 \<Rightarrow> cint \<Rightarrow> nat \<Rightarrow> bytemem" where
  "memset m dst c n = fold (\<lambda>i m. m(dst + of_nat i := ucast c)) [0..<n] m"

primrec memcmp :: "bytemem \<Rightarrow> uint64 \<Rightarrow> uint64 \<Rightarrow> nat \<Rightarrow> cint" where
  "memcmp m s1 s2 0 = 0"
| "memcmp m s1 s2 (Suc n) = (if m s1 \<noteq> m s2 then ucast (m s1) - ucast (m s2) else memcmp m (s1 + 1) (s2 + 1) n)"

text \<open>The two loops of \<open>memmove\<close>: \<open>*d++ = *s++\<close>, and \<open>*--d = *--s\<close>.\<close>

primrec copy_up :: "nat \<Rightarrow> bytemem \<Rightarrow> uint64 \<Rightarrow> uint64 \<Rightarrow> bytemem" where
  "copy_up 0 m d s = m"
| "copy_up (Suc n) m d s = copy_up n (m(d := m s)) (d + 1) (s + 1)"

primrec copy_down :: "nat \<Rightarrow> bytemem \<Rightarrow> uint64 \<Rightarrow> uint64 \<Rightarrow> bytemem" where
  "copy_down 0 m d s = m"
| "copy_down (Suc n) m d s = copy_down n (m(d - 1 := m (s - 1))) (d - 1) (s - 1)"

definition memmove :: "bytemem \<Rightarrow> uint64 \<Rightarrow> uint64 \<Rightarrow> nat \<Rightarrow> bytemem" where
  "memmove m dst src n =
     (if n = 0 then m
      else if src < dst \<and> dst < src + of_nat n then copy_down n m (dst + of_nat n) (src + of_nat n)
      else copy_up n m dst src)"

definition memcpy :: "bytemem \<Rightarrow> uint64 \<Rightarrow> uint64 \<Rightarrow> nat \<Rightarrow> bytemem" where
  "memcpy = memmove"

section \<open>Strings\<close>

type_synonym cstr = "nat \<Rightarrow> uint8"

text \<open>The pointer one byte on, and the pointer to a run of bytes followed by zeros.\<close>

definition cstr_tl :: "cstr \<Rightarrow> cstr" where
  "cstr_tl s = (\<lambda>i. s (Suc i))"

definition cstr_of :: "uint8 list \<Rightarrow> cstr" where
  "cstr_of bs i = (if i < length bs then bs ! i else 0)"

fun strncmp :: "cstr \<Rightarrow> cstr \<Rightarrow> nat \<Rightarrow> cint" where
  "strncmp p q 0 = 0"
| "strncmp p q (Suc n) =
     (if p 0 \<noteq> 0 \<and> p 0 = q 0 then strncmp (cstr_tl p) (cstr_tl q) n else ucast (p 0) - ucast (q 0))"

fun strncpy :: "cstr \<Rightarrow> nat \<Rightarrow> uint8 list" where
  "strncpy t 0 = []"
| "strncpy t (Suc n) = (if t 0 = 0 then replicate (Suc n) 0 else t 0 # strncpy (cstr_tl t) n)"

text \<open>The loop copies a terminating NUL and then stores another one behind it.\<close>

fun safestrcpy :: "cstr \<Rightarrow> nat \<Rightarrow> uint8 list" where
  "safestrcpy t 0 = []"
| "safestrcpy t (Suc 0) = [0]"
| "safestrcpy t (Suc (Suc n)) = (if t 0 = 0 then [0, 0] else t 0 # safestrcpy (cstr_tl t) (Suc n))"

partial_function (option) strlen_from :: "cstr \<Rightarrow> nat \<Rightarrow> nat option" where
  "strlen_from s n = (if s n = 0 then Some n else strlen_from s (Suc n))"

definition strlen :: "cstr \<Rightarrow> nat option" where
  "strlen s = strlen_from s 0"

section \<open>What the memory functions do\<close>

lemma memset_apply:
  assumes "n \<le> 2 ^ 64"
  shows "memset m dst c n x = (if unat (x - dst) < n then ucast c else m x)"
  using assms
proof (induction n)
  case 0
  then show ?case by (simp add: memset_def)
next
  case (Suc n)
  have "x = dst + of_nat n \<longleftrightarrow> unat (x - dst) = n"
    using Suc.prems by (intro offset_iff) simp
  with Suc show ?case by (auto simp: memset_def less_Suc_eq)
qed

lemma copy_up_apply:
  assumes "n < 2 ^ 64" and "\<And>i j. i < j \<Longrightarrow> j < n \<Longrightarrow> d + of_nat i \<noteq> s + of_nat j"
  shows "copy_up n m d s x = (if unat (x - d) < n then m (s + (x - d)) else m x)"
  using assms
proof (induction n arbitrary: m d s)
  case 0
  then show ?case by simp
next
  case (Suc n)
  have IH: "copy_up n (m(d := m s)) (d + 1) (s + 1) x =
      (if unat (x - (d + 1)) < n then (m(d := m s)) (s + 1 + (x - (d + 1))) else (m(d := m s)) x)"
  proof (rule Suc.IH)
    show "n < 2 ^ 64" using Suc.prems(1) by simp
    fix i j :: nat assume "i < j" "j < n"
    then show "d + 1 + of_nat i \<noteq> s + 1 + of_nat j" using Suc.prems(2)[of "Suc i" "Suc j"] by (simp add: algebra_simps)
  qed
  show ?case
  proof (cases "x = d")
    case True
    have "unat (x - (d + 1)) = 2 ^ 64 - 1" using True by (simp add: unsigned_minus_1_eq_mask mask_eq_exp_minus_1)
    with IH True Suc.prems(1) show ?thesis by simp
  next
    case False
    then have ne: "x - d \<noteq> 0" by simp
    then have u: "unat (x - (d + 1)) = unat (x - d) - 1" "0 < unat (x - d)"
      by (metis diff_diff_eq unat_minus_one, simp add: unat_gt_0)
    have "s + (x - d) \<noteq> d" if "unat (x - d) < Suc n"
      using Suc.prems(2)[of 0 "unat (x - d)"] u(2) that by simp
    with IH u False show ?thesis by (auto simp: algebra_simps)
  qed
qed

lemma copy_down_apply:
  assumes "n < 2 ^ 64" and "\<And>i j. j < i \<Longrightarrow> i < n \<Longrightarrow> d + of_nat i \<noteq> s + of_nat j"
  shows "copy_down n m (d + of_nat n) (s + of_nat n) x = (if unat (x - d) < n then m (s + (x - d)) else m x)"
  using assms
proof (induction n arbitrary: m)
  case 0
  then show ?case by simp
next
  case (Suc n)
  let ?m = "m(d + of_nat n := m (s + of_nat n))"
  have IH: "copy_down n ?m (d + of_nat n) (s + of_nat n) x =
      (if unat (x - d) < n then ?m (s + (x - d)) else ?m x)"
    using Suc.prems by (intro Suc.IH) auto
  have step: "copy_down (Suc n) m (d + of_nat (Suc n)) (s + of_nat (Suc n)) = copy_down n ?m (d + of_nat n) (s + of_nat n)"
    by (simp add: algebra_simps)
  have xn: "x = d + of_nat n \<longleftrightarrow> unat (x - d) = n" using Suc.prems(1) by (intro offset_iff) simp
  have "s + (x - d) \<noteq> d + of_nat n" if "unat (x - d) < n"
    using Suc.prems(2)[of "unat (x - d)" n] that by simp
  then show ?case unfolding step IH using xn by (auto simp: less_Suc_eq)
qed

lemma offset_less: "unat a + n \<le> 2 ^ 64 \<Longrightarrow> i < n \<Longrightarrow> unat (a + of_nat i) = unat a + i" for a :: uint64
  by (simp add: unat_word_ariths unat_of_nat)

lemma memmove_apply:
  assumes "unat dst + n < 2 ^ 64" and "unat src + n < 2 ^ 64"
  shows "memmove m dst src n x = (if unat (x - dst) < n then m (src + (x - dst)) else m x)"
proof (cases "src < dst \<and> dst < src + of_nat n")
  case True
  have "dst + of_nat i \<noteq> src + of_nat j" if "j < i" "i < n" for i j
    using that True assms offset_less[of dst n i] offset_less[of src n j]
    by (auto simp: word_less_nat_alt dest!: arg_cong[where f = unat])
  with True assms copy_down_apply[of n dst src m x] show ?thesis by (simp add: memmove_def)
next
  case False
  have "dst + of_nat i \<noteq> src + of_nat j" if ij: "i < j" "j < n" for i j
  proof
    assume "dst + of_nat i = src + of_nat j"
    then have e: "unat dst + i = unat src + j"
      using ij assms offset_less[of dst n i] offset_less[of src n j] by simp
    then have "src < dst" using ij by (simp add: word_less_nat_alt)
    moreover have "dst < src + of_nat n"
      using e ij assms by (simp add: word_less_nat_alt unat_word_ariths unat_of_nat)
    ultimately show False using False by simp
  qed
  with False assms copy_up_apply[of n dst src m x] show ?thesis by (auto simp: memmove_def)
qed

text \<open>
  \<open>memmove\<close> moves: within memory, also when source and destination overlap, every destination
  byte ends up with what its source byte was before, and no other byte changes.
\<close>

theorem memmove_moves:
  assumes "unat dst + n < 2 ^ 64" and "unat src + n < 2 ^ 64"
  shows "memmove m dst src n x = (if unat (x - dst) < n then m (src + (x - dst)) else m x)"
  by (rule memmove_apply[OF assms])

theorem memmove_moves_witness:
  "memmove ((\<lambda>_. 0)(0x100 := 1, 0x101 := 2, 0x102 := 3)) 0x101 0x100 3 0x103 = 3"
  using memmove_moves[where dst = "0x101" and n = 3 and src = "0x100" and x = "0x103"] by simp

section \<open>What the string functions do\<close>

text \<open>The bytes of a string up to its NUL, at most \<open>n\<close> of them.\<close>

fun cstr_take :: "nat \<Rightarrow> cstr \<Rightarrow> uint8 list" where
  "cstr_take 0 s = []"
| "cstr_take (Suc n) s = (if s 0 = 0 then [] else s 0 # cstr_take n (cstr_tl s))"

lemma length_cstr_take: "length (cstr_take n s) \<le> n"
  by (induction n s rule: cstr_take.induct) auto

lemma ucast_byte_inject: "ucast a = (ucast b :: cint) \<longleftrightarrow> a = b" for a b :: uint8
proof
  assume "ucast a = (ucast b :: cint)"
  then have "uint (ucast a :: cint) = uint (ucast b :: cint)" by simp
  then show "a = b" by (simp add: uint_up_ucast is_up word_uint_eq_iff)
qed simp

lemma ucast_diff_eq_0: "ucast a - ucast b = (0 :: cint) \<longleftrightarrow> a = b" for a b :: uint8
  by (simp add: ucast_byte_inject)

lemma strncmp_eq: "strncmp p q n = 0 \<longleftrightarrow> cstr_take n p = cstr_take n q"
proof (induction p q n rule: strncmp.induct)
  case (1 p q)
  then show ?case by simp
next
  case (2 p q n)
  show ?case
  proof (cases "p 0 \<noteq> 0 \<and> p 0 = q 0")
    case True
    with 2 show ?thesis by simp
  next
    case False
    then have "strncmp p q (Suc n) = 0 \<longleftrightarrow> p 0 = q 0" by (simp only: strncmp.simps if_False ucast_diff_eq_0)
    with False show ?thesis by auto
  qed
qed

lemma strncpy_eq: "strncpy t n = cstr_take n t @ replicate (n - length (cstr_take n t)) 0"
  by (induction t n rule: strncpy.induct) auto

lemma length_strncpy [simp]: "length (strncpy t n) = n"
  using length_cstr_take[of n t] by (simp add: strncpy_eq)

lemma cstr_of_Cons: "cstr_of (b # bs) 0 = b" "cstr_tl (cstr_of (b # bs)) = cstr_of bs"
  by (simp_all add: cstr_of_def cstr_tl_def fun_eq_iff)

lemma cstr_take_strncpy: "cstr_take n (cstr_of (strncpy t n)) = cstr_take n t"
proof (induction t n rule: strncpy.induct)
  case (1 t)
  then show ?case by simp
next
  case (2 t n)
  show ?case
  proof (cases "t 0 = 0")
    case True
    then show ?thesis by (simp add: cstr_of_def)
  next
    case False
    with 2 show ?thesis by (simp add: cstr_of_Cons)
  qed
qed

lemma safestrcpy_eq: "safestrcpy t (Suc n) =
    cstr_take n t @ (if length (cstr_take n t) < n then [0, 0] else [0])"
  by (induction t "Suc n" arbitrary: n rule: safestrcpy.induct) auto

lemma strlen_from_eq: "s k = 0 \<Longrightarrow> n \<le> k \<Longrightarrow> \<forall>i < k. n \<le> i \<longrightarrow> s i \<noteq> 0 \<Longrightarrow> strlen_from s n = Some k"
proof (induction "k - n" arbitrary: n)
  case 0
  then show ?case by (subst strlen_from.simps) simp
next
  case (Suc d)
  then have "strlen_from s (Suc n) = Some k" by (intro Suc.hyps(1)) auto
  with Suc show ?case by (subst strlen_from.simps) auto
qed

text \<open>
  A name stored with \<open>strncpy\<close> is found by \<open>strncmp\<close>: comparing the stored field with a string
  gives 0 exactly when both have the same first \<open>n\<close> bytes up to the NUL.
\<close>

theorem strncpy_strncmp: "strncmp s (cstr_of (strncpy t n)) n = 0 \<longleftrightarrow> cstr_take n s = cstr_take n t"
  by (simp add: strncmp_eq cstr_take_strncpy)

text \<open>
  \<open>safestrcpy\<close> writes at most \<open>n\<close> bytes and always a terminating NUL: what it wrote, read back as
  a string, is the source cut to \<open>n - 1\<close> bytes.
\<close>

theorem safestrcpy_terminates_string:
  "length (safestrcpy t (Suc n)) \<le> Suc n \<and> 0 \<in> set (safestrcpy t (Suc n)) \<and>
   cstr_take (Suc n) (cstr_of (safestrcpy t (Suc n))) = cstr_take n t"
proof -
  have "cstr_take (Suc n) (cstr_of (safestrcpy t (Suc n))) = cstr_take n t"
  proof (induction t "Suc n" arbitrary: n rule: safestrcpy.induct)
    case (2 t)
    then show ?case by (simp add: cstr_of_def)
  next
    case (3 t n)
    then show ?case by (simp add: cstr_of_Cons)
  qed
  moreover have "length (safestrcpy t (Suc n)) \<le> Suc n" "0 \<in> set (safestrcpy t (Suc n))"
    using length_cstr_take[of n t] by (simp_all add: safestrcpy_eq)
  ultimately show ?thesis by blast
qed

end
