(* ===== verification/Kalloc.thy ===== *)
theory Kalloc
  imports KString
begin

text \<open>
  The physical page allocator, \<open>kernel/kalloc.c\<close>. The free list is threaded through the free
  pages themselves: \<open>freelist\<close> is the first page and the first word of a free page its successor.

  The addresses the linker script defines (\<open>end\<close>, \<open>etext\<close>, \<open>trampoline\<close>) are a parameter of the
  functions that use them, the record \<open>layout\<close>. The sections under \<open>kmem.lock\<close> are short and call
  nothing; they stand as the stores they protect.
\<close>

section \<open>Data\<close>

definition PGSIZE :: uint64 where "PGSIZE = 4096"
definition KERNBASE :: uint64 where "KERNBASE = 0x80000000"
definition PHYSTOP :: uint64 where "PHYSTOP = KERNBASE + 128 * 1024 * 1024"

definition PGROUNDUP :: "uint64 \<Rightarrow> uint64" where
  "PGROUNDUP sz = (sz + PGSIZE - 1) AND NOT (PGSIZE - 1)"

definition PGROUNDDOWN :: "uint64 \<Rightarrow> uint64" where
  "PGROUNDDOWN a = a AND NOT (PGSIZE - 1)"

record layout =
  l_end :: uint64
  l_etext :: uint64
  l_trampoline :: uint64
  l_uservec :: uint64
  l_userret :: uint64
  l_kernelvec :: uint64
  l_forkret :: uint64
  l_usertrap :: uint64

record mst =
  mem :: bytemem
  freelist :: uint64

section \<open>Operations\<close>

definition kfree :: "layout \<Rightarrow> uint64 \<Rightarrow> 'a mst_scheme \<Rightarrow> 'a mst_scheme res" where
  "kfree L pa s =
     (if pa mod PGSIZE \<noteq> 0 \<or> pa < l_end L \<or> PHYSTOP \<le> pa then Inl (Panic ''kfree'')
      else let s = s\<lparr>mem := memset (mem s) pa 1 4096\<rparr>;
               s = s\<lparr>mem := store64 (mem s) pa (freelist s)\<rparr>
           in Inr (s\<lparr>freelist := pa\<rparr>))"

definition kalloc :: "'a mst_scheme \<Rightarrow> uint64 \<times> 'a mst_scheme" where
  "kalloc s =
     (let r = freelist s;
          s = (if r \<noteq> 0 then s\<lparr>freelist := load64 (mem s) r\<rparr> else s)
      in (r, if r \<noteq> 0 then s\<lparr>mem := memset (mem s) r 5 4096\<rparr> else s))"

text \<open>
  \<open>for(; p + PGSIZE <= pa_end; p += PGSIZE)\<close>: the pages that fit between \<open>p\<close> and \<open>pa_end\<close>, in order.
\<close>

definition pages_between :: "uint64 \<Rightarrow> uint64 \<Rightarrow> uint64 list" where
  "pages_between p pa_end = map (\<lambda>i. p + of_nat i * PGSIZE) [0..<(unat pa_end - unat p) div 4096]"

definition freerange :: "layout \<Rightarrow> uint64 \<Rightarrow> uint64 \<Rightarrow> 'a mst_scheme \<Rightarrow> 'a mst_scheme res" where
  "freerange L pa_start pa_end = foldR (kfree L) (pages_between (PGROUNDUP pa_start) pa_end)"

definition kinit :: "layout \<Rightarrow> 'a mst_scheme \<Rightarrow> 'a mst_scheme res" where
  "kinit L = freerange L (l_end L) PHYSTOP"

section \<open>The free list\<close>

primrec flist :: "bytemem \<Rightarrow> uint64 \<Rightarrow> uint64 list \<Rightarrow> bool" where
  "flist m p [] \<longleftrightarrow> p = 0"
| "flist m p (x # xs) \<longleftrightarrow> p = x \<and> x \<noteq> 0 \<and> flist m (load64 m x) xs"

text \<open>A page the allocator may hand out, and that two memories differ in one page at most.\<close>

definition is_page :: "layout \<Rightarrow> uint64 \<Rightarrow> bool" where
  "is_page L p \<longleftrightarrow> aligned 12 p \<and> l_end L \<le> p \<and> p < PHYSTOP"

definition same_but :: "uint64 \<Rightarrow> bytemem \<Rightarrow> bytemem \<Rightarrow> bool" where
  "same_but p m m' \<longleftrightarrow> (\<forall>a. drop_bit 12 a \<noteq> drop_bit 12 p \<longrightarrow> m' a = m a)"

definition kmem_inv :: "layout \<Rightarrow> 'a mst_scheme \<Rightarrow> uint64 list \<Rightarrow> bool" where
  "kmem_inv L s xs \<longleftrightarrow> flist (mem s) (freelist s) xs \<and> distinct xs \<and> (\<forall>x \<in> set xs. is_page L x)"

lemma pgsize_aligned: "pa mod PGSIZE = 0 \<longleftrightarrow> aligned 12 pa"
  by (simp add: PGSIZE_def aligned_def take_bit_eq_mod)

lemma memset_page:
  assumes "aligned 12 p"
  shows "memset m p c 4096 a = (if drop_bit 12 a = drop_bit 12 p then ucast c else m a)"
  using memset_apply[of 4096 m p c a] block_offset[OF assms, of a] by simp

lemma same_but_memset: "aligned 12 p \<Longrightarrow> same_but p m (memset m p c 4096)"
  by (simp add: same_but_def memset_page)

text \<open>The word at offset \<open>8 * i\<close> of a page is in the page.\<close>

lemma page_word:
  assumes "aligned 12 p" and "aligned 3 o'" and "drop_bit 12 o' = 0"
  shows "aligned 3 (p + o')" and "drop_bit 12 (p + o' + of_nat k) = drop_bit 12 p \<or> \<not> k < 8"
proof -
  have a3: "aligned 3 p" by (rule aligned_mono[OF assms(1)]) simp
  have "p + o' = p OR o'" by (rule aligned_add_or[OF assms(1,3)])
  with a3 assms(2) show al: "aligned 3 (p + o')" by (simp add: aligned_def)
  show "drop_bit 12 (p + o' + of_nat k) = drop_bit 12 p \<or> \<not> k < 8"
  proof (cases "k < 8")
    case True
    then have k: "drop_bit 3 (of_nat k :: uint64) = 0" by (simp add: drop_bit_of_nat)
    have "drop_bit 12 (p + o' + of_nat k) = drop_bit 9 (drop_bit 3 (p + o' + of_nat k))"
      by simp
    also have "\<dots> = drop_bit 12 (p + o')" using arg_cong[OF aligned_offset(1)[OF al k], of "drop_bit 9"] by simp
    also have "\<dots> = drop_bit 12 p" by (rule aligned_offset(1)[OF assms(1,3)])
    finally show ?thesis ..
  qed simp
qed

lemma load64_same_but:
  assumes "same_but p m m'" and "aligned 12 p" and "aligned 12 q" and "q \<noteq> p" and "aligned 3 o'" and "drop_bit 12 o' = 0"
  shows "load64 m' (q + o') = load64 m (q + o')"
proof (rule load64_cong)
  fix i :: nat assume "i < 8"
  then have "drop_bit 12 (q + o' + of_nat i) = drop_bit 12 q" using page_word(2)[OF assms(3,5,6)] by blast
  moreover have "drop_bit 12 q \<noteq> drop_bit 12 p" using aligned_eq[OF assms(3,2)] assms(4) by blast
  ultimately show "m' (q + o' + of_nat i) = m (q + o' + of_nat i)" using assms(1) by (simp add: same_but_def)
qed

lemma same_but_store64:
  assumes "aligned 12 p" and "aligned 3 o'" and "drop_bit 12 o' = 0"
  shows "same_but p m (store64 m (p + o') v)"
  unfolding same_but_def
proof (intro allI impI)
  fix a assume a: "drop_bit 12 a \<noteq> drop_bit 12 p"
  have "drop_bit 3 a \<noteq> drop_bit 3 (p + o')"
  proof
    assume "drop_bit 3 a = drop_bit 3 (p + o')"
    then have "drop_bit 9 (drop_bit 3 a) = drop_bit 9 (drop_bit 3 (p + o'))" by simp
    then have "drop_bit 12 a = drop_bit 12 (p + o')" by simp
    with a aligned_offset(1)[OF assms(1,3)] show False by simp
  qed
  then show "store64 m (p + o') v a = m a" by (rule store64_byte_other[OF page_word(1)[OF assms]])
qed

lemma same_but_trans: "same_but p m1 m2 \<Longrightarrow> same_but p m2 m3 \<Longrightarrow> same_but p m1 m3"
  by (simp add: same_but_def)

lemma flist_same_but:
  assumes "flist m r xs" and "same_but p m m'" and "aligned 12 p" and "\<forall>x \<in> set xs. aligned 12 x \<and> x \<noteq> p"
  shows "flist m' r xs"
  using assms(1,4)
proof (induction xs arbitrary: r)
  case Nil
  then show ?case by simp
next
  case (Cons x xs)
  have "load64 m' x = load64 m x"
    using load64_same_but[OF assms(2,3), of x 0] Cons.prems(2) by (simp add: aligned_def)
  with Cons show ?case by simp
qed

lemma kmem_inv_same_but:
  assumes "kmem_inv L s xs" and "same_but p (mem s) (mem s')" and "aligned 12 p" and "p \<notin> set xs"
    and "freelist s' = freelist s"
  shows "kmem_inv L s' xs"
proof -
  have "\<forall>x \<in> set xs. aligned 12 x \<and> x \<noteq> p" using assms(1,4) by (auto simp: kmem_inv_def is_page_def)
  with assms flist_same_but[of "mem s" "freelist s" xs p "mem s'"] show ?thesis by (simp add: kmem_inv_def)
qed

section \<open>The allocator as an interface\<close>

text \<open>
  What the rest of the kernel uses of the allocator: a pool of pages, \<open>alloc\<close> takes one out (0 when
  there is none) and \<open>free\<close> puts one back; both leave the memory outside that page alone.
\<close>

locale page_pool =
  fixes alloc :: "'s \<Rightarrow> uint64 \<times> 's" and free :: "uint64 \<Rightarrow> 's \<Rightarrow> 's res"
    and pool :: "'s \<Rightarrow> uint64 list \<Rightarrow> bool" and good :: "uint64 \<Rightarrow> bool" and bytes :: "'s \<Rightarrow> bytemem"
  assumes pool_good: "pool s xs \<Longrightarrow> x \<in> set xs \<Longrightarrow> good x \<and> x \<noteq> 0"
    and pool_distinct: "pool s xs \<Longrightarrow> distinct xs"
    and alloc_none: "pool s [] \<Longrightarrow> alloc s = (0, s)"
    and alloc_some: "pool s (x # xs) \<Longrightarrow> \<exists>s'. alloc s = (x, s') \<and> pool s' xs \<and> same_but x (bytes s) (bytes s')"
    and free_good: "pool s xs \<Longrightarrow> good x \<Longrightarrow> x \<noteq> 0 \<Longrightarrow> x \<notin> set xs \<Longrightarrow>
      \<exists>s'. free x s = Inr s' \<and> pool s' (x # xs) \<and> same_but x (bytes s) (bytes s')"
    and free_bad: "\<not> good x \<Longrightarrow> \<exists>e. free x s = Inl e"
begin

text \<open>A page handed out is not in the pool any more, so it is not handed out a second time.\<close>

lemma alloc_fresh:
  assumes "pool s xs" and "alloc s = (p, s')" and "p \<noteq> 0"
  shows "\<exists>ys. pool s' ys \<and> p \<notin> set ys \<and> xs = p # ys \<and> good p \<and> same_but p (bytes s) (bytes s')"
proof (cases xs)
  case Nil
  with alloc_none[of s] assms show ?thesis by simp
next
  case (Cons x ys)
  with alloc_some[of s x ys] assms have "p = x" "pool s' ys" "same_but p (bytes s) (bytes s')" by auto
  with Cons pool_distinct[OF assms(1)] pool_good[OF assms(1), of x] show ?thesis by auto
qed

text \<open>Two pages taken in turn are different.\<close>

lemma alloc_twice:
  assumes "pool s xs" and "alloc s = (p, s1)" and "alloc s1 = (q, s2)" and "p \<noteq> 0" and "q \<noteq> 0"
  shows "p \<noteq> q"
proof -
  from alloc_fresh[OF assms(1,2,4)] obtain ys where "pool s1 ys" "p \<notin> set ys" by blast
  with alloc_fresh[OF this(1) assms(3,5)] show ?thesis by auto
qed

text \<open>What was taken can be given back.\<close>

lemma alloc_free:
  assumes "pool s xs" and "alloc s = (p, s1)" and "p \<noteq> 0"
  shows "\<exists>s2. free p s1 = Inr s2 \<and> pool s2 xs \<and> same_but p (bytes s) (bytes s2)"
proof -
  from alloc_fresh[OF assms] obtain ys where ys: "pool s1 ys" "p \<notin> set ys" "xs = p # ys" "good p"
    "same_but p (bytes s) (bytes s1)" by blast
  from free_good[OF ys(1,4) assms(3) ys(2)] obtain s2 where
    s2: "free p s1 = Inr s2" "pool s2 (p # ys)" "same_but p (bytes s1) (bytes s2)" by blast
  with same_but_trans[OF ys(5) s2(3)] ys(3) show ?thesis by blast
qed

end

lemma kalloc_some:
  assumes "kmem_inv L s (x # xs)"
  shows "\<exists>s'. kalloc s = (x, s') \<and> kmem_inv L s' xs \<and> same_but x (mem s) (mem s')"
proof -
  have x: "freelist s = x" "x \<noteq> 0" "aligned 12 x" "x \<notin> set xs"
    using assms by (auto simp: kmem_inv_def is_page_def)
  let ?s1 = "s\<lparr>freelist := load64 (mem s) x\<rparr>"
  let ?s' = "?s1\<lparr>mem := memset (mem s) x 5 4096\<rparr>"
  have k: "kalloc s = (x, ?s')" using x by (simp add: kalloc_def Let_def)
  have "kmem_inv L ?s1 xs" using assms x by (simp add: kmem_inv_def)
  moreover have sb: "same_but x (mem s) (mem ?s')" using same_but_memset[OF x(3)] by simp
  ultimately have "kmem_inv L ?s' xs" by - (rule kmem_inv_same_but[of L ?s1 xs x], use x in simp_all)
  with k sb show ?thesis by blast
qed

lemma kfree_good:
  assumes "kmem_inv L s xs" and "is_page L p" and "p \<noteq> 0" and "p \<notin> set xs"
  shows "\<exists>s'. kfree L p s = Inr s' \<and> kmem_inv L s' (p # xs) \<and> same_but p (mem s) (mem s')"
proof -
  have al: "aligned 12 p" using assms(2) by (simp add: is_page_def)
  let ?m = "store64 (memset (mem s) p 1 4096) p (freelist s)"
  have k: "kfree L p s = Inr (s\<lparr>mem := ?m, freelist := p\<rparr>)"
    using assms(2) by (simp add: kfree_def pgsize_aligned is_page_def Let_def not_less not_le)
  have sb: "same_but p (mem s) ?m"
    using same_but_trans[OF same_but_memset[OF al] same_but_store64[OF al, of 0]] by (simp add: aligned_def)
  have "kmem_inv L (s\<lparr>mem := ?m\<rparr>) xs"
    by (rule kmem_inv_same_but[OF assms(1)]) (use sb al assms(4) in simp_all)
  then have "kmem_inv L (s\<lparr>mem := ?m, freelist := p\<rparr>) (p # xs)"
    using assms by (auto simp: kmem_inv_def)
  with k sb show ?thesis by auto
qed

interpretation kmem: page_pool kalloc "kfree L" "kmem_inv L" "is_page L" mem for L
proof unfold_locales
  fix s :: "'a mst_scheme" and xs x
  show "is_page L x \<and> x \<noteq> 0" if "kmem_inv L s xs" "x \<in> set xs"
  proof -
    have "y \<noteq> 0" if "flist m r ys" "y \<in> set ys" for m r y ys
      using that by (induction ys arbitrary: r) auto
    with that show ?thesis by (auto simp: kmem_inv_def)
  qed
  show "distinct xs" if "kmem_inv L s xs" using that by (simp add: kmem_inv_def)
  show "kalloc s = (0, s)" if "kmem_inv L s []" using that by (simp add: kmem_inv_def kalloc_def)
  show "\<exists>s'. kalloc s = (x, s') \<and> kmem_inv L s' xs \<and> same_but x (mem s) (mem s')" if "kmem_inv L s (x # xs)"
    by (rule kalloc_some[OF that])
  show "\<exists>s'. kfree L x s = Inr s' \<and> kmem_inv L s' (x # xs) \<and> same_but x (mem s) (mem s')"
    if "kmem_inv L s xs" "is_page L x" "x \<noteq> 0" "x \<notin> set xs"
    by (rule kfree_good[OF that])
  show "\<exists>e. kfree L x s = Inl e" if "\<not> is_page L x"
    using that by (auto simp: kfree_def pgsize_aligned is_page_def)
qed

section \<open>Properties\<close>

text \<open>
  C16. \<open>kalloc\<close> takes a page off the free list, and \<open>kfree\<close> puts one back: the page handed out is a
  page of allocatable memory that the list no longer has, memory outside it is untouched, and
  freeing it restores the list. An empty list gives 0.
\<close>

theorem kalloc_kfree:
  assumes "kmem_inv L s xs" and "kalloc s = (p, s1)"
  shows "if xs = [] then p = 0 \<and> s1 = s
    else is_page L p \<and> xs = p # tl xs \<and> p \<notin> set (tl xs) \<and> kmem_inv L s1 (tl xs) \<and> same_but p (mem s) (mem s1) \<and>
      (\<exists>s2. kfree L p s1 = Inr s2 \<and> kmem_inv L s2 xs)"
proof (cases xs)
  case Nil
  with kmem.alloc_none[of L s] assms show ?thesis by simp
next
  case (Cons x ys)
  with assms kmem.alloc_some[of L s x ys] have "p = x" by auto
  with Cons assms(1) kmem.pool_good[of L s xs x] have "p \<noteq> 0" by auto
  from kmem.alloc_fresh[OF assms this] kmem.alloc_free[OF assms this] show ?thesis by auto
qed

text \<open>
  \<open>kfree\<close> panics on every address that is not the start of an allocatable page.
\<close>

theorem kfree_rejects:
  assumes "\<not> is_page L p"
  shows "kfree L p s = Inl (Panic ''kfree'')"
  using assms by (auto simp: kfree_def pgsize_aligned is_page_def)

lemma of_nat_pgsize: "of_nat i * PGSIZE = of_nat (i * 4096)"
  by (simp add: PGSIZE_def)

lemma pages_between_unat:
  assumes "unat p + 4096 * n \<le> 2 ^ 64" and "i < n"
  shows "unat (p + of_nat i * PGSIZE) = unat p + 4096 * i"
proof -
  have "unat p + i * 4096 < 2 ^ 64" using assms by linarith
  then show ?thesis unfolding of_nat_pgsize by (simp add: unat_word_ariths unat_of_nat)
qed

lemma round_down_bits: "a AND NOT (PGSIZE - 1) = push_bit 12 (drop_bit 12 a)"
proof -
  have "PGSIZE - 1 = mask 12" by (simp add: PGSIZE_def mask_eq_exp_minus_1)
  then show ?thesis by (simp add: bit_eq_iff bit_simps) auto
qed

lemma unat_round_down: "unat (push_bit 12 (drop_bit 12 a)) = unat a div 4096 * 4096" for a :: uint64
proof -
  have d: "unat (drop_bit 12 a) = unat a div 4096"
    using unat_drop_bit[of 12 a] by simp
  have "unat a div 4096 * 4096 < 2 ^ 64"
    by (rule le_less_trans[of _ "unat a"]) (use unsigned_less[of a, where 'a = nat] in simp_all)
  then show ?thesis
    using unsigned_push_bit_eq[of 12 "drop_bit 12 a", where 'a = nat] d
    by (simp add: push_bit_eq_mult take_bit_nat_eq_self)
qed

lemma aligned_round: "aligned 12 (PGROUNDUP a)" "aligned 12 (PGROUNDDOWN a)"
  unfolding PGROUNDUP_def PGROUNDDOWN_def round_down_bits
  by (simp_all add: aligned_def) (simp_all add: bit_eq_iff bit_simps)

lemma unat_PGROUNDDOWN: "unat (PGROUNDDOWN a) = unat a div 4096 * 4096"
  unfolding PGROUNDDOWN_def round_down_bits by (rule unat_round_down)

lemma unat_PGROUNDUP: "unat a + 4095 < 2 ^ 64 \<Longrightarrow> unat (PGROUNDUP a) = (unat a + 4095) div 4096 * 4096"
proof -
  assume "unat a + 4095 < 2 ^ 64"
  then have "unat (a + PGSIZE - 1) = unat a + 4095"
    by (simp add: PGSIZE_def unat_word_ariths)
  then show ?thesis unfolding PGROUNDUP_def round_down_bits unat_round_down by simp
qed

lemma aligned_unat: "aligned 12 p \<longleftrightarrow> unat p mod 4096 = 0"
  by (simp add: aligned_def take_bit_eq_mod word_unat_eq_iff unat_mod)

lemma round_up_nat:
  fixes x :: nat
  shows "x \<le> (x + 4095) div 4096 * 4096" and "x \<le> 4096 * k \<Longrightarrow> (x + 4095) div 4096 * 4096 \<le> 4096 * k"
proof -
  have "(x + 4095) div 4096 * 4096 + (x + 4095) mod 4096 = x + 4095" by (rule div_mult_mod_eq)
  moreover have "(x + 4095) mod 4096 < 4096" by simp
  ultimately show "x \<le> (x + 4095) div 4096 * 4096" by linarith
  assume "x \<le> 4096 * k"
  then have "x + 4095 < (k + 1) * 4096" by simp
  then have "(x + 4095) div 4096 < k + 1" by (rule less_mult_imp_div_less)
  then show "(x + 4095) div 4096 * 4096 \<le> 4096 * k" by simp
qed

text \<open>The pages \<open>kinit\<close> frees are exactly the allocatable ones.\<close>

lemma pages_between_all:
  assumes "l_end L \<le> PHYSTOP"
  shows "set (pages_between (PGROUNDUP (l_end L)) PHYSTOP) = {p. is_page L p}"
    and "distinct (pages_between (PGROUNDUP (l_end L)) PHYSTOP)"
proof -
  let ?p = "PGROUNDUP (l_end L)"
  define n where "n = (unat PHYSTOP - unat ?p) div 4096"
  have ph: "unat PHYSTOP = 2281701376" by (simp add: PHYSTOP_def KERNBASE_def)
  have le: "unat (l_end L) \<le> 2281701376" using assms ph by (simp add: word_le_nat_alt)
  have up: "unat ?p = (unat (l_end L) + 4095) div 4096 * 4096" by (rule unat_PGROUNDUP) (use le in simp)
  have top: "unat ?p \<le> 2281701376" using round_up_nat(2)[of "unat (l_end L)" 557056] le by (simp add: up)
  have u: "unat (?p + of_nat i * PGSIZE) = unat ?p + 4096 * i" if "i < n" for i
    using that top ph by (intro pages_between_unat[of _ n]) (simp_all add: n_def)
  show "distinct (pages_between ?p PHYSTOP)"
    unfolding pages_between_def n_def[symmetric] distinct_map
    by (auto intro!: inj_onI dest!: arg_cong[where f = unat] simp: u)
  show "set (pages_between ?p PHYSTOP) = {p. is_page L p}"
  proof (intro set_eqI iffI)
    fix q assume "q \<in> set (pages_between ?p PHYSTOP)"
    then obtain i where i: "i < n" "q = ?p + of_nat i * PGSIZE"
      by (auto simp: pages_between_def n_def)
    have "unat ?p + 4096 * i < 2281701376" using i(1) top ph by (simp add: n_def)
    moreover have "unat (l_end L) \<le> unat ?p" unfolding up by (rule round_up_nat(1))
    ultimately show "q \<in> {p. is_page L p}"
      using u[OF i(1)] ph up by (simp add: i(2) is_page_def aligned_unat word_le_nat_alt word_less_nat_alt)
  next
    fix q assume "q \<in> {p. is_page L p}"
    then have q: "unat q mod 4096 = 0" "unat (l_end L) \<le> unat q" "unat q < 2281701376"
      using ph by (auto simp: is_page_def aligned_unat word_le_nat_alt word_less_nat_alt)
    from q(1) obtain k where k: "unat q = 4096 * k" by (metis mod_0_imp_dvd dvdE)
    define j where "j = (unat (l_end L) + 4095) div 4096"
    have j: "unat ?p = 4096 * j" by (simp add: up j_def)
    have "unat ?p \<le> unat q" using round_up_nat(2)[of "unat (l_end L)" k] q(2) by (simp add: up k)
    then have jk: "j \<le> k" by (simp add: j k)
    define i where "i = k - j"
    have eq: "unat q = unat ?p + 4096 * i" using jk by (simp add: i_def j k)
    have "k < 557056" using q(3) k by simp
    moreover have "n = 557056 - j" unfolding n_def ph j using div_mult_self1_is_m[of 4096 "557056 - j"]
      by (simp add: diff_mult_distrib2)
    ultimately have "i < n" using jk by (simp add: i_def)
    with eq u have "q = ?p + of_nat i * PGSIZE" by (simp add: word_unat_eq_iff)
    with \<open>i < n\<close> show "q \<in> set (pages_between ?p PHYSTOP)" by (auto simp: pages_between_def n_def)
  qed
qed

lemma foldR_kfree:
  assumes "kmem_inv L s xs" and "distinct ps" and "set ps \<inter> set xs = {}" and "\<forall>p \<in> set ps. is_page L p \<and> p \<noteq> 0"
  shows "\<exists>s'. foldR (kfree L) ps s = Inr s' \<and> kmem_inv L s' (rev ps @ xs)"
  using assms
proof (induction ps arbitrary: s xs)
  case Nil
  then show ?case by simp
next
  case (Cons p ps)
  from Cons.prems have p: "is_page L p" "p \<noteq> 0" "p \<notin> set xs" by auto
  obtain s1 where s1: "kfree L p s = Inr s1" "kmem_inv L s1 (p # xs)"
    using kmem.free_good[OF Cons.prems(1) p] by blast
  have "\<exists>s'. foldR (kfree L) ps s1 = Inr s' \<and> kmem_inv L s' (rev ps @ p # xs)"
    by (rule Cons.IH[OF s1(2)]) (use Cons.prems in auto)
  with s1(1) show ?case by simp
qed

text \<open>
  C17. \<open>kinit\<close> sets up the allocator with exactly the whole pages between the end of the kernel and
  the end of memory, each once.
\<close>

theorem kinit_all_pages:
  assumes "0 < l_end L" and "l_end L \<le> PHYSTOP" and "freelist s = 0"
  shows "\<exists>s' xs. kinit L s = Inr s' \<and> kmem_inv L s' xs \<and> set xs = {p. is_page L p}"
proof -
  let ?ps = "pages_between (PGROUNDUP (l_end L)) PHYSTOP"
  note ps = pages_between_all[OF assms(2)]
  have "is_page L p \<and> p \<noteq> 0" if "p \<in> set ?ps" for p
  proof -
    have ip: "is_page L p" using that ps(1) by blast
    then have "0 < p" using assms(1) by (meson is_page_def less_le_trans)
    with ip show ?thesis by simp
  qed
  moreover have "kmem_inv L s []" using assms(3) by (simp add: kmem_inv_def)
  ultimately obtain s' where "foldR (kfree L) ?ps s = Inr s'" "kmem_inv L s' (rev ?ps @ [])"
    using foldR_kfree[of L s "[]" ?ps] ps(2) by auto
  moreover have "set (rev ?ps @ []) = {p. is_page L p}" using ps(1) by simp
  ultimately show ?thesis unfolding kinit_def freerange_def by blast
qed

text \<open>A kernel that ends at 0x80020000, in a machine whose memory is all zeros.\<close>

definition demo_layout :: layout where
  "demo_layout = \<lparr>l_end = 0x80020000, l_etext = 0x80008000, l_trampoline = 0x80007000,
     l_uservec = 0x80007000, l_userret = 0x8000709c, l_kernelvec = 0x80005c50, l_forkret = 0x80001a20, l_usertrap = 0x80002740\<rparr>"

definition demo_mst :: mst where
  "demo_mst = \<lparr>mem = (\<lambda>_. 0), freelist = 0\<rparr>"

lemma demo_layout_ok: "0 < l_end demo_layout" "l_end demo_layout \<le> PHYSTOP"
  by (simp_all add: demo_layout_def PHYSTOP_def KERNBASE_def)

lemma demo_free: "kmem_inv demo_layout (demo_mst\<lparr>freelist := 0x80030000\<rparr>) [0x80030000]"
  by (simp add: kmem_inv_def demo_mst_def is_page_def aligned_def demo_layout_def PHYSTOP_def KERNBASE_def load64_def
      load_bytes_def upt_rec)

theorem kalloc_kfree_witness:
  "\<exists>s1 s2. kalloc (demo_mst\<lparr>freelist := 0x80030000\<rparr>) = (0x80030000, s1) \<and> kmem_inv demo_layout s1 [] \<and>
    kfree demo_layout 0x80030000 s1 = Inr s2 \<and> kmem_inv demo_layout s2 [0x80030000]"
proof -
  obtain p s1 where k: "kalloc (demo_mst\<lparr>freelist := 0x80030000\<rparr>) = (p, s1)" by fastforce
  from kalloc_kfree[OF demo_free k] k show ?thesis by auto
qed

theorem kfree_rejects_witness: "kfree demo_layout 0x80030008 demo_mst = Inl (Panic ''kfree'')"
  by (rule kfree_rejects) (simp add: is_page_def aligned_def take_bit_eq_mod)

theorem kinit_all_pages_witness:
  "\<exists>s' xs. kinit demo_layout demo_mst = Inr s' \<and> kmem_inv demo_layout s' xs \<and> 0x80030000 \<in> set xs"
proof -
  have "freelist demo_mst = 0" by (simp add: demo_mst_def)
  from kinit_all_pages[OF demo_layout_ok this] obtain s' xs where
    "kinit demo_layout demo_mst = Inr s'" "kmem_inv demo_layout s' xs" "set xs = {p. is_page demo_layout p}" by blast
  moreover have "is_page demo_layout 0x80030000"
    by (simp add: is_page_def aligned_def demo_layout_def PHYSTOP_def KERNBASE_def)
  ultimately show ?thesis by blast
qed

end
