(* ===== verification/Vm.thy ===== *)
theory Vm
  imports Kalloc
begin

text \<open>
  Page tables and user memory, \<open>kernel/vm.c\<close> with the Sv39 macros of \<open>kernel/riscv.h\<close> and the
  addresses of \<open>kernel/memlayout.h\<close>. A page table is where it is in the code: 512 words in each of
  its pages, in the memory of the allocator's state.

  A pointer that may be null is an option. Loops over a range of virtual addresses are folds over
  the list of pages they visit; \<open>walk\<close> panics before an address could wrap around.
\<close>

section \<open>Sv39\<close>

definition PTE_V :: uint64 where "PTE_V = 1"
definition PTE_R :: uint64 where "PTE_R = 2"
definition PTE_W :: uint64 where "PTE_W = 4"
definition PTE_X :: uint64 where "PTE_X = 8"
definition PTE_U :: uint64 where "PTE_U = 16"

definition PA2PTE :: "uint64 \<Rightarrow> uint64" where "PA2PTE pa = push_bit 10 (drop_bit 12 pa)"
definition PTE2PA :: "uint64 \<Rightarrow> uint64" where "PTE2PA pte = push_bit 12 (drop_bit 10 pte)"
definition PTE_FLAGS :: "uint64 \<Rightarrow> uint64" where "PTE_FLAGS pte = pte AND 0x3FF"

definition PX :: "nat \<Rightarrow> uint64 \<Rightarrow> uint64" where
  "PX level va = drop_bit (12 + 9 * level) va AND 0x1FF"

definition MAXVA :: uint64 where "MAXVA = push_bit (9 + 9 + 9 + 12 - 1) 1"
definition TRAMPOLINE :: uint64 where "TRAMPOLINE = MAXVA - PGSIZE"
definition TRAPFRAME :: uint64 where "TRAPFRAME = TRAMPOLINE - PGSIZE"
definition KSTACK :: "nat \<Rightarrow> uint64" where "KSTACK p = TRAMPOLINE - (of_nat p + 1) * 2 * PGSIZE"

section \<open>Walking\<close>

text \<open>The address of entry \<open>i\<close> of a page-table page.\<close>

definition pte_at :: "uint64 \<Rightarrow> uint64 \<Rightarrow> uint64" where
  "pte_at pagetable i = pagetable + 8 * i"

text \<open>One level of \<open>walk\<close>: the page the entry points to, if need be a new one.\<close>

definition walk_level :: "bool \<Rightarrow> uint64 \<Rightarrow> nat \<Rightarrow> uint64 \<Rightarrow> 'a mst_scheme \<Rightarrow> uint64 option \<times> 'a mst_scheme" where
  "walk_level alloc va level pagetable s =
     (let pte = pte_at pagetable (PX level va);
          v = load64 (mem s) pte
      in if v AND PTE_V \<noteq> 0 then (Some (PTE2PA v), s)
         else if \<not> alloc then (None, s)
         else let (page, s) = kalloc s
              in if page = 0 then (None, s)
                 else let s = s\<lparr>mem := memset (mem s) page 0 4096\<rparr>;
                          s = s\<lparr>mem := store64 (mem s) pte (PA2PTE page OR PTE_V)\<rparr>
                      in (Some page, s))"

definition walk :: "uint64 \<Rightarrow> uint64 \<Rightarrow> bool \<Rightarrow> 'a mst_scheme \<Rightarrow> (uint64 option \<times> 'a mst_scheme) res" where
  "walk pagetable va alloc s =
     (if MAXVA \<le> va then Inl (Panic ''walk'')
      else case walk_level alloc va 2 pagetable s of
             (None, s) \<Rightarrow> Inr (None, s)
           | (Some pagetable, s) \<Rightarrow>
               (case walk_level alloc va 1 pagetable s of
                  (None, s) \<Rightarrow> Inr (None, s)
                | (Some pagetable, s) \<Rightarrow> Inr (Some (pte_at pagetable (PX 0 va)), s)))"

definition walkaddr :: "uint64 \<Rightarrow> uint64 \<Rightarrow> 'a mst_scheme \<Rightarrow> uint64 res" where
  "walkaddr pagetable va s =
     (if MAXVA \<le> va then Inr 0
      else bindR (walk pagetable va False s) (\<lambda>(pte, s).
        case pte of
          None \<Rightarrow> Inr 0
        | Some pte \<Rightarrow>
            let v = load64 (mem s) pte
            in if v AND PTE_V = 0 then Inr 0
               else if v AND PTE_U = 0 then Inr 0
               else Inr (PTE2PA v)))"

section \<open>Mapping\<close>

text \<open>
  The loop of \<open>mappages\<close>: \<open>n\<close> pages after the one at \<open>a\<close>. Both ends of the range are page
  aligned, so \<open>a == last\<close> is \<open>n = 0\<close>. The result is \<open>False\<close> for the early \<open>return -1\<close>.
\<close>

fun map_loop :: "uint64 \<Rightarrow> uint64 \<Rightarrow> nat \<Rightarrow> uint64 \<Rightarrow> uint64 \<Rightarrow> 'a mst_scheme \<Rightarrow> (bool \<times> 'a mst_scheme) res" where
  "map_loop pagetable perm n a pa s =
     bindR (walk pagetable a True s) (\<lambda>(pte, s).
       case pte of
         None \<Rightarrow> Inr (False, s)
       | Some pte \<Rightarrow>
           if load64 (mem s) pte AND PTE_V \<noteq> 0 then Inl (Panic ''mappages: remap'')
           else let s = s\<lparr>mem := store64 (mem s) pte (PA2PTE pa OR perm OR PTE_V)\<rparr>
                in (case n of 0 \<Rightarrow> Inr (True, s)
                    | Suc n' \<Rightarrow> map_loop pagetable perm n' (a + PGSIZE) (pa + PGSIZE) s))"

definition mappages :: "uint64 \<Rightarrow> uint64 \<Rightarrow> uint64 \<Rightarrow> uint64 \<Rightarrow> uint64 \<Rightarrow> 'a mst_scheme \<Rightarrow> (cint \<times> 'a mst_scheme) res" where
  "mappages pagetable va size' pa perm s =
     (if size' = 0 then Inl (Panic ''mappages: size'')
      else let a = PGROUNDDOWN va; last' = PGROUNDDOWN (va + size' - 1)
           in bindR (map_loop pagetable perm (unat ((last' - a) div PGSIZE)) a pa s) (\<lambda>(ok, s).
                Inr (if ok then 0 else - 1, s)))"

definition kvmmap :: "uint64 \<Rightarrow> uint64 \<Rightarrow> uint64 \<Rightarrow> uint64 \<Rightarrow> uint64 \<Rightarrow> 'a mst_scheme \<Rightarrow> 'a mst_scheme res" where
  "kvmmap kpgtbl va pa sz perm s =
     bindR (mappages kpgtbl va sz pa perm s) (\<lambda>(r, s). if r \<noteq> 0 then Inl (Panic ''kvmmap'') else Inr s)"

text \<open>The pages \<open>a\<close>, \<open>a + PGSIZE\<close>, ... below \<open>last\<close>.\<close>

definition page_range :: "uint64 \<Rightarrow> uint64 \<Rightarrow> uint64 list" where
  "page_range a last' = map (\<lambda>i. a + of_nat i * PGSIZE) [0..<(unat last' - unat a + 4095) div 4096]"

definition unmap_page :: "layout \<Rightarrow> uint64 \<Rightarrow> bool \<Rightarrow> uint64 \<Rightarrow> 'a mst_scheme \<Rightarrow> 'a mst_scheme res" where
  "unmap_page L pagetable do_free a s =
     bindR (walk pagetable a False s) (\<lambda>(pte, s).
       case pte of
         None \<Rightarrow> Inl (Panic ''uvmunmap: walk'')
       | Some pte \<Rightarrow>
           let v = load64 (mem s) pte
           in if v AND PTE_V = 0 then Inl (Panic ''uvmunmap: not mapped'')
              else if PTE_FLAGS v = PTE_V then Inl (Panic ''uvmunmap: not a leaf'')
              else bindR (if do_free then kfree L (PTE2PA v) s else Inr s) (\<lambda>s.
                Inr (s\<lparr>mem := store64 (mem s) pte 0\<rparr>)))"

definition uvmunmap :: "layout \<Rightarrow> uint64 \<Rightarrow> uint64 \<Rightarrow> uint64 \<Rightarrow> bool \<Rightarrow> 'a mst_scheme \<Rightarrow> 'a mst_scheme res" where
  "uvmunmap L pagetable va npages do_free s =
     (if va mod PGSIZE \<noteq> 0 then Inl (Panic ''uvmunmap: not aligned'')
      else foldR (unmap_page L pagetable do_free) (page_range va (va + npages * PGSIZE)) s)"

section \<open>User address spaces\<close>

definition uvmcreate :: "'a mst_scheme \<Rightarrow> uint64 \<times> 'a mst_scheme" where
  "uvmcreate s =
     (let (pagetable, s) = kalloc s
      in if pagetable = 0 then (0, s) else (pagetable, s\<lparr>mem := memset (mem s) pagetable 0 4096\<rparr>))"

text \<open>\<open>kalloc\<close> is not checked here; a null page would be written to.\<close>

definition uvmfirst :: "uint64 \<Rightarrow> uint8 list \<Rightarrow> 'a mst_scheme \<Rightarrow> 'a mst_scheme res" where
  "uvmfirst pagetable src s =
     (if 4096 \<le> length src then Inl (Panic ''uvmfirst: more than a page'')
      else let (page, s) = kalloc s
           in if page = 0 then Inl BadAccess
              else let s = s\<lparr>mem := memset (mem s) page 0 4096\<rparr>
                   in bindR (mappages pagetable 0 PGSIZE page (PTE_W OR PTE_R OR PTE_X OR PTE_U) s) (\<lambda>(r, s).
                        Inr (s\<lparr>mem := store_bytes (mem s) page src\<rparr>)))"

definition uvmdealloc :: "layout \<Rightarrow> uint64 \<Rightarrow> uint64 \<Rightarrow> uint64 \<Rightarrow> 'a mst_scheme \<Rightarrow> (uint64 \<times> 'a mst_scheme) res" where
  "uvmdealloc L pagetable oldsz newsz s =
     (if oldsz \<le> newsz then Inr (oldsz, s)
      else if PGROUNDUP newsz < PGROUNDUP oldsz
      then let npages = scast (ucast ((PGROUNDUP oldsz - PGROUNDUP newsz) div PGSIZE) :: cint)
           in bindR (uvmunmap L pagetable (PGROUNDUP newsz) npages True s) (\<lambda>s. Inr (newsz, s))
      else Inr (newsz, s))"

fun alloc_loop :: "layout \<Rightarrow> uint64 \<Rightarrow> uint64 \<Rightarrow> uint64 \<Rightarrow> uint64 \<Rightarrow> uint64 list \<Rightarrow> 'a mst_scheme \<Rightarrow> (uint64 \<times> 'a mst_scheme) res" where
  "alloc_loop L pagetable oldsz newsz xperm [] s = Inr (newsz, s)"
| "alloc_loop L pagetable oldsz newsz xperm (a # as) s =
     (let (page, s) = kalloc s
      in if page = 0 then bindR (uvmdealloc L pagetable a oldsz s) (\<lambda>(_, s). Inr (0, s))
         else let s = s\<lparr>mem := memset (mem s) page 0 4096\<rparr>
              in bindR (mappages pagetable a PGSIZE page (PTE_R OR PTE_U OR xperm) s) (\<lambda>(r, s).
                   if r \<noteq> 0
                   then bindR (kfree L page s) (\<lambda>s. bindR (uvmdealloc L pagetable a oldsz s) (\<lambda>(_, s). Inr (0, s)))
                   else alloc_loop L pagetable oldsz newsz xperm as s))"

definition uvmalloc :: "layout \<Rightarrow> uint64 \<Rightarrow> uint64 \<Rightarrow> uint64 \<Rightarrow> uint64 \<Rightarrow> 'a mst_scheme \<Rightarrow> (uint64 \<times> 'a mst_scheme) res" where
  "uvmalloc L pagetable oldsz newsz xperm s =
     (if newsz < oldsz then Inr (oldsz, s)
      else let oldsz = PGROUNDUP oldsz
           in alloc_loop L pagetable oldsz newsz xperm (page_range oldsz newsz) s)"

text \<open>
  \<open>freewalk\<close> recurses over the levels of the table; \<open>depth\<close> bounds the recursion, 3 for the
  tables the kernel builds.
\<close>

fun freewalk :: "nat \<Rightarrow> layout \<Rightarrow> uint64 \<Rightarrow> 'a mst_scheme \<Rightarrow> 'a mst_scheme res" where
  "freewalk 0 L pagetable s = Inl OutOfFuel"
| "freewalk (Suc depth) L pagetable s =
     bindR (foldR (\<lambda>i s.
       let pte = load64 (mem s) (pte_at pagetable (of_nat i))
       in if pte AND PTE_V \<noteq> 0 \<and> pte AND (PTE_R OR PTE_W OR PTE_X) = 0
          then bindR (freewalk depth L (PTE2PA pte) s) (\<lambda>s.
                 Inr (s\<lparr>mem := store64 (mem s) (pte_at pagetable (of_nat i)) 0\<rparr>))
          else if pte AND PTE_V \<noteq> 0 then Inl (Panic ''freewalk: leaf'') else Inr s) [0..<512] s)
     (kfree L pagetable)"

definition uvmfree :: "layout \<Rightarrow> uint64 \<Rightarrow> uint64 \<Rightarrow> 'a mst_scheme \<Rightarrow> 'a mst_scheme res" where
  "uvmfree L pagetable sz s =
     bindR (if 0 < sz then uvmunmap L pagetable 0 (PGROUNDUP sz div PGSIZE) True s else Inr s)
       (freewalk 3 L pagetable)"

fun copy_loop :: "layout \<Rightarrow> uint64 \<Rightarrow> uint64 \<Rightarrow> uint64 list \<Rightarrow> 'a mst_scheme \<Rightarrow> (cint \<times> 'a mst_scheme) res" where
  "copy_loop L old new [] s = Inr (0, s)"
| "copy_loop L old new (i # is) s =
     bindR (walk old i False s) (\<lambda>(pte, s).
       case pte of
         None \<Rightarrow> Inl (Panic ''uvmcopy: pte should exist'')
       | Some pte \<Rightarrow>
           let v = load64 (mem s) pte
           in if v AND PTE_V = 0 then Inl (Panic ''uvmcopy: page not present'')
              else let pa = PTE2PA v; flags = PTE_FLAGS v;
                       err = (\<lambda>s. bindR (uvmunmap L new 0 (i div PGSIZE) True s) (\<lambda>s. Inr (- 1, s)));
                       (page, s) = kalloc s
                   in if page = 0 then err s
                      else let s = s\<lparr>mem := memmove (mem s) page pa 4096\<rparr>
                           in bindR (mappages new i PGSIZE page flags s) (\<lambda>(r, s).
                                if r \<noteq> 0 then bindR (kfree L page s) err else copy_loop L old new is s))"

definition uvmcopy :: "layout \<Rightarrow> uint64 \<Rightarrow> uint64 \<Rightarrow> uint64 \<Rightarrow> 'a mst_scheme \<Rightarrow> (cint \<times> 'a mst_scheme) res" where
  "uvmcopy L old new sz = copy_loop L old new (page_range 0 sz)"

definition uvmclear :: "uint64 \<Rightarrow> uint64 \<Rightarrow> 'a mst_scheme \<Rightarrow> 'a mst_scheme res" where
  "uvmclear pagetable va s =
     bindR (walk pagetable va False s) (\<lambda>(pte, s).
       case pte of
         None \<Rightarrow> Inl (Panic ''uvmclear'')
       | Some pte \<Rightarrow> Inr (s\<lparr>mem := store64 (mem s) pte (load64 (mem s) pte AND NOT PTE_U)\<rparr>))"

section \<open>Copying between kernel and user\<close>

lemma page_offset_small: "unat (a - PGROUNDDOWN a) < 4096"
proof -
  have "unat (a - PGROUNDDOWN a) = unat a - unat (PGROUNDDOWN a)"
    by (rule unat_sub) (simp add: word_le_nat_alt unat_PGROUNDDOWN)
  also have "\<dots> = unat a mod 4096" by (simp add: unat_PGROUNDDOWN minus_div_mult_eq_mod)
  finally show ?thesis by simp
qed

lemma page_rest_pos: "0 < unat (PGSIZE - (a - PGROUNDDOWN a))"
proof -
  have "a - PGROUNDDOWN a \<noteq> PGSIZE" using page_offset_small[of a] by (auto simp: PGSIZE_def)
  then have "PGSIZE - (a - PGROUNDDOWN a) \<noteq> 0" by simp
  then show ?thesis by (simp add: unat_gt_0)
qed

text \<open>Kernel buffers are lists of bytes; the result is 0 or -1 as in the code.\<close>

function copyout :: "uint64 \<Rightarrow> uint64 \<Rightarrow> uint8 list \<Rightarrow> 'a mst_scheme \<Rightarrow> (cint \<times> 'a mst_scheme) res" where
  "copyout pagetable dstva src s =
     (if src = [] then Inr (0, s)
      else let va0 = PGROUNDDOWN dstva
           in bindR (walkaddr pagetable va0 s) (\<lambda>pa0.
                if pa0 = 0 then Inr (- 1, s)
                else let n = min (unat (PGSIZE - (dstva - va0))) (length src)
                     in copyout pagetable (va0 + PGSIZE) (drop n src)
                          (s\<lparr>mem := store_bytes (mem s) (pa0 + (dstva - va0)) (take n src)\<rparr>)))"
  by pat_completeness auto
termination
  by (relation "measure (\<lambda>(_, _, src, _). length src)") (auto simp: page_rest_pos)

text \<open>\<open>copyin\<close> returns what it has copied when it fails half way, as \<open>dst\<close> then holds it.\<close>

function copyin :: "uint64 \<Rightarrow> uint64 \<Rightarrow> nat \<Rightarrow> 'a mst_scheme \<Rightarrow> (cint \<times> uint8 list) res" where
  "copyin pagetable srcva len s =
     (if len = 0 then Inr (0, [])
      else let va0 = PGROUNDDOWN srcva
           in bindR (walkaddr pagetable va0 s) (\<lambda>pa0.
                if pa0 = 0 then Inr (- 1, [])
                else let n = min (unat (PGSIZE - (srcva - va0))) len
                     in bindR (copyin pagetable (va0 + PGSIZE) (len - n) s) (\<lambda>(r, bs).
                          Inr (r, load_bytes (mem s) (pa0 + (srcva - va0)) n @ bs))))"
  by pat_completeness auto
termination
  by (relation "measure (\<lambda>(_, _, len, _). len)") (auto simp: page_rest_pos)

text \<open>The inner loop of \<open>copyinstr\<close>: bytes up to a NUL, which is copied, or \<open>n\<close> of them.\<close>

fun scan_str :: "bytemem \<Rightarrow> uint64 \<Rightarrow> nat \<Rightarrow> bool \<times> uint8 list" where
  "scan_str m p 0 = (False, [])"
| "scan_str m p (Suc n) =
     (if m p = 0 then (True, [0]) else let (got, bs) = scan_str m (p + 1) n in (got, m p # bs))"

function copyinstr :: "uint64 \<Rightarrow> uint64 \<Rightarrow> nat \<Rightarrow> 'a mst_scheme \<Rightarrow> (cint \<times> uint8 list) res" where
  "copyinstr pagetable srcva max' s =
     (if max' = 0 then Inr (- 1, [])
      else let va0 = PGROUNDDOWN srcva
           in bindR (walkaddr pagetable va0 s) (\<lambda>pa0.
                if pa0 = 0 then Inr (- 1, [])
                else let n = min (unat (PGSIZE - (srcva - va0))) max';
                         (got_null, bs) = scan_str (mem s) (pa0 + (srcva - va0)) n
                     in if got_null then Inr (0, bs)
                        else bindR (copyinstr pagetable (va0 + PGSIZE) (max' - n) s) (\<lambda>(r, bs').
                               Inr (r, bs @ bs'))))"
  by pat_completeness auto
termination
  by (relation "measure (\<lambda>(_, _, max', _). max')") (auto simp: page_rest_pos)

declare copyout.simps [simp del] copyin.simps [simp del] copyinstr.simps [simp del] map_loop.simps [simp del]

section \<open>The kernel's own page table\<close>

definition UART0 :: uint64 where "UART0 = 0x10000000"
definition VIRTIO0 :: uint64 where "VIRTIO0 = 0x10001000"
definition PLIC :: uint64 where "PLIC = 0x0c000000"

text \<open>\<open>proc.c\<close>: a stack page for each process, high in memory.\<close>

definition proc_mapstacks :: "nat \<Rightarrow> uint64 \<Rightarrow> 'a mst_scheme \<Rightarrow> 'a mst_scheme res" where
  "proc_mapstacks nproc kpgtbl =
     foldR (\<lambda>p s. let (pa, s) = kalloc s
                  in if pa = 0 then Inl (Panic ''kalloc'')
                     else kvmmap kpgtbl (KSTACK p) pa PGSIZE (PTE_R OR PTE_W) s) [0..<nproc]"

definition kvmmake :: "layout \<Rightarrow> nat \<Rightarrow> 'a mst_scheme \<Rightarrow> (uint64 \<times> 'a mst_scheme) res" where
  "kvmmake L nproc s =
     (let (kpgtbl, s) = kalloc s
      in if kpgtbl = 0 then Inl BadAccess
         else let s = s\<lparr>mem := memset (mem s) kpgtbl 0 4096\<rparr> in
           bindR (kvmmap kpgtbl UART0 UART0 PGSIZE (PTE_R OR PTE_W) s) (\<lambda>s.
           bindR (kvmmap kpgtbl VIRTIO0 VIRTIO0 PGSIZE (PTE_R OR PTE_W) s) (\<lambda>s.
           bindR (kvmmap kpgtbl PLIC PLIC 0x400000 (PTE_R OR PTE_W) s) (\<lambda>s.
           bindR (kvmmap kpgtbl KERNBASE KERNBASE (l_etext L - KERNBASE) (PTE_R OR PTE_X) s) (\<lambda>s.
           bindR (kvmmap kpgtbl (l_etext L) (l_etext L) (PHYSTOP - l_etext L) (PTE_R OR PTE_W) s) (\<lambda>s.
           bindR (kvmmap kpgtbl TRAMPOLINE (l_trampoline L) PGSIZE (PTE_R OR PTE_X) s) (\<lambda>s.
           bindR (proc_mapstacks nproc kpgtbl s) (\<lambda>s. Inr (kpgtbl, s)))))))))"

end
