(* ===== verification/VmProofs.thy ===== *)
theory VmProofs
  imports Vm
begin

text \<open>
  What the page-table code of the previous theory does, seen from the address space: \<open>leaf\<close> is the
  entry a virtual address has, 0 if there is none. \<open>walk\<close> may grow the table but changes no \<open>leaf\<close>;
  \<open>mappages\<close> and \<open>uvmunmap\<close> change it for the pages they are called with and no other; \<open>copyout\<close>
  and \<open>copyin\<close> go where it says.
\<close>

section \<open>Entries of a page-table page\<close>

definition entry :: "bytemem \<Rightarrow> uint64 \<Rightarrow> uint64 \<Rightarrow> uint64" where
  "entry m p i = load64 m (pte_at p i)"

definition child :: "bytemem \<Rightarrow> uint64 \<Rightarrow> uint64 \<Rightarrow> uint64 option" where
  "child m p i = (if entry m p i AND PTE_V \<noteq> 0 then Some (PTE2PA (entry m p i)) else None)"

abbreviation idx :: "uint64 \<Rightarrow> bool" where
  "idx i \<equiv> drop_bit 9 i = 0"

lemma idx_PX [simp]: "idx (PX l va)"
proof -
  have "(0x1FF :: uint64) = mask 9" by (simp add: mask_eq_exp_minus_1)
  then have "PX l va = take_bit 9 (drop_bit (12 + 9 * l) va)" by (simp add: PX_def take_bit_eq_mask)
  then show ?thesis by (simp add: drop_bit_zero_bits bit_take_bit_iff)
qed

lemma idx_offset:
  assumes "idx i"
  shows "aligned 3 (8 * i)" and "drop_bit 12 (8 * i) = 0" and "8 * i = push_bit 3 i"
proof -
  show p: "8 * i = push_bit 3 i" by (simp add: push_bit_eq_mult)
  show "aligned 3 (8 * i)" unfolding p by (simp add: aligned_def bit_eq_iff bit_simps)
  have "drop_bit 12 (push_bit 3 i) = take_bit 52 (drop_bit 9 i)"
    by (rule bit_word_eqI) (auto simp: bit_simps)
  with assms show "drop_bit 12 (8 * i) = 0" unfolding p by simp
qed

lemma idx_inj:
  assumes "idx i" and "idx j" and "8 * i = 8 * j"
  shows "i = j"
proof -
  have "unat (8 * k) = 8 * unat k" if "idx k" for k :: uint64
    using that by (simp add: drop_bit_zero_iff unat_word_ariths)
  with assms show ?thesis by (metis mult_cancel1 word_unat_eq_iff zero_neq_numeral)
qed

lemma pte_at_aligned: "aligned 12 p \<Longrightarrow> idx i \<Longrightarrow> aligned 3 (pte_at p i)"
  unfolding pte_at_def using page_word(1) idx_offset(1,2) by blast

lemma pte_at_inj:
  assumes "aligned 12 p" and "aligned 12 q" and "idx i" and "idx j" and "pte_at p i = pte_at q j"
  shows "p = q \<and> i = j"
proof -
  have "drop_bit 12 (p + 8 * i) = drop_bit 12 p" "drop_bit 12 (q + 8 * j) = drop_bit 12 q"
    using assms idx_offset by (simp_all add: aligned_offset(1))
  with assms(5) have "p = q" using aligned_eq[OF assms(1,2)] by (simp add: pte_at_def)
  with assms idx_inj[OF assms(3,4)] show ?thesis by (simp add: pte_at_def)
qed

text \<open>A store to one entry is seen there and nowhere else.\<close>

lemma entry_store:
  assumes "aligned 12 p" and "aligned 12 q" and "idx i" and "idx j"
  shows "entry (store64 m (pte_at p i) v) q j = (if q = p \<and> j = i then v else entry m q j)"
proof (cases "q = p \<and> j = i")
  case True
  then show ?thesis by (simp add: entry_def)
next
  case False
  then have "pte_at p i \<noteq> pte_at q j" using pte_at_inj[OF assms] by auto
  from load_store64_other[OF pte_at_aligned[OF assms(1,3)] pte_at_aligned[OF assms(2,4)] this, of m v] False
  show ?thesis by (auto simp: entry_def)
qed

lemma entry_same_but:
  assumes "same_but p m m'" and "aligned 12 p" and "aligned 12 q" and "q \<noteq> p" and "idx j"
  shows "entry m' q j = entry m q j"
  unfolding entry_def pte_at_def
  using load64_same_but[OF assms(1-4)] idx_offset[OF assms(5)] by blast

lemma le_word_zeros: "(\<forall>b \<in> set bs. b = 0) \<Longrightarrow> le_word bs = (0 :: 'a :: len word)"
  by (induction bs) simp_all

lemma entry_zeroed:
  assumes "aligned 12 p" and "idx j"
  shows "entry (memset m p 0 4096) p j = 0"
proof -
  have "memset m p 0 4096 (pte_at p j + of_nat k) = 0" if "k < 8" for k
    using page_word(2)[OF assms(1) idx_offset(1,2)[OF assms(2)], of k] that
    by (simp add: memset_page[OF assms(1)] pte_at_def)
  then show ?thesis
    unfolding entry_def load64_def by (intro le_word_zeros) (auto simp: load_bytes_def)
qed

text \<open>An entry points to the page it was made from.\<close>

lemma PTE2PA_PA2PTE:
  assumes "aligned 12 pa" and "pa < PHYSTOP" and "drop_bit 10 perm = 0"
  shows "PTE2PA (PA2PTE pa OR perm) = pa"
proof -
  have "unat pa < 2 ^ 54" using assms(2) by (simp add: PHYSTOP_def KERNBASE_def word_less_nat_alt)
  then have "drop_bit 54 pa = 0" by (simp add: drop_bit_zero_iff)
  then have hi: "bit pa n \<Longrightarrow> n < 54" for n by (simp add: drop_bit_zero_bits)
  have lo: "bit pa n \<Longrightarrow> 12 \<le> n" for n using assms(1) by (simp add: aligned_def take_bit_zero_bits)
  have perm: "bit perm n \<Longrightarrow> n < 10" for n using assms(3) by (simp add: drop_bit_zero_bits)
  show ?thesis
    unfolding PTE2PA_def PA2PTE_def
  proof (rule bit_word_eqI)
    fix n
    show "bit (push_bit 12 (drop_bit 10 (push_bit 10 (drop_bit 12 pa) OR perm))) n = bit pa n"
      using hi[of n] lo[of n] perm[of "n - 2"] by (cases "12 \<le> n") (auto simp: bit_simps)
  qed
qed

section \<open>The table as a tree\<close>

text \<open>The ways to the pages of a table: the root, its children, their children.\<close>

datatype path = PRoot | P1 uint64 | P0 uint64 uint64

definition sub :: "bytemem \<Rightarrow> uint64 option \<Rightarrow> uint64 \<Rightarrow> uint64 option" where
  "sub m po i = (case po of None \<Rightarrow> None | Some p \<Rightarrow> if idx i then child m p i else None)"

fun tab :: "bytemem \<Rightarrow> uint64 \<Rightarrow> path \<Rightarrow> uint64 option" where
  "tab m root PRoot = Some root"
| "tab m root (P1 i) = sub m (Some root) i"
| "tab m root (P0 i j) = sub m (sub m (Some root) i) j"

text \<open>The last page on the way of a virtual address, its entry there, and the value of it.\<close>

abbreviation leaf_page :: "bytemem \<Rightarrow> uint64 \<Rightarrow> uint64 \<Rightarrow> uint64 option" where
  "leaf_page m root va \<equiv> tab m root (P0 (PX 2 va) (PX 1 va))"

definition slot :: "bytemem \<Rightarrow> uint64 \<Rightarrow> uint64 \<Rightarrow> uint64 option" where
  "slot m root va = map_option (\<lambda>p. pte_at p (PX 0 va)) (leaf_page m root va)"

definition leaf :: "bytemem \<Rightarrow> uint64 \<Rightarrow> uint64 \<Rightarrow> uint64" where
  "leaf m root va = (case leaf_page m root va of None \<Rightarrow> 0 | Some p \<Rightarrow> entry m p (PX 0 va))"

text \<open>A well-formed table: its pages are pages, none is free, and each is reached in one way only.\<close>

definition pt_wf :: "layout \<Rightarrow> bytemem \<Rightarrow> uint64 \<Rightarrow> uint64 set \<Rightarrow> bool" where
  "pt_wf L m root F \<longleftrightarrow> (\<forall>a p. tab m root a = Some p \<longrightarrow> is_page L p \<and> p \<notin> F \<and> (\<forall>b. tab m root b = Some p \<longrightarrow> b = a))"

lemma pt_wfD:
  assumes "pt_wf L m root F" and "tab m root a = Some p"
  shows "is_page L p" and "p \<notin> F" and "aligned 12 p" and "tab m root b = Some p \<Longrightarrow> b = a"
  using assms unfolding pt_wf_def is_page_def by blast+

text \<open>A page that was free can be added anywhere.\<close>

lemma pt_wf_add:
  assumes "pt_wf L m root F" and "tab m' root = (tab m root)(a := Some x)" and "is_page L x" and "x \<in> F"
  shows "pt_wf L m' root (F - {x})"
proof -
  have old: "p \<noteq> x" if "tab m root b = Some p" for b p using pt_wfD(2)[OF assms(1) that] assms(4) by blast
  show ?thesis
    unfolding pt_wf_def
  proof (intro allI impI conjI)
    fix b p assume b: "tab m' root b = Some p"
    show "is_page L p" using b assms(2,3) pt_wfD(1)[OF assms(1)] by (auto split: if_splits)
    show "p \<notin> F - {x}" using b assms(2) pt_wfD(2)[OF assms(1)] by (auto split: if_splits)
    fix c assume c: "tab m' root c = Some p"
    show "c = b"
    proof (cases "p = x")
      case True
      with b c assms(2) old[of b p] old[of c p] show ?thesis by (simp split: if_splits)
    next
      case False
      with b c assms(2) have "tab m root b = Some p" "tab m root c = Some p" by (auto split: if_splits)
      then show ?thesis by (rule pt_wfD(4)[OF assms(1)])
    qed
  qed
qed

lemma walk_no_alloc: "va < MAXVA \<Longrightarrow> walk root va False s = Inr (slot (mem s) root va, s)"
  by (simp add: walk_def walk_level_def slot_def sub_def child_def entry_def Let_def not_le)

lemma leaf_slot: "leaf m root va = (case slot m root va of None \<Rightarrow> 0 | Some a \<Rightarrow> load64 m a)"
  by (cases "leaf_page m root va") (simp_all add: leaf_def slot_def entry_def del: tab.simps)

lemma walkaddr_leaf:
  "walkaddr root va s = Inr (if va < MAXVA \<and> leaf (mem s) root va AND PTE_V \<noteq> 0 \<and> leaf (mem s) root va AND PTE_U \<noteq> 0
     then PTE2PA (leaf (mem s) root va) else 0)"
proof (cases "va < MAXVA")
  case True
  then show ?thesis
    by (cases "slot (mem s) root va") (auto simp: walkaddr_def walk_no_alloc leaf_slot not_le Let_def)
qed (auto simp: walkaddr_def not_less)

section \<open>Growing the table\<close>

text \<open>Memory after a fresh page \<open>x\<close> has been zeroed and linked from entry \<open>i\<close> of page \<open>p\<close>.\<close>

definition linked :: "bytemem \<Rightarrow> bytemem \<Rightarrow> uint64 \<Rightarrow> uint64 \<Rightarrow> uint64 \<Rightarrow> bool" where
  "linked m m' p i x \<longleftrightarrow> (\<forall>q j. aligned 12 q \<longrightarrow> idx j \<longrightarrow>
     entry m' q j = (if q = x then 0 else if q = p \<and> j = i then PA2PTE x OR PTE_V else entry m q j))"

lemma linked_link:
  assumes "aligned 12 p" and "idx i" and "aligned 12 x" and "x \<noteq> p" and "same_but x m m1"
  shows "linked m (store64 (memset m1 x 0 4096) (pte_at p i) (PA2PTE x OR PTE_V)) p i x"
  unfolding linked_def
proof (intro allI impI)
  fix q j :: uint64 assume q: "aligned 12 q" and j: "idx j"
  have sb: "same_but x m (memset m1 x 0 4096)" using assms(3,5) same_but_memset same_but_trans by blast
  show "entry (store64 (memset m1 x 0 4096) (pte_at p i) (PA2PTE x OR PTE_V)) q j =
      (if q = x then 0 else if q = p \<and> j = i then PA2PTE x OR PTE_V else entry m q j)"
    using entry_store[OF assms(1) q assms(2) j] entry_zeroed[OF assms(3) j] assms(4)
      entry_same_but[OF sb assms(3) q _ j] by auto
qed

lemma PTE_V_set: "(v OR PTE_V) AND PTE_V \<noteq> 0"
proof
  assume "(v OR PTE_V) AND PTE_V = 0"
  then have "\<not> bit ((v OR PTE_V) AND PTE_V) 0" by simp
  then show False by (simp add: PTE_V_def bit_simps)
qed

lemma child_linked:
  assumes "linked m m' p i x" and "is_page L x" and "aligned 12 q" and "idx j"
  shows "child m' q j = (if q = x then None else if q = p \<and> j = i then Some x else child m q j)"
proof -
  have v: "PTE2PA (PA2PTE x OR PTE_V) = x"
    by (rule PTE2PA_PA2PTE) (use assms(2) in \<open>simp_all add: is_page_def PTE_V_def drop_bit_zero_iff\<close>)
  have e: "entry m' q j = (if q = x then 0 else if q = p \<and> j = i then PA2PTE x OR PTE_V else entry m q j)"
    using assms(1,3,4) by (simp only: linked_def)
  show ?thesis
  proof (cases "q = x")
    case True
    with e show ?thesis by (simp add: child_def)
  next
    case False
    with e v PTE_V_set[of "PA2PTE x"] show ?thesis by (cases "q = p \<and> j = i") (auto simp: child_def)
  qed
qed

lemma sub_linked:
  assumes "linked m m' p i x" and "is_page L x" and "aligned 12 q" and "idx i"
  shows "sub m' (Some q) j = (if q = x then None else if q = p \<and> j = i then Some x else sub m (Some q) j)"
  using child_linked[OF assms(1-3)] assms(4) by (auto simp: sub_def)

lemma sub_None [simp]: "sub m None j = None"
  by (simp add: sub_def)

text \<open>Linking below the root, and below a page of the second level.\<close>

lemma tab_link_root:
  assumes wf: "pt_wf L m root F" and ln: "linked m m' root i x" and x: "is_page L x" "x \<in> F"
    and i: "idx i" and none: "tab m root (P1 i) = None"
  shows "tab m' root = (tab m root)(P1 i := Some x)"
proof
  fix c
  have root: "aligned 12 root" "root \<noteq> x" using pt_wfD(2,3)[OF wf, of PRoot] x(2) by auto
  have s1: "sub m' (Some root) k = (if k = i then Some x else sub m (Some root) k)" for k
    using sub_linked[OF ln x(1) root(1) i] root(2) by simp
  show "tab m' root c = ((tab m root)(P1 i := Some x)) c"
  proof (cases c)
    case (P0 k j)
    show ?thesis
    proof (cases "sub m (Some root) k")
      case None
      have "sub m' (Some x) j = None" using sub_linked[OF ln x(1) _ i, of x] x(1) by (simp add: is_page_def)
      with None P0 show ?thesis by (simp add: s1)
    next
      case (Some q)
      then have t: "tab m root (P1 k) = Some q" by simp
      have "q \<noteq> x" "q \<noteq> root" "aligned 12 q"
        using pt_wfD(2,3)[OF wf t] pt_wfD(4)[OF wf t, of PRoot] x(2) by auto
      moreover have "k \<noteq> i" using t none by auto
      ultimately show ?thesis using P0 Some sub_linked[OF ln x(1) _ i, of q j] by (simp add: s1)
    qed
  qed (simp_all add: s1)
qed

lemma tab_link_mid:
  assumes wf: "pt_wf L m root F" and ln: "linked m m' p i x" and x: "is_page L x" "x \<in> F"
    and i: "idx i" and p: "tab m root (P1 k) = Some p"
  shows "tab m' root = (tab m root)(P0 k i := Some x)"
proof
  fix c
  have root: "aligned 12 root" "root \<noteq> x" "root \<noteq> p"
    using pt_wfD(2,3)[OF wf, of PRoot] pt_wfD(4)[OF wf p, of PRoot] x(2) by auto
  have s1: "sub m' (Some root) l = sub m (Some root) l" for l
    using sub_linked[OF ln x(1) root(1) i] root(2,3) by simp
  show "tab m' root c = ((tab m root)(P0 k i := Some x)) c"
  proof (cases c)
    case (P0 l j)
    show ?thesis
    proof (cases "sub m (Some root) l")
      case None
      with P0 p show ?thesis by (auto simp: s1)
    next
      case (Some q)
      then have t: "tab m root (P1 l) = Some q" by simp
      have q: "q \<noteq> x" "aligned 12 q" using pt_wfD(2,3)[OF wf t] x(2) by auto
      have "q = p \<longleftrightarrow> l = k" using t p pt_wfD(4)[OF wf p, of "P1 l"] by auto
      with P0 Some q sub_linked[OF ln x(1) q(2) i, of j] show ?thesis by (auto simp: s1)
    qed
  qed (simp_all add: s1)
qed

text \<open>Neither adds a mapping: the new page is zero.\<close>

lemma leaf_link:
  assumes wf: "pt_wf L m root F" and ln: "linked m m' p i x" and x: "is_page L x" "x \<in> F"
    and tb: "tab m' root = (tab m root)(c := Some x)" "tab m root c = None"
    and a: "tab m root a = Some p" "\<And>j k. a \<noteq> P0 j k"
  shows "leaf m' root va = leaf m root va"
proof -
  let ?l = "P0 (PX 2 va) (PX 1 va)"
  have en: "entry m' q (PX 0 va) = (if q = x then 0 else entry m q (PX 0 va))" if "aligned 12 q" "q \<noteq> p" for q
    using ln that by (simp add: linked_def)
  show ?thesis
  proof (cases "?l = c")
    case True
    have "aligned 12 x" "x \<noteq> p" using x(1,2) pt_wfD(2)[OF wf a(1)] by (auto simp: is_page_def)
    then have "leaf m' root va = 0" using True en[of x] by (simp add: leaf_def tb(1) del: tab.simps)
    moreover have "leaf m root va = 0" using True tb(2) by (simp add: leaf_def del: tab.simps)
    ultimately show ?thesis by simp
  next
    case False
    then have eq: "tab m' root ?l = tab m root ?l" using tb(1) by simp
    show ?thesis
    proof (cases "tab m root ?l")
      case None
      then show ?thesis unfolding leaf_def eq by simp
    next
      case (Some q)
      have "aligned 12 q" "q \<noteq> x" using pt_wfD(2,3)[OF wf Some] x(2) by auto
      moreover have "q \<noteq> p" using pt_wfD(4)[OF wf Some, of a] a by auto
      ultimately show ?thesis using en[of q] unfolding leaf_def eq Some by simp
    qed
  qed
qed

text \<open>Writing an entry of a last-level page changes that mapping and no other.\<close>

lemma tab_cong:
  assumes "\<And>q j. q \<noteq> p \<Longrightarrow> aligned 12 q \<Longrightarrow> idx j \<Longrightarrow> entry m' q j = entry m q j"
    and wf: "pt_wf L m root F" and p: "\<And>a. tab m root a = Some p \<Longrightarrow> \<exists>j k. a = P0 j k"
  shows "tab m' root = tab m root"
proof
  fix c
  have s: "sub m' (Some q) j = sub m (Some q) j" if "q \<noteq> p" "aligned 12 q" for q j
    using assms(1)[OF that] by (simp add: sub_def child_def)
  have "aligned 12 root" "root \<noteq> p" using pt_wfD(3)[OF wf, of PRoot] p[of PRoot] by auto
  note s1 = s[OF this(2,1)]
  show "tab m' root c = tab m root c"
  proof (cases c)
    case (P0 i j)
    show ?thesis
    proof (cases "sub m (Some root) i")
      case (Some q)
      then have "tab m root (P1 i) = Some q" by simp
      with P0 Some s[of q] p[of "P1 i"] pt_wfD(3)[OF wf this] show ?thesis by (auto simp: s1)
    qed (simp add: P0 s1)
  qed (simp_all add: s1)
qed

lemma leaf_store:
  fixes v
  assumes wf: "pt_wf L m root F" and p: "tab m root (P0 a b) = Some p" and i: "idx i"
  defines "m' \<equiv> store64 m (pte_at p i) v"
  shows "tab m' root = tab m root"
    and "leaf m' root va = (if PX 2 va = a \<and> PX 1 va = b \<and> PX 0 va = i then v else leaf m root va)"
proof -
  have al: "aligned 12 p" by (rule pt_wfD(3)[OF wf p])
  have en: "entry m' q j = (if q = p \<and> j = i then v else entry m q j)" if "aligned 12 q" "idx j" for q j
    unfolding m'_def by (rule entry_store[OF al that(1) i that(2)])
  show tb: "tab m' root = tab m root"
  proof (rule tab_cong[OF _ wf, of p])
    show "\<exists>j k. c = P0 j k" if "tab m root c = Some p" for c using pt_wfD(4)[OF wf p that] by blast
  qed (simp add: en)
  show "leaf m' root va = (if PX 2 va = a \<and> PX 1 va = b \<and> PX 0 va = i then v else leaf m root va)"
  proof (cases "tab m root (P0 (PX 2 va) (PX 1 va))")
    case None
    then have "\<not> (PX 2 va = a \<and> PX 1 va = b)" using p by auto
    with None show ?thesis by (auto simp: leaf_def tb simp del: tab.simps)
  next
    case (Some q)
    have "q = p \<longleftrightarrow> PX 2 va = a \<and> PX 1 va = b"
      using Some p pt_wfD(4)[OF wf p, of "P0 (PX 2 va) (PX 1 va)"] by auto
    with Some en[OF pt_wfD(3)[OF wf Some], of "PX 0 va"] show ?thesis
      by (auto simp: leaf_def tb simp del: tab.simps)
  qed
qed

section \<open>walk\<close>

text \<open>One level with allocation: the page below, the table and the free list after it.\<close>

lemma kalloc_cases:
  assumes "kmem_inv L s xs" and "kalloc s = (x, s1)"
  obtains "x = 0" "s1 = s" "xs = []"
  | ys where "x \<noteq> 0" "xs = x # ys" "is_page L x" "x \<in> set xs" "x \<notin> set ys" "kmem_inv L s1 ys" "same_but x (mem s) (mem s1)"
proof (cases "x = 0")
  case True
  with assms kmem.alloc_none[of L s] kmem.alloc_some[of L s] kmem.pool_good[OF assms(1)] that(1) show ?thesis
    by (cases xs) auto
next
  case False
  with kmem.alloc_fresh[OF assms] kmem.pool_distinct[OF assms(1)] that(2) show ?thesis by auto
qed

lemma walk_level_alloc:
  assumes inv: "kmem_inv L s xs" and wf: "pt_wf L (mem s) root (set xs)"
    and p: "tab (mem s) root a = Some p" and w: "walk_level True va l p s = (r, s')"
  shows "if child (mem s) p (PX l va) \<noteq> None then r = child (mem s) p (PX l va) \<and> s' = s
    else r = None \<and> s' = s \<and> xs = [] \<or> (\<exists>x ys. r = Some x \<and> xs = x # ys \<and> is_page L x \<and> x \<in> set xs \<and> kmem_inv L s' ys \<and>
      linked (mem s) (mem s') p (PX l va) x \<and> set ys = set xs - {x} \<and>
      (\<forall>a. drop_bit 12 a \<noteq> drop_bit 12 x \<longrightarrow> drop_bit 12 a \<noteq> drop_bit 12 p \<longrightarrow> mem s' a = mem s a))"
proof (cases "child (mem s) p (PX l va)")
  case (Some q)
  then show ?thesis
    using w by (auto simp: child_def entry_def walk_level_def Let_def split: if_splits)
next
  case None
  then have inval: "load64 (mem s) (pte_at p (PX l va)) AND PTE_V = 0"
    by (simp add: child_def entry_def split: if_splits)
  obtain x s1 where k: "kalloc s = (x, s1)" by fastforce
  note al = pt_wfD(3)[OF wf p]
  from inv k show ?thesis
  proof (cases rule: kalloc_cases)
    case 1
    with None inval k w show ?thesis by (simp add: walk_level_def Let_def)
  next
    case (2 ys)
    have np: "x \<noteq> p" using 2(4) pt_wfD(2)[OF wf p] by blast
    have ax: "aligned 12 x" using 2(3) by (simp add: is_page_def)
    let ?m = "store64 (memset (mem s1) x 0 4096) (pte_at p (PX l va)) (PA2PTE x OR PTE_V)"
    have r: "r = Some x" "s' = s1\<lparr>mem := ?m\<rparr>" using inval k 2(1) w by (auto simp: walk_level_def Let_def)
    have ln: "linked (mem s) ?m p (PX l va) x" by (rule linked_link[OF al idx_PX ax np 2(7)])
    have z: "kmem_inv L (s1\<lparr>mem := memset (mem s1) x 0 4096\<rparr>) ys"
      by (rule kmem_inv_same_but[OF 2(6), of x]) (use ax 2(5) same_but_memset in simp_all)
    have "p \<notin> set ys" using 2(2) pt_wfD(2)[OF wf p] by auto
    then have "kmem_inv L s' ys"
      unfolding r(2) using same_but_store64[OF al idx_offset(1,2)[OF idx_PX]] al
      by (intro kmem_inv_same_but[OF z, of p]) (simp_all add: pte_at_def)
    moreover have "mem s' b = mem s b" if "drop_bit 12 b \<noteq> drop_bit 12 x" "drop_bit 12 b \<noteq> drop_bit 12 p" for b
      using that same_but_store64[OF al idx_offset(1,2)[OF idx_PX], of "memset (mem s1) x 0 4096"] 2(7)
        memset_page[OF ax, of "mem s1"] by (simp add: r(2) same_but_def pte_at_def)
    ultimately show ?thesis using None r(1) ln 2 by (auto simp: r(2))
  qed
qed

text \<open>Bytes that are neither in the table nor in a free page.\<close>

definition outside :: "bytemem \<Rightarrow> uint64 \<Rightarrow> uint64 set \<Rightarrow> uint64 \<Rightarrow> bool" where
  "outside m root F a \<longleftrightarrow> (\<forall>q. q \<in> F \<or> (\<exists>c. tab m root c = Some q) \<longrightarrow> drop_bit 12 a \<noteq> drop_bit 12 q)"

text \<open>
  What a step that only grows the table guarantees: the table and the free list stay well formed, no
  mapping changes, and no byte outside them.
\<close>

definition grown :: "layout \<Rightarrow> uint64 \<Rightarrow> 'a mst_scheme \<Rightarrow> uint64 list \<Rightarrow> 'a mst_scheme \<Rightarrow> uint64 list \<Rightarrow> bool" where
  "grown L root s xs s' ys \<longleftrightarrow> kmem_inv L s' ys \<and> pt_wf L (mem s') root (set ys) \<and>
     (\<forall>va. leaf (mem s') root va = leaf (mem s) root va) \<and>
     (\<forall>a. outside (mem s) root (set xs) a \<longrightarrow> mem s' a = mem s a \<and> outside (mem s') root (set ys) a)"

lemma grown_refl: "kmem_inv L s xs \<Longrightarrow> pt_wf L (mem s) root (set xs) \<Longrightarrow> grown L root s xs s xs"
  by (simp add: grown_def)

lemma grown_trans: "grown L root s1 xs s2 ys \<Longrightarrow> grown L root s2 ys s3 zs \<Longrightarrow> grown L root s1 xs s3 zs"
  by (simp add: grown_def)

lemma grown_link:
  assumes inv: "kmem_inv L s' ys" and wf: "pt_wf L (mem s) root (set xs)"
    and ln: "linked (mem s) (mem s') p i x" and x: "is_page L x" "x \<in> set xs" "set ys = set xs - {x}"
    and tb: "tab (mem s') root = (tab (mem s) root)(c := Some x)" "tab (mem s) root c = None"
    and a: "tab (mem s) root a = Some p" "\<And>j k. a \<noteq> P0 j k"
    and fr: "\<forall>b. drop_bit 12 b \<noteq> drop_bit 12 x \<longrightarrow> drop_bit 12 b \<noteq> drop_bit 12 p \<longrightarrow> mem s' b = mem s b"
  shows "grown L root s xs s' ys"
  unfolding grown_def
proof (intro conjI allI impI)
  show "kmem_inv L s' ys" by (rule inv)
  show "pt_wf L (mem s') root (set ys)" unfolding x(3) by (rule pt_wf_add[OF wf tb(1) x(1,2)])
  show "leaf (mem s') root va = leaf (mem s) root va" for va by (rule leaf_link[OF wf ln x(1,2) tb a])
  fix b assume out: "outside (mem s) root (set xs) b"
  then show "mem s' b = mem s b" using fr x(2) a(1) unfolding outside_def by blast
  show "outside (mem s') root (set ys) b"
    unfolding outside_def x(3) tb(1)
  proof (intro allI impI)
    fix q assume "q \<in> set xs - {x} \<or> (\<exists>d. ((tab (mem s) root)(c := Some x)) d = Some q)"
    then have "q \<in> set xs \<or> (\<exists>d. tab (mem s) root d = Some q)" using x(2) by (auto split: if_splits)
    with out show "drop_bit 12 b \<noteq> drop_bit 12 q" by (auto simp: outside_def)
  qed
qed

text \<open>The two levels at which \<open>walk\<close> may have to add a page.\<close>

lemma walk_level_root:
  assumes inv: "kmem_inv L s xs" and wf: "pt_wf L (mem s) root (set xs)"
    and w: "walk_level True va 2 root s = (r, s')"
  shows "\<exists>ys. grown L root s xs s' ys \<and> (if r = None then ys = [] else r = tab (mem s') root (P1 (PX 2 va)))"
proof (cases "child (mem s) root (PX 2 va)")
  case (Some q)
  with walk_level_alloc[OF inv wf tab.simps(1) w] grown_refl[OF inv wf] show ?thesis by (auto simp: sub_def)
next
  case None
  note l = walk_level_alloc[OF inv wf tab.simps(1) w]
  show ?thesis
  proof (cases r)
    case r: None
    with l None grown_refl[OF inv wf] show ?thesis by auto
  next
    case r: (Some p)
    with l None obtain ys where ys: "is_page L p" "p \<in> set xs" "kmem_inv L s' ys" "set ys = set xs - {p}"
        "linked (mem s) (mem s') root (PX 2 va) p"
        "\<forall>a. drop_bit 12 a \<noteq> drop_bit 12 p \<longrightarrow> drop_bit 12 a \<noteq> drop_bit 12 root \<longrightarrow> mem s' a = mem s a" by auto
    have none: "tab (mem s) root (P1 (PX 2 va)) = None" using None by (simp add: sub_def)
    note tb = tab_link_root[OF wf ys(5,1,2) idx_PX none]
    have "grown L root s xs s' ys"
      by (rule grown_link[OF ys(3) wf ys(5,1,2,4) tb none tab.simps(1) _ ys(6)]) simp
    with tb r show ?thesis by auto
  qed
qed

lemma walk_level_mid:
  assumes inv: "kmem_inv L s xs" and wf: "pt_wf L (mem s) root (set xs)"
    and p: "tab (mem s) root (P1 (PX 2 va)) = Some p" and w: "walk_level True va 1 p s = (r, s')"
  shows "\<exists>ys. grown L root s xs s' ys \<and> (if r = None then ys = [] else r = leaf_page (mem s') root va)"
proof (cases "child (mem s) p (PX 1 va)")
  case (Some q)
  with walk_level_alloc[OF inv wf p w] p grown_refl[OF inv wf] show ?thesis by (auto simp: sub_def)
next
  case None
  note l = walk_level_alloc[OF inv wf p w]
  show ?thesis
  proof (cases r)
    case r: None
    with l None grown_refl[OF inv wf] show ?thesis by auto
  next
    case r: (Some x)
    with l None obtain ys where ys: "is_page L x" "x \<in> set xs" "kmem_inv L s' ys" "set ys = set xs - {x}"
        "linked (mem s) (mem s') p (PX 1 va) x"
        "\<forall>a. drop_bit 12 a \<noteq> drop_bit 12 x \<longrightarrow> drop_bit 12 a \<noteq> drop_bit 12 p \<longrightarrow> mem s' a = mem s a" by auto
    note tb = tab_link_mid[OF wf ys(5,1,2) idx_PX p]
    have none: "tab (mem s) root (P0 (PX 2 va) (PX 1 va)) = None" using None p by (simp add: sub_def split: option.splits)
    have "grown L root s xs s' ys"
      by (rule grown_link[OF ys(3) wf ys(5,1,2,4) tb none p _ ys(6)]) simp
    with tb r show ?thesis by auto
  qed
qed

lemma walk_alloc:
  assumes inv: "kmem_inv L s xs" and wf: "pt_wf L (mem s) root (set xs)" and va: "va < MAXVA"
  obtains s' ys r where "walk root va True s = Inr (r, s')" "grown L root s xs s' ys"
    "if r = None then ys = [] else r = slot (mem s') root va"
proof -
  obtain r2 s2 where w2: "walk_level True va 2 root s = (r2, s2)" by fastforce
  from walk_level_root[OF inv wf w2] obtain ys where
    ys: "grown L root s xs s2 ys" "if r2 = None then ys = [] else r2 = tab (mem s2) root (P1 (PX 2 va))" by blast
  show ?thesis
  proof (cases r2)
    case None
    with ys va w2 show ?thesis by (intro that[of None s2 "[]"]) (simp_all add: walk_def not_le)
  next
    case (Some p)
    with ys have p: "tab (mem s2) root (P1 (PX 2 va)) = Some p" by simp
    obtain r1 s1 where w1: "walk_level True va 1 p s2 = (r1, s1)" by fastforce
    have w: "walk root va True s = Inr (map_option (\<lambda>q. pte_at q (PX 0 va)) r1, s1)"
      using va w2 w1 Some by (cases r1) (simp_all add: walk_def not_le)
    have "kmem_inv L s2 ys" "pt_wf L (mem s2) root (set ys)" using ys(1) by (simp_all add: grown_def)
    from walk_level_mid[OF this p w1] obtain zs where
      z: "grown L root s2 ys s1 zs" "if r1 = None then zs = [] else r1 = leaf_page (mem s1) root va" by blast
    show ?thesis
      by (rule that[OF w grown_trans[OF ys(1) z(1)]]) (use z(2) in \<open>cases r1; simp add: slot_def del: tab.simps\<close>)
  qed
qed

section \<open>Mapping pages\<close>

text \<open>Below \<open>MAXVA\<close> the three indices say which page an address is in.\<close>

lemma bit_PX: "bit (PX l va) n \<longleftrightarrow> n < 9 \<and> bit va (12 + 9 * l + n)"
proof -
  have "(0x1FF :: uint64) = mask 9" by (simp add: mask_eq_exp_minus_1)
  then have "PX l va = take_bit 9 (drop_bit (12 + 9 * l) va)" by (simp add: PX_def take_bit_eq_mask)
  then show ?thesis by (simp add: bit_take_bit_iff bit_drop_bit_eq)
qed

lemma MAXVA_bits: "va < MAXVA \<Longrightarrow> bit va n \<Longrightarrow> n < 38"
proof -
  assume "va < MAXVA"
  then have "drop_bit 38 va = 0" by (simp add: drop_bit_zero_iff MAXVA_def word_less_nat_alt)
  then show "bit va n \<Longrightarrow> n < 38" by (simp add: drop_bit_zero_bits)
qed

lemma PX_page:
  assumes "va < MAXVA" and "a < MAXVA"
  shows "PX 2 va = PX 2 a \<and> PX 1 va = PX 1 a \<and> PX 0 va = PX 0 a \<longleftrightarrow> drop_bit 12 va = drop_bit 12 a" (is "?L = ?R")
proof
  assume ?R
  then have "bit va (12 + k) = bit a (12 + k)" for k by (metis bit_drop_bit_eq comp_apply)
  then have "PX l va = PX l a" for l by (intro bit_word_eqI) (simp add: bit_PX add.assoc)
  then show ?L by simp
next
  assume L: ?L
  show ?R
  proof (rule bit_word_eqI)
    fix n
    have eq: "bit va (12 + 9 * l + k) = bit a (12 + 9 * l + k)" if "l < 3" "k < 9" for l k
    proof -
      have "PX l va = PX l a" using L that(1) by (auto simp: numeral_3_eq_3 less_Suc_eq numeral_2_eq_2)
      with that(2) show ?thesis using bit_PX[of l va k] bit_PX[of l a k] by simp
    qed
    show "bit (drop_bit 12 va) n = bit (drop_bit 12 a) n"
    proof (cases "n < 27")
      case True
      have "12 + 9 * (n div 9) + n mod 9 = 12 + n" by simp
      with eq[of "n div 9" "n mod 9"] True show ?thesis by (simp add: bit_drop_bit_eq)
    next
      case False
      with MAXVA_bits[OF assms(1), of "12 + n"] MAXVA_bits[OF assms(2), of "12 + n"] show ?thesis
        by (auto simp: bit_drop_bit_eq)
    qed
  qed
qed

text \<open>Writing the entry \<open>walk\<close> found.\<close>

definition mapped :: "layout \<Rightarrow> uint64 \<Rightarrow> 'a mst_scheme \<Rightarrow> uint64 list \<Rightarrow> 'a mst_scheme \<Rightarrow> uint64 list \<Rightarrow> (uint64 \<Rightarrow> uint64) \<Rightarrow> bool" where
  "mapped L root s xs s' ys f \<longleftrightarrow> kmem_inv L s' ys \<and> pt_wf L (mem s') root (set ys) \<and>
     (\<forall>va < MAXVA. leaf (mem s') root va = f va) \<and>
     (\<forall>a. outside (mem s) root (set xs) a \<longrightarrow> mem s' a = mem s a \<and> outside (mem s') root (set ys) a)"

lemma mapped_grown: "grown L root s xs s' ys \<Longrightarrow> mapped L root s xs s' ys (leaf (mem s) root)"
  by (simp add: mapped_def grown_def)

lemma mapped_trans:
  assumes "mapped L root s1 xs s2 ys f" and "mapped L root s2 ys s3 zs g"
  shows "mapped L root s1 xs s3 zs g"
  using assms by (simp add: mapped_def)

lemma mapped_cong:
  assumes "mapped L root s xs s' ys f" and "\<And>u. u < MAXVA \<Longrightarrow> f u = g u"
  shows "mapped L root s xs s' ys g"
  using assms by (simp add: mapped_def)

lemma mapped_store:
  assumes inv: "kmem_inv L s xs" and wf: "pt_wf L (mem s) root (set xs)" and va: "va < MAXVA"
    and sl: "slot (mem s) root va = Some pte"
  shows "mapped L root s xs (s\<lparr>mem := store64 (mem s) pte v\<rparr>) xs
    (\<lambda>w. if drop_bit 12 w = drop_bit 12 va then v else leaf (mem s) root w)"
proof -
  obtain p where p: "leaf_page (mem s) root va = Some p" "pte = pte_at p (PX 0 va)"
    using sl by (auto simp: slot_def simp del: tab.simps)
  note al = pt_wfD(3)[OF wf p(1)]
  note ls = leaf_store[OF wf p(1) idx_PX[of 0 va], of v]
  have sb: "same_but p (mem s) (store64 (mem s) pte v)"
    unfolding p(2) pte_at_def by (rule same_but_store64[OF al idx_offset(1,2)[OF idx_PX]])
  have nf: "p \<notin> set xs" by (rule pt_wfD(2)[OF wf p(1)])
  have "kmem_inv L (s\<lparr>mem := store64 (mem s) pte v\<rparr>) xs"
    by (rule kmem_inv_same_but[OF inv, of p]) (use sb al nf in simp_all)
  moreover have "pt_wf L (store64 (mem s) pte v) root (set xs)"
    using wf ls(1) by (simp add: pt_wf_def p(2))
  moreover have "leaf (store64 (mem s) pte v) root w =
      (if drop_bit 12 w = drop_bit 12 va then v else leaf (mem s) root w)" if "w < MAXVA" for w
    using ls(2)[of w] PX_page[OF that va] by (auto simp: p(2))
  moreover have "store64 (mem s) pte v b = mem s b \<and> outside (store64 (mem s) pte v) root (set xs) b"
    if "outside (mem s) root (set xs) b" for b
    using that sb p(1) ls(1) by (auto simp: outside_def same_but_def p(2) simp del: tab.simps)
  ultimately show ?thesis by (simp add: mapped_def)
qed

text \<open>The mapping after a run of \<open>n + 1\<close> pages from \<open>a\<close> on has been entered.\<close>

definition map_run :: "uint64 \<Rightarrow> nat \<Rightarrow> uint64 \<Rightarrow> uint64 \<Rightarrow> (uint64 \<Rightarrow> uint64) \<Rightarrow> uint64 \<Rightarrow> uint64" where
  "map_run a n pa perm f va =
     (if unat a \<le> unat va \<and> unat va < unat a + 4096 * (n + 1)
      then PA2PTE (pa + (PGROUNDDOWN va - a)) OR perm OR PTE_V else f va)"

lemma same_page_range:
  assumes "aligned 12 a"
  shows "drop_bit 12 va = drop_bit 12 a \<longleftrightarrow> unat a \<le> unat va \<and> unat va < unat a + 4096"
proof -
  obtain k where k: "unat a = 4096 * k" using assms by (metis aligned_unat mod_0_imp_dvd dvdE)
  have "drop_bit 12 va = drop_bit 12 a \<longleftrightarrow> unat va div 4096 = k"
    by (simp add: word_unat_eq_iff unat_drop_bit k)
  also have "\<dots> \<longleftrightarrow> unat a \<le> unat va \<and> unat va < unat a + 4096"
  proof
    assume eq: "unat va div 4096 = k"
    have "unat va = unat va div 4096 * 4096 + unat va mod 4096" "unat va mod 4096 < 4096" by simp_all
    with eq k show "unat a \<le> unat va \<and> unat va < unat a + 4096" by linarith
  next
    assume r: "unat a \<le> unat va \<and> unat va < unat a + 4096"
    then obtain r where "unat va = 4096 * k + r" "r < 4096" using k by (metis add_less_cancel_left le_Suc_ex)
    then show "unat va div 4096 = k" by simp
  qed
  finally show ?thesis .
qed

lemma drop_bit_PGROUNDDOWN: "drop_bit 12 (PGROUNDDOWN va) = drop_bit 12 va"
  unfolding PGROUNDDOWN_def round_down_bits
  by (rule bit_word_eqI) (auto simp: bit_simps dest: bit_imp_le_length)

lemma PGROUNDDOWN_same_page: "aligned 12 a \<Longrightarrow> drop_bit 12 va = drop_bit 12 a \<Longrightarrow> PGROUNDDOWN va = a"
  using aligned_eq[OF aligned_round(2)] drop_bit_PGROUNDDOWN by metis

lemma map_run_Suc:
  assumes "aligned 12 a" and "unat a + 4096 * (n + 2) \<le> 2 ^ 64"
  shows "map_run (a + PGSIZE) n (pa + PGSIZE) perm
      (\<lambda>w. if drop_bit 12 w = drop_bit 12 a then PA2PTE pa OR perm OR PTE_V else f w) va =
    map_run a (Suc n) pa perm f va"
proof -
  have ua: "unat (a + PGSIZE) = unat a + 4096"
    using assms(2) by (simp add: PGSIZE_def unat_word_ariths)
  show ?thesis
  proof (cases "drop_bit 12 va = drop_bit 12 a")
    case True
    then show ?thesis using ua same_page_range[OF assms(1), of va] PGROUNDDOWN_same_page[OF assms(1) True]
      by (simp add: map_run_def)
  next
    case False
    then have "unat va < unat a \<or> unat a + 4096 \<le> unat va" using same_page_range[OF assms(1), of va] by linarith
    with False ua show ?thesis by (auto simp: map_run_def)
  qed
qed

text \<open>One round of the loop of \<open>mappages\<close>, and all of it, over pages that are not mapped yet.\<close>

lemma map_loop_step:
  assumes "kmem_inv L s xs" and "pt_wf L (mem s) root (set xs)" and "a < MAXVA" and "leaf (mem s) root a AND PTE_V = 0"
  shows "(\<exists>s'. map_loop root perm n a pa s = Inr (False, s') \<and> grown L root s xs s' []) \<or>
    (\<exists>s' ys. map_loop root perm n a pa s =
        (case n of 0 \<Rightarrow> Inr (True, s') | Suc n' \<Rightarrow> map_loop root perm n' (a + PGSIZE) (pa + PGSIZE) s') \<and>
      mapped L root s xs s' ys
        (\<lambda>u. if drop_bit 12 u = drop_bit 12 a then PA2PTE pa OR perm OR PTE_V else leaf (mem s) root u))"
proof -
  obtain r s1 ys where w: "walk root a True s = Inr (r, s1)" "grown L root s xs s1 ys"
      "if r = None then ys = [] else r = slot (mem s1) root a"
    by (rule walk_alloc[OF assms(1-3)])
  show ?thesis
  proof (cases r)
    case None
    with w show ?thesis by (subst (1) map_loop.simps) simp
  next
    case (Some pte)
    have lf: "leaf (mem s1) root u = leaf (mem s) root u" for u using w(2) by (simp add: grown_def)
    have inv: "kmem_inv L s1 ys" and wf: "pt_wf L (mem s1) root (set ys)" using w(2) by (simp_all add: grown_def)
    have v: "load64 (mem s1) pte AND PTE_V = 0"
      using assms(4) lf[of a] w(3) Some leaf_slot[of "mem s1" root a] by simp
    let ?s = "s1\<lparr>mem := store64 (mem s1) pte (PA2PTE pa OR perm OR PTE_V)\<rparr>"
    have "mapped L root s xs ?s ys
        (\<lambda>u. if drop_bit 12 u = drop_bit 12 a then PA2PTE pa OR perm OR PTE_V else leaf (mem s) root u)"
      by (rule mapped_cong[OF mapped_trans[OF mapped_grown[OF w(2)] mapped_store[OF inv wf assms(3)]]])
        (use w(3) Some lf in auto)
    moreover have "map_loop root perm n a pa s =
        (case n of 0 \<Rightarrow> Inr (True, ?s) | Suc n' \<Rightarrow> map_loop root perm n' (a + PGSIZE) (pa + PGSIZE) ?s)"
      by (subst (1) map_loop.simps) (simp add: w(1) Some v Let_def)
    ultimately show ?thesis by blast
  qed
qed

lemma map_loop_maps:
  assumes "kmem_inv L s xs" and "pt_wf L (mem s) root (set xs)" and "aligned 12 a"
    and "unat a + 4096 * n < unat MAXVA"
    and "\<forall>va < MAXVA. unat a \<le> unat va \<and> unat va < unat a + 4096 * (n + 1) \<longrightarrow> leaf (mem s) root va AND PTE_V = 0"
  shows "\<exists>ok s' ys. map_loop root perm n a pa s = Inr (ok, s') \<and>
    (if ok then mapped L root s xs s' ys (map_run a n pa perm (leaf (mem s) root)) else kmem_inv L s' [])"
  using assms
proof (induction n arbitrary: a pa s xs)
  case 0
  have "a < MAXVA" "leaf (mem s) root a AND PTE_V = 0" using "0.prems"(4,5) by (simp_all add: word_less_nat_alt)
  from map_loop_step[OF "0.prems"(1,2) this, of perm 0 pa] show ?case
  proof (elim disjE exE conjE)
    fix s' ys
    assume m: "mapped L root s xs s' ys
        (\<lambda>u. if drop_bit 12 u = drop_bit 12 a then PA2PTE pa OR perm OR PTE_V else leaf (mem s) root u)"
      and l: "map_loop root perm 0 a pa s =
        (case 0 of 0 \<Rightarrow> Inr (True, s') | Suc n' \<Rightarrow> map_loop root perm n' (a + PGSIZE) (pa + PGSIZE) s')"
    have "mapped L root s xs s' ys (map_run a 0 pa perm (leaf (mem s) root))"
      by (rule mapped_cong[OF m])
        (use same_page_range[OF "0.prems"(3)] PGROUNDDOWN_same_page[OF "0.prems"(3)] in \<open>auto simp: map_run_def\<close>)
    with l show ?thesis by auto
  qed (auto simp: grown_def)
next
  case (Suc n)
  have a: "a < MAXVA" "leaf (mem s) root a AND PTE_V = 0" using Suc.prems(4,5) by (simp_all add: word_less_nat_alt)
  have mx: "unat MAXVA = 2 ^ 38" by (simp add: MAXVA_def)
  have ua: "unat (a + PGSIZE) = unat a + 4096"
    using Suc.prems(4) mx by (simp add: PGSIZE_def unat_word_ariths)
  have ala: "aligned 12 (a + PGSIZE)" using Suc.prems(3) ua by (simp add: aligned_unat)
  consider s' where "map_loop root perm (Suc n) a pa s = Inr (False, s')" "kmem_inv L s' []" |
    s' ys where "map_loop root perm (Suc n) a pa s = map_loop root perm n (a + PGSIZE) (pa + PGSIZE) s'"
      "mapped L root s xs s' ys
        (\<lambda>u. if drop_bit 12 u = drop_bit 12 a then PA2PTE pa OR perm OR PTE_V else leaf (mem s) root u)"
    using map_loop_step[OF Suc.prems(1,2) a, of perm "Suc n" pa] by (auto simp: grown_def)
  then show ?case
  proof cases
    case (1 s')
    then show ?thesis by (intro exI[of _ False] exI[of _ s']) simp
  next
    case (2 s' ys)
    have inv: "kmem_inv L s' ys" and wf: "pt_wf L (mem s') root (set ys)"
      and lf: "\<And>u. u < MAXVA \<Longrightarrow> leaf (mem s') root u =
        (if drop_bit 12 u = drop_bit 12 a then PA2PTE pa OR perm OR PTE_V else leaf (mem s) root u)"
      using 2(2) by (simp_all add: mapped_def)
    have free: "\<forall>va < MAXVA. unat (a + PGSIZE) \<le> unat va \<and> unat va < unat (a + PGSIZE) + 4096 * (n + 1) \<longrightarrow>
        leaf (mem s') root va AND PTE_V = 0"
      using Suc.prems(5) lf ua same_page_range[OF Suc.prems(3)] by auto
    have "unat (a + PGSIZE) + 4096 * n < unat MAXVA" using Suc.prems(4) ua by simp
    from Suc.IH[OF inv wf ala this free, of "pa + PGSIZE"] obtain ok s2 zs where
      s2: "map_loop root perm n (a + PGSIZE) (pa + PGSIZE) s' = Inr (ok, s2)"
        "if ok then mapped L root s' ys s2 zs (map_run (a + PGSIZE) n (pa + PGSIZE) perm (leaf (mem s') root)) else kmem_inv L s2 []" by blast
    have "map_run (a + PGSIZE) n (pa + PGSIZE) perm (leaf (mem s') root) u = map_run a (Suc n) pa perm (leaf (mem s) root) u"
      if "u < MAXVA" for u
    proof -
      let ?g = "\<lambda>u. if drop_bit 12 u = drop_bit 12 a then PA2PTE pa OR perm OR PTE_V else leaf (mem s) root u"
      have "map_run (a + PGSIZE) n (pa + PGSIZE) perm (leaf (mem s') root) u =
          map_run (a + PGSIZE) n (pa + PGSIZE) perm ?g u" unfolding map_run_def lf[OF that] ..
      also have "\<dots> = map_run a (Suc n) pa perm (leaf (mem s) root) u"
        by (rule map_run_Suc[OF Suc.prems(3)]) (use Suc.prems(4) mx in simp)
      finally show ?thesis .
    qed
    then have "if ok then mapped L root s xs s2 zs (map_run a (Suc n) pa perm (leaf (mem s) root)) else kmem_inv L s2 []"
      using s2(2) by (cases ok) (auto intro: mapped_cong[OF mapped_trans[OF 2(2)]])
    with 2(1) s2(1) show ?thesis by auto
  qed
qed

text \<open>
  C14. \<open>mappages\<close> enters a range. If none of its pages is mapped yet, it returns 0, or -1 when
  no page is free any more. On 0 every address of the range has the entry for its physical page and \<open>perm\<close>, every other
  address the entry it had, and no byte outside the table and the free pages has changed; the table
  and the free list stay well formed.
\<close>

theorem mappages_maps:
  assumes "kmem_inv L s xs" and "pt_wf L (mem s) root (set xs)" and "0 < size'" and "unat va + unat size' \<le> unat MAXVA"
    and "n = (unat (PGROUNDDOWN (va + size' - 1)) - unat (PGROUNDDOWN va)) div 4096"
    and "\<forall>w < MAXVA. unat (PGROUNDDOWN va) \<le> unat w \<and> unat w < unat (PGROUNDDOWN va) + 4096 * (n + 1) \<longrightarrow>
      leaf (mem s) root w AND PTE_V = 0"
  shows "\<exists>s' ys. mappages root va size' pa perm s = Inr (0, s') \<and>
      mapped L root s xs s' ys (map_run (PGROUNDDOWN va) n pa perm (leaf (mem s) root)) \<or>
    mappages root va size' pa perm s = Inr (- 1, s') \<and> kmem_inv L s' []"
proof -
  let ?a = "PGROUNDDOWN va" and ?l = "PGROUNDDOWN (va + size' - 1)"
  have mx: "unat MAXVA = 2 ^ 38" by (simp add: MAXVA_def)
  have sz: "0 < unat size'" using assms(3) by (simp add: word_less_nat_alt)
  have "unat (va + size' - 1) = unat va + unat size' - 1"
  proof -
    have s: "unat (va + size') = unat va + unat size'" using assms(4) mx by (simp add: unat_word_ariths)
    then have "va + size' \<noteq> 0" using sz by (metis add_gr_0 less_numeral_extra(3) unsigned_0)
    then show ?thesis using s by (simp add: unat_minus_one)
  qed
  then have ul: "unat ?l = (unat va + unat size' - 1) div 4096 * 4096" "unat ?a = unat va div 4096 * 4096"
    by (simp_all add: unat_PGROUNDDOWN)
  have le: "unat ?a \<le> unat ?l" unfolding ul using sz by (intro mult_le_mono1 div_le_mono) simp
  have "unat ?l - unat ?a = ((unat va + unat size' - 1) div 4096 - unat va div 4096) * 4096"
    unfolding ul by (simp add: diff_mult_distrib)
  then have n: "4096 * n = unat ?l - unat ?a" using assms(5) by simp
  have "unat ((?l - ?a) div PGSIZE) = n"
    using le assms(5) by (simp add: unat_div PGSIZE_def unat_sub word_le_nat_alt)
  moreover have "unat ?l < unat MAXVA"
    unfolding ul using assms(4) sz by (simp add: div_times_less_eq_dividend le_less_trans[of _ "unat va + unat size' - 1"])
  then have "unat ?a + 4096 * n < unat MAXVA" using n le by simp
  ultimately show ?thesis
    using map_loop_maps[OF assms(1,2) aligned_round(2) _ assms(6), of perm pa] assms(3)
    by (auto simp: mappages_def Let_def split: if_splits)
qed

section \<open>New tables\<close>

text \<open>
  A new user page table maps nothing: \<open>uvmcreate\<close> returns a page, no longer free, that is a
  well-formed table in which every address is unmapped.
\<close>

theorem uvmcreate_empty:
  assumes "kmem_inv L s xs" and "uvmcreate s = (root, s')" and "root \<noteq> 0"
  shows "\<exists>ys. xs = root # ys \<and> kmem_inv L s' ys \<and> pt_wf L (mem s') root (set ys) \<and> (\<forall>va. leaf (mem s') root va = 0)"
proof -
  obtain x s1 where k: "kalloc s = (x, s1)" by fastforce
  with assms(2,3) have x: "x = root" "x \<noteq> 0" "s' = s1\<lparr>mem := memset (mem s1) root 0 4096\<rparr>"
    by (auto simp: uvmcreate_def Let_def split: if_splits)
  from assms(1) k show ?thesis
  proof (cases rule: kalloc_cases)
    case 1
    with x show ?thesis by simp
  next
    case (2 ys)
    have al: "aligned 12 root" using 2(3) x(1) by (simp add: is_page_def)
    have "entry (mem s') root i = 0" if "idx i" for i using entry_zeroed[OF al that] by (simp add: x(3))
    then have none: "sub (mem s') (Some root) i = None" for i by (simp add: sub_def child_def)
    have tb: "tab (mem s') root c = (if c = PRoot then Some root else None)" for c by (cases c) (simp_all add: none)
    have "kmem_inv L s' ys"
      by (rule kmem_inv_same_but[OF 2(6), of root]) (use 2(5) x same_but_memset[OF al] al in simp_all)
    moreover have "pt_wf L (mem s') root (set ys)" using 2(3,5) x(1) by (auto simp: pt_wf_def tb split: if_splits)
    moreover have "leaf (mem s') root va = 0" for va by (simp add: leaf_def tb del: tab.simps)
    ultimately show ?thesis using 2(2) x(1) by blast
  qed
qed

section \<open>A table with one mapping\<close>

text \<open>The table of a process with one page, at address 0; no page is free.\<close>

abbreviation "demo_root \<equiv> (0x80030000 :: uint64)"

definition demo_pt :: mst where
  "demo_pt = \<lparr>mem = store64 (store64 (store64 (\<lambda>_. 0) (pte_at demo_root 0) (PA2PTE 0x80031000 OR PTE_V))
      (pte_at 0x80031000 0) (PA2PTE 0x80032000 OR PTE_V))
      (pte_at 0x80032000 0) (PA2PTE 0x80033000 OR (PTE_V OR PTE_R OR PTE_W OR PTE_U)), freelist = 0\<rparr>"

lemma demo_entry:
  assumes "aligned 12 q" and "idx j"
  shows "entry (mem demo_pt) q j =
    (if j \<noteq> 0 then 0 else if q = demo_root then PA2PTE 0x80031000 OR PTE_V
     else if q = 0x80031000 then PA2PTE 0x80032000 OR PTE_V
     else if q = 0x80032000 then PA2PTE 0x80033000 OR (PTE_V OR PTE_R OR PTE_W OR PTE_U) else 0)"
proof -
  have z: "idx 0" by simp
  have al: "aligned 12 demo_root" "aligned 12 (0x80031000 :: uint64)" "aligned 12 (0x80032000 :: uint64)"
    by (simp_all add: aligned_def)
  have "entry (\<lambda>_. 0) q j = 0" by (simp add: entry_def load64_def le_word_zeros load_bytes_def)
  then show ?thesis
    unfolding demo_pt_def mst.simps entry_store[OF al(3) assms(1) z assms(2)] entry_store[OF al(2) assms(1) z assms(2)]
      entry_store[OF al(1) assms(1) z assms(2)] by auto
qed

lemma demo_tab:
  "tab (mem demo_pt) demo_root c = (if c = PRoot then Some demo_root else if c = P1 0 then Some 0x80031000
     else if c = P0 0 0 then Some 0x80032000 else None)"
proof -
  have "sub (mem demo_pt) (Some demo_root) i = (if i = 0 then Some 0x80031000 else None)" for i
    by (simp add: sub_def child_def demo_entry aligned_def PA2PTE_def PTE2PA_def PTE_V_def)
  moreover have "sub (mem demo_pt) (Some 0x80031000) i = (if i = 0 then Some 0x80032000 else None)" for i
    by (simp add: sub_def child_def demo_entry aligned_def PA2PTE_def PTE2PA_def PTE_V_def)
  ultimately show ?thesis by (cases c) simp_all
qed

lemma demo_leaf:
  "w < MAXVA \<Longrightarrow> leaf (mem demo_pt) demo_root w =
     (if drop_bit 12 w = 0 then PA2PTE 0x80033000 OR (PTE_V OR PTE_R OR PTE_W OR PTE_U) else 0)"
proof -
  assume w: "w < MAXVA"
  have "drop_bit 12 w = 0 \<longleftrightarrow> PX 2 w = 0 \<and> PX 1 w = 0 \<and> PX 0 w = 0"
    using PX_page[OF w, of 0] by (simp add: MAXVA_def PX_def)
  then show ?thesis by (auto simp: leaf_def demo_tab demo_entry aligned_def simp del: tab.simps)
qed

lemma demo_pt_wf: "pt_wf demo_layout (mem demo_pt) demo_root F" if "F \<inter> {demo_root, 0x80031000, 0x80032000} = {}"
  using that by (auto simp: pt_wf_def demo_tab is_page_def aligned_def demo_layout_def PHYSTOP_def KERNBASE_def
      simp del: tab.simps split: if_splits)

lemma demo_kmem: "kmem_inv demo_layout demo_pt []"
  by (simp add: kmem_inv_def demo_pt_def)

theorem mappages_maps_witness:
  "\<exists>s' ys. mappages demo_root 0x1000 PGSIZE 0x80034000 PTE_R demo_pt = Inr (0, s') \<and>
      mapped demo_layout demo_root demo_pt [] s' ys (map_run 0x1000 0 0x80034000 PTE_R (leaf (mem demo_pt) demo_root)) \<or>
    mappages demo_root 0x1000 PGSIZE 0x80034000 PTE_R demo_pt = Inr (- 1, s') \<and> kmem_inv demo_layout s' []"
proof -
  have r: "PGROUNDDOWN 0x1000 = 0x1000" "PGROUNDDOWN (0x1000 + PGSIZE - 1) = 0x1000"
    by (simp_all add: PGROUNDDOWN_def PGSIZE_def)
  have "leaf (mem demo_pt) demo_root w AND PTE_V = 0"
    if "w < MAXVA" "unat (0x1000 :: uint64) \<le> unat w" for w
  proof -
    have "drop_bit 12 w \<noteq> 0" using that(2) by (auto simp: drop_bit_zero_iff)
    with that(1) show ?thesis by (simp add: demo_leaf)
  qed
  then have "\<forall>w < MAXVA. unat (PGROUNDDOWN 0x1000) \<le> unat w \<and> unat w < unat (PGROUNDDOWN 0x1000) + 4096 * (0 + 1) \<longrightarrow>
      leaf (mem demo_pt) demo_root w AND PTE_V = 0" unfolding r by blast
  from mappages_maps[OF demo_kmem demo_pt_wf _ _ _ this, of PGSIZE "0x80034000" PTE_R] show ?thesis
    unfolding r by (simp add: PGSIZE_def MAXVA_def)
qed

theorem uvmcreate_empty_witness:
  "\<exists>s'. uvmcreate (demo_mst\<lparr>freelist := 0x80030000\<rparr>) = (0x80030000, s') \<and> leaf (mem s') 0x80030000 4096 = 0"
proof -
  obtain p s' where u: "uvmcreate (demo_mst\<lparr>freelist := 0x80030000\<rparr>) = (p, s')" by fastforce
  then have "p = 0x80030000" by (auto simp: uvmcreate_def kalloc_def Let_def)
  with u uvmcreate_empty[OF demo_free u] show ?thesis by auto
qed

end
