(* ===== verification/VmUser.thy ===== *)
theory VmUser
  imports VmProofs
begin

text \<open>
  What \<open>copyin\<close>, \<open>copyinstr\<close> and \<open>copyout\<close> of \<open>vm.c\<close> do, seen from user space: \<open>uread\<close> is the byte
  a user program reads at a virtual address. And what unmapping a range gives back.
\<close>

section \<open>User addresses\<close>

text \<open>The addresses a user program may access, the byte behind one, and that byte's value.\<close>

definition user_ok :: "bytemem \<Rightarrow> uint64 \<Rightarrow> uint64 \<Rightarrow> bool" where
  "user_ok m root w \<longleftrightarrow> w < MAXVA \<and> leaf m root w AND PTE_V \<noteq> 0 \<and> leaf m root w AND PTE_U \<noteq> 0 \<and>
     PTE2PA (leaf m root w) \<noteq> 0"

definition user_pa :: "bytemem \<Rightarrow> uint64 \<Rightarrow> uint64 \<Rightarrow> uint64" where
  "user_pa m root w = PTE2PA (leaf m root w) + (w - PGROUNDDOWN w)"

definition uread :: "bytemem \<Rightarrow> uint64 \<Rightarrow> uint64 \<Rightarrow> uint8" where
  "uread m root w = m (user_pa m root w)"

lemma PX_cong: "drop_bit 12 v = drop_bit 12 w \<Longrightarrow> PX l v = PX l w"
proof (rule bit_word_eqI)
  fix n assume d: "drop_bit 12 v = drop_bit 12 w"
  have "bit (drop_bit 12 v) (9 * l + n) = bit (drop_bit 12 w) (9 * l + n)" by (simp only: d)
  then have "bit v (12 + (9 * l + n)) = bit w (12 + (9 * l + n))" unfolding bit_drop_bit_eq o_def .
  then show "bit (PX l v) n = bit (PX l w) n" by (simp only: bit_PX add.assoc)
qed

lemma leaf_page_cong: "drop_bit 12 v = drop_bit 12 w \<Longrightarrow> leaf m root v = leaf m root w"
  unfolding leaf_def by (simp only: PX_cong[of v w])

lemma MAXVA_cong: "drop_bit 12 v = drop_bit 12 w \<Longrightarrow> v < MAXVA \<longleftrightarrow> w < MAXVA"
proof -
  have "v < MAXVA \<longleftrightarrow> unat (drop_bit 12 v) < 2 ^ 26" for v :: uint64
    by (simp add: word_less_nat_alt MAXVA_def unat_drop_bit less_mult_imp_div_less div_less_iff_less_mult)
  then show "drop_bit 12 v = drop_bit 12 w \<Longrightarrow> v < MAXVA \<longleftrightarrow> w < MAXVA" by simp
qed

lemma aligned_PTE2PA: "aligned 12 (PTE2PA v)"
  by (simp add: aligned_def PTE2PA_def) (simp add: bit_eq_iff bit_simps)

lemma walkaddr_user:
  "walkaddr root (PGROUNDDOWN w) s = Inr (if user_ok (mem s) root w then PTE2PA (leaf (mem s) root w) else 0)"
  using leaf_page_cong[OF drop_bit_PGROUNDDOWN, of "mem s" root w] MAXVA_cong[OF drop_bit_PGROUNDDOWN, of w]
  by (simp add: walkaddr_leaf user_ok_def)

section \<open>Within one page\<close>

definition page_rest :: "uint64 \<Rightarrow> nat" where
  "page_rest w = unat (PGSIZE - (w - PGROUNDDOWN w))"

lemma page_offset: "unat (w - PGROUNDDOWN w) = unat w mod 4096"
proof -
  have "unat (w - PGROUNDDOWN w) = unat w - unat (PGROUNDDOWN w)"
    by (rule unat_sub) (simp add: word_le_nat_alt unat_PGROUNDDOWN)
  then show ?thesis by (simp add: unat_PGROUNDDOWN minus_div_mult_eq_mod)
qed

lemma page_rest: "page_rest w = 4096 - unat w mod 4096"
proof -
  have "w - PGROUNDDOWN w \<le> PGSIZE" using page_offset_small[of w] by (simp add: PGSIZE_def word_le_nat_alt)
  then have "page_rest w = unat PGSIZE - unat (w - PGROUNDDOWN w)" unfolding page_rest_def by (rule unat_sub)
  then show ?thesis by (simp add: page_offset PGSIZE_def)
qed

lemma page_rest_bounds: "0 < page_rest w" "page_rest w \<le> 4096"
  by (simp_all add: page_rest)

lemma page_next: "w + of_nat (page_rest w) = PGROUNDDOWN w + PGSIZE"
  by (simp add: page_rest_def)

lemma same_page_within:
  assumes "i < page_rest w"
  shows "drop_bit 12 (w + of_nat i) = drop_bit 12 w"
proof -
  have i: "i + unat w mod 4096 < 4096" using assms by (simp add: page_rest)
  have "of_nat i + (w - PGROUNDDOWN w) = (of_nat (i + unat w mod 4096) :: uint64)"
    unfolding page_offset[of w, symmetric] by simp
  then have eq: "w + of_nat i = PGROUNDDOWN w + of_nat (i + unat w mod 4096)" by (simp add: algebra_simps)
  have "drop_bit 12 (PGROUNDDOWN w + of_nat (i + unat w mod 4096)) = drop_bit 12 (PGROUNDDOWN w)"
    using aligned_offset(1)[OF aligned_round(2) drop_bit_of_nat[of "i + unat w mod 4096" 12]] i by simp
  then show ?thesis by (simp only: eq drop_bit_PGROUNDDOWN)
qed

lemma user_within:
  assumes "i < page_rest w"
  shows "user_ok m root (w + of_nat i) = user_ok m root w"
    and "user_pa m root (w + of_nat i) = user_pa m root w + of_nat i"
proof -
  note d = same_page_within[OF assms]
  show "user_ok m root (w + of_nat i) = user_ok m root w"
    by (simp only: user_ok_def leaf_page_cong[OF d] MAXVA_cong[OF d])
  have "PGROUNDDOWN (w + of_nat i) = PGROUNDDOWN w"
    using PGROUNDDOWN_same_page[OF aligned_round(2), of "w + of_nat i" w] d by (simp add: drop_bit_PGROUNDDOWN)
  then show "user_pa m root (w + of_nat i) = user_pa m root w + of_nat i"
    by (simp add: user_pa_def leaf_page_cong[OF d])
qed

lemma all_less_split:
  fixes n :: nat
  assumes "k \<le> n"
  shows "(\<forall>i < n. P i) \<longleftrightarrow> (\<forall>i < k. P i) \<and> (\<forall>i < n - k. P (k + i))"
proof -
  have "P i" if "\<forall>i < k. P i" "\<forall>i < n - k. P (k + i)" "i < n" for i
    using that(1,3) that(2)[rule_format, of "i - k"] by (cases "i < k") auto
  with assms show ?thesis by auto
qed

text \<open>A range of \<open>n\<close> bytes from \<open>w\<close> on, cut after its first page.\<close>

lemma range_ok_split:
  assumes "k = min (page_rest w) n" and "0 < n"
  shows "(\<forall>i < n. user_ok m root (w + of_nat i)) \<longleftrightarrow>
    user_ok m root w \<and> (\<forall>i < n - k. user_ok m root (PGROUNDDOWN w + PGSIZE + of_nat i))"
proof (cases "n \<le> page_rest w")
  case True
  with assms user_within(1)[of _ w m root] show ?thesis by auto
next
  case False
  with assms have k: "k = page_rest w" "k < n" by auto
  have shift: "PGROUNDDOWN w + PGSIZE + of_nat i = w + of_nat (k + i)" for i
    using page_next[of w] by (simp add: k(1) algebra_simps)
  have "(\<forall>i < n. user_ok m root (w + of_nat i)) \<longleftrightarrow>
      (\<forall>i < k. user_ok m root (w + of_nat i)) \<and> (\<forall>i < n - k. user_ok m root (w + of_nat (k + i)))"
    by (rule all_less_split) (use k(2) in simp)
  also have "(\<forall>i < k. user_ok m root (w + of_nat i)) \<longleftrightarrow> user_ok m root w"
    using user_within(1)[of _ w m root] page_rest_bounds[of w] by (auto simp: k(1))
  finally show ?thesis by (simp add: shift)
qed

section \<open>copyin\<close>

definition uread_range :: "bytemem \<Rightarrow> uint64 \<Rightarrow> uint64 \<Rightarrow> nat \<Rightarrow> uint8 list" where
  "uread_range m root w n = map (\<lambda>i. uread m root (w + of_nat i)) [0..<n]"

lemma load_page_part: "k \<le> page_rest w \<Longrightarrow> load_bytes m (user_pa m root w) k = uread_range m root w k"
  using user_within(2)[of _ w m root] by (auto simp: load_bytes_def uread_range_def uread_def)

lemma uread_range_split:
  assumes "k = min (page_rest w) n"
  shows "uread_range m root w n = uread_range m root w k @ uread_range m root (PGROUNDDOWN w + PGSIZE) (n - k)"
proof (cases "n \<le> page_rest w")
  case True
  with assms show ?thesis by (simp add: uread_range_def)
next
  case False
  with assms have k: "k = page_rest w" "k < n" by auto
  have "[0..<n] = [0..<k] @ map ((+) k) [0..<n - k]" using k(2)
    by (intro nth_equalityI) (auto simp: nth_append)
  moreover have "w + of_nat (k + i) = PGROUNDDOWN w + PGSIZE + of_nat i" for i
    by (simp add: k(1) page_next[of w, symmetric])
  ultimately show ?thesis unfolding uread_range_def by (simp add: o_def del: of_nat_add)
qed

text \<open>
  \<open>copyin\<close> succeeds exactly on ranges of which every byte is mapped for the user, and then returns
  the bytes the user program sees there, across any number of pages; otherwise it returns -1.
\<close>

lemma copyin_spec:
  "\<exists>r bs. copyin root w n s = Inr (r, bs) \<and> (r = 0 \<or> r = - 1) \<and>
     (r = 0 \<longleftrightarrow> (\<forall>i < n. user_ok (mem s) root (w + of_nat i))) \<and> (r = 0 \<longrightarrow> bs = uread_range (mem s) root w n)"
proof (induction root w n s rule: copyin.induct)
  case (1 root w n s)
  show ?case
  proof (cases "n = 0 \<or> \<not> user_ok (mem s) root w")
    case True
    then show ?thesis
      by (subst copyin.simps) (auto simp: walkaddr_user uread_range_def Let_def intro: exI[of _ 0])
  next
    case False
    let ?k = "min (page_rest w) n"
    have ne: "n \<noteq> 0" and pa: "PTE2PA (leaf (mem s) root w) \<noteq> 0" using False by (simp_all add: user_ok_def)
    obtain r bs where ih: "copyin root (PGROUNDDOWN w + PGSIZE) (n - ?k) s = Inr (r, bs)" "r = 0 \<or> r = - 1"
        "r = 0 \<longleftrightarrow> (\<forall>i < n - ?k. user_ok (mem s) root (PGROUNDDOWN w + PGSIZE + of_nat i))"
        "r = 0 \<longrightarrow> bs = uread_range (mem s) root (PGROUNDDOWN w + PGSIZE) (n - ?k)"
      using "1.IH"[OF ne refl pa refl] unfolding page_rest_def by blast
    have "copyin root w n s = Inr (r, uread_range (mem s) root w ?k @ bs)"
      using False ih(1) pa load_page_part[of ?k w "mem s" root]
      by (subst copyin.simps) (simp add: walkaddr_user Let_def page_rest_def[symmetric] user_pa_def)
    moreover have "(\<forall>i < n. user_ok (mem s) root (w + of_nat i)) \<longleftrightarrow> r = 0"
      using range_ok_split[OF refl, of n "mem s" root w] ne False ih(3) by simp
    ultimately show ?thesis using ih(2,4) uread_range_split[OF refl, of "mem s" root w n] by auto
  qed
qed

section \<open>copyout\<close>

text \<open>Writes outside the pages of a table do not change it.\<close>

definition in_table :: "bytemem \<Rightarrow> uint64 \<Rightarrow> uint64 \<Rightarrow> bool" where
  "in_table m root a \<longleftrightarrow> (\<exists>c q. tab m root c = Some q \<and> drop_bit 12 a = drop_bit 12 q)"

lemma entry_cong:
  assumes "aligned 12 q" and "idx i" and "\<And>a. drop_bit 12 a = drop_bit 12 q \<Longrightarrow> m' a = m a"
  shows "entry m' q i = entry m q i"
  unfolding entry_def pte_at_def
  by (rule load64_cong) (use page_word(2)[OF assms(1) idx_offset(1,2)[OF assms(2)]] assms(3) in blast)

lemma table_cong:
  assumes wf: "pt_wf L m root F" and eq: "\<And>a. in_table m root a \<Longrightarrow> m' a = m a"
  shows "tab m' root = tab m root" and "leaf m' root = leaf m root"
proof -
  have en: "entry m' q i = entry m q i" if "tab m root c = Some q" "idx i" for c q i
    using pt_wfD(3)[OF wf that(1)] that eq by (intro entry_cong) (auto simp: in_table_def)
  then have s: "sub m' (tab m root c) i = sub m (tab m root c) i" for c i
    by (cases "tab m root c") (simp_all add: sub_def child_def)
  have r: "tab m' root (P1 i) = tab m root (P1 i)" for i using s[of PRoot] by simp
  have "tab m' root c = tab m root c" for c
  proof (cases c)
    case (P0 i j)
    with r[of i] s[of "P1 i" j] show ?thesis by simp
  qed (use r in simp_all)
  then show tb: "tab m' root = tab m root" by blast
  show "leaf m' root = leaf m root"
    by (rule ext) (use en in \<open>auto simp: leaf_def tb simp del: tab.simps split: option.splits\<close>)
qed

text \<open>The pages users can access are not pages of the table, and no two addresses share a byte.\<close>

definition user_frames :: "bytemem \<Rightarrow> uint64 \<Rightarrow> bool" where
  "user_frames m root \<longleftrightarrow> (\<forall>u. user_ok m root u \<longrightarrow> \<not> in_table m root (user_pa m root u)) \<and>
     (\<forall>u v. user_ok m root u \<longrightarrow> user_ok m root v \<longrightarrow> user_pa m root u = user_pa m root v \<longrightarrow> u = v)"

definition same_table :: "uint64 \<Rightarrow> bytemem \<Rightarrow> bytemem \<Rightarrow> bool" where
  "same_table root m m' \<longleftrightarrow> tab m' root = tab m root \<and> leaf m' root = leaf m root"

lemma same_tableD:
  assumes "same_table root m m'"
  shows "user_ok m' root = user_ok m root" "user_pa m' root = user_pa m root" "in_table m' root = in_table m root"
    "user_frames m' root = user_frames m root" "pt_wf L m' root F = pt_wf L m root F"
  using assms by (simp_all add: same_table_def user_ok_def user_pa_def in_table_def user_frames_def pt_wf_def fun_eq_iff
      del: tab.simps)

text \<open>Writing part of one user page.\<close>

lemma store_user:
  assumes wf: "pt_wf L m root F" and fr: "user_frames m root" and ok: "user_ok m root w" and k: "length bs \<le> page_rest w"
  defines "m' \<equiv> store_bytes m (user_pa m root w) bs"
  shows "same_table root m m'"
    and "user_ok m root u \<Longrightarrow> uread m' root u = (if unat (u - w) < length bs then bs ! unat (u - w) else uread m root u)"
    and "(\<And>u. user_ok m root u \<Longrightarrow> user_pa m root u \<noteq> a) \<Longrightarrow> m' a = m a"
proof -
  have len: "length bs < 2 ^ 64" using k page_rest_bounds(2)[of w] by simp
  have pa: "user_pa m root w + of_nat i = user_pa m root (w + of_nat i)" "user_ok m root (w + of_nat i)"
    if "i < length bs" for i using that k ok user_within[of i w m root] by simp_all
  show other: "m' a = m a" if "\<And>u. user_ok m root u \<Longrightarrow> user_pa m root u \<noteq> a" for a
    unfolding m'_def by (rule store_bytes_other[OF len]) (use that pa in metis)
  show st: "same_table root m m'"
    unfolding same_table_def by (intro conjI table_cong[OF wf] other) (use fr in \<open>auto simp: user_frames_def\<close>)
  show "uread m' root u = (if unat (u - w) < length bs then bs ! unat (u - w) else uread m root u)" if u: "user_ok m root u"
  proof (cases "unat (u - w) < length bs")
    case True
    then have "user_pa m root u = user_pa m root w + of_nat (unat (u - w))" using pa(1)[OF True] by simp
    then have "user_pa m root u - user_pa m root w = u - w" by simp
    with True show ?thesis by (simp add: uread_def same_tableD[OF st]) (simp add: m'_def store_bytes_apply[OF len])
  next
    case False
    have "m' (user_pa m root u) = m (user_pa m root u)"
      unfolding m'_def
    proof (rule store_bytes_other[OF len])
      fix i assume i: "i < length bs"
      show "user_pa m root u \<noteq> user_pa m root w + of_nat i"
      proof
        assume "user_pa m root u = user_pa m root w + of_nat i"
        then have "u = w + of_nat i" using fr u pa[OF i] by (simp add: user_frames_def)
        with False i len show False by (simp add: unat_of_nat)
      qed
    qed
    with False show ?thesis by (simp add: uread_def same_tableD[OF st])
  qed
qed

lemma range_ok_length:
  assumes "\<forall>i < n. user_ok m root (w + of_nat i)"
  shows "n \<le> 2 ^ 38"
proof (rule ccontr)
  assume n: "\<not> n \<le> 2 ^ 38"
  then have "w < MAXVA" using assms[rule_format, of 0] by (simp add: user_ok_def)
  moreover have "unat (MAXVA - w) \<le> 2 ^ 38"
    using unat_sub[of w MAXVA] \<open>w < MAXVA\<close> by (simp add: less_imp_le MAXVA_def)
  with n have "user_ok m root (w + of_nat (unat (MAXVA - w)))" by (intro assms[rule_format]) simp
  ultimately show False by (simp add: user_ok_def)
qed

text \<open>
  \<open>copied\<close>: the user program sees \<open>src\<close> at \<open>w\<close> and everything else as before. \<open>frames_only\<close>: no mapping
  and no byte that is not the user's has changed.
\<close>

definition copied :: "uint64 \<Rightarrow> uint64 \<Rightarrow> uint8 list \<Rightarrow> bytemem \<Rightarrow> bytemem \<Rightarrow> bool" where
  "copied root w src m m' \<longleftrightarrow> (\<forall>u. user_ok m root u \<longrightarrow>
     uread m' root u = (if unat (u - w) < length src then src ! unat (u - w) else uread m root u))"

definition frames_only :: "uint64 \<Rightarrow> bytemem \<Rightarrow> bytemem \<Rightarrow> bool" where
  "frames_only root m m' \<longleftrightarrow> same_table root m m' \<and> (\<forall>a. (\<forall>u. user_ok m root u \<longrightarrow> user_pa m root u \<noteq> a) \<longrightarrow> m' a = m a)"

lemma frames_only_trans: "frames_only root m1 m2 \<Longrightarrow> frames_only root m2 m3 \<Longrightarrow> frames_only root m1 m3"
  using same_tableD[of root m1 m2] by (auto simp: frames_only_def same_table_def)

lemma copied_split:
  assumes "copied root w (take k src) m m1" and "copied root (w + of_nat k) (drop k src) m1 m2"
    and "same_table root m m1" and "k \<le> length src" and "length src \<le> 2 ^ 38"
  shows "copied root w src m m2"
  unfolding copied_def
proof (intro allI impI)
  fix u assume u: "user_ok m root u"
  have k: "unat (of_nat k :: uint64) = k" using assms(4,5) by (simp add: unat_of_nat)
  have 1: "uread m1 root u = (if unat (u - w) < k then src ! unat (u - w) else uread m root u)"
    using assms(1,4) u by (simp add: copied_def)
  have 2: "uread m2 root u = (if unat (u - (w + of_nat k)) < length src - k then src ! (k + unat (u - (w + of_nat k)))
      else uread m1 root u)"
    using assms(2-4) u by (simp add: copied_def same_tableD)
  show "uread m2 root u = (if unat (u - w) < length src then src ! unat (u - w) else uread m root u)"
  proof (cases "unat (u - w) < k")
    case True
    then have "u - w < of_nat k" using k by (simp add: word_less_nat_alt)
    then have "unat (u - w - of_nat k) = 2 ^ 64 + unat (u - w) - k"
      using k True by (simp add: unat_sub_if_size word_le_nat_alt word_size)
    then have "\<not> unat (u - (w + of_nat k)) < length src - k" using assms(4,5) True by (simp add: diff_diff_eq)
    with 1 2 True assms(4) show ?thesis by simp
  next
    case False
    then have "unat (u - (w + of_nat k)) = unat (u - w) - k"
      using k unat_sub[of "of_nat k" "u - w"] by (simp add: word_le_nat_alt diff_diff_eq)
    with 1 2 False assms(4) show ?thesis by auto
  qed
qed

text \<open>
  \<open>copyout\<close> succeeds exactly on ranges of which every byte is mapped for the user. After it the
  user program sees the bytes of the buffer there and what it saw before everywhere else. Even when it
  fails half way it changes no mapping and no byte that is not the user's.
\<close>

lemma copyout_spec:
  assumes "pt_wf L (mem s) root F" and "user_frames (mem s) root"
  shows "\<exists>r m'. copyout root w src s = Inr (r, s\<lparr>mem := m'\<rparr>) \<and> (r = 0 \<or> r = - 1) \<and> frames_only root (mem s) m' \<and>
    (r = 0 \<longleftrightarrow> (\<forall>i < length src. user_ok (mem s) root (w + of_nat i))) \<and> (r = 0 \<longrightarrow> copied root w src (mem s) m')"
  using assms
proof (induction root w src s rule: copyout.induct)
  case (1 root w src s)
  show ?case
  proof (cases "src = [] \<or> \<not> user_ok (mem s) root w")
    case True
    then show ?thesis
      by (subst copyout.simps)
        (auto simp: walkaddr_user Let_def copied_def frames_only_def same_table_def intro!: exI[of _ "mem s"] exI[of _ 0])
  next
    case False
    let ?k = "min (page_rest w) (length src)"
    let ?s = "s\<lparr>mem := store_bytes (mem s) (user_pa (mem s) root w) (take ?k src)\<rparr>"
    have ne: "src \<noteq> []" and ok: "user_ok (mem s) root w" and pa: "PTE2PA (leaf (mem s) root w) \<noteq> 0"
      using False by (simp_all add: user_ok_def)
    note su = store_user[OF "1.prems" ok, of "take ?k src"]
    have st: "same_table root (mem s) (mem ?s)" using su(1) by simp
    have fo: "frames_only root (mem s) (mem ?s)" using su(3) st by (simp add: frames_only_def)
    have c1: "copied root w (take ?k src) (mem s) (mem ?s)" using su(2) by (simp add: copied_def)
    have "pt_wf L (mem ?s) root F" "user_frames (mem ?s) root" using "1.prems" same_tableD(4,5)[OF st] by blast+
    note "1.IH"[OF ne refl pa refl, folded user_pa_def page_rest_def, OF this]
    then obtain r m' where ih: "copyout root (PGROUNDDOWN w + PGSIZE) (drop ?k src) ?s = Inr (r, ?s\<lparr>mem := m'\<rparr>)"
        "r = 0 \<or> r = - 1" "frames_only root (mem ?s) m'"
        "r = 0 \<longleftrightarrow> (\<forall>i < length src - ?k. user_ok (mem s) root (PGROUNDDOWN w + PGSIZE + of_nat i))"
        "r = 0 \<longrightarrow> copied root (PGROUNDDOWN w + PGSIZE) (drop ?k src) (mem ?s) m'"
      unfolding same_tableD(1)[OF st] length_drop by blast
    have co: "copyout root w src s = Inr (r, s\<lparr>mem := m'\<rparr>)"
      using ne ok ih(1) pa
      by (subst copyout.simps) (simp add: walkaddr_user Let_def page_rest_def[symmetric] user_pa_def)
    have rg: "(\<forall>i < length src. user_ok (mem s) root (w + of_nat i)) \<longleftrightarrow> r = 0"
      using range_ok_split[OF refl, of "length src" "mem s" root w] ne ok ih(4) by simp
    have "copied root w src (mem s) m'" if "r = 0"
    proof (cases "length src \<le> page_rest w")
      case True
      with ih(5) that c1 same_tableD[OF st] show ?thesis by (simp add: copied_def)
    next
      case False
      then have "?k = page_rest w" by simp
      with copied_split[OF c1 _ st _ range_ok_length] ih(5) that rg page_next[of w] show ?thesis by simp
    qed
    with co ih(2,3) rg frames_only_trans[OF fo] show ?thesis by blast
  qed
qed

text \<open>
  C13. What \<open>copyout\<close> wrote, \<open>copyin\<close> reads back. \<open>copyout\<close> returns 0 exactly when every byte of the
  range is mapped for the user, and then \<open>copyin\<close> of the range returns the buffer, while every other
  user byte is what it was; otherwise it returns -1. In either case no mapping and no byte that is not
  the user's changes.
\<close>

theorem copyout_copyin:
  assumes "pt_wf L (mem s) root F" and "user_frames (mem s) root"
  shows "\<exists>r s'. copyout root w src s = Inr (r, s') \<and> frames_only root (mem s) (mem s') \<and>
    (if \<forall>i < length src. user_ok (mem s) root (w + of_nat i)
     then r = 0 \<and> copyin root w (length src) s' = Inr (0, src) \<and>
       (\<forall>u. user_ok (mem s) root u \<longrightarrow> length src \<le> unat (u - w) \<longrightarrow> uread (mem s') root u = uread (mem s) root u)
     else r = - 1)"
proof -
  obtain r m' where co: "copyout root w src s = Inr (r, s\<lparr>mem := m'\<rparr>)" "r = 0 \<or> r = - 1" "frames_only root (mem s) m'"
      "r = 0 \<longleftrightarrow> (\<forall>i < length src. user_ok (mem s) root (w + of_nat i))" "r = 0 \<longrightarrow> copied root w src (mem s) m'"
    using copyout_spec[OF assms, of w src] by blast
  have "copyin root w (length src) (s\<lparr>mem := m'\<rparr>) = Inr (0, src)" if ok: "\<forall>i < length src. user_ok (mem s) root (w + of_nat i)"
  proof -
    have uo: "user_ok m' root = user_ok (mem s) root" using co(3) same_tableD by (auto simp: frames_only_def)
    have "unat (of_nat i :: uint64) = i" if "i < length src" for i
      using that range_ok_length[OF ok] by (simp add: unat_of_nat)
    then have "uread_range m' root w (length src) = src"
      using ok co(4,5) by (intro nth_equalityI) (auto simp: uread_range_def copied_def)
    with copyin_spec[of root w "length src" "s\<lparr>mem := m'\<rparr>"] ok show ?thesis by (auto simp: uo)
  qed
  with co show ?thesis by (auto simp: copied_def)
qed

section \<open>uvmunmap\<close>

text \<open>A mapped page whose frame can be given back: an allocatable page, not free and not in the table.\<close>

definition owned :: "layout \<Rightarrow> bytemem \<Rightarrow> uint64 \<Rightarrow> uint64 list \<Rightarrow> uint64 \<Rightarrow> bool" where
  "owned L m root xs a \<longleftrightarrow> a < MAXVA \<and> aligned 12 a \<and> leaf m root a AND PTE_V \<noteq> 0 \<and> PTE_FLAGS (leaf m root a) \<noteq> PTE_V \<and>
     is_page L (PTE2PA (leaf m root a)) \<and> PTE2PA (leaf m root a) \<notin> set xs \<and> PTE2PA (leaf m root a) \<noteq> 0 \<and>
     \<not> in_table m root (PTE2PA (leaf m root a))"

definition frame :: "bytemem \<Rightarrow> uint64 \<Rightarrow> uint64 \<Rightarrow> uint64" where
  "frame m root a = PTE2PA (leaf m root a)"

lemma pt_wf_more: "pt_wf L m root F \<Longrightarrow> \<not> in_table m root p \<Longrightarrow> pt_wf L m root (insert p F)"
  by (auto simp: pt_wf_def in_table_def simp del: tab.simps)

lemma unmap_page_frees:
  assumes inv: "kmem_inv L s xs" and wf: "pt_wf L (mem s) root (set xs)" and ow: "owned L (mem s) root xs a"
  shows "\<exists>s'. unmap_page L root True a s = Inr s' \<and> kmem_inv L s' (frame (mem s) root a # xs) \<and>
    pt_wf L (mem s') root (set (frame (mem s) root a # xs)) \<and> tab (mem s') root = tab (mem s) root \<and>
    (\<forall>w < MAXVA. leaf (mem s') root w = (if PGROUNDDOWN w = a then 0 else leaf (mem s) root w))"
proof -
  let ?p = "frame (mem s) root a"
  have al: "a < MAXVA" "aligned 12 a" and p: "is_page L ?p" "?p \<noteq> 0" "?p \<notin> set xs" "\<not> in_table (mem s) root ?p"
    using ow by (simp_all add: owned_def frame_def)
  obtain s1 where s1: "kfree L ?p s = Inr s1" "kmem_inv L s1 (?p # xs)" "same_but ?p (mem s) (mem s1)"
    using kmem.free_good[OF inv p(1-3)] by blast
  have "mem s1 b = mem s b" if "in_table (mem s) root b" for b
  proof -
    have "drop_bit 12 b \<noteq> drop_bit 12 ?p" using that p(4) unfolding in_table_def by metis
    with s1(3) show ?thesis by (simp add: same_but_def)
  qed
  note tc = table_cong[OF wf this]
  have wf1: "pt_wf L (mem s1) root (set (?p # xs))"
    using pt_wf_more[OF wf p(4)] tc(1) by (simp add: pt_wf_def)
  have "leaf (mem s) root a \<noteq> 0" using ow by (auto simp: owned_def)
  then obtain pte where sl: "slot (mem s) root a = Some pte" "load64 (mem s) pte = leaf (mem s) root a"
    by (auto simp: leaf_slot split: option.splits)
  have sl1: "slot (mem s1) root a = Some pte" using sl(1) tc(1) by (simp add: slot_def)
  let ?s' = "s1\<lparr>mem := store64 (mem s1) pte 0\<rparr>"
  have "unmap_page L root True a s = Inr ?s'"
    using ow s1(1) sl by (simp add: unmap_page_def walk_no_alloc owned_def frame_def Let_def)
  moreover note mapped_store[OF s1(2) wf1 al(1) sl1, of 0]
  moreover have "drop_bit 12 w = drop_bit 12 a \<longleftrightarrow> PGROUNDDOWN w = a" for w
    using PGROUNDDOWN_same_page[OF al(2), of w] drop_bit_PGROUNDDOWN[of w] by metis
  moreover have "tab (mem ?s') root = tab (mem s) root"
    using leaf_store(1)[OF wf1, of "PX 2 a" "PX 1 a" _ "PX 0 a" 0] sl1 tc(1) by (auto simp: slot_def simp del: tab.simps)
  ultimately show ?thesis by (intro exI[of _ ?s']) (simp add: mapped_def tc(2))
qed

lemma unmap_pages_free:
  assumes "kmem_inv L s xs" and "pt_wf L (mem s) root (set xs)"
    and "\<forall>a \<in> set as. owned L (mem s) root xs a" and "distinct as" and "distinct (map (frame (mem s) root) as)"
  shows "\<exists>s'. foldR (unmap_page L root True) as s = Inr s' \<and> kmem_inv L s' (rev (map (frame (mem s) root) as) @ xs) \<and>
    pt_wf L (mem s') root (set (rev (map (frame (mem s) root) as) @ xs)) \<and>
    (\<forall>w < MAXVA. leaf (mem s') root w = (if PGROUNDDOWN w \<in> set as then 0 else leaf (mem s) root w))"
  using assms
proof (induction as arbitrary: s xs)
  case Nil
  then show ?case by simp
next
  case (Cons a as)
  have ow: "owned L (mem s) root xs a" using Cons.prems(3) by simp
  obtain s1 where s1: "unmap_page L root True a s = Inr s1" "kmem_inv L s1 (frame (mem s) root a # xs)"
      "pt_wf L (mem s1) root (set (frame (mem s) root a # xs))" "tab (mem s1) root = tab (mem s) root"
      "\<And>w. w < MAXVA \<Longrightarrow> leaf (mem s1) root w = (if PGROUNDDOWN w = a then 0 else leaf (mem s) root w)"
    using unmap_page_frees[OF Cons.prems(1,2) ow] by blast
  have lf: "leaf (mem s1) root b = leaf (mem s) root b" if "b \<in> set as" for b
  proof -
    have "b < MAXVA" "aligned 12 b" using that Cons.prems(3) by (auto simp: owned_def)
    moreover have "b \<noteq> a" using that Cons.prems(4) by auto
    ultimately show ?thesis using s1(5)[of b] PGROUNDDOWN_same_page[of b b] by simp
  qed
  then have fr: "map (frame (mem s1) root) as = map (frame (mem s) root) as" by (simp add: frame_def)
  have "\<forall>b \<in> set as. owned L (mem s1) root (frame (mem s) root a # xs) b"
  proof
    fix b assume b: "b \<in> set as"
    then have "frame (mem s) root b \<noteq> frame (mem s) root a" using Cons.prems(5) by (auto simp: image_iff)
    with b Cons.prems(3) lf[OF b] s1(4) show "owned L (mem s1) root (frame (mem s) root a # xs) b"
      by (simp add: owned_def in_table_def frame_def del: tab.simps)
  qed
  from Cons.IH[OF s1(2,3) this] Cons.prems(4,5) fr obtain s' where
    s': "foldR (unmap_page L root True) as s1 = Inr s'"
      "kmem_inv L s' (rev (map (frame (mem s) root) as) @ frame (mem s) root a # xs)"
      "pt_wf L (mem s') root (set (rev (map (frame (mem s) root) as) @ frame (mem s) root a # xs))"
      "\<forall>w < MAXVA. leaf (mem s') root w = (if PGROUNDDOWN w \<in> set as then 0 else leaf (mem s1) root w)" by auto
  with s1(1,5) show ?case by auto
qed

text \<open>
  C15. \<open>uvmunmap\<close> with \<open>do_free\<close> gives every frame of the range back to the allocator, once each, and
  leaves the range unmapped and every other mapping as it was; no frame is lost and none freed twice.
\<close>

theorem uvmunmap_frees:
  assumes "kmem_inv L s xs" and "pt_wf L (mem s) root (set xs)" and "va mod PGSIZE = 0"
    and "as = page_range va (va + npages * PGSIZE)" and "\<forall>a \<in> set as. owned L (mem s) root xs a"
    and "distinct (map (frame (mem s) root) as)"
  shows "\<exists>s'. uvmunmap L root va npages True s = Inr s' \<and> kmem_inv L s' (rev (map (frame (mem s) root) as) @ xs) \<and>
    (\<forall>w < MAXVA. leaf (mem s') root w = (if PGROUNDDOWN w \<in> set as then 0 else leaf (mem s) root w))"
proof -
  have "distinct as" using assms(6) by (simp add: distinct_map)
  from unmap_pages_free[OF assms(1,2,5) this assms(6)] assms(3,4) show ?thesis by (auto simp: uvmunmap_def)
qed

section \<open>Examples\<close>

lemma demo_frame: "w < MAXVA \<Longrightarrow> drop_bit 12 w = 0 \<Longrightarrow> PTE2PA (leaf (mem demo_pt) demo_root w) = 0x80033000"
  by (simp add: demo_leaf PTE2PA_def PA2PTE_def PTE_V_def PTE_R_def PTE_W_def PTE_U_def)

lemma demo_user_ok: "user_ok (mem demo_pt) demo_root w \<longleftrightarrow> drop_bit 12 w = 0"
proof -
  have "drop_bit 12 w = 0 \<Longrightarrow> w < MAXVA" by (simp add: drop_bit_zero_iff word_less_nat_alt MAXVA_def)
  then show ?thesis
    by (cases "drop_bit 12 w = 0")
      (auto simp: user_ok_def demo_frame demo_leaf PA2PTE_def PTE2PA_def PTE_V_def PTE_R_def PTE_W_def PTE_U_def)
qed

lemma demo_user_pa: "drop_bit 12 w = 0 \<Longrightarrow> user_pa (mem demo_pt) demo_root w = 0x80033000 + w"
proof -
  assume w: "drop_bit 12 w = 0"
  then have "user_ok (mem demo_pt) demo_root w" by (simp add: demo_user_ok)
  moreover have "PGROUNDDOWN w = 0" using PGROUNDDOWN_same_page[of 0 w] w by (simp add: aligned_def)
  ultimately show ?thesis using w by (simp add: user_pa_def demo_frame user_ok_def)
qed

lemma demo_in_table:
  assumes "drop_bit 12 w = 0"
  shows "\<not> in_table (mem demo_pt) demo_root (0x80033000 + w)"
proof -
  have "drop_bit 12 (0x80033000 + w) = (drop_bit 12 0x80033000 :: uint64)"
    by (rule aligned_offset(1)[OF _ assms]) (simp add: aligned_def)
  then show ?thesis by (auto simp: in_table_def demo_tab simp del: tab.simps split: if_splits)
qed

theorem copyout_copyin_witness:
  "\<exists>s'. copyout demo_root 8 [1, 2, 3] demo_pt = Inr (0, s') \<and> copyin demo_root 8 3 s' = Inr (0, [1, 2, 3])"
proof -
  have "user_frames (mem demo_pt) demo_root"
    by (auto simp: user_frames_def demo_user_ok demo_user_pa demo_in_table)
  moreover have "\<forall>i < length [1, 2, 3 :: uint8]. user_ok (mem demo_pt) demo_root (8 + of_nat i)"
    by (auto simp: demo_user_ok drop_bit_zero_iff unat_word_ariths unat_of_nat)
  ultimately show ?thesis using copyout_copyin[OF demo_pt_wf, of "{}" 8 "[1, 2, 3]"] by (auto simp: numeral_3_eq_3)
qed

theorem uvmunmap_frees_witness:
  "\<exists>s'. uvmunmap demo_layout demo_root 0 1 True demo_pt = Inr s' \<and> kmem_inv demo_layout s' [0x80033000] \<and>
     leaf (mem s') demo_root 8 = 0"
proof -
  have as: "[0] = page_range 0 (0 + 1 * PGSIZE)" by (simp add: page_range_def PGSIZE_def)
  have fr: "frame (mem demo_pt) demo_root 0 = 0x80033000" unfolding frame_def by (rule demo_frame) (simp_all add: MAXVA_def)
  have "owned demo_layout (mem demo_pt) demo_root [] 0"
    unfolding owned_def fr[unfolded frame_def] using demo_in_table[of 0]
    by (simp add: demo_leaf MAXVA_def aligned_def is_page_def demo_layout_def PHYSTOP_def KERNBASE_def PTE_FLAGS_def PA2PTE_def
        PTE_V_def PTE_R_def PTE_W_def PTE_U_def)
  moreover have "PGROUNDDOWN 8 = 0" by (simp add: PGROUNDDOWN_def PGSIZE_def)
  ultimately show ?thesis
    using uvmunmap_frees[OF demo_kmem demo_pt_wf _ as, simplified] fr by (auto simp: MAXVA_def)
qed

end
