(* ===== verification/KState.thy ===== *)
theory KState
  imports ProcOps Vm
begin

text \<open>
  The state of the whole kernel as one process runs in it, and sequencing of kernel code over it.

  \<open>vst\<close> adds memory and the kernel page table to the process table; the theories of the device
  drivers and of the file system extend it further, each by the globals of its source files. What
  kernel code needs from outside itself is in the environment \<open>env\<close>: what runs while the process is
  switched out, the linker's symbols, the values the registers of the disk and interrupt controllers
  read as, what an uninitialised local variable holds, and the bound on the number of times a waiting
  loop goes to sleep.
\<close>

section \<open>Sequencing\<close>

type_synonym ('d, 'r) kprog = "'d kst \<Rightarrow> ('r \<times> 'd kst) res"

definition retS :: "'r \<Rightarrow> ('d, 'r) kprog" where
  "retS x s = Inr (x, s)"

definition failS :: "fault \<Rightarrow> ('d, 'r) kprog" where
  "failS e s = Inl e"

definition bindS :: "('d, 'a) kprog \<Rightarrow> ('a \<Rightarrow> ('d, 'b) kprog) \<Rightarrow> ('d, 'b) kprog" where
  "bindS m f s = bindR (m s) (\<lambda>(x, s). f x s)"

definition thenS :: "('d, 'a) kprog \<Rightarrow> ('d, 'b) kprog \<Rightarrow> ('d, 'b) kprog" where
  "thenS m n = bindS m (\<lambda>_. n)"

definition getD :: "('d \<Rightarrow> 'r) \<Rightarrow> ('d, 'r) kprog" where
  "getD f = (\<lambda>(h, d). Inr (f d, (h, d)))"

definition modD :: "('d \<Rightarrow> 'd) \<Rightarrow> ('d, unit) kprog" where
  "modD f = (\<lambda>(h, d). Inr ((), (h, f d)))"

text \<open>An operation on the data alone, one on the hart alone, and one without a result.\<close>

definition dataS :: "('d \<Rightarrow> ('r \<times> 'd) res) \<Rightarrow> ('d, 'r) kprog" where
  "dataS f = (\<lambda>(h, d). bindR (f d) (\<lambda>(x, d). Inr (x, (h, d))))"

definition hartS :: "(hst \<Rightarrow> ('r \<times> hst) res) \<Rightarrow> ('d, 'r) kprog" where
  "hartS f = (\<lambda>(h, d). bindR (f h) (\<lambda>(x, h). Inr (x, (h, d))))"

definition doS :: "('d kst \<Rightarrow> 'd kst res) \<Rightarrow> ('d, unit) kprog" where
  "doS f s = bindR (f s) (\<lambda>s. Inr ((), s))"

definition acquireS :: "lock \<Rightarrow> ('d, unit) kprog" where
  "acquireS lk = hartS (\<lambda>h. bindR (acquire lk h) (\<lambda>h. Inr ((), h)))"

definition releaseS :: "lock \<Rightarrow> ('d, unit) kprog" where
  "releaseS lk = hartS (\<lambda>h. bindR (release lk h) (\<lambda>h. Inr ((), h)))"

definition myprocS :: "('d, nat option) kprog" where
  "myprocS = hartS myproc"

text \<open>The current process where the code dereferences it.\<close>

definition curS :: "('d, nat) kprog" where
  "curS = bindS myprocS (\<lambda>me. case me of None \<Rightarrow> failS BadAccess | Some p \<Rightarrow> retS p)"

definition whenS :: "bool \<Rightarrow> ('d, unit) kprog \<Rightarrow> ('d, unit) kprog" where
  "whenS c m = (if c then m else retS ())"

text \<open>A pointer that may be null, dereferenced.\<close>

definition derefS :: "'a option \<Rightarrow> ('a \<Rightarrow> ('d, 'r) kprog) \<Rightarrow> ('d, 'r) kprog" where
  "derefS x f = (case x of None \<Rightarrow> failS BadAccess | Some a \<Rightarrow> f a)"

text \<open>Loops over a list of indices: to its end, or until the body returns a result.\<close>

primrec forS :: "'x list \<Rightarrow> ('x \<Rightarrow> ('d, unit) kprog) \<Rightarrow> ('d, unit) kprog" where
  "forS [] f = retS ()"
| "forS (x # xs) f = bindS (f x) (\<lambda>_. forS xs f)"

primrec searchS :: "'x list \<Rightarrow> ('x \<Rightarrow> ('d, 'r option) kprog) \<Rightarrow> ('d, 'r option) kprog" where
  "searchS [] f = retS None"
| "searchS (x # xs) f = bindS (f x) (\<lambda>r. case r of None \<Rightarrow> searchS xs f | Some y \<Rightarrow> retS (Some y))"

lemma retS_apply [simp]: "retS x s = Inr (x, s)" by (simp add: retS_def)
lemma failS_apply [simp]: "failS e s = Inl e" by (simp add: failS_def)
lemma getD_apply [simp]: "getD f (h, d) = Inr (f d, (h, d))" by (simp add: getD_def)
lemma modD_apply [simp]: "modD f (h, d) = Inr ((), (h, f d))" by (simp add: modD_def)
lemma dataS_apply [simp]: "dataS f (h, d) = bindR (f d) (\<lambda>(x, d). Inr (x, (h, d)))" by (simp add: dataS_def)
lemma hartS_apply [simp]: "hartS f (h, d) = bindR (f h) (\<lambda>(x, h). Inr (x, (h, d)))" by (simp add: hartS_def)
lemma bindS_Inr [simp]: "m s = Inr (x, s') \<Longrightarrow> bindS m f s = f x s'" by (simp add: bindS_def)
lemma bindS_Inl [simp]: "m s = Inl e \<Longrightarrow> bindS m f s = Inl e" by (simp add: bindS_def)
lemma thenS_Inr [simp]: "m s = Inr (x, s') \<Longrightarrow> thenS m n s = n s'" by (simp add: thenS_def)
lemma thenS_Inl [simp]: "m s = Inl e \<Longrightarrow> thenS m n s = Inl e" by (simp add: thenS_def)
lemma doS_Inr [simp]: "f s = Inr s' \<Longrightarrow> doS f s = Inr ((), s')" by (simp add: doS_def)
lemma whenS_simps [simp]: "whenS True m = m" "whenS False m = retS ()" by (simp_all add: whenS_def)
lemma derefS_simps [simp]: "derefS None f = failS BadAccess" "derefS (Some a) f = f a" by (simp_all add: derefS_def)

lemma bindS_eq_Inr: "bindS m f s = Inr r \<longleftrightarrow> (\<exists>x s'. m s = Inr (x, s') \<and> f x s' = Inr r)"
  by (cases "m s") (auto simp: bindS_def)

lemma acquireS_free: "lock_free lk h \<Longrightarrow> acquireS lk (h, d) = Inr ((), (locked lk h, d))"
  by (simp add: acquireS_def acquire_free)

lemma releaseS_locked: "hart_ok h \<Longrightarrow> lock_free lk h \<Longrightarrow> releaseS lk (locked lk h, d) = Inr ((), (settle h, d))"
  by (simp add: releaseS_def release_locked)

section \<open>Environment and state\<close>

record 'd env =
  e_swt :: "nat \<Rightarrow> 'd kst \<Rightarrow> 'd kst res"
  e_fuel :: nat
  e_layout :: layout
  e_mmio :: "uint64 \<Rightarrow> uint"
  e_junk :: uint

definition sleepS :: "'a pst_scheme env \<Rightarrow> chan \<Rightarrow> lock \<Rightarrow> ('a pst_scheme, unit) kprog" where
  "sleepS E ch lk = doS (sleep (e_swt E) ch lk)"

definition wakeupS :: "chan \<Rightarrow> ('a pst_scheme, unit) kprog" where
  "wakeupS ch = doS (wakeup (Some ch))"

text \<open>\<open>while (cond) sleep(ch, lk);\<close>, for at most \<open>e_fuel\<close> rounds.\<close>

primrec sleep_rounds :: "nat \<Rightarrow> 'a pst_scheme env \<Rightarrow> ('a pst_scheme \<Rightarrow> bool) \<Rightarrow> chan \<Rightarrow> lock \<Rightarrow> ('a pst_scheme, unit) kprog" where
  "sleep_rounds 0 E cond ch lk = failS OutOfFuel"
| "sleep_rounds (Suc n) E cond ch lk =
     bindS (getD cond) (\<lambda>c. if c then thenS (sleepS E ch lk) (sleep_rounds n E cond ch lk) else retS ())"

definition sleep_while :: "'a pst_scheme env \<Rightarrow> ('a pst_scheme \<Rightarrow> bool) \<Rightarrow> chan \<Rightarrow> lock \<Rightarrow> ('a pst_scheme, unit) kprog" where
  "sleep_while E = sleep_rounds (e_fuel E) E"

lemma sleep_while_done: "0 < e_fuel E \<Longrightarrow> \<not> cond d \<Longrightarrow> sleep_while E cond ch lk (h, d) = Inr ((), (h, d))"
  by (cases "e_fuel E") (simp_all add: sleep_while_def)

record vst = pst +
  km :: mst
  kernel_pagetable :: uint64

text \<open>An operation of \<open>vm.c\<close> or \<open>kalloc.c\<close> as part of the kernel.\<close>

definition memS :: "(mst \<Rightarrow> ('r \<times> mst) res) \<Rightarrow> ('a vst_scheme, 'r) kprog" where
  "memS f = dataS (\<lambda>d. bindR (f (km d)) (\<lambda>(x, m). Inr (x, d\<lparr>km := m\<rparr>)))"

definition memU :: "(mst \<Rightarrow> mst res) \<Rightarrow> ('a vst_scheme, unit) kprog" where
  "memU f = memS (\<lambda>m. bindR (f m) (\<lambda>m. Inr ((), m)))"

definition kallocS :: "('a vst_scheme, uint64) kprog" where
  "kallocS = memS (\<lambda>m. Inr (kalloc m))"

definition kfreeS :: "'a vst_scheme env \<Rightarrow> uint64 \<Rightarrow> ('a vst_scheme, unit) kprog" where
  "kfreeS E pa = memU (kfree (e_layout E) pa)"

lemma memS_apply [simp]: "memS f (h, d) = bindR (f (km d)) (\<lambda>(x, m). Inr (x, (h, d\<lparr>km := m\<rparr>)))"
  by (cases "f (km d)") (auto simp: memS_def)

section \<open>Copying to and from a process (proc.c)\<close>

text \<open>
  Where \<open>either_copyout\<close> puts bytes: at a user address, at an address of kernel memory, or in a local
  variable of its caller, whose value then is the list of bytes.
\<close>

datatype dest = UserDst uint64 | KernelDst uint64 | LocalDst

definition either_copyout :: "dest \<Rightarrow> uint8 list \<Rightarrow> ('a vst_scheme, cint) kprog" where
  "either_copyout dst src =
     bindS myprocS (\<lambda>me.
       case dst of
         UserDst va \<Rightarrow> derefS me (\<lambda>p. bindS (getD (\<lambda>d. p_pagetable (procs d p))) (\<lambda>pt. memS (copyout pt va src)))
       | KernelDst pa \<Rightarrow> thenS (memU (\<lambda>m. Inr (m\<lparr>mem := store_bytes (mem m) pa src\<rparr>))) (retS 0)
       | LocalDst \<Rightarrow> retS 0)"

text \<open>Where \<open>either_copyin\<close> takes them from: a user address or bytes of the kernel.\<close>

datatype source = UserSrc uint64 | KernelSrc "uint8 list"

definition src_plus :: "source \<Rightarrow> nat \<Rightarrow> source" where
  "src_plus src n = (case src of UserSrc va \<Rightarrow> UserSrc (va + of_nat n) | KernelSrc bs \<Rightarrow> KernelSrc (drop n bs))"

definition dst_plus :: "dest \<Rightarrow> nat \<Rightarrow> dest" where
  "dst_plus dst n = (case dst of UserDst va \<Rightarrow> UserDst (va + of_nat n) | KernelDst pa \<Rightarrow> KernelDst (pa + of_nat n) | LocalDst \<Rightarrow> LocalDst)"

definition either_copyin :: "source \<Rightarrow> nat \<Rightarrow> ('a vst_scheme, cint \<times> uint8 list) kprog" where
  "either_copyin src len =
     bindS myprocS (\<lambda>me.
       case src of
         UserSrc va \<Rightarrow> derefS me (\<lambda>p. bindS (getD (\<lambda>d. p_pagetable (procs d p))) (\<lambda>pt.
           bindS (getD km) (\<lambda>m. dataS (\<lambda>d. bindR (copyin pt va len m) (\<lambda>r. Inr (r, d))))))
       | KernelSrc bs \<Rightarrow> if length bs < len then failS BadAccess else retS (0, take len bs))"

end
