(* ===== verification/Sleeplock.thy ===== *)
theory Sleeplock
  imports KState
begin

text \<open>
  Sleep locks, \<open>kernel/sleeplock.c\<close>: long-term locks of processes, a flag under a spin lock. A lock
  is named by where it is, a value of \<open>sleeplk\<close>.
\<close>

section \<open>Operations\<close>

record sleeplock =
  sl_locked :: bool
  sl_name :: string
  sl_pid :: cint

record slst = vst +
  sleeplocks :: "sleeplk \<Rightarrow> sleeplock"

definition upd_sl :: "sleeplk \<Rightarrow> (sleeplock \<Rightarrow> sleeplock) \<Rightarrow> 'a slst_scheme \<Rightarrow> 'a slst_scheme" where
  "upd_sl lk f d = d\<lparr>sleeplocks := (sleeplocks d)(lk := f (sleeplocks d lk))\<rparr>"

definition initsleeplock :: "sleeplk \<Rightarrow> string \<Rightarrow> ('a slst_scheme, unit) kprog" where
  "initsleeplock lk name =
     thenS (hartS (\<lambda>h. Inr ((), initlock (SleepLkLock lk) ''sleep lock'' h)))
       (modD (upd_sl lk (\<lambda>_. \<lparr>sl_locked = False, sl_name = name, sl_pid = 0\<rparr>)))"

definition acquiresleep :: "'a slst_scheme env \<Rightarrow> sleeplk \<Rightarrow> ('a slst_scheme, unit) kprog" where
  "acquiresleep E lk =
     thenS (acquireS (SleepLkLock lk)) (
     thenS (sleep_while E (\<lambda>d. sl_locked (sleeplocks d lk)) (ChanSleeplock lk) (SleepLkLock lk)) (
     thenS (modD (upd_sl lk (\<lambda>l. l\<lparr>sl_locked := True\<rparr>))) (
     bindS curS (\<lambda>p.
     thenS (modD (\<lambda>d. upd_sl lk (\<lambda>l. l\<lparr>sl_pid := p_pid (procs d p)\<rparr>) d)) (
     releaseS (SleepLkLock lk))))))"

definition releasesleep :: "sleeplk \<Rightarrow> ('a slst_scheme, unit) kprog" where
  "releasesleep lk =
     thenS (acquireS (SleepLkLock lk)) (
     thenS (modD (upd_sl lk (\<lambda>l. l\<lparr>sl_locked := False, sl_pid := 0\<rparr>))) (
     thenS (wakeupS (ChanSleeplock lk)) (
     releaseS (SleepLkLock lk))))"

text \<open>\<open>lk->locked && lk->pid == myproc()->pid\<close>: the process is looked at only when the lock is held.\<close>

definition holdingsleep :: "sleeplk \<Rightarrow> ('a slst_scheme, bool) kprog" where
  "holdingsleep lk =
     thenS (acquireS (SleepLkLock lk)) (
     bindS (getD (\<lambda>d. sleeplocks d lk)) (\<lambda>l.
     bindS (if sl_locked l then bindS curS (\<lambda>p. getD (\<lambda>d. sl_pid l = p_pid (procs d p))) else retS False) (\<lambda>r.
     thenS (releaseS (SleepLkLock lk)) (retS r))))"

end
