(* ===== verification/Virtio.thy ===== *)
theory Virtio
  imports Sleeplock
begin

text \<open>
  The disk driver, \<open>kernel/virtio_disk.c\<close>, with \<open>struct buf\<close> of \<open>kernel/buf.h\<close> and the constants and
  structures of \<open>kernel/virtio.h\<close>.

  The three pages the driver shares with the device hold the descriptor table and the two rings; they
  are the fields \<open>desc\<close>, \<open>avail_*\<close> and \<open>used_*\<close> of the record \<open>disk\<close>, next to their addresses. An address
  the driver puts in a descriptor is a value of \<open>daddr\<close>. A store to a register of the controller is
  appended to \<open>mmio_out\<close>; what a register reads as is \<open>e_mmio\<close> of the environment.
\<close>

section \<open>Data\<close>

text \<open>\<open>kernel/buf.h\<close>; \<open>prev\<close> and \<open>next\<close> are indices, the list head of \<open>bio.c\<close> being the one after the last.\<close>

record buf =
  b_valid :: bool
  b_disk :: bool
  b_dev :: uint
  b_blockno :: uint
  b_refcnt :: uint
  b_prev :: nat
  b_next :: nat
  b_data :: "uint8 list"

definition NUM :: nat where "NUM = 8"
definition BSIZE :: nat where "BSIZE = 1024"

definition VRING_DESC_F_NEXT :: uint16 where "VRING_DESC_F_NEXT = 1"
definition VRING_DESC_F_WRITE :: uint16 where "VRING_DESC_F_WRITE = 2"
definition VIRTIO_BLK_T_IN :: uint where "VIRTIO_BLK_T_IN = 0"
definition VIRTIO_BLK_T_OUT :: uint where "VIRTIO_BLK_T_OUT = 1"

datatype daddr = NullAddr | OpAddr nat | DataAddr nat | StatusAddr nat

record virtq_desc =
  vd_addr :: daddr
  vd_len :: uint
  vd_flags :: uint16
  vd_next :: uint16

record virtio_blk_req =
  rq_type :: uint
  rq_reserved :: uint
  rq_sector :: uint64

record disk =
  desc_page :: uint64
  avail_page :: uint64
  used_page :: uint64
  desc :: "nat \<Rightarrow> virtq_desc"
  avail_idx :: uint16
  avail_ring :: "nat \<Rightarrow> uint16"
  used_idx_dev :: uint16
  used_ring :: "nat \<Rightarrow> uint"
  dfree :: "nat \<Rightarrow> bool"
  used_idx :: uint16
  info_b :: "nat \<Rightarrow> nat option"
  info_status :: "nat \<Rightarrow> uint8"
  ops :: "nat \<Rightarrow> virtio_blk_req"

record dst = slst +
  bufs :: "nat \<Rightarrow> buf"
  disk :: disk
  mmio_out :: "(uint64 \<times> uint) list"

definition upd_buf :: "nat \<Rightarrow> (buf \<Rightarrow> buf) \<Rightarrow> 'a dst_scheme \<Rightarrow> 'a dst_scheme" where
  "upd_buf b f d = d\<lparr>bufs := (bufs d)(b := f (bufs d b))\<rparr>"

definition upd_disk :: "(disk \<Rightarrow> disk) \<Rightarrow> 'a dst_scheme \<Rightarrow> 'a dst_scheme" where
  "upd_disk f d = d\<lparr>disk := f (disk d)\<rparr>"

definition upd_desc :: "nat \<Rightarrow> (virtq_desc \<Rightarrow> virtq_desc) \<Rightarrow> disk \<Rightarrow> disk" where
  "upd_desc i f k = k\<lparr>desc := (desc k)(i := f (desc k i))\<rparr>"

definition desc0 :: virtq_desc where
  "desc0 = \<lparr>vd_addr = NullAddr, vd_len = 0, vd_flags = 0, vd_next = 0\<rparr>"

section \<open>Initialisation\<close>

text \<open>Registers, status bits and feature bits of \<open>virtio.h\<close>.\<close>

definition VIRTIO_MMIO_MAGIC_VALUE :: uint64 where "VIRTIO_MMIO_MAGIC_VALUE = 0x000"
definition VIRTIO_MMIO_VERSION :: uint64 where "VIRTIO_MMIO_VERSION = 0x004"
definition VIRTIO_MMIO_DEVICE_ID :: uint64 where "VIRTIO_MMIO_DEVICE_ID = 0x008"
definition VIRTIO_MMIO_VENDOR_ID :: uint64 where "VIRTIO_MMIO_VENDOR_ID = 0x00c"
definition VIRTIO_MMIO_DEVICE_FEATURES :: uint64 where "VIRTIO_MMIO_DEVICE_FEATURES = 0x010"
definition VIRTIO_MMIO_DRIVER_FEATURES :: uint64 where "VIRTIO_MMIO_DRIVER_FEATURES = 0x020"
definition VIRTIO_MMIO_QUEUE_SEL :: uint64 where "VIRTIO_MMIO_QUEUE_SEL = 0x030"
definition VIRTIO_MMIO_QUEUE_NUM_MAX :: uint64 where "VIRTIO_MMIO_QUEUE_NUM_MAX = 0x034"
definition VIRTIO_MMIO_QUEUE_NUM :: uint64 where "VIRTIO_MMIO_QUEUE_NUM = 0x038"
definition VIRTIO_MMIO_QUEUE_READY :: uint64 where "VIRTIO_MMIO_QUEUE_READY = 0x044"
definition VIRTIO_MMIO_QUEUE_NOTIFY :: uint64 where "VIRTIO_MMIO_QUEUE_NOTIFY = 0x050"
definition VIRTIO_MMIO_INTERRUPT_STATUS :: uint64 where "VIRTIO_MMIO_INTERRUPT_STATUS = 0x060"
definition VIRTIO_MMIO_INTERRUPT_ACK :: uint64 where "VIRTIO_MMIO_INTERRUPT_ACK = 0x064"
definition VIRTIO_MMIO_STATUS :: uint64 where "VIRTIO_MMIO_STATUS = 0x070"
definition VIRTIO_MMIO_QUEUE_DESC_LOW :: uint64 where "VIRTIO_MMIO_QUEUE_DESC_LOW = 0x080"
definition VIRTIO_MMIO_QUEUE_DESC_HIGH :: uint64 where "VIRTIO_MMIO_QUEUE_DESC_HIGH = 0x084"
definition VIRTIO_MMIO_DRIVER_DESC_LOW :: uint64 where "VIRTIO_MMIO_DRIVER_DESC_LOW = 0x090"
definition VIRTIO_MMIO_DRIVER_DESC_HIGH :: uint64 where "VIRTIO_MMIO_DRIVER_DESC_HIGH = 0x094"
definition VIRTIO_MMIO_DEVICE_DESC_LOW :: uint64 where "VIRTIO_MMIO_DEVICE_DESC_LOW = 0x0a0"
definition VIRTIO_MMIO_DEVICE_DESC_HIGH :: uint64 where "VIRTIO_MMIO_DEVICE_DESC_HIGH = 0x0a4"

definition VIRTIO_CONFIG_S_ACKNOWLEDGE :: uint where "VIRTIO_CONFIG_S_ACKNOWLEDGE = 1"
definition VIRTIO_CONFIG_S_DRIVER :: uint where "VIRTIO_CONFIG_S_DRIVER = 2"
definition VIRTIO_CONFIG_S_DRIVER_OK :: uint where "VIRTIO_CONFIG_S_DRIVER_OK = 4"
definition VIRTIO_CONFIG_S_FEATURES_OK :: uint where "VIRTIO_CONFIG_S_FEATURES_OK = 8"

text \<open>The features \<open>virtio_disk_init\<close> does not want, by bit number, in the order it clears them.\<close>

definition unwanted_features :: "nat list" where
  "unwanted_features = [5, 7, 11, 12, 27, 29, 28]"

definition mmio_write :: "uint64 \<Rightarrow> uint \<Rightarrow> ('a dst_scheme, unit) kprog" where
  "mmio_write r v = modD (\<lambda>d. d\<lparr>mmio_out := mmio_out d @ [(VIRTIO0 + r, v)]\<rparr>)"

definition mmio_writes :: "(uint64 \<times> uint) list \<Rightarrow> ('a dst_scheme, unit) kprog" where
  "mmio_writes ws = forS ws (\<lambda>(r, v). mmio_write r v)"

definition virtio_disk_init :: "'a dst_scheme env \<Rightarrow> ('a dst_scheme, unit) kprog" where
  "virtio_disk_init E =
     thenS (hartS (\<lambda>h. Inr ((), initlock VdiskLock ''virtio_disk'' h))) (
     if e_mmio E (VIRTIO0 + VIRTIO_MMIO_MAGIC_VALUE) \<noteq> 0x74726976 \<or> e_mmio E (VIRTIO0 + VIRTIO_MMIO_VERSION) \<noteq> 2 \<or>
        e_mmio E (VIRTIO0 + VIRTIO_MMIO_DEVICE_ID) \<noteq> 2 \<or> e_mmio E (VIRTIO0 + VIRTIO_MMIO_VENDOR_ID) \<noteq> 0x554d4551
     then failS (Panic ''could not find virtio disk'')
     else
       let s1 = VIRTIO_CONFIG_S_ACKNOWLEDGE; s2 = s1 OR VIRTIO_CONFIG_S_DRIVER; s3 = s2 OR VIRTIO_CONFIG_S_FEATURES_OK;
           features = fold (\<lambda>b v. v AND NOT (push_bit b 1)) unwanted_features (e_mmio E (VIRTIO0 + VIRTIO_MMIO_DEVICE_FEATURES))
       in thenS (mmio_writes [(VIRTIO_MMIO_STATUS, 0), (VIRTIO_MMIO_STATUS, s1), (VIRTIO_MMIO_STATUS, s2),
              (VIRTIO_MMIO_DRIVER_FEATURES, features), (VIRTIO_MMIO_STATUS, s3)]) (
          let status = e_mmio E (VIRTIO0 + VIRTIO_MMIO_STATUS) in
          if status AND VIRTIO_CONFIG_S_FEATURES_OK = 0 then failS (Panic ''virtio disk FEATURES_OK unset'')
          else thenS (mmio_write VIRTIO_MMIO_QUEUE_SEL 0) (
          if e_mmio E (VIRTIO0 + VIRTIO_MMIO_QUEUE_READY) \<noteq> 0 then failS (Panic ''virtio disk should not be ready'')
          else let max' = e_mmio E (VIRTIO0 + VIRTIO_MMIO_QUEUE_NUM_MAX) in
          if max' = 0 then failS (Panic ''virtio disk has no queue 0'')
          else if unat max' < NUM then failS (Panic ''virtio disk max queue too short'')
          else
            bindS kallocS (\<lambda>pd. bindS kallocS (\<lambda>pa. bindS kallocS (\<lambda>pu.
            thenS (modD (upd_disk (\<lambda>k. k\<lparr>desc_page := pd, avail_page := pa, used_page := pu\<rparr>))) (
            if pd = 0 \<or> pa = 0 \<or> pu = 0 then failS (Panic ''virtio disk kalloc'')
            else
            thenS (modD (upd_disk (\<lambda>k. k\<lparr>desc := (\<lambda>_. desc0), avail_idx := 0, avail_ring := (\<lambda>_. 0),
              used_idx_dev := 0, used_ring := (\<lambda>_. 0)\<rparr>))) (
            thenS (mmio_writes [(VIRTIO_MMIO_QUEUE_NUM, of_nat NUM),
              (VIRTIO_MMIO_QUEUE_DESC_LOW, ucast pd), (VIRTIO_MMIO_QUEUE_DESC_HIGH, ucast (drop_bit 32 pd)),
              (VIRTIO_MMIO_DRIVER_DESC_LOW, ucast pa), (VIRTIO_MMIO_DRIVER_DESC_HIGH, ucast (drop_bit 32 pa)),
              (VIRTIO_MMIO_DEVICE_DESC_LOW, ucast pu), (VIRTIO_MMIO_DEVICE_DESC_HIGH, ucast (drop_bit 32 pu)),
              (VIRTIO_MMIO_QUEUE_READY, 1)]) (
            thenS (modD (upd_disk (\<lambda>k. k\<lparr>dfree := (\<lambda>i. if i < NUM then True else dfree k i)\<rparr>))) (
            mmio_write VIRTIO_MMIO_STATUS (status OR VIRTIO_CONFIG_S_DRIVER_OK)))))))))))"

section \<open>Descriptors\<close>

definition alloc_desc :: "disk \<Rightarrow> nat option \<times> disk" where
  "alloc_desc k =
     (case List.find (dfree k) [0..<NUM] of
        None \<Rightarrow> (None, k)
      | Some i \<Rightarrow> (Some i, k\<lparr>dfree := (dfree k)(i := False)\<rparr>))"

definition free_desc :: "nat \<Rightarrow> ('a dst_scheme, unit) kprog" where
  "free_desc i =
     (if NUM \<le> i then failS (Panic ''free_desc 1'')
      else bindS (getD (\<lambda>d. dfree (disk d) i)) (\<lambda>f.
        if f then failS (Panic ''free_desc 2'')
        else thenS (modD (upd_disk (\<lambda>k. (upd_desc i (\<lambda>_. desc0) k)\<lparr>dfree := (dfree k)(i := True)\<rparr>)))
          (wakeupS ChanDiskFree)))"

text \<open>
  The loop frees a descriptor in every round and \<open>free_desc\<close> panics on one that is free, so it ends
  after at most \<open>NUM + 1\<close> rounds.
\<close>

primrec free_chain_from :: "nat \<Rightarrow> nat \<Rightarrow> ('a dst_scheme, unit) kprog" where
  "free_chain_from 0 i = failS OutOfFuel"
| "free_chain_from (Suc n) i =
     bindS (getD (\<lambda>d. desc (disk d) i)) (\<lambda>e.
     thenS (free_desc i) (
     if vd_flags e AND VRING_DESC_F_NEXT \<noteq> 0 then free_chain_from n (unat (vd_next e)) else retS ()))"

definition free_chain :: "nat \<Rightarrow> ('a dst_scheme, unit) kprog" where
  "free_chain = free_chain_from (NUM + 1)"

text \<open>The three indices, or none after the ones already taken have been freed again.\<close>

fun alloc_descs :: "nat \<Rightarrow> nat list \<Rightarrow> ('a dst_scheme, nat list option) kprog" where
  "alloc_descs 0 idx = retS (Some idx)"
| "alloc_descs (Suc n) idx =
     bindS (dataS (\<lambda>d. let (r, k) = alloc_desc (disk d) in Inr (r, d\<lparr>disk := k\<rparr>))) (\<lambda>r.
       case r of None \<Rightarrow> thenS (forS idx free_desc) (retS None) | Some i \<Rightarrow> alloc_descs n (idx @ [i]))"

definition alloc3_desc :: "('a dst_scheme, nat list option) kprog" where
  "alloc3_desc = alloc_descs 3 []"

section \<open>Requests\<close>

text \<open>The three descriptors of a request for buffer \<open>b\<close>, and the entry in the ring of available ones.\<close>

definition format_request :: "nat \<Rightarrow> bool \<Rightarrow> uint64 \<Rightarrow> nat \<Rightarrow> nat \<Rightarrow> nat \<Rightarrow> disk \<Rightarrow> disk" where
  "format_request b wr sector i0 i1 i2 k =
     (let k = k\<lparr>ops := (ops k)(i0 := \<lparr>rq_type = if wr then VIRTIO_BLK_T_OUT else VIRTIO_BLK_T_IN, rq_reserved = 0, rq_sector = sector\<rparr>)\<rparr>;
          k = upd_desc i0 (\<lambda>_. \<lparr>vd_addr = OpAddr i0, vd_len = 16, vd_flags = VRING_DESC_F_NEXT, vd_next = of_nat i1\<rparr>) k;
          k = upd_desc i1 (\<lambda>_. \<lparr>vd_addr = DataAddr b, vd_len = of_nat BSIZE,
                vd_flags = (if wr then 0 else VRING_DESC_F_WRITE) OR VRING_DESC_F_NEXT, vd_next = of_nat i2\<rparr>) k;
          k = k\<lparr>info_status := (info_status k)(i0 := 0xff)\<rparr>;
          k = upd_desc i2 (\<lambda>_. \<lparr>vd_addr = StatusAddr i0, vd_len = 1, vd_flags = VRING_DESC_F_WRITE, vd_next = 0\<rparr>) k
      in k)"

definition submit_request :: "nat \<Rightarrow> nat \<Rightarrow> disk \<Rightarrow> disk" where
  "submit_request b i0 k =
     (let k = k\<lparr>info_b := (info_b k)(i0 := Some b)\<rparr>;
          k = k\<lparr>avail_ring := (avail_ring k)(unat (avail_idx k) mod NUM := of_nat i0)\<rparr>
      in k\<lparr>avail_idx := avail_idx k + 1\<rparr>)"

primrec alloc3_wait :: "nat \<Rightarrow> 'a dst_scheme env \<Rightarrow> ('a dst_scheme, nat list) kprog" where
  "alloc3_wait 0 E = failS OutOfFuel"
| "alloc3_wait (Suc n) E =
     bindS alloc3_desc (\<lambda>r.
       case r of Some idx \<Rightarrow> retS idx | None \<Rightarrow> thenS (sleepS E ChanDiskFree VdiskLock) (alloc3_wait n E))"

definition virtio_disk_rw :: "'a dst_scheme env \<Rightarrow> nat \<Rightarrow> bool \<Rightarrow> ('a dst_scheme, unit) kprog" where
  "virtio_disk_rw E b wr =
     bindS (getD (\<lambda>d. ucast (b_blockno (bufs d b) * of_nat (BSIZE div 512)))) (\<lambda>sector.
     thenS (acquireS VdiskLock) (
     bindS (alloc3_wait (e_fuel E) E) (\<lambda>idx.
     let i0 = idx ! 0; i1 = idx ! 1; i2 = idx ! 2 in
     thenS (modD (upd_disk (format_request b wr sector i0 i1 i2))) (
     thenS (modD (upd_buf b (\<lambda>x. x\<lparr>b_disk := True\<rparr>))) (
     thenS (modD (upd_disk (submit_request b i0))) (
     thenS (mmio_write VIRTIO_MMIO_QUEUE_NOTIFY 0) (
     thenS (sleep_while E (\<lambda>d. b_disk (bufs d b)) (ChanBuf b) VdiskLock) (
     thenS (modD (upd_disk (\<lambda>k. k\<lparr>info_b := (info_b k)(i0 := None)\<rparr>))) (
     thenS (free_chain i0) (
     releaseS VdiskLock))))))))))"

text \<open>
  The completion interrupt. The device may add entries to the ring at any time; in the model it does so only
  between the runs of kernel code, so the loop goes round as often as the two indices differ when it starts,
  modulo \<open>2 ^ 16\<close>. An entry added later is left to the next interrupt.
\<close>

definition complete_one :: "('a dst_scheme, unit) kprog" where
  "complete_one =
     bindS (getD disk) (\<lambda>k.
     let i = unat (used_ring k (unat (used_idx k) mod NUM)) in
     if NUM \<le> i then failS BadAccess
     else if info_status k i \<noteq> 0 then failS (Panic ''virtio_disk_intr status'')
     else derefS (info_b k i) (\<lambda>b.
       thenS (modD (upd_buf b (\<lambda>x. x\<lparr>b_disk := False\<rparr>))) (
       thenS (wakeupS (ChanBuf b)) (
       modD (upd_disk (\<lambda>k. k\<lparr>used_idx := used_idx k + 1\<rparr>))))))"

definition virtio_disk_intr :: "'a dst_scheme env \<Rightarrow> ('a dst_scheme, unit) kprog" where
  "virtio_disk_intr E =
     thenS (acquireS VdiskLock) (
     thenS (mmio_write VIRTIO_MMIO_INTERRUPT_ACK (e_mmio E (VIRTIO0 + VIRTIO_MMIO_INTERRUPT_STATUS) AND 0x3)) (
     bindS (getD (\<lambda>d. unat (used_idx_dev (disk d) - used_idx (disk d)))) (\<lambda>n.
     thenS (forS [0..<n] (\<lambda>_. complete_one)) (
     releaseS VdiskLock))))"

end
