(* ===== verification/Bio.thy ===== *)
theory Bio
  imports Virtio
begin

text \<open>
  The buffer cache, \<open>kernel/bio.c\<close>: a fixed set of buffers on a doubly linked list, most recently used
  first. The list head \<open>bcache.head\<close> is entry \<open>NBUF\<close> of \<open>bufs\<close>.
\<close>

section \<open>Operations\<close>

definition NBUF :: nat where "NBUF = 30"

abbreviation bhead :: nat where "bhead \<equiv> NBUF"

text \<open>The stores of \<open>binit\<close> that link buffer \<open>b\<close> in at the front, which \<open>brelse\<close> repeats.\<close>

definition link_front :: "nat \<Rightarrow> (nat \<Rightarrow> buf) \<Rightarrow> (nat \<Rightarrow> buf)" where
  "link_front b bs =
     (let bs = bs(b := (bs b)\<lparr>b_next := b_next (bs bhead)\<rparr>);
          bs = bs(b := (bs b)\<lparr>b_prev := bhead\<rparr>);
          n = b_next (bs bhead);
          bs = bs(n := (bs n)\<lparr>b_prev := b\<rparr>)
      in bs(bhead := (bs bhead)\<lparr>b_next := b\<rparr>))"

definition unlink :: "nat \<Rightarrow> (nat \<Rightarrow> buf) \<Rightarrow> (nat \<Rightarrow> buf)" where
  "unlink b bs =
     (let n = b_next (bs b); bs = bs(n := (bs n)\<lparr>b_prev := b_prev (bs b)\<rparr>);
          p = b_prev (bs b)
      in bs(p := (bs p)\<lparr>b_next := b_next (bs b)\<rparr>))"

definition binit :: "('a dst_scheme, unit) kprog" where
  "binit =
     thenS (hartS (\<lambda>h. Inr ((), initlock BcacheLock ''bcache'' h))) (
     thenS (modD (upd_buf bhead (\<lambda>x. x\<lparr>b_prev := bhead, b_next := bhead\<rparr>))) (
     forS [0..<NBUF] (\<lambda>b.
       thenS (initsleeplock (BufLk b) ''buffer'') (
       modD (\<lambda>d. d\<lparr>bufs := link_front b (bufs d)\<rparr>)))))"

text \<open>Following \<open>next\<close> or \<open>prev\<close> from \<open>b\<close> to the head; on a list of \<open>NBUF\<close> buffers \<open>NBUF + 1\<close> rounds are enough.\<close>

fun bscan :: "nat \<Rightarrow> (buf \<Rightarrow> nat) \<Rightarrow> (buf \<Rightarrow> bool) \<Rightarrow> (nat \<Rightarrow> buf) \<Rightarrow> nat \<Rightarrow> nat option res" where
  "bscan 0 link P bs b = Inl OutOfFuel"
| "bscan (Suc n) link P bs b =
     (if b = bhead then Inr None else if P (bs b) then Inr (Some b) else bscan n link P bs (link (bs b)))"

definition bscanS :: "(buf \<Rightarrow> nat) \<Rightarrow> (buf \<Rightarrow> bool) \<Rightarrow> ('a dst_scheme, nat option) kprog" where
  "bscanS link P = dataS (\<lambda>d. bindR (bscan (NBUF + 1) link P (bufs d) (link (bufs d bhead))) (\<lambda>r. Inr (r, d)))"

definition bget :: "'a dst_scheme env \<Rightarrow> uint \<Rightarrow> uint \<Rightarrow> ('a dst_scheme, nat) kprog" where
  "bget E dev blockno =
     thenS (acquireS BcacheLock) (
     bindS (bscanS b_next (\<lambda>x. b_dev x = dev \<and> b_blockno x = blockno)) (\<lambda>r.
       case r of
         Some b \<Rightarrow>
           thenS (modD (upd_buf b (\<lambda>x. x\<lparr>b_refcnt := b_refcnt x + 1\<rparr>))) (
           thenS (releaseS BcacheLock) (
           thenS (acquiresleep E (BufLk b)) (retS b)))
       | None \<Rightarrow>
           bindS (bscanS b_prev (\<lambda>x. b_refcnt x = 0)) (\<lambda>r.
             case r of
               Some b \<Rightarrow>
                 thenS (modD (upd_buf b (\<lambda>x. x\<lparr>b_dev := dev, b_blockno := blockno, b_valid := False, b_refcnt := 1\<rparr>))) (
                 thenS (releaseS BcacheLock) (
                 thenS (acquiresleep E (BufLk b)) (retS b)))
             | None \<Rightarrow> failS (Panic ''bget: no buffers''))))"

definition bread :: "'a dst_scheme env \<Rightarrow> uint \<Rightarrow> uint \<Rightarrow> ('a dst_scheme, nat) kprog" where
  "bread E dev blockno =
     bindS (bget E dev blockno) (\<lambda>b.
     bindS (getD (\<lambda>d. b_valid (bufs d b))) (\<lambda>valid.
     thenS (whenS (\<not> valid) (
       thenS (virtio_disk_rw E b False) (
       modD (upd_buf b (\<lambda>x. x\<lparr>b_valid := True\<rparr>)))))
     (retS b)))"

definition bwrite :: "'a dst_scheme env \<Rightarrow> nat \<Rightarrow> ('a dst_scheme, unit) kprog" where
  "bwrite E b =
     bindS (holdingsleep (BufLk b)) (\<lambda>hold.
       if \<not> hold then failS (Panic ''bwrite'') else virtio_disk_rw E b True)"

definition brelse :: "nat \<Rightarrow> ('a dst_scheme, unit) kprog" where
  "brelse b =
     bindS (holdingsleep (BufLk b)) (\<lambda>hold.
       if \<not> hold then failS (Panic ''brelse'')
       else
         thenS (releasesleep (BufLk b)) (
         thenS (acquireS BcacheLock) (
         thenS (modD (upd_buf b (\<lambda>x. x\<lparr>b_refcnt := b_refcnt x - 1\<rparr>))) (
         thenS (modD (\<lambda>d. if b_refcnt (bufs d b) = 0 then d\<lparr>bufs := link_front b (unlink b (bufs d))\<rparr> else d)) (
         releaseS BcacheLock)))))"

definition bpin :: "nat \<Rightarrow> ('a dst_scheme, unit) kprog" where
  "bpin b =
     thenS (acquireS BcacheLock) (
     thenS (modD (upd_buf b (\<lambda>x. x\<lparr>b_refcnt := b_refcnt x + 1\<rparr>))) (
     releaseS BcacheLock))"

definition bunpin :: "nat \<Rightarrow> ('a dst_scheme, unit) kprog" where
  "bunpin b =
     thenS (acquireS BcacheLock) (
     thenS (modD (upd_buf b (\<lambda>x. x\<lparr>b_refcnt := b_refcnt x - 1\<rparr>))) (
     releaseS BcacheLock))"

text \<open>The contents of a buffer.\<close>

definition bdata :: "nat \<Rightarrow> ('a dst_scheme, uint8 list) kprog" where
  "bdata b = getD (\<lambda>d. b_data (bufs d b))"

definition set_bdata :: "nat \<Rightarrow> uint8 list \<Rightarrow> ('a dst_scheme, unit) kprog" where
  "set_bdata b bs = modD (upd_buf b (\<lambda>x. x\<lparr>b_data := bs\<rparr>))"

end
