(* ===== verification/Block.thy ===== *)
theory Block
  imports Mem
begin

text \<open>Fields of a disk block: reading and writing little-endian words at an offset of a list of bytes.\<close>

definition put_bytes :: "nat \<Rightarrow> 'a list \<Rightarrow> 'a list \<Rightarrow> 'a list" where
  "put_bytes off v bs = take off bs @ v @ drop (off + length v) bs"

definition get_bytes :: "nat \<Rightarrow> nat \<Rightarrow> 'a list \<Rightarrow> 'a list" where
  "get_bytes off n bs = take n (drop off bs)"

definition get32 :: "nat \<Rightarrow> uint8 list \<Rightarrow> uint" where
  "get32 off bs = le_word (get_bytes off 4 bs)"

definition put32 :: "nat \<Rightarrow> uint \<Rightarrow> uint8 list \<Rightarrow> uint8 list" where
  "put32 off v bs = put_bytes off (le_bytes 4 v) bs"

definition get16 :: "nat \<Rightarrow> uint8 list \<Rightarrow> uint16" where
  "get16 off bs = le_word (get_bytes off 2 bs)"

definition put16 :: "nat \<Rightarrow> uint16 \<Rightarrow> uint8 list \<Rightarrow> uint8 list" where
  "put16 off v bs = put_bytes off (le_bytes 2 v) bs"

definition get64 :: "nat \<Rightarrow> uint8 list \<Rightarrow> uint64" where
  "get64 off bs = le_word (get_bytes off 8 bs)"

text \<open>The bytes of a string literal.\<close>

definition bytes_of :: "string \<Rightarrow> uint8 list" where
  "bytes_of s = map of_char s"

named_theorems block_simps \<open>fields of blocks\<close>

lemma length_put_bytes [simp]: "off + length v \<le> length bs \<Longrightarrow> length (put_bytes off v bs) = length bs"
  by (simp add: put_bytes_def)

lemma length_get_bytes [simp]: "off + n \<le> length bs \<Longrightarrow> length (get_bytes off n bs) = n"
  by (simp add: get_bytes_def)

lemma nth_put_bytes:
  assumes "off + length v \<le> length bs" and "i < length bs"
  shows "put_bytes off v bs ! i = (if off \<le> i \<and> i < off + length v then v ! (i - off) else bs ! i)"
proof -
  consider "i < off" | "off \<le> i" "i < off + length v" | "off + length v \<le> i" by linarith
  then show ?thesis
  proof cases
    case 1
    with assms show ?thesis by (simp add: put_bytes_def nth_append)
  next
    case 2
    then have "i - off < length v" by simp
    with 2 assms show ?thesis by (simp add: put_bytes_def nth_append)
  next
    case 3
    then have "\<not> i < off" "\<not> i - off < length v" by auto
    with 3 assms show ?thesis by (simp add: put_bytes_def nth_append)
  qed
qed

lemma get_put_bytes [simp]: "off + length v \<le> length bs \<Longrightarrow> n = length v \<Longrightarrow> get_bytes off n (put_bytes off v bs) = v"
  by (simp add: get_bytes_def put_bytes_def)

lemma get_put_bytes_other:
  assumes "off + length v \<le> length bs" and "o' + n \<le> length bs" and "o' + n \<le> off \<or> off + length v \<le> o'"
  shows "get_bytes o' n (put_bytes off v bs) = get_bytes o' n bs"
proof (rule nth_equalityI)
  show "length (get_bytes o' n (put_bytes off v bs)) = length (get_bytes o' n bs)" using assms by simp
next
  fix i assume "i < length (get_bytes o' n (put_bytes off v bs))"
  then have "i < n" using assms by simp
  then show "get_bytes o' n (put_bytes off v bs) ! i = get_bytes o' n bs ! i"
    using assms by (auto simp: get_bytes_def nth_put_bytes)
qed

lemma length_put32 [simp]: "off + 4 \<le> length bs \<Longrightarrow> length (put32 off v bs) = length bs"
  by (simp add: put32_def)

lemma length_put16 [simp]: "off + 2 \<le> length bs \<Longrightarrow> length (put16 off v bs) = length bs"
  by (simp add: put16_def)

lemma get32_put32 [simp]: "off + 4 \<le> length bs \<Longrightarrow> get32 off (put32 off v bs) = v"
  by (simp add: get32_def put32_def le_word_le_bytes)

lemma get16_put16 [simp]: "off + 2 \<le> length bs \<Longrightarrow> get16 off (put16 off v bs) = v"
  by (simp add: get16_def put16_def le_word_le_bytes)

lemma get32_put32_other:
  "off + 4 \<le> length bs \<Longrightarrow> o' + 4 \<le> length bs \<Longrightarrow> o' + 4 \<le> off \<or> off + 4 \<le> o' \<Longrightarrow> get32 o' (put32 off v bs) = get32 o' bs"
  by (simp add: get32_def put32_def get_put_bytes_other)

lemma get16_put16_other:
  "off + 2 \<le> length bs \<Longrightarrow> o' + 2 \<le> length bs \<Longrightarrow> o' + 2 \<le> off \<or> off + 2 \<le> o' \<Longrightarrow> get16 o' (put16 off v bs) = get16 o' bs"
  by (simp add: get16_def put16_def get_put_bytes_other)

lemma get16_put32_other:
  "off + 4 \<le> length bs \<Longrightarrow> o' + 2 \<le> length bs \<Longrightarrow> o' + 2 \<le> off \<or> off + 4 \<le> o' \<Longrightarrow> get16 o' (put32 off v bs) = get16 o' bs"
  by (simp add: get16_def put32_def get_put_bytes_other)

lemma get32_put16_other:
  "off + 2 \<le> length bs \<Longrightarrow> o' + 4 \<le> length bs \<Longrightarrow> o' + 4 \<le> off \<or> off + 2 \<le> o' \<Longrightarrow> get32 o' (put16 off v bs) = get32 o' bs"
  by (simp add: get32_def put16_def get_put_bytes_other)

lemmas [block_simps] = get32_put32_other get16_put16_other get16_put32_other get32_put16_other

end
