(* ===== verification/Log.thy ===== *)
theory Log
  imports Bio Block
begin

text \<open>
  The write-ahead log, \<open>kernel/log.c\<close>: \<open>begin_op\<close> and \<open>end_op\<close> around file system calls, \<open>log_write\<close>
  in place of \<open>bwrite\<close>, \<open>commit\<close> and recovery.
\<close>

section \<open>Data\<close>

definition MAXOPBLOCKS :: nat where "MAXOPBLOCKS = 10"
definition LOGSIZE :: nat where "LOGSIZE = MAXOPBLOCKS * 3"

text \<open>The super block, \<open>kernel/fs.h\<close>, and its fields at their offsets in block 1.\<close>

record superblock =
  sb_magic :: uint
  sb_size :: uint
  sb_nblocks :: uint
  sb_ninodes :: uint
  sb_nlog :: uint
  sb_logstart :: uint
  sb_inodestart :: uint
  sb_bmapstart :: uint

text \<open>\<open>struct log\<close> with its \<open>struct logheader\<close>; of the array only the first \<open>LOGSIZE\<close> entries exist.\<close>

record log =
  lg_start :: cint
  lg_size :: cint
  lg_outstanding :: cint
  lg_committing :: bool
  lg_dev :: cint
  lh_n :: cint
  lh_block :: "nat \<Rightarrow> cint"

record lst = dst +
  klog :: log
  sb :: superblock

definition upd_log :: "(log \<Rightarrow> log) \<Rightarrow> 'a lst_scheme \<Rightarrow> 'a lst_scheme" where
  "upd_log f d = d\<lparr>klog := f (klog d)\<rparr>"

abbreviation getL :: "(log \<Rightarrow> 'r) \<Rightarrow> ('a lst_scheme, 'r) kprog" where
  "getL f \<equiv> getD (\<lambda>d. f (klog d))"

text \<open>A loop \<open>for (i = 0; i < log.lh.n; i++)\<close> that indexes arrays of \<open>LOGSIZE\<close> entries.\<close>

abbreviation lh_range :: "log \<Rightarrow> nat list" where
  "lh_range l \<equiv> [0..<nat (sint (lh_n l))]"

definition lh_loop :: "(nat \<Rightarrow> ('a lst_scheme, unit) kprog) \<Rightarrow> ('a lst_scheme, unit) kprog" where
  "lh_loop body =
     thenS (forS [0..<LOGSIZE] (\<lambda>i. bindS (getL lh_n) (\<lambda>n. whenS (int i < sint n) (body i)))) (
     bindS (getL lh_n) (\<lambda>n. whenS (int LOGSIZE < sint n) (failS BadAccess)))"

section \<open>Commit and recovery\<close>

definition copy_buf :: "nat \<Rightarrow> nat \<Rightarrow> ('a dst_scheme, unit) kprog" where
  "copy_buf to from = bindS (bdata from) (set_bdata to)"

definition install_trans :: "'a lst_scheme env \<Rightarrow> bool \<Rightarrow> ('a lst_scheme, unit) kprog" where
  "install_trans E recovering =
     lh_loop (\<lambda>tail.
       bindS (getL (\<lambda>l. l)) (\<lambda>l.
       bindS (bread E (lg_dev l) (lg_start l + of_nat tail + 1)) (\<lambda>lbuf.
       bindS (bread E (lg_dev l) (lh_block l tail)) (\<lambda>dbuf.
       thenS (copy_buf dbuf lbuf) (
       thenS (bwrite E dbuf) (
       thenS (whenS (\<not> recovering) (bunpin dbuf)) (
       thenS (brelse lbuf) (
       brelse dbuf))))))))"

text \<open>The header block: \<open>n\<close>, then the block numbers.\<close>

definition hdr_n :: "uint8 list \<Rightarrow> cint" where
  "hdr_n bs = get32 0 bs"

definition hdr_block :: "uint8 list \<Rightarrow> nat \<Rightarrow> cint" where
  "hdr_block bs i = get32 (4 + 4 * i) bs"

definition read_head :: "'a lst_scheme env \<Rightarrow> ('a lst_scheme, unit) kprog" where
  "read_head E =
     bindS (getL (\<lambda>l. l)) (\<lambda>l.
     bindS (bread E (lg_dev l) (lg_start l)) (\<lambda>b.
     bindS (bdata b) (\<lambda>bs.
     thenS (modD (upd_log (\<lambda>l. l\<lparr>lh_n := hdr_n bs\<rparr>))) (
     thenS (lh_loop (\<lambda>i. modD (upd_log (\<lambda>l. l\<lparr>lh_block := (lh_block l)(i := hdr_block bs i)\<rparr>)))) (
     brelse b)))))"

definition write_head :: "'a lst_scheme env \<Rightarrow> ('a lst_scheme, unit) kprog" where
  "write_head E =
     bindS (getL (\<lambda>l. l)) (\<lambda>l.
     bindS (bread E (lg_dev l) (lg_start l)) (\<lambda>b.
     bindS (getL (\<lambda>l. l)) (\<lambda>l.
     bindS (bdata b) (\<lambda>bs.
     thenS (set_bdata b (put32 0 (lh_n l) bs)) (
     thenS (lh_loop (\<lambda>i. bindS (bdata b) (\<lambda>bs. set_bdata b (put32 (4 + 4 * i) (lh_block l i) bs)))) (
     thenS (bwrite E b) (
     brelse b)))))))"

definition recover_from_log :: "'a lst_scheme env \<Rightarrow> ('a lst_scheme, unit) kprog" where
  "recover_from_log E =
     thenS (read_head E) (
     thenS (install_trans E True) (
     thenS (modD (upd_log (\<lambda>l. l\<lparr>lh_n := 0\<rparr>))) (
     write_head E)))"

text \<open>\<open>sizeof(struct logheader)\<close> is \<open>4 + 4 * LOGSIZE\<close>.\<close>

definition initlog :: "'a lst_scheme env \<Rightarrow> cint \<Rightarrow> superblock \<Rightarrow> ('a lst_scheme, unit) kprog" where
  "initlog E dev s =
     (if BSIZE \<le> 4 + 4 * LOGSIZE then failS (Panic ''initlog: too big logheader'')
      else
        thenS (hartS (\<lambda>h. Inr ((), initlock LogLock ''log'' h))) (
        thenS (modD (upd_log (\<lambda>l. l\<lparr>lg_start := sb_logstart s, lg_size := sb_nlog s, lg_dev := dev\<rparr>))) (
        recover_from_log E)))"

definition write_log :: "'a lst_scheme env \<Rightarrow> ('a lst_scheme, unit) kprog" where
  "write_log E =
     lh_loop (\<lambda>tail.
       bindS (getL (\<lambda>l. l)) (\<lambda>l.
       bindS (bread E (lg_dev l) (lg_start l + of_nat tail + 1)) (\<lambda>to.
       bindS (bread E (lg_dev l) (lh_block l tail)) (\<lambda>from.
       thenS (copy_buf to from) (
       thenS (bwrite E to) (
       thenS (brelse from) (
       brelse to)))))))"

definition commit :: "'a lst_scheme env \<Rightarrow> ('a lst_scheme, unit) kprog" where
  "commit E =
     bindS (getL lh_n) (\<lambda>n. whenS (0 < sint n) (
       thenS (write_log E) (
       thenS (write_head E) (
       thenS (install_trans E False) (
       thenS (modD (upd_log (\<lambda>l. l\<lparr>lh_n := 0\<rparr>))) (
       write_head E))))))"

section \<open>Transactions\<close>

definition log_full :: "log \<Rightarrow> bool" where
  "log_full l \<longleftrightarrow> sint (of_nat LOGSIZE :: cint) < sint (lh_n l + (lg_outstanding l + 1) * of_nat MAXOPBLOCKS)"

definition begin_op :: "'a lst_scheme env \<Rightarrow> ('a lst_scheme, unit) kprog" where
  "begin_op E =
     thenS (acquireS LogLock) (
     thenS (sleep_while E (\<lambda>d. lg_committing (klog d) \<or> log_full (klog d)) ChanLog LogLock) (
     thenS (modD (upd_log (\<lambda>l. l\<lparr>lg_outstanding := lg_outstanding l + 1\<rparr>))) (
     releaseS LogLock)))"

definition end_op :: "'a lst_scheme env \<Rightarrow> ('a lst_scheme, unit) kprog" where
  "end_op E =
     thenS (acquireS LogLock) (
     thenS (modD (upd_log (\<lambda>l. l\<lparr>lg_outstanding := lg_outstanding l - 1\<rparr>))) (
     bindS (getL (\<lambda>l. l)) (\<lambda>l.
     if lg_committing l then failS (Panic ''log.committing'')
     else let do_commit = (lg_outstanding l = 0) in
       thenS (if do_commit then modD (upd_log (\<lambda>l. l\<lparr>lg_committing := True\<rparr>)) else wakeupS ChanLog) (
       thenS (releaseS LogLock) (
       whenS do_commit (
         thenS (commit E) (
         thenS (acquireS LogLock) (
         thenS (modD (upd_log (\<lambda>l. l\<lparr>lg_committing := False\<rparr>))) (
         thenS (wakeupS ChanLog) (
         releaseS LogLock))))))))))"

text \<open>The index the loop of \<open>log_write\<close> stops at: that of the block, or \<open>log.lh.n\<close>.\<close>

definition log_slot :: "log \<Rightarrow> uint \<Rightarrow> nat" where
  "log_slot l blockno = (case List.find (\<lambda>i. lh_block l i = blockno) (lh_range l) of
     Some i \<Rightarrow> i | None \<Rightarrow> length (lh_range l))"

definition log_write :: "nat \<Rightarrow> ('a lst_scheme, unit) kprog" where
  "log_write b =
     thenS (acquireS LogLock) (
     bindS (getL (\<lambda>l. l)) (\<lambda>l.
     if int LOGSIZE \<le> sint (lh_n l) \<or> sint (lg_size l - 1) \<le> sint (lh_n l) then failS (Panic ''too big a transaction'')
     else if sint (lg_outstanding l) < 1 then failS (Panic ''log_write outside of trans'')
     else
       bindS (getD (\<lambda>d. b_blockno (bufs d b))) (\<lambda>blockno.
       let i = log_slot l blockno in
       thenS (modD (upd_log (\<lambda>l. l\<lparr>lh_block := (lh_block l)(i := blockno)\<rparr>))) (
       thenS (whenS (int i = sint (lh_n l)) (
         thenS (bpin b) (
         modD (upd_log (\<lambda>l. l\<lparr>lh_n := lh_n l + 1\<rparr>))))) (
       releaseS LogLock)))))"

end
