(* ===== verification/Fs.thy ===== *)
theory Fs
  imports Log KString
begin

text \<open>
  The file system, \<open>kernel/fs.c\<close> with \<open>kernel/fs.h\<close>: block allocator, inodes, their contents,
  directories and path names, over the log and the buffer cache. A \<open>struct inode *\<close> is the index of the
  entry in \<open>itable\<close>.
\<close>

section \<open>Data\<close>

definition NINODE :: nat where "NINODE = 50"
definition ROOTDEV :: uint where "ROOTDEV = 1"
definition ROOTINO :: uint where "ROOTINO = 1"
definition FSMAGIC :: uint where "FSMAGIC = 0x10203040"
definition NDIRECT :: nat where "NDIRECT = 12"
definition NINDIRECT :: nat where "NINDIRECT = BSIZE div 4"
definition MAXFILE :: nat where "MAXFILE = NDIRECT + NINDIRECT"
definition IPB :: nat where "IPB = BSIZE div 64"
definition BPB :: nat where "BPB = BSIZE * 8"
definition DIRSIZ :: nat where "DIRSIZ = 14"

definition T_DIR :: uint16 where "T_DIR = 1"
definition T_FILE :: uint16 where "T_FILE = 2"
definition T_DEVICE :: uint16 where "T_DEVICE = 3"

record inode =
  i_dev :: uint
  i_inum :: uint
  i_ref :: cint
  i_valid :: bool
  i_type :: uint16
  i_major :: uint16
  i_minor :: uint16
  i_nlink :: uint16
  i_size :: uint
  i_addrs :: "nat \<Rightarrow> uint"

record fsst = lst +
  inodes :: "nat \<Rightarrow> inode"

definition upd_inode :: "nat \<Rightarrow> (inode \<Rightarrow> inode) \<Rightarrow> 'a fsst_scheme \<Rightarrow> 'a fsst_scheme" where
  "upd_inode ip f d = d\<lparr>inodes := (inodes d)(ip := f (inodes d ip))\<rparr>"

abbreviation getI :: "nat \<Rightarrow> (inode \<Rightarrow> 'r) \<Rightarrow> ('a fsst_scheme, 'r) kprog" where
  "getI ip f \<equiv> getD (\<lambda>d. f (inodes d ip))"

definition IBLOCK :: "uint \<Rightarrow> superblock \<Rightarrow> uint" where
  "IBLOCK i s = i div of_nat IPB + sb_inodestart s"

definition BBLOCK :: "uint \<Rightarrow> superblock \<Rightarrow> uint" where
  "BBLOCK b s = b div of_nat BPB + sb_bmapstart s"

definition printfS :: "string \<Rightarrow> parg list \<Rightarrow> ('a pst_scheme, unit) kprog" where
  "printfS fmt args = modD (kprintf fmt args)"

section \<open>Super block\<close>

definition sb_of_block :: "uint8 list \<Rightarrow> superblock" where
  "sb_of_block bs = \<lparr>sb_magic = get32 0 bs, sb_size = get32 4 bs, sb_nblocks = get32 8 bs, sb_ninodes = get32 12 bs,
     sb_nlog = get32 16 bs, sb_logstart = get32 20 bs, sb_inodestart = get32 24 bs, sb_bmapstart = get32 28 bs\<rparr>"

definition readsb :: "'a fsst_scheme env \<Rightarrow> uint \<Rightarrow> ('a fsst_scheme, unit) kprog" where
  "readsb E dev =
     bindS (bread E dev 1) (\<lambda>bp.
     bindS (bdata bp) (\<lambda>bs.
     thenS (modD (\<lambda>d. d\<lparr>sb := sb_of_block bs\<rparr>)) (
     brelse bp)))"

definition fsinit :: "'a fsst_scheme env \<Rightarrow> uint \<Rightarrow> ('a fsst_scheme, unit) kprog" where
  "fsinit E dev =
     thenS (readsb E dev) (
     bindS (getD sb) (\<lambda>s.
     if sb_magic s \<noteq> FSMAGIC then failS (Panic ''invalid file system'') else initlog E dev s))"

section \<open>Blocks\<close>

definition bzero :: "'a fsst_scheme env \<Rightarrow> uint \<Rightarrow> uint \<Rightarrow> ('a fsst_scheme, unit) kprog" where
  "bzero E dev bno =
     bindS (bread E dev bno) (\<lambda>bp.
     thenS (set_bdata bp (replicate BSIZE 0)) (
     thenS (log_write bp) (
     brelse bp)))"

text \<open>Bit \<open>bi\<close> of a block of the free map.\<close>

definition bmap_bit :: "nat \<Rightarrow> uint8 list \<Rightarrow> bool" where
  "bmap_bit bi bs \<longleftrightarrow> bs ! (bi div 8) AND push_bit (bi mod 8) 1 \<noteq> 0"

definition bmap_set :: "nat \<Rightarrow> uint8 list \<Rightarrow> uint8 list" where
  "bmap_set bi bs = bs[bi div 8 := bs ! (bi div 8) OR push_bit (bi mod 8) 1]"

definition bmap_clear :: "nat \<Rightarrow> uint8 list \<Rightarrow> uint8 list" where
  "bmap_clear bi bs = bs[bi div 8 := bs ! (bi div 8) AND NOT (push_bit (bi mod 8) 1)]"

text \<open>The inner loop of \<open>balloc\<close>: the first free bit of the map block for blocks from \<open>b\<close> on.\<close>

definition free_bit :: "nat \<Rightarrow> nat \<Rightarrow> uint8 list \<Rightarrow> nat option" where
  "free_bit size' b bs = List.find (\<lambda>bi. \<not> bmap_bit bi bs) [0..<min BPB (size' - b)]"

definition balloc :: "'a fsst_scheme env \<Rightarrow> uint \<Rightarrow> ('a fsst_scheme, uint) kprog" where
  "balloc E dev =
     bindS (getD sb) (\<lambda>s.
     let size' = unat (sb_size s) in
     bindS (searchS (map (\<lambda>k. k * BPB) [0..<(size' + BPB - 1) div BPB]) (\<lambda>b.
       bindS (bread E dev (BBLOCK (of_nat b) s)) (\<lambda>bp.
       bindS (bdata bp) (\<lambda>bs.
       case free_bit size' b bs of
         Some bi \<Rightarrow>
           thenS (set_bdata bp (bmap_set bi bs)) (
           thenS (log_write bp) (
           thenS (brelse bp) (
           thenS (bzero E dev (of_nat (b + bi))) (
           retS (Some (of_nat (b + bi)))))))
       | None \<Rightarrow> thenS (brelse bp) (retS None))))) (\<lambda>r.
     case r of
       Some b \<Rightarrow> retS b
     | None \<Rightarrow> thenS (printfS ''balloc: out of blocks\<newline>'' []) (retS 0)))"

definition bfree :: "'a fsst_scheme env \<Rightarrow> uint \<Rightarrow> uint \<Rightarrow> ('a fsst_scheme, unit) kprog" where
  "bfree E dev b =
     bindS (getD sb) (\<lambda>s.
     bindS (bread E dev (BBLOCK b s)) (\<lambda>bp.
     bindS (bdata bp) (\<lambda>bs.
     let bi = unat b mod BPB in
     if \<not> bmap_bit bi bs then failS (Panic ''freeing free block'')
     else
       thenS (set_bdata bp (bmap_clear bi bs)) (
       thenS (log_write bp) (
       brelse bp)))))"

section \<open>Inodes\<close>

definition iinit :: "('a fsst_scheme, unit) kprog" where
  "iinit =
     thenS (hartS (\<lambda>h. Inr ((), initlock ItableLock ''itable'' h))) (
     forS [0..<NINODE] (\<lambda>i. initsleeplock (InodeLk i) ''inode''))"

text \<open>\<open>struct dinode\<close> number \<open>inum % IPB\<close> of a block, at its byte offset.\<close>

definition dinode_off :: "uint \<Rightarrow> nat" where
  "dinode_off inum = 64 * (unat inum mod IPB)"

definition dinode_put :: "nat \<Rightarrow> inode \<Rightarrow> uint8 list \<Rightarrow> uint8 list" where
  "dinode_put off ip bs =
     (let bs = put16 off (i_type ip) bs;
          bs = put16 (off + 2) (i_major ip) bs;
          bs = put16 (off + 4) (i_minor ip) bs;
          bs = put16 (off + 6) (i_nlink ip) bs;
          bs = put32 (off + 8) (i_size ip) bs
      in fold (\<lambda>i bs. put32 (off + 12 + 4 * i) (i_addrs ip i) bs) [0..<NDIRECT + 1] bs)"

definition dinode_get :: "nat \<Rightarrow> uint8 list \<Rightarrow> inode \<Rightarrow> inode" where
  "dinode_get off bs ip =
     ip\<lparr>i_type := get16 off bs, i_major := get16 (off + 2) bs, i_minor := get16 (off + 4) bs,
        i_nlink := get16 (off + 6) bs, i_size := get32 (off + 8) bs,
        i_addrs := (\<lambda>i. if i < NDIRECT + 1 then get32 (off + 12 + 4 * i) bs else i_addrs ip i)\<rparr>"

definition iget :: "uint \<Rightarrow> uint \<Rightarrow> ('a fsst_scheme, nat) kprog" where
  "iget dev inum =
     thenS (acquireS ItableLock) (
     bindS (getD inodes) (\<lambda>tb.
     case List.find (\<lambda>ip. 0 < sint (i_ref (tb ip)) \<and> i_dev (tb ip) = dev \<and> i_inum (tb ip) = inum) [0..<NINODE] of
       Some ip \<Rightarrow>
         thenS (modD (upd_inode ip (\<lambda>x. x\<lparr>i_ref := i_ref x + 1\<rparr>))) (
         thenS (releaseS ItableLock) (retS ip))
     | None \<Rightarrow>
         (case List.find (\<lambda>ip. i_ref (tb ip) = 0) [0..<NINODE] of
            None \<Rightarrow> failS (Panic ''iget: no inodes'')
          | Some ip \<Rightarrow>
              thenS (modD (upd_inode ip (\<lambda>x. x\<lparr>i_dev := dev, i_inum := inum, i_ref := 1, i_valid := False\<rparr>))) (
              thenS (releaseS ItableLock) (retS ip)))))"

definition ialloc :: "'a fsst_scheme env \<Rightarrow> uint \<Rightarrow> uint16 \<Rightarrow> ('a fsst_scheme, nat option) kprog" where
  "ialloc E dev type' =
     bindS (getD sb) (\<lambda>s.
     bindS (searchS [1..<unat (sb_ninodes s)] (\<lambda>inum.
       bindS (bread E dev (IBLOCK (of_nat inum) s)) (\<lambda>bp.
       bindS (bdata bp) (\<lambda>bs.
       let off = dinode_off (of_nat inum) in
       if get16 off bs = 0
       then
         thenS (set_bdata bp (put16 off type' (put_bytes off (replicate 64 0) bs))) (
         thenS (log_write bp) (
         thenS (brelse bp) (
         bindS (iget dev (of_nat inum)) (\<lambda>ip. retS (Some ip)))))
       else thenS (brelse bp) (retS None))))) (\<lambda>r.
     case r of
       Some ip \<Rightarrow> retS (Some ip)
     | None \<Rightarrow> thenS (printfS ''ialloc: no inodes\<newline>'' []) (retS None)))"

definition iupdate :: "'a fsst_scheme env \<Rightarrow> nat \<Rightarrow> ('a fsst_scheme, unit) kprog" where
  "iupdate E ip =
     bindS (getD sb) (\<lambda>s.
     bindS (getI ip (\<lambda>x. (i_dev x, i_inum x))) (\<lambda>(dev, inum).
     bindS (bread E dev (IBLOCK inum s)) (\<lambda>bp.
     bindS (bdata bp) (\<lambda>bs.
     bindS (getI ip (\<lambda>x. x)) (\<lambda>x.
     thenS (set_bdata bp (dinode_put (dinode_off inum) x bs)) (
     thenS (log_write bp) (
     brelse bp)))))))"

definition idup :: "nat \<Rightarrow> ('a fsst_scheme, nat) kprog" where
  "idup ip =
     thenS (acquireS ItableLock) (
     thenS (modD (upd_inode ip (\<lambda>x. x\<lparr>i_ref := i_ref x + 1\<rparr>))) (
     thenS (releaseS ItableLock) (retS ip)))"

definition ilock :: "'a fsst_scheme env \<Rightarrow> nat option \<Rightarrow> ('a fsst_scheme, unit) kprog" where
  "ilock E ipo =
     (case ipo of
        None \<Rightarrow> failS (Panic ''ilock'')
      | Some ip \<Rightarrow> bindS (getI ip i_ref) (\<lambda>ref.
          if sint ref < 1 then failS (Panic ''ilock'')
          else
            thenS (acquiresleep E (InodeLk ip)) (
            bindS (getI ip i_valid) (\<lambda>valid. whenS (\<not> valid) (
              bindS (getD sb) (\<lambda>s.
              bindS (getI ip (\<lambda>x. (i_dev x, i_inum x))) (\<lambda>(dev, inum).
              bindS (bread E dev (IBLOCK inum s)) (\<lambda>bp.
              bindS (bdata bp) (\<lambda>bs.
              thenS (modD (upd_inode ip (dinode_get (dinode_off inum) bs))) (
              thenS (brelse bp) (
              thenS (modD (upd_inode ip (\<lambda>x. x\<lparr>i_valid := True\<rparr>))) (
              bindS (getI ip i_type) (\<lambda>t. whenS (t = 0) (failS (Panic ''ilock: no type'')))))))))))))))"

definition iunlock :: "nat option \<Rightarrow> ('a fsst_scheme, unit) kprog" where
  "iunlock ipo =
     (case ipo of
        None \<Rightarrow> failS (Panic ''iunlock'')
      | Some ip \<Rightarrow> bindS (holdingsleep (InodeLk ip)) (\<lambda>hold.
          bindS (getI ip i_ref) (\<lambda>ref.
          if \<not> hold \<or> sint ref < 1 then failS (Panic ''iunlock'') else releasesleep (InodeLk ip))))"

section \<open>Inode content\<close>

definition bmap :: "'a fsst_scheme env \<Rightarrow> nat \<Rightarrow> nat \<Rightarrow> ('a fsst_scheme, uint) kprog" where
  "bmap E ip bn =
     bindS (getI ip (\<lambda>x. x)) (\<lambda>x.
     if bn < NDIRECT
     then (if i_addrs x bn \<noteq> 0 then retS (i_addrs x bn)
           else bindS (balloc E (i_dev x)) (\<lambda>addr.
             if addr = 0 then retS 0
             else thenS (modD (upd_inode ip (\<lambda>x. x\<lparr>i_addrs := (i_addrs x)(bn := addr)\<rparr>))) (retS addr)))
     else if bn - NDIRECT < NINDIRECT
     then
       bindS (if i_addrs x NDIRECT \<noteq> 0 then retS (i_addrs x NDIRECT)
              else bindS (balloc E (i_dev x)) (\<lambda>addr.
                thenS (whenS (addr \<noteq> 0) (modD (upd_inode ip (\<lambda>x. x\<lparr>i_addrs := (i_addrs x)(NDIRECT := addr)\<rparr>)))) (retS addr))) (\<lambda>ind.
       if ind = 0 then retS 0
       else
         bindS (bread E (i_dev x) ind) (\<lambda>bp.
         bindS (bdata bp) (\<lambda>bs.
         let a = get32 (4 * (bn - NDIRECT)) bs in
         bindS (if a \<noteq> 0 then retS a
                else bindS (balloc E (i_dev x)) (\<lambda>addr.
                  thenS (whenS (addr \<noteq> 0) (
                    bindS (bdata bp) (\<lambda>bs.
                    thenS (set_bdata bp (put32 (4 * (bn - NDIRECT)) addr bs)) (log_write bp))))
                  (retS addr))) (\<lambda>addr.
         thenS (brelse bp) (retS addr)))))
     else failS (Panic ''bmap: out of range''))"

definition itrunc :: "'a fsst_scheme env \<Rightarrow> nat \<Rightarrow> ('a fsst_scheme, unit) kprog" where
  "itrunc E ip =
     bindS (getI ip i_dev) (\<lambda>dev.
     thenS (forS [0..<NDIRECT] (\<lambda>i.
       bindS (getI ip (\<lambda>x. i_addrs x i)) (\<lambda>a. whenS (a \<noteq> 0) (
         thenS (bfree E dev a) (
         modD (upd_inode ip (\<lambda>x. x\<lparr>i_addrs := (i_addrs x)(i := 0)\<rparr>))))))) (
     bindS (getI ip (\<lambda>x. i_addrs x NDIRECT)) (\<lambda>ind.
     thenS (whenS (ind \<noteq> 0) (
       bindS (bread E dev ind) (\<lambda>bp.
       thenS (forS [0..<NINDIRECT] (\<lambda>j.
         bindS (bdata bp) (\<lambda>bs. whenS (get32 (4 * j) bs \<noteq> 0) (bfree E dev (get32 (4 * j) bs))))) (
       thenS (brelse bp) (
       thenS (bfree E dev ind) (
       modD (upd_inode ip (\<lambda>x. x\<lparr>i_addrs := (i_addrs x)(NDIRECT := 0)\<rparr>)))))))) (
     thenS (modD (upd_inode ip (\<lambda>x. x\<lparr>i_size := 0\<rparr>))) (
     iupdate E ip)))))"

definition iput :: "'a fsst_scheme env \<Rightarrow> nat \<Rightarrow> ('a fsst_scheme, unit) kprog" where
  "iput E ip =
     thenS (acquireS ItableLock) (
     bindS (getI ip (\<lambda>x. x)) (\<lambda>x.
     thenS (whenS (i_ref x = 1 \<and> i_valid x \<and> i_nlink x = 0) (
       thenS (acquiresleep E (InodeLk ip)) (
       thenS (releaseS ItableLock) (
       thenS (itrunc E ip) (
       thenS (modD (upd_inode ip (\<lambda>x. x\<lparr>i_type := 0\<rparr>))) (
       thenS (iupdate E ip) (
       thenS (modD (upd_inode ip (\<lambda>x. x\<lparr>i_valid := False\<rparr>))) (
       thenS (releasesleep (InodeLk ip)) (
       acquireS ItableLock))))))))) (
     thenS (modD (upd_inode ip (\<lambda>x. x\<lparr>i_ref := i_ref x - 1\<rparr>))) (
     releaseS ItableLock))))"

definition iunlockput :: "'a fsst_scheme env \<Rightarrow> nat \<Rightarrow> ('a fsst_scheme, unit) kprog" where
  "iunlockput E ip = thenS (iunlock (Some ip)) (iput E ip)"

record stat =
  st_dev :: cint
  st_ino :: uint
  st_type :: uint16
  st_nlink :: uint16
  st_size :: uint64

definition stati :: "inode \<Rightarrow> stat" where
  "stati x = \<lparr>st_dev = i_dev x, st_ino = i_inum x, st_type = i_type x, st_nlink = i_nlink x, st_size = ucast (i_size x)\<rparr>"

text \<open>
  The rounds of the loops of \<open>readi\<close> and \<open>writei\<close>: the pieces, each within one block, of the range of
  \<open>n\<close> bytes at \<open>off\<close>, as offset and length.
\<close>

function chunks :: "nat \<Rightarrow> nat \<Rightarrow> (nat \<times> nat) list" where
  "chunks off n = (if n = 0 then [] else let m = min n (BSIZE - off mod BSIZE) in (off, m) # chunks (off + m) (n - m))"
  by pat_completeness auto
termination
  by (relation "measure snd") (auto simp: BSIZE_def)

declare chunks.simps [simp del]

text \<open>The result is what the function returns and the bytes read, for callers that read into a local variable.\<close>

primrec readi_loop :: "'a fsst_scheme env \<Rightarrow> nat \<Rightarrow> dest \<Rightarrow> uint \<Rightarrow> uint8 list \<Rightarrow> (nat \<times> nat) list \<Rightarrow> ('a fsst_scheme, cint \<times> uint8 list) kprog" where
  "readi_loop E ip dst tot acc [] = retS (tot, acc)"
| "readi_loop E ip dst tot acc (c # cs) = (case c of (off, m) \<Rightarrow>
     bindS (bmap E ip (off div BSIZE)) (\<lambda>addr.
     if addr = 0 then retS (tot, acc)
     else
       bindS (getI ip i_dev) (\<lambda>dev.
       bindS (bread E dev addr) (\<lambda>bp.
       bindS (bdata bp) (\<lambda>bs.
       let seg = get_bytes (off mod BSIZE) m bs in
       bindS (either_copyout dst seg) (\<lambda>r.
       thenS (brelse bp) (
       if r = - 1 then retS (- 1, acc)
       else readi_loop E ip (dst_plus dst m) (tot + of_nat m) (acc @ seg) cs)))))))"

definition readi :: "'a fsst_scheme env \<Rightarrow> nat \<Rightarrow> dest \<Rightarrow> uint \<Rightarrow> uint \<Rightarrow> ('a fsst_scheme, cint \<times> uint8 list) kprog" where
  "readi E ip dst off n =
     bindS (getI ip i_size) (\<lambda>size'.
     if size' < off \<or> off + n < off then retS (0, [])
     else let n = (if size' < off + n then size' - off else n)
          in readi_loop E ip dst 0 [] (chunks (unat off) (unat n)))"

text \<open>The result is the number of bytes written.\<close>

primrec writei_loop :: "'a fsst_scheme env \<Rightarrow> nat \<Rightarrow> source \<Rightarrow> uint \<Rightarrow> (nat \<times> nat) list \<Rightarrow> ('a fsst_scheme, uint) kprog" where
  "writei_loop E ip src tot [] = retS tot"
| "writei_loop E ip src tot (c # cs) = (case c of (off, m) \<Rightarrow>
     bindS (bmap E ip (off div BSIZE)) (\<lambda>addr.
     if addr = 0 then retS tot
     else
       bindS (getI ip i_dev) (\<lambda>dev.
       bindS (bread E dev addr) (\<lambda>bp.
       bindS (either_copyin src m) (\<lambda>(r, seg).
       bindS (bdata bp) (\<lambda>bs.
       thenS (set_bdata bp (put_bytes (off mod BSIZE) seg bs)) (
       if r = - 1 then thenS (brelse bp) (retS tot)
       else
         thenS (log_write bp) (
         thenS (brelse bp) (
         writei_loop E ip (src_plus src m) (tot + of_nat m) cs)))))))))"

definition writei :: "'a fsst_scheme env \<Rightarrow> nat \<Rightarrow> source \<Rightarrow> uint \<Rightarrow> uint \<Rightarrow> ('a fsst_scheme, cint) kprog" where
  "writei E ip src off n =
     bindS (getI ip i_size) (\<lambda>size'.
     if size' < off \<or> off + n < off then retS (- 1)
     else if of_nat (MAXFILE * BSIZE) < off + n then retS (- 1)
     else
       bindS (writei_loop E ip src 0 (chunks (unat off) (unat n))) (\<lambda>tot.
       thenS (modD (upd_inode ip (\<lambda>x. if i_size x < off + tot then x\<lparr>i_size := off + tot\<rparr> else x))) (
       thenS (iupdate E ip) (
       retS tot))))"

section \<open>Directories\<close>

text \<open>A directory entry: an inode number and a name field of \<open>DIRSIZ\<close> bytes.\<close>

record dirent =
  de_inum :: uint16
  de_name :: "uint8 list"

definition dirent_of :: "uint8 list \<Rightarrow> dirent" where
  "dirent_of bs = \<lparr>de_inum = get16 0 bs, de_name = get_bytes 2 DIRSIZ bs\<rparr>"

definition dirent_bytes :: "dirent \<Rightarrow> uint8 list" where
  "dirent_bytes de = le_bytes 2 (de_inum de) @ de_name de"

definition namecmp :: "uint8 list \<Rightarrow> uint8 list \<Rightarrow> cint" where
  "namecmp s t = strncmp (cstr_of s) (cstr_of t) DIRSIZ"

definition dir_offsets :: "uint \<Rightarrow> uint list" where
  "dir_offsets size' = map (\<lambda>i. of_nat (16 * i)) [0..<(unat size' + 15) div 16]"

definition read_dirent :: "'a fsst_scheme env \<Rightarrow> string \<Rightarrow> nat \<Rightarrow> uint \<Rightarrow> ('a fsst_scheme, dirent) kprog" where
  "read_dirent E msg dp off =
     bindS (readi E dp LocalDst off 16) (\<lambda>(r, bs).
     if r \<noteq> 16 then failS (Panic msg) else retS (dirent_of bs))"

text \<open>The inode found and the offset of its entry, which the code stores through \<open>poff\<close>.\<close>

definition dirlookup :: "'a fsst_scheme env \<Rightarrow> nat \<Rightarrow> uint8 list \<Rightarrow> ('a fsst_scheme, (nat \<times> uint) option) kprog" where
  "dirlookup E dp name =
     bindS (getI dp (\<lambda>x. x)) (\<lambda>x.
     if i_type x \<noteq> T_DIR then failS (Panic ''dirlookup not DIR'')
     else searchS (dir_offsets (i_size x)) (\<lambda>off.
       bindS (read_dirent E ''dirlookup read'' dp off) (\<lambda>de.
       if de_inum de = 0 then retS None
       else if namecmp name (de_name de) = 0
       then bindS (iget (i_dev x) (ucast (de_inum de))) (\<lambda>ip. retS (Some (ip, off)))
       else retS None)))"

definition dirlink :: "'a fsst_scheme env \<Rightarrow> nat \<Rightarrow> uint8 list \<Rightarrow> uint \<Rightarrow> ('a fsst_scheme, cint) kprog" where
  "dirlink E dp name inum =
     bindS (dirlookup E dp name) (\<lambda>r.
     case r of
       Some (ip, _) \<Rightarrow> thenS (iput E ip) (retS (- 1))
     | None \<Rightarrow>
         bindS (getI dp i_size) (\<lambda>size'.
         bindS (searchS (dir_offsets size') (\<lambda>off.
           bindS (read_dirent E ''dirlink read'' dp off) (\<lambda>de.
           retS (if de_inum de = 0 then Some off else None)))) (\<lambda>r.
         let off = (case r of Some off \<Rightarrow> off | None \<Rightarrow> of_nat (16 * length (dir_offsets size')));
             de = \<lparr>de_inum = ucast inum, de_name = strncpy (cstr_of name) DIRSIZ\<rparr>
         in bindS (writei E dp (KernelSrc (dirent_bytes de)) off 16) (\<lambda>r.
              retS (if r \<noteq> 16 then - 1 else 0)))))"

section \<open>Paths\<close>

text \<open>
  A path is the list of its bytes before the terminating NUL. The result is the rest of the path and the
  bytes stored in \<open>name\<close>.
\<close>

definition slash :: uint8 where "slash = 0x2f"

definition skipelem :: "uint8 list \<Rightarrow> (uint8 list \<times> uint8 list) option" where
  "skipelem path =
     (let path = dropWhile (\<lambda>c. c = slash) path in
      if path = [] then None
      else let s = takeWhile (\<lambda>c. c \<noteq> slash) path;
               path = dropWhile (\<lambda>c. c \<noteq> slash) path;
               name = (if DIRSIZ \<le> length s then take DIRSIZ s else s @ [0])
           in Some (dropWhile (\<lambda>c. c = slash) path, name))"

text \<open>What the loop of \<open>namex\<close> sees: each name with the rest of the path behind it.\<close>

lemma skipelem_shorter: "skipelem path = Some (rest, name) \<Longrightarrow> length rest < length path"
proof -
  assume s: "skipelem path = Some (rest, name)"
  let ?p = "dropWhile (\<lambda>c. c = slash) path"
  have ne: "?p \<noteq> []" and rest: "rest = dropWhile (\<lambda>c. c = slash) (dropWhile (\<lambda>c. c \<noteq> slash) ?p)"
    using s by (auto simp: skipelem_def Let_def split: if_splits)
  from ne have "hd ?p \<noteq> slash" by (rule hd_dropWhile)
  with ne have "length (dropWhile (\<lambda>c. c \<noteq> slash) ?p) < length ?p"
    by (cases ?p) (auto simp: le_imp_less_Suc length_dropWhile_le)
  also have "\<dots> \<le> length path" by (rule length_dropWhile_le)
  finally show ?thesis unfolding rest using length_dropWhile_le le_less_trans by blast
qed

function path_elems :: "uint8 list \<Rightarrow> (uint8 list \<times> uint8 list) list" where
  "path_elems path = (case skipelem path of None \<Rightarrow> [] | Some (rest, name) \<Rightarrow> (name, rest) # path_elems rest)"
  by pat_completeness auto
termination
  by (relation "measure length") (auto simp: skipelem_shorter)

declare path_elems.simps [simp del]

primrec namex_loop :: "'a fsst_scheme env \<Rightarrow> bool \<Rightarrow> nat \<Rightarrow> uint8 list \<Rightarrow> (uint8 list \<times> uint8 list) list \<Rightarrow>
    ('a fsst_scheme, (nat \<times> uint8 list) option) kprog" where
  "namex_loop E parent ip name [] =
     (if parent then thenS (iput E ip) (retS None) else retS (Some (ip, name)))"
| "namex_loop E parent ip name0 (e # es) = (case e of (name, rest) \<Rightarrow>
     thenS (ilock E (Some ip)) (
     bindS (getI ip i_type) (\<lambda>t.
     if t \<noteq> T_DIR then thenS (iunlockput E ip) (retS None)
     else if parent \<and> rest = [] then thenS (iunlock (Some ip)) (retS (Some (ip, name)))
     else
       bindS (dirlookup E ip name) (\<lambda>r.
       case r of
         None \<Rightarrow> thenS (iunlockput E ip) (retS None)
       | Some (next', _) \<Rightarrow> thenS (iunlockput E ip) (namex_loop E parent next' name es)))))"

definition namex :: "'a fsst_scheme env \<Rightarrow> uint8 list \<Rightarrow> bool \<Rightarrow> ('a fsst_scheme, (nat \<times> uint8 list) option) kprog" where
  "namex E path parent =
     bindS (if path \<noteq> [] \<and> hd path = slash then iget ROOTDEV ROOTINO
            else bindS curS (\<lambda>p. bindS (getD (\<lambda>d. p_cwd (procs d p))) (\<lambda>cwd. derefS cwd idup))) (\<lambda>ip.
     namex_loop E parent ip [] (path_elems path))"

definition namei :: "'a fsst_scheme env \<Rightarrow> uint8 list \<Rightarrow> ('a fsst_scheme, nat option) kprog" where
  "namei E path = bindS (namex E path False) (\<lambda>r. retS (map_option fst r))"

definition nameiparent :: "'a fsst_scheme env \<Rightarrow> uint8 list \<Rightarrow> ('a fsst_scheme, (nat \<times> uint8 list) option) kprog" where
  "nameiparent E path = namex E path True"

end
