(* ===== verification/Console.thy ===== *)
theory Console
  imports Fs
begin

text \<open>
  Console input and output: the UART driver \<open>kernel/uart.c\<close>, line editing in \<open>kernel/console.c\<close> and
  \<open>procdump\<close> of \<open>kernel/proc.c\<close>, which control-P runs.

  The registers of the UART are read from a tape, \<open>uart_in\<close>: the values its successive reads return. A
  loop that polls a register ends with the tape. Stores to the registers are appended to \<open>uart_out\<close>.
\<close>

section \<open>Data\<close>

definition UART_TX_BUF_SIZE :: nat where "UART_TX_BUF_SIZE = 32"
definition INPUT_BUF_SIZE :: nat where "INPUT_BUF_SIZE = 128"
definition NDEV :: nat where "NDEV = 10"
definition CONSOLE :: nat where "CONSOLE = 1"

text \<open>Registers and their bits.\<close>

definition RHR :: nat where "RHR = 0"
definition THR :: nat where "THR = 0"
definition IER :: nat where "IER = 1"
definition IER_RX_ENABLE :: uint8 where "IER_RX_ENABLE = 1"
definition IER_TX_ENABLE :: uint8 where "IER_TX_ENABLE = 2"
definition FCR :: nat where "FCR = 2"
definition FCR_FIFO_ENABLE :: uint8 where "FCR_FIFO_ENABLE = 1"
definition FCR_FIFO_CLEAR :: uint8 where "FCR_FIFO_CLEAR = 6"
definition LCR :: nat where "LCR = 3"
definition LCR_EIGHT_BITS :: uint8 where "LCR_EIGHT_BITS = 3"
definition LCR_BAUD_LATCH :: uint8 where "LCR_BAUD_LATCH = 0x80"
definition LSR :: nat where "LSR = 5"
definition LSR_RX_READY :: uint8 where "LSR_RX_READY = 1"
definition LSR_TX_IDLE :: uint8 where "LSR_TX_IDLE = 0x20"

text \<open>The functions a device's entry of \<open>devsw\<close> points to.\<close>

datatype devops = ConsoleOps

record cons =
  c_buf :: "nat \<Rightarrow> uint8"
  c_r :: uint
  c_w :: uint
  c_e :: uint

record cst = fsst +
  uart_in :: "uint8 list"
  uart_out :: "(nat \<times> uint8) list"
  uart_tx_buf :: "nat \<Rightarrow> uint8"
  uart_tx_w :: uint64
  uart_tx_r :: uint64
  panicked :: bool
  kcons :: cons
  devsw :: "nat \<Rightarrow> devops option"

definition upd_cons :: "(cons \<Rightarrow> cons) \<Rightarrow> 'a cst_scheme \<Rightarrow> 'a cst_scheme" where
  "upd_cons f d = d\<lparr>kcons := f (kcons d)\<rparr>"

section \<open>UART\<close>

definition ReadReg :: "nat \<Rightarrow> ('a cst_scheme, uint8) kprog" where
  "ReadReg r = bindS (getD uart_in) (\<lambda>tape.
     case tape of [] \<Rightarrow> failS OutOfFuel | v # rest \<Rightarrow> thenS (modD (\<lambda>d. d\<lparr>uart_in := rest\<rparr>)) (retS v))"

definition WriteReg :: "nat \<Rightarrow> uint8 \<Rightarrow> ('a cst_scheme, unit) kprog" where
  "WriteReg r v = modD (\<lambda>d. d\<lparr>uart_out := uart_out d @ [(r, v)]\<rparr>)"

definition uartinit :: "('a cst_scheme, unit) kprog" where
  "uartinit =
     thenS (WriteReg IER 0x00) (
     thenS (WriteReg LCR LCR_BAUD_LATCH) (
     thenS (WriteReg 0 0x03) (
     thenS (WriteReg 1 0x00) (
     thenS (WriteReg LCR LCR_EIGHT_BITS) (
     thenS (WriteReg FCR (FCR_FIFO_ENABLE OR FCR_FIFO_CLEAR)) (
     thenS (WriteReg IER (IER_TX_ENABLE OR IER_RX_ENABLE)) (
     hartS (\<lambda>h. Inr ((), initlock UartLock ''uart'' h)))))))))"

text \<open>The transmit buffer.\<close>

definition tx_empty :: "'a cst_scheme \<Rightarrow> bool" where
  "tx_empty d \<longleftrightarrow> uart_tx_w d = uart_tx_r d"

definition tx_full :: "'a cst_scheme \<Rightarrow> bool" where
  "tx_full d \<longleftrightarrow> uart_tx_w d = uart_tx_r d + of_nat UART_TX_BUF_SIZE"

definition tx_put :: "uint8 \<Rightarrow> 'a cst_scheme \<Rightarrow> 'a cst_scheme" where
  "tx_put c d = d\<lparr>uart_tx_buf := (uart_tx_buf d)(unat (uart_tx_w d) mod UART_TX_BUF_SIZE := c), uart_tx_w := uart_tx_w d + 1\<rparr>"

definition tx_get :: "'a cst_scheme \<Rightarrow> uint8 \<times> 'a cst_scheme" where
  "tx_get d = (uart_tx_buf d (unat (uart_tx_r d) mod UART_TX_BUF_SIZE), d\<lparr>uart_tx_r := uart_tx_r d + 1\<rparr>)"

text \<open>Every round sends a byte, so there are no more rounds than bytes in the buffer.\<close>

primrec uartstart_loop :: "nat \<Rightarrow> ('a cst_scheme, unit) kprog" where
  "uartstart_loop 0 = retS ()"
| "uartstart_loop (Suc n) =
     bindS (getD tx_empty) (\<lambda>none. if none then retS ()
     else bindS (ReadReg LSR) (\<lambda>lsr. if lsr AND LSR_TX_IDLE = 0 then retS ()
     else bindS (dataS (\<lambda>d. Inr (tx_get d))) (\<lambda>c.
       thenS (wakeupS ChanUart) (
       thenS (WriteReg THR c) (
       uartstart_loop n)))))"

definition uartstart :: "('a cst_scheme, unit) kprog" where
  "uartstart = bindS (getD (\<lambda>d. unat (uart_tx_w d - uart_tx_r d))) uartstart_loop"

definition uartputc :: "'a cst_scheme env \<Rightarrow> uint8 \<Rightarrow> ('a cst_scheme, unit) kprog" where
  "uartputc E c =
     thenS (acquireS UartLock) (
     bindS (getD panicked) (\<lambda>p. if p then failS Spin
     else
       thenS (sleep_while E tx_full ChanUart UartLock) (
       thenS (modD (tx_put c)) (
       thenS uartstart (
       releaseS UartLock)))))"

primrec wait_tx_idle :: "nat \<Rightarrow> ('a cst_scheme, unit) kprog" where
  "wait_tx_idle 0 = failS OutOfFuel"
| "wait_tx_idle (Suc n) = bindS (ReadReg LSR) (\<lambda>lsr. if lsr AND LSR_TX_IDLE = 0 then wait_tx_idle n else retS ())"

definition uartputc_sync :: "uint8 \<Rightarrow> ('a cst_scheme, unit) kprog" where
  "uartputc_sync c =
     thenS (hartS (\<lambda>h. Inr ((), push_off h))) (
     bindS (getD panicked) (\<lambda>p. if p then failS Spin
     else
       thenS (bindS (getD (\<lambda>d. length (uart_in d) + 1)) wait_tx_idle) (
       thenS (WriteReg THR c) (
       hartS (\<lambda>h. bindR (pop_off h) (\<lambda>h. Inr ((), h)))))))"

text \<open>\<open>None\<close> for -1.\<close>

definition uartgetc :: "('a cst_scheme, uint8 option) kprog" where
  "uartgetc =
     bindS (ReadReg LSR) (\<lambda>lsr.
     if lsr AND 0x01 \<noteq> 0 then bindS (ReadReg RHR) (\<lambda>c. retS (Some c)) else retS None)"

section \<open>Console\<close>

text \<open>\<open>None\<close> is the code \<open>BACKSPACE\<close>.\<close>

definition consputc :: "uint8 option \<Rightarrow> ('a cst_scheme, unit) kprog" where
  "consputc c =
     (case c of
        None \<Rightarrow> thenS (uartputc_sync 8) (thenS (uartputc_sync 0x20) (uartputc_sync 8))
      | Some c \<Rightarrow> uartputc_sync c)"

text \<open>The result counts the bytes sent.\<close>

primrec consolewrite_loop :: "'a cst_scheme env \<Rightarrow> source \<Rightarrow> nat \<Rightarrow> nat list \<Rightarrow> ('a cst_scheme, nat) kprog" where
  "consolewrite_loop E src i [] = retS i"
| "consolewrite_loop E src i (j # js) =
     bindS (either_copyin (src_plus src j) 1) (\<lambda>(r, bs).
     if r = - 1 then retS i else thenS (uartputc E (hd bs)) (consolewrite_loop E src (Suc i) js))"

definition consolewrite :: "'a cst_scheme env \<Rightarrow> source \<Rightarrow> cint \<Rightarrow> ('a cst_scheme, cint) kprog" where
  "consolewrite E src n = bindS (consolewrite_loop E src 0 [0..<nat (sint n)]) (\<lambda>i. retS (of_nat i))"

text \<open>\<open>True\<close> when the process was killed while it waited.\<close>

primrec cons_wait :: "nat \<Rightarrow> 'a cst_scheme env \<Rightarrow> ('a cst_scheme, bool) kprog" where
  "cons_wait 0 E = failS OutOfFuel"
| "cons_wait (Suc n) E =
     bindS (getD (\<lambda>d. c_r (kcons d) = c_w (kcons d))) (\<lambda>empty. if \<not> empty then retS False
     else bindS curS (\<lambda>p. bindS (killed p) (\<lambda>k. if k then retS True
       else thenS (sleepS E ChanConsole ConsLock) (cons_wait n E))))"

text \<open>
  The loop of \<open>consoleread\<close> with \<open>n\<close> bytes to go, of \<open>target\<close>. The result is \<open>n\<close> at the end of the loop, or
  \<open>None\<close> for the early return of a killed process.
\<close>

primrec consoleread_loop :: "'a cst_scheme env \<Rightarrow> nat \<Rightarrow> dest \<Rightarrow> nat \<Rightarrow> ('a cst_scheme, nat option) kprog" where
  "consoleread_loop E target dst 0 = retS (Some 0)"
| "consoleread_loop E target dst (Suc n) =
     bindS (cons_wait (e_fuel E) E) (\<lambda>k.
     if k then thenS (releaseS ConsLock) (retS None)
     else
       bindS (getD (\<lambda>d. c_buf (kcons d) (unat (c_r (kcons d)) mod INPUT_BUF_SIZE))) (\<lambda>c.
       thenS (modD (upd_cons (\<lambda>k. k\<lparr>c_r := c_r k + 1\<rparr>))) (
       if c = 4
       then thenS (whenS (Suc n < target) (modD (upd_cons (\<lambda>k. k\<lparr>c_r := c_r k - 1\<rparr>)))) (retS (Some (Suc n)))
       else
         bindS (either_copyout dst [c]) (\<lambda>r.
         if r = - 1 then retS (Some (Suc n))
         else if c = 10 then retS (Some n)
         else consoleread_loop E target (dst_plus dst 1) n))))"

definition consoleread :: "'a cst_scheme env \<Rightarrow> dest \<Rightarrow> cint \<Rightarrow> ('a cst_scheme, cint) kprog" where
  "consoleread E dst n =
     (let target = nat (sint n) in
      thenS (acquireS ConsLock) (
      bindS (consoleread_loop E target dst target) (\<lambda>r.
      case r of
        None \<Rightarrow> retS (- 1)
      | Some left' \<Rightarrow> thenS (releaseS ConsLock) (retS (of_nat (target - left'))))))"

text \<open>\<open>proc.c\<close>: the process listing.\<close>

definition state_name :: "procstate \<Rightarrow> string" where
  "state_name s = (case s of UNUSED \<Rightarrow> ''unused'' | USED \<Rightarrow> ''used'' | SLEEPING \<Rightarrow> ''sleep '' | RUNNABLE \<Rightarrow> ''runble''
     | RUNNING \<Rightarrow> ''run   '' | ZOMBIE \<Rightarrow> ''zombie'')"

definition procdump :: "('a pst_scheme, unit) kprog" where
  "procdump =
     thenS (printfS ''\<newline>'' []) (
     forS [0..<NPROC] (\<lambda>p.
       bindS (getD (\<lambda>d. procs d p)) (\<lambda>x.
       whenS (p_state x \<noteq> UNUSED) (
         thenS (printfS ''%d %s %s %d''
           [PInt (p_pid x), PStr (bytes_of (state_name (p_state x))), PStr (p_name x), PInt (of_nat (p_queue_number x))]) (
         printfS ''\<newline>'' [])))))"

text \<open>Every round of the loop that kills the line moves \<open>e\<close> one step towards \<open>w\<close>.\<close>

primrec kill_line :: "nat \<Rightarrow> ('a cst_scheme, unit) kprog" where
  "kill_line 0 = retS ()"
| "kill_line (Suc n) =
     bindS (getD kcons) (\<lambda>k.
     if c_e k \<noteq> c_w k \<and> c_buf k (unat (c_e k - 1) mod INPUT_BUF_SIZE) \<noteq> 10
     then thenS (modD (upd_cons (\<lambda>k. k\<lparr>c_e := c_e k - 1\<rparr>))) (thenS (consputc None) (kill_line n))
     else retS ())"

definition consoleintr :: "uint8 \<Rightarrow> ('a cst_scheme, unit) kprog" where
  "consoleintr c =
     thenS (acquireS ConsLock) (
     bindS (getD kcons) (\<lambda>k.
     thenS (
       if c = 0x10 then procdump
       else if c = 0x15 then kill_line (unat (c_e k - c_w k))
       else if c = 8 \<or> c = 0x7f
       then whenS (c_e k \<noteq> c_w k) (thenS (modD (upd_cons (\<lambda>k. k\<lparr>c_e := c_e k - 1\<rparr>))) (consputc None))
       else whenS (c \<noteq> 0 \<and> c_e k - c_r k < of_nat INPUT_BUF_SIZE) (
         let c = (if c = 13 then 10 else c) in
         thenS (consputc (Some c)) (
         thenS (modD (upd_cons (\<lambda>k. k\<lparr>c_buf := (c_buf k)(unat (c_e k) mod INPUT_BUF_SIZE := c), c_e := c_e k + 1\<rparr>))) (
         bindS (getD kcons) (\<lambda>k.
         whenS (c = 10 \<or> c = 4 \<or> c_e k - c_r k = of_nat INPUT_BUF_SIZE) (
           thenS (modD (upd_cons (\<lambda>k. k\<lparr>c_w := c_e k\<rparr>))) (
           wakeupS ChanConsole)))))))
     (releaseS ConsLock)))"

primrec uartintr_loop :: "nat \<Rightarrow> ('a cst_scheme, unit) kprog" where
  "uartintr_loop 0 = failS OutOfFuel"
| "uartintr_loop (Suc n) =
     bindS uartgetc (\<lambda>c. case c of None \<Rightarrow> retS () | Some c \<Rightarrow> thenS (consoleintr c) (uartintr_loop n))"

definition uartintr :: "('a cst_scheme, unit) kprog" where
  "uartintr =
     thenS (bindS (getD (\<lambda>d. length (uart_in d) + 1)) uartintr_loop) (
     thenS (acquireS UartLock) (
     thenS uartstart (
     releaseS UartLock)))"

definition consoleinit :: "('a cst_scheme, unit) kprog" where
  "consoleinit =
     thenS (hartS (\<lambda>h. Inr ((), initlock ConsLock ''cons'' h))) (
     thenS uartinit (
     modD (\<lambda>d. d\<lparr>devsw := (devsw d)(CONSOLE := Some ConsoleOps)\<rparr>)))"

end
