(* ===== verification/Digits.thy ===== *)
theory Digits
  imports Block
begin

text \<open>
  Writing a number in a base, as the loops of \<open>kernel/printf.c\<close> and \<open>user/printf.c\<close> do it, and reading it back. The two
  differ in the table of digits, which is a parameter.
\<close>

lemma unat_div_less: "x div b \<noteq> 0 \<Longrightarrow> \<not> unat b < 2 \<Longrightarrow> unat (x div b) < unat x" for x b :: uint
  by (cases "x = 0") (auto simp: unat_div unat_gt_0)

text \<open>The digits of \<open>x\<close>, the last one first, as the loop stores them in \<open>buf\<close>. The bases used are 10 and 16.\<close>

function digits_of :: "uint8 list \<Rightarrow> uint \<Rightarrow> uint \<Rightarrow> uint8 list" where
  "digits_of tab base x =
     tab ! unat (x mod base) #
       (if x div base = 0 \<or> unat base < 2 then [] else digits_of tab base (x div base))"
  by pat_completeness auto
termination
  by (relation "measure (\<lambda>(t, b, x). unat x)") (auto simp: unat_div_less)

declare digits_of.simps [simp del]

section \<open>Reading digits\<close>

text \<open>Digits are 0 to 9 and then letters, of either case.\<close>

definition digit_value :: "uint8 \<Rightarrow> nat" where
  "digit_value c = (if c < 0x41 then unat c - 0x30 else if c < 0x61 then unat c - 0x37 else unat c - 0x57)"

definition digit_table :: "uint8 list \<Rightarrow> bool" where
  "digit_table tab \<longleftrightarrow> list_all (\<lambda>k. digit_value (tab ! k) = k \<and> tab ! k \<noteq> 0x2d) [0..<16]"

definition read_digits :: "nat \<Rightarrow> uint8 list \<Rightarrow> nat" where
  "read_digits b cs = foldl (\<lambda>v c. b * v + digit_value c) 0 cs"

definition read_int :: "nat \<Rightarrow> uint8 list \<Rightarrow> int" where
  "read_int b cs = (case cs of [] \<Rightarrow> 0 | c # r \<Rightarrow> if c = 0x2d then - int (read_digits b r) else int (read_digits b (c # r)))"

lemma digit_nth: "digit_table tab \<Longrightarrow> k < 16 \<Longrightarrow> digit_value (tab ! k) = k \<and> tab ! k \<noteq> 0x2d"
  by (simp add: digit_table_def list_all_iff)

lemma mod_base: "2 \<le> unat base \<Longrightarrow> unat base \<le> 16 \<Longrightarrow> unat (x mod base) < 16" for x base :: uint
  by (simp add: unat_mod) (meson mod_less_divisor less_le_trans zero_less_numeral)

lemma digits_of_value:
  assumes "digit_table tab" and "2 \<le> unat base" and "unat base \<le> 16"
  shows "foldr (\<lambda>c v. unat base * v + digit_value c) (digits_of tab base x) 0 = unat x"
  using assms
proof (induction tab base x rule: digits_of.induct)
  case (1 tab base x)
  have m: "unat (x mod base) < 16" by (rule mod_base[OF 1(3,4)])
  have dm: "unat base * unat (x div base) + unat (x mod base) = unat x" by (simp add: unat_div unat_mod)
  show ?case
  proof (cases "x div base = 0")
    case True
    with dm digit_nth[OF 1(2) m] show ?thesis by (subst digits_of.simps) simp
  next
    case False
    with 1 dm digit_nth[OF 1(2) m] show ?thesis by (subst digits_of.simps) simp
  qed
qed

lemma digits_of_set:
  assumes "digit_table tab" and "2 \<le> unat base" and "unat base \<le> 16" and "c \<in> set (digits_of tab base x)"
  shows "c \<noteq> 0x2d"
  using assms
proof (induction tab base x rule: digits_of.induct)
  case (1 tab base x)
  have "unat (x mod base) < 16" by (rule mod_base[OF 1(3,4)])
  with 1 digit_nth show ?case by (subst (asm) (2) digits_of.simps) (auto split: if_splits)
qed

lemma digits_of_length:
  assumes "2 \<le> unat base" and "unat x < unat base ^ Suc n"
  shows "length (digits_of tab base x) \<le> Suc n"
  using assms
proof (induction n arbitrary: x)
  case 0
  then have "x div base = 0" by (simp add: word_unat_eq_iff unat_div)
  then show ?case by (subst digits_of.simps) simp
next
  case (Suc n)
  have "unat (x div base) < unat base ^ Suc n" using Suc.prems by (simp add: unat_div less_mult_imp_div_less mult.commute)
  with Suc.IH[of "x div base"] Suc.prems(1) show ?case by (subst digits_of.simps) simp
qed

lemma digits_of_not_Nil: "digits_of tab base x \<noteq> []"
  by (subst digits_of.simps) simp

section \<open>Signed numbers\<close>

text \<open>What both \<open>printint\<close> functions print, given the table.\<close>

definition numeral_of :: "uint8 list \<Rightarrow> cint \<Rightarrow> uint \<Rightarrow> bool \<Rightarrow> uint8 list" where
  "numeral_of tab xx base sign =
     (let neg = (sign \<and> sint xx < 0);
          x = (if neg then - xx else xx)
      in rev (digits_of tab base x @ (if neg then [0x2d] else [])))"

lemma uint_uminus_neg: "sint x < 0 \<Longrightarrow> uint (- x) = - sint x" for x :: cint
proof -
  assume "sint x < 0"
  moreover have "- x = word_of_int (- sint x)" by simp
  moreover have "- (2 ^ 31) \<le> sint x" using sint_ge[of x] by simp
  ultimately show ?thesis by (simp add: uint_word_of_int del: of_int_minus)
qed

lemma read_numeral:
  assumes "digit_table tab" and "2 \<le> unat base" and "unat base \<le> 16"
  shows "read_int (unat base) (numeral_of tab xx base sg) = (if sg then sint xx else uint xx)"
proof -
  let ?neg = "sg \<and> sint xx < 0"
  let ?x = "if ?neg then - xx else xx"
  have v: "read_digits (unat base) (rev (digits_of tab base ?x)) = unat ?x"
    using digits_of_value[OF assms, of ?x] by (simp add: read_digits_def foldl_conv_foldr)
  show ?thesis
  proof (cases ?neg)
    case True
    then have "int (unat (- xx)) = - sint xx" using uint_uminus_neg[of xx] by simp
    with True v show ?thesis by (simp add: numeral_of_def read_int_def Let_def)
  next
    case False
    obtain c r where cr: "rev (digits_of tab base xx) = c # r"
      using digits_of_not_Nil[of tab base xx] by (cases "rev (digits_of tab base xx)") auto
    then have "c \<in> set (digits_of tab base xx)" by (metis list.set_intros(1) set_rev)
    then have "c \<noteq> 0x2d" by (rule digits_of_set[OF assms])
    with False v cr show ?thesis by (auto simp: numeral_of_def read_int_def Let_def uint_sint_nonneg)
  qed
qed

lemma length_numeral:
  assumes "unat base = 10 \<or> unat base = 16"
  shows "length (numeral_of tab xx base sg) \<le> 11"
proof -
  have "unat x < unat base ^ Suc 9" for x :: uint using assms unsigned_less[of x, where 'a = nat] by auto
  then have l: "length (digits_of tab base x) \<le> 10" for x using digits_of_length[of base x 9] assms by auto
  from l[of xx] l[of "- xx"] show ?thesis by (simp add: numeral_of_def Let_def)
qed

end
