(* ===== verification/Printf.thy ===== *)
theory Printf
  imports Console Digits
begin

text \<open>
  \<open>kernel/printf.c\<close>: formatted output to the console, and \<open>panic\<close>.

  The model elsewhere records a call of \<open>printf\<close> as its format and arguments; this theory is what such a call does,
  byte by byte. A \<open>va_arg\<close> of another type than the argument passed has undefined behaviour, \<open>BadAccess\<close> here; a null
  string is the pointer 0.
\<close>

record prst = cst +
  pr_locking :: bool

section \<open>Rendering\<close>

definition digits :: "uint8 list" where
  "digits = bytes_of ''0123456789abcdef''"

text \<open>The digits of \<open>x\<close>, the last one first, as the loop stores them in \<open>buf\<close>, and all that is printed.\<close>

definition digits_rev :: "uint \<Rightarrow> uint \<Rightarrow> uint8 list" where
  "digits_rev base x = digits_of digits base x"

definition int_bytes :: "cint \<Rightarrow> uint \<Rightarrow> bool \<Rightarrow> uint8 list" where
  "int_bytes xx base sign =
     (let neg = (sign \<and> sint xx < 0);
          x = (if neg then - xx else xx)
      in rev (digits_rev base x @ (if neg then [0x2d] else [])))"

definition ptr_bytes :: "uint64 \<Rightarrow> uint8 list" where
  "ptr_bytes x = [0x30, 0x78] @ map (\<lambda>i. digits ! unat (drop_bit 60 (push_bit (4 * i) x))) [0..<16]"

section \<open>Output\<close>

definition emit :: "uint8 list \<Rightarrow> ('a cst_scheme, unit) kprog" where
  "emit bs = forS bs (\<lambda>b. consputc (Some b))"

definition printint :: "cint \<Rightarrow> uint \<Rightarrow> bool \<Rightarrow> ('a cst_scheme, unit) kprog" where
  "printint xx base sign = emit (int_bytes xx base sign)"

definition printptr :: "uint64 \<Rightarrow> ('a cst_scheme, unit) kprog" where
  "printptr x = emit (ptr_bytes x)"

fun printf_loop :: "uint8 list \<Rightarrow> parg list \<Rightarrow> ('a cst_scheme, unit) kprog" where
  "printf_loop [] ap = retS ()"
| "printf_loop (c # fmt) ap =
     (if c \<noteq> 0x25 then thenS (consputc (Some c)) (printf_loop fmt ap)
      else case fmt of
        [] \<Rightarrow> retS ()
      | c # fmt \<Rightarrow>
          if c = 0x64 then (case ap of PInt i # ap \<Rightarrow> thenS (printint i 10 True) (printf_loop fmt ap) | _ \<Rightarrow> failS BadAccess)
          else if c = 0x78 then (case ap of PInt i # ap \<Rightarrow> thenS (printint i 16 True) (printf_loop fmt ap) | _ \<Rightarrow> failS BadAccess)
          else if c = 0x70 then (case ap of PPtr p # ap \<Rightarrow> thenS (printptr p) (printf_loop fmt ap) | _ \<Rightarrow> failS BadAccess)
          else if c = 0x73 then (case ap of
              PStr s # ap \<Rightarrow> thenS (emit (takeWhile (\<lambda>c. c \<noteq> 0) s)) (printf_loop fmt ap)
            | PPtr p # ap \<Rightarrow> if p = 0 then thenS (emit (bytes_of ''(null)'')) (printf_loop fmt ap) else failS BadAccess
            | _ \<Rightarrow> failS BadAccess)
          else if c = 0x25 then thenS (consputc (Some 0x25)) (printf_loop fmt ap)
          else thenS (consputc (Some 0x25)) (thenS (consputc (Some c)) (printf_loop fmt ap)))"

text \<open>A null format panics, and \<open>panic\<close> prints; its own formats are not null.\<close>

definition printf_str :: "string \<Rightarrow> parg list \<Rightarrow> ('a prst_scheme, unit) kprog" where
  "printf_str fmt ap =
     bindS (getD pr_locking) (\<lambda>locking.
     thenS (whenS locking (acquireS PrLock)) (
     thenS (printf_loop (bytes_of fmt) ap) (
     whenS locking (releaseS PrLock))))"

definition panic :: "string \<Rightarrow> ('a prst_scheme, 'r) kprog" where
  "panic s =
     thenS (modD (\<lambda>d. d\<lparr>pr_locking := False\<rparr>)) (
     thenS (printf_str ''panic: '' []) (
     thenS (printf_str s []) (
     thenS (printf_str ''\<newline>'' []) (
     thenS (modD (\<lambda>d. d\<lparr>panicked := True\<rparr>)) (
     failS (Panic s))))))"

definition printf :: "string option \<Rightarrow> parg list \<Rightarrow> ('a prst_scheme, unit) kprog" where
  "printf fmt ap =
     (case fmt of
        Some fmt \<Rightarrow> printf_str fmt ap
      | None \<Rightarrow> bindS (getD pr_locking) (\<lambda>locking. thenS (whenS locking (acquireS PrLock)) (panic ''null fmt'')))"

definition printfinit :: "('a prst_scheme, unit) kprog" where
  "printfinit =
     thenS (hartS (\<lambda>h. Inr ((), initlock PrLock ''pr'' h))) (
     modD (\<lambda>d. d\<lparr>pr_locking := True\<rparr>))"

end
