(* ===== verification/File.thy ===== *)
theory File
  imports Printf
begin

text \<open>
  Open files and pipes, \<open>kernel/file.c\<close>, \<open>kernel/file.h\<close> and \<open>kernel/pipe.c\<close>. A \<open>struct file *\<close> is the
  index of the entry in \<open>ftable\<close>. A pipe is named by the page it is in.
\<close>

section \<open>Data\<close>

definition NFILE :: nat where "NFILE = 100"
definition PIPESIZE :: nat where "PIPESIZE = 512"

datatype ftype = FD_NONE | FD_PIPE | FD_INODE | FD_DEVICE

record kfile =
  f_type :: ftype
  f_ref :: cint
  f_readable :: bool
  f_writable :: bool
  f_pipe :: uint64
  f_ip :: "nat option"
  f_off :: uint
  f_major :: uint16

record pipe =
  pi_data :: "nat \<Rightarrow> uint8"
  pi_nread :: uint
  pi_nwrite :: uint
  pi_readopen :: bool
  pi_writeopen :: bool

record fist = prst +
  files :: "nat \<Rightarrow> kfile"
  pipes :: "uint64 \<Rightarrow> pipe"

definition upd_file :: "nat \<Rightarrow> (kfile \<Rightarrow> kfile) \<Rightarrow> 'a fist_scheme \<Rightarrow> 'a fist_scheme" where
  "upd_file f g d = d\<lparr>files := (files d)(f := g (files d f))\<rparr>"

definition upd_pipe :: "uint64 \<Rightarrow> (pipe \<Rightarrow> pipe) \<Rightarrow> 'a fist_scheme \<Rightarrow> 'a fist_scheme" where
  "upd_pipe p g d = d\<lparr>pipes := (pipes d)(p := g (pipes d p))\<rparr>"

section \<open>The file table\<close>

definition fileinit :: "('a fist_scheme, unit) kprog" where
  "fileinit = hartS (\<lambda>h. Inr ((), initlock FtableLock ''ftable'' h))"

definition filealloc :: "('a fist_scheme, nat option) kprog" where
  "filealloc =
     thenS (acquireS FtableLock) (
     bindS (getD (\<lambda>d. List.find (\<lambda>f. f_ref (files d f) = 0) [0..<NFILE])) (\<lambda>r.
     thenS (case r of Some f \<Rightarrow> modD (upd_file f (\<lambda>x. x\<lparr>f_ref := 1\<rparr>)) | None \<Rightarrow> retS ()) (
     thenS (releaseS FtableLock) (retS r))))"

definition filedup :: "nat \<Rightarrow> ('a fist_scheme, nat) kprog" where
  "filedup f =
     thenS (acquireS FtableLock) (
     bindS (getD (\<lambda>d. f_ref (files d f))) (\<lambda>ref.
     if sint ref < 1 then failS (Panic ''filedup'')
     else
       thenS (modD (upd_file f (\<lambda>x. x\<lparr>f_ref := f_ref x + 1\<rparr>))) (
       thenS (releaseS FtableLock) (retS f))))"

section \<open>Pipes\<close>

definition pipeclose :: "'a fist_scheme env \<Rightarrow> uint64 \<Rightarrow> bool \<Rightarrow> ('a fist_scheme, unit) kprog" where
  "pipeclose E pi writable =
     thenS (acquireS (PipeLock pi)) (
     thenS (
       if writable
       then thenS (modD (upd_pipe pi (\<lambda>x. x\<lparr>pi_writeopen := False\<rparr>))) (wakeupS (ChanPipeRead pi))
       else thenS (modD (upd_pipe pi (\<lambda>x. x\<lparr>pi_readopen := False\<rparr>))) (wakeupS (ChanPipeWrite pi))) (
     bindS (getD (\<lambda>d. pipes d pi)) (\<lambda>x.
     if \<not> pi_readopen x \<and> \<not> pi_writeopen x
     then thenS (releaseS (PipeLock pi)) (kfreeS E pi)
     else releaseS (PipeLock pi))))"

text \<open>
  Waiting for room: \<open>False\<close> when the reader is gone or the process was killed, which ends \<open>pipewrite\<close>
  with -1.
\<close>

definition pipe_full :: "pipe \<Rightarrow> bool" where
  "pipe_full x \<longleftrightarrow> pi_nwrite x = pi_nread x + of_nat PIPESIZE"

primrec pipe_room :: "nat \<Rightarrow> 'a fist_scheme env \<Rightarrow> uint64 \<Rightarrow> nat \<Rightarrow> ('a fist_scheme, bool) kprog" where
  "pipe_room 0 E pi pr = failS OutOfFuel"
| "pipe_room (Suc n) E pi pr =
     bindS (getD (\<lambda>d. pi_readopen (pipes d pi))) (\<lambda>ro. if \<not> ro then retS False
     else bindS (killed pr) (\<lambda>k. if k then retS False
     else bindS (getD (\<lambda>d. pipe_full (pipes d pi))) (\<lambda>full. if \<not> full then retS True
     else thenS (wakeupS (ChanPipeRead pi)) (thenS (sleepS E (ChanPipeWrite pi) (PipeLock pi)) (pipe_room n E pi pr)))))"

definition pipe_put :: "uint8 \<Rightarrow> pipe \<Rightarrow> pipe" where
  "pipe_put c x = x\<lparr>pi_data := (pi_data x)(unat (pi_nwrite x) mod PIPESIZE := c), pi_nwrite := pi_nwrite x + 1\<rparr>"

definition pipe_get :: "pipe \<Rightarrow> uint8 \<times> pipe" where
  "pipe_get x = (pi_data x (unat (pi_nread x) mod PIPESIZE), x\<lparr>pi_nread := pi_nread x + 1\<rparr>)"

text \<open>The loop of \<open>pipewrite\<close>: \<open>None\<close> for the early return, otherwise the bytes written.\<close>

primrec pipewrite_loop :: "'a fist_scheme env \<Rightarrow> uint64 \<Rightarrow> nat \<Rightarrow> uint64 \<Rightarrow> nat \<Rightarrow> nat \<Rightarrow> ('a fist_scheme, nat option) kprog" where
  "pipewrite_loop E pi pr addr i 0 = retS (Some i)"
| "pipewrite_loop E pi pr addr i (Suc n) =
     bindS (pipe_room (e_fuel E) E pi pr) (\<lambda>room.
     if \<not> room then retS None
     else
       bindS (getD (\<lambda>d. copyin (p_pagetable (procs d pr)) (addr + of_nat i) 1 (km d))) (\<lambda>res.
       bindS (dataS (\<lambda>d. bindR res (\<lambda>r. Inr (r, d)))) (\<lambda>(r, bs).
       if r = - 1 then retS (Some i)
       else
         thenS (modD (upd_pipe pi (pipe_put (hd bs)))) (
         pipewrite_loop E pi pr addr (Suc i) n))))"

definition pipewrite :: "'a fist_scheme env \<Rightarrow> uint64 \<Rightarrow> uint64 \<Rightarrow> cint \<Rightarrow> ('a fist_scheme, cint) kprog" where
  "pipewrite E pi addr n =
     bindS curS (\<lambda>pr.
     thenS (acquireS (PipeLock pi)) (
     bindS (pipewrite_loop E pi pr addr 0 (nat (sint n))) (\<lambda>r.
     case r of
       None \<Rightarrow> thenS (releaseS (PipeLock pi)) (retS (- 1))
     | Some i \<Rightarrow> thenS (wakeupS (ChanPipeRead pi)) (thenS (releaseS (PipeLock pi)) (retS (of_nat i))))))"

text \<open>Waiting for data: \<open>False\<close> when the process was killed.\<close>

primrec pipe_data_wait :: "nat \<Rightarrow> 'a fist_scheme env \<Rightarrow> uint64 \<Rightarrow> nat \<Rightarrow> ('a fist_scheme, bool) kprog" where
  "pipe_data_wait 0 E pi pr = failS OutOfFuel"
| "pipe_data_wait (Suc n) E pi pr =
     bindS (getD (\<lambda>d. pipes d pi)) (\<lambda>x.
     if \<not> (pi_nread x = pi_nwrite x \<and> pi_writeopen x) then retS True
     else bindS (killed pr) (\<lambda>k. if k then retS False
       else thenS (sleepS E (ChanPipeRead pi) (PipeLock pi)) (pipe_data_wait n E pi pr)))"

primrec piperead_loop :: "uint64 \<Rightarrow> nat \<Rightarrow> uint64 \<Rightarrow> nat \<Rightarrow> nat \<Rightarrow> ('a fist_scheme, nat) kprog" where
  "piperead_loop pi pr addr i 0 = retS i"
| "piperead_loop pi pr addr i (Suc n) =
     bindS (getD (\<lambda>d. pipes d pi)) (\<lambda>x.
     if pi_nread x = pi_nwrite x then retS i
     else let (ch, x') = pipe_get x in
       thenS (modD (upd_pipe pi (\<lambda>_. x'))) (
       bindS (getD (\<lambda>d. p_pagetable (procs d pr))) (\<lambda>pt.
       bindS (memS (copyout pt (addr + of_nat i) [ch])) (\<lambda>r.
       if r = - 1 then retS i else piperead_loop pi pr addr (Suc i) n))))"

definition piperead :: "'a fist_scheme env \<Rightarrow> uint64 \<Rightarrow> uint64 \<Rightarrow> cint \<Rightarrow> ('a fist_scheme, cint) kprog" where
  "piperead E pi addr n =
     bindS curS (\<lambda>pr.
     thenS (acquireS (PipeLock pi)) (
     bindS (pipe_data_wait (e_fuel E) E pi pr) (\<lambda>ok.
     if \<not> ok then thenS (releaseS (PipeLock pi)) (retS (- 1))
     else
       bindS (piperead_loop pi pr addr 0 (nat (sint n))) (\<lambda>i.
       thenS (wakeupS (ChanPipeWrite pi)) (
       thenS (releaseS (PipeLock pi)) (retS (of_nat i)))))))"

section \<open>Files\<close>

definition fileclose :: "'a fist_scheme env \<Rightarrow> nat \<Rightarrow> ('a fist_scheme, unit) kprog" where
  "fileclose E f =
     thenS (acquireS FtableLock) (
     bindS (getD (\<lambda>d. f_ref (files d f))) (\<lambda>ref.
     if sint ref < 1 then failS (Panic ''fileclose'')
     else
       thenS (modD (upd_file f (\<lambda>x. x\<lparr>f_ref := ref - 1\<rparr>))) (
       if 0 < sint (ref - 1) then releaseS FtableLock
       else
         bindS (getD (\<lambda>d. files d f)) (\<lambda>ff.
         thenS (modD (upd_file f (\<lambda>x. x\<lparr>f_ref := 0, f_type := FD_NONE\<rparr>))) (
         thenS (releaseS FtableLock) (
         case f_type ff of
           FD_PIPE \<Rightarrow> pipeclose E (f_pipe ff) (f_writable ff)
         | FD_NONE \<Rightarrow> retS ()
         | _ \<Rightarrow> thenS (begin_op E) (thenS (derefS (f_ip ff) (iput E)) (end_op E))))))))"

text \<open>\<open>struct stat\<close> in memory; the four bytes of padding before \<open>size\<close> are taken to be 0.\<close>

definition stat_bytes :: "stat \<Rightarrow> uint8 list" where
  "stat_bytes st = le_bytes 4 (st_dev st) @ le_bytes 4 (st_ino st) @ le_bytes 2 (st_type st) @ le_bytes 2 (st_nlink st) @
     replicate 4 0 @ le_bytes 8 (st_size st)"

definition filestat :: "'a fist_scheme env \<Rightarrow> nat \<Rightarrow> uint64 \<Rightarrow> ('a fist_scheme, cint) kprog" where
  "filestat E f addr =
     bindS curS (\<lambda>p.
     bindS (getD (\<lambda>d. files d f)) (\<lambda>x.
     if f_type x = FD_INODE \<or> f_type x = FD_DEVICE
     then
       thenS (ilock E (f_ip x)) (
       derefS (f_ip x) (\<lambda>ip.
       bindS (getI ip stati) (\<lambda>st.
       thenS (iunlock (f_ip x)) (
       bindS (getD (\<lambda>d. p_pagetable (procs d p))) (\<lambda>pt.
       bindS (memS (copyout pt addr (stat_bytes st))) (\<lambda>r.
       retS (if sint r < 0 then - 1 else 0)))))))
     else retS (- 1)))"

definition fileread :: "'a fist_scheme env \<Rightarrow> nat \<Rightarrow> uint64 \<Rightarrow> cint \<Rightarrow> ('a fist_scheme, cint) kprog" where
  "fileread E f addr n =
     bindS (getD (\<lambda>d. files d f)) (\<lambda>x.
     if \<not> f_readable x then retS (- 1)
     else case f_type x of
       FD_PIPE \<Rightarrow> piperead E (f_pipe x) addr n
     | FD_DEVICE \<Rightarrow>
         bindS (getD (\<lambda>d. devsw d (unat (f_major x)))) (\<lambda>dev.
         if sint (f_major x) < 0 \<or> NDEV \<le> unat (f_major x) then retS (- 1)
         else (case dev of None \<Rightarrow> retS (- 1) | Some ConsoleOps \<Rightarrow> consoleread E (UserDst addr) n))
     | FD_INODE \<Rightarrow>
         thenS (ilock E (f_ip x)) (
         derefS (f_ip x) (\<lambda>ip.
         bindS (getD (\<lambda>d. f_off (files d f))) (\<lambda>off.
         bindS (readi E ip (UserDst addr) off n) (\<lambda>(r, _).
         thenS (whenS (0 < sint r) (modD (upd_file f (\<lambda>x. x\<lparr>f_off := f_off x + r\<rparr>)))) (
         thenS (iunlock (f_ip x)) (
         retS r))))))
     | FD_NONE \<Rightarrow> failS (Panic ''fileread''))"

text \<open>
  The rounds of the loop of \<open>filewrite\<close>: pieces of at most three blocks, so that a transaction is never
  larger than the log allows.
\<close>

definition write_max :: nat where
  "write_max = ((MAXOPBLOCKS - 1 - 1 - 2) div 2) * BSIZE"

function pieces :: "nat \<Rightarrow> nat \<Rightarrow> (nat \<times> nat) list" where
  "pieces i n = (if n \<le> i then [] else let n1 = min (n - i) write_max in (i, n1) # pieces (i + n1) n)"
  by pat_completeness auto
termination
  by (relation "measure (\<lambda>(i, n). n - i)") (auto simp: write_max_def MAXOPBLOCKS_def BSIZE_def)

declare pieces.simps [simp del]

text \<open>The result is the number of bytes written by rounds that were complete.\<close>

primrec filewrite_loop :: "'a fist_scheme env \<Rightarrow> nat \<Rightarrow> uint64 \<Rightarrow> nat \<Rightarrow> (nat \<times> nat) list \<Rightarrow> ('a fist_scheme, nat) kprog" where
  "filewrite_loop E f addr done' [] = retS done'"
| "filewrite_loop E f addr done' (c # cs) = (case c of (i, n1) \<Rightarrow>
     thenS (begin_op E) (
     bindS (getD (\<lambda>d. files d f)) (\<lambda>x.
     thenS (ilock E (f_ip x)) (
     derefS (f_ip x) (\<lambda>ip.
     bindS (getD (\<lambda>d. f_off (files d f))) (\<lambda>off.
     bindS (writei E ip (UserSrc (addr + of_nat i)) off (of_nat n1)) (\<lambda>r.
     thenS (whenS (0 < sint r) (modD (upd_file f (\<lambda>x. x\<lparr>f_off := f_off x + r\<rparr>)))) (
     thenS (iunlock (f_ip x)) (
     thenS (end_op E) (
     if r \<noteq> of_nat n1 then retS done' else filewrite_loop E f addr (i + n1) cs))))))))))"

definition filewrite :: "'a fist_scheme env \<Rightarrow> nat \<Rightarrow> uint64 \<Rightarrow> cint \<Rightarrow> ('a fist_scheme, cint) kprog" where
  "filewrite E f addr n =
     bindS (getD (\<lambda>d. files d f)) (\<lambda>x.
     if \<not> f_writable x then retS (- 1)
     else case f_type x of
       FD_PIPE \<Rightarrow> pipewrite E (f_pipe x) addr n
     | FD_DEVICE \<Rightarrow>
         bindS (getD (\<lambda>d. devsw d (unat (f_major x)))) (\<lambda>dev.
         if sint (f_major x) < 0 \<or> NDEV \<le> unat (f_major x) then retS (- 1)
         else (case dev of None \<Rightarrow> retS (- 1) | Some ConsoleOps \<Rightarrow> consolewrite E (UserSrc addr) n))
     | FD_INODE \<Rightarrow>
         bindS (filewrite_loop E f addr 0 (pieces 0 (nat (sint n)))) (\<lambda>i.
         retS (if int i = sint n then n else - 1))
     | FD_NONE \<Rightarrow> failS (Panic ''filewrite''))"

text \<open>\<open>pipe.c\<close>: a pipe with a file for each end. On the way out at \<open>bad\<close> the page is never allocated yet.\<close>

definition pipealloc :: "'a fist_scheme env \<Rightarrow> ('a fist_scheme, (nat \<times> nat) option) kprog" where
  "pipealloc E =
     bindS filealloc (\<lambda>f0.
     bindS (case f0 of None \<Rightarrow> retS None | Some _ \<Rightarrow> filealloc) (\<lambda>f1.
     let bad = thenS (case f0 of None \<Rightarrow> retS () | Some f \<Rightarrow> fileclose E f) (
               thenS (case f1 of None \<Rightarrow> retS () | Some f \<Rightarrow> fileclose E f) (retS None))
     in case (f0, f1) of
          (Some a, Some b) \<Rightarrow>
            bindS kallocS (\<lambda>pi.
            if pi = 0 then bad
            else
              thenS (modD (upd_pipe pi (\<lambda>x. x\<lparr>pi_readopen := True, pi_writeopen := True, pi_nwrite := 0, pi_nread := 0\<rparr>))) (
              thenS (hartS (\<lambda>h. Inr ((), initlock (PipeLock pi) ''pipe'' h))) (
              thenS (modD (upd_file a (\<lambda>x. x\<lparr>f_type := FD_PIPE, f_readable := True, f_writable := False, f_pipe := pi\<rparr>))) (
              thenS (modD (upd_file b (\<lambda>x. x\<lparr>f_type := FD_PIPE, f_readable := False, f_writable := True, f_pipe := pi\<rparr>))) (
              retS (Some (a, b)))))))
        | _ \<Rightarrow> bad))"

end
