(* ===== verification/ProcLife.thy ===== *)
theory ProcLife
  imports File
begin

text \<open>
  The life of a process, \<open>kernel/proc.c\<close>: \<open>allocproc\<close> and \<open>freeproc\<close>, user page tables, \<open>userinit\<close>,
  \<open>growproc\<close>, \<open>fork\<close>, \<open>exit\<close>, \<open>wait\<close> and \<open>waitx\<close>.

  Of \<open>p->name\<close> the bytes last stored are kept. The trap frame is in memory, at the address \<open>p->trapframe\<close>;
  a field of it is named by its offset.
\<close>

section \<open>Trap frame\<close>

definition TF_kernel_satp :: uint64 where "TF_kernel_satp = 0"
definition TF_kernel_sp :: uint64 where "TF_kernel_sp = 8"
definition TF_kernel_trap :: uint64 where "TF_kernel_trap = 16"
definition TF_epc :: uint64 where "TF_epc = 24"
definition TF_kernel_hartid :: uint64 where "TF_kernel_hartid = 32"
definition TF_sp :: uint64 where "TF_sp = 48"
definition TF_a0 :: uint64 where "TF_a0 = 112"
definition TF_a7 :: uint64 where "TF_a7 = 168"

definition TF_size :: nat where "TF_size = 288"

definition tf_get :: "nat \<Rightarrow> uint64 \<Rightarrow> ('a vst_scheme, uint64) kprog" where
  "tf_get p off = bindS (getD (\<lambda>d. p_trapframe (procs d p))) (\<lambda>tf.
     if tf = 0 then failS BadAccess else getD (\<lambda>d. load64 (mem (km d)) (tf + off)))"

definition tf_set :: "nat \<Rightarrow> uint64 \<Rightarrow> uint64 \<Rightarrow> ('a vst_scheme, unit) kprog" where
  "tf_set p off v = bindS (getD (\<lambda>d. p_trapframe (procs d p))) (\<lambda>tf.
     if tf = 0 then failS BadAccess else memU (\<lambda>m. Inr (m\<lparr>mem := store64 (mem m) (tf + off) v\<rparr>)))"

definition updP :: "nat \<Rightarrow> (proc \<Rightarrow> proc) \<Rightarrow> ('a pst_scheme, unit) kprog" where
  "updP p f = modD (upd_proc p f)"

abbreviation getP :: "nat \<Rightarrow> (proc \<Rightarrow> 'r) \<Rightarrow> ('a pst_scheme, 'r) kprog" where
  "getP p f \<equiv> getD (\<lambda>d. f (procs d p))"

definition enqueueS :: "nat \<Rightarrow> nat \<Rightarrow> ('a pst_scheme, unit) kprog" where
  "enqueueS p q = doS (on_data (enqueue p q))"

definition dequeueS :: "nat \<Rightarrow> nat \<Rightarrow> ('a pst_scheme, unit) kprog" where
  "dequeueS p q = doS (on_data (dequeue p q))"

section \<open>Creating and freeing\<close>

definition procinit :: "('a pst_scheme, unit) kprog" where
  "procinit =
     thenS (hartS (\<lambda>h. Inr ((), initlock PidLock ''nextpid'' h))) (
     thenS (hartS (\<lambda>h. Inr ((), initlock WaitLock ''wait_lock'' h))) (
     forS [0..<NPROC] (\<lambda>p.
       thenS (hartS (\<lambda>h. Inr ((), initlock (ProcLock p) ''proc'' h))) (
       updP p (\<lambda>x. x\<lparr>p_state := UNUSED, p_kstack := KSTACK p\<rparr>)))))"

definition proc_pagetable :: "layout \<Rightarrow> uint64 \<Rightarrow> mst \<Rightarrow> (uint64 \<times> mst) res" where
  "proc_pagetable L tf m =
     (let (pagetable, m) = uvmcreate m in
      if pagetable = 0 then Inr (0, m)
      else bindR (mappages pagetable TRAMPOLINE PGSIZE (l_trampoline L) (PTE_R OR PTE_X) m) (\<lambda>(r, m).
        if sint r < 0 then bindR (uvmfree L pagetable 0 m) (\<lambda>m. Inr (0, m))
        else bindR (mappages pagetable TRAPFRAME PGSIZE tf (PTE_R OR PTE_W) m) (\<lambda>(r, m).
          if sint r < 0
          then bindR (uvmunmap L pagetable TRAMPOLINE 1 False m) (\<lambda>m.
               bindR (uvmfree L pagetable 0 m) (\<lambda>m. Inr (0, m)))
          else Inr (pagetable, m))))"

definition proc_freepagetable :: "layout \<Rightarrow> uint64 \<Rightarrow> uint64 \<Rightarrow> mst \<Rightarrow> mst res" where
  "proc_freepagetable L pagetable sz m =
     bindR (uvmunmap L pagetable TRAMPOLINE 1 False m) (\<lambda>m.
     bindR (uvmunmap L pagetable TRAPFRAME 1 False m) (
     uvmfree L pagetable sz))"

definition freeproc :: "'a vst_scheme env \<Rightarrow> nat \<Rightarrow> ('a vst_scheme, unit) kprog" where
  "freeproc E p =
     bindS (getP p p_trapframe) (\<lambda>tf.
     thenS (whenS (tf \<noteq> 0) (kfreeS E tf)) (
     thenS (updP p (\<lambda>x. x\<lparr>p_trapframe := 0\<rparr>)) (
     bindS (getP p (\<lambda>x. (p_pagetable x, p_sz x))) (\<lambda>(pt, sz).
     thenS (whenS (pt \<noteq> 0) (memU (proc_freepagetable (e_layout E) pt sz))) (
     thenS (updP p (\<lambda>x. x\<lparr>p_pagetable := 0, p_sz := 0, p_pid := 0, p_parent := None, p_name := [0], p_chan := None,
       p_killed := False, p_xstate := 0, p_state := UNUSED\<rparr>)) (
     bindS (getP p p_queue_number) (dequeueS p)))))))"

text \<open>The result is a process whose lock is held, or \<open>None\<close>.\<close>

definition allocproc_init :: "'a vst_scheme env \<Rightarrow> nat \<Rightarrow> ('a vst_scheme, nat option) kprog" where
  "allocproc_init E p =
     bindS allocpid (\<lambda>pid.
     thenS (updP p (\<lambda>x. x\<lparr>p_pid := pid, p_state := USED\<rparr>)) (
     bindS kallocS (\<lambda>tf.
     thenS (updP p (\<lambda>x. x\<lparr>p_trapframe := tf\<rparr>)) (
     if tf = 0 then thenS (freeproc E p) (thenS (releaseS (ProcLock p)) (retS None))
     else
       bindS (memS (proc_pagetable (e_layout E) tf)) (\<lambda>pt.
       thenS (updP p (\<lambda>x. x\<lparr>p_pagetable := pt\<rparr>)) (
       if pt = 0 then thenS (freeproc E p) (thenS (releaseS (ProcLock p)) (retS None))
       else
         thenS (updP p (\<lambda>x. x\<lparr>p_ticks := 0, p_cur_ticks := 0, p_alarm_tf := 0, p_alarm_on := False, p_handler := 0,
           p_queueticks := 0\<rparr>)) (
         thenS (modD (\<lambda>d. upd_proc p (\<lambda>x. x\<lparr>p_tickets :=
           (case p_parent x of Some q \<Rightarrow> p_tickets (procs d q) | None \<Rightarrow> 1)\<rparr>) d)) (
         thenS (modD (\<lambda>d. upd_proc p (\<lambda>x. x\<lparr>
           p_context := \<lparr>ctx_ra = l_forkret (e_layout E), ctx_sp = p_kstack x + PGSIZE, ctx_s = (\<lambda>_. 0)\<rparr>,
           p_rtime := 0, p_etime := 0, p_ctime := ticks d, p_arrival_time := ticks d,
           p_syscall_count := (\<lambda>i. if i \<le> 31 then 0 else p_syscall_count x i)\<rparr>) d)) (
         retS (Some p))))))))))"

definition allocproc :: "'a vst_scheme env \<Rightarrow> ('a vst_scheme, nat option) kprog" where
  "allocproc E =
     bindS (searchS [0..<NPROC] (\<lambda>p.
       thenS (acquireS (ProcLock p)) (
       bindS (getP p p_state) (\<lambda>st.
       if st = UNUSED then retS (Some p) else thenS (releaseS (ProcLock p)) (retS None))))) (\<lambda>r.
     case r of None \<Rightarrow> retS None | Some p \<Rightarrow> allocproc_init E p)"

definition initcode :: "uint8 list" where
  "initcode = [0x17, 0x05, 0x00, 0x00, 0x13, 0x05, 0x45, 0x02, 0x97, 0x05, 0x00, 0x00, 0x93, 0x85, 0x35, 0x02,
     0x93, 0x08, 0x70, 0x00, 0x73, 0x00, 0x00, 0x00, 0x93, 0x08, 0x20, 0x00, 0x73, 0x00, 0x00, 0x00,
     0xef, 0xf0, 0x9f, 0xff, 0x2f, 0x69, 0x6e, 0x69, 0x74, 0x00, 0x00, 0x24, 0x00, 0x00, 0x00, 0x00,
     0x00, 0x00, 0x00, 0x00]"

definition set_name :: "nat \<Rightarrow> uint8 list \<Rightarrow> ('a pst_scheme, unit) kprog" where
  "set_name p s = updP p (\<lambda>x. x\<lparr>p_name := safestrcpy (cstr_of s) 16\<rparr>)"

definition userinit :: "'a fist_scheme env \<Rightarrow> ('a fist_scheme, unit) kprog" where
  "userinit E =
     bindS (allocproc E) (\<lambda>r.
     thenS (modD (\<lambda>d. d\<lparr>initproc := r\<rparr>)) (
     derefS r (\<lambda>p.
     bindS (getP p p_pagetable) (\<lambda>pt.
     thenS (memU (uvmfirst pt initcode)) (
     thenS (updP p (\<lambda>x. x\<lparr>p_sz := PGSIZE\<rparr>)) (
     thenS (tf_set p TF_epc 0) (
     thenS (tf_set p TF_sp PGSIZE) (
     thenS (set_name p (bytes_of ''initcode'')) (
     bindS (namei E [slash]) (\<lambda>ip.
     thenS (updP p (\<lambda>x. x\<lparr>p_cwd := ip\<rparr>)) (
     thenS (updP p (\<lambda>x. x\<lparr>p_state := RUNNABLE, p_tickets := 1\<rparr>)) (
     thenS (printfS ''shell is ready to run\<newline>'' []) (
     thenS (enqueueS p 0) (
     releaseS (ProcLock p)))))))))))))))"

definition growproc :: "'a vst_scheme env \<Rightarrow> cint \<Rightarrow> ('a vst_scheme, cint) kprog" where
  "growproc E n =
     bindS curS (\<lambda>p.
     bindS (getP p (\<lambda>x. (p_pagetable x, p_sz x))) (\<lambda>(pt, sz).
     bindS (if 0 < sint n then memS (uvmalloc (e_layout E) pt sz (sz + scast n) PTE_W)
            else if sint n < 0 then memS (uvmdealloc (e_layout E) pt sz (sz + scast n))
            else retS sz) (\<lambda>sz.
     if 0 < sint n \<and> sz = 0 then retS (- 1)
     else thenS (updP p (\<lambda>x. x\<lparr>p_sz := sz\<rparr>)) (retS 0))))"

section \<open>fork\<close>

definition NOFILE :: nat where "NOFILE = 16"

definition fork :: "'a fist_scheme env \<Rightarrow> ('a fist_scheme, cint) kprog" where
  "fork E =
     bindS curS (\<lambda>p.
     bindS (allocproc E) (\<lambda>r.
     case r of
       None \<Rightarrow> retS (- 1)
     | Some np \<Rightarrow>
         bindS (getD (\<lambda>d. (procs d p, procs d np))) (\<lambda>(x, y).
         bindS (memS (uvmcopy (e_layout E) (p_pagetable x) (p_pagetable y) (p_sz x))) (\<lambda>r.
         if sint r < 0 then thenS (freeproc E np) (thenS (releaseS (ProcLock np)) (retS (- 1)))
         else
           thenS (updP np (\<lambda>y. y\<lparr>p_sz := p_sz x\<rparr>)) (
           thenS (memU (\<lambda>m. Inr (m\<lparr>mem := store_bytes (mem m) (p_trapframe y) (load_bytes (mem m) (p_trapframe x) TF_size)\<rparr>))) (
           thenS (tf_set np TF_a0 0) (
           thenS (forS [0..<NOFILE] (\<lambda>i.
             bindS (getP p (\<lambda>x. p_ofile x i)) (\<lambda>fo.
             case fo of
               None \<Rightarrow> retS ()
             | Some f \<Rightarrow> bindS (filedup f) (\<lambda>f. updP np (\<lambda>y. y\<lparr>p_ofile := (p_ofile y)(i := Some f)\<rparr>))))) (
           bindS (getP p p_cwd) (\<lambda>cwd. derefS cwd (\<lambda>ip.
           bindS (idup ip) (\<lambda>ip.
           thenS (updP np (\<lambda>y. y\<lparr>p_cwd := Some ip\<rparr>)) (
           thenS (set_name np (p_name x)) (
           bindS (getP np p_pid) (\<lambda>pid.
           thenS (releaseS (ProcLock np)) (
           thenS (acquireS WaitLock) (
           thenS (updP np (\<lambda>y. y\<lparr>p_parent := Some p\<rparr>)) (
           thenS (releaseS WaitLock) (
           thenS (acquireS (ProcLock np)) (
           thenS (updP np (\<lambda>y. y\<lparr>p_state := RUNNABLE\<rparr>)) (
           thenS (enqueueS np 0) (
           thenS (releaseS (ProcLock np)) (
           retS pid))))))))))))))))))))))"

section \<open>exit\<close>

text \<open>\<open>exit\<close> does not return: what would run after \<open>sched\<close> is a panic.\<close>

definition exit :: "'a fist_scheme env \<Rightarrow> cint \<Rightarrow> ('a fist_scheme, 'r) kprog" where
  "exit E status =
     bindS myprocS (\<lambda>me.
     bindS (getD initproc) (\<lambda>ini.
     if me = ini then failS (Panic ''init exiting'')
     else derefS me (\<lambda>p.
       thenS (forS [0..<NOFILE] (\<lambda>fd.
         bindS (getP p (\<lambda>x. p_ofile x fd)) (\<lambda>fo.
         case fo of
           None \<Rightarrow> retS ()
         | Some f \<Rightarrow> thenS (fileclose E f) (updP p (\<lambda>x. x\<lparr>p_ofile := (p_ofile x)(fd := None)\<rparr>))))) (
       thenS (begin_op E) (
       thenS (bindS (getP p p_cwd) (\<lambda>cwd. derefS cwd (iput E))) (
       thenS (end_op E) (
       thenS (updP p (\<lambda>x. x\<lparr>p_cwd := None\<rparr>)) (
       thenS (acquireS WaitLock) (
       thenS (doS (reparent p)) (
       bindS (getP p p_parent) (\<lambda>par.
       thenS (doS (wakeup_proc par)) (
       thenS (acquireS (ProcLock p)) (
       thenS (modD (\<lambda>d. upd_proc p (\<lambda>x. x\<lparr>p_xstate := status, p_state := ZOMBIE, p_etime := ticks d\<rparr>) d)) (
       bindS (getP p p_queue_number) (\<lambda>q.
       thenS (dequeueS p q) (
       thenS (releaseS WaitLock) (
       thenS (doS (sched (e_swt E))) (
       failS (Panic ''zombie exit'')))))))))))))))))))"

section \<open>wait\<close>

text \<open>
  A zombie child found by \<open>wait\<close>: the counts are added before the status is copied out. The locks are
  released on every way out.
\<close>

definition wait_zombie :: "'a vst_scheme env \<Rightarrow> nat \<Rightarrow> uint64 \<Rightarrow> nat \<Rightarrow> ('a vst_scheme, cint) kprog" where
  "wait_zombie E p addr pp =
     bindS (getP pp (\<lambda>y. y)) (\<lambda>y.
     thenS (updP p (\<lambda>x. x\<lparr>p_syscall_count := (\<lambda>i. if i < 32 then p_syscall_count x i + p_syscall_count y i else p_syscall_count x i)\<rparr>)) (
     bindS (getP p p_pagetable) (\<lambda>pt.
     bindS (if addr = 0 then retS 0 else memS (copyout pt addr (le_bytes 4 (p_xstate y)))) (\<lambda>r.
     if sint r < 0
     then thenS (releaseS (ProcLock pp)) (thenS (releaseS WaitLock) (retS (- 1)))
     else
       thenS (freeproc E pp) (
       thenS (releaseS (ProcLock pp)) (
       thenS (releaseS WaitLock) (
       retS (p_pid y))))))))"

text \<open>The scan: the result of a zombie found, or whether there are children at all.\<close>

primrec wait_scan :: "(nat \<Rightarrow> ('a vst_scheme, 'r) kprog) \<Rightarrow> nat \<Rightarrow> bool \<Rightarrow> nat list \<Rightarrow> ('a vst_scheme, 'r + bool) kprog" where
  "wait_scan zombie p havekids [] = retS (Inr havekids)"
| "wait_scan zombie p havekids (pp # ps) =
     bindS (getP pp p_parent) (\<lambda>par.
     if par = Some p
     then
       thenS (acquireS (ProcLock pp)) (
       bindS (getP pp p_state) (\<lambda>st.
       if st = ZOMBIE then bindS (zombie pp) (\<lambda>r. retS (Inl r))
       else thenS (releaseS (ProcLock pp)) (wait_scan zombie p True ps)))
     else wait_scan zombie p havekids ps)"

primrec wait_loop :: "nat \<Rightarrow> 'a vst_scheme env \<Rightarrow> nat \<Rightarrow> uint64 \<Rightarrow> ('a vst_scheme, cint) kprog" where
  "wait_loop 0 E p addr = failS OutOfFuel"
| "wait_loop (Suc n) E p addr =
     bindS (wait_scan (wait_zombie E p addr) p False [0..<NPROC]) (\<lambda>r.
     case r of
       Inl pid \<Rightarrow> retS pid
     | Inr havekids \<Rightarrow>
         bindS (if \<not> havekids then retS True else killed p) (\<lambda>stop.
         if stop then thenS (releaseS WaitLock) (retS (- 1))
         else thenS (sleepS E (ChanProc p) WaitLock) (wait_loop n E p addr)))"

definition wait :: "'a vst_scheme env \<Rightarrow> uint64 \<Rightarrow> ('a vst_scheme, cint) kprog" where
  "wait E addr = bindS curS (\<lambda>p. thenS (acquireS WaitLock) (wait_loop (e_fuel E) E p addr))"

text \<open>\<open>waitx\<close> returns the times as well, when it found a zombie; the counts of the child are not added.\<close>

definition waitx_zombie :: "'a vst_scheme env \<Rightarrow> nat \<Rightarrow> uint64 \<Rightarrow> nat \<Rightarrow> ('a vst_scheme, cint \<times> (uint \<times> uint) option) kprog" where
  "waitx_zombie E p addr np =
     bindS (getP np (\<lambda>y. y)) (\<lambda>y.
     let rtime = p_rtime y; wtime = p_etime y - p_ctime y - p_rtime y in
     bindS (getP p p_pagetable) (\<lambda>pt.
     bindS (if addr = 0 then retS 0 else memS (copyout pt addr (le_bytes 4 (p_xstate y)))) (\<lambda>r.
     if sint r < 0
     then thenS (releaseS (ProcLock np)) (thenS (releaseS WaitLock) (retS (- 1, Some (wtime, rtime))))
     else
       thenS (freeproc E np) (
       thenS (releaseS (ProcLock np)) (
       thenS (releaseS WaitLock) (
       retS (p_pid y, Some (wtime, rtime))))))))"

primrec waitx_loop :: "nat \<Rightarrow> 'a vst_scheme env \<Rightarrow> nat \<Rightarrow> uint64 \<Rightarrow> ('a vst_scheme, cint \<times> (uint \<times> uint) option) kprog" where
  "waitx_loop 0 E p addr = failS OutOfFuel"
| "waitx_loop (Suc n) E p addr =
     bindS (wait_scan (waitx_zombie E p addr) p False [0..<NPROC]) (\<lambda>r.
     case r of
       Inl res \<Rightarrow> retS res
     | Inr havekids \<Rightarrow>
         bindS (getP p p_killed) (\<lambda>k.
         if \<not> havekids \<or> k then thenS (releaseS WaitLock) (retS (- 1, None))
         else thenS (sleepS E (ChanProc p) WaitLock) (waitx_loop n E p addr)))"

definition waitx :: "'a vst_scheme env \<Rightarrow> uint64 \<Rightarrow> ('a vst_scheme, cint \<times> (uint \<times> uint) option) kprog" where
  "waitx E addr = bindS curS (\<lambda>p. thenS (acquireS WaitLock) (waitx_loop (e_fuel E) E p addr))"

end
