(* ===== verification/Trap.thy ===== *)
theory Trap
  imports ProcLife
begin

text \<open>
  Traps, \<open>kernel/trap.c\<close> without \<open>usertrap\<close> (which runs system calls and is in \<open>Usertrap\<close>), the interrupt
  controller \<open>kernel/plic.c\<close>, and the parts of \<open>vm.c\<close> that load \<open>satp\<close>.

  The control registers are fields of \<open>kd\<close>. Of \<open>sstatus\<close> there are SPP and SPIE; its SIE bit is \<open>sie\<close> of the
  hart state.
\<close>

section \<open>Data\<close>

record kd = fist +
  r_stvec :: uint64
  r_sepc :: uint64
  r_scause :: uint64
  r_stval :: uint64
  r_satp :: uint64
  r_sip :: uint64
  r_spp :: bool
  r_spie :: bool
  forkret_first :: bool

definition MAKE_SATP :: "uint64 \<Rightarrow> uint64" where
  "MAKE_SATP pt = push_bit 60 8 OR drop_bit 12 pt"

definition UART0_IRQ :: uint where "UART0_IRQ = 10"
definition VIRTIO0_IRQ :: uint where "VIRTIO0_IRQ = 1"

definition PLIC_SENABLE :: "nat \<Rightarrow> uint64" where
  "PLIC_SENABLE hart = PLIC + 0x2080 + of_nat hart * 0x100"

definition PLIC_SPRIORITY :: "nat \<Rightarrow> uint64" where
  "PLIC_SPRIORITY hart = PLIC + 0x201000 + of_nat hart * 0x2000"

definition PLIC_SCLAIM :: "nat \<Rightarrow> uint64" where
  "PLIC_SCLAIM hart = PLIC + 0x201004 + of_nat hart * 0x2000"

section \<open>Interrupt controller\<close>

definition plic_write :: "uint64 \<Rightarrow> uint \<Rightarrow> ('a dst_scheme, unit) kprog" where
  "plic_write a v = modD (\<lambda>d. d\<lparr>mmio_out := mmio_out d @ [(a, v)]\<rparr>)"

definition cpuidS :: "('d, nat) kprog" where
  "cpuidS = hartS (\<lambda>h. Inr (cpuid h, h))"

definition plicinit :: "('a dst_scheme, unit) kprog" where
  "plicinit =
     thenS (plic_write (PLIC + ucast UART0_IRQ * 4) 1) (
     plic_write (PLIC + ucast VIRTIO0_IRQ * 4) 1)"

definition plicinithart :: "('a dst_scheme, unit) kprog" where
  "plicinithart =
     bindS cpuidS (\<lambda>hart.
     thenS (plic_write (PLIC_SENABLE hart) (push_bit (unat UART0_IRQ) 1 OR push_bit (unat VIRTIO0_IRQ) 1)) (
     plic_write (PLIC_SPRIORITY hart) 0))"

definition plic_claim :: "'a dst_scheme env \<Rightarrow> ('a dst_scheme, uint) kprog" where
  "plic_claim E = bindS cpuidS (\<lambda>hart. retS (e_mmio E (PLIC_SCLAIM hart)))"

definition plic_complete :: "uint \<Rightarrow> ('a dst_scheme, unit) kprog" where
  "plic_complete irq = bindS cpuidS (\<lambda>hart. plic_write (PLIC_SCLAIM hart) irq)"

section \<open>Initialisation\<close>

definition trapinit :: "('a pst_scheme, unit) kprog" where
  "trapinit = hartS (\<lambda>h. Inr ((), initlock TicksLock ''time'' h))"

definition trapinithart :: "'a kd_scheme env \<Rightarrow> ('a kd_scheme, unit) kprog" where
  "trapinithart E = modD (\<lambda>d. d\<lparr>r_stvec := l_kernelvec (e_layout E)\<rparr>)"

definition kvminit :: "'a kd_scheme env \<Rightarrow> ('a kd_scheme, unit) kprog" where
  "kvminit E = bindS (memS (kvmmake (e_layout E) NPROC)) (\<lambda>pt. modD (\<lambda>d. d\<lparr>kernel_pagetable := pt\<rparr>))"

definition kvminithart :: "('a kd_scheme, unit) kprog" where
  "kvminithart = modD (\<lambda>d. d\<lparr>r_satp := MAKE_SATP (kernel_pagetable d)\<rparr>)"

section \<open>Interrupts\<close>

definition clockintr :: "('a kd_scheme, unit) kprog" where
  "clockintr =
     thenS (acquireS TicksLock) (
     thenS (modD (\<lambda>d. d\<lparr>ticks := ticks d + 1\<rparr>)) (
     thenS (doS update_time) (
     thenS (wakeupS ChanTicks) (
     releaseS TicksLock))))"

definition devintr :: "'a kd_scheme env \<Rightarrow> ('a kd_scheme, nat) kprog" where
  "devintr E =
     bindS (getD r_scause) (\<lambda>scause.
     if scause AND 0x8000000000000000 \<noteq> 0 \<and> scause AND 0xff = 9
     then
       bindS (plic_claim E) (\<lambda>irq.
       thenS (
         if irq = UART0_IRQ then uartintr
         else if irq = VIRTIO0_IRQ then virtio_disk_intr E
         else whenS (irq \<noteq> 0) (printfS ''unexpected interrupt irq=%d\<newline>'' [PInt irq])) (
       thenS (whenS (irq \<noteq> 0) (plic_complete irq)) (
       retS 1)))
     else if scause = 0x8000000000000001
     then
       bindS cpuidS (\<lambda>hart.
       thenS (whenS (hart = 0) clockintr) (
       thenS (modD (\<lambda>d. d\<lparr>r_sip := r_sip d AND NOT 2\<rparr>)) (
       retS 2)))
     else retS 0)"

definition kerneltrap :: "'a kd_scheme env \<Rightarrow> ('a kd_scheme, unit) kprog" where
  "kerneltrap E =
     bindS (getD (\<lambda>d. (r_sepc d, r_spp d, r_spie d, r_scause d))) (\<lambda>(sepc, spp, spie, scause).
     bindS (hartS (\<lambda>h. Inr (intr_get h, h))) (\<lambda>si.
     if \<not> spp then failS (Panic ''kerneltrap: not from supervisor mode'')
     else if si then failS (Panic ''kerneltrap: interrupts enabled'')
     else
       bindS (devintr E) (\<lambda>which_dev.
       if which_dev = 0
       then
         thenS (printfS ''scause %p\<newline>'' [PPtr scause]) (
         bindS (getD (\<lambda>d. (r_sepc d, r_stval d))) (\<lambda>(e, v).
         thenS (printfS ''sepc=%p stval=%p\<newline>'' [PPtr e, PPtr v]) (
         failS (Panic ''kerneltrap''))))
       else
         thenS (whenS (which_dev = 2) (
           bindS myprocS (\<lambda>me.
           bindS (case me of None \<Rightarrow> retS False | Some p \<Rightarrow> getP p (\<lambda>x. p_state x = RUNNING)) (\<lambda>running.
           whenS running (doS (yield (e_swt E))))))) (
         thenS (modD (\<lambda>d. d\<lparr>r_sepc := sepc, r_spp := spp, r_spie := spie\<rparr>)) (
         hartS (\<lambda>h. Inr ((), h\<lparr>sie := si\<rparr>)))))))"

section \<open>Return to user space\<close>

text \<open>The result is the argument of the jump to \<open>userret\<close> in the trampoline, which does not come back.\<close>

definition usertrapret :: "'a kd_scheme env \<Rightarrow> ('a kd_scheme, uint64) kprog" where
  "usertrapret E =
     bindS curS (\<lambda>p.
     thenS (hartS (\<lambda>h. Inr ((), intr_off h))) (
     thenS (modD (\<lambda>d. d\<lparr>r_stvec := TRAMPOLINE + (l_uservec (e_layout E) - l_trampoline (e_layout E))\<rparr>)) (
     bindS (getD r_satp) (\<lambda>satp.
     thenS (tf_set p TF_kernel_satp satp) (
     bindS (getP p p_kstack) (\<lambda>ks.
     thenS (tf_set p TF_kernel_sp (ks + PGSIZE)) (
     thenS (tf_set p TF_kernel_trap (l_usertrap (e_layout E))) (
     bindS cpuidS (\<lambda>hart.
     thenS (tf_set p TF_kernel_hartid (of_nat hart)) (
     thenS (modD (\<lambda>d. d\<lparr>r_spp := False, r_spie := True\<rparr>)) (
     bindS (tf_get p TF_epc) (\<lambda>epc.
     thenS (modD (\<lambda>d. d\<lparr>r_sepc := epc\<rparr>)) (
     bindS (getP p p_pagetable) (\<lambda>pt.
     retS (MAKE_SATP pt)))))))))))))))"

text \<open>\<open>proc.c\<close>: where a new process starts.\<close>

definition forkret :: "'a kd_scheme env \<Rightarrow> ('a kd_scheme, uint64) kprog" where
  "forkret E =
     bindS curS (\<lambda>p.
     thenS (releaseS (ProcLock p)) (
     bindS (getD forkret_first) (\<lambda>first.
     thenS (whenS first (thenS (modD (\<lambda>d. d\<lparr>forkret_first := False\<rparr>)) (fsinit E ROOTDEV))) (
     usertrapret E))))"

end
