(* ===== verification/Exec.thy ===== *)
theory Exec
  imports ProcLife
begin

text \<open>
  \<open>kernel/exec.c\<close> with \<open>kernel/elf.h\<close>: replacing the image of a process. \<open>argv\<close> is the list of the argument
  strings, each without its NUL.
\<close>

section \<open>ELF\<close>

definition ELF_MAGIC :: uint where "ELF_MAGIC = 0x464C457F"
definition ELF_PROG_LOAD :: uint where "ELF_PROG_LOAD = 1"
definition MAXARG :: nat where "MAXARG = 32"

record elfhdr =
  e_magic :: uint
  e_entry :: uint64
  e_phoff :: uint64
  e_phnum :: uint16

record proghdr =
  ph_type :: uint
  ph_flags :: uint
  ph_off :: uint64
  ph_vaddr :: uint64
  ph_filesz :: uint64
  ph_memsz :: uint64

definition elfhdr_of :: "uint8 list \<Rightarrow> elfhdr" where
  "elfhdr_of bs = \<lparr>e_magic = get32 0 bs, e_entry = get64 24 bs, e_phoff = get64 32 bs, e_phnum = get16 56 bs\<rparr>"

definition proghdr_of :: "uint8 list \<Rightarrow> proghdr" where
  "proghdr_of bs = \<lparr>ph_type = get32 0 bs, ph_flags = get32 4 bs, ph_off = get64 8 bs, ph_vaddr = get64 16 bs,
     ph_filesz = get64 32 bs, ph_memsz = get64 40 bs\<rparr>"

definition flags2perm :: "uint \<Rightarrow> uint64" where
  "flags2perm flags =
     (let perm = (if flags AND 0x1 \<noteq> 0 then PTE_X else 0)
      in if flags AND 0x2 \<noteq> 0 then perm OR PTE_W else perm)"

section \<open>Loading\<close>

primrec loadseg_loop :: "'a fsst_scheme env \<Rightarrow> uint64 \<Rightarrow> uint64 \<Rightarrow> nat \<Rightarrow> uint \<Rightarrow> uint \<Rightarrow> nat list \<Rightarrow> ('a fsst_scheme, cint) kprog" where
  "loadseg_loop E pt va ip offset sz [] = retS 0"
| "loadseg_loop E pt va ip offset sz (i # is) =
     bindS (getD km) (\<lambda>m.
     bindS (dataS (\<lambda>d. bindR (walkaddr pt (va + of_nat i) m) (\<lambda>pa. Inr (pa, d)))) (\<lambda>pa.
     if pa = 0 then failS (Panic ''loadseg: address should exist'')
     else let n = min (unat sz - i) 4096 in
       bindS (readi E ip (KernelDst pa) (offset + of_nat i) (of_nat n)) (\<lambda>(r, _).
       if r \<noteq> of_nat n then retS (- 1) else loadseg_loop E pt va ip offset sz is)))"

definition loadseg :: "'a fsst_scheme env \<Rightarrow> uint64 \<Rightarrow> uint64 \<Rightarrow> nat \<Rightarrow> uint \<Rightarrow> uint \<Rightarrow> ('a fsst_scheme, cint) kprog" where
  "loadseg E pt va ip offset sz =
     loadseg_loop E pt va ip offset sz (map (\<lambda>k. 4096 * k) [0..<(unat sz + 4095) div 4096])"

text \<open>The program headers; the result is whether all were loaded, and the size of the image.\<close>

primrec load_headers :: "'a fsst_scheme env \<Rightarrow> nat \<Rightarrow> uint64 \<Rightarrow> uint64 \<Rightarrow> uint list \<Rightarrow> ('a fsst_scheme, bool \<times> uint64) kprog" where
  "load_headers E ip pt sz [] = retS (True, sz)"
| "load_headers E ip pt sz (off # offs) =
     bindS (readi E ip LocalDst off 56) (\<lambda>(r, bs).
     let ph = proghdr_of bs in
     if r \<noteq> 56 then retS (False, sz)
     else if ph_type ph \<noteq> ELF_PROG_LOAD then load_headers E ip pt sz offs
     else if ph_memsz ph < ph_filesz ph then retS (False, sz)
     else if ph_vaddr ph + ph_memsz ph < ph_vaddr ph then retS (False, sz)
     else if ph_vaddr ph mod PGSIZE \<noteq> 0 then retS (False, sz)
     else
       bindS (memS (uvmalloc (e_layout E) pt sz (ph_vaddr ph + ph_memsz ph) (flags2perm (ph_flags ph)))) (\<lambda>sz1.
       if sz1 = 0 then retS (False, sz)
       else
         bindS (loadseg E pt (ph_vaddr ph) ip (ucast (ph_off ph)) (ucast (ph_filesz ph))) (\<lambda>r.
         if sint r < 0 then retS (False, sz1) else load_headers E ip pt sz1 offs)))"

section \<open>The stack\<close>

text \<open>Pushing the argument strings: the final \<open>sp\<close> and the pointers, or \<open>None\<close> for \<open>bad\<close>.\<close>

primrec push_args :: "uint64 \<Rightarrow> uint64 \<Rightarrow> uint64 \<Rightarrow> uint64 list \<Rightarrow> uint8 list list \<Rightarrow> ('a vst_scheme, (uint64 \<times> uint64 list) option) kprog" where
  "push_args pt stackbase sp ustack [] = retS (Some (sp, ustack))"
| "push_args pt stackbase sp ustack (a # as) =
     (if MAXARG \<le> length ustack then retS None
      else
        let sp = sp - of_nat (length a + 1); sp = sp - sp mod 16 in
        if sp < stackbase then retS None
        else
          bindS (memS (copyout pt sp (a @ [0]))) (\<lambda>r.
          if sint r < 0 then retS None else push_args pt stackbase sp (ustack @ [sp]) as))"

definition last_elem :: "uint8 list \<Rightarrow> uint8 list" where
  "last_elem path = rev (takeWhile (\<lambda>c. c \<noteq> slash) (rev path))"

definition exec_commit :: "'a fist_scheme env \<Rightarrow> nat \<Rightarrow> uint8 list \<Rightarrow> uint64 \<Rightarrow> uint64 \<Rightarrow> uint64 \<Rightarrow> uint64 \<Rightarrow> uint64 \<Rightarrow> ('a fist_scheme, unit) kprog" where
  "exec_commit E p path pt sz oldsz entry sp =
     thenS (tf_set p (TF_a0 + 8) sp) (
     thenS (set_name p (last_elem path)) (
     bindS (getP p p_pagetable) (\<lambda>oldpt.
     thenS (updP p (\<lambda>x. x\<lparr>p_pagetable := pt, p_sz := sz\<rparr>)) (
     thenS (tf_set p TF_epc entry) (
     thenS (tf_set p TF_sp sp) (
     thenS (updP p (\<lambda>x. x\<lparr>p_syscall_count := (\<lambda>i. if i < 32 then 0 else p_syscall_count x i)\<rparr>)) (
     memU (proc_freepagetable (e_layout E) oldpt oldsz))))))))"

text \<open>After the image has been read: stack, arguments, and the switch to the new image.\<close>

definition exec_stack :: "'a fist_scheme env \<Rightarrow> uint8 list \<Rightarrow> uint8 list list \<Rightarrow> uint64 \<Rightarrow> uint64 \<Rightarrow> uint64 \<Rightarrow> ('a fist_scheme, cint) kprog" where
  "exec_stack E path argv pt sz entry =
     bindS curS (\<lambda>p.
     bindS (getP p p_sz) (\<lambda>oldsz.
     let sz = PGROUNDUP sz; bad = (\<lambda>sz. thenS (memU (proc_freepagetable (e_layout E) pt sz)) (retS (- 1))) in
     bindS (memS (uvmalloc (e_layout E) pt sz (sz + 2 * PGSIZE) PTE_W)) (\<lambda>sz1.
     if sz1 = 0 then bad sz
     else
       thenS (memU (uvmclear pt (sz1 - 2 * PGSIZE))) (
       let stackbase = sz1 - PGSIZE in
       bindS (push_args pt stackbase sz1 [] argv) (\<lambda>r.
       case r of
         None \<Rightarrow> bad sz1
       | Some (sp, ustack) \<Rightarrow>
           let argc = length ustack;
               sp = sp - of_nat ((argc + 1) * 8);
               sp = sp - sp mod 16
           in if sp < stackbase then bad sz1
              else
                bindS (memS (copyout pt sp (concat (map (le_bytes 8) (ustack @ [0]))))) (\<lambda>r.
                if sint r < 0 then bad sz1
                else thenS (exec_commit E p path pt sz1 oldsz entry sp) (retS (of_nat argc))))))))"

definition exec :: "'a fist_scheme env \<Rightarrow> uint8 list \<Rightarrow> uint8 list list \<Rightarrow> ('a fist_scheme, cint) kprog" where
  "exec E path argv =
     bindS curS (\<lambda>p.
     thenS (begin_op E) (
     bindS (namei E path) (\<lambda>r.
     case r of
       None \<Rightarrow> thenS (end_op E) (retS (- 1))
     | Some ip \<Rightarrow>
         let bad = (\<lambda>pt sz.
           thenS (whenS (pt \<noteq> 0) (memU (proc_freepagetable (e_layout E) pt sz))) (
           thenS (iunlockput E ip) (
           thenS (end_op E) (
           retS (- 1)))))
         in
         thenS (ilock E (Some ip)) (
         bindS (readi E ip LocalDst 0 64) (\<lambda>(r, bs).
         let elf = elfhdr_of bs in
         if r \<noteq> 64 then bad 0 0
         else if e_magic elf \<noteq> ELF_MAGIC then bad 0 0
         else
           bindS (getP p p_trapframe) (\<lambda>tf.
           bindS (memS (proc_pagetable (e_layout E) tf)) (\<lambda>pt.
           if pt = 0 then bad 0 0
           else
             bindS (load_headers E ip pt 0 (map (\<lambda>i. ucast (e_phoff elf) + of_nat (56 * i)) [0..<unat (e_phnum elf)])) (\<lambda>(ok, sz).
             if \<not> ok then bad pt sz
             else
               thenS (iunlockput E ip) (
               thenS (end_op E) (
               exec_stack E path argv pt sz (e_entry elf)))))))))))"

end
