(* ===== verification/Sysproc.thy ===== *)
theory Sysproc
  imports Trap
begin

text \<open>
  Fetching system call arguments, \<open>kernel/syscall.c\<close>, and the system calls of \<open>kernel/sysproc.c\<close>: processes,
  time, the counting of system calls, alarms and lottery tickets.

  A system call returns a value for \<open>a0\<close>, or does not come back because \<open>sigreturn\<close> went to user space.
\<close>

section \<open>Arguments\<close>

text \<open>\<open>None\<close> is the result -1.\<close>

definition fetchaddr :: "uint64 \<Rightarrow> ('a vst_scheme, uint64 option) kprog" where
  "fetchaddr addr =
     bindS curS (\<lambda>p.
     bindS (getD (\<lambda>d. (procs d p, km d))) (\<lambda>(x, m).
     if p_sz x \<le> addr \<or> p_sz x < addr + 8 then retS None
     else
       bindS (dataS (\<lambda>d. bindR (copyin (p_pagetable x) addr 8 m) (\<lambda>r. Inr (r, d)))) (\<lambda>(r, bs).
       retS (if r \<noteq> 0 then None else Some (le_word bs)))))"

text \<open>The string without its NUL, or \<open>None\<close>, and the bytes stored in the buffer.\<close>

definition fetchstr :: "uint64 \<Rightarrow> nat \<Rightarrow> ('a vst_scheme, uint8 list option \<times> uint8 list) kprog" where
  "fetchstr addr max' =
     bindS curS (\<lambda>p.
     bindS (getD (\<lambda>d. (procs d p, km d))) (\<lambda>(x, m).
     bindS (dataS (\<lambda>d. bindR (copyinstr (p_pagetable x) addr max' m) (\<lambda>r. Inr (r, d)))) (\<lambda>(r, bs).
     retS (if sint r < 0 then None else Some (takeWhile (\<lambda>c. c \<noteq> 0) bs), bs))))"

definition argraw :: "nat \<Rightarrow> ('a vst_scheme, uint64) kprog" where
  "argraw n =
     bindS curS (\<lambda>p.
     if n \<le> 5 then tf_get p (TF_a0 + of_nat (8 * n)) else failS (Panic ''argraw''))"

definition argint :: "nat \<Rightarrow> ('a vst_scheme, cint) kprog" where
  "argint n = bindS (argraw n) (\<lambda>v. retS (ucast v))"

definition argaddr :: "nat \<Rightarrow> ('a vst_scheme, uint64) kprog" where
  "argaddr n = argraw n"

definition argstr :: "nat \<Rightarrow> nat \<Rightarrow> ('a vst_scheme, uint8 list option) kprog" where
  "argstr n max' = bindS (argaddr n) (\<lambda>addr. bindS (fetchstr addr max') (\<lambda>(s, _). retS s))"

section \<open>System call numbers and counting\<close>

definition SYS_fork :: nat where "SYS_fork = 1"
definition SYS_exit :: nat where "SYS_exit = 2"
definition SYS_wait :: nat where "SYS_wait = 3"
definition SYS_pipe :: nat where "SYS_pipe = 4"
definition SYS_read :: nat where "SYS_read = 5"
definition SYS_kill :: nat where "SYS_kill = 6"
definition SYS_exec :: nat where "SYS_exec = 7"
definition SYS_fstat :: nat where "SYS_fstat = 8"
definition SYS_chdir :: nat where "SYS_chdir = 9"
definition SYS_dup :: nat where "SYS_dup = 10"
definition SYS_getpid :: nat where "SYS_getpid = 11"
definition SYS_sbrk :: nat where "SYS_sbrk = 12"
definition SYS_sleep :: nat where "SYS_sleep = 13"
definition SYS_uptime :: nat where "SYS_uptime = 14"
definition SYS_open :: nat where "SYS_open = 15"
definition SYS_write :: nat where "SYS_write = 16"
definition SYS_mknod :: nat where "SYS_mknod = 17"
definition SYS_unlink :: nat where "SYS_unlink = 18"
definition SYS_link :: nat where "SYS_link = 19"
definition SYS_mkdir :: nat where "SYS_mkdir = 20"
definition SYS_close :: nat where "SYS_close = 21"
definition SYS_waitx :: nat where "SYS_waitx = 22"
definition SYS_getSysCount :: nat where "SYS_getSysCount = 23"
definition SYS_sigalarm :: nat where "SYS_sigalarm = 24"
definition SYS_sigreturn :: nat where "SYS_sigreturn = 25"
definition SYS_settickets :: nat where "SYS_settickets = 26"

text \<open>\<open>myproc()->syscall_count[n]++\<close>\<close>

definition count_call :: "nat \<Rightarrow> ('a pst_scheme, unit) kprog" where
  "count_call n = bindS curS (\<lambda>p.
     updP p (\<lambda>x. x\<lparr>p_syscall_count := (p_syscall_count x)(n := p_syscall_count x n + 1)\<rparr>))"

datatype sysret = Ret uint64 | Jumped uint64

text \<open>A result of type \<open>int\<close>.\<close>

definition retI :: "cint \<Rightarrow> ('d, sysret) kprog" where
  "retI r = retS (Ret (scast r))"

section \<open>Processes and time\<close>

definition sys_exit :: "'a kd_scheme env \<Rightarrow> ('a kd_scheme, sysret) kprog" where
  "sys_exit E = thenS (count_call SYS_exit) (bindS (argint 0) (exit E))"

definition sys_getpid :: "('a kd_scheme, sysret) kprog" where
  "sys_getpid = thenS (count_call SYS_getpid) (bindS curS (\<lambda>p. bindS (getP p p_pid) retI))"

definition sys_fork :: "'a kd_scheme env \<Rightarrow> ('a kd_scheme, sysret) kprog" where
  "sys_fork E = thenS (count_call SYS_fork) (bindS (fork E) retI)"

definition sys_wait :: "'a kd_scheme env \<Rightarrow> ('a kd_scheme, sysret) kprog" where
  "sys_wait E = thenS (count_call SYS_wait) (bindS (argaddr 0) (\<lambda>a. bindS (wait E a) retI))"

definition sys_sbrk :: "'a kd_scheme env \<Rightarrow> ('a kd_scheme, sysret) kprog" where
  "sys_sbrk E =
     thenS (count_call SYS_sbrk) (
     bindS (argint 0) (\<lambda>n.
     bindS curS (\<lambda>p.
     bindS (getP p p_sz) (\<lambda>addr.
     bindS (growproc E n) (\<lambda>r.
     if sint r < 0 then retI (- 1) else retS (Ret addr))))))"

text \<open>\<open>ticks - ticks0 < n\<close> compares unsigned. The result is \<open>False\<close> for a process killed while it waits.\<close>

primrec sys_sleep_loop :: "nat \<Rightarrow> 'a kd_scheme env \<Rightarrow> uint \<Rightarrow> cint \<Rightarrow> ('a kd_scheme, bool) kprog" where
  "sys_sleep_loop 0 E ticks0 n = failS OutOfFuel"
| "sys_sleep_loop (Suc k) E ticks0 n =
     bindS (getD (\<lambda>d. ticks d - ticks0 < n)) (\<lambda>more.
     if \<not> more then retS True
     else
       bindS curS (\<lambda>p. bindS (killed p) (\<lambda>dead.
       if dead then retS False
       else thenS (sleepS E ChanTicks TicksLock) (sys_sleep_loop k E ticks0 n))))"

definition sys_sleep :: "'a kd_scheme env \<Rightarrow> ('a kd_scheme, sysret) kprog" where
  "sys_sleep E =
     thenS (count_call SYS_sleep) (
     bindS (argint 0) (\<lambda>n.
     thenS (acquireS TicksLock) (
     bindS (getD ticks) (\<lambda>ticks0.
     bindS (sys_sleep_loop (e_fuel E) E ticks0 n) (\<lambda>ok.
     thenS (releaseS TicksLock) (retI (if ok then 0 else - 1)))))))"

definition sys_kill :: "('a kd_scheme, sysret) kprog" where
  "sys_kill = thenS (count_call SYS_kill) (bindS (argint 0) (\<lambda>pid. bindS (kill pid) retI))"

definition sys_uptime :: "('a kd_scheme, sysret) kprog" where
  "sys_uptime =
     thenS (count_call SYS_uptime) (
     thenS (acquireS TicksLock) (
     bindS (getD ticks) (\<lambda>xticks.
     thenS (releaseS TicksLock) (retS (Ret (ucast xticks))))))"

text \<open>When \<open>waitx\<close> found no zombie the two times are uninitialised, and copied out all the same.\<close>

definition sys_waitx :: "'a kd_scheme env \<Rightarrow> ('a kd_scheme, sysret) kprog" where
  "sys_waitx E =
     thenS (count_call SYS_waitx) (
     bindS (argaddr 0) (\<lambda>addr. bindS (argaddr 1) (\<lambda>addr1. bindS (argaddr 2) (\<lambda>addr2.
     bindS (waitx E addr) (\<lambda>(ret, times).
     let (wtime, rtime) = (case times of Some t \<Rightarrow> t | None \<Rightarrow> (e_junk E, e_junk E)) in
     bindS curS (\<lambda>p.
     bindS (getP p p_pagetable) (\<lambda>pt.
     bindS (memS (copyout pt addr1 (le_bytes 4 wtime))) (\<lambda>r1.
     if sint r1 < 0 then retI (- 1)
     else
       bindS (memS (copyout pt addr2 (le_bytes 4 rtime))) (\<lambda>r2.
       if sint r2 < 0 then retI (- 1) else retI ret)))))))))"

section \<open>System call counts\<close>

definition sys_getSysCount :: "('a kd_scheme, sysret) kprog" where
  "sys_getSysCount =
     thenS (count_call SYS_getSysCount) (
     bindS (argint 0) (\<lambda>mask'.
     bindS curS (\<lambda>p.
     case List.find (\<lambda>i. mask' AND push_bit i 1 \<noteq> 0) [0..<32] of
       None \<Rightarrow> retI (- 1)
     | Some i \<Rightarrow> if 32 \<le> i then retI (- 1) else bindS (getP p (\<lambda>x. p_syscall_count x i)) retI)))"

section \<open>Alarms and tickets\<close>

definition sys_sigalarm :: "('a kd_scheme, sysret) kprog" where
  "sys_sigalarm =
     thenS (count_call SYS_sigalarm) (
     bindS (argint 0) (\<lambda>ticks'.
     bindS (argaddr 1) (\<lambda>addr.
     bindS curS (\<lambda>p.
     thenS (updP p (\<lambda>x. x\<lparr>p_ticks := ticks', p_handler := addr\<rparr>)) (
     retI 0)))))"

text \<open>Page 0 is not mapped in the kernel, so a null \<open>alarm_tf\<close> faults in \<open>memmove\<close>.\<close>

definition sys_sigreturn :: "'a kd_scheme env \<Rightarrow> ('a kd_scheme, sysret) kprog" where
  "sys_sigreturn E =
     thenS (count_call SYS_sigreturn) (
     bindS curS (\<lambda>p.
     bindS (getP p (\<lambda>x. (p_trapframe x, p_alarm_tf x))) (\<lambda>(tf, atf).
     if atf = 0 then failS BadAccess
     else
       thenS (memU (\<lambda>m. Inr (m\<lparr>mem := memmove (mem m) tf atf 4096\<rparr>))) (
       thenS (kfreeS E atf) (
       thenS (updP p (\<lambda>x. x\<lparr>p_alarm_tf := 0, p_alarm_on := False, p_cur_ticks := 0, p_in_alarm_handler := False\<rparr>)) (
       bindS (usertrapret E) (\<lambda>satp. retS (Jumped satp))))))))"

definition sys_settickets :: "('a kd_scheme, sysret) kprog" where
  "sys_settickets =
     thenS (count_call SYS_settickets) (
     bindS (argint 0) (\<lambda>n.
     bindS curS (\<lambda>p.
     thenS (updP p (\<lambda>x. x\<lparr>p_tickets := n\<rparr>)) (
     retI 0))))"

end
