(* ===== verification/Sysfile.thy ===== *)
theory Sysfile
  imports Sysproc Exec
begin

text \<open>
  The file system calls of \<open>kernel/sysfile.c\<close>: descriptors, \<open>link\<close> and \<open>unlink\<close>, \<open>create\<close>, \<open>open\<close>, \<open>mkdir\<close>,
  \<open>mknod\<close>, \<open>chdir\<close>, \<open>exec\<close> and \<open>pipe\<close>. Buffers for paths and names that are local variables in the source are the
  byte strings read into them.
\<close>

definition MAXPATH :: nat where "MAXPATH = 128"

definition O_RDONLY :: cint where "O_RDONLY = 0x000"
definition O_WRONLY :: cint where "O_WRONLY = 0x001"
definition O_RDWR :: cint where "O_RDWR = 0x002"
definition O_CREATE :: cint where "O_CREATE = 0x200"
definition O_TRUNC :: cint where "O_TRUNC = 0x400"

section \<open>Descriptors\<close>

definition argfd :: "nat \<Rightarrow> ('a vst_scheme, (nat \<times> nat) option) kprog" where
  "argfd n =
     bindS (argint n) (\<lambda>fd.
     if sint fd < 0 \<or> int NOFILE \<le> sint fd then retS None
     else
       bindS curS (\<lambda>p.
       bindS (getP p (\<lambda>x. p_ofile x (unat fd))) (\<lambda>f.
       retS (map_option (\<lambda>f. (unat fd, f)) f))))"

definition set_fd :: "nat \<Rightarrow> nat \<Rightarrow> nat option \<Rightarrow> ('a pst_scheme, unit) kprog" where
  "set_fd p fd f = updP p (\<lambda>x. x\<lparr>p_ofile := (p_ofile x)(fd := f)\<rparr>)"

definition fdalloc :: "nat \<Rightarrow> ('a pst_scheme, nat option) kprog" where
  "fdalloc f =
     bindS curS (\<lambda>p.
     bindS (getP p (\<lambda>x. List.find (\<lambda>fd. p_ofile x fd = None) [0..<NOFILE])) (\<lambda>r.
     case r of
       None \<Rightarrow> retS None
     | Some fd \<Rightarrow> thenS (set_fd p fd (Some f)) (retS (Some fd))))"

definition sys_dup :: "('a kd_scheme, sysret) kprog" where
  "sys_dup =
     thenS (count_call SYS_dup) (
     bindS (argfd 0) (\<lambda>r.
     case r of
       None \<Rightarrow> retI (- 1)
     | Some (_, f) \<Rightarrow>
         bindS (fdalloc f) (\<lambda>r.
         case r of
           None \<Rightarrow> retI (- 1)
         | Some fd \<Rightarrow> thenS (filedup f) (retI (of_nat fd)))))"

definition sys_read :: "'a kd_scheme env \<Rightarrow> ('a kd_scheme, sysret) kprog" where
  "sys_read E =
     thenS (count_call SYS_read) (
     bindS (argaddr 1) (\<lambda>p.
     bindS (argint 2) (\<lambda>n.
     bindS (argfd 0) (\<lambda>r.
     case r of
       None \<Rightarrow> retI (- 1)
     | Some (_, f) \<Rightarrow> bindS (fileread E f p n) retI))))"

definition sys_write :: "'a kd_scheme env \<Rightarrow> ('a kd_scheme, sysret) kprog" where
  "sys_write E =
     thenS (count_call SYS_write) (
     bindS (argaddr 1) (\<lambda>p.
     bindS (argint 2) (\<lambda>n.
     bindS (argfd 0) (\<lambda>r.
     case r of
       None \<Rightarrow> retI (- 1)
     | Some (_, f) \<Rightarrow> bindS (filewrite E f p n) retI))))"

definition sys_close :: "'a kd_scheme env \<Rightarrow> ('a kd_scheme, sysret) kprog" where
  "sys_close E =
     thenS (count_call SYS_close) (
     bindS (argfd 0) (\<lambda>r.
     case r of
       None \<Rightarrow> retI (- 1)
     | Some (fd, f) \<Rightarrow>
         bindS curS (\<lambda>p.
         thenS (set_fd p fd None) (
         thenS (fileclose E f) (
         retI 0)))))"

definition sys_fstat :: "'a kd_scheme env \<Rightarrow> ('a kd_scheme, sysret) kprog" where
  "sys_fstat E =
     thenS (count_call SYS_fstat) (
     bindS (argaddr 1) (\<lambda>st.
     bindS (argfd 0) (\<lambda>r.
     case r of
       None \<Rightarrow> retI (- 1)
     | Some (_, f) \<Rightarrow> bindS (filestat E f st) retI)))"

section \<open>Links\<close>

text \<open>The error exit after \<open>begin_op\<close>.\<close>

definition fail_op :: "'a kd_scheme env \<Rightarrow> ('a kd_scheme, sysret) kprog" where
  "fail_op E = thenS (end_op E) (retI (- 1))"

definition add_nlink :: "nat \<Rightarrow> uint16 \<Rightarrow> ('a fsst_scheme, unit) kprog" where
  "add_nlink ip k = modD (upd_inode ip (\<lambda>x. x\<lparr>i_nlink := i_nlink x + k\<rparr>))"

definition sys_link :: "'a kd_scheme env \<Rightarrow> ('a kd_scheme, sysret) kprog" where
  "sys_link E =
     thenS (count_call SYS_link) (
     bindS (argstr 0 MAXPATH) (\<lambda>old.
     case old of
       None \<Rightarrow> retI (- 1)
     | Some old \<Rightarrow>
     bindS (argstr 1 MAXPATH) (\<lambda>new.
     case new of
       None \<Rightarrow> retI (- 1)
     | Some new \<Rightarrow>
     thenS (begin_op E) (
     bindS (namei E old) (\<lambda>r.
     case r of
       None \<Rightarrow> fail_op E
     | Some ip \<Rightarrow>
         thenS (ilock E (Some ip)) (
         bindS (getI ip i_type) (\<lambda>t.
         if t = T_DIR then thenS (iunlockput E ip) (fail_op E)
         else
           let bad =
             thenS (ilock E (Some ip)) (
             thenS (add_nlink ip (- 1)) (
             thenS (iupdate E ip) (
             thenS (iunlockput E ip) (
             fail_op E))))
           in
           thenS (add_nlink ip 1) (
           thenS (iupdate E ip) (
           thenS (iunlock (Some ip)) (
           bindS (nameiparent E new) (\<lambda>r.
           case r of
             None \<Rightarrow> bad
           | Some (dp, name) \<Rightarrow>
               thenS (ilock E (Some dp)) (
               bindS (getI dp i_dev) (\<lambda>ddev.
               bindS (getI ip (\<lambda>x. (i_dev x, i_inum x))) (\<lambda>(idev, inum).
               bindS (if ddev \<noteq> idev then retS (- 1) else dirlink E dp name inum) (\<lambda>r.
               if sint r < 0 then thenS (iunlockput E dp) bad
               else
                 thenS (iunlockput E dp) (
                 thenS (iput E ip) (
                 thenS (end_op E) (
                 retI 0))))))))))))))))))"

definition isdirempty :: "'a fsst_scheme env \<Rightarrow> nat \<Rightarrow> ('a fsst_scheme, bool) kprog" where
  "isdirempty E dp =
     bindS (getI dp i_size) (\<lambda>size'.
     bindS (searchS (drop 2 (dir_offsets size')) (\<lambda>off.
       bindS (read_dirent E ''isdirempty: readi'' dp off) (\<lambda>de.
       retS (if de_inum de \<noteq> 0 then Some () else None)))) (\<lambda>r.
     retS (r = None)))"

definition dot :: "uint8 list" where "dot = bytes_of ''.''"
definition dotdot :: "uint8 list" where "dotdot = bytes_of ''..''"

text \<open>What \<open>sys_unlink\<close> does with the entry found, both inodes being locked.\<close>

definition unlink_entry :: "'a kd_scheme env \<Rightarrow> nat \<Rightarrow> nat \<Rightarrow> uint \<Rightarrow> ('a kd_scheme, sysret) kprog" where
  "unlink_entry E dp ip off =
     bindS (writei E dp (KernelSrc (replicate 16 0)) off 16) (\<lambda>r.
     if r \<noteq> 16 then failS (Panic ''unlink: writei'')
     else
       bindS (getI ip i_type) (\<lambda>t.
       thenS (whenS (t = T_DIR) (thenS (add_nlink dp (- 1)) (iupdate E dp))) (
       thenS (iunlockput E dp) (
       thenS (add_nlink ip (- 1)) (
       thenS (iupdate E ip) (
       thenS (iunlockput E ip) (
       thenS (end_op E) (
       retI 0))))))))"

definition sys_unlink :: "'a kd_scheme env \<Rightarrow> ('a kd_scheme, sysret) kprog" where
  "sys_unlink E =
     thenS (count_call SYS_unlink) (
     bindS (argstr 0 MAXPATH) (\<lambda>path.
     case path of
       None \<Rightarrow> retI (- 1)
     | Some path \<Rightarrow>
     thenS (begin_op E) (
     bindS (nameiparent E path) (\<lambda>r.
     case r of
       None \<Rightarrow> fail_op E
     | Some (dp, name) \<Rightarrow>
         let bad = thenS (iunlockput E dp) (fail_op E) in
         thenS (ilock E (Some dp)) (
         if namecmp name dot = 0 \<or> namecmp name dotdot = 0 then bad
         else
           bindS (dirlookup E dp name) (\<lambda>r.
           case r of
             None \<Rightarrow> bad
           | Some (ip, off) \<Rightarrow>
               thenS (ilock E (Some ip)) (
               bindS (getI ip (\<lambda>x. (i_nlink x, i_type x))) (\<lambda>(nl, t).
               if sint nl < 1 then failS (Panic ''unlink: nlink < 1'')
               else
                 bindS (if t = T_DIR then isdirempty E ip else retS True) (\<lambda>ok.
                 if \<not> ok then thenS (iunlockput E ip) bad
                 else unlink_entry E dp ip off)))))))))"

section \<open>Creating\<close>

text \<open>The new inode, locked, or \<open>None\<close>.\<close>

definition create_new :: "'a fsst_scheme env \<Rightarrow> nat \<Rightarrow> uint8 list \<Rightarrow> uint16 \<Rightarrow> uint16 \<Rightarrow> uint16 \<Rightarrow> nat \<Rightarrow> ('a fsst_scheme, nat option) kprog" where
  "create_new E dp name type' major minor ip =
     (let fail =
        thenS (modD (upd_inode ip (\<lambda>x. x\<lparr>i_nlink := 0\<rparr>))) (
        thenS (iupdate E ip) (
        thenS (iunlockput E ip) (
        thenS (iunlockput E dp) (
        retS None))))
      in
      thenS (ilock E (Some ip)) (
      thenS (modD (upd_inode ip (\<lambda>x. x\<lparr>i_major := major, i_minor := minor, i_nlink := 1\<rparr>))) (
      thenS (iupdate E ip) (
      bindS (getD (\<lambda>d. (i_inum (inodes d ip), i_inum (inodes d dp)))) (\<lambda>(inum, pnum).
      bindS (if type' \<noteq> T_DIR then retS 0
             else bindS (dirlink E ip dot inum) (\<lambda>r.
               if sint r < 0 then retS r else dirlink E ip dotdot pnum)) (\<lambda>r.
      if sint r < 0 then fail
      else
        bindS (dirlink E dp name inum) (\<lambda>r.
        if sint r < 0 then fail
        else
          thenS (whenS (type' = T_DIR) (thenS (add_nlink dp 1) (iupdate E dp))) (
          thenS (iunlockput E dp) (
          retS (Some ip))))))))))"

definition create :: "'a fsst_scheme env \<Rightarrow> uint8 list \<Rightarrow> uint16 \<Rightarrow> uint16 \<Rightarrow> uint16 \<Rightarrow> ('a fsst_scheme, nat option) kprog" where
  "create E path type' major minor =
     bindS (nameiparent E path) (\<lambda>r.
     case r of
       None \<Rightarrow> retS None
     | Some (dp, name) \<Rightarrow>
         thenS (ilock E (Some dp)) (
         bindS (dirlookup E dp name) (\<lambda>r.
         case r of
           Some (ip, _) \<Rightarrow>
             thenS (iunlockput E dp) (
             thenS (ilock E (Some ip)) (
             bindS (getI ip i_type) (\<lambda>t.
             if type' = T_FILE \<and> (t = T_FILE \<or> t = T_DEVICE) then retS (Some ip)
             else thenS (iunlockput E ip) (retS None))))
         | None \<Rightarrow>
             bindS (getI dp i_dev) (\<lambda>dev.
             bindS (ialloc E dev type') (\<lambda>r.
             case r of
               None \<Rightarrow> thenS (iunlockput E dp) (retS None)
             | Some ip \<Rightarrow> create_new E dp name type' major minor ip)))))"

section \<open>open\<close>

text \<open>With the inode locked: file structure, descriptor, and truncation.\<close>

definition open_inode :: "'a kd_scheme env \<Rightarrow> cint \<Rightarrow> nat \<Rightarrow> ('a kd_scheme, sysret) kprog" where
  "open_inode E omode ip =
     bindS (getI ip (\<lambda>x. x)) (\<lambda>x.
     if i_type x = T_DEVICE \<and> (sint (i_major x) < 0 \<or> int NDEV \<le> sint (i_major x))
     then thenS (iunlockput E ip) (fail_op E)
     else
       bindS filealloc (\<lambda>fo.
       bindS (case fo of None \<Rightarrow> retS None | Some f \<Rightarrow> fdalloc f) (\<lambda>fdo.
       case (fo, fdo) of
         (Some f, Some fd) \<Rightarrow>
           thenS (modD (upd_file f (\<lambda>y. if i_type x = T_DEVICE then y\<lparr>f_type := FD_DEVICE, f_major := i_major x\<rparr>
             else y\<lparr>f_type := FD_INODE, f_off := 0\<rparr>))) (
           thenS (modD (upd_file f (\<lambda>y. y\<lparr>f_ip := Some ip, f_readable := (omode AND O_WRONLY = 0),
             f_writable := (omode AND O_WRONLY \<noteq> 0 \<or> omode AND O_RDWR \<noteq> 0)\<rparr>))) (
           thenS (whenS (omode AND O_TRUNC \<noteq> 0 \<and> i_type x = T_FILE) (itrunc E ip)) (
           thenS (iunlock (Some ip)) (
           thenS (end_op E) (
           retI (of_nat fd))))))
       | _ \<Rightarrow>
           thenS (case fo of None \<Rightarrow> retS () | Some f \<Rightarrow> fileclose E f) (
           thenS (iunlockput E ip) (
           fail_op E)))))"

definition sys_open :: "'a kd_scheme env \<Rightarrow> ('a kd_scheme, sysret) kprog" where
  "sys_open E =
     thenS (count_call SYS_open) (
     bindS (argint 1) (\<lambda>omode.
     bindS (argstr 0 MAXPATH) (\<lambda>path.
     case path of
       None \<Rightarrow> retI (- 1)
     | Some path \<Rightarrow>
     thenS (begin_op E) (
     if omode AND O_CREATE \<noteq> 0
     then
       bindS (create E path T_FILE 0 0) (\<lambda>r.
       case r of None \<Rightarrow> fail_op E | Some ip \<Rightarrow> open_inode E omode ip)
     else
       bindS (namei E path) (\<lambda>r.
       case r of
         None \<Rightarrow> fail_op E
       | Some ip \<Rightarrow>
           thenS (ilock E (Some ip)) (
           bindS (getI ip i_type) (\<lambda>t.
           if t = T_DIR \<and> omode \<noteq> O_RDONLY then thenS (iunlockput E ip) (fail_op E)
           else open_inode E omode ip)))))))"

definition sys_mkdir :: "'a kd_scheme env \<Rightarrow> ('a kd_scheme, sysret) kprog" where
  "sys_mkdir E =
     thenS (count_call SYS_mkdir) (
     thenS (begin_op E) (
     bindS (argstr 0 MAXPATH) (\<lambda>path.
     bindS (case path of None \<Rightarrow> retS None | Some path \<Rightarrow> create E path T_DIR 0 0) (\<lambda>r.
     case r of
       None \<Rightarrow> fail_op E
     | Some ip \<Rightarrow> thenS (iunlockput E ip) (thenS (end_op E) (retI 0))))))"

definition sys_mknod :: "'a kd_scheme env \<Rightarrow> ('a kd_scheme, sysret) kprog" where
  "sys_mknod E =
     thenS (count_call SYS_mknod) (
     thenS (begin_op E) (
     bindS (argint 1) (\<lambda>major.
     bindS (argint 2) (\<lambda>minor.
     bindS (argstr 0 MAXPATH) (\<lambda>path.
     bindS (case path of None \<Rightarrow> retS None | Some path \<Rightarrow> create E path T_DEVICE (ucast major) (ucast minor)) (\<lambda>r.
     case r of
       None \<Rightarrow> fail_op E
     | Some ip \<Rightarrow> thenS (iunlockput E ip) (thenS (end_op E) (retI 0))))))))"

definition sys_chdir :: "'a kd_scheme env \<Rightarrow> ('a kd_scheme, sysret) kprog" where
  "sys_chdir E =
     thenS (count_call SYS_chdir) (
     bindS curS (\<lambda>p.
     thenS (begin_op E) (
     bindS (argstr 0 MAXPATH) (\<lambda>path.
     bindS (case path of None \<Rightarrow> retS None | Some path \<Rightarrow> namei E path) (\<lambda>r.
     case r of
       None \<Rightarrow> fail_op E
     | Some ip \<Rightarrow>
         thenS (ilock E (Some ip)) (
         bindS (getI ip i_type) (\<lambda>t.
         if t \<noteq> T_DIR then thenS (iunlockput E ip) (fail_op E)
         else
           thenS (iunlock (Some ip)) (
           bindS (getP p p_cwd) (\<lambda>cwd.
           thenS (derefS cwd (iput E)) (
           thenS (end_op E) (
           thenS (updP p (\<lambda>x. x\<lparr>p_cwd := Some ip\<rparr>)) (
           retI 0))))))))))))"

section \<open>exec and pipe\<close>

text \<open>
  Reading the arguments of \<open>exec\<close>: the pages allocated, in order, and the strings unless the result is \<open>bad\<close>.
  Each string is in its page, which belongs to nobody else until it is freed.
\<close>

primrec fetch_argv :: "uint64 \<Rightarrow> uint64 list \<Rightarrow> uint8 list list \<Rightarrow> nat list \<Rightarrow> ('a vst_scheme, uint64 list \<times> uint8 list list option) kprog" where
  "fetch_argv uargv pages argv [] = retS (pages, None)"
| "fetch_argv uargv pages argv (i # is) =
     bindS (fetchaddr (uargv + of_nat (8 * i))) (\<lambda>r.
     case r of
       None \<Rightarrow> retS (pages, None)
     | Some uarg \<Rightarrow>
         if uarg = 0 then retS (pages, Some argv)
         else
           bindS kallocS (\<lambda>pa.
           if pa = 0 then retS (pages, None)
           else
             bindS (fetchstr uarg 4096) (\<lambda>(s, bs).
             thenS (memU (\<lambda>m. Inr (m\<lparr>mem := store_bytes (mem m) pa bs\<rparr>))) (
             case s of
               None \<Rightarrow> retS (pages @ [pa], None)
             | Some s \<Rightarrow> fetch_argv uargv (pages @ [pa]) (argv @ [s]) is))))"

definition sys_exec :: "'a kd_scheme env \<Rightarrow> ('a kd_scheme, sysret) kprog" where
  "sys_exec E =
     thenS (count_call SYS_exec) (
     bindS (argaddr 1) (\<lambda>uargv.
     bindS (argstr 0 MAXPATH) (\<lambda>path.
     case path of
       None \<Rightarrow> retI (- 1)
     | Some path \<Rightarrow>
         bindS (fetch_argv uargv [] [] [0..<MAXARG]) (\<lambda>(pages, r).
         bindS (case r of None \<Rightarrow> retS (- 1) | Some argv \<Rightarrow> exec E path argv) (\<lambda>ret.
         thenS (forS pages (kfreeS E)) (
         retI ret))))))"

definition sys_pipe :: "'a kd_scheme env \<Rightarrow> ('a kd_scheme, sysret) kprog" where
  "sys_pipe E =
     thenS (count_call SYS_pipe) (
     bindS curS (\<lambda>p.
     bindS (argaddr 0) (\<lambda>fdarray.
     bindS (pipealloc E) (\<lambda>r.
     case r of
       None \<Rightarrow> retI (- 1)
     | Some (rf, wrf) \<Rightarrow>
         let bad = thenS (fileclose E rf) (thenS (fileclose E wrf) (retI (- 1))) in
         bindS (fdalloc rf) (\<lambda>fd0.
         case fd0 of
           None \<Rightarrow> bad
         | Some fd0 \<Rightarrow>
         bindS (fdalloc wrf) (\<lambda>fd1.
         case fd1 of
           None \<Rightarrow> thenS (set_fd p fd0 None) bad
         | Some fd1 \<Rightarrow>
             bindS (getP p p_pagetable) (\<lambda>pt.
             bindS (memS (copyout pt fdarray (le_bytes 4 (of_nat fd0 :: cint)))) (\<lambda>r0.
             bindS (if sint r0 < 0 then retS r0 else memS (copyout pt (fdarray + 4) (le_bytes 4 (of_nat fd1 :: cint)))) (\<lambda>r.
             if sint r < 0 then thenS (set_fd p fd0 None) (thenS (set_fd p fd1 None) bad)
             else retI 0)))))))))"

end
