(* ===== verification/Usertrap.thy ===== *)
theory Usertrap
  imports Sysfile
begin

text \<open>
  The system call table and \<open>syscall\<close> of \<open>kernel/syscall.c\<close>, \<open>usertrap\<close> of \<open>kernel/trap.c\<close>, and \<open>main\<close> of
  \<open>kernel/main.c\<close>: where the parts of the kernel come together.

  The compile-time option \<open>MLFQ\<close> is an argument of \<open>usertrap\<close>.
\<close>

section \<open>System calls\<close>

definition syscalls :: "'a kd_scheme env \<Rightarrow> nat \<Rightarrow> ('a kd_scheme, sysret) kprog option" where
  "syscalls E num =
     (if num = SYS_fork then Some (sys_fork E)
      else if num = SYS_exit then Some (sys_exit E)
      else if num = SYS_wait then Some (sys_wait E)
      else if num = SYS_pipe then Some (sys_pipe E)
      else if num = SYS_read then Some (sys_read E)
      else if num = SYS_kill then Some sys_kill
      else if num = SYS_exec then Some (sys_exec E)
      else if num = SYS_fstat then Some (sys_fstat E)
      else if num = SYS_chdir then Some (sys_chdir E)
      else if num = SYS_dup then Some sys_dup
      else if num = SYS_getpid then Some sys_getpid
      else if num = SYS_sbrk then Some (sys_sbrk E)
      else if num = SYS_sleep then Some (sys_sleep E)
      else if num = SYS_uptime then Some sys_uptime
      else if num = SYS_open then Some (sys_open E)
      else if num = SYS_write then Some (sys_write E)
      else if num = SYS_mknod then Some (sys_mknod E)
      else if num = SYS_unlink then Some (sys_unlink E)
      else if num = SYS_link then Some (sys_link E)
      else if num = SYS_mkdir then Some (sys_mkdir E)
      else if num = SYS_close then Some (sys_close E)
      else if num = SYS_waitx then Some (sys_waitx E)
      else if num = SYS_getSysCount then Some sys_getSysCount
      else if num = SYS_sigalarm then Some sys_sigalarm
      else if num = SYS_sigreturn then Some (sys_sigreturn E)
      else if num = SYS_settickets then Some sys_settickets
      else None)"

definition NELEM_syscalls :: nat where "NELEM_syscalls = 27"

text \<open>The result is the argument of the jump to user space when the call made it, \<open>None\<close> otherwise.\<close>

definition syscall :: "'a kd_scheme env \<Rightarrow> ('a kd_scheme, uint64 option) kprog" where
  "syscall E =
     bindS curS (\<lambda>p.
     bindS (tf_get p TF_a7) (\<lambda>a7.
     let num = (ucast a7 :: cint);
         handler = (if 0 < sint num \<and> unat num < NELEM_syscalls then syscalls E (unat num) else None)
     in case handler of
          Some f \<Rightarrow>
            bindS f (\<lambda>r.
            case r of
              Ret v \<Rightarrow> thenS (tf_set p TF_a0 v) (retS None)
            | Jumped satp \<Rightarrow> retS (Some satp))
        | None \<Rightarrow>
            bindS (getP p (\<lambda>x. (p_pid x, p_name x))) (\<lambda>(pid, name).
            thenS (printfS ''%d %s: unknown sys call %d\<newline>'' [PInt pid, PStr name, PInt num]) (
            thenS (tf_set p TF_a0 (- 1)) (
            retS None)))))"

section \<open>The timer interrupt\<close>

text \<open>When the alarm of the process is due: save the trap frame and enter the handler.\<close>

definition alarm_tick :: "nat \<Rightarrow> ('a vst_scheme, unit) kprog" where
  "alarm_tick p =
     bindS (getP p p_state) (\<lambda>st. whenS (st = RUNNING) (
     thenS (updP p (\<lambda>x. x\<lparr>p_cur_ticks := p_cur_ticks x + 1\<rparr>)) (
     bindS (getP p (\<lambda>x. x)) (\<lambda>x.
     whenS (0 < sint (p_ticks x) \<and> sint (p_ticks x) \<le> sint (p_cur_ticks x) \<and> \<not> p_in_alarm_handler x) (
       thenS (updP p (\<lambda>x. x\<lparr>p_in_alarm_handler := True\<rparr>)) (
       bindS kallocS (\<lambda>tf.
       if tf = 0 then failS (Panic ''usertrap: failed to allocate memory for alarm trapframe'')
       else
         thenS (memU (\<lambda>m. Inr (m\<lparr>mem := memmove (mem m) tf (p_trapframe x) TF_size\<rparr>))) (
         thenS (updP p (\<lambda>x. x\<lparr>p_alarm_tf := tf\<rparr>)) (
         thenS (tf_set p TF_epc (p_handler x)) (
         updP p (\<lambda>x. x\<lparr>p_cur_ticks := 0\<rparr>)))))))))))"

text \<open>
  The priority boost of one level: \<open>for (j = 0; j < sizeofq[level]; j++)\<close> with the process at \<open>j\<close> moved to queue 0.
  The index goes up by one each time and a queue has at most \<open>NPROC\<close> entries.
\<close>

primrec boost_level :: "nat \<Rightarrow> nat \<Rightarrow> nat \<Rightarrow> 'a pst_scheme \<Rightarrow> 'a pst_scheme res" where
  "boost_level 0 level j d = Inl OutOfFuel"
| "boost_level (Suc n) level j d =
     (if j < sizeofq d level
      then (case multique d level j of
              None \<Rightarrow> Inl BadAccess
            | Some temp \<Rightarrow>
                bindR (dequeue temp (p_queue_number (procs d temp)) d) (\<lambda>d.
                bindR (enqueue temp 0 d) (
                boost_level n level (j + 1))))
      else Inr d)"

definition priority_boost :: "'a pst_scheme \<Rightarrow> 'a pst_scheme res" where
  "priority_boost d =
     (if ticks d mod 48 = 0 then foldR (\<lambda>level. boost_level (NPROC + 1) level 0) [1..<4] d else Inr d)"

text \<open>Whether the time slice is used up, and the demotion when it is.\<close>

definition slice_over :: "proc \<Rightarrow> bool" where
  "slice_over x \<longleftrightarrow> sint (timesliceq (p_queue_number x)) \<le> sint (p_queueticks x)"

definition demote :: "nat \<Rightarrow> 'a pst_scheme \<Rightarrow> 'a pst_scheme res" where
  "demote p d =
     bindR (dequeue p (p_queue_number (procs d p)) d) (\<lambda>d.
     let npriority = p_queue_number (procs d p) + 1;
         npriority = (if 3 < npriority then npriority - 1 else npriority)
     in enqueue p npriority d)"

text \<open>
  \<open>for (i = 0; i < p->queue_number; i++) if (sizeofq[i] > 0) yield();\<close>, the queue number being read again after each
  \<open>yield\<close>. There are four queues.
\<close>

primrec preempt :: "'a pst_scheme env \<Rightarrow> nat \<Rightarrow> nat list \<Rightarrow> ('a pst_scheme, unit) kprog" where
  "preempt E p [] = bindS (getP p p_queue_number) (\<lambda>q. whenS (4 < q) (failS BadAccess))"
| "preempt E p (i # is) =
     bindS (getD (\<lambda>d. (i < p_queue_number (procs d p), 0 < sizeofq d i))) (\<lambda>(more, some).
     if \<not> more then retS ()
     else thenS (whenS some (doS (yield (e_swt E)))) (preempt E p is))"

definition mlfq_tick :: "'a pst_scheme env \<Rightarrow> nat \<Rightarrow> ('a pst_scheme, unit) kprog" where
  "mlfq_tick E p =
     thenS (updP p (\<lambda>x. x\<lparr>p_queueticks := p_queueticks x + 1\<rparr>)) (
     thenS (doS (on_data priority_boost)) (
     bindS (getP p p_queue_number) (\<lambda>q.
     if 4 \<le> q then failS BadAccess
     else
       bindS (getP p slice_over) (\<lambda>over.
       thenS (whenS over (thenS (doS (on_data (demote p))) (doS (yield (e_swt E))))) (
       preempt E p [0..<4])))))"

section \<open>usertrap\<close>

definition usertrap_tail :: "'a kd_scheme env \<Rightarrow> bool \<Rightarrow> nat \<Rightarrow> nat \<Rightarrow> ('a kd_scheme, uint64) kprog" where
  "usertrap_tail E mlfq p which_dev =
     bindS (killed p) (\<lambda>k.
     if k then exit E (- 1)
     else
       thenS (whenS (which_dev = 2) (
         bindS curS (\<lambda>p.
         thenS (alarm_tick p) (
         if mlfq then mlfq_tick E p else doS (yield (e_swt E)))))) (
       usertrapret E))"

definition usertrap :: "'a kd_scheme env \<Rightarrow> bool \<Rightarrow> ('a kd_scheme, uint64) kprog" where
  "usertrap E mlfq =
     bindS (getD r_spp) (\<lambda>spp.
     if spp then failS (Panic ''usertrap: not from user mode'')
     else
       thenS (modD (\<lambda>d. d\<lparr>r_stvec := l_kernelvec (e_layout E)\<rparr>)) (
       bindS curS (\<lambda>p.
       bindS (getD r_sepc) (\<lambda>sepc.
       thenS (tf_set p TF_epc sepc) (
       bindS (getD r_scause) (\<lambda>scause.
       if scause = 8
       then
         bindS (killed p) (\<lambda>k.
         if k then exit E (- 1)
         else
           bindS (tf_get p TF_epc) (\<lambda>epc.
           thenS (tf_set p TF_epc (epc + 4)) (
           thenS (hartS (\<lambda>h. Inr ((), intr_on h))) (
           bindS (syscall E) (\<lambda>r.
           case r of
             Some satp \<Rightarrow> retS satp
           | None \<Rightarrow> usertrap_tail E mlfq p 0)))))
       else
         bindS (devintr E) (\<lambda>which_dev.
         if which_dev \<noteq> 0 then usertrap_tail E mlfq p which_dev
         else
           bindS (getD (\<lambda>d. (r_scause d, p_pid (procs d p)))) (\<lambda>(c, pid).
           thenS (printfS ''usertrap(): unexpected scause %p pid=%d\<newline>'' [PPtr c, PInt pid]) (
           bindS (getD (\<lambda>d. (r_sepc d, r_stval d))) (\<lambda>(e, v).
           thenS (printfS ''            sepc=%p stval=%p\<newline>'' [PPtr e, PPtr v]) (
           thenS (doS (setkilled p)) (
           usertrap_tail E mlfq p 0))))))))))))"

section \<open>Booting\<close>

record md = kd +
  started :: bool

text \<open>\<open>main\<close> up to the call of \<open>scheduler\<close>. A hart other than the first spins until the first has started.\<close>

definition main :: "'a md_scheme env \<Rightarrow> ('a md_scheme, unit) kprog" where
  "main E =
     bindS cpuidS (\<lambda>hart.
     if hart = 0
     then
       thenS consoleinit (
       thenS printfinit (
       thenS (printfS ''\<newline>'' []) (
       thenS (printfS ''xv6 kernel is booting\<newline>'' []) (
       thenS (printfS ''\<newline>'' []) (
       thenS (memU (kinit (e_layout E))) (
       thenS (kvminit E) (
       thenS kvminithart (
       thenS procinit (
       thenS trapinit (
       thenS (trapinithart E) (
       thenS plicinit (
       thenS plicinithart (
       thenS binit (
       thenS iinit (
       thenS fileinit (
       thenS (virtio_disk_init E) (
       thenS (userinit E) (
       modD (\<lambda>d. d\<lparr>started := True\<rparr>)))))))))))))))))))
     else
       bindS (getD started) (\<lambda>st.
       if \<not> st then failS Spin
       else
         thenS (printfS ''hart %d starting\<newline>'' [PInt (of_nat hart)]) (
         thenS kvminithart (
         thenS (trapinithart E) (
         plicinithart)))))"

end
