(* ===== verification/Ring.thy ===== *)
theory Ring
  imports Prelude
begin

text \<open>
  Ring buffers with free-running indices, as \<open>pipe.c\<close>, \<open>uart.c\<close> and \<open>console.c\<close> have them: the read and write index
  count up and wrap around with their type, and an index modulo the size is a position in the array.

  The locale \<open>fifo\<close> is what such a buffer promises to its users.
\<close>

section \<open>Contents of a ring\<close>

definition ring :: "nat \<Rightarrow> (nat \<Rightarrow> 'a) \<Rightarrow> 'w::len word \<Rightarrow> 'w word \<Rightarrow> 'a list" where
  "ring N buf r w = map (\<lambda>i. buf ((unat r + i) mod N)) [0..<unat (w - r)]"

lemma length_ring [simp]: "length (ring N buf r w) = unat (w - r)"
  by (simp add: ring_def)

lemma unat_plus_mod: "N dvd 2 ^ LENGTH('w) \<Longrightarrow> unat (a + b) mod N = (unat a + unat b) mod N" for a b :: "'w::len word"
  by (simp add: unat_word_ariths mod_mod_cancel)

lemma ring_pos_eq: "N dvd 2 ^ LENGTH('w) \<Longrightarrow> unat w mod N = (unat r + unat (w - r)) mod N" for r w :: "'w::len word"
  using unat_plus_mod[of N r "w - r"] by simp

lemma unat_diff_Suc: "unat (w - r) + 1 < 2 ^ LENGTH('w) \<Longrightarrow> unat (w + 1 - r) = unat (w - r) + 1" for r w :: "'w::len word"
proof -
  assume "unat (w - r) + 1 < 2 ^ LENGTH('w)"
  then have "unat (w - r + 1) = unat (w - r) + 1" by (simp add: unat_word_ariths)
  then show ?thesis by (simp add: algebra_simps)
qed

lemma unat_diff_pred: "w \<noteq> r \<Longrightarrow> unat (w - r) = Suc (unat (w - (r + 1)))" for r w :: "'w::len word"
proof -
  assume "w \<noteq> r"
  then have "w - r \<noteq> 0" by simp
  then have "unat (w - r - 1) = unat (w - r) - 1" "0 < unat (w - r)"
    by (simp_all add: unat_minus_one unat_gt_0)
  then show ?thesis by (simp add: algebra_simps)
qed

lemma mod_add_inj: "i < n \<Longrightarrow> n < N \<Longrightarrow> (a + i) mod N \<noteq> (a + n) mod (N :: nat)"
  using mod_eq_dvd_iff_nat[of "a + i" "a + n" N] by (auto dest: dvd_imp_le)

lemma ring_put:
  fixes r w :: "'w::len word"
  assumes "N dvd 2 ^ LENGTH('w)" and "N < 2 ^ LENGTH('w)" and "unat (w - r) < N"
  shows "ring N (buf(unat w mod N := c)) r (w + 1) = ring N buf r w @ [c]"
proof -
  let ?n = "unat (w - r)"
  have len: "unat (w + 1 - r) = Suc ?n" using assms(2,3) unat_diff_Suc[of w r] by simp
  have pos: "unat w mod N = (unat r + ?n) mod N" by (rule ring_pos_eq) (rule assms(1))
  have "(buf(unat w mod N := c)) ((unat r + i) mod N) = buf ((unat r + i) mod N)" if "i < ?n" for i
    using mod_add_inj[OF that assms(3), of "unat r"] by (simp add: pos)
  then show ?thesis by (simp add: ring_def len pos)
qed

lemma ring_get:
  fixes r w :: "'w::len word"
  assumes "N dvd 2 ^ LENGTH('w)" and "w \<noteq> r"
  shows "ring N buf r w = buf (unat r mod N) # ring N buf (r + 1) w"
proof -
  have "(unat (r + 1) + i) mod N = (unat r + Suc i) mod N" for i
    using unat_plus_mod[OF assms(1), of r 1] mod_add_left_eq[of "unat (r + 1)" N i] mod_add_left_eq[of "unat r + 1" N i]
    by simp
  then show ?thesis
    unfolding ring_def unat_diff_pred[OF assms(2)] upt_conv_Cons[OF zero_less_Suc]
    by (simp add: map_Suc_upt[symmetric] del: upt_Suc)
qed

section \<open>Queues\<close>

datatype 'a fifo_op = Put 'a | Get

text \<open>
  A run of operations, where one that would have to wait is passed over. The result is what was put in and what was
  taken out, in order, and the state at the end.
\<close>

fun fifo_run :: "('s \<Rightarrow> bool) \<Rightarrow> ('s \<Rightarrow> bool) \<Rightarrow> ('a \<Rightarrow> 's \<Rightarrow> 's) \<Rightarrow> ('s \<Rightarrow> 'a \<times> 's) \<Rightarrow> 'a fifo_op list \<Rightarrow> 's \<Rightarrow>
    'a list \<times> 'a list \<times> 's" where
  "fifo_run full vacant put get [] s = ([], [], s)"
| "fifo_run full vacant put get (Put c # ops) s =
     (if full s then fifo_run full vacant put get ops s
      else let (i, out, s) = fifo_run full vacant put get ops (put c s) in (c # i, out, s))"
| "fifo_run full vacant put get (Get # ops) s =
     (if vacant s then fifo_run full vacant put get ops s
      else let (c, s) = get s; (i, out, s) = fifo_run full vacant put get ops s in (i, c # out, s))"

locale fifo =
  fixes contents :: "'s \<Rightarrow> 'a list" and ok :: "'s \<Rightarrow> bool" and cap :: nat
    and full :: "'s \<Rightarrow> bool" and vacant :: "'s \<Rightarrow> bool" and put :: "'a \<Rightarrow> 's \<Rightarrow> 's" and get :: "'s \<Rightarrow> 'a \<times> 's"
  assumes full_iff: "ok s \<Longrightarrow> full s = (length (contents s) = cap)"
    and vacant_iff: "ok s \<Longrightarrow> vacant s = (contents s = [])"
    and bounded: "ok s \<Longrightarrow> length (contents s) \<le> cap"
    and put_law: "ok s \<Longrightarrow> \<not> full s \<Longrightarrow> ok (put c s) \<and> contents (put c s) = contents s @ [c]"
    and get_law: "ok s \<Longrightarrow> \<not> vacant s \<Longrightarrow> ok (snd (get s)) \<and> contents s = fst (get s) # contents (snd (get s))"
begin

lemma run_in_order:
  "ok s \<Longrightarrow> fifo_run full vacant put get ops s = (i, out, s') \<Longrightarrow>
     ok s' \<and> contents s @ i = out @ contents s' \<and> length (contents s') \<le> cap"
proof (induction ops arbitrary: s i out)
  case Nil
  then show ?case using bounded by simp
next
  case (Cons op ops)
  show ?case
  proof (cases op)
    case (Put c)
    with Cons put_law[OF Cons.prems(1), of c] show ?thesis by (fastforce split: if_splits prod.splits)
  next
    case Get
    with Cons get_law[OF Cons.prems(1)] show ?thesis by (fastforce split: if_splits prod.splits)
  qed
qed

end

end
