(* ===== verification/KProofs.thy ===== *)
theory KProofs
  imports Bio
begin

text \<open>
  How the lock operations and the current process compute in kernel code, and what follows for sleep locks.
\<close>

section \<open>Locks and the current process\<close>

named_theorems khart \<open>evaluation of lock operations\<close>

lemma locked_cpu [simp]: "c_proc (mycpu (locked lk h)) = c_proc (mycpu h)"
  by (simp add: locked_def hart_defs)

lemma settle_locked [simp]: "hart_ok h \<Longrightarrow> settle (locked lk h) = locked lk h"
  by (rule settle_nested) (simp add: hart_ok_def locked_def hart_defs)

lemma lock_free_locked [simp]: "lock_free lk' (locked lk h) \<longleftrightarrow> lk' \<noteq> lk \<and> lock_free lk' h"
  by (auto simp: lock_free_def locked_def hart_defs)

lemma settled_locked: "hart_ok h \<Longrightarrow> locked lk (settle h) = locked lk h"
  by (rule locked_settle)

lemma curS_eq [khart]: "hart_ok h \<Longrightarrow> c_proc (mycpu h) = Some p \<Longrightarrow> curS (h, d) = Inr (p, (settle h, d))"
  by (simp add: curS_def myprocS_def myproc_eq bindS_def)

lemmas khart_rules [khart] = acquireS_free releaseS_locked hart_ok_locked sleep_while_done locked_settle

section \<open>Waking up\<close>

text \<open>What a hart needs to call \<open>wakeup\<close>.\<close>

definition can_wake :: "hst \<Rightarrow> bool" where
  "can_wake h \<longleftrightarrow> hart_ok h \<and> (\<forall>p < NPROC. Some p \<noteq> c_proc (mycpu h) \<longrightarrow> lock_free (ProcLock p) h)"

lemma can_wake_settle [simp]: "can_wake (settle h) = can_wake h"
  by (simp add: can_wake_def)

lemma can_wake_locked: "can_wake h \<Longrightarrow> (\<And>p. lk \<noteq> ProcLock p) \<Longrightarrow> can_wake (locked lk h)"
  by (auto simp: can_wake_def hart_ok_locked)

lemma wakeupS_eq:
  assumes "can_wake h" and "sched_inv d"
  shows "\<exists>d'. wakeupS ch (h, d) = Inr ((), (settle h, d')) \<and> sched_inv d' \<and> globals d' = globals d"
  using wakeup_frame[of h d "Some ch"] assms by (auto simp: can_wake_def wakeupS_def)

section \<open>Sleep locks\<close>

lemma acquiresleep_free:
  assumes "hart_ok h" and "lock_free (SleepLkLock lk) h" and "c_proc (mycpu h) = Some p"
    and "\<not> sl_locked (sleeplocks d lk)" and "0 < e_fuel E"
  shows "acquiresleep E lk (h, d) =
    Inr ((), (settle h, upd_sl lk (\<lambda>l. l\<lparr>sl_locked := True, sl_pid := p_pid (procs d p)\<rparr>) d))"
  using assms by (simp add: acquiresleep_def khart upd_sl_def)

lemma holdingsleep_eq:
  assumes "hart_ok h" and "lock_free (SleepLkLock lk) h" and "c_proc (mycpu h) = Some p"
  shows "holdingsleep lk (h, d) =
    Inr (sl_locked (sleeplocks d lk) \<and> sl_pid (sleeplocks d lk) = p_pid (procs d p), (settle h, d))"
  using assms by (simp add: holdingsleep_def khart)

lemma sched_inv_upd_sl [simp]: "sched_inv (upd_sl lk f d) = sched_inv d"
  by (simp add: sched_inv_def mlfq_inv_def pids_unique_def queue_def upd_sl_def)

lemma upd_sl_sel [simp]:
  "sleeplocks (upd_sl lk f d) = (sleeplocks d)(lk := f (sleeplocks d lk))" "procs (upd_sl lk f d) = procs d"
  by (simp_all add: upd_sl_def)

lemma woken_upd_sl [simp]: "woken ch me ps (upd_sl lk f d) = woken ch me ps d"
  by (simp add: woken_def sleeper_def fun_eq_iff)

lemma globals_sleeplocks: "globals d' = globals d \<Longrightarrow> sleeplocks d' = sleeplocks d"
  by (cases d; cases d') (simp add: globals_def)

definition unlocked :: "hst \<Rightarrow> bool" where
  "unlocked h \<longleftrightarrow> (\<forall>lk. lock_free lk h)"

lemma unlocked_settle [simp]: "unlocked (settle h) = unlocked h"
  by (simp add: unlocked_def)

lemma releasesleep_eq:
  assumes "hart_ok h" and "unlocked h" and "sched_inv d"
  shows "\<exists>d'. releasesleep lk (h, d) = Inr ((), (settle h, d')) \<and> sched_inv d' \<and>
    sleeplocks d' = (sleeplocks d)(lk := (sleeplocks d lk)\<lparr>sl_locked := False, sl_pid := 0\<rparr>) \<and>
    procs d' = woken (Some (ChanSleeplock lk)) (c_proc (mycpu h)) [0..<NPROC] d"
proof -
  let ?d = "upd_sl lk (\<lambda>l. l\<lparr>sl_locked := False, sl_pid := 0\<rparr>) d" and ?h = "locked (SleepLkLock lk) h"
  have "hart_ok ?h" using assms(1) by (rule hart_ok_locked)
  moreover have "\<forall>p < NPROC. Some p \<noteq> c_proc (mycpu ?h) \<longrightarrow> lock_free (ProcLock p) ?h"
    using assms(2) by (simp add: unlocked_def)
  moreover have "sched_inv ?d" using assms(3) by simp
  ultimately obtain d' where d': "wakeup (Some (ChanSleeplock lk)) (?h, ?d) = Inr (?h, d')" "sched_inv d'"
      "globals d' = globals ?d" "procs d' = woken (Some (ChanSleeplock lk)) (c_proc (mycpu h)) [0..<NPROC] d"
    using wakeup_frame[of ?h ?d "Some (ChanSleeplock lk)"] assms(1) by auto
  have "releasesleep lk (h, d) = Inr ((), (settle h, d'))"
    using assms(1,2) d'(1) by (simp add: releasesleep_def wakeupS_def unlocked_def khart)
  with d' globals_sleeplocks[OF d'(3)] show ?thesis by auto
qed

text \<open>
  A sleep lock taken while it is free is held by the process that took it, and \<open>holdingsleep\<close> says so to that
  process and to no process with another pid. Releasing it leaves it free, wakes the processes waiting for it, and
  touches no other sleep lock.
\<close>

theorem sleeplock_protocol:
  assumes "hart_ok h" and "unlocked h" and "c_proc (mycpu h) = Some p" and "sched_inv d"
    and "\<not> sl_locked (sleeplocks d lk)" and "0 < e_fuel E"
  shows "\<exists>d1 d2. acquiresleep E lk (h, d) = Inr ((), (settle h, d1)) \<and>
    holdingsleep lk (settle h, d1) = Inr (True, (settle h, d1)) \<and>
    (\<forall>h' q. hart_ok h' \<and> unlocked h' \<and> c_proc (mycpu h') = Some q \<and> p_pid (procs d1 q) \<noteq> p_pid (procs d1 p) \<longrightarrow>
       holdingsleep lk (h', d1) = Inr (False, (settle h', d1))) \<and>
    releasesleep lk (settle h, d1) = Inr ((), (settle h, d2)) \<and> sched_inv d2 \<and> \<not> sl_locked (sleeplocks d2 lk) \<and>
    (\<forall>lk'. lk' \<noteq> lk \<longrightarrow> sleeplocks d2 lk' = sleeplocks d lk') \<and>
    procs d2 = woken (Some (ChanSleeplock lk)) (Some p) [0..<NPROC] d"
proof -
  let ?d1 = "upd_sl lk (\<lambda>l. l\<lparr>sl_locked := True, sl_pid := p_pid (procs d p)\<rparr>) d"
  have free: "lock_free (SleepLkLock lk) g" if "unlocked g" for g using that by (simp add: unlocked_def)
  obtain d2 where "releasesleep lk (settle h, ?d1) = Inr ((), (settle h, d2))" "sched_inv d2"
      "sleeplocks d2 = (sleeplocks ?d1)(lk := (sleeplocks ?d1 lk)\<lparr>sl_locked := False, sl_pid := 0\<rparr>)"
      "procs d2 = woken (Some (ChanSleeplock lk)) (Some p) [0..<NPROC] d"
    using releasesleep_eq[of "settle h" ?d1 lk] assms(1-4) by auto
  moreover have "holdingsleep lk (settle h, ?d1) = Inr (True, (settle h, ?d1))"
    using assms(1-3) free by (simp add: holdingsleep_eq)
  moreover have "holdingsleep lk (h', ?d1) = Inr (False, (settle h', ?d1))"
    if "hart_ok h'" "unlocked h'" "c_proc (mycpu h') = Some q" "p_pid (procs ?d1 q) \<noteq> p_pid (procs ?d1 p)" for h' q
    using that free by (simp add: holdingsleep_eq)
  ultimately show ?thesis using acquiresleep_free[OF assms(1) free[OF assms(2)] assms(3,5,6)] by auto
qed

section \<open>A concrete state\<close>

text \<open>The processes of \<open>ops_pst\<close>, no lock held, an empty cache and an idle disk.\<close>

definition buf0 :: buf where
  "buf0 = \<lparr>b_valid = False, b_disk = False, b_dev = 0, b_blockno = 0, b_refcnt = 0, b_prev = 0, b_next = 0,
     b_data = replicate BSIZE 0\<rparr>"

definition disk0 :: disk where
  "disk0 = \<lparr>desc_page = 0, avail_page = 0, used_page = 0, desc = (\<lambda>_. desc0), avail_idx = 0, avail_ring = (\<lambda>_. 0),
     used_idx_dev = 0, used_ring = (\<lambda>_. 0), dfree = (\<lambda>_. True), used_idx = 0, info_b = (\<lambda>_. None),
     info_status = (\<lambda>_. 0), ops = (\<lambda>_. \<lparr>rq_type = 0, rq_reserved = 0, rq_sector = 0\<rparr>)\<rparr>"

definition demo_dst :: dst where
  "demo_dst = \<lparr>procs = procs ops_pst, initproc = initproc ops_pst, multique = multique ops_pst, sizeofq = sizeofq ops_pst,
     nextpid = 4, ticks = 0, seed = 1, kout = [], km = demo_mst, kernel_pagetable = 0,
     sleeplocks = (\<lambda>_. \<lparr>sl_locked = False, sl_name = [], sl_pid = 0\<rparr>),
     bufs = (\<lambda>_. buf0), disk = disk0, mmio_out = []\<rparr>"

definition demo_env :: "'d env" where
  "demo_env = \<lparr>e_swt = (\<lambda>_ _. Inl Spin), e_fuel = 1, e_layout = demo_layout, e_mmio = (\<lambda>_. 0), e_junk = 0\<rparr>"

lemma sched_inv_cong:
  fixes d :: "'a pst_scheme" and d' :: "'b pst_scheme"
  assumes "procs d' = procs d" and "multique d' = multique d" and "sizeofq d' = sizeofq d"
  shows "sched_inv d' = sched_inv d"
  using assms by (simp add: sched_inv_def mlfq_inv_def pids_unique_def queue_def)

lemma demo_dst_inv: "sched_inv demo_dst"
  using ops_inv by (subst sched_inv_cong[of _ ops_pst]) (simp_all add: demo_dst_def)

lemma demo_env_fuel [simp]: "e_fuel demo_env = 1"
  by (simp add: demo_env_def)

lemma ops_unlocked: "unlocked ops_hst"
  by (simp add: unlocked_def ops_hst_ok)

theorem sleeplock_protocol_witness:
  "\<exists>d1 d2. acquiresleep demo_env (BufLk 3) (ops_hst, demo_dst) = Inr ((), (settle ops_hst, d1)) \<and>
    holdingsleep (BufLk 3) (settle ops_hst, d1) = Inr (True, (settle ops_hst, d1)) \<and>
    releasesleep (BufLk 3) (settle ops_hst, d1) = Inr ((), (settle ops_hst, d2)) \<and> \<not> sl_locked (sleeplocks d2 (BufLk 3))"
proof -
  have "\<not> sl_locked (sleeplocks demo_dst (BufLk 3))" "0 < e_fuel (demo_env :: dst env)" by (simp_all add: demo_dst_def)
  from sleeplock_protocol[OF ops_hst_ok(1) ops_unlocked ops_hst_ok(3) demo_dst_inv this] show ?thesis by blast
qed

end
