(* ===== verification/BioProofs.thy ===== *)
theory BioProofs
  imports KProofs
begin

text \<open>
  The buffer cache as a list: the links of \<open>bio.c\<close> represent the buffers in the order of their last use, and what
  \<open>bget\<close> and \<open>brelse\<close> do on the links is what they should do on the list.
\<close>

section \<open>The linked list\<close>

text \<open>The buffers \<open>xs\<close> between \<open>a\<close> and \<open>c\<close>, linked in both directions.\<close>

fun chain :: "(nat \<Rightarrow> buf) \<Rightarrow> nat \<Rightarrow> nat list \<Rightarrow> nat \<Rightarrow> bool" where
  "chain bs a [] c \<longleftrightarrow> b_next (bs a) = c \<and> b_prev (bs c) = a"
| "chain bs a (x # xs) c \<longleftrightarrow> b_next (bs a) = x \<and> b_prev (bs x) = a \<and> chain bs x xs c"

definition linked :: "(nat \<Rightarrow> buf) \<Rightarrow> nat list \<Rightarrow> bool" where
  "linked bs xs \<longleftrightarrow> distinct xs \<and> bhead \<notin> set xs \<and> chain bs bhead xs bhead"

lemma chain_append: "chain bs a (xs @ y # ys) c \<longleftrightarrow> chain bs a xs y \<and> chain bs y ys c"
  by (induction xs arbitrary: a) auto

lemma chain_cong:
  "(\<And>x. x \<in> insert a (set xs) \<Longrightarrow> b_next (bs' x) = b_next (bs x)) \<Longrightarrow>
   (\<And>x. x \<in> insert c (set xs) \<Longrightarrow> b_prev (bs' x) = b_prev (bs x)) \<Longrightarrow> chain bs' a xs c = chain bs a xs c"
  by (induction xs arbitrary: a) auto

lemma chain_next: "chain bs a xs c \<Longrightarrow> b_next (bs a) = hd (xs @ [c])"
  by (cases xs) auto

lemma chain_prev: "chain bs a xs c \<Longrightarrow> b_prev (bs c) = last (a # xs)"
  by (induction xs arbitrary: a) auto

text \<open>Following the links in either direction visits the buffers of the list in that order.\<close>

lemma bscan_next:
  "chain bs a xs bhead \<Longrightarrow> bhead \<notin> set xs \<Longrightarrow> length xs < n \<Longrightarrow>
     bscan n b_next P bs (b_next (bs a)) = Inr (List.find (\<lambda>b. P (bs b)) xs)"
proof (induction xs arbitrary: a n)
  case Nil
  then show ?case by (cases n) auto
next
  case (Cons x xs)
  then show ?case by (cases n) auto
qed

lemma bscan_prev:
  "chain bs bhead xs c \<Longrightarrow> bhead \<notin> set xs \<Longrightarrow> length xs < n \<Longrightarrow>
     bscan n b_prev P bs (b_prev (bs c)) = Inr (List.find (\<lambda>b. P (bs b)) (rev xs))"
proof (induction xs arbitrary: c n rule: rev_induct)
  case Nil
  then show ?case by (cases n) auto
next
  case (snoc x xs)
  then show ?case by (cases n) (auto simp: chain_append)
qed

lemma link_front_sel:
  "b_dev (link_front b bs x) = b_dev (bs x)" "b_blockno (link_front b bs x) = b_blockno (bs x)"
  "b_valid (link_front b bs x) = b_valid (bs x)" "b_refcnt (link_front b bs x) = b_refcnt (bs x)"
  "b_data (link_front b bs x) = b_data (bs x)" "b_disk (link_front b bs x) = b_disk (bs x)"
  by (simp_all add: link_front_def Let_def)

lemma unlink_sel:
  "b_dev (unlink b bs x) = b_dev (bs x)" "b_blockno (unlink b bs x) = b_blockno (bs x)"
  "b_valid (unlink b bs x) = b_valid (bs x)" "b_refcnt (unlink b bs x) = b_refcnt (bs x)"
  "b_data (unlink b bs x) = b_data (bs x)" "b_disk (unlink b bs x) = b_disk (bs x)"
  by (simp_all add: unlink_def Let_def)

lemma linked_link_front:
  assumes "linked bs xs" and "b \<notin> set xs" and "b \<noteq> bhead"
  shows "linked (link_front b bs) (b # xs)"
proof (cases xs)
  case Nil
  then show ?thesis using assms by (auto simp: linked_def link_front_def Let_def)
next
  case (Cons y ys)
  with assms have y: "b_next (bs bhead) = y" "y \<noteq> bhead" "y \<noteq> b" "y \<notin> set ys" "b \<notin> set ys" "bhead \<notin> set ys"
    and tail: "chain bs y ys bhead"
    by (auto simp: linked_def)
  have "chain (link_front b bs) y ys bhead = chain bs y ys bhead"
    using y assms(3) by (intro chain_cong) (auto simp: link_front_def Let_def)
  with Cons y tail assms show ?thesis by (auto simp: linked_def link_front_def Let_def)
qed

lemma unlink_links:
  "b_next (bs b) \<noteq> b \<Longrightarrow> b_prev (bs b) \<noteq> b \<Longrightarrow>
    b_next (unlink b bs x) = (if x = b_prev (bs b) then b_next (bs b) else b_next (bs x)) \<and>
    b_prev (unlink b bs x) = (if x = b_next (bs b) then b_prev (bs b) else b_prev (bs x))"
  by (auto simp: unlink_def Let_def)

lemma linked_unlink:
  assumes "linked bs (us @ b # vs)"
  shows "linked (unlink b bs) (us @ vs)"
proof -
  from assms have c: "chain bs bhead us b" "chain bs b vs bhead" and dist: "distinct (us @ b # vs)"
    and h: "bhead \<notin> set (us @ b # vs)"
    by (auto simp: linked_def chain_append)
  have n: "b_next (bs b) = hd (vs @ [bhead])" and p: "b_prev (bs b) = last (bhead # us)"
    using chain_next[OF c(2)] chain_prev[OF c(1)] by auto
  have "b_next (bs b) \<noteq> b" "b_prev (bs b) \<noteq> b" using n p dist h by (cases vs; auto)+
  note ul = unlink_links[of bs b, OF this]
  have front: "chain (unlink b bs) bhead us (hd (vs @ [bhead]))"
  proof (cases us rule: rev_cases)
    case Nil
    then show ?thesis using ul n p by simp
  next
    case (snoc us0 u)
    have "b_next (bs b) \<in> insert bhead (set vs)" unfolding n by (cases vs) auto
    then have "b_next (bs b) \<notin> set us" using dist h by auto
    then have "chain (unlink b bs) bhead us0 u = chain bs bhead us0 u"
      using ul p dist h snoc by (intro chain_cong) (auto split: if_splits)
    then show ?thesis using c(1) ul n p snoc by (simp add: chain_append)
  qed
  have "chain (unlink b bs) bhead (us @ vs) bhead"
  proof (cases vs)
    case Nil
    then show ?thesis using front by simp
  next
    case (Cons v vs0)
    have "b_prev (bs b) \<in> insert bhead (set us)" unfolding p by (cases us rule: rev_cases) auto
    then have "b_prev (bs b) \<notin> set vs" using dist h by auto
    then have "chain (unlink b bs) v vs0 bhead = chain bs v vs0 bhead"
      using ul n dist h Cons by (intro chain_cong) (auto split: if_splits)
    then show ?thesis using c(2) front Cons by (simp add: chain_append)
  qed
  then show ?thesis using dist h by (auto simp: linked_def)
qed

text \<open>What \<open>brelse\<close> does with a buffer that nobody uses any more.\<close>

lemma linked_to_front:
  assumes "linked bs xs" and "b \<in> set xs"
  shows "linked (link_front b (unlink b bs)) (b # remove1 b xs)"
proof -
  obtain us vs where xs: "xs = us @ b # vs" "b \<notin> set us" using split_list_first[OF assms(2)] by blast
  moreover have "b \<notin> set vs" "b \<noteq> bhead" using assms(1) xs by (auto simp: linked_def)
  ultimately show ?thesis
    using linked_link_front[OF linked_unlink[of bs us b vs], of b] assms(1) by (simp add: remove1_append)
qed

text \<open>\<open>binit\<close> puts all buffers on the list.\<close>

lemma linked_init:
  assumes "linked bs []" and "n \<le> NBUF"
  shows "linked (fold link_front [0..<n] bs) (rev [0..<n])"
  using assms(2) by (induction n) (auto simp: assms(1) intro!: linked_link_front)

text \<open>
  C23. The links of the buffer cache represent a list, and the code on the links does what it should on the list: a
  search from either end finds the first buffer in that order that fits, with the bound on its length never reached,
  and releasing a buffer moves it to the front. Linking in the buffers one by one gives a list of all of them.
\<close>

theorem bcache_refines_list:
  assumes "linked bs xs" and "length xs \<le> NBUF"
  shows "bscan (NBUF + 1) b_next P bs (b_next (bs bhead)) = Inr (List.find (\<lambda>b. P (bs b)) xs) \<and>
    bscan (NBUF + 1) b_prev P bs (b_prev (bs bhead)) = Inr (List.find (\<lambda>b. P (bs b)) (rev xs)) \<and>
    (\<forall>b \<in> set xs. linked (link_front b (unlink b bs)) (b # remove1 b xs)) \<and>
    (xs = [] \<longrightarrow> linked (fold link_front [0..<NBUF] bs) (rev [0..<NBUF]))"
  using assms linked_to_front linked_init[of bs NBUF] bscan_next[of bs bhead xs "NBUF + 1" P] bscan_prev[of bs xs bhead "NBUF + 1" P]
  by (auto simp: linked_def)

definition bcache0 :: "nat \<Rightarrow> buf" where
  "bcache0 = fold link_front [0..<NBUF] (\<lambda>_. buf0\<lparr>b_prev := bhead, b_next := bhead\<rparr>)"

theorem bcache_refines_list_witness:
  "linked bcache0 (rev [0..<NBUF]) \<and> linked (link_front 7 (unlink 7 bcache0)) (7 # remove1 7 (rev [0..<NBUF]))"
proof -
  have e: "linked (\<lambda>_. buf0\<lparr>b_prev := bhead, b_next := bhead\<rparr>) []" by (simp add: linked_def)
  have l: "linked bcache0 (rev [0..<NBUF])"
    unfolding bcache0_def using bcache_refines_list[OF e, of "\<lambda>_. True"] by simp
  have "7 \<in> set (rev [0..<NBUF])" by (simp add: NBUF_def)
  then show ?thesis using bcache_refines_list[OF l, of "\<lambda>_. True"] l by simp
qed

section \<open>Getting a buffer\<close>

text \<open>The buffer \<open>bget\<close> chooses: the one that has the block, or else the unused one that was used longest ago.\<close>

definition bget_choice :: "(nat \<Rightarrow> buf) \<Rightarrow> nat list \<Rightarrow> uint \<Rightarrow> uint \<Rightarrow> nat option" where
  "bget_choice bs xs dev blockno =
     (case List.find (\<lambda>b. b_dev (bs b) = dev \<and> b_blockno (bs b) = blockno) xs of
        Some b \<Rightarrow> Some b
      | None \<Rightarrow> List.find (\<lambda>b. b_refcnt (bs b) = 0) (rev xs))"

definition got :: "uint \<Rightarrow> uint \<Rightarrow> buf \<Rightarrow> buf" where
  "got dev blockno x =
     (if b_dev x = dev \<and> b_blockno x = blockno then x\<lparr>b_refcnt := b_refcnt x + 1\<rparr>
      else x\<lparr>b_dev := dev, b_blockno := blockno, b_valid := False, b_refcnt := 1\<rparr>)"

lemma bscanS_next: "linked (bufs d) xs \<Longrightarrow> length xs \<le> NBUF \<Longrightarrow>
    bscanS b_next P (h, d) = Inr (List.find (\<lambda>b. P (bufs d b)) xs, (h, d))"
  using bscan_next[of "bufs d" bhead xs "NBUF + 1" P] by (auto simp: bscanS_def linked_def)

lemma bscanS_prev: "linked (bufs d) xs \<Longrightarrow> length xs \<le> NBUF \<Longrightarrow>
    bscanS b_prev P (h, d) = Inr (List.find (\<lambda>b. P (bufs d b)) (rev xs), (h, d))"
  using bscan_prev[of "bufs d" xs bhead "NBUF + 1" P] by (auto simp: bscanS_def linked_def)

lemma upd_buf_sel [simp]:
  "procs (upd_buf b f d) = procs d" "sleeplocks (upd_buf b f d) = sleeplocks d"
  "bufs (upd_buf b f d) = (bufs d)(b := f (bufs d b))"
  by (simp_all add: upd_buf_def)

lemma find_Some_holds: "List.find P xs = Some x \<Longrightarrow> P x"
  by (auto simp: find_Some_iff)

lemma find_None_fails: "List.find P xs = None \<Longrightarrow> x \<in> set xs \<Longrightarrow> \<not> P x"
  by (auto simp: find_None_iff)

lemma bget_eq:
  assumes "hart_ok h" and "unlocked h" and "c_proc (mycpu h) = Some p" and "0 < e_fuel E"
    and "linked (bufs d) xs" and "length xs \<le> NBUF"
  shows "case bget_choice (bufs d) xs dev blockno of
    None \<Rightarrow> bget E dev blockno (h, d) = Inl (Panic ''bget: no buffers'')
  | Some b \<Rightarrow> \<not> sl_locked (sleeplocks d (BufLk b)) \<longrightarrow>
      bget E dev blockno (h, d) = Inr (b, (settle h,
        upd_sl (BufLk b) (\<lambda>l. l\<lparr>sl_locked := True, sl_pid := p_pid (procs d p)\<rparr>) (upd_buf b (got dev blockno) d)))"
proof -
  note sc = bscanS_next[OF assms(5,6)] bscanS_prev[OF assms(5,6)]
  have l: "lock_free lk h" for lk using assms(2) by (simp add: unlocked_def)
  show ?thesis
  proof (cases "List.find (\<lambda>b. b_dev (bufs d b) = dev \<and> b_blockno (bufs d b) = blockno) xs")
    case (Some b)
    then have "upd_buf b (got dev blockno) d = upd_buf b (\<lambda>x. x\<lparr>b_refcnt := b_refcnt x + 1\<rparr>) d"
      using find_Some_holds[OF Some] by (simp add: upd_buf_def got_def)
    then show ?thesis
      using assms(1,3,4) Some l by (simp add: bget_choice_def bget_def khart sc acquiresleep_free)
  next
    case None
    show ?thesis
    proof (cases "List.find (\<lambda>b. b_refcnt (bufs d b) = 0) (rev xs)")
      case none: None
      then show ?thesis using assms(1) None l by (simp add: bget_choice_def bget_def khart sc)
    next
      case (Some b)
      then have "\<not> (b_dev (bufs d b) = dev \<and> b_blockno (bufs d b) = blockno)"
        using find_None_fails[OF None] find_Some_mem[OF Some] by auto
      then have "upd_buf b (got dev blockno) d =
          upd_buf b (\<lambda>x. x\<lparr>b_dev := dev, b_blockno := blockno, b_valid := False, b_refcnt := 1\<rparr>) d"
        by (auto simp: upd_buf_def got_def)
      then show ?thesis
        using assms(1,3,4) None Some l by (simp add: bget_choice_def bget_def khart sc acquiresleep_free)
    qed
  qed
qed

text \<open>
  C24. \<open>bget\<close> returns the buffer that already has the block, with one more reference, or recycles the unused buffer
  whose last use is longest ago, and panics only when every buffer is in use. It returns with the sleep lock of the buffer
  held by the process and the cache lock released, and changes no other buffer.
\<close>

theorem bget_chooses:
  assumes "hart_ok h" and "unlocked h" and "c_proc (mycpu h) = Some p" and "0 < e_fuel E"
    and "linked (bufs d) xs" and "length xs \<le> NBUF"
  shows "case bget_choice (bufs d) xs dev blockno of
    None \<Rightarrow> bget E dev blockno (h, d) = Inl (Panic ''bget: no buffers'')
  | Some b \<Rightarrow> \<not> sl_locked (sleeplocks d (BufLk b)) \<longrightarrow>
      bget E dev blockno (h, d) = Inr (b, (settle h,
        upd_sl (BufLk b) (\<lambda>l. l\<lparr>sl_locked := True, sl_pid := p_pid (procs d p)\<rparr>) (upd_buf b (got dev blockno) d)))"
  using assms by (rule bget_eq)

lemma bcache0_sel: "b_dev (bcache0 b) = 0" "b_refcnt (bcache0 b) = 0"
proof -
  have "b_dev (fold link_front ns bs b) = b_dev (bs b) \<and> b_refcnt (fold link_front ns bs b) = b_refcnt (bs b)" for ns bs
    by (induction ns arbitrary: bs) (simp_all add: link_front_sel)
  then show "b_dev (bcache0 b) = 0" "b_refcnt (bcache0 b) = 0" by (simp_all add: bcache0_def buf0_def)
qed

lemma bcache0_linked: "linked bcache0 (rev [0..<NBUF])"
  unfolding bcache0_def by (rule linked_init) (simp_all add: linked_def)

theorem bget_chooses_witness:
  "\<exists>d'. bget demo_env 1 5 (ops_hst, demo_dst\<lparr>bufs := bcache0\<rparr>) = Inr (0, (settle ops_hst, d')) \<and>
    b_blockno (bufs d' 0) = 5 \<and> b_refcnt (bufs d' 0) = 1"
proof -
  let ?d = "demo_dst\<lparr>bufs := bcache0\<rparr>"
  have "List.find (\<lambda>b. b_dev (bcache0 b) = 1 \<and> b_blockno (bcache0 b) = 5) (rev [0..<NBUF]) = None"
    by (simp add: bcache0_sel find_None_iff)
  moreover have "[0..<NBUF] = 0 # [1..<NBUF]" by (simp add: NBUF_def upt_conv_Cons)
  ultimately have c: "bget_choice (bufs ?d) (rev [0..<NBUF]) 1 5 = Some 0"
    by (simp add: bget_choice_def bcache0_sel)
  have "\<not> sl_locked (sleeplocks ?d (BufLk 0))" "linked (bufs ?d) (rev [0..<NBUF])" "length (rev [0..<NBUF]) \<le> NBUF"
    by (simp_all add: demo_dst_def bcache0_linked)
  with bget_chooses[OF ops_hst_ok(1) ops_unlocked ops_hst_ok(3), of demo_env ?d "rev [0..<NBUF]" 1 5] c
  show ?thesis by (auto simp: got_def bcache0_sel upd_sl_def upd_buf_def)
qed

end
