(* ===== verification/VirtioProofs.thy ===== *)
theory VirtioProofs
  imports KProofs
begin

text \<open>
  The descriptors of the disk driver: a request takes three or none, and freeing its chain gives them all back.
\<close>

section \<open>Freeing descriptors\<close>

lemma sched_inv_upd_disk [simp]: "sched_inv (upd_disk f d) = sched_inv d"
  by (rule sched_inv_cong) (simp_all add: upd_disk_def)

lemma disk_upd_disk [simp]: "disk (upd_disk f d) = f (disk d)"
  by (simp add: upd_disk_def)

lemma globals_disk: "globals d' = globals d \<Longrightarrow> disk d' = disk d"
  by (cases d; cases d') (simp add: globals_def)

lemma free_desc_eq:
  assumes "can_wake h" and "sched_inv d" and "i < NUM" and "\<not> dfree (disk d) i"
  shows "\<exists>d'. free_desc i (h, d) = Inr ((), (settle h, d')) \<and> sched_inv d' \<and>
    disk d' = (upd_desc i (\<lambda>_. desc0) (disk d))\<lparr>dfree := (dfree (disk d))(i := True)\<rparr>"
proof -
  let ?d = "upd_disk (\<lambda>k. (upd_desc i (\<lambda>_. desc0) k)\<lparr>dfree := (dfree k)(i := True)\<rparr>) d"
  have "sched_inv ?d" using assms(2) by simp
  then obtain d' where d': "wakeupS ChanDiskFree (h, ?d) = Inr ((), (settle h, d'))" "sched_inv d'" "globals d' = globals ?d"
    using wakeupS_eq[OF assms(1), of ?d ChanDiskFree] by auto
  have "free_desc i (h, d) = Inr ((), (settle h, d'))"
    using assms(3,4) d'(1) by (simp add: free_desc_def)
  with d' globals_disk[OF d'(3)] show ?thesis by auto
qed

text \<open>The chain from descriptor \<open>i\<close>, given in order.\<close>

fun desc_chain :: "disk \<Rightarrow> nat list \<Rightarrow> bool" where
  "desc_chain k [] \<longleftrightarrow> False"
| "desc_chain k [i] \<longleftrightarrow> vd_flags (desc k i) AND VRING_DESC_F_NEXT = 0"
| "desc_chain k (i # j # is) \<longleftrightarrow> vd_flags (desc k i) AND VRING_DESC_F_NEXT \<noteq> 0 \<and> unat (vd_next (desc k i)) = j \<and> desc_chain k (j # is)"

lemma desc_chain_cong: "(\<And>i. i \<in> set is \<Longrightarrow> desc k' i = desc k i) \<Longrightarrow> desc_chain k' is = desc_chain k is"
  by (induction k "is" rule: desc_chain.induct) auto

lemma free_chain_from_eq:
  assumes "can_wake h" and "sched_inv d" and "desc_chain (disk d) (i # is)" and "distinct (i # is)"
    and "\<forall>j \<in> set (i # is). j < NUM \<and> \<not> dfree (disk d) j" and "length is < n"
  shows "\<exists>d'. free_chain_from n i (h, d) = Inr ((), (settle h, d')) \<and> sched_inv d' \<and>
    dfree (disk d') = (\<lambda>j. j \<in> set (i # is) \<or> dfree (disk d) j)"
  using assms
proof (induction "is" arbitrary: n i h d)
  case Nil
  then obtain m where n: "n = Suc m" by (cases n) auto
  obtain d' where "free_desc i (h, d) = Inr ((), (settle h, d'))" "sched_inv d'"
      "disk d' = (upd_desc i (\<lambda>_. desc0) (disk d))\<lparr>dfree := (dfree (disk d))(i := True)\<rparr>"
    using free_desc_eq[of h d i] Nil by auto
  with Nil n show ?case by (auto simp: fun_eq_iff)
next
  case (Cons j js)
  then obtain m where n: "n = Suc m" by (cases n) auto
  obtain d1 where d1: "free_desc i (h, d) = Inr ((), (settle h, d1))" "sched_inv d1"
      "disk d1 = (upd_desc i (\<lambda>_. desc0) (disk d))\<lparr>dfree := (dfree (disk d))(i := True)\<rparr>"
    using free_desc_eq[of h d i] Cons.prems by auto
  have "desc_chain (disk d1) (j # js) = desc_chain (disk d) (j # js)"
    by (rule desc_chain_cong) (use Cons.prems(4) in \<open>auto simp: d1(3) upd_desc_def\<close>)
  moreover have "\<forall>l \<in> set (j # js). l < NUM \<and> \<not> dfree (disk d1) l"
    using Cons.prems(4,5) by (auto simp: d1(3))
  ultimately obtain d' where "free_chain_from m j (settle h, d1) = Inr ((), (settle h, d'))" "sched_inv d'"
      "dfree (disk d') = (\<lambda>l. l \<in> set (j # js) \<or> dfree (disk d1) l)"
    using Cons.IH[of "settle h" d1 j m] Cons.prems d1(2) n by auto
  with d1 n Cons.prems(3) show ?case by (auto simp: fun_eq_iff)
qed

section \<open>Taking descriptors\<close>

definition free_list :: "disk \<Rightarrow> nat list" where
  "free_list k = filter (dfree k) [0..<NUM]"

lemma find_filter: "List.find P xs = (case filter P xs of [] \<Rightarrow> None | x # _ \<Rightarrow> Some x)"
  by (induction xs) auto

lemma filter_fun_upd_False: "distinct xs \<Longrightarrow> filter P xs = i # is \<Longrightarrow> filter (P(i := False)) xs = is"
proof (induction xs)
  case (Cons x xs)
  then show ?case by (cases "P x") (auto intro: filter_cong)
qed simp

lemma alloc_desc_eq:
  "alloc_desc k = (case free_list k of [] \<Rightarrow> (None, k) | i # _ \<Rightarrow> (Some i, k\<lparr>dfree := (dfree k)(i := False)\<rparr>))"
  by (simp add: alloc_desc_def free_list_def find_filter split: list.splits)

lemma free_list_take: "free_list k = i # is \<Longrightarrow> free_list (k\<lparr>dfree := (dfree k)(i := False)\<rparr>) = is"
  by (simp add: free_list_def filter_fun_upd_False)

definition take_descs :: "nat list \<Rightarrow> disk \<Rightarrow> disk" where
  "take_descs is k = k\<lparr>dfree := (\<lambda>j. dfree k j \<and> j \<notin> set is)\<rparr>"

lemma take_descs_simps [simp]:
  "take_descs [] k = k" "take_descs is (k\<lparr>dfree := (dfree k)(i := False)\<rparr>) = take_descs (i # is) k"
  by (auto simp: take_descs_def fun_eq_iff)

lemma alloc_descs_enough:
  "n \<le> length (free_list (disk d)) \<Longrightarrow>
     alloc_descs n idx (h, d) = Inr (Some (idx @ take n (free_list (disk d))), (h, upd_disk (take_descs (take n (free_list (disk d)))) d))"
proof (induction n arbitrary: idx d)
  case 0
  then show ?case by (simp add: upd_disk_def)
next
  case (Suc n)
  then obtain i "is" where f: "free_list (disk d) = i # is" by (cases "free_list (disk d)") auto
  let ?d = "d\<lparr>disk := (disk d)\<lparr>dfree := (dfree (disk d))(i := False)\<rparr>\<rparr>"
  have "free_list (disk ?d) = is" using free_list_take[OF f] by simp
  with Suc.IH[of ?d "idx @ [i]"] Suc.prems f show ?case by (simp add: alloc_desc_eq upd_disk_def)
qed

text \<open>Giving the ones already taken back, in the order they were taken.\<close>

lemma forS_free_desc:
  assumes "can_wake h" and "sched_inv d" and "distinct is" and "\<forall>i \<in> set is. i < NUM \<and> \<not> dfree (disk d) i"
  shows "\<exists>h' d'. forS is free_desc (h, d) = Inr ((), (h', d')) \<and> sched_inv d' \<and>
    dfree (disk d') = (\<lambda>j. j \<in> set is \<or> dfree (disk d) j)"
  using assms
proof (induction "is" arbitrary: h d)
  case (Cons i "is")
  obtain d1 where d1: "free_desc i (h, d) = Inr ((), (settle h, d1))" "sched_inv d1"
      "disk d1 = (upd_desc i (\<lambda>_. desc0) (disk d))\<lparr>dfree := (dfree (disk d))(i := True)\<rparr>"
    using free_desc_eq[of h d i] Cons.prems by auto
  moreover have "\<forall>j \<in> set is. j < NUM \<and> \<not> dfree (disk d1) j" using Cons.prems by (auto simp: d1(3))
  ultimately show ?case using Cons.IH[of "settle h" d1] Cons.prems by (auto simp: fun_eq_iff)
qed simp

lemma alloc_descs_short:
  "length (free_list (disk d)) < n \<Longrightarrow>
     alloc_descs n idx (h, d) =
       thenS (forS (idx @ free_list (disk d)) free_desc) (retS None) (h, upd_disk (take_descs (free_list (disk d))) d)"
proof (induction n arbitrary: idx d)
  case (Suc n)
  show ?case
  proof (cases "free_list (disk d)")
    case Nil
    then show ?thesis by (simp add: alloc_desc_eq upd_disk_def thenS_def bindS_def retS_def)
  next
    case f: (Cons i "is")
    let ?d = "d\<lparr>disk := (disk d)\<lparr>dfree := (dfree (disk d))(i := False)\<rparr>\<rparr>"
    have "free_list (disk ?d) = is" using free_list_take[OF f] by simp
    with Suc.IH[of ?d "idx @ [i]"] Suc.prems f show ?thesis by (simp add: alloc_desc_eq upd_disk_def)
  qed
qed simp

lemma format_request_chain:
  assumes "distinct [i0, i1, i2]" and "i1 < NUM" and "i2 < NUM"
  shows "desc_chain (format_request b wr sector i0 i1 i2 k) [i0, i1, i2]"
    and "dfree (format_request b wr sector i0 i1 i2 k) = dfree k"
  using assms by (auto simp: format_request_def Let_def upd_desc_def VRING_DESC_F_NEXT_def VRING_DESC_F_WRITE_def NUM_def unat_of_nat)

text \<open>
  \<open>alloc3_desc\<close> takes the first three free descriptors, or takes none when there are fewer. The chain that
  \<open>virtio_disk_rw\<close> makes of them is freed completely, so that after the request the free descriptors are those before it.
\<close>

theorem request_descriptors_balanced:
  assumes "can_wake h" and "sched_inv d"
  shows "if 3 \<le> length (free_list (disk d))
    then \<exists>i0 i1 i2 d1 d2. take 3 (free_list (disk d)) = [i0, i1, i2] \<and>
      alloc3_desc (h, d) = Inr (Some [i0, i1, i2], (h, d1)) \<and>
      dfree (disk d1) = (dfree (disk d))(i0 := False, i1 := False, i2 := False) \<and>
      free_chain i0 (h, upd_disk (format_request b wr sector i0 i1 i2) d1) = Inr ((), (settle h, d2)) \<and>
      sched_inv d2 \<and> dfree (disk d2) = dfree (disk d)
    else \<exists>h1 d1. alloc3_desc (h, d) = Inr (None, (h1, d1)) \<and> sched_inv d1 \<and> dfree (disk d1) = dfree (disk d)"
proof (cases "3 \<le> length (free_list (disk d))")
  case True
  let ?F = "free_list (disk d)"
  from True obtain i0 i1 i2 rest where F: "?F = i0 # i1 # i2 # rest"
    by (metis One_nat_def Suc_le_length_iff numeral_3_eq_3)
  have dist: "distinct ?F" by (simp add: free_list_def)
  have mem: "i < NUM \<and> dfree (disk d) i" if "i \<in> set ?F" for i using that by (auto simp: free_list_def)
  let ?d1 = "upd_disk (take_descs [i0, i1, i2]) d"
  let ?d2 = "upd_disk (format_request b wr sector i0 i1 i2) ?d1"
  have al: "alloc3_desc (h, d) = Inr (Some [i0, i1, i2], (h, ?d1))"
    using alloc_descs_enough[OF True, of "[]" h] F by (simp add: alloc3_desc_def numeral_3_eq_3)
  have d3: "distinct [i0, i1, i2]" "i1 < NUM" "i2 < NUM" using dist mem F by auto
  obtain d' where "free_chain i0 (h, ?d2) = Inr ((), (settle h, d'))" "sched_inv d'"
      "dfree (disk d') = (\<lambda>j. j \<in> set [i0, i1, i2] \<or> dfree (disk ?d2) j)"
    using free_chain_from_eq[OF assms(1), of ?d2 i0 "[i1, i2]" "NUM + 1"] format_request_chain[OF d3] assms(2) d3 mem[of i0] F
    by (auto simp: free_chain_def NUM_def take_descs_def)
  moreover from this have "dfree (disk d') = dfree (disk d)"
    using mem F format_request_chain(2)[OF d3] by (auto simp: take_descs_def fun_eq_iff)
  moreover have "dfree (disk ?d1) = (dfree (disk d))(i0 := False, i1 := False, i2 := False)"
    by (auto simp: take_descs_def fun_eq_iff)
  ultimately show ?thesis using True al F by (auto simp: numeral_3_eq_3)
next
  case False
  let ?F = "free_list (disk d)"
  have "\<forall>i \<in> set ?F. i < NUM \<and> \<not> dfree (disk (upd_disk (take_descs ?F) d)) i" "distinct ?F"
    by (auto simp: free_list_def take_descs_def)
  then obtain h' d' where r: "forS ?F free_desc (h, upd_disk (take_descs ?F) d) = Inr ((), (h', d'))" "sched_inv d'"
      "dfree (disk d') = (\<lambda>j. j \<in> set ?F \<or> dfree (disk (upd_disk (take_descs ?F) d)) j)"
    using forS_free_desc[OF assms(1), of "upd_disk (take_descs ?F) d" ?F] assms(2) by auto
  moreover have "dfree (disk d') = dfree (disk d)" unfolding r(3) by (auto simp: take_descs_def free_list_def fun_eq_iff)
  ultimately show ?thesis using False alloc_descs_short[of d 3 "[]" h] by (auto simp: alloc3_desc_def)
qed

theorem request_descriptors_balanced_witness:
  "\<exists>i0 i1 i2 d1 d2. alloc3_desc (ops_hst, demo_dst) = Inr (Some [i0, i1, i2], (ops_hst, d1)) \<and>
    free_chain i0 (ops_hst, upd_disk (format_request 4 True 10 i0 i1 i2) d1) = Inr ((), (settle ops_hst, d2)) \<and>
    dfree (disk d2) = dfree (disk demo_dst)"
proof -
  have "can_wake ops_hst" by (simp add: can_wake_def ops_hst_ok)
  moreover have "3 \<le> length (free_list (disk demo_dst))" by (simp add: free_list_def demo_dst_def disk0_def NUM_def)
  ultimately show ?thesis
    using request_descriptors_balanced[of ops_hst demo_dst 4 True 10] demo_dst_inv by auto
qed

end
