(* ===== verification/LogProofs.thy ===== *)
theory LogProofs
  imports Log KProofs
begin

text \<open>
  The bookkeeping of the log: what \<open>begin_op\<close> reserves is enough for the blocks an operation may write, and each block is
  recorded once.
\<close>

section \<open>What log\_write and begin\_op do to the log\<close>

definition logged :: "log \<Rightarrow> uint list" where
  "logged l = map (lh_block l) (lh_range l)"

definition log_record :: "uint \<Rightarrow> log \<Rightarrow> log" where
  "log_record blockno l = (let i = log_slot l blockno in
     l\<lparr>lh_block := (lh_block l)(i := blockno), lh_n := (if int i = sint (lh_n l) then lh_n l + 1 else lh_n l)\<rparr>)"

definition log_room :: "log \<Rightarrow> bool" where
  "log_room l \<longleftrightarrow> sint (lh_n l) < int LOGSIZE \<and> sint (lh_n l) < sint (lg_size l - 1)"

lemma log_slot_cases:
  "blockno \<in> set (logged l) \<and> log_slot l blockno < nat (sint (lh_n l)) \<and> lh_block l (log_slot l blockno) = blockno \<or>
   blockno \<notin> set (logged l) \<and> log_slot l blockno = nat (sint (lh_n l))"
proof (cases "List.find (\<lambda>i. lh_block l i = blockno) (lh_range l)")
  case None
  then have "log_slot l blockno = nat (sint (lh_n l))" by (simp add: log_slot_def)
  with None show ?thesis by (auto simp: logged_def find_None_iff)
next
  case (Some i)
  then have "i \<in> set (lh_range l) \<and> lh_block l i = blockno" by (rule find_Some_mem)
  with Some show ?thesis by (auto simp: log_slot_def logged_def)
qed

lemma sint_Suc_small: "0 \<le> sint n \<Longrightarrow> sint n < 1000 \<Longrightarrow> sint (n + 1) = sint n + 1" for n :: cint
  using sint_add_small[of n 1] by simp

lemma sint_times_small:
  fixes a b :: cint
  assumes "0 \<le> sint a" "0 \<le> sint b" "sint a * sint b < 2 ^ 31"
  shows "sint (a * b) = sint a * sint b"
proof -
  have "0 \<le> sint a * sint b" using assms(1,2) by simp
  with assms(3) show ?thesis by (simp add: sint_word_ariths signed_take_bit_int_eq_self)
qed

lemma log_record_logged:
  assumes "0 \<le> sint (lh_n l)" and "log_room l"
  shows "logged (log_record blockno l) = (if blockno \<in> set (logged l) then logged l else logged l @ [blockno])"
    and "sint (lh_n (log_record blockno l)) = sint (lh_n l) + (if blockno \<in> set (logged l) then 0 else 1)"
proof -
  have n: "sint (lh_n l + 1) = sint (lh_n l) + 1" "nat (sint (lh_n l) + 1) = Suc (nat (sint (lh_n l)))"
    using assms sint_Suc_small[of "lh_n l"] by (auto simp: log_room_def LOGSIZE_def MAXOPBLOCKS_def)
  show "logged (log_record blockno l) = (if blockno \<in> set (logged l) then logged l else logged l @ [blockno])"
  proof (cases "blockno \<in> set (logged l)")
    case True
    with log_slot_cases[of blockno l] have s: "log_slot l blockno < nat (sint (lh_n l))" "lh_block l (log_slot l blockno) = blockno"
      by auto
    then have "log_record blockno l = l" by (simp add: log_record_def Let_def fun_upd_idem)
    with True show ?thesis by simp
  next
    case False
    with log_slot_cases[of blockno l] have "log_slot l blockno = nat (sint (lh_n l))" by auto
    with assms(1) n False show ?thesis by (simp add: log_record_def logged_def)
  qed
  show "sint (lh_n (log_record blockno l)) = sint (lh_n l) + (if blockno \<in> set (logged l) then 0 else 1)"
    using log_slot_cases[of blockno l] assms(1) n(1) by (auto simp: log_record_def Let_def)
qed

text \<open>\<open>log_write\<close> records the block and pins its buffer if the block is new, or panics.\<close>

lemma log_write_eq:
  fixes d :: "'a lst_scheme" and b :: nat
  assumes "hart_ok h" and "lock_free LogLock h" and "lock_free BcacheLock h" and "0 \<le> sint (lh_n (klog d))"
  defines "bn \<equiv> b_blockno (bufs d b)"
  shows "log_write b (h, d) =
    (if \<not> log_room (klog d) then Inl (Panic ''too big a transaction'')
     else if sint (lg_outstanding (klog d)) < 1 then Inl (Panic ''log_write outside of trans'')
     else Inr ((), (settle h, upd_log (log_record bn)
       (if bn \<in> set (logged (klog d)) then d else upd_buf b (\<lambda>x. x\<lparr>b_refcnt := b_refcnt x + 1\<rparr>) d))))"
proof -
  have i: "int (log_slot (klog d) bn) = sint (lh_n (klog d)) \<longleftrightarrow> bn \<notin> set (logged (klog d))"
    using log_slot_cases[of bn "klog d"] assms(4) by auto
  show ?thesis
    using assms(1-3) i
    by (auto simp: log_write_def log_room_def bpin_def khart log_record_def upd_log_def upd_buf_def Let_def bn_def not_less)
qed

lemma begin_op_eq:
  fixes d :: "'a lst_scheme"
  assumes "hart_ok h" and "lock_free LogLock h" and "\<not> lg_committing (klog d)" and "\<not> log_full (klog d)" and "0 < e_fuel E"
  shows "begin_op E (h, d) = Inr ((), (settle h, upd_log (\<lambda>l. l\<lparr>lg_outstanding := lg_outstanding l + 1\<rparr>) d))"
  using assms by (simp add: begin_op_def khart)

lemma globals_klog: "globals d' = globals d \<Longrightarrow> klog d' = klog d"
  by (cases d; cases d') (simp add: globals_def)

lemma end_op_eq:
  fixes d :: "'a lst_scheme"
  assumes "hart_ok h" and "lock_free LogLock h" and "\<not> lg_committing (klog d)" and "lg_outstanding (klog d) \<noteq> 1"
    and "sched_inv d" and "can_wake h"
  shows "\<exists>d'. end_op E (h, d) = Inr ((), (settle h, d')) \<and>
    klog d' = (klog d)\<lparr>lg_outstanding := lg_outstanding (klog d) - 1\<rparr>"
proof -
  let ?d = "upd_log (\<lambda>l. l\<lparr>lg_outstanding := lg_outstanding l - 1\<rparr>) d"
  have "sched_inv ?d" using assms(5) sched_inv_cong[of ?d d] by (simp add: upd_log_def)
  with wakeupS_eq[OF can_wake_locked[OF assms(6)], of LogLock ?d ChanLog] assms(1)
  obtain d' where d': "wakeupS ChanLog (locked LogLock h, ?d) = Inr ((), (locked LogLock h, d'))" "globals d' = globals ?d"
    by auto
  then have "end_op E (h, d) = Inr ((), (settle h, d'))"
    using assms(1-4) by (simp add: end_op_def khart upd_log_def)
  with globals_klog[OF d'(2)] show ?thesis by (simp add: upd_log_def)
qed

section \<open>Interleaved operations\<close>

text \<open>
  The log and, for each operation between \<open>begin_op\<close> and \<open>end_op\<close>, the new blocks it may still write. Each step is one
  critical section of \<open>log.lock\<close>, with the effect that \<open>begin_op_eq\<close>, \<open>log_write_eq\<close> and \<open>end_op_eq\<close> have shown; a \<open>log_write\<close> without
  room is no step, for it panics. The last \<open>end_op\<close> commits, which empties the log, before the next \<open>begin_op\<close>.
\<close>

inductive log_step :: "log \<times> nat list \<Rightarrow> log \<times> nat list \<Rightarrow> bool" where
  step_begin: "\<not> lg_committing l \<Longrightarrow> \<not> log_full l \<Longrightarrow>
     log_step (l, left) (l\<lparr>lg_outstanding := lg_outstanding l + 1\<rparr>, left @ [MAXOPBLOCKS])"
| step_write: "i < length left \<Longrightarrow> 0 < left ! i \<Longrightarrow> log_room l \<Longrightarrow>
     log_step (l, left) (log_record bn l, if bn \<in> set (logged l) then left else left[i := left ! i - 1])"
| step_end: "i < length left \<Longrightarrow> lg_outstanding l \<noteq> 1 \<Longrightarrow>
     log_step (l, left) (l\<lparr>lg_outstanding := lg_outstanding l - 1\<rparr>, take i left @ drop (i + 1) left)"
| step_last: "i < length left \<Longrightarrow> lg_outstanding l = 1 \<Longrightarrow>
     log_step (l, left) (l\<lparr>lg_outstanding := 0, lg_committing := True\<rparr>, take i left @ drop (i + 1) left)"
| step_commit: "lg_committing l \<Longrightarrow> log_step (l, left) (l\<lparr>lh_n := 0, lg_committing := False\<rparr>, left)"

inductive log_reach :: "log \<times> nat list \<Rightarrow> bool" where
  reach_init: "lh_n l = 0 \<Longrightarrow> lg_outstanding l = 0 \<Longrightarrow> \<not> lg_committing l \<Longrightarrow> log_reach (l, [])"
| reach_step: "log_reach s \<Longrightarrow> log_step s s' \<Longrightarrow> log_reach s'"

definition log_inv :: "log \<times> nat list \<Rightarrow> bool" where
  "log_inv s \<longleftrightarrow> (case s of (l, left) \<Rightarrow>
     0 \<le> sint (lh_n l) \<and> sint (lg_outstanding l) = int (length left) \<and> length left \<le> 3 \<and> (lg_committing l \<longrightarrow> left = []) \<and>
     (\<forall>x \<in> set left. x \<le> MAXOPBLOCKS) \<and> sint (lh_n l) + int (sum_list left) \<le> int LOGSIZE \<and> distinct (logged l))"

lemma sum_list_drop: "i < length xs \<Longrightarrow> sum_list (take i xs @ drop (i + 1) xs) = sum_list xs - xs ! i" for xs :: "nat list"
  by (subst (3) id_take_nth_drop[of i xs]) simp_all

lemma log_full_room:
  assumes "log_inv (l, left)" and "\<not> log_full l"
  shows "sint (lh_n l) + int (length left + 1) * 10 \<le> 30"
proof -
  have r: "0 \<le> sint (lh_n l)" "sint (lh_n l) \<le> 30" "sint (lg_outstanding l) = int (length left)" "length left \<le> 3"
    using assms(1) by (auto simp: log_inv_def LOGSIZE_def MAXOPBLOCKS_def)
  then have 1: "sint (lg_outstanding l + 1) = int (length left) + 1" using sint_Suc_small[of "lg_outstanding l"] by simp
  then have 2: "sint ((lg_outstanding l + 1) * 10) = (int (length left) + 1) * 10"
    using sint_times_small[of "lg_outstanding l + 1" 10] r(4) by simp
  then have "sint (lh_n l + (lg_outstanding l + 1) * 10) = sint (lh_n l) + (int (length left) + 1) * 10"
    using r by (subst sint_add_small) auto
  with assms(2) show ?thesis by (simp add: log_full_def LOGSIZE_def MAXOPBLOCKS_def)
qed

lemma log_inv_room:
  assumes "log_inv (l, left)" and "i < length left" and "0 < left ! i"
  shows "sint (lh_n l) < int LOGSIZE" and "\<not> sint (lg_outstanding l) < 1" and "0 \<le> sint (lh_n l)"
proof -
  have "left ! i \<le> sum_list left" using assms(2) by (simp add: elem_le_sum_list)
  with assms show "sint (lh_n l) < int LOGSIZE" by (auto simp: log_inv_def)
  show "\<not> sint (lg_outstanding l) < 1" "0 \<le> sint (lh_n l)" using assms(1,2) by (auto simp: log_inv_def)
qed

lemma log_record_inv:
  assumes "log_inv (l, left)" and "i < length left" and "0 < left ! i" and "log_room l"
  shows "log_inv (log_record bn l, if bn \<in> set (logged l) then left else left[i := left ! i - 1])"
proof -
  note rec = log_record_logged[OF log_inv_room(3)[OF assms(1-3)] assms(4)]
  have o: "lg_outstanding (log_record bn l) = lg_outstanding l" "lg_committing (log_record bn l) = lg_committing l"
    by (simp_all add: log_record_def Let_def)
  show ?thesis
  proof (cases "bn \<in> set (logged l)")
    case True
    with assms(1) rec[of bn] o show ?thesis by (simp add: log_inv_def)
  next
    case False
    have "sum_list (left[i := left ! i - 1]) = sum_list left - 1"
      using assms(2,3) elem_le_sum_list[of i left] by (simp add: sum_list_update)
    moreover have "1 \<le> sum_list left" using assms(2,3) elem_le_sum_list[of i left] by simp
    moreover have "\<forall>x \<in> set (left[i := left ! i - 1]). x \<le> MAXOPBLOCKS"
    proof -
      have le: "\<forall>x \<in> set left. x \<le> MAXOPBLOCKS" using assms(1) by (simp add: log_inv_def)
      then have "left ! i - 1 \<le> MAXOPBLOCKS" using nth_mem[OF assms(2)] by (meson diff_le_self le_trans)
      with le set_update_subset_insert[of left i "left ! i - 1"] show ?thesis by blast
    qed
    ultimately show ?thesis
      using assms(1) False rec[of bn] o by (auto simp: log_inv_def)
  qed
qed

lemma log_step_inv:
  assumes "log_step s s'" and "log_inv s"
  shows "log_inv s'"
  using assms
proof (induction rule: log_step.induct)
  case (step_begin l left)
  note r = log_full_room[OF step_begin(3,2)]
  have "0 \<le> sint (lh_n l)" using step_begin(3) by (simp add: log_inv_def)
  with r have "length left \<le> 2" by simp
  moreover have "sum_list left \<le> 10 * length left"
    using step_begin(3) sum_list_mono[of left "\<lambda>x. x" "\<lambda>_. 10"] by (auto simp: log_inv_def MAXOPBLOCKS_def sum_list_triv)
  ultimately show ?case using step_begin(1,3) r sint_Suc_small[of "lg_outstanding l"]
    by (auto simp: log_inv_def MAXOPBLOCKS_def LOGSIZE_def logged_def)
next
  case (step_write i left l bn)
  then show ?case using log_record_inv[of l left i bn] by (simp add: log_record_def Let_def)
next
  case (step_end i left l)
  then have "1 \<le> length left" "sint (lg_outstanding l) = int (length left)" "length left \<le> 3" by (auto simp: log_inv_def)
  then have "sint (lg_outstanding l - 1) = int (length left) - 1"
    by (simp add: sint_word_ariths signed_take_bit_int_eq_self)
  with step_end sum_list_drop[of i left] show ?case
    by (auto simp: log_inv_def logged_def dest: in_set_takeD in_set_dropD)
next
  case (step_last i left l)
  then have "length left = 1" by (auto simp: log_inv_def)
  with step_last show ?case by (auto simp: log_inv_def logged_def)
next
  case (step_commit l left)
  then show ?case by (auto simp: log_inv_def logged_def)
qed

lemma log_reach_inv: "log_reach s \<Longrightarrow> log_inv s"
proof (induction rule: log_reach.induct)
  case (reach_init l)
  then show ?case by (simp add: log_inv_def logged_def)
qed (rule log_step_inv)

text \<open>
  A log area of exactly \<open>LOGSIZE\<close> blocks, one of them the header, is too small for what \<open>begin_op\<close> grants: three
  operations that write 29 different blocks leave no room for the thirtieth.
\<close>

lemma fresh_block: "length xs < 1000 \<Longrightarrow> \<exists>bn. bn \<notin> set xs" for xs :: "uint list"
proof (rule ccontr)
  assume "length xs < 1000" and "\<nexists>bn. bn \<notin> set xs"
  then have "card (UNIV :: uint set) < 1000" using card_length[of xs] by (metis UNIV_eq_I le_less_trans)
  then show False by (simp add: card_word)
qed

lemma fill_log:
  assumes "log_reach (l, left)" and "i < length left" and "m \<le> left ! i"
    and "0 \<le> sint (lh_n l)" and "sint (lh_n l) + int m \<le> 29" and "lg_size l = 30"
  shows "\<exists>l'. log_reach (l', left[i := left ! i - m]) \<and> sint (lh_n l') = sint (lh_n l) + int m \<and> lg_size l' = 30"
  using assms(3,5)
proof (induction m)
  case 0
  with assms show ?case by auto
next
  case (Suc m)
  then obtain l' where l': "log_reach (l', left[i := left ! i - m])" "sint (lh_n l') = sint (lh_n l) + int m" "lg_size l' = 30"
    by auto
  have room: "log_room l'" "0 \<le> sint (lh_n l')"
    using l'(2,3) assms(4) Suc.prems(2) by (simp_all add: log_room_def LOGSIZE_def MAXOPBLOCKS_def)
  have "length (logged l') < 1000" using room by (simp add: log_room_def logged_def LOGSIZE_def MAXOPBLOCKS_def nat_less_iff)
  then obtain bn where bn: "bn \<notin> set (logged l')" using fresh_block by blast
  have "log_step (l', left[i := left ! i - m]) (log_record bn l', left[i := left ! i - Suc m])"
    using step_write[of i "left[i := left ! i - m]" l' bn] assms(2) Suc.prems(1) bn room(1) by (simp add: Suc_diff_Suc)
  from reach_step[OF l'(1) this] log_record_logged(2)[OF room(2,1), of bn] bn l'(2,3) show ?case
    by (intro exI[of _ "log_record bn l'"]) (simp add: log_record_def Let_def)
qed

lemma log_area_short: "\<exists>l left. log_reach (l, left) \<and> sint (lg_size l) = int LOGSIZE \<and> 0 < left ! 2 \<and> length left = 3 \<and> \<not> log_room l"
proof -
  let ?l = "\<lambda>k. \<lparr>lg_start = 2, lg_size = 30, lg_outstanding = k, lg_committing = False, lg_dev = 1, lh_n = 0, lh_block = (\<lambda>_. 0)\<rparr>"
  have b: "log_reach (?l (k + 1), left @ [10])" if "log_reach (?l k, left)" "k = 0 \<or> k = 1 \<or> k = 2" for k left
    using that step_begin[of "?l k" left] by (intro reach_step[OF that(1)]) (auto simp: log_full_def LOGSIZE_def MAXOPBLOCKS_def)
  have "log_reach (?l 0, [])" by (rule reach_init) simp_all
  from b[OF b[OF b[OF this]]] have r: "log_reach (?l 3, [10, 10, 10])" by simp
  obtain l1 where l1: "log_reach (l1, [0, 10, 10])" "sint (lh_n l1) = 10" "lg_size l1 = 30"
    using fill_log[OF r, of 0 10] by auto
  obtain l2 where l2: "log_reach (l2, [0, 0, 10])" "sint (lh_n l2) = 20" "lg_size l2 = 30"
    using fill_log[OF l1(1), of 1 10] l1(2,3) by auto
  obtain l3 where l3: "log_reach (l3, [0, 0, 1])" "sint (lh_n l3) = 29" "lg_size l3 = 30"
    using fill_log[OF l2(1), of 2 9] l2(2,3) by auto
  then show ?thesis
    by (intro exI[of _ l3] exI[of _ "[0, 0, 1]"]) (simp add: log_room_def LOGSIZE_def MAXOPBLOCKS_def)
qed

text \<open>The steps are those of the code.\<close>

lemma begin_op_step:
  fixes d :: "'a lst_scheme"
  assumes "log_reach (klog d, left)" and "hart_ok h" and "lock_free LogLock h" and "\<not> lg_committing (klog d)" and "\<not> log_full (klog d)"
    and "0 < e_fuel E"
  shows "\<exists>d'. begin_op E (h, d) = Inr ((), (settle h, d')) \<and> log_reach (klog d', left @ [MAXOPBLOCKS])"
  using begin_op_eq[OF assms(2-6)] reach_step[OF assms(1) step_begin[OF assms(4,5)]] by (simp add: upd_log_def)

lemma end_op_step:
  fixes d :: "'a lst_scheme"
  assumes "log_reach (klog d, left)" and "hart_ok h" and "lock_free LogLock h" and "i < length left" and "1 < length left"
    and "sched_inv d" and "can_wake h"
  shows "\<exists>d'. end_op E (h, d) = Inr ((), (settle h, d')) \<and> log_reach (klog d', take i left @ drop (i + 1) left)"
proof -
  have inv: "log_inv (klog d, left)" using log_reach_inv[OF assms(1)] .
  then have c: "\<not> lg_committing (klog d)" "lg_outstanding (klog d) \<noteq> 1" using assms(5) by (auto simp: log_inv_def)
  from end_op_eq[OF assms(2,3) c assms(6,7), of E] reach_step[OF assms(1) step_end[OF assms(4) c(2)]] show ?thesis by auto
qed

text \<open>
  C22. What the reservation of \<open>begin_op\<close> is worth in the log area that \<open>mkfs\<close> makes, of \<open>LOGSIZE\<close> blocks with the header. However
  operations interleave, in an operation that has entered fewer than \<open>MAXOPBLOCKS\<close> new blocks \<open>log_write\<close> records its block
  once, pins the buffer exactly when the block is new, and takes the new block off what the operation may still write, as long as
  fewer than \<open>LOGSIZE - 1\<close> blocks are recorded. When \<open>LOGSIZE - 1\<close> are, it panics, whatever the block, although one block of the
  reservations is left; there are never more. A \<open>begin_op\<close> that finds room reserves \<open>MAXOPBLOCKS\<close> blocks for one more
  operation, and an \<open>end_op\<close> that is not the last gives up what its operation has left.
\<close>

theorem log_write_reserved:
  fixes d :: "'a lst_scheme"
  assumes "log_reach (klog d, left)" and "sint (lg_size (klog d)) = int LOGSIZE" and "i < length left" and "0 < left ! i"
    and "hart_ok h" and "lock_free LogLock h" and "lock_free BcacheLock h"
  shows "(if length (logged (klog d)) < LOGSIZE - 1
    then let bn = b_blockno (bufs d b); new = (bn \<notin> set (logged (klog d))) in
      \<exists>d'. log_write b (h, d) = Inr ((), (settle h, d')) \<and>
        logged (klog d') = (if new then logged (klog d) @ [bn] else logged (klog d)) \<and> distinct (logged (klog d')) \<and>
        bufs d' = (bufs d)(b := (bufs d b)\<lparr>b_refcnt := b_refcnt (bufs d b) + (if new then 1 else 0)\<rparr>) \<and>
        log_reach (klog d', if new then left[i := left ! i - 1] else left)
    else length (logged (klog d)) = LOGSIZE - 1 \<and> sum_list left = 1 \<and> log_write b (h, d) = Inl (Panic ''too big a transaction'')) \<and>
    (\<not> log_full (klog d) \<and> 0 < e_fuel E \<longrightarrow>
      (\<exists>d'. begin_op E (h, d) = Inr ((), (settle h, d')) \<and> log_reach (klog d', left @ [MAXOPBLOCKS]))) \<and>
    (1 < length left \<and> sched_inv d \<and> can_wake h \<longrightarrow>
      (\<exists>d'. end_op E (h, d) = Inr ((), (settle h, d')) \<and> log_reach (klog d', take i left @ drop (i + 1) left)))"
    (is "?once \<and> _ \<and> _")
proof -
  let ?bn = "b_blockno (bufs d b)" and ?l = "klog d"
  have inv: "log_inv (?l, left)" using log_reach_inv[OF assms(1)] .
  note I = log_inv_room[OF inv assms(3,4)]
  have len: "int (length (logged ?l)) = sint (lh_n ?l)" using I(3) by (simp add: logged_def)
  have "sint (lg_size ?l - 1) = sint (lg_size ?l) - 1"
    using assms(2) by (simp add: LOGSIZE_def MAXOPBLOCKS_def sint_word_ariths signed_take_bit_int_eq_self)
  then have room: "log_room ?l \<longleftrightarrow> length (logged ?l) < LOGSIZE - 1" using assms(2) len by (simp add: log_room_def LOGSIZE_def MAXOPBLOCKS_def) linarith
  note W = log_write_eq[OF assms(5-7) I(3), of b]
  have ?once
  proof (cases "log_room ?l")
    case True
    have "log_step (?l, left) (log_record ?bn ?l, if ?bn \<in> set (logged ?l) then left else left[i := left ! i - 1])"
      using assms(3,4) True by (rule step_write)
    from reach_step[OF assms(1) this] have r: "log_reach (log_record ?bn ?l, if ?bn \<in> set (logged ?l) then left else left[i := left ! i - 1])" .
    have "distinct (logged (log_record ?bn ?l))" using log_reach_inv[OF r] by (simp add: log_inv_def)
    then show ?thesis using True room W I(2) r log_record_logged(1)[OF I(3) True, of ?bn] by (auto simp: upd_log_def upd_buf_def Let_def)
  next
    case False
    have "left ! i \<le> sum_list left" using assms(3) by (simp add: elem_le_sum_list)
    moreover have "sint (lh_n ?l) + int (sum_list left) \<le> int LOGSIZE" using inv by (simp add: log_inv_def)
    ultimately have "length (logged ?l) = LOGSIZE - 1 \<and> sum_list left = 1"
      using False room len assms(4) by (simp add: LOGSIZE_def MAXOPBLOCKS_def)
    then show ?thesis using False room W by simp
  qed
  moreover have "\<not> lg_committing ?l" using inv assms(3) by (auto simp: log_inv_def)
  ultimately show ?thesis using begin_op_step[OF assms(1,5,6)] end_op_step[OF assms(1,5,6,3)] by blast
qed

text \<open>The log as \<open>initlog\<close> sets it up from the super block of \<open>mkfs\<close>, and one operation begun.\<close>

definition demo_lst :: lst where
  "demo_lst = dst.extend demo_dst \<lparr>
     klog = \<lparr>lg_start = 2, lg_size = 30, lg_outstanding = 1, lg_committing = False, lg_dev = 1, lh_n = 0, lh_block = (\<lambda>_. 0)\<rparr>,
     sb = \<lparr>sb_magic = 0x10203040, sb_size = 2000, sb_nblocks = 1954, sb_ninodes = 200, sb_nlog = 30, sb_logstart = 2,
       sb_inodestart = 32, sb_bmapstart = 45\<rparr>\<rparr>"

theorem log_write_reserved_witness:
  "(\<exists>d'. log_write 3 (ops_hst, demo_lst) = Inr ((), (settle ops_hst, d')) \<and> logged (klog d') = [0] \<and> b_refcnt (bufs d' 3) = 1) \<and>
   (\<exists>l left. length left = 3 \<and> 0 < left ! 2 \<and> log_reach (l, left) \<and>
      log_write 3 (ops_hst, demo_lst\<lparr>klog := l\<rparr>) = Inl (Panic ''too big a transaction''))"
proof
  let ?l = "klog demo_lst"
  have l: "logged ?l = []" "sint (lg_size ?l) = int LOGSIZE" "bufs demo_lst = (\<lambda>_. buf0)"
    by (simp_all add: demo_lst_def dst.defs logged_def demo_dst_def LOGSIZE_def MAXOPBLOCKS_def)
  have "log_reach (?l\<lparr>lg_outstanding := 0\<rparr>, [])" by (rule reach_init) (simp_all add: demo_lst_def dst.defs)
  moreover have "log_step (?l\<lparr>lg_outstanding := 0\<rparr>, []) (?l, [MAXOPBLOCKS])"
    using step_begin[of "?l\<lparr>lg_outstanding := 0\<rparr>" "[]"] by (simp add: demo_lst_def dst.defs log_full_def LOGSIZE_def MAXOPBLOCKS_def)
  ultimately have "log_reach (klog demo_lst, [MAXOPBLOCKS])" by (rule reach_step)
  from log_write_reserved[OF this l(2) _ _ ops_hst_ok(1) ops_hst_ok(2,2), THEN conjunct1, of 0 3] l
  show "\<exists>d'. log_write 3 (ops_hst, demo_lst) = Inr ((), (settle ops_hst, d')) \<and> logged (klog d') = [0] \<and> b_refcnt (bufs d' 3) = 1"
    by (auto simp: LOGSIZE_def MAXOPBLOCKS_def buf0_def Let_def)
next
  obtain l left where l: "log_reach (l, left)" "sint (lg_size l) = int LOGSIZE" "0 < left ! 2" "length left = 3" "\<not> log_room l"
    using log_area_short by blast
  have r: "log_reach (klog (demo_lst\<lparr>klog := l\<rparr>), left)" "sint (lg_size (klog (demo_lst\<lparr>klog := l\<rparr>))) = int LOGSIZE" "2 < length left"
    using l by simp_all
  have "\<not> length (logged l) < LOGSIZE - 1"
    using l(2,5) log_reach_inv[OF l(1)] sint_less[of "lg_size l"]
    by (auto simp: log_room_def log_inv_def logged_def LOGSIZE_def MAXOPBLOCKS_def sint_word_ariths signed_take_bit_int_eq_self)
  then have "log_write 3 (ops_hst, demo_lst\<lparr>klog := l\<rparr>) = Inl (Panic ''too big a transaction'')"
    using log_write_reserved[OF r l(3) ops_hst_ok(1) ops_hst_ok(2,2), THEN conjunct1, of 3] by simp
  then show "\<exists>l left. length left = 3 \<and> 0 < left ! 2 \<and> log_reach (l, left) \<and>
      log_write 3 (ops_hst, demo_lst\<lparr>klog := l\<rparr>) = Inl (Panic ''too big a transaction'')" using l by blast
qed

end
