(* ===== verification/FsProofs.thy ===== *)
theory FsProofs
  imports Fs
begin

text \<open>
  Properties of the file system that do not depend on the disk: path names, inodes in their blocks, the free map,
  and the way \<open>readi\<close> and \<open>writei\<close> cut a range into pieces.
\<close>

section \<open>Path names\<close>

fun split_on :: "'a \<Rightarrow> 'a list \<Rightarrow> 'a list list" where
  "split_on c [] = [[]]"
| "split_on c (x # xs) = (if x = c then [] # split_on c xs else (x # hd (split_on c xs)) # tl (split_on c xs))"

definition components :: "uint8 list \<Rightarrow> uint8 list list" where
  "components path = filter (\<lambda>e. e \<noteq> []) (split_on slash path)"

definition name_field :: "uint8 list \<Rightarrow> uint8 list" where
  "name_field e = (if DIRSIZ \<le> length e then take DIRSIZ e else e @ [0])"

lemma split_on_nonempty [simp]: "split_on c xs \<noteq> []"
  by (induction xs) auto

lemma components_Nil [simp]: "components [] = []"
  by (simp add: components_def)

lemma components_slash [simp]: "components (slash # xs) = components xs"
  by (simp add: components_def)

lemma components_dropWhile: "components (dropWhile (\<lambda>c. c = slash) xs) = components xs"
  by (induction xs) auto

lemma split_on_append:
  "slash \<notin> set s \<Longrightarrow> split_on slash (s @ xs) = (s @ hd (split_on slash xs)) # tl (split_on slash xs)"
  by (induction s) auto

lemma components_append:
  assumes "s \<noteq> []" and "slash \<notin> set s" and "xs = [] \<or> hd xs = slash"
  shows "components (s @ xs) = s # components xs"
  using assms split_on_append[OF assms(2), of xs] by (cases xs) (auto simp: components_def)

lemma skipelem_components:
  "skipelem path = (case components path of [] \<Rightarrow> None | e # es \<Rightarrow>
     Some (dropWhile (\<lambda>c. c = slash) (dropWhile (\<lambda>c. c \<noteq> slash) (dropWhile (\<lambda>c. c = slash) path)), name_field e))"
  and components_rest: "skipelem path = Some (rest, name) \<Longrightarrow> components rest = tl (components path)"
proof -
  let ?p = "dropWhile (\<lambda>c. c = slash) path"
  let ?s = "takeWhile (\<lambda>c. c \<noteq> slash) ?p" and ?r = "dropWhile (\<lambda>c. c \<noteq> slash) ?p"
  have comp: "components path = (if ?p = [] then [] else ?s # components ?r)"
  proof (cases "?p = []")
    case True
    then show ?thesis using components_dropWhile[of path] by (metis components_Nil)
  next
    case False
    then have "hd ?p \<noteq> slash" by (rule hd_dropWhile)
    with False have "?s \<noteq> []" by (cases ?p) auto
    moreover have "slash \<notin> set ?s" by (auto dest: set_takeWhileD)
    moreover have "?r = [] \<or> hd ?r = slash" using hd_dropWhile[of "\<lambda>c. c \<noteq> slash" ?p] by blast
    ultimately have "components (?s @ ?r) = ?s # components ?r" by (rule components_append)
    then show ?thesis using False components_dropWhile[of path] by simp
  qed
  show "skipelem path = (case components path of [] \<Rightarrow> None | e # es \<Rightarrow>
     Some (dropWhile (\<lambda>c. c = slash) (dropWhile (\<lambda>c. c \<noteq> slash) (dropWhile (\<lambda>c. c = slash) path)), name_field e))"
    using comp by (simp add: skipelem_def Let_def name_field_def)
  show "skipelem path = Some (rest, name) \<Longrightarrow> components rest = tl (components path)"
    using comp by (auto simp: skipelem_def Let_def components_dropWhile split: if_splits)
qed

lemma components_empty: "components path = [] \<Longrightarrow> hd path \<noteq> slash \<or> path = [] \<Longrightarrow> path = []"
  by (cases path) (auto simp: components_def)

lemma skipelem_rest_empty: "skipelem path = Some (rest, name) \<Longrightarrow> rest = [] \<longleftrightarrow> components rest = []"
proof
  assume s: "skipelem path = Some (rest, name)" and c: "components rest = []"
  have "rest = [] \<or> hd rest \<noteq> slash"
    using s hd_dropWhile[of "\<lambda>c. c = slash"] by (auto simp: skipelem_def Let_def split: if_splits)
  then show "rest = []" using components_empty[OF c] by auto
qed simp

lemma path_elems_components:
  "map fst (path_elems path) = map name_field (components path) \<and>
   map (\<lambda>e. snd e = []) (path_elems path) = map (\<lambda>i. Suc i = length (components path)) [0..<length (components path)]"
proof (induction path rule: path_elems.induct)
  case (1 path)
  show ?case
  proof (cases "components path")
    case Nil
    then show ?thesis by (simp add: path_elems.simps[of path] skipelem_components)
  next
    case (Cons e es)
    then obtain rest where s: "skipelem path = Some (rest, name_field e)" by (simp add: skipelem_components)
    have rest: "components rest = es" using components_rest[OF s] Cons by simp
    have flags: "map (\<lambda>i. Suc i = length (e # es)) [0..<length (e # es)] =
        (es = []) # map (\<lambda>i. Suc i = length es) [0..<length es]"
      by (simp add: upt_conv_Cons map_Suc_upt[symmetric] comp_def del: upt_Suc)
    show ?thesis
      using 1[OF s refl] skipelem_rest_empty[OF s]
      unfolding Cons flags by (simp add: path_elems.simps[of path] s rest)
  qed
qed

text \<open>
  C25. The loop of \<open>namex\<close> sees exactly the non-empty parts of the path between slashes, in order and each cut to the
  length of a directory entry's name field, and finds the rest of the path empty at the last one and only there.
\<close>

theorem namex_sees_components:
  "map fst (path_elems path) = map name_field (filter (\<lambda>e. e \<noteq> []) (split_on slash path)) \<and>
   map (\<lambda>e. snd e = []) (path_elems path) =
     map (\<lambda>i. Suc i = length (path_elems path)) [0..<length (path_elems path)]"
proof -
  note p = path_elems_components[of path]
  then have "length (path_elems path) = length (components path)" by (metis length_map)
  with p show ?thesis by (simp add: components_def)
qed

section \<open>Inodes in their blocks\<close>

definition put_addrs :: "nat \<Rightarrow> (nat \<Rightarrow> uint) \<Rightarrow> nat \<Rightarrow> uint8 list \<Rightarrow> uint8 list" where
  "put_addrs off a n bs = fold (\<lambda>i bs. put32 (off + 4 * i) (a i) bs) [0..<n] bs"

lemma put_addrs_Suc: "put_addrs off a (Suc n) bs = put32 (off + 4 * n) (a n) (put_addrs off a n bs)"
  by (simp add: put_addrs_def)

lemma length_put_addrs [simp]: "off + 4 * n \<le> length bs \<Longrightarrow> length (put_addrs off a n bs) = length bs"
  by (induction n) (simp add: put_addrs_def, simp add: put_addrs_Suc)

lemma get32_put_addrs:
  "off + 4 * n \<le> length bs \<Longrightarrow> i < n \<Longrightarrow> get32 (off + 4 * i) (put_addrs off a n bs) = a i"
proof (induction n)
  case (Suc n)
  then show ?case by (cases "i = n") (simp_all add: put_addrs_Suc get32_put32_other)
qed simp

lemma get32_put_addrs_other:
  "off + 4 * n \<le> length bs \<Longrightarrow> p + 4 \<le> length bs \<Longrightarrow> p + 4 \<le> off \<or> off + 4 * n \<le> p \<Longrightarrow>
    get32 p (put_addrs off a n bs) = get32 p bs"
proof (induction n)
  case (Suc n)
  then have "get32 p (put_addrs off a n bs) = get32 p bs" by auto
  with Suc.prems show ?case by (auto simp: put_addrs_Suc get32_put32_other)
qed (simp add: put_addrs_def)

lemma get16_put_addrs_other:
  "off + 4 * n \<le> length bs \<Longrightarrow> p + 2 \<le> length bs \<Longrightarrow> p + 2 \<le> off \<or> off + 4 * n \<le> p \<Longrightarrow>
    get16 p (put_addrs off a n bs) = get16 p bs"
proof (induction n)
  case (Suc n)
  then have "get16 p (put_addrs off a n bs) = get16 p bs" by auto
  with Suc.prems show ?case by (auto simp: put_addrs_Suc get16_put32_other)
qed (simp add: put_addrs_def)

lemma dinode_put_alt:
  "dinode_put off x bs = put_addrs (off + 12) (i_addrs x) 13 (put32 (off + 8) (i_size x) (put16 (off + 6) (i_nlink x)
     (put16 (off + 4) (i_minor x) (put16 (off + 2) (i_major x) (put16 off (i_type x) bs)))))"
  by (simp add: dinode_put_def put_addrs_def Let_def NDIRECT_def)

lemma length_dinode_put: "off + 64 \<le> length bs \<Longrightarrow> length (dinode_put off x bs) = length bs"
  by (simp add: dinode_put_alt)

lemma dinode_get_put:
  "off + 64 \<le> length bs \<Longrightarrow> dinode_get off (dinode_put off x bs) y =
     y\<lparr>i_type := i_type x, i_major := i_major x, i_minor := i_minor x, i_nlink := i_nlink x, i_size := i_size x,
       i_addrs := (\<lambda>i. if i < NDIRECT + 1 then i_addrs x i else i_addrs y i)\<rparr>"
  by (simp add: dinode_put_alt dinode_get_def get16_put_addrs_other get32_put_addrs_other get32_put_addrs
      block_simps NDIRECT_def cong: if_cong)

lemma get_bytes_put_addrs_other:
  "off + 4 * n \<le> length bs \<Longrightarrow> p + k \<le> length bs \<Longrightarrow> p + k \<le> off \<or> off + 4 * n \<le> p \<Longrightarrow>
    get_bytes p k (put_addrs off a n bs) = get_bytes p k bs"
proof (induction n)
  case (Suc n)
  then have "get_bytes p k (put_addrs off a n bs) = get_bytes p k bs" by auto
  with Suc.prems show ?case by (auto simp: put_addrs_Suc put32_def get_put_bytes_other)
qed (simp add: put_addrs_def)

lemma get_bytes_dinode_put_other:
  assumes "off + 64 \<le> length bs" and "p + k \<le> length bs" and "p + k \<le> off \<or> off + 64 \<le> p"
  shows "get_bytes p k (dinode_put off x bs) = get_bytes p k bs"
  using assms(3)
proof
  assume "p + k \<le> off"
  with assms(1,2) show ?thesis
    by (simp add: dinode_put_alt get_bytes_put_addrs_other put16_def put32_def get_put_bytes_other)
next
  assume "off + 64 \<le> p"
  with assms(1,2) show ?thesis
    by (simp add: dinode_put_alt get_bytes_put_addrs_other put16_def put32_def get_put_bytes_other)
qed

lemma dinode_get_put_other:
  assumes "off + 64 \<le> length bs" and "p + 64 \<le> length bs" and "p + 64 \<le> off \<or> off + 64 \<le> p"
  shows "dinode_get p (dinode_put off x bs) y = dinode_get p bs y"
proof -
  have "get_bytes (p + j) k (dinode_put off x bs) = get_bytes (p + j) k bs" if "j + k \<le> 64" for j k
    using that assms by (intro get_bytes_dinode_put_other) auto
  from this[of 0] this[of 2 2] this show ?thesis
    by (simp add: dinode_get_def get16_def get32_def NDIRECT_def add.assoc cong: if_cong)
qed

lemma dinode_off_bound: "dinode_off i + 64 \<le> BSIZE"
proof -
  have "unat i mod IPB < 16" by (simp add: IPB_def BSIZE_def)
  then show ?thesis by (simp add: dinode_off_def BSIZE_def)
qed

lemma dinode_off_apart: "dinode_off i \<noteq> dinode_off j \<Longrightarrow> dinode_off j + 64 \<le> dinode_off i \<or> dinode_off i + 64 \<le> dinode_off j"
  by (simp add: dinode_off_def) linarith

text \<open>
  C26. What \<open>iupdate\<close> stores in the inode's slot of its block is what \<open>ilock\<close> loads from there into whatever entry of the inode
  table the inode gets: type, device numbers, link count, size and all addresses are those stored, and device, number, reference
  count and valid flag of the entry stay. The block keeps its size, and the inodes in the other slots are not touched.
\<close>

theorem dinode_roundtrip:
  assumes "length bs = BSIZE"
  shows "(let z = dinode_get (dinode_off i) (dinode_put (dinode_off i) x bs) y in
      i_type z = i_type x \<and> i_major z = i_major x \<and> i_minor z = i_minor x \<and> i_nlink z = i_nlink x \<and> i_size z = i_size x \<and>
      (\<forall>k \<le> NDIRECT. i_addrs z k = i_addrs x k) \<and>
      i_dev z = i_dev y \<and> i_inum z = i_inum y \<and> i_ref z = i_ref y \<and> i_valid z = i_valid y) \<and>
    length (dinode_put (dinode_off i) x bs) = BSIZE \<and>
    (\<forall>j y. dinode_off j \<noteq> dinode_off i \<longrightarrow>
       dinode_get (dinode_off j) (dinode_put (dinode_off i) x bs) y = dinode_get (dinode_off j) bs y)"
proof (intro conjI allI impI)
  have off: "dinode_off i + 64 \<le> length bs" using assms dinode_off_bound[of i] by simp
  show "let z = dinode_get (dinode_off i) (dinode_put (dinode_off i) x bs) y in
      i_type z = i_type x \<and> i_major z = i_major x \<and> i_minor z = i_minor x \<and> i_nlink z = i_nlink x \<and> i_size z = i_size x \<and>
      (\<forall>k \<le> NDIRECT. i_addrs z k = i_addrs x k) \<and>
      i_dev z = i_dev y \<and> i_inum z = i_inum y \<and> i_ref z = i_ref y \<and> i_valid z = i_valid y"
    by (simp add: dinode_get_put[OF off] Let_def)
  show "length (dinode_put (dinode_off i) x bs) = BSIZE" using off assms by (simp add: length_dinode_put)
  fix j y assume "dinode_off j \<noteq> dinode_off i"
  then show "dinode_get (dinode_off j) (dinode_put (dinode_off i) x bs) y = dinode_get (dinode_off j) bs y"
    using assms dinode_off_bound dinode_off_apart[of i j] by (intro dinode_get_put_other) auto
qed

definition demo_inode :: inode where
  "demo_inode = \<lparr>i_dev = 1, i_inum = 17, i_ref = 1, i_valid = True, i_type = T_FILE, i_major = 0, i_minor = 0,
     i_nlink = 1, i_size = 700, i_addrs = (\<lambda>i. if i = 0 then 46 else 0)\<rparr>"

definition fresh_inode :: inode where
  "fresh_inode = \<lparr>i_dev = 1, i_inum = 17, i_ref = 2, i_valid = False, i_type = 0, i_major = 9, i_minor = 9, i_nlink = 9, i_size = 9,
     i_addrs = (\<lambda>_. 9)\<rparr>"

theorem dinode_roundtrip_witness:
  "(let z = dinode_get (dinode_off 17) (dinode_put (dinode_off 17) demo_inode (replicate BSIZE 0)) fresh_inode in
      i_type z = T_FILE \<and> i_nlink z = 1 \<and> i_size z = 700 \<and> i_addrs z 0 = 46 \<and> i_addrs z NDIRECT = 0 \<and> i_ref z = 2) \<and>
   dinode_get (dinode_off 18) (dinode_put (dinode_off 17) demo_inode (replicate BSIZE 0)) fresh_inode =
     dinode_get (dinode_off 18) (replicate BSIZE 0) fresh_inode"
proof -
  have n: "dinode_off 18 \<noteq> dinode_off 17" by (simp add: dinode_off_def IPB_def BSIZE_def)
  note R = dinode_roundtrip[OF length_replicate, of 17 demo_inode 0 fresh_inode]
  let ?z = "dinode_get (dinode_off 17) (dinode_put (dinode_off 17) demo_inode (replicate BSIZE 0)) fresh_inode"
  have "i_type ?z = T_FILE \<and> i_nlink ?z = 1 \<and> i_size ?z = 700 \<and> i_addrs ?z 0 = 46 \<and> i_addrs ?z NDIRECT = 0 \<and> i_ref ?z = 2"
    using R unfolding Let_def by (simp add: demo_inode_def fresh_inode_def NDIRECT_def)
  then show ?thesis using R n unfolding Let_def by blast
qed

section \<open>The free map\<close>

lemma bmap_bit_iff: "bmap_bit bi bs \<longleftrightarrow> bit (bs ! (bi div 8)) (bi mod 8)"
  using and_exp_eq_0_iff_not_bit[of "bs ! (bi div 8)" "bi mod 8"] by (auto simp: bmap_bit_def)

lemma bmap_set_alt: "bmap_set bi bs = bs[bi div 8 := set_bit (bi mod 8) (bs ! (bi div 8))]"
  by (simp add: bmap_set_def set_bit_eq_or)

lemma bmap_clear_alt: "bmap_clear bi bs = bs[bi div 8 := unset_bit (bi mod 8) (bs ! (bi div 8))]"
  by (simp add: bmap_clear_def unset_bit_eq_and_not)

lemma bmap_bit_set: "bi div 8 < length bs \<Longrightarrow> bmap_bit j (bmap_set bi bs) \<longleftrightarrow> j = bi \<or> bmap_bit j bs"
proof -
  assume len: "bi div 8 < length bs"
  show ?thesis
  proof (cases "j div 8 = bi div 8")
    case True
    have "j = bi \<longleftrightarrow> bi mod 8 = j mod 8" using True div_mult_mod_eq[of j 8] div_mult_mod_eq[of bi 8] by metis
    then show ?thesis using len True by (auto simp: bmap_bit_iff bmap_set_alt bit_set_bit_iff)
  next
    case False
    then have "j \<noteq> bi" by auto
    with False show ?thesis by (auto simp: bmap_bit_iff bmap_set_alt)
  qed
qed

lemma bmap_clear_set: "bi div 8 < length bs \<Longrightarrow> \<not> bmap_bit bi bs \<Longrightarrow> bmap_clear bi (bmap_set bi bs) = bs"
proof -
  assume len: "bi div 8 < length bs" and free: "\<not> bmap_bit bi bs"
  have "unset_bit (bi mod 8) (set_bit (bi mod 8) (bs ! (bi div 8))) = bs ! (bi div 8)"
    by (rule bit_word_eqI) (use free in \<open>auto simp: bit_unset_bit_iff bit_set_bit_iff bmap_bit_iff\<close>)
  then show ?thesis using len by (simp add: bmap_clear_alt bmap_set_alt)
qed

text \<open>
  C27. The bit \<open>balloc\<close> takes from a block of the free map is the first clear one for a block that exists. Setting it
  changes no other bit, and clearing it, as \<open>bfree\<close> does, restores the map. When it finds none, all of them are set.
\<close>

theorem free_bit_first:
  assumes "length bs = BSIZE"
  shows "case free_bit size' b bs of
    Some bi \<Rightarrow> bi < BPB \<and> b + bi < size' \<and> \<not> bmap_bit bi bs \<and> (\<forall>j < bi. bmap_bit j bs) \<and>
      (\<forall>j. bmap_bit j (bmap_set bi bs) = (j = bi \<or> bmap_bit j bs)) \<and> bmap_clear bi (bmap_set bi bs) = bs
  | None \<Rightarrow> \<forall>j. j < BPB \<and> b + j < size' \<longrightarrow> bmap_bit j bs"
proof (cases "free_bit size' b bs")
  case None
  then have "\<forall>j. j < BPB \<and> b + j < size' \<longrightarrow> bmap_bit j bs" by (auto simp: free_bit_def find_None_iff)
  with None show ?thesis by simp
next
  case (Some bi)
  then obtain i where i: "i < length [0..<min BPB (size' - b)]" "bi = [0..<min BPB (size' - b)] ! i" "\<not> bmap_bit bi bs"
    "\<forall>j<i. bmap_bit ([0..<min BPB (size' - b)] ! j) bs"
    unfolding free_bit_def find_Some_iff by auto
  then have bi: "bi = i" "bi < BPB" "b + bi < size'" "\<forall>j < bi. bmap_bit j bs" by auto
  then have "bi div 8 < length bs" using assms by (simp add: BPB_def BSIZE_def)
  then show ?thesis using Some bi i(3) bmap_bit_set bmap_clear_set by simp
qed

lemma free_bit_demo: "free_bit 12 0 (0xff # 0x0b # zs) = Some 10"
proof -
  have "min BPB (12 - 0) = 12" by (simp add: BPB_def BSIZE_def)
  moreover have "[0..<12::nat] = [0, 1, 2, 3, 4, 5, 6, 7, 8, 9, 10, 11]" by (simp add: upt_rec)
  ultimately have "[0..<min BPB (12 - 0)] = [0, 1, 2, 3, 4, 5, 6, 7, 8, 9, 10, 11]" by simp
  then show ?thesis unfolding free_bit_def by (simp add: bmap_bit_def)
qed

theorem free_bit_first_witness:
  "free_bit 12 0 (0xff # 0x0b # replicate 1022 0) = Some 10 \<and>
   bmap_clear 10 (bmap_set 10 (0xff # 0x0b # replicate 1022 0)) = 0xff # 0x0b # replicate 1022 0"
proof -
  have "length (0xff # 0x0b # replicate 1022 (0 :: uint8)) = BSIZE" unfolding BSIZE_def length_Cons length_replicate by simp
  from free_bit_first[OF this, of 0 12] show ?thesis unfolding free_bit_demo option.case by blast
qed

section \<open>Cutting a range into pieces within blocks\<close>

definition spans :: "(nat \<times> nat) list \<Rightarrow> nat list" where
  "spans cs = concat (map (\<lambda>(i, k). [i..<i + k]) cs)"

lemma spans_simps [simp]: "spans [] = []" "spans ((i, k) # cs) = [i..<i + k] @ spans cs"
  by (simp_all add: spans_def)

lemma chunks_cover: "spans (chunks off n) = [off..<off + n]"
proof (induction off n rule: chunks.induct)
  case (1 off n)
  let ?m = "min n (BSIZE - off mod BSIZE)"
  show ?case
  proof (cases "n = 0")
    case False
    then have "spans (chunks off n) = [off..<off + ?m] @ [off + ?m..<off + ?m + (n - ?m)]"
      using 1[OF False refl] by (simp add: chunks.simps[of off n] Let_def)
    also have "\<dots> = [off..<off + ?m + (n - ?m)]" by (rule upt_add_eq_append[OF le_add1, symmetric])
    also have "\<dots> = [off..<off + n]" by simp
    finally show ?thesis .
  qed (simp add: chunks.simps)
qed

lemma chunks_in_block: "(i, k) \<in> set (chunks off n) \<Longrightarrow> 0 < k \<and> i mod BSIZE + k \<le> BSIZE"
proof (induction off n rule: chunks.induct)
  case (1 off n)
  have "off mod BSIZE < BSIZE" by (simp add: BSIZE_def)
  moreover have "n \<noteq> 0" using 1(2) by (cases "n = 0") (simp_all add: chunks.simps)
  moreover from this have "(i, k) = (off, min n (BSIZE - off mod BSIZE)) \<or>
      (i, k) \<in> set (chunks (off + min n (BSIZE - off mod BSIZE)) (n - min n (BSIZE - off mod BSIZE)))"
    using 1(2) by (simp add: chunks.simps[of off n] Let_def)
  ultimately show ?case using 1(1)[OF _ refl] by auto
qed

lemma chunks_count: "length (chunks off n) * BSIZE \<le> off mod BSIZE + n + BSIZE - 1"
proof (induction off n rule: chunks.induct)
  case (1 off n)
  let ?m = "min n (BSIZE - off mod BSIZE)"
  have pos: "off mod BSIZE < BSIZE" by (simp add: BSIZE_def)
  consider "n = 0" | "n \<noteq> 0" "n \<le> BSIZE - off mod BSIZE" | "BSIZE - off mod BSIZE < n" "n \<noteq> 0" by linarith
  then show ?case
  proof cases
    case 2
    then have "chunks off n = [(off, n)]" by (simp add: chunks.simps[of off n] chunks.simps[of "off + n" 0])
    then show ?thesis using 2 by simp
  next
    case 3
    let ?k = "BSIZE - off mod BSIZE"
    have "off + ?k = (off div BSIZE + 1) * BSIZE" using pos div_mult_mod_eq[of off BSIZE] unfolding add_mult_distrib by linarith
    then have aligned: "(off + ?k) mod BSIZE = 0" by (metis mod_mult_self2_is_0)
    have m: "?m = ?k" using 3 by simp
    have "length (chunks (off + ?k) (n - ?k)) * BSIZE \<le> (off + ?k) mod BSIZE + (n - ?k) + BSIZE - 1"
      using 1[OF 3(2) refl] unfolding m .
    then have rest: "length (chunks (off + ?k) (n - ?k)) * BSIZE \<le> (n - ?k) + BSIZE - 1" unfolding aligned by simp
    have "chunks off n = (off, ?k) # chunks (off + ?k) (n - ?k)"
      using 3 m by (subst chunks.simps) (simp only: Let_def if_False)
    then have "length (chunks off n) * BSIZE = BSIZE + length (chunks (off + ?k) (n - ?k)) * BSIZE"
      by simp
    then show ?thesis using rest 3 pos by linarith
  qed (simp add: chunks.simps)
qed

end
