(* ===== verification/FileProofs.thy ===== *)
theory FileProofs
  imports File FsProofs Ring
begin

text \<open>
  Properties of pipes, of the transmit buffer of the UART, and of the pieces in which \<open>filewrite\<close> writes.
\<close>

section \<open>Ring buffers\<close>

definition pipe_contents :: "pipe \<Rightarrow> uint8 list" where
  "pipe_contents x = ring PIPESIZE (pi_data x) (pi_nread x) (pi_nwrite x)"

definition pipe_ok :: "pipe \<Rightarrow> bool" where
  "pipe_ok x \<longleftrightarrow> unat (pi_nwrite x - pi_nread x) \<le> PIPESIZE"

definition pipe_empty :: "pipe \<Rightarrow> bool" where
  "pipe_empty x \<longleftrightarrow> pi_nread x = pi_nwrite x"

definition tx_contents :: "'a cst_scheme \<Rightarrow> uint8 list" where
  "tx_contents d = ring UART_TX_BUF_SIZE (uart_tx_buf d) (uart_tx_r d) (uart_tx_w d)"

definition tx_ok :: "'a cst_scheme \<Rightarrow> bool" where
  "tx_ok d \<longleftrightarrow> unat (uart_tx_w d - uart_tx_r d) \<le> UART_TX_BUF_SIZE"

lemma ring_full_iff:
  fixes r w :: "'w::len word"
  assumes "N < 2 ^ LENGTH('w)"
  shows "w = r + of_nat N \<longleftrightarrow> unat (w - r) = N"
proof
  assume "w = r + of_nat N"
  then show "unat (w - r) = N" using assms by (simp add: unat_of_nat)
next
  assume n: "unat (w - r) = N"
  have "w - r = of_nat N" unfolding n[symmetric] by simp
  then show "w = r + of_nat N" by (simp add: algebra_simps)
qed

interpretation pipe_q: fifo pipe_contents pipe_ok PIPESIZE pipe_full pipe_empty pipe_put pipe_get
proof unfold_locales
  fix s c
  assume ok: "pipe_ok s"
  then show "length (pipe_contents s) \<le> PIPESIZE" by (simp add: pipe_contents_def pipe_ok_def)
  show full: "pipe_full s = (length (pipe_contents s) = PIPESIZE)"
    using ring_full_iff[of PIPESIZE "pi_nwrite s" "pi_nread s"]
    by (simp add: pipe_full_def pipe_contents_def PIPESIZE_def)
  show "pipe_empty s = (pipe_contents s = [])"
    by (auto simp: pipe_empty_def pipe_contents_def ring_def unat_eq_zero)
  show "pipe_ok (pipe_put c s) \<and> pipe_contents (pipe_put c s) = pipe_contents s @ [c]" if "\<not> pipe_full s"
  proof -
    have "unat (pi_nwrite s - pi_nread s) < PIPESIZE" using ok that full by (simp add: pipe_ok_def pipe_contents_def)
    then show ?thesis using unat_diff_Suc[of "pi_nwrite s" "pi_nread s"]
      by (simp add: pipe_contents_def pipe_put_def ring_put pipe_ok_def PIPESIZE_def)
  qed
  show "pipe_ok (snd (pipe_get s)) \<and> pipe_contents s = fst (pipe_get s) # pipe_contents (snd (pipe_get s))" if "\<not> pipe_empty s"
    using ok that unat_diff_pred[of "pi_nwrite s" "pi_nread s"] ring_get[of PIPESIZE "pi_nwrite s" "pi_nread s" "pi_data s"]
    by (simp add: pipe_contents_def pipe_get_def pipe_ok_def pipe_empty_def PIPESIZE_def)
qed

interpretation tx_q: fifo tx_contents tx_ok UART_TX_BUF_SIZE tx_full tx_empty tx_put tx_get
proof unfold_locales
  fix s :: "'a cst_scheme" and c
  assume ok: "tx_ok s"
  then show "length (tx_contents s) \<le> UART_TX_BUF_SIZE" by (simp add: tx_contents_def tx_ok_def)
  show full: "tx_full s = (length (tx_contents s) = UART_TX_BUF_SIZE)"
    using ring_full_iff[of UART_TX_BUF_SIZE "uart_tx_w s" "uart_tx_r s"]
    by (simp add: tx_full_def tx_contents_def UART_TX_BUF_SIZE_def)
  show "tx_empty s = (tx_contents s = [])"
    by (auto simp: tx_empty_def tx_contents_def ring_def unat_eq_zero)
  show "tx_ok (tx_put c s) \<and> tx_contents (tx_put c s) = tx_contents s @ [c]" if "\<not> tx_full s"
  proof -
    have "unat (uart_tx_w s - uart_tx_r s) < UART_TX_BUF_SIZE" using ok that full by (simp add: tx_ok_def tx_contents_def)
    then show ?thesis using unat_diff_Suc[of "uart_tx_w s" "uart_tx_r s"]
      by (simp add: tx_contents_def tx_put_def ring_put tx_ok_def UART_TX_BUF_SIZE_def)
  qed
  show "tx_ok (snd (tx_get s)) \<and> tx_contents s = fst (tx_get s) # tx_contents (snd (tx_get s))" if "\<not> tx_empty s"
    using ok that unat_diff_pred[of "uart_tx_w s" "uart_tx_r s"] ring_get[of UART_TX_BUF_SIZE "uart_tx_w s" "uart_tx_r s" "uart_tx_buf s"]
    by (simp add: tx_contents_def tx_get_def tx_ok_def tx_empty_def UART_TX_BUF_SIZE_def)
qed

lemma uart_tx_in_order:
  "tx_ok d \<Longrightarrow> fifo_run tx_full tx_empty tx_put tx_get acts d = (i, sent, d') \<Longrightarrow>
     tx_ok d' \<and> tx_contents d @ i = sent @ tx_contents d' \<and> length (tx_contents d') \<le> 32"
  using tx_q.run_in_order by (simp add: UART_TX_BUF_SIZE_def)

text \<open>
  C28. A pipe is a queue of at most 512 bytes: however writers and readers take turns, the bytes taken out followed by
  those still inside are the bytes that were inside followed by those put in, in order, also when the counters wrap
  around.
\<close>

theorem pipe_in_order:
  assumes "pipe_ok x" and "fifo_run pipe_full pipe_empty pipe_put pipe_get acts x = (i, out, x')"
  shows "pipe_ok x' \<and> pipe_contents x @ i = out @ pipe_contents x' \<and> length (pipe_contents x') \<le> 512"
  using pipe_q.run_in_order[OF assms] by (simp add: PIPESIZE_def)

definition wrapped_pipe :: pipe where
  "wrapped_pipe = \<lparr>pi_data = (\<lambda>i. if i = 511 then 7 else 0), pi_nread = 0xffffffff, pi_nwrite = 0,
     pi_readopen = True, pi_writeopen = True\<rparr>"

theorem pipe_in_order_witness:
  "\<exists>x'. fifo_run pipe_full pipe_empty pipe_put pipe_get [Put 8, Get, Get, Get, Put 9] wrapped_pipe = ([8, 9], [7, 8], x') \<and>
     pipe_contents x' = [9]"
proof -
  define r where "r = fifo_run pipe_full pipe_empty pipe_put pipe_get [Put 8, Get, Get, Get, Put 9] wrapped_pipe"
  have r: "fst r = [8, 9]" "fst (snd r) = [7, 8]"
    by (simp_all add: r_def wrapped_pipe_def pipe_full_def pipe_empty_def pipe_put_def pipe_get_def PIPESIZE_def)
  have "pipe_ok wrapped_pipe" by (simp add: pipe_ok_def wrapped_pipe_def PIPESIZE_def)
  moreover have "pipe_contents wrapped_pipe = [7]" by (simp add: pipe_contents_def ring_def wrapped_pipe_def PIPESIZE_def)
  moreover have run: "fifo_run pipe_full pipe_empty pipe_put pipe_get [Put 8, Get, Get, Get, Put 9] wrapped_pipe =
      ([8, 9], [7, 8], snd (snd r))"
    unfolding r_def[symmetric] r[symmetric] by simp
  ultimately have "[7] @ [8, 9] = [7, 8] @ pipe_contents (snd (snd r))" using pipe_in_order by metis
  with run show ?thesis by auto
qed

section \<open>Writing within the log\<close>

lemma pieces_cover: "i \<le> n \<Longrightarrow> spans (pieces i n) = [i..<n]"
proof (induction i n rule: pieces.induct)
  case (1 i n)
  let ?m = "min (n - i) write_max"
  show ?case
  proof (cases "i = n")
    case False
    then have "\<not> n \<le> i" using 1(2) by simp
    then have "spans (pieces i n) = [i..<i + ?m] @ [i + ?m..<i + ?m + (n - (i + ?m))]"
      using 1(1)[OF _ refl] by (simp add: pieces.simps[of i n] Let_def)
    also have "\<dots> = [i..<i + ?m + (n - (i + ?m))]" by (rule upt_add_eq_append[OF le_add1, symmetric])
    also have "\<dots> = [i..<n]" using 1(2) by simp
    finally show ?thesis .
  qed (simp add: pieces.simps)
qed

lemma pieces_small: "(j, k) \<in> set (pieces i n) \<Longrightarrow> 0 < k \<and> k \<le> write_max"
proof (induction i n rule: pieces.induct)
  case (1 i n)
  have "0 < write_max" by (simp add: write_max_def MAXOPBLOCKS_def BSIZE_def)
  moreover have ne: "\<not> n \<le> i" using 1(2) by (cases "n \<le> i") (simp_all add: pieces.simps)
  moreover have "(j, k) = (i, min (n - i) write_max) \<or> (j, k) \<in> set (pieces (i + min (n - i) write_max) n)"
    using 1(2) ne by (simp add: pieces.simps[of i n] Let_def)
  ultimately show ?case using 1(1)[OF ne refl] by auto
qed

text \<open>
  C29. \<open>filewrite\<close> covers the bytes of a write in order, once each, in pieces of which each is a transaction. A piece,
  wherever in the file it is written, is cut at the block boundaries by \<open>writei\<close> into so few parts that, with a block of
  the free map for each, the inode and the indirect block, the transaction is within \<open>MAXOPBLOCKS\<close>.
\<close>

theorem filewrite_fits_log:
  "spans (pieces 0 n) = [0..<n] \<and>
   (\<forall>(i, k) \<in> set (pieces 0 n). 0 < k \<and> spans (chunks off k) = [off..<off + k] \<and>
      (\<forall>(pos, m) \<in> set (chunks off k). 0 < m \<and> pos mod BSIZE + m \<le> BSIZE) \<and>
      2 * length (chunks off k) + 2 \<le> MAXOPBLOCKS)"
proof (intro conjI ballI)
  show "spans (pieces 0 n) = [0..<n]" by (rule pieces_cover) simp
  fix p assume "p \<in> set (pieces 0 n)"
  then obtain i k where p: "p = (i, k)" and k: "0 < k" "k \<le> write_max" by (metis pieces_small surj_pair)
  have "off mod BSIZE < BSIZE" by (simp add: BSIZE_def)
  then have "length (chunks off k) * BSIZE < 5 * BSIZE"
    using chunks_count[of off k] k(2) by (simp add: write_max_def MAXOPBLOCKS_def BSIZE_def)
  then have "length (chunks off k) \<le> 4" by (simp add: BSIZE_def)
  then show "case p of (i, k) \<Rightarrow> 0 < k \<and> spans (chunks off k) = [off..<off + k] \<and>
      (\<forall>(pos, m) \<in> set (chunks off k). 0 < m \<and> pos mod BSIZE + m \<le> BSIZE) \<and>
      2 * length (chunks off k) + 2 \<le> MAXOPBLOCKS"
    using k(1) chunks_cover chunks_in_block by (auto simp: p MAXOPBLOCKS_def)
qed

theorem filewrite_fits_log_witness:
  "spans (chunks 1000 3072) = [1000..<4072] \<and> 2 * length (chunks 1000 3072) + 2 \<le> MAXOPBLOCKS"
proof -
  have "(0, 3072) \<in> set (pieces 0 5000)"
    by (subst pieces.simps) (simp add: Let_def write_max_def MAXOPBLOCKS_def BSIZE_def)
  then show ?thesis using filewrite_fits_log[of 5000 1000] by fastforce
qed

end
