(* ===== verification/PrintfProofs.thy ===== *)
theory PrintfProofs
  imports Printf
begin

text \<open>What \<open>printint\<close> prints, read back.\<close>

lemma digits_table: "digit_table digits"
  unfolding digits_def bytes_of_def by code_simp

lemma int_bytes_numeral: "int_bytes xx base sg = numeral_of digits xx base sg"
  by (simp add: int_bytes_def digits_rev_def numeral_of_def)

text \<open>
  C30. What \<open>printint\<close> prints in base 10 or 16 is a numeral of its argument, signed if asked for, the least integer
  included, and with its sign it fits into the buffer of 16 characters.
\<close>

theorem printint_roundtrip:
  "read_int 10 (int_bytes xx 10 sg) = (if sg then sint xx else uint xx) \<and> length (int_bytes xx 10 sg) \<le> 16 \<and>
   read_int 16 (int_bytes xx 16 sg) = (if sg then sint xx else uint xx) \<and> length (int_bytes xx 16 sg) \<le> 16"
  using read_numeral[OF digits_table, of 10 xx sg] read_numeral[OF digits_table, of 16 xx sg]
    length_numeral[of 10 digits xx sg] length_numeral[of 16 digits xx sg]
  by (simp add: int_bytes_numeral)

end
