(* ===== verification/TrapProofs.thy ===== *)
theory TrapProofs
  imports Usertrap KProofs
begin

text \<open>
  What the timer interrupt does to the queues of the scheduler and to a process with an alarm, and what an unknown
  system call does.
\<close>

section \<open>Priority boost and demotion\<close>

text \<open>The entries of a list at even and at odd positions.\<close>

fun evens :: "'a list \<Rightarrow> 'a list" and odds :: "'a list \<Rightarrow> 'a list" where
  "evens [] = []"
| "evens (x # xs) = x # odds xs"
| "odds [] = []"
| "odds (x # xs) = evens xs"

text \<open>The entry of a process that comes to level 0.\<close>

abbreviation boosted :: "nat set \<Rightarrow> (nat \<Rightarrow> proc) \<Rightarrow> nat \<Rightarrow> proc" where
  "boosted B ps \<equiv> (\<lambda>x. if x \<in> B then (ps x)\<lparr>p_queueticks := 0, p_queue_number := 0\<rparr> else ps x)"

lemma boosted_Un: "boosted B (boosted A ps) = boosted (A \<union> B) ps"
  by auto

text \<open>Moving a process between levels keeps it queued, and so what the scheduler relies on.\<close>

lemma sched_inv_move:
  assumes "sched_inv d" and "q < 4" and "q' < 4" and "p \<in> set (queue d q)"
  shows "\<exists>d'. bindR (dequeue p q d) (enqueue p q') = Inr d' \<and> sched_inv d' \<and>
    procs d' = (procs d)(p := (procs d p)\<lparr>p_queueticks := 0, p_queue_number := q'\<rparr>) \<and>
    queue d' = (let r = (queue d)(q := remove1 p (queue d q)) in r(q' := r q' @ [p]))"
proof -
  note inv = sched_invD(1)[OF assms(1)]
  note p = mlfq_inv_mem[OF inv assms(2,4)]
  obtain d1 where d1: "dequeue p q d = Inr d1" "mlfq_inv d1" "procs d1 = procs d"
      "queue d1 = (queue d)(q := remove1 p (queue d q))"
    using dequeue_mem[OF inv assms(2,4)] by auto
  have lv: "live d1 p" using p by (simp add: live_def d1(3))
  have out: "p \<notin> set (queue d1 r)" if "r < 4" for r
    using mlfq.q_disjoint[OF inv assms(2) that assms(4)] mlfq.q_distinct[OF inv assms(2)] by (auto simp: d1(4))
  let ?d = "enqueued p q' d1"
  have e: "enqueue p q' d1 = Inr ?d" by (rule enqueue_fresh[OF d1(2) lv assms(3) out[OF assms(3)]])
  have i: "mlfq_inv ?d" by (rule mlfq_inv_enqueued[OF d1(2) lv assms(3) out])
  have q: "queue ?d = (let r = (queue d)(q := remove1 p (queue d q)) in r(q' := r q' @ [p]))"
    by (simp add: queue_enqueued d1(4) Let_def)
  have pr: "procs ?d = (procs d)(p := (procs d p)\<lparr>p_queueticks := 0, p_queue_number := q'\<rparr>)"
    by (simp add: procs_enqueued d1(3))
  have "x \<in> set (queue ?d (p_queue_number (procs ?d x))) \<longleftrightarrow> active (p_state (procs d x))" if "x < NPROC" for x
  proof (cases "x = p")
    case True
    then show ?thesis using sched_invD(4)[OF assms(1) that] p assms(4) by (simp add: q pr Let_def)
  next
    case False
    then show ?thesis using sched_invD(4)[OF assms(1) that] by (auto simp: q pr Let_def)
  qed
  with assms(1,3) i pr have "sched_inv ?d" by (auto simp: sched_inv_def)
  with d1(1) e pr q show ?thesis by auto
qed

text \<open>The boost of a level moves the entry at \<open>j\<close>; the next one then stands at \<open>j\<close> and is passed over.\<close>

lemma boost_level_eq:
  assumes "sched_inv d" and "0 < level" and "level < 4" and "queue d level = xs @ ys" and "length ys < n"
  shows "\<exists>d'. boost_level n level (length xs) d = Inr d' \<and> sched_inv d' \<and> procs d' = boosted (set (evens ys)) (procs d) \<and>
    queue d' = (queue d)(0 := queue d 0 @ evens ys, level := xs @ odds ys)"
  using assms
proof (induction n arbitrary: d xs ys)
  case (Suc n)
  note inv = sched_invD(1)[OF Suc.prems(1)]
  have sz: "sizeofq d level = length xs + length ys" using Suc.prems(4) by (metis length_append length_queue)
  show ?case
  proof (cases ys)
    case Nil
    with Suc.prems sz show ?thesis by (auto simp: fun_eq_iff)
  next
    case (Cons p rest)
    have lt: "length xs < sizeofq d level" using sz Cons by simp
    have mem: "p \<in> set (queue d level)" using Suc.prems(4) Cons by simp
    have "multique d level (length xs) = Some p"
      using queue_nth[OF lt] inv Suc.prems(3,4) lt Cons by (auto simp: mlfq_inv_def nth_append)
    moreover have "p_queue_number (procs d p) = level" using mlfq_inv_mem[OF inv Suc.prems(3) mem] by simp
    moreover obtain d1 where d1: "bindR (dequeue p level d) (enqueue p 0) = Inr d1" "sched_inv d1"
        "procs d1 = (procs d)(p := (procs d p)\<lparr>p_queueticks := 0, p_queue_number := 0\<rparr>)"
        "queue d1 = (let r = (queue d)(level := remove1 p (queue d level)) in r(0 := r 0 @ [p]))"
      using sched_inv_move[OF Suc.prems(1,3) _ mem, of 0] by auto
    ultimately have step: "boost_level (Suc n) level (length xs) d = boost_level n level (length xs + 1) d1"
      using lt by (cases "dequeue p level d") auto
    have "p \<notin> set xs" using mlfq.q_distinct[OF inv Suc.prems(3)] Suc.prems(4) Cons by auto
    then have q1: "queue d1 = (queue d)(0 := queue d 0 @ [p], level := xs @ rest)"
      using d1(4) Suc.prems(2,4) Cons by (auto simp: fun_eq_iff Let_def remove1_append)
    show ?thesis
    proof (cases rest)
      case Nil
      then have "boost_level n level (length xs + 1) d1 = Inr d1"
        using Suc.prems(2,5) Cons q1 length_queue[of d1 level] by (cases n) auto
      with step d1(2,3) Cons Nil q1 show ?thesis by (simp add: fun_eq_iff)
    next
      case c: (Cons p' rest')
      with q1 have "queue d1 level = (xs @ [p']) @ rest'" using Suc.prems(2) by simp
      moreover have "length rest' < n" using Suc.prems(5) Cons c by simp
      ultimately obtain d' where
          "boost_level n level (length xs + 1) d1 = Inr d'" "sched_inv d'"
          "procs d' = boosted (set (evens rest')) (procs d1)"
          "queue d' = (queue d1)(0 := queue d1 0 @ evens rest', level := (xs @ [p']) @ odds rest')"
        using Suc.IH[OF d1(2) Suc.prems(2,3), of "xs @ [p']" rest'] by (auto simp: fun_eq_iff)
      with step q1 Suc.prems(2) Cons c d1(3) show ?thesis by (auto simp: fun_eq_iff)
    qed
  qed
qed simp

lemma queue_fits:
  assumes "mlfq_inv d" and "q < 4"
  shows "length (queue d q) \<le> NPROC"
proof -
  have "set (queue d q) \<subseteq> {..<NPROC}" using mlfq_inv_mem[OF assms] by auto
  then have "card (set (queue d q)) \<le> NPROC" using card_mono[of "{..<NPROC}"] by simp
  with mlfq.q_distinct[OF assms] show ?thesis by (simp add: distinct_card)
qed

lemma boost_queue:
  assumes "sched_inv d" and "0 < level" and "level < 4"
  shows "\<exists>d'. boost_level (NPROC + 1) level 0 d = Inr d' \<and> sched_inv d' \<and> procs d' = boosted (set (evens (queue d level))) (procs d) \<and>
    queue d' = (queue d)(0 := queue d 0 @ evens (queue d level), level := odds (queue d level))"
  using boost_level_eq[OF assms, of "[]" "queue d level" "NPROC + 1"] queue_fits[OF sched_invD(1)[OF assms(1)] assms(3)] by auto

lemma priority_boost_eq:
  assumes "sched_inv d"
  defines "up \<equiv> (if ticks d mod 48 = 0 then evens (queue d 1) @ evens (queue d 2) @ evens (queue d 3) else [])"
    and "stay \<equiv> (\<lambda>l. if ticks d mod 48 = 0 then odds (queue d l) else queue d l)"
  shows "\<exists>d'. priority_boost d = Inr d' \<and> sched_inv d' \<and> procs d' = boosted (set up) (procs d) \<and>
    queue d' = (queue d)(0 := queue d 0 @ up, 1 := stay 1, 2 := stay 2, 3 := stay 3)"
proof (cases "ticks d mod 48 = 0")
  case True
  obtain d1 where d1: "boost_level (NPROC + 1) 1 0 d = Inr d1" "sched_inv d1" "procs d1 = boosted (set (evens (queue d 1))) (procs d)"
      "queue d1 = (queue d)(0 := queue d 0 @ evens (queue d 1), 1 := odds (queue d 1))"
    using boost_queue[OF assms(1), of 1] by auto
  obtain d2 where d2: "boost_level (NPROC + 1) 2 0 d1 = Inr d2" "sched_inv d2" "procs d2 = boosted (set (evens (queue d1 2))) (procs d1)"
      "queue d2 = (queue d1)(0 := queue d1 0 @ evens (queue d1 2), 2 := odds (queue d1 2))"
    using boost_queue[OF d1(2), of 2] by auto
  obtain d3 where d3: "boost_level (NPROC + 1) 3 0 d2 = Inr d3" "sched_inv d3" "procs d3 = boosted (set (evens (queue d2 3))) (procs d2)"
      "queue d3 = (queue d2)(0 := queue d2 0 @ evens (queue d2 3), 3 := odds (queue d2 3))"
    using boost_queue[OF d2(2), of 3] by auto
  have "[1..<4] = [1, 2, 3::nat]" by (simp add: upt_rec)
  then have "priority_boost d = Inr d3" using True d1(1) d2(1) d3(1) by (simp add: priority_boost_def)
  moreover have "procs d3 = boosted (set up) (procs d)"
    unfolding d3(3) d2(3) d1(3) boosted_Un by (rule ext) (simp add: up_def True d1(4) d2(4))
  moreover have "queue d3 = (queue d)(0 := queue d 0 @ up, 1 := stay 1, 2 := stay 2, 3 := stay 3)"
    using True by (simp add: up_def stay_def d1(4) d2(4) d3(4) fun_eq_iff)
  ultimately show ?thesis using d3(2) by blast
next
  case False
  then have "queue d = (queue d)(0 := queue d 0 @ up, 1 := stay 1, 2 := stay 2, 3 := stay 3)" by (auto simp: up_def stay_def)
  with False assms(1) show ?thesis by (auto simp: priority_boost_def up_def)
qed

lemma demote_eq:
  assumes "sched_inv d" and "p < NPROC" and "active (p_state (procs d p))"
  defines "q \<equiv> p_queue_number (procs d p)" and "l \<equiv> min 3 (p_queue_number (procs d p) + 1)"
  shows "\<exists>d'. demote p d = Inr d' \<and> sched_inv d' \<and>
    procs d' = (procs d)(p := (procs d p)\<lparr>p_queueticks := 0, p_queue_number := l\<rparr>) \<and>
    queue d' = (let r = (queue d)(q := remove1 p (queue d q)) in r(l := r l @ [p]))"
proof -
  have q: "q < 4" "p \<in> set (queue d q)" using sched_invD(2,4)[OF assms(1,2)] assms(3) by (simp_all add: q_def)
  obtain d1 where d1: "dequeue p q d = Inr d1" "procs d1 = procs d"
    using dequeue_mem[OF sched_invD(1)[OF assms(1)] q] by auto
  have "demote p d = bindR (dequeue p q d) (enqueue p l)"
    using d1 q(1) by (auto simp: demote_def Let_def q_def l_def less_Suc_eq numeral_eq_Suc)
  then show ?thesis using sched_inv_move[OF assms(1) q(1) _ q(2), of l] by (simp add: l_def)
qed

text \<open>The loop that lets a process of a higher level run.\<close>

lemma queue_empty: "queue d q = [] \<longleftrightarrow> sizeofq d q = 0"
  by (simp add: queue_def)

lemma preempt_none:
  assumes "p_queue_number (procs d p) < 4" and "k \<le> p_queue_number (procs d p)" and "\<forall>j < p_queue_number (procs d p). queue d j = []"
  shows "preempt E p [k..<4] (h, d) = Inr ((), (h, d))"
  using assms(2)
proof (induction k rule: inc_induct)
  case base
  show ?case using assms(1) by (simp add: upt_conv_Cons)
next
  case (step k)
  with assms(1,3) show ?case by (simp add: upt_conv_Cons queue_empty)
qed

lemma preempt_some:
  assumes "p_queue_number (procs d p) < 4" and "i < p_queue_number (procs d p)" and "queue d i \<noteq> []"
    and "k \<le> i" and "\<forall>j < i. queue d j = []"
  shows "preempt E p [k..<4] (h, d) = thenS (doS (yield (e_swt E))) (preempt E p [i + 1..<4]) (h, d)"
  using assms(4)
proof (induction k rule: inc_induct)
  case base
  show ?case using assms(1-3) by (simp add: upt_conv_Cons queue_empty)
next
  case (step k)
  with assms(1,2,5) show ?case by (simp add: upt_conv_Cons queue_empty)
qed

lemma thenS_assoc: "thenS (thenS a b) c s = thenS a (thenS b c) s"
  by (cases "a s") (auto simp: thenS_def bindS_def)

lemma slice_over_iff:
  "p_queue_number x < 4 \<Longrightarrow> slice_over x \<longleftrightarrow> [1, 4, 8, 16] ! p_queue_number x \<le> sint (p_queueticks x)"
  by (auto simp: slice_over_def timesliceq_def less_Suc_eq numeral_eq_Suc)

text \<open>
  C6. The timer interrupt of a RUNNING process, from queues that are well-formed. The tick is counted; every 48 ticks the boost
  moves the first, third, fifth ... process of each lower level to the end of level 0, where it starts a new slice, and leaves the
  others where they are. Then, if the process has had 1, 4, 8 or 16 ticks on level 0, 1, 2 or 3, it goes to the end of the next
  level, of the last level if it is there already, starts a new slice and yields. If it has not, it goes on when all levels
  above its own are empty, and yields for the first of them that is not. The queues are well-formed whenever it yields, and no
  access leaves their bounds.
\<close>

theorem mlfq_timer_queues:
  assumes "sched_inv d" and "p < NPROC" and "p_state (procs d p) = RUNNING"
  shows "\<exists>d1. sched_inv d1 \<and>
    (let ps = (procs d)(p := (procs d p)\<lparr>p_queueticks := p_queueticks (procs d p) + 1\<rparr>);
         boost = (ticks d mod 48 = 0);
         up = (if boost then evens (queue d 1) @ evens (queue d 2) @ evens (queue d 3) else []) in
       queue d1 0 = queue d 0 @ up \<and> (\<forall>l \<in> {1, 2, 3}. queue d1 l = (if boost then odds (queue d l) else queue d l)) \<and>
       procs d1 = (\<lambda>x. if x \<in> set up then (ps x)\<lparr>p_queueticks := 0, p_queue_number := 0\<rparr> else ps x)) \<and>
    (let x = procs d1 p; q = p_queue_number x; l = min 3 (q + 1); r = (queue d1)(q := remove1 p (queue d1 q)) in
       if [1, 4, 8, 16] ! q \<le> sint (p_queueticks x)
       then \<exists>d2. sched_inv d2 \<and> queue d2 = r(l := r l @ [p]) \<and>
         procs d2 = (procs d1)(p := x\<lparr>p_queueticks := 0, p_queue_number := l\<rparr>) \<and>
         mlfq_tick E p (h, d) = thenS (doS (yield (e_swt E))) (preempt E p [0..<4]) (h, d2)
       else ((\<forall>j < q. queue d1 j = []) \<longrightarrow> mlfq_tick E p (h, d) = Inr ((), (h, d1))) \<and>
         (\<forall>i < q. queue d1 i \<noteq> [] \<and> (\<forall>j < i. queue d1 j = []) \<longrightarrow>
            mlfq_tick E p (h, d) = thenS (doS (yield (e_swt E))) (preempt E p [i + 1..<4]) (h, d1)))"
proof -
  define up where "up = (if ticks d mod 48 = 0 then evens (queue d 1) @ evens (queue d 2) @ evens (queue d 3) else [])"
  define stay where "stay = (\<lambda>l. if ticks d mod 48 = 0 then odds (queue d l) else queue d l)"
  let ?d = "upd_proc p (\<lambda>x. x\<lparr>p_queueticks := p_queueticks x + 1\<rparr>) d"
  have inv: "sched_inv ?d" by (rule sched_inv_upd_proc[OF assms(1)]) simp_all
  have q: "queue ?d = queue d" "ticks ?d = ticks d" by (simp_all add: queue_upd_proc)
  obtain d1 where d1: "priority_boost ?d = Inr d1" "sched_inv d1" "procs d1 = boosted (set up) (procs ?d)"
      "queue d1 = (queue d)(0 := queue d 0 @ up, 1 := stay 1, 2 := stay 2, 3 := stay 3)"
    using priority_boost_eq[OF inv] unfolding q up_def stay_def by blast
  define x where "x = procs d1 p"
  have lv: "p_queue_number x < 4" using sched_invD(2)[OF d1(2) assms(2)] by (simp add: x_def)
  have act: "active (p_state (procs d1 p))" using assms(3) by (simp add: d1(3) active_def)
  obtain d2 where d2: "demote p d1 = Inr d2" "sched_inv d2"
      "procs d2 = (procs d1)(p := x\<lparr>p_queueticks := 0, p_queue_number := min 3 (p_queue_number x + 1)\<rparr>)"
      "queue d2 = (let q = p_queue_number x; l = min 3 (q + 1); r = (queue d1)(q := remove1 p (queue d1 q)) in r(l := r l @ [p]))"
    using demote_eq[OF d1(2) assms(2) act] by (auto simp: x_def Let_def)
  have tick: "mlfq_tick E p (h, d) = thenS (whenS (slice_over x) (thenS (doS (on_data (demote p))) (doS (yield (e_swt E)))))
      (preempt E p [0..<4]) (h, d1)"
    using d1(1) lv by (simp add: mlfq_tick_def updP_def x_def)
  have over: "mlfq_tick E p (h, d) = thenS (doS (yield (e_swt E))) (preempt E p [0..<4]) (h, d2)" if "slice_over x"
    using that d2(1) unfolding tick by (simp add: thenS_assoc)
  have rest: "mlfq_tick E p (h, d) = preempt E p [0..<4] (h, d1)" if "\<not> slice_over x"
    using that unfolding tick by simp
  show ?thesis
  proof (intro exI[of _ d1] conjI d1(2))
    show "let ps = (procs d)(p := (procs d p)\<lparr>p_queueticks := p_queueticks (procs d p) + 1\<rparr>);
         boost = (ticks d mod 48 = 0);
         up = (if boost then evens (queue d 1) @ evens (queue d 2) @ evens (queue d 3) else []) in
       queue d1 0 = queue d 0 @ up \<and> (\<forall>l \<in> {1, 2, 3}. queue d1 l = (if boost then odds (queue d l) else queue d l)) \<and>
       procs d1 = (\<lambda>x. if x \<in> set up then (ps x)\<lparr>p_queueticks := 0, p_queue_number := 0\<rparr> else ps x)"
      unfolding Let_def up_def[symmetric] by (auto simp: d1(3,4) stay_def fun_eq_iff)
    show "let x = procs d1 p; q = p_queue_number x; l = min 3 (q + 1); r = (queue d1)(q := remove1 p (queue d1 q)) in
       if [1, 4, 8, 16] ! q \<le> sint (p_queueticks x)
       then \<exists>d2. sched_inv d2 \<and> queue d2 = r(l := r l @ [p]) \<and>
         procs d2 = (procs d1)(p := x\<lparr>p_queueticks := 0, p_queue_number := l\<rparr>) \<and>
         mlfq_tick E p (h, d) = thenS (doS (yield (e_swt E))) (preempt E p [0..<4]) (h, d2)
       else ((\<forall>j < q. queue d1 j = []) \<longrightarrow> mlfq_tick E p (h, d) = Inr ((), (h, d1))) \<and>
         (\<forall>i < q. queue d1 i \<noteq> [] \<and> (\<forall>j < i. queue d1 j = []) \<longrightarrow>
            mlfq_tick E p (h, d) = thenS (doS (yield (e_swt E))) (preempt E p [i + 1..<4]) (h, d1))"
      unfolding x_def[symmetric] Let_def slice_over_iff[OF lv, symmetric]
    proof (cases "slice_over x", goal_cases)
      case 1
      then show ?case using over d2(2-) unfolding Let_def by (auto simp only: if_True)
    next
      case 2
      then show ?case using rest preempt_none[of d1 p 0 E h] preempt_some[of d1 p _ 0 E h] lv by (simp add: x_def)
    qed
  qed
qed

definition boost_demo :: pst where
  "boost_demo = upd_proc 6 (\<lambda>x. x\<lparr>p_queueticks := 3\<rparr>) (enqueued 6 1 (enqueued 5 1 (enqueued 4 1 (upd_proc 4 (\<lambda>x. x\<lparr>p_pid := 1, p_state := RUNNABLE\<rparr>)
     (upd_proc 5 (\<lambda>x. x\<lparr>p_pid := 2, p_state := RUNNABLE\<rparr>) (upd_proc 6 (\<lambda>x. x\<lparr>p_pid := 3, p_state := RUNNING\<rparr>) pst0))))))"

lemma boost_demo_inv: "sched_inv boost_demo" "queue boost_demo = (\<lambda>_. [])(1 := [4, 5, 6])"
proof -
  show q: "queue boost_demo = (\<lambda>_. [])(1 := [4, 5, 6])"
    by (simp add: boost_demo_def queue_enqueued) (simp add: queue_def pst0_def fun_eq_iff)
  have "mlfq_inv boost_demo"
    unfolding mlfq_inv_def q
    by (auto simp: pids_unique_def boost_demo_def enqueued_def pst0_def proc0_def NPROC_def less_Suc_eq)
  then show "sched_inv boost_demo"
    unfolding sched_inv_def q by (auto simp: active_def boost_demo_def enqueued_def pst0_def proc0_def)
qed

text \<open>
  Process 6, third on level 1, has had three ticks. At tick 0 it is boosted with process 4 and goes on; at tick 1 its slice is over, it
  goes to level 2 and yields.
\<close>

theorem mlfq_timer_queues_witness:
  "\<forall>E h. (\<exists>d'. mlfq_tick E 6 (h, boost_demo) = Inr ((), (h, d')) \<and> queue d' 0 = [4, 6] \<and> queue d' 1 = [5]) \<and>
   (\<exists>d'. mlfq_tick E 6 (h, boost_demo\<lparr>ticks := 1\<rparr>) = thenS (doS (yield (e_swt E))) (preempt E 6 [0..<4]) (h, d') \<and>
      queue d' 1 = [4, 5] \<and> queue d' 2 = [6])"
proof (intro allI conjI)
  fix E :: "pst env" and h
  let ?d = "boost_demo\<lparr>ticks := 1\<rparr>"
  have d: "ticks boost_demo mod 48 = 0" "p_state (procs boost_demo 6) = RUNNING" "p_queue_number (procs boost_demo 6) = 1"
    "p_queueticks (procs boost_demo 6) = 3" "6 < NPROC"
    by (simp_all add: boost_demo_def enqueued_def live_def pst0_def proc0_def NPROC_def)
  show "\<exists>d'. mlfq_tick E 6 (h, boost_demo) = Inr ((), (h, d')) \<and> queue d' 0 = [4, 6] \<and> queue d' 1 = [5]"
    using mlfq_timer_queues[OF boost_demo_inv(1) d(5,2), of E h] d(1) boost_demo_inv(2) by (auto simp: Let_def)
  have i: "sched_inv ?d" "queue ?d = queue boost_demo" "ticks ?d mod 48 \<noteq> 0" "procs ?d = procs boost_demo"
    using boost_demo_inv(1) sched_inv_cong[of ?d boost_demo] by (simp_all add: queue_def fun_eq_iff)
  show "\<exists>d'. mlfq_tick E 6 (h, ?d) = thenS (doS (yield (e_swt E))) (preempt E 6 [0..<4]) (h, d') \<and>
      queue d' 1 = [4, 5] \<and> queue d' 2 = [6]"
    using mlfq_timer_queues[OF i(1) d(5), of E h] d(2-4) boost_demo_inv(2) i(2-4)
    by (auto simp: Let_def numeral_2_eq_2[symmetric]) (rule exI, rule conjI, rule refl, simp)
qed

section \<open>A kernel state for examples\<close>

definition demo_kd :: kd where
  "demo_kd = \<lparr>procs = procs ops_pst, initproc = initproc ops_pst, multique = multique ops_pst, sizeofq = sizeofq ops_pst,
     nextpid = 4, ticks = 0, seed = 1, kout = [], km = demo_mst\<lparr>freelist := 0x80030000\<rparr>, kernel_pagetable = 0,
     sleeplocks = (\<lambda>_. \<lparr>sl_locked = False, sl_name = [], sl_pid = 0\<rparr>),
     bufs = (\<lambda>_. buf0), disk = disk0, mmio_out = [],
     klog = \<lparr>lg_start = 2, lg_size = 30, lg_outstanding = 0, lg_committing = False, lg_dev = 1, lh_n = 0, lh_block = (\<lambda>_. 0)\<rparr>,
     sb = \<lparr>sb_magic = FSMAGIC, sb_size = 1000, sb_nblocks = 941, sb_ninodes = 200, sb_nlog = 30, sb_logstart = 2,
       sb_inodestart = 32, sb_bmapstart = 45\<rparr>,
     inodes = (\<lambda>_. \<lparr>i_dev = 0, i_inum = 0, i_ref = 0, i_valid = False, i_type = 0, i_major = 0, i_minor = 0, i_nlink = 0,
       i_size = 0, i_addrs = (\<lambda>_. 0)\<rparr>),
     uart_in = [], uart_out = [], uart_tx_buf = (\<lambda>_. 0), uart_tx_w = 0, uart_tx_r = 0, panicked = False,
     kcons = \<lparr>c_buf = (\<lambda>_. 0), c_r = 0, c_w = 0, c_e = 0\<rparr>, devsw = (\<lambda>_. None), pr_locking = True,
     files = (\<lambda>_. \<lparr>f_type = FD_NONE, f_ref = 0, f_readable = False, f_writable = False, f_pipe = 0, f_ip = None,
       f_off = 0, f_major = 0\<rparr>),
     pipes = (\<lambda>_. \<lparr>pi_data = (\<lambda>_. 0), pi_nread = 0, pi_nwrite = 0, pi_readopen = False, pi_writeopen = False\<rparr>),
     r_stvec = 0, r_sepc = 0, r_scause = 0, r_stval = 0, r_satp = 0, r_sip = 0, r_spp = False, r_spie = False,
     forkret_first = False\<rparr>"

lemma demo_kd_sel [simp]: "procs demo_kd = procs ops_pst" "km demo_kd = demo_mst\<lparr>freelist := 0x80030000\<rparr>"
  by (simp_all add: demo_kd_def)

end
