(* ===== verification/AlarmProofs.thy ===== *)
theory AlarmProofs
  imports TrapProofs VmUser
begin

text \<open>
  Alarms: the timer interrupt saves the trap frame of a process and diverts it to its handler, \<open>sigreturn\<close> puts the trap
  frame back. Between the two the process runs its handler, which may itself be interrupted.
\<close>

section \<open>The words of a page\<close>

definition word_at :: "bytemem \<Rightarrow> uint64 \<Rightarrow> nat \<Rightarrow> uint64" where
  "word_at m p k = load64 m (p + of_nat (8 * k))"

lemma unat_of_nat64: "n < 2 ^ 64 \<Longrightarrow> unat (of_nat n :: uint64) = n"
  by (simp add: unat_of_nat)

lemma word_offset:
  assumes "k < 512"
  shows "aligned 3 (of_nat (8 * k) :: uint64)" and "drop_bit 12 (of_nat (8 * k) :: uint64) = 0"
    and "unat (of_nat (8 * k) :: uint64) = 8 * k"
proof -
  show u: "unat (of_nat (8 * k) :: uint64) = 8 * k" using assms by (intro unat_of_nat64) simp
  show "aligned 3 (of_nat (8 * k) :: uint64)"
    unfolding aligned_def take_bit_eq_mod word_unat_eq_iff unat_mod u by simp
  show "drop_bit 12 (of_nat (8 * k) :: uint64) = 0" using assms by (intro drop_bit_of_nat) simp
qed

lemma word_at_store64:
  assumes "aligned 12 p" and "k < 512" and "j < 512"
  shows "word_at (store64 m (p + of_nat (8 * j)) v) p k = (if k = j then v else word_at m p k)"
proof (cases "k = j")
  case False
  then have "(of_nat (8 * j) :: uint64) \<noteq> of_nat (8 * k)" using word_offset(3)[OF assms(2)] word_offset(3)[OF assms(3)]
    by (auto dest!: arg_cong[where f = unat] simp del: of_nat_mult)
  with page_word(1)[OF assms(1) word_offset(1,2)[OF assms(2)]] page_word(1)[OF assms(1) word_offset(1,2)[OF assms(3)]] False
  show ?thesis by (simp add: word_at_def load_store64_other del: of_nat_mult)
qed (simp add: word_at_def)

definition set_word :: "uint64 \<Rightarrow> nat \<Rightarrow> uint64 \<Rightarrow> bytemem \<Rightarrow> bytemem" where
  "set_word p j v m = store64 m (p + of_nat (8 * j)) v"

lemma word_at_set_word:
  "aligned 12 p \<Longrightarrow> k < 512 \<Longrightarrow> j < 512 \<Longrightarrow> word_at (set_word p j v m) p k = (if k = j then v else word_at m p k)"
  unfolding set_word_def by (rule word_at_store64)

lemma same_but_set_word: "aligned 12 p \<Longrightarrow> j < 512 \<Longrightarrow> same_but p m (set_word p j v m)"
  unfolding set_word_def by (rule same_but_store64[OF _ word_offset(1,2)])

lemma word_at_same_but:
  assumes "same_but p m m'" and "aligned 12 p" and "aligned 12 q" and "q \<noteq> p" and "k < 512"
  shows "word_at m' q k = word_at m q k"
  unfolding word_at_def by (rule load64_same_but[OF assms(1-4) word_offset(1,2)[OF assms(5)]])

lemma page_bytes_end: "aligned 12 p \<Longrightarrow> p < PHYSTOP \<Longrightarrow> n \<le> 4096 \<Longrightarrow> unat p + n < 2 ^ 64"
  by (simp add: word_less_nat_alt PHYSTOP_def KERNBASE_def)

lemma memmove_page:
  assumes "aligned 12 p" and "aligned 12 q" and "p < PHYSTOP" and "q < PHYSTOP" and "w \<le> 512"
  shows "same_but p m (memmove m p q (8 * w))"
    and "k < w \<Longrightarrow> word_at (memmove m p q (8 * w)) p k = word_at m q k"
proof -
  have n: "unat p + 8 * w < 2 ^ 64" "unat q + 8 * w < 2 ^ 64"
    using page_bytes_end[OF assms(1,3)] page_bytes_end[OF assms(2,4)] assms(5) by auto
  note mv = memmove_apply[OF n, of m]
  show "same_but p m (memmove m p q (8 * w))"
    unfolding same_but_def
  proof (intro allI impI)
    fix x assume "drop_bit 12 x \<noteq> drop_bit 12 p"
    then have "\<not> unat (x - p) < 8 * w" using block_offset[OF assms(1), of x] assms(5) by simp
    then show "memmove m p q (8 * w) x = m x" by (simp add: mv)
  qed
  assume k: "k < w"
  have "memmove m p q (8 * w) (p + of_nat (8 * k) + of_nat i) = m (q + of_nat (8 * k) + of_nat i)" if "i < 8" for i
  proof -
    have "p + of_nat (8 * k) + of_nat i - p = (of_nat (8 * k + i) :: uint64)" by simp
    moreover have "unat (of_nat (8 * k + i) :: uint64) < 8 * w" using that k assms(5) by (subst unat_of_nat64) auto
    moreover have "q + of_nat (8 * k + i) = q + of_nat (8 * k) + of_nat i" by simp
    ultimately show ?thesis unfolding mv by (simp only: if_True)
  qed
  then show "word_at (memmove m p q (8 * w)) p k = word_at m q k"
    unfolding word_at_def load64_def load_bytes_def by (intro arg_cong[where f = le_word]) simp
qed

section \<open>Entering the handler\<close>

definition alarm_due :: "proc \<Rightarrow> bool" where
  "alarm_due x \<longleftrightarrow> p_state x = RUNNING \<and> \<not> p_in_alarm_handler x \<and>
     0 < sint (p_ticks x) \<and> sint (p_ticks x) \<le> sint (p_cur_ticks x + 1)"

lemma TF_words: "TF_kernel_satp = of_nat (8 * 0)" "TF_kernel_sp = of_nat (8 * 1)" "TF_kernel_trap = of_nat (8 * 2)"
  "TF_epc = of_nat (8 * 3)" "TF_kernel_hartid = of_nat (8 * 4)" "TF_size = 8 * 36"
  by (simp_all add: TF_kernel_satp_def TF_kernel_sp_def TF_kernel_trap_def TF_epc_def TF_kernel_hartid_def TF_size_def)

lemma alarm_tick_eq:
  fixes d :: "'a vst_scheme"
  assumes "alarm_due (procs d p)" and "kmem_inv L (km d) (a # fs)"
    and "is_page L (p_trapframe (procs d p))" and "p_trapframe (procs d p) \<noteq> 0" and "p_trapframe (procs d p) \<notin> set (a # fs)"
  defines "tf \<equiv> p_trapframe (procs d p)"
  shows "\<exists>d1. alarm_tick p (h, d) = Inr ((), (h, d1)) \<and>
    procs d1 = (procs d)(p := (procs d p)\<lparr>p_cur_ticks := 0, p_in_alarm_handler := True, p_alarm_tf := a\<rparr>) \<and>
    kmem_inv L (km d1) fs \<and>
    (\<forall>k < 36. word_at (mem (km d1)) a k = word_at (mem (km d)) tf k) \<and>
    (\<forall>k < 512. word_at (mem (km d1)) tf k = (if k = 3 then p_handler (procs d p) else word_at (mem (km d)) tf k))"
proof -
  have a: "aligned 12 a" "a < PHYSTOP" "a \<noteq> 0" "a \<notin> set fs" "a \<noteq> tf"
    using assms(2,5) kmem.pool_good[OF assms(2), of a] kmem.pool_distinct[OF assms(2)] by (auto simp: is_page_def tf_def)
  have tf: "aligned 12 tf" "tf < PHYSTOP" "tf \<noteq> 0" "tf \<notin> set fs" using assms(3,4,5) by (auto simp: is_page_def tf_def)
  obtain m1 where m1: "kalloc (km d) = (a, m1)" "kmem_inv L m1 fs" "same_but a (mem (km d)) (mem m1)"
    using kalloc_some[OF assms(2)] by auto
  let ?m2 = "memmove (mem m1) a tf (8 * 36)"
  let ?m3 = "store64 ?m2 (tf + of_nat (8 * 3)) (p_handler (procs d p))"
  have sb2: "same_but a (mem m1) ?m2" by (rule memmove_page(1)[OF a(1) tf(1) a(2) tf(2)]) simp
  have sb3: "same_but tf ?m2 ?m3" by (rule same_but_store64[OF tf(1) word_offset(1,2)]) simp_all
  have k2: "kmem_inv L (m1\<lparr>mem := ?m2\<rparr>) fs"
    by (rule kmem_inv_same_but[OF m1(2) _ a(1,4)]) (use sb2 in simp_all)
  have k3: "kmem_inv L (m1\<lparr>mem := ?m3\<rparr>) fs"
    by (rule kmem_inv_same_but[OF k2 _ tf(1,4)]) (use sb3 in simp_all)
  have saved: "word_at ?m3 a k = word_at (mem (km d)) tf k" if "k < 36" for k
    using that word_at_same_but[OF sb3 tf(1) a(1,5), of k] memmove_page(2)[OF a(1) tf(1) a(2) tf(2), of 36 k "mem m1"]
      word_at_same_but[OF m1(3) a(1) tf(1) a(5)[symmetric], of k] by simp
  have same: "word_at ?m3 tf k = (if k = 3 then p_handler (procs d p) else word_at (mem (km d)) tf k)" if "k < 512" for k
    using that word_at_store64[OF tf(1), of k 3 ?m2] word_at_same_but[OF sb2 a(1) tf(1) a(5)[symmetric], of k]
      word_at_same_but[OF m1(3) a(1) tf(1) a(5)[symmetric], of k] by simp
  have "alarm_tick p (h, d) = Inr ((), (h, upd_proc p (\<lambda>x. x\<lparr>p_cur_ticks := 0\<rparr>) (upd_proc p (\<lambda>x. x\<lparr>p_alarm_tf := a\<rparr>)
     (upd_proc p (\<lambda>x. x\<lparr>p_in_alarm_handler := True\<rparr>) (upd_proc p (\<lambda>x. x\<lparr>p_cur_ticks := p_cur_ticks x + 1\<rparr>) d)))\<lparr>km := m1\<lparr>mem := ?m3\<rparr>\<rparr>))"
    using assms(1) m1(1) a(3) tf(3)
    by (simp add: alarm_tick_def alarm_due_def updP_def kallocS_def memU_def tf_set_def TF_words tf_def upd_proc_def)
  with k3 saved same show ?thesis by (auto simp: fun_eq_iff upd_proc_def)
qed

section \<open>Going back\<close>

lemma settle_intr_off_proc [simp]: "c_proc (mycpu (intr_off h)) = c_proc (mycpu h)"
  by (simp add: hart_defs)

text \<open>\<open>usertrapret\<close> writes the four words of the trap frame that the kernel owns and sends \<open>epc\<close> to the program counter.\<close>

lemma usertrapret_eq:
  fixes d :: "'a kd_scheme"
  assumes "hart_ok h" and "c_proc (mycpu h) = Some p"
    and "aligned 12 (p_trapframe (procs d p))" and "p_trapframe (procs d p) \<noteq> 0"
  defines "tf \<equiv> p_trapframe (procs d p)"
  shows "\<exists>d'. usertrapret E (h, d) = Inr (MAKE_SATP (p_pagetable (procs d p)), (intr_off (settle h), d')) \<and>
    procs d' = procs d \<and> freelist (km d') = freelist (km d) \<and> same_but tf (mem (km d)) (mem (km d')) \<and>
    r_sepc d' = word_at (mem (km d)) tf 3 \<and> r_spp d' = False \<and> r_spie d' = True \<and>
    (\<forall>k < 512. 5 \<le> k \<or> k = 3 \<longrightarrow> word_at (mem (km d')) tf k = word_at (mem (km d)) tf k)"
proof -
  let ?m = "set_word tf 4 (of_nat (hartid h)) (set_word tf 2 (l_usertrap (e_layout E))
    (set_word tf 1 (p_kstack (procs d p) + PGSIZE) (set_word tf 0 (r_satp d) (mem (km d)))))"
  have tf: "aligned 12 tf" using assms(3) by (simp add: tf_def)
  have same: "\<forall>k < 512. 5 \<le> k \<or> k = 3 \<longrightarrow> word_at ?m tf k = word_at (mem (km d)) tf k"
    by (auto simp: word_at_set_word[OF tf])
  have "same_but tf (mem (km d)) ?m"
    by (intro same_but_trans[OF _ same_but_set_word[OF tf]] same_but_set_word[OF tf]) simp_all
  moreover have "word_at ?m tf 3 = word_at (mem (km d)) tf 3" by (simp add: word_at_set_word[OF tf])
  moreover have "usertrapret E (h, d) = Inr (MAKE_SATP (p_pagetable (procs d p)), (intr_off (settle h),
      d\<lparr>r_stvec := TRAMPOLINE + (l_uservec (e_layout E) - l_trampoline (e_layout E)), km := (km d)\<lparr>mem := ?m\<rparr>,
        r_spp := False, r_spie := True, r_sepc := word_at ?m tf 3\<rparr>))"
    using assms(1,2,4)
    by (simp add: usertrapret_def curS_eq tf_set_def tf_get_def memU_def tf_def TF_words cpuidS_def hart_defs word_at_def set_word_def)
  ultimately show ?thesis using same by auto
qed

lemma sys_sigreturn_eq:
  fixes d :: "'a kd_scheme"
  assumes "hart_ok h" and "c_proc (mycpu h) = Some p" and "kmem_inv (e_layout E) (km d) fs"
    and "is_page (e_layout E) (p_trapframe (procs d p))" and "p_trapframe (procs d p) \<noteq> 0" and "p_trapframe (procs d p) \<notin> set fs"
    and "p_alarm_tf (procs d p) = a" and "is_page (e_layout E) a" and "a \<noteq> 0" and "a \<notin> set fs" and "a \<noteq> p_trapframe (procs d p)"
  shows "\<exists>h' d'. sys_sigreturn E (h, d) = Inr (Jumped (MAKE_SATP (p_pagetable (procs d p))), (h', d')) \<and>
    p_in_alarm_handler (procs d' p) = False \<and> p_cur_ticks (procs d' p) = 0 \<and> p_alarm_tf (procs d' p) = 0 \<and>
    kmem_inv (e_layout E) (km d') (a # fs) \<and> r_sepc d' = word_at (mem (km d)) a 3 \<and>
    (\<forall>k < 512. 5 \<le> k \<or> k = 3 \<longrightarrow> word_at (mem (km d')) (p_trapframe (procs d p)) k = word_at (mem (km d)) a k)"
proof -
  let ?tf = "p_trapframe (procs d p)" and ?L = "e_layout E"
  have a: "aligned 12 a" "a < PHYSTOP" and t: "aligned 12 ?tf" "?tf < PHYSTOP" using assms(4,8) by (auto simp: is_page_def)
  let ?m1 = "memmove (mem (km d)) ?tf a (8 * 512)"
  have sb1: "same_but ?tf (mem (km d)) ?m1" by (rule memmove_page(1)[OF t(1) a(1) t(2) a(2)]) simp
  have "kmem_inv ?L ((km d)\<lparr>mem := ?m1\<rparr>) fs"
    by (rule kmem_inv_same_but[OF assms(3) _ t(1) assms(6)]) (use sb1 in simp_all)
  from kfree_good[OF this assms(8,9,10)] obtain m2 where m2: "kfree ?L a ((km d)\<lparr>mem := ?m1\<rparr>) = Inr m2"
      "kmem_inv ?L m2 (a # fs)" "same_but a ?m1 (mem m2)" by auto
  let ?c = "upd_proc p (\<lambda>x. x\<lparr>p_syscall_count := (p_syscall_count x)(SYS_sigreturn := p_syscall_count x SYS_sigreturn + 1)\<rparr>) d"
  let ?d2 = "upd_proc p (\<lambda>x. x\<lparr>p_alarm_tf := 0, p_alarm_on := False, p_cur_ticks := 0, p_in_alarm_handler := False\<rparr>) (?c\<lparr>km := m2\<rparr>)"
  obtain d' where d': "usertrapret E (settle h, ?d2) = Inr (MAKE_SATP (p_pagetable (procs d p)), (intr_off (settle (settle h)), d'))"
      "procs d' = procs ?d2" "freelist (km d') = freelist m2" "same_but ?tf (mem m2) (mem (km d'))"
      "r_sepc d' = word_at (mem m2) ?tf 3"
      "\<forall>k < 512. 5 \<le> k \<or> k = 3 \<longrightarrow> word_at (mem (km d')) ?tf k = word_at (mem m2) ?tf k"
    using usertrapret_eq[of "settle h" p ?d2 E] assms(1,2,5) t(1) by (auto simp: upd_proc_def)
  have saved: "word_at (mem m2) ?tf k = word_at (mem (km d)) a k" if "k < 512" for k
    using that word_at_same_but[OF m2(3) a(1) t(1) assms(11)[symmetric], of k]
      memmove_page(2)[OF t(1) a(1) t(2) a(2), of 512 k "mem (km d)"] by simp
  have k: "kmem_inv ?L (km d') (a # fs)"
    by (rule kmem_inv_same_but[OF m2(2) d'(4) t(1)]) (use assms(6,11) d'(3) in auto)
  have "sys_sigreturn E (h, d) = Inr (Jumped (MAKE_SATP (p_pagetable (procs d p))), (intr_off (settle (settle h)), d'))"
    using d'(1) m2(1) assms(1,2,7,9)
    by (simp add: sys_sigreturn_def count_call_def curS_eq updP_def memU_def kfreeS_def upd_proc_def)
  with d'(2,5,6) saved k show ?thesis by (auto simp: upd_proc_def)
qed

section \<open>The round trip\<close>

text \<open>
  C7. When the alarm of a running process is due the timer interrupt diverts it to its handler, with every other register
  as it was. Whatever happens until the handler calls \<open>sigreturn\<close>, as long as nothing writes to the saved trap frame,
  \<open>sigreturn\<close> resumes the program where it was interrupted, with all its registers, and frees the page of the saved frame.
\<close>

theorem alarm_roundtrip:
  fixes d :: "'a kd_scheme"
  assumes "alarm_due (procs d p)" and "kmem_inv (e_layout E) (km d) (a # fs)"
    and "is_page (e_layout E) tf" and "tf \<noteq> 0" and "tf \<notin> set (a # fs)" and "p_trapframe (procs d p) = tf"
  shows "\<exists>d1. alarm_tick p (h, d) = Inr ((), (h, d1)) \<and> p_in_alarm_handler (procs d1 p) \<and>
    p_trapframe (procs d1 p) = tf \<and> p_alarm_tf (procs d1 p) = a \<and> kmem_inv (e_layout E) (km d1) fs \<and>
    word_at (mem (km d1)) tf 3 = p_handler (procs d p) \<and>
    (\<forall>k < 36. k \<noteq> 3 \<longrightarrow> word_at (mem (km d1)) tf k = word_at (mem (km d)) tf k) \<and>
    (\<forall>h2 d2 fs2. hart_ok h2 \<and> c_proc (mycpu h2) = Some p \<and> kmem_inv (e_layout E) (km d2) fs2 \<and>
        a \<notin> set fs2 \<and> tf \<notin> set fs2 \<and> p_trapframe (procs d2 p) = tf \<and>
        p_alarm_tf (procs d2 p) = a \<and>
        (\<forall>k < 36. word_at (mem (km d2)) a k = word_at (mem (km d1)) a k) \<longrightarrow>
      (\<exists>h3 d3 satp. sys_sigreturn E (h2, d2 :: 'a kd_scheme) = Inr (Jumped satp, (h3, d3)) \<and>
        r_sepc d3 = word_at (mem (km d)) tf 3 \<and>
        (\<forall>k. 5 \<le> k \<and> k < 36 \<longrightarrow> word_at (mem (km d3)) tf k = word_at (mem (km d)) tf k) \<and>
        \<not> p_in_alarm_handler (procs d3 p) \<and> kmem_inv (e_layout E) (km d3) (a # fs2)))"
proof -
  let ?L = "e_layout E"
  have a: "is_page ?L a" "a \<noteq> 0" "a \<noteq> tf" using kmem.pool_good[OF assms(2), of a] assms(5) by auto
  obtain d1 where d1: "alarm_tick p (h, d) = Inr ((), (h, d1))"
      "procs d1 = (procs d)(p := (procs d p)\<lparr>p_cur_ticks := 0, p_in_alarm_handler := True, p_alarm_tf := a\<rparr>)"
      "kmem_inv ?L (km d1) fs" "\<forall>k < 36. word_at (mem (km d1)) a k = word_at (mem (km d)) tf k"
      "\<forall>k < 512. word_at (mem (km d1)) tf k = (if k = 3 then p_handler (procs d p) else word_at (mem (km d)) tf k)"
    using alarm_tick_eq[of d p ?L a fs h] assms by auto
  have ret: "\<exists>h3 d3 satp. sys_sigreturn E (h2, d2) = Inr (Jumped satp, (h3, d3)) \<and>
        r_sepc d3 = word_at (mem (km d)) tf 3 \<and>
        (\<forall>k. 5 \<le> k \<and> k < 36 \<longrightarrow> word_at (mem (km d3)) tf k = word_at (mem (km d)) tf k) \<and>
        \<not> p_in_alarm_handler (procs d3 p) \<and> kmem_inv ?L (km d3) (a # fs2)"
    if h2: "hart_ok h2" "c_proc (mycpu h2) = Some p" "kmem_inv ?L (km d2) fs2" "a \<notin> set fs2" "tf \<notin> set fs2"
      "p_trapframe (procs d2 p) = tf" "p_alarm_tf (procs d2 p) = a"
      "\<forall>k < 36. word_at (mem (km d2)) a k = word_at (mem (km d1)) a k" for h2 fs2 and d2 :: "'a kd_scheme"
    using sys_sigreturn_eq[of h2 p E d2 fs2 a] h2 a assms(3,4) d1(4) by force
  show ?thesis
    by (rule exI[of _ d1]) (use d1 ret assms(6) in auto)
qed

definition alarm_demo :: kd where
  "alarm_demo = upd_proc 0 (\<lambda>x. x\<lparr>p_ticks := 2, p_cur_ticks := 1, p_handler := 0x40, p_in_alarm_handler := False,
     p_trapframe := 0x80021000\<rparr>) demo_kd"

theorem alarm_roundtrip_witness:
  "\<exists>d1. alarm_tick 0 (ops_hst, alarm_demo) = Inr ((), (ops_hst, d1)) \<and> word_at (mem (km d1)) 0x80021000 3 = 0x40 \<and>
    (\<exists>h3 d3 satp. sys_sigreturn demo_env (ops_hst, d1) = Inr (Jumped satp, (h3, d3)) \<and>
      r_sepc d3 = word_at (mem (km alarm_demo)) 0x80021000 3)"
proof -
  let ?E = "demo_env :: kd env"
  have L: "e_layout ?E = demo_layout" by (simp add: demo_env_def)
  have d: "alarm_due (procs alarm_demo 0)" "p_handler (procs alarm_demo 0) = 0x40" "p_trapframe (procs alarm_demo 0) = 0x80021000"
    by (simp_all add: alarm_demo_def alarm_due_def ops_procs)
  have pg: "is_page (e_layout ?E) 0x80021000"
    by (simp add: L is_page_def aligned_def demo_layout_def PHYSTOP_def KERNBASE_def)
  have km: "kmem_inv (e_layout ?E) (km alarm_demo) [0x80030000]" using demo_free by (simp add: L alarm_demo_def upd_proc_def)
  have ne: "0x80021000 \<noteq> (0 :: uint64)" "0x80021000 \<notin> set [0x80030000 :: uint64]" by simp_all
  from alarm_roundtrip[OF d(1) km pg ne d(3), of ops_hst] show ?thesis
  proof (elim exE conjE, goal_cases)
    case (1 d1)
    have "hart_ok ops_hst \<and> c_proc (mycpu ops_hst) = Some 0" using ops_hst_ok by simp
    with 1(3,4,5) 1(8)[THEN spec, THEN spec, THEN spec, of ops_hst d1 "[]"]
    have "\<exists>h3 d3 satp. sys_sigreturn ?E (ops_hst, d1) = Inr (Jumped satp, (h3, d3)) \<and>
      r_sepc d3 = word_at (mem (km alarm_demo)) 0x80021000 3" by auto
    with 1(1,6) d(2) show ?case by auto
  qed
qed

end
