(* ===== verification/SyscallProofs.thy ===== *)
theory SyscallProofs
  imports AlarmProofs
begin

text \<open>What a process sees of the counting of its system calls, and of a call that does not exist.\<close>

lemma TF_arg_words: "TF_a0 = of_nat (8 * 14)" "TF_a7 = of_nat (8 * 21)"
  by (simp_all add: TF_a0_def TF_a7_def)

lemma tf_get_eq: "p_trapframe (procs d p) \<noteq> 0 \<Longrightarrow> tf_get p (of_nat (8 * k)) (h, d) = Inr (word_at (mem (km d)) (p_trapframe (procs d p)) k, (h, d))"
  by (simp add: tf_get_def word_at_def)

lemma tf_set_eq: "p_trapframe (procs d p) \<noteq> 0 \<Longrightarrow>
  tf_set p (of_nat (8 * k)) v (h, d) = Inr ((), (h, d\<lparr>km := (km d)\<lparr>mem := set_word (p_trapframe (procs d p)) k v (mem (km d))\<rparr>\<rparr>))"
  by (simp add: tf_set_def set_word_def memU_def)

lemma AND_push_bit: "(m AND push_bit i 1 \<noteq> 0) = bit m i" if "i < 32" for m :: cint
proof
  assume "m AND push_bit i 1 \<noteq> 0"
  then obtain j where "bit (m AND push_bit i 1) j" by (auto simp: bit_eq_iff)
  then show "bit m i" by (auto simp: bit_simps)
next
  assume "bit m i"
  with that have "bit (m AND push_bit i 1) i" by (simp add: bit_simps)
  then show "m AND push_bit i 1 \<noteq> 0" by auto
qed

lemma find_least_bit:
  fixes m :: cint
  assumes "List.find (\<lambda>i. m AND push_bit i 1 \<noteq> 0) [0..<32] = r"
  shows "case r of None \<Rightarrow> m = 0 | Some k \<Rightarrow> k < 32 \<and> bit m k \<and> (\<forall>j < k. \<not> bit m j)"
proof (cases r)
  case None
  have "m = 0"
  proof (rule bit_eqI)
    fix k
    show "bit m k = bit 0 k"
      using assms None AND_push_bit[of k m] bit_imp_le_length[of m k] by (auto simp: find_None_iff)
  qed
  with None show ?thesis by simp
next
  case (Some k)
  with assms obtain i where "i < 32" "k = i" "m AND push_bit k 1 \<noteq> 0" "\<forall>j < i. \<not> m AND push_bit j 1 \<noteq> 0"
    by (auto simp: find_Some_iff)
  with Some AND_push_bit[of k m] AND_push_bit[of _ m] show ?thesis by auto
qed

lemmas SYS_defs = SYS_fork_def SYS_exit_def SYS_wait_def SYS_pipe_def SYS_read_def
  SYS_kill_def SYS_exec_def SYS_fstat_def SYS_chdir_def SYS_dup_def
  SYS_getpid_def SYS_sbrk_def SYS_sleep_def SYS_uptime_def SYS_open_def
  SYS_write_def SYS_mknod_def SYS_unlink_def SYS_link_def SYS_mkdir_def
  SYS_close_def SYS_waitx_def SYS_getSysCount_def SYS_sigalarm_def SYS_sigreturn_def
  SYS_settickets_def

text \<open>The state after \<open>p->syscall_count[n]++\<close>, and the returned value stored in \<open>a0\<close>.\<close>

definition counted :: "nat \<Rightarrow> nat \<Rightarrow> 'a pst_scheme \<Rightarrow> 'a pst_scheme" where
  "counted p n d = upd_proc p (\<lambda>x. x\<lparr>p_syscall_count := (p_syscall_count x)(n := p_syscall_count x n + 1)\<rparr>) d"

definition with_a0 :: "nat \<Rightarrow> uint64 \<Rightarrow> 'a vst_scheme \<Rightarrow> 'a vst_scheme" where
  "with_a0 p v d = d\<lparr>km := (km d)\<lparr>mem := set_word (p_trapframe (procs d p)) 14 v (mem (km d))\<rparr>\<rparr>"

lemma syscall_getSysCount_eq:
  fixes d :: "'a kd_scheme"
  assumes "hart_ok h" and "c_proc (mycpu h) = Some p" and "p_trapframe (procs d p) = tf" and "tf \<noteq> 0"
    and "word_at (mem (km d)) tf 21 = 23" and "word_at (mem (km d)) tf 14 = a0"
  shows "syscall E (h, d) = Inr (None, (settle h, with_a0 p
    (case List.find (\<lambda>i. (ucast a0 :: cint) AND push_bit i 1 \<noteq> 0) [0..<32] of
       None \<Rightarrow> - 1 | Some k \<Rightarrow> scast (p_syscall_count (procs d p) k + (if k = 23 then 1 else 0))) (counted p 23 d)))"
proof -
  have f: "k < 32" if "List.find (\<lambda>i. (ucast a0 :: cint) AND push_bit i 1 \<noteq> 0) [0..<32] = Some k" for k
    using find_Some_mem[OF that] by simp
  have h: "syscalls E 23 = Some sys_getSysCount" unfolding syscalls_def SYS_defs by simp
  note hart = curS_eq[OF assms(1,2)] curS_eq[of "settle h" p] assms(1,2)
  have cc: "count_call SYS_getSysCount (settle h, d) = Inr ((), (settle h, counted p 23 d))"
    by (simp add: count_call_def hart updP_def counted_def SYS_getSysCount_def)
  have arg: "argint 0 (settle h, counted p 23 d) = Inr (ucast a0, (settle h, counted p 23 d))"
    using tf_get_eq[of "counted p 23 d" p 14 "settle h"] assms(3,4,6)
    by (simp add: argint_def argraw_def hart counted_def TF_a0_def upd_proc_def)
  let ?f = "List.find (\<lambda>i. (ucast a0 :: cint) AND push_bit i 1 \<noteq> 0) [0..<32]"
  let ?v = "case ?f of None \<Rightarrow> - 1 | Some k \<Rightarrow> scast (p_syscall_count (procs d p) k + (if k = 23 then 1 else 0))"
  have n: "p_syscall_count (procs (counted p 23 d) p) k = p_syscall_count (procs d p) k + (if k = 23 then 1 else 0)" for k
    by (simp add: counted_def)
  have call: "sys_getSysCount (settle h, d) = Inr (Ret ?v, (settle h, counted p 23 d))"
    using f by (auto simp: sys_getSysCount_def cc arg hart retI_def n split: option.split)
  have a7: "tf_get p TF_a7 (settle h, d) = Inr (23, (settle h, d))"
    using tf_get_eq[of d p 21 "settle h"] assms(3-5) by (simp add: TF_arg_words)
  have "tf_set p TF_a0 ?v (settle h, counted p 23 d) = Inr ((), (settle h, with_a0 p ?v (counted p 23 d)))"
    using tf_set_eq[of "counted p 23 d" p 14 ?v "settle h"] assms(3,4)
    by (simp add: TF_arg_words with_a0_def counted_def)
  then show ?thesis by (simp add: syscall_def hart a7 NELEM_syscalls_def h call Let_def)
qed

text \<open>
  C21. \<open>getSysCount(mask)\<close> returns, in \<open>a0\<close>, how often the caller has made the system call numbered by the least bit of
  \<open>mask\<close>, this call included, or -1 for an empty mask. A call with a number that no system call has returns -1 and
  prints a message, and changes nothing else.
\<close>

theorem syscall_counting:
  fixes d :: "'a kd_scheme"
  assumes "hart_ok h" and "c_proc (mycpu h) = Some p" and "p_trapframe (procs d p) = tf" and "tf \<noteq> 0"
  defines "num \<equiv> ucast (word_at (mem (km d)) tf 21)" and "which \<equiv> ucast (word_at (mem (km d)) tf 14)"
  shows "(word_at (mem (km d)) tf 21 = of_nat SYS_getSysCount \<longrightarrow>
      (if which = (0 :: cint) then syscall E (h, d) = Inr (None, (settle h, with_a0 p (- 1) (counted p SYS_getSysCount d)))
       else \<exists>k < 32. bit which k \<and> (\<forall>j < k. \<not> bit which j) \<and>
         syscall E (h, d) = Inr (None, (settle h, with_a0 p
           (scast (p_syscall_count (procs (counted p SYS_getSysCount d) p) k)) (counted p SYS_getSysCount d))))) \<and>
    (sint (num :: cint) \<le> 0 \<or> 26 < sint num \<longrightarrow>
      syscall E (h, d) = Inr (None, (settle h, with_a0 p (- 1) (kprintf ''%d %s: unknown sys call %d\<newline>''
        [PInt (p_pid (procs d p)), PStr (p_name (procs d p)), PInt num] d))))"
proof (intro conjI impI)
  assume "word_at (mem (km d)) tf 21 = of_nat SYS_getSysCount"
  then have a7: "word_at (mem (km d)) tf 21 = 23" by (simp add: SYS_getSysCount_def)
  let ?f = "List.find (\<lambda>i. which AND push_bit i 1 \<noteq> 0) [0..<32]"
  have n: "p_syscall_count (procs (counted p 23 d) p) k = p_syscall_count (procs d p) k + (if k = 23 then 1 else 0)" for k
    by (simp add: counted_def)
  note eq = syscall_getSysCount_eq[OF assms(1-4) a7 refl, of E, folded which_def]
  show "if which = 0 then syscall E (h, d) = Inr (None, (settle h, with_a0 p (- 1) (counted p SYS_getSysCount d)))
       else \<exists>k < 32. bit which k \<and> (\<forall>j < k. \<not> bit which j) \<and>
         syscall E (h, d) = Inr (None, (settle h, with_a0 p
           (scast (p_syscall_count (procs (counted p SYS_getSysCount d) p) k)) (counted p SYS_getSysCount d)))"
  proof (cases ?f)
    case None
    with find_least_bit[OF None] eq show ?thesis by (simp only: option.case SYS_getSysCount_def if_True simp_thms)
  next
    case (Some k)
    from find_least_bit[OF Some] have k: "k < 32 \<and> bit which k \<and> (\<forall>j < k. \<not> bit which j)" by simp
    then have "which \<noteq> 0" by auto
    with k eq Some show ?thesis by (simp only: option.case SYS_getSysCount_def if_False n) blast
  qed
next
  assume u: "sint num \<le> 0 \<or> 26 < sint num"
  have "\<not> (0 < sint num \<and> unat num < NELEM_syscalls)"
  proof
    assume n: "0 < sint num \<and> unat num < NELEM_syscalls"
    then have "sint num = int (unat num)" using sint_nonneg_unat[of num] by linarith
    with u n show False unfolding NELEM_syscalls_def by linarith
  qed
  moreover have "tf_get p TF_a7 (settle h, d) = Inr (word_at (mem (km d)) tf 21, (settle h, d))"
    using tf_get_eq[of d p 21 "settle h"] assms(3,4) by (simp add: TF_arg_words)
  moreover have "tf_set p TF_a0 (- 1) (settle h, kprintf f a d) = Inr ((), (settle h, with_a0 p (- 1) (kprintf f a d)))" for f a
    using tf_set_eq[of "kprintf f a d" p 14 "- 1" "settle h"] assms(3,4) by (simp add: TF_arg_words with_a0_def kprintf_def)
  ultimately show "syscall E (h, d) = Inr (None, (settle h, with_a0 p (- 1) (kprintf ''%d %s: unknown sys call %d\<newline>''
        [PInt (p_pid (procs d p)), PStr (p_name (procs d p)), PInt num] d)))"
    by (auto simp: syscall_def curS_eq assms(1,2) printfS_def num_def Let_def)
qed

definition syscall_demo :: "uint64 \<Rightarrow> uint64 \<Rightarrow> kd" where
  "syscall_demo a7 a0 = upd_proc 0 (\<lambda>x. x\<lparr>p_trapframe := 0x80021000\<rparr>)
     (demo_kd\<lparr>km := demo_mst\<lparr>mem := set_word 0x80021000 21 a7 (set_word 0x80021000 14 a0 (\<lambda>_. 0))\<rparr>\<rparr>)"

theorem syscall_counting_witness:
  "syscall demo_env (ops_hst, syscall_demo 23 0x800000) =
     Inr (None, (settle ops_hst, with_a0 0 1 (counted 0 23 (syscall_demo 23 0x800000)))) \<and>
   (\<exists>d'. syscall demo_env (ops_hst, syscall_demo 99 0) = Inr (None, (settle ops_hst, with_a0 0 (- 1) d')))"
proof -
  have al: "aligned 12 (0x80021000 :: uint64)" by (simp add: aligned_def)
  have w: "word_at (mem (km (syscall_demo a b))) 0x80021000 21 = a" "word_at (mem (km (syscall_demo a b))) 0x80021000 14 = b" for a b
    using word_at_set_word[OF al] by (simp_all add: syscall_demo_def upd_proc_def)
  have t: "p_trapframe (procs (syscall_demo a b) 0) = 0x80021000" "p_syscall_count (procs (syscall_demo a b) 0) k = 0" for a b k
    by (simp_all add: syscall_demo_def ops_pst_def enqueued_def pst0_def proc0_def)
  have ne: "(0x80021000 :: uint64) \<noteq> 0" by simp
  note call = syscall_counting[OF ops_hst_ok(1,3) t(1) ne, of _ _ demo_env, unfolded w]
  have b: "(bit (0x800000 :: int) k) = (k = 23)" for k
  proof -
    have "(0x800000 :: int) = 2 ^ 23" by simp
    then show ?thesis by (simp only: bit_exp_iff) auto
  qed
  show ?thesis using call[of 23 "0x800000"] call[of 99 0] by (auto simp: SYS_getSysCount_def b counted_def t)
qed

end
