(* ===== verification/User.thy ===== *)
theory User
  imports Block
begin

text \<open>
  User programs: what a process sees of the kernel, \<open>user/user.h\<close>.

  A program runs against an operating system, which is a parameter: given all system calls the process has made, it says
  what the last one returns and which bytes it stores at the pointer the process passed. A run of a program yields a value,
  or ends in \<open>exit\<close>, in a successful \<open>exec\<close>, in a fault, or without fuel, and has the list of calls it made. After \<open>fork\<close> the
  run goes on as the parent or as the child, as the operating system says.
\<close>

section \<open>System calls\<close>

datatype ucall =
    Ufork | Uexit cint | Uwait | Upipe
  | Uwrite cint "uint8 list" | Uread cint cint | Uclose cint | Ukill cint
  | Uexec "uint8 list" "uint8 list list" | Uopen "uint8 list" cint | Umknod "uint8 list" cint cint
  | Uunlink "uint8 list" | Ufstat cint | Ulink "uint8 list" "uint8 list" | Umkdir "uint8 list" | Uchdir "uint8 list"
  | Udup cint | Ugetpid | Usbrk cint | Usleep cint | Uuptime | Uwaitx
  | UgetSysCount cint | Usigalarm cint uint64 | Usigreturn | Usettickets cint

type_synonym os = "ucall list \<Rightarrow> uint64 \<times> uint8 list"

section \<open>Programs\<close>

datatype 'a ures = Val 'a | Exited cint | Replaced | Faulted | Starved

type_synonym 'a uprog = "os \<Rightarrow> ucall list \<Rightarrow> 'a ures \<times> ucall list"

definition retU :: "'a \<Rightarrow> 'a uprog" where
  "retU x S h = (Val x, h)"

definition bindU :: "'a uprog \<Rightarrow> ('a \<Rightarrow> 'b uprog) \<Rightarrow> 'b uprog" where
  "bindU m f S h = (case m S h of
       (Val x, h) \<Rightarrow> f x S h
     | (Exited n, h) \<Rightarrow> (Exited n, h)
     | (Replaced, h) \<Rightarrow> (Replaced, h)
     | (Faulted, h) \<Rightarrow> (Faulted, h)
     | (Starved, h) \<Rightarrow> (Starved, h))"

definition thenU :: "'a uprog \<Rightarrow> 'b uprog \<Rightarrow> 'b uprog" where
  "thenU m n = bindU m (\<lambda>_. n)"

definition whenU :: "bool \<Rightarrow> unit uprog \<Rightarrow> unit uprog" where
  "whenU c m = (if c then m else retU ())"

definition faultU :: "'a uprog" where
  "faultU S h = (Faulted, h)"

definition starveU :: "'a uprog" where
  "starveU S h = (Starved, h)"

primrec forU :: "'a list \<Rightarrow> ('a \<Rightarrow> unit uprog) \<Rightarrow> unit uprog" where
  "forU [] f = retU ()"
| "forU (x # xs) f = thenU (f x) (forU xs f)"

text \<open>A system call, with the bytes it stores, or just its result as an \<open>int\<close>.\<close>

definition callU :: "ucall \<Rightarrow> (uint64 \<times> uint8 list) uprog" where
  "callU c S h = (Val (S (h @ [c])), h @ [c])"

definition sysU :: "ucall \<Rightarrow> cint uprog" where
  "sysU c = bindU (callU c) (\<lambda>(r, _). retU (ucast r))"

definition exitU :: "cint \<Rightarrow> 'a uprog" where
  "exitU n S h = (Exited n, h @ [Uexit n])"

definition execU :: "uint8 list \<Rightarrow> uint8 list list \<Rightarrow> unit uprog" where
  "execU path argv S h =
     (if (ucast (fst (S (h @ [Uexec path argv]))) :: cint) = - 1 then (Val (), h @ [Uexec path argv])
      else (Replaced, h @ [Uexec path argv]))"

definition readU :: "cint \<Rightarrow> cint \<Rightarrow> (cint \<times> uint8 list) uprog" where
  "readU fd n = bindU (callU (Uread fd n)) (\<lambda>(r, bs). retU (ucast r, bs))"

lemma uprog_apply [simp]:
  "retU x S h = (Val x, h)" "faultU S h = (Faulted, h)" "starveU S h = (Starved, h)"
  "callU c S h = (Val (S (h @ [c])), h @ [c])" "exitU n S h = (Exited n, h @ [Uexit n])"
  by (simp_all add: retU_def faultU_def starveU_def callU_def exitU_def)

lemma bindU_simps [simp]:
  "m S h = (Val x, h') \<Longrightarrow> bindU m f S h = f x S h'"
  "m S h = (Exited n, h') \<Longrightarrow> bindU m f S h = (Exited n, h')"
  "m S h = (Replaced, h') \<Longrightarrow> bindU m f S h = (Replaced, h')"
  "m S h = (Faulted, h') \<Longrightarrow> bindU m f S h = (Faulted, h')"
  "m S h = (Starved, h') \<Longrightarrow> bindU m f S h = (Starved, h')"
  by (simp_all add: bindU_def)

lemma thenU_simps [simp]:
  "m S h = (Val x, h') \<Longrightarrow> thenU m n S h = n S h'"
  "m S h = (Exited k, h') \<Longrightarrow> thenU m n S h = (Exited k, h')"
  by (simp_all add: thenU_def)

lemma whenU_simps [simp]: "whenU True m = m" "whenU False m = retU ()"
  by (simp_all add: whenU_def)

lemma sysU_apply [simp]: "sysU c S h = (Val (ucast (fst (S (h @ [c])))), h @ [c])"
  by (simp add: sysU_def split: prod.split)

lemma readU_apply [simp]: "readU fd n S h = (Val (ucast (fst (S (h @ [Uread fd n]))), snd (S (h @ [Uread fd n]))), h @ [Uread fd n])"
  by (simp add: readU_def split: prod.split)

end
