(* ===== verification/Ulib.thy ===== *)
theory Ulib
  imports User KString
begin

text \<open>
  The user library, \<open>user/ulib.c\<close>. A string is the list of its bytes before the terminating NUL, and a pointer into it
  is the rest of the list; the functions on memory work on bytes at addresses.
\<close>

section \<open>Strings\<close>

text \<open>\<open>*s\<close>: past the last byte is the NUL.\<close>

fun deref :: "uint8 list \<Rightarrow> uint8" where
  "deref [] = 0"
| "deref (c # s) = c"

text \<open>The bytes \<open>strcpy\<close> stores, the NUL included.\<close>

fun strcpy :: "uint8 list \<Rightarrow> uint8 list" where
  "strcpy [] = [0]"
| "strcpy (c # t) = (if c = 0 then [0] else c # strcpy t)"

fun strcmp :: "uint8 list \<Rightarrow> uint8 list \<Rightarrow> cint" where
  "strcmp (c # p) q = (if c \<noteq> 0 \<and> c = deref q then strcmp p (tl q) else ucast c - ucast (deref q))"
| "strcmp [] q = 0 - ucast (deref q)"

fun strlen_upto :: "uint \<Rightarrow> uint8 list \<Rightarrow> uint" where
  "strlen_upto n [] = n"
| "strlen_upto n (c # s) = (if c = 0 then n else strlen_upto (n + 1) s)"

definition strlen :: "uint8 list \<Rightarrow> uint" where
  "strlen s = strlen_upto 0 s"

text \<open>A pointer to the first \<open>c\<close>, or null.\<close>

fun strchr :: "uint8 list \<Rightarrow> uint8 \<Rightarrow> uint8 list option" where
  "strchr [] c = None"
| "strchr (x # s) c = (if x = 0 then None else if x = c then Some (x # s) else strchr s c)"

text \<open>The value wraps as \<open>int\<close>.\<close>

fun atoi_upto :: "cint \<Rightarrow> uint8 list \<Rightarrow> cint" where
  "atoi_upto n [] = n"
| "atoi_upto n (c # s) = (if 0x30 \<le> c \<and> c \<le> 0x39 then atoi_upto (n * 10 + ucast c - 0x30) s else n)"

definition atoi :: "uint8 list \<Rightarrow> cint" where
  "atoi s = atoi_upto 0 s"

section \<open>Memory\<close>

definition memset :: "bytemem \<Rightarrow> uint64 \<Rightarrow> cint \<Rightarrow> uint \<Rightarrow> bytemem" where
  "memset m dst c n = fold (\<lambda>i m. m(dst + of_nat i := ucast c)) [0..<unat n] m"

definition memmove :: "bytemem \<Rightarrow> uint64 \<Rightarrow> uint64 \<Rightarrow> cint \<Rightarrow> bytemem" where
  "memmove m dst src n =
     (let k = nat (sint n) in
      if dst < src then copy_up k m dst src
      else copy_down k m (dst + scast n) (src + scast n))"

primrec memcmp_upto :: "nat \<Rightarrow> bytemem \<Rightarrow> uint64 \<Rightarrow> uint64 \<Rightarrow> cint" where
  "memcmp_upto 0 m p1 p2 = 0"
| "memcmp_upto (Suc n) m p1 p2 =
     (if m p1 \<noteq> m p2 then ucast (m p1) - ucast (m p2) else memcmp_upto n m (p1 + 1) (p2 + 1))"

definition memcmp :: "bytemem \<Rightarrow> uint64 \<Rightarrow> uint64 \<Rightarrow> uint \<Rightarrow> cint" where
  "memcmp m s1 s2 n = memcmp_upto (unat n) m s1 s2"

definition memcpy :: "bytemem \<Rightarrow> uint64 \<Rightarrow> uint64 \<Rightarrow> uint \<Rightarrow> bytemem" where
  "memcpy m dst src n = memmove m dst src n"

section \<open>Input and files\<close>

text \<open>The bytes read into the buffer; at most \<open>max - 1\<close> rounds.\<close>

primrec gets_loop :: "nat \<Rightarrow> uint8 list uprog" where
  "gets_loop 0 = retU []"
| "gets_loop (Suc n) =
     bindU (readU 0 1) (\<lambda>(cc, bs).
     if sint cc < 1 then retU []
     else case bs of
         [] \<Rightarrow> faultU
       | c # _ \<Rightarrow>
           if c = 0x0a \<or> c = 0x0d then retU [c]
           else bindU (gets_loop n) (\<lambda>r. retU (c # r)))"

definition gets :: "cint \<Rightarrow> uint8 list uprog" where
  "gets max' = gets_loop (nat (sint max' - 1))"

text \<open>The result and the bytes of the \<open>struct stat\<close>.\<close>

definition stat :: "uint8 list \<Rightarrow> (cint \<times> uint8 list) uprog" where
  "stat n =
     bindU (sysU (Uopen n 0)) (\<lambda>fd.
     if sint fd < 0 then retU (- 1, [])
     else
       bindU (callU (Ufstat fd)) (\<lambda>(r, st).
       thenU (sysU (Uclose fd)) (
       retU (ucast r, st))))"

end
