(* ===== verification/Uprintf.thy ===== *)
theory Uprintf
  imports Ulib Digits
begin

text \<open>
  Formatted output of user programs, \<open>user/printf.c\<close>. Every character is a system call of its own. An argument of another
  type than the format asks for is a fault; a null string is the pointer 0.
\<close>

datatype uarg = AInt cint | ALong uint64 | AStr "uint8 list" | APtr uint64

definition digits :: "uint8 list" where
  "digits = bytes_of ''0123456789ABCDEF''"

definition putc :: "cint \<Rightarrow> uint8 \<Rightarrow> unit uprog" where
  "putc fd c = thenU (sysU (Uwrite fd [c])) (retU ())"

definition printint :: "cint \<Rightarrow> cint \<Rightarrow> uint \<Rightarrow> bool \<Rightarrow> unit uprog" where
  "printint fd xx base sign =
     (let neg = (sign \<and> sint xx < 0);
          x = (if neg then - xx else xx);
          buf = digits_of digits base x @ (if neg then [0x2d] else [])
      in forU (rev buf) (putc fd))"

definition printptr :: "cint \<Rightarrow> uint64 \<Rightarrow> unit uprog" where
  "printptr fd x =
     thenU (putc fd 0x30) (
     thenU (putc fd 0x78) (
     forU [0..<16] (\<lambda>i. putc fd (digits ! unat (drop_bit 60 (push_bit (4 * i) x))))))"

text \<open>What a conversion prints, with the arguments that are left. \<open>%l\<close> takes a \<open>uint64\<close> and prints its low 32 bits.\<close>

definition conversion :: "cint \<Rightarrow> uint8 \<Rightarrow> uarg list \<Rightarrow> uarg list uprog" where
  "conversion fd c ap =
     (if c = 0x64 then (case ap of AInt i # ap \<Rightarrow> thenU (printint fd i 10 True) (retU ap) | _ \<Rightarrow> faultU)
      else if c = 0x6c then (case ap of ALong i # ap \<Rightarrow> thenU (printint fd (ucast i) 10 False) (retU ap) | _ \<Rightarrow> faultU)
      else if c = 0x78 then (case ap of AInt i # ap \<Rightarrow> thenU (printint fd i 16 False) (retU ap) | _ \<Rightarrow> faultU)
      else if c = 0x70 then (case ap of APtr i # ap \<Rightarrow> thenU (printptr fd i) (retU ap) | _ \<Rightarrow> faultU)
      else if c = 0x73 then (case ap of
          AStr s # ap \<Rightarrow> thenU (forU s (putc fd)) (retU ap)
        | APtr p # ap \<Rightarrow> if p = 0 then thenU (forU (bytes_of ''(null)'') (putc fd)) (retU ap) else faultU
        | _ \<Rightarrow> faultU)
      else if c = 0x63 then (case ap of AInt i # ap \<Rightarrow> thenU (putc fd (ucast i)) (retU ap) | _ \<Rightarrow> faultU)
      else if c = 0x25 then thenU (putc fd c) (retU ap)
      else thenU (putc fd 0x25) (thenU (putc fd c) (retU ap)))"

text \<open>The loop over the format; \<open>percent\<close> is \<open>state == '%'\<close>.\<close>

fun vprintf_loop :: "cint \<Rightarrow> bool \<Rightarrow> uint8 list \<Rightarrow> uarg list \<Rightarrow> unit uprog" where
  "vprintf_loop fd percent [] ap = retU ()"
| "vprintf_loop fd percent (c # fmt) ap =
     (if \<not> percent then
        if c = 0x25 then vprintf_loop fd True fmt ap
        else thenU (putc fd c) (vprintf_loop fd False fmt ap)
      else bindU (conversion fd c ap) (vprintf_loop fd False fmt))"

definition vprintf :: "cint \<Rightarrow> uint8 list \<Rightarrow> uarg list \<Rightarrow> unit uprog" where
  "vprintf fd fmt ap = vprintf_loop fd False fmt ap"

definition fprintf :: "cint \<Rightarrow> string \<Rightarrow> uarg list \<Rightarrow> unit uprog" where
  "fprintf fd fmt ap = vprintf fd (bytes_of fmt) ap"

definition printf :: "string \<Rightarrow> uarg list \<Rightarrow> unit uprog" where
  "printf fmt ap = vprintf 1 (bytes_of fmt) ap"

section \<open>What is written\<close>

text \<open>The bytes a run wrote to a file descriptor.\<close>

definition written :: "cint \<Rightarrow> ucall list \<Rightarrow> uint8 list" where
  "written fd h = concat (map (\<lambda>c. case c of Uwrite f bs \<Rightarrow> if f = fd then bs else [] | _ \<Rightarrow> []) h)"

lemma written_simps [simp]: "written fd [] = []" "written fd (h @ k) = written fd h @ written fd k"
  "written fd (c # h) = (case c of Uwrite f bs \<Rightarrow> if f = fd then bs else [] | _ \<Rightarrow> []) @ written fd h"
  by (simp_all add: written_def)

abbreviation puts_calls :: "cint \<Rightarrow> uint8 list \<Rightarrow> ucall list" where
  "puts_calls fd bs \<equiv> map (\<lambda>b. Uwrite fd [b]) bs"

lemma putc_eq [simp]: "putc fd c S h = (Val (), h @ [Uwrite fd [c]])"
  by (simp add: putc_def)

lemma forU_putc: "forU bs (putc fd) S h = (Val (), h @ puts_calls fd bs)"
  by (induction bs arbitrary: h) simp_all

lemma written_puts [simp]: "written fd (puts_calls f bs) = (if f = fd then bs else [])"
  by (induction bs) (simp_all add: written_def)

lemma udigits_table: "digit_table digits"
  unfolding digits_def bytes_of_def by code_simp

lemma printint_numeral: "printint fd xx base sign S h = (Val (), h @ puts_calls fd (numeral_of digits xx base sign))"
  by (simp add: printint_def numeral_of_def Let_def forU_putc)

text \<open>The text a format stands for, as far as its conversions are those the library knows.\<close>

fun rendered :: "uint8 list \<Rightarrow> uarg list \<Rightarrow> uint8 list option" where
  "rendered [] ap = Some []"
| "rendered [c] ap = (if c = 0x25 then Some [] else Some [c])"
| "rendered (c # k # fmt) ap =
     (if c \<noteq> 0x25 then map_option ((#) c) (rendered (k # fmt) ap)
      else if k = 0x64 then (case ap of AInt i # ap \<Rightarrow> map_option ((@) (numeral_of digits i 10 True)) (rendered fmt ap) | _ \<Rightarrow> None)
      else if k = 0x73 then (case ap of AStr s # ap \<Rightarrow> map_option ((@) s) (rendered fmt ap) | _ \<Rightarrow> None)
      else if k = 0x25 then map_option ((#) 0x25) (rendered fmt ap)
      else None)"

lemma vprintf_rendered:
  "rendered fmt ap = Some t \<Longrightarrow> vprintf_loop fd False fmt ap S h = (Val (), h @ puts_calls fd t)"
proof (induction fmt ap arbitrary: t h rule: rendered.induct)
  case (3 c k fmt ap)
  show ?case
  proof (cases "c = 0x25")
    case True
    with 3 show ?thesis
      by (auto simp: conversion_def printint_numeral forU_putc split: if_splits list.splits uarg.splits)
  next
    case False
    then obtain u where u: "rendered (k # fmt) ap = Some u" "t = c # u" using "3.prems" by auto
    from "3.IH"(1)[OF False u(1), of "h @ [Uwrite fd [c]]"] u(2) False show ?thesis
      by (subst vprintf_loop.simps) (simp del: vprintf_loop.simps)
  qed
qed (auto split: if_splits)

end
