(* ===== verification/Uos.thy ===== *)
theory Uos
  imports Uprintf
begin

text \<open>
  What programs rely on of the operating system, as predicates on it: that reading a file delivers its bytes in order, in
  pieces of any size, and that what is written is taken. Also lines of a text.
\<close>

section \<open>Reading\<close>

text \<open>The bytes the calls of a run have read from a file descriptor.\<close>

definition got :: "os \<Rightarrow> cint \<Rightarrow> ucall list \<Rightarrow> uint8 list" where
  "got S fd h = concat (map (\<lambda>i. case h ! i of Uread f n \<Rightarrow> if f = fd then snd (S (take (Suc i) h)) else [] | _ \<Rightarrow> [])
     [0..<length h])"

lemma got_Nil [simp]: "got S fd [] = []"
  by (simp add: got_def)

lemma got_snoc [simp]:
  "got S fd (h @ [c]) = got S fd h @ (case c of Uread f n \<Rightarrow> if f = fd then snd (S (h @ [c])) else [] | _ \<Rightarrow> [])"
proof -
  have "map (\<lambda>i. case (h @ [c]) ! i of Uread f n \<Rightarrow> if f = fd then snd (S (take (Suc i) (h @ [c]))) else [] | _ \<Rightarrow> []) [0..<length h] =
      map (\<lambda>i. case h ! i of Uread f n \<Rightarrow> if f = fd then snd (S (take (Suc i) h)) else [] | _ \<Rightarrow> []) [0..<length h]"
    by (intro map_cong refl) (auto simp: nth_append split: ucall.split)
  then show ?thesis unfolding got_def by (simp del: map_eq_conv split: ucall.split)
qed

text \<open>
  A descriptor open on a file with the contents \<open>inp\<close>: a call of \<open>read\<close> delivers the next bytes, at least one if any are
  left and asked for.
\<close>

definition serves :: "os \<Rightarrow> cint \<Rightarrow> uint8 list \<Rightarrow> bool" where
  "serves S fd inp \<longleftrightarrow> (\<forall>h n. let rest = drop (length (got S fd h)) inp; k = length (snd (S (h @ [Uread fd n]))) in
     S (h @ [Uread fd n]) = (of_nat k, take k rest) \<and> k \<le> nat (sint n) \<and> k \<le> length rest \<and>
     (k = 0 \<longrightarrow> rest = [] \<or> sint n \<le> 0))"

lemma sint_of_nat_small: "k < 2 ^ 31 \<Longrightarrow> sint (of_nat k :: cint) = int k"
  using sint_uint_small[of "of_nat k :: cint"] by (simp add: uint_nat unat_of_nat)

lemma sint_ucast_small: "k < 2 ^ 31 \<Longrightarrow> sint (ucast (of_nat k :: uint64) :: cint) = int k"
proof -
  assume k: "k < 2 ^ 31"
  then have "unat (of_nat k :: uint64) = k" by (simp add: unat_of_nat)
  then have "(ucast (of_nat k :: uint64) :: cint) = of_nat k" by (simp add: ucast_eq uint_nat)
  with sint_of_nat_small[OF k] show ?thesis by simp
qed

lemma serves_read:
  assumes "serves S fd inp" and "rest = drop (length (got S fd h)) inp"
  obtains k where "S (h @ [Uread fd n]) = (of_nat k, take k rest)" "k \<le> nat (sint n)" "k \<le> length rest"
    "k = 0 \<longrightarrow> rest = [] \<or> sint n \<le> 0" "sint (ucast (of_nat k :: uint64) :: cint) = int k"
    "drop (length (got S fd (h @ [Uread fd n]))) inp = drop k rest"
proof -
  define k where "k = length (snd (S (h @ [Uread fd n])))"
  have k: "S (h @ [Uread fd n]) = (of_nat k, take k rest)" "k \<le> nat (sint n)" "k \<le> length rest"
      "k = 0 \<longrightarrow> rest = [] \<or> sint n \<le> 0"
    using assms unfolding serves_def k_def Let_def by blast+
  have "sint n < 2 ^ 31" using sint_less[of n] by simp
  then have "k < 2 ^ 31" using k(2) by auto
  then have "sint (ucast (of_nat k :: uint64) :: cint) = int k" by (rule sint_ucast_small)
  moreover have "drop (length (got S fd (h @ [Uread fd n]))) inp = drop k rest"
    using k(1,3) by (simp add: assms(2) add.commute)
  ultimately show ?thesis using that k by blast
qed

text \<open>A system with a given standard input, read byte by byte, that takes all that is written.\<close>

definition reads :: "ucall list \<Rightarrow> nat" where
  "reads h = length (filter (\<lambda>c. case c of Uread f n \<Rightarrow> f = 0 \<and> 0 < sint n | _ \<Rightarrow> False) h)"

definition byte_os :: "uint8 list \<Rightarrow> os" where
  "byte_os inp h = (case last h of
       Uread f n \<Rightarrow>
         if f = 0 \<and> 0 < sint n \<and> reads (butlast h) < length inp then (1, [inp ! reads (butlast h)]) else (0, [])
     | Uwrite f bs \<Rightarrow> (of_nat (length bs), [])
     | _ \<Rightarrow> (0, []))"

lemma got_byte_os: "got (byte_os inp) 0 h = take (reads h) inp"
proof (induction h rule: rev_induct)
  case (snoc c h)
  then show ?case by (cases c) (auto simp: byte_os_def reads_def take_Suc_conv_app_nth)
qed (simp add: reads_def)

lemma byte_os_serves: "serves (byte_os inp) 0 inp"
proof -
  have "take (Suc 0) (drop i inp) = [inp ! i]" if "i < length inp" for i
    using that by (simp add: take_Suc hd_drop_conv_nth)
  then show ?thesis unfolding serves_def Let_def got_byte_os byte_os_def by auto
qed

section \<open>Lines\<close>

text \<open>The complete lines of a text, without their newlines, and what is left after the last newline.\<close>

fun lines_of :: "uint8 list \<Rightarrow> uint8 list list \<times> uint8 list" where
  "lines_of [] = ([], [])"
| "lines_of (c # s) =
     (case lines_of s of (ls, r) \<Rightarrow>
        if c = 0x0a then ([] # ls, r)
        else case ls of [] \<Rightarrow> ([], c # r) | l # ls \<Rightarrow> ((c # l) # ls, r))"

lemma lines_of_plain: "0x0a \<notin> set s \<Longrightarrow> lines_of s = ([], s)"
  by (induction s) auto

lemma lines_of_line: "0x0a \<notin> set l \<Longrightarrow> lines_of (l @ 0x0a # s) = (case lines_of s of (ls, r) \<Rightarrow> (l # ls, r))"
  by (induction l) (auto split: prod.splits)

lemma lines_of_rest: "0x0a \<notin> set (snd (lines_of s))"
  by (induction s) (auto split: prod.splits list.splits if_splits)

lemma lines_of_append: "lines_of (a @ b) = (case lines_of a of (ls, r) \<Rightarrow> case lines_of (r @ b) of (ls', r') \<Rightarrow> (ls @ ls', r'))"
  by (induction a) (auto split: prod.splits list.splits if_splits)

lemma lines_of_join: "lines_of s = (ls, r) \<Longrightarrow> s = concat (map (\<lambda>l. l @ [0x0a]) ls) @ r"
  by (induction s arbitrary: ls r) (auto split: prod.splits list.splits if_splits)

text \<open>A run of bytes without newline is in one line.\<close>

lemma lines_of_prefix:
  "0x0a \<notin> set c \<Longrightarrow> case lines_of (c @ s) of (ls, r) \<Rightarrow> length c \<le> length (hd (ls @ [r]))"
  by (induction c) (auto split: prod.splits list.splits)

end
