(* ===== verification/Grep.thy ===== *)
theory Grep
  imports Uos
begin

text \<open>
  \<open>user/grep.c\<close>: the regular expression matcher of Kernighan and Pike, and the loop that applies it to the lines of a
  file. The matcher is compared with the language a pattern denotes, the loop with the lines of the input.
\<close>

section \<open>The matcher\<close>

text \<open>\<open>^\<close>, \<open>.\<close>, \<open>*\<close> and \<open>$\<close> are 0x5e, 0x2e, 0x2a and 0x24.\<close>

function (sequential) matchhere :: "uint8 list \<Rightarrow> uint8 list \<Rightarrow> bool"
  and matchstar :: "uint8 \<Rightarrow> uint8 list \<Rightarrow> uint8 list \<Rightarrow> bool" where
  "matchhere re s =
     (if deref re = 0 then True
      else if deref (tl re) = 0x2a then matchstar (deref re) (tl (tl re)) s
      else if deref re = 0x24 \<and> deref (tl re) = 0 then deref s = 0
      else if deref s \<noteq> 0 \<and> (deref re = 0x2e \<or> deref re = deref s) then matchhere (tl re) (tl s)
      else False)"
| "matchstar c re s =
     (if matchhere re s then True
      else if deref s \<noteq> 0 \<and> (deref s = c \<or> c = 0x2e) then matchstar c re (tl s)
      else False)"
  by pat_completeness auto

termination
proof (relation "measure (\<lambda>x. case x of Inl (re, s) \<Rightarrow> 2 * (length re + length s)
    | Inr (c, re, s) \<Rightarrow> 2 * (length re + length s) + 1)", goal_cases)
  case (2 re s)
  then show ?case by (cases re; cases "tl re") auto
next
  case (3 re s)
  then show ?case by (cases re) auto
next
  case (5 c re s)
  then show ?case by (cases s) auto
qed auto

declare matchhere.simps [simp del] and matchstar.simps [simp del]

text \<open>The loop of \<open>match\<close> over the ends of the text, the empty one included.\<close>

fun match_loop :: "uint8 list \<Rightarrow> uint8 list \<Rightarrow> bool" where
  "match_loop re [] = matchhere re []"
| "match_loop re (c # s) = (if matchhere re (c # s) then True else if c = 0 then False else match_loop re s)"

definition match :: "uint8 list \<Rightarrow> uint8 list \<Rightarrow> bool" where
  "match re s = (if deref re = 0x5e then matchhere (tl re) s else match_loop re s)"

section \<open>The program\<close>

lemma strchr_Some: "strchr p c = Some q \<Longrightarrow> \<exists>l r. p = l @ q \<and> q = c # r \<and> c \<notin> set l"
proof (induction p c rule: strchr.induct)
  case (2 x s c)
  show ?case
  proof (cases "x = c")
    case False
    with 2(2) have "x \<noteq> 0" "strchr s c = Some q" by (auto split: if_splits)
    with 2(1) False obtain l r where "s = l @ q" "q = c # r" "c \<notin> set l" by blast
    with False show ?thesis by (intro exI[of _ "x # l"] exI[of _ r]) simp
  qed (use 2(2) in \<open>auto split: if_splits\<close>)
qed simp

text \<open>The inner loop: print the lines that match, and return what is left after the last newline found.\<close>

function grep_lines :: "uint8 list \<Rightarrow> uint8 list \<Rightarrow> uint8 list uprog" where
  "grep_lines pattern' p =
     (case strchr p 0x0a of
        None \<Rightarrow> retU p
      | Some q \<Rightarrow>
          let l = take (length p - length q) p in
          thenU (whenU (match pattern' l) (thenU (sysU (Uwrite 1 (l @ [0x0a]))) (retU ()))) (
          grep_lines pattern' (tl q)))"
  by pat_completeness auto
termination
  by (relation "measure (\<lambda>(re, p). length p)") (auto dest!: strchr_Some)

declare grep_lines.simps [simp del]

text \<open>\<open>carry\<close> is what is in the buffer of 1024 bytes.\<close>

primrec grep_loop :: "nat \<Rightarrow> uint8 list \<Rightarrow> cint \<Rightarrow> uint8 list \<Rightarrow> unit uprog" where
  "grep_loop 0 pattern' fd carry = starveU"
| "grep_loop (Suc f) pattern' fd carry =
     bindU (readU fd (1024 - of_nat (length carry) - 1)) (\<lambda>(n, bs).
     if sint n \<le> 0 then retU ()
     else if length bs \<noteq> nat (sint n) then faultU
     else bindU (grep_lines pattern' (carry @ bs)) (grep_loop f pattern' fd))"

definition grep :: "nat \<Rightarrow> uint8 list \<Rightarrow> cint \<Rightarrow> unit uprog" where
  "grep f pattern' fd = grep_loop f pattern' fd []"

primrec grep_files :: "nat \<Rightarrow> uint8 list \<Rightarrow> uint8 list list \<Rightarrow> unit uprog" where
  "grep_files f pattern' [] = retU ()"
| "grep_files f pattern' (a # as) =
     bindU (sysU (Uopen a 0)) (\<lambda>fd.
     if sint fd < 0 then thenU (printf ''grep: cannot open %s\<newline>'' [AStr a]) (exitU 1)
     else
       thenU (grep f pattern' fd) (
       thenU (sysU (Uclose fd)) (
       grep_files f pattern' as)))"

definition grep_main :: "nat \<Rightarrow> uint8 list list \<Rightarrow> unit uprog" where
  "grep_main f argv =
     (case argv of
        _ # pattern' # files \<Rightarrow>
          if files = [] then thenU (grep f pattern' 0) (exitU 0)
          else thenU (grep_files f pattern' files) (exitU 0)
      | _ \<Rightarrow> thenU (fprintf 2 ''usage: grep pattern [file ...]\<newline>'' []) (exitU 1))"

section \<open>What a pattern denotes\<close>

text \<open>A pattern after \<open>^\<close> is a sequence of single and repeated characters, and whether it ends in \<open>$\<close>.\<close>

datatype item = One uint8 | Many uint8

fun pattern :: "uint8 list \<Rightarrow> item list \<times> bool" where
  "pattern [] = ([], False)"
| "pattern [c] = (if c = 0x24 then ([], True) else ([One c], False))"
| "pattern (c # k # re) =
     (if k = 0x2a then (case pattern re of (is, e) \<Rightarrow> (Many c # is, e))
      else (case pattern (k # re) of (is, e) \<Rightarrow> (One c # is, e)))"

definition accepts :: "uint8 \<Rightarrow> uint8 \<Rightarrow> bool" where
  "accepts c x \<longleftrightarrow> c = 0x2e \<or> c = x"

primrec lang :: "item list \<Rightarrow> uint8 list set" where
  "lang [] = {[]}"
| "lang (i # is) =
     (case i of
        One c \<Rightarrow> {x # w | x w. accepts c x \<and> w \<in> lang is}
      | Many c \<Rightarrow> {u @ w | u w. list_all (accepts c) u \<and> w \<in> lang is})"

text \<open>Some part of \<open>s\<close> is in the language, at the start or at the end where the pattern says so.\<close>

definition matches :: "uint8 list \<Rightarrow> uint8 list \<Rightarrow> bool" where
  "matches re s \<longleftrightarrow>
     (let (start, re) = (case re of c # r \<Rightarrow> if c = 0x5e then (True, r) else (False, re) | [] \<Rightarrow> (False, []));
          (is, end') = pattern re
      in \<exists>x w y. s = x @ w @ y \<and> w \<in> lang is \<and> (start \<longrightarrow> x = []) \<and> (end' \<longrightarrow> y = []))"

definition here :: "item list \<times> bool \<Rightarrow> uint8 list \<Rightarrow> bool" where
  "here p s \<longleftrightarrow> (\<exists>w y. s = w @ y \<and> w \<in> lang (fst p) \<and> (snd p \<longrightarrow> y = []))"

lemma matchstar_Cons: "x \<noteq> 0 \<Longrightarrow> matchstar c re (x # s) \<longleftrightarrow> matchhere re (x # s) \<or> accepts c x \<and> matchstar c re s"
  by (subst matchstar.simps) (auto simp: accepts_def)

lemma ex_split_Cons:
  "(\<exists>u w. x # s = u @ w \<and> list_all P u \<and> Q w) \<longleftrightarrow> Q (x # s) \<or> P x \<and> (\<exists>u w. s = u @ w \<and> list_all P u \<and> Q w)"
  (is "?l = ?r")
proof
  assume ?l
  then obtain u w where "x # s = u @ w" "list_all P u" "Q w" by blast
  then show ?r by (cases u) auto
next
  assume ?r
  then show ?l
  proof
    assume "Q (x # s)"
    then show ?l by (intro exI[of _ "[]"] exI[of _ "x # s"]) simp
  next
    assume "P x \<and> (\<exists>u w. s = u @ w \<and> list_all P u \<and> Q w)"
    then obtain u w where "s = u @ w" "list_all P (x # u)" "Q w" by auto
    then show ?l by (intro exI[of _ "x # u"] exI[of _ w]) simp
  qed
qed

lemma matchstar_eq:
  "0 \<notin> set s \<Longrightarrow> matchstar c re s \<longleftrightarrow> (\<exists>u w. s = u @ w \<and> list_all (accepts c) u \<and> matchhere re w)"
proof (induction s)
  case Nil
  then show ?case by (subst matchstar.simps) simp
next
  case (Cons x s)
  then have x: "x \<noteq> 0" and IH: "matchstar c re s \<longleftrightarrow> (\<exists>u w. s = u @ w \<and> list_all (accepts c) u \<and> matchhere re w)"
    by auto
  show ?case unfolding ex_split_Cons matchstar_Cons[OF x] IH ..
qed

lemma here_Many: "here (Many c # is, e) s \<longleftrightarrow> (\<exists>u w. s = u @ w \<and> list_all (accepts c) u \<and> here (is, e) w)"
proof
  assume "here (Many c # is, e) s"
  then obtain w y where "s = w @ y" "w \<in> lang (Many c # is)" "e \<longrightarrow> y = []" unfolding here_def fst_conv snd_conv by blast
  moreover from this(2) obtain u v where "w = u @ v" "list_all (accepts c) u" "v \<in> lang is" by auto
  ultimately have "s = (u @ v) @ y" "list_all (accepts c) u" "v \<in> lang is" "e \<longrightarrow> y = []" by simp_all
  then show "\<exists>u w. s = u @ w \<and> list_all (accepts c) u \<and> here (is, e) w"
    unfolding here_def by (intro exI[of _ u] exI[of _ "v @ y"]) auto
next
  assume "\<exists>u w. s = u @ w \<and> list_all (accepts c) u \<and> here (is, e) w"
  then obtain u w where "s = u @ w" "list_all (accepts c) u" "here (is, e) w" by blast
  moreover from this(3) obtain v y where "w = v @ y" "v \<in> lang is" "e \<longrightarrow> y = []" by (auto simp: here_def)
  ultimately have "s = u @ v @ y" "list_all (accepts c) u" "v \<in> lang is" "e \<longrightarrow> y = []" by simp_all
  then show "here (Many c # is, e) s" unfolding here_def by (intro exI[of _ "u @ v"] exI[of _ y]) auto
qed

lemma here_One: "here (One c # is, e) s \<longleftrightarrow> (\<exists>x w. s = x # w \<and> accepts c x \<and> here (is, e) w)"
proof
  assume "here (One c # is, e) s"
  then obtain w y where "s = w @ y" "w \<in> lang (One c # is)" "e \<longrightarrow> y = []" unfolding here_def fst_conv snd_conv by blast
  moreover from this(2) obtain x v where "w = x # v" "accepts c x" "v \<in> lang is" by auto
  ultimately have "s = (x # v) @ y" "accepts c x" "v \<in> lang is" "e \<longrightarrow> y = []" by simp_all
  then show "\<exists>x w. s = x # w \<and> accepts c x \<and> here (is, e) w"
    unfolding here_def by (intro exI[of _ x] exI[of _ "v @ y"]) auto
next
  assume "\<exists>x w. s = x # w \<and> accepts c x \<and> here (is, e) w"
  then obtain x w where "s = x # w" "accepts c x" "here (is, e) w" by blast
  moreover from this(3) obtain v y where "w = v @ y" "v \<in> lang is" "e \<longrightarrow> y = []" by (auto simp: here_def)
  ultimately have "s = x # v @ y" "accepts c x" "v \<in> lang is" "e \<longrightarrow> y = []" by simp_all
  then show "here (One c # is, e) s" unfolding here_def by (intro exI[of _ "x # v"] exI[of _ y]) auto
qed

lemma here_Nil: "here ([], e) s \<longleftrightarrow> (e \<longrightarrow> s = [])"
  by (auto simp: here_def)

lemma matchhere_Nil: "matchhere [] s"
  by (subst matchhere.simps) simp

lemma matchhere_One:
  "c \<noteq> 0 \<Longrightarrow> 0 \<notin> set s \<Longrightarrow> deref re \<noteq> 0x2a \<Longrightarrow> \<not> (c = 0x24 \<and> deref re = 0) \<Longrightarrow>
     matchhere (c # re) s \<longleftrightarrow> (\<exists>x w. s = x # w \<and> accepts c x \<and> matchhere re w)"
  by (subst matchhere.simps) (cases s; auto simp: accepts_def)

lemma matchhere_eq:
  assumes "0 \<notin> set re" and "0 \<notin> set s"
  shows "matchhere re s \<longleftrightarrow> here (pattern re) s"
  using assms
proof (induction re arbitrary: s rule: pattern.induct)
  case 1
  then show ?case by (simp add: here_Nil matchhere_Nil)
next
  case (2 c)
  show ?case
  proof (cases "c = 0x24")
    case True
    with 2 show ?thesis by (subst matchhere.simps) (cases s; auto simp: here_Nil)
  next
    case False
    with 2 show ?thesis by (simp add: matchhere_One here_One here_Nil matchhere_Nil)
  qed
next
  case (3 c k re)
  have split: "\<And>u w. s = u @ w \<Longrightarrow> 0 \<notin> set w" using 3(4) by auto
  show ?case
  proof (cases "k = 0x2a")
    case True
    have "matchhere (c # k # re) s \<longleftrightarrow> matchstar c re s" using True 3(3) by (subst matchhere.simps) simp
    also have "\<dots> \<longleftrightarrow> (\<exists>u w. s = u @ w \<and> list_all (accepts c) u \<and> here (pattern re) w)"
      unfolding matchstar_eq[OF 3(4)] using 3(1)[OF True] 3(3) split by (intro iff_exI conj_cong refl) simp
    also have "\<dots> \<longleftrightarrow> here (pattern (c # k # re)) s"
      using True by (cases "pattern re") (simp add: here_Many)
    finally show ?thesis .
  next
    case False
    have "matchhere (c # k # re) s \<longleftrightarrow> (\<exists>x w. s = x # w \<and> accepts c x \<and> matchhere (k # re) w)"
      using 3(3,4) False by (intro matchhere_One) auto
    also have "\<dots> \<longleftrightarrow> (\<exists>x w. s = x # w \<and> accepts c x \<and> here (pattern (k # re)) w)"
      using 3(2)[OF False] 3(3,4) by auto
    also have "\<dots> \<longleftrightarrow> here (pattern (c # k # re)) s"
      using False by (cases "pattern (k # re)") (simp add: here_One)
    finally show ?thesis .
  qed
qed

lemma match_loop_eq: "0 \<notin> set s \<Longrightarrow> match_loop re s \<longleftrightarrow> (\<exists>x y. s = x @ y \<and> matchhere re y)"
proof (induction s)
  case (Cons c s)
  have "(\<exists>x y. c # s = x @ y \<and> matchhere re y) \<longleftrightarrow> matchhere re (c # s) \<or> (\<exists>x y. s = x @ y \<and> matchhere re y)"
    using ex_split_Cons[of c s "\<lambda>_. True" "matchhere re"] by (simp add: list_all_iff)
  with Cons show ?case by (auto split: if_splits)
qed simp

text \<open>
  \<open>match\<close> finds a pattern in a line exactly when some part of the line is in the language of the pattern, the part
  being at the start of the line if the pattern begins with \<open>^\<close> and at its end if it ends in \<open>$\<close>.
\<close>

theorem match_eq_matches:
  assumes "0 \<notin> set re" and "0 \<notin> set s"
  shows "match re s = matches re s"
proof -
  have h: "matchhere r y \<longleftrightarrow> here (pattern r) y" if "set r \<subseteq> set re" "set y \<subseteq> set s" for r y
    using matchhere_eq[of r y] that assms by auto
  show ?thesis
  proof (cases "deref re = 0x5e")
    case True
    then obtain r where re: "re = 0x5e # r" by (cases re) auto
    have "set r \<subseteq> set re" using re by auto
    from h[OF this, of s] show ?thesis by (simp add: match_def matches_def here_def re split: prod.split)
  next
    case False
    then have "match re s \<longleftrightarrow> (\<exists>x y. s = x @ y \<and> here (pattern re) y)"
      unfolding match_def if_not_P[OF False] match_loop_eq[OF assms(2)]
      by (intro iff_exI conj_cong refl h) auto
    with False show ?thesis by (cases re) (auto simp: matches_def here_def split: prod.split)
  qed
qed

section \<open>The lines printed\<close>

definition matching :: "uint8 list \<Rightarrow> uint8 list list \<Rightarrow> uint8 list" where
  "matching re ls = concat (map (\<lambda>l. l @ [0x0a]) (filter (match re) ls))"

lemma matching_simps: "matching re [] = []" "matching re (l # ls) = (if match re l then l @ [0x0a] else []) @ matching re ls"
  "matching re (ls @ ls') = matching re ls @ matching re ls'"
  by (simp_all add: matching_def)

lemma strchr_None: "0 \<notin> set p \<Longrightarrow> strchr p c = None \<Longrightarrow> c \<notin> set p"
  by (induction p c rule: strchr.induct) (auto split: if_splits)

lemma grep_lines_eq:
  "0 \<notin> set p \<Longrightarrow> \<exists>h'. grep_lines re p S h = (Val (snd (lines_of p)), h') \<and>
     written 1 h' = written 1 h @ matching re (fst (lines_of p)) \<and> got S fd h' = got S fd h"
proof (induction re p arbitrary: h rule: grep_lines.induct)
  case (1 re p)
  show ?case
  proof (cases "strchr p 0x0a")
    case None
    with strchr_None[OF 1(2)] show ?thesis by (subst grep_lines.simps) (simp add: lines_of_plain matching_simps)
  next
    case (Some q)
    then obtain l r where lr: "p = l @ q" "q = 0x0a # r" "0x0a \<notin> set l" using strchr_Some by blast
    have l: "take (length p - length q) p = l" using lr by simp
    let ?h = "if match re l then h @ [Uwrite 1 (l @ [0x0a])] else h"
    have "0 \<notin> set r" using 1(2) lr by auto
    with 1(1)[OF Some l[symmetric], of ?h] lr(2) obtain h' where
        h': "grep_lines re r S ?h = (Val (snd (lines_of r)), h')"
          "written 1 h' = written 1 ?h @ matching re (fst (lines_of r))" "got S fd h' = got S fd ?h" by auto
    have "lines_of p = (case lines_of r of (ls, r) \<Rightarrow> (l # ls, r))" using lines_of_line[OF lr(3)] lr by simp
    with h' Some l lr(2) show ?thesis
      by (subst grep_lines.simps) (auto simp: Let_def matching_simps split: prod.split)
  qed
qed

lemma lines_of_suffix_lines:
  assumes "lines_of a = (ls, r)"
  shows "set (fst (lines_of (r @ b))) \<subseteq> set (fst (lines_of (a @ b)))" "snd (lines_of (r @ b)) = snd (lines_of (a @ b))"
    "fst (lines_of (a @ b)) = ls @ fst (lines_of (r @ b))"
  using assms by (auto simp: lines_of_append[of a b] split: prod.splits)

definition short_lines :: "uint8 list \<Rightarrow> bool" where
  "short_lines s \<longleftrightarrow> (\<forall>l \<in> insert (snd (lines_of s)) (set (fst (lines_of s))). length l \<le> 1022)"

lemma grep_loop_eq:
  assumes "serves S fd inp" and "rest = drop (length (got S fd h)) inp" and "0 \<notin> set (carry @ rest)"
    and "0x0a \<notin> set carry" and "short_lines (carry @ rest)" and "length rest < f"
  shows "\<exists>h'. grep_loop f re fd carry S h = (Val (), h') \<and>
    written 1 h' = written 1 h @ matching re (fst (lines_of (carry @ rest)))"
  using assms(2-6)
proof (induction f arbitrary: h carry rest)
  case (Suc f)
  obtain ls r where lr: "lines_of (carry @ rest) = (ls, r)" by fastforce
  have "length carry \<le> length (hd (ls @ [r]))" using lines_of_prefix[OF Suc.prems(3), of rest] lr by simp
  moreover have "length (hd (ls @ [r])) \<le> 1022" using Suc.prems(4) lr by (cases ls) (auto simp: short_lines_def)
  ultimately have c: "length carry \<le> 1022" by simp
  let ?n = "1024 - of_nat (length carry) - 1 :: cint"
  have "?n = of_nat (1023 - length carry)" using c by (simp add: of_nat_diff)
  then have n: "sint ?n = int (1023 - length carry)" by (simp only:) (rule sint_of_nat_small, simp)
  obtain k where k: "S (h @ [Uread fd ?n]) = (of_nat k, take k rest)" "k \<le> length rest"
      "k = 0 \<longrightarrow> rest = [] \<or> sint ?n \<le> 0" "sint (ucast (of_nat k :: uint64) :: cint) = int k"
      "drop (length (got S fd (h @ [Uread fd ?n]))) inp = drop k rest"
    using serves_read[OF assms(1) Suc.prems(1), of ?n] by metis
  let ?h = "h @ [Uread fd ?n]"
  show ?case
  proof (cases "k = 0")
    case True
    with k(3) n c have "rest = []" by auto
    with True k(1,4) Suc.prems(3) show ?thesis by (simp add: lines_of_plain matching_simps)
  next
    case False
    let ?b = "carry @ take k rest"
    have "0 \<notin> set ?b" using Suc.prems(2) set_take_subset[of k rest] by auto
    from grep_lines_eq[OF this, of re S ?h fd] obtain h1 where h1: "grep_lines re ?b S ?h = (Val (snd (lines_of ?b)), h1)"
        "written 1 h1 = written 1 h @ matching re (fst (lines_of ?b))" "got S fd h1 = got S fd ?h" by auto
    obtain ls1 c1 where b: "lines_of ?b = (ls1, c1)" by fastforce
    have app: "carry @ rest = ?b @ drop k rest" by simp
    note suf = lines_of_suffix_lines[OF b, of "drop k rest", folded app]
    have "set c1 \<subseteq> set ?b" using lines_of_join[OF b] by (metis Un_upper2 set_append)
    then have "0 \<notin> set (c1 @ drop k rest)" using \<open>0 \<notin> set ?b\<close> Suc.prems(2) set_drop_subset[of k rest] by auto
    moreover have "0x0a \<notin> set c1" using lines_of_rest[of ?b] b by simp
    moreover have "short_lines (c1 @ drop k rest)" using Suc.prems(4) suf by (auto simp: short_lines_def)
    moreover have "length (drop k rest) < f" using Suc.prems(5) False k(2) by simp
    ultimately obtain h' where h': "grep_loop f re fd c1 S h1 = (Val (), h')"
        "written 1 h' = written 1 h1 @ matching re (fst (lines_of (c1 @ drop k rest)))"
      using Suc.IH[of "drop k rest" h1 c1] k(5) h1(3) by metis
    have "grep_loop (Suc f) re fd carry S h = (Val (), h')"
      using k(1,2,4) False h1(1) b h'(1) by simp
    with h'(2) h1(2) b suf(3) show ?thesis by (auto simp: matching_simps)
  qed
qed simp

text \<open>
  C37. \<open>grep\<close>: however the operating system cuts the input into pieces, the program comes to the end of it and has
  written those complete lines, in order, some part of which is in the language of the pattern, and nothing else, as long
  as no line is longer than the 1022 bytes the buffer has room for.\<close>

theorem grep_prints_matching:
  assumes "serves S fd inp" and "got S fd h = []" and "0 \<notin> set inp" and "0 \<notin> set re" and "short_lines inp"
    and "length inp < f"
  shows "\<exists>h'. grep f re fd S h = (Val (), h') \<and>
    written 1 h' = written 1 h @ concat (map (\<lambda>l. l @ [0x0a]) (filter (matches re) (fst (lines_of inp))))"
proof -
  obtain ls r where lr: "lines_of inp = (ls, r)" by fastforce
  from lines_of_join[OF this] assms(3) have "\<forall>l \<in> set ls. 0 \<notin> set l" by (auto split: if_splits)
  then have "filter (match re) ls = filter (matches re) ls"
    using match_eq_matches[OF assms(4)] by (intro filter_cong) auto
  with grep_loop_eq[of S fd inp inp h "[]" f re] assms lr show ?thesis by (simp add: grep_def matching_def)
qed

theorem grep_prints_matching_witness:
  "\<exists>h'. grep 20 (bytes_of ''a.c'') 0 (byte_os (bytes_of ''abc\<newline>xyz\<newline>acc\<newline>'')) [] = (Val (), h') \<and>
     written 1 h' = bytes_of ''abc\<newline>acc\<newline>''"
proof -
  let ?i = "bytes_of ''abc\<newline>xyz\<newline>acc\<newline>''" and ?re = "bytes_of ''a.c''"
  have l: "lines_of ?i = ([bytes_of ''abc'', bytes_of ''xyz'', bytes_of ''acc''], [])" by code_simp
  have m: "match ?re (bytes_of ''abc'')" "\<not> match ?re (bytes_of ''xyz'')" "match ?re (bytes_of ''acc'')" by code_simp+
  have e: "matches ?re s = match ?re s" if "0 \<notin> set s" for s
    using match_eq_matches[OF _ that, of ?re] by (simp add: bytes_of_def)
  have "filter (matches ?re) (fst (lines_of ?i)) = [bytes_of ''abc'', bytes_of ''acc'']"
    using m e[of "bytes_of ''abc''"] e[of "bytes_of ''xyz''"] e[of "bytes_of ''acc''"] by (simp add: l) (simp add: bytes_of_def)
  moreover have "short_lines ?i" by (simp add: short_lines_def l bytes_of_def)
  ultimately show ?thesis
    using grep_prints_matching[of "byte_os ?i" 0 ?i "[]" ?re 20] byte_os_serves[of ?i] by (simp add: bytes_of_def)
qed

end
