(* ===== verification/Utils.thy ===== *)
theory Utils
  imports Uos
begin

text \<open>
  The small programs of \<open>user/\<close>: \<open>cat\<close>, \<open>wc\<close>, \<open>echo\<close>, \<open>kill\<close>, \<open>ln\<close>, \<open>mkdir\<close>, \<open>rm\<close>, \<open>ls\<close>, \<open>syscount\<close>, \<open>init\<close>, \<open>zombie\<close>, and
  the small tests \<open>forktest\<close>, \<open>stressfs\<close> and \<open>schedulertest\<close>. The arguments \<open>argv\<close> are a list with the name of the
  program first. Loops that read until the end of a file, and those of \<open>init\<close>, have fuel.
\<close>

text \<open>A call whose result is not used.\<close>

definition doU :: "ucall \<Rightarrow> unit uprog" where
  "doU c = thenU (sysU c) (retU ())"

lemma doU_apply [simp]: "doU c S h = (Val (), h @ [c])"
  by (simp add: doU_def)

text \<open>Running a program, \<open>_main\<close> of \<open>user/ulib.c\<close>: a \<open>main\<close> that returns exits with 0.\<close>

definition start_main :: "'a uprog \<Rightarrow> unit uprog" where
  "start_main main = thenU main (exitU 0)"

text \<open>Opening the files named by the arguments, one after the other.\<close>

primrec each_file :: "cint \<Rightarrow> string \<Rightarrow> (cint \<Rightarrow> uint8 list \<Rightarrow> unit uprog) \<Rightarrow> uint8 list list \<Rightarrow> unit uprog" where
  "each_file err msg body [] = retU ()"
| "each_file err msg body (a # as) =
     bindU (sysU (Uopen a 0)) (\<lambda>fd.
     if sint fd < 0 then thenU (fprintf err msg [AStr a]) (exitU 1)
     else thenU (body fd a) (thenU (doU (Uclose fd)) (each_file err msg body as)))"

section \<open>cat\<close>

primrec cat :: "nat \<Rightarrow> cint \<Rightarrow> unit uprog" where
  "cat 0 fd = starveU"
| "cat (Suc f) fd =
     bindU (readU fd 512) (\<lambda>(n, bs).
     if 0 < sint n then
       if length bs \<noteq> nat (sint n) then faultU
       else
         bindU (sysU (Uwrite 1 bs)) (\<lambda>w.
         if w \<noteq> n then thenU (fprintf 2 ''cat: write error\<newline>'' []) (exitU 1)
         else cat f fd)
     else if sint n < 0 then thenU (fprintf 2 ''cat: read error\<newline>'' []) (exitU 1)
     else retU ())"

definition cat_main :: "nat \<Rightarrow> uint8 list list \<Rightarrow> unit uprog" where
  "cat_main f argv =
     (if length argv \<le> 1 then thenU (cat f 0) (exitU 0)
      else thenU (each_file 2 ''cat: cannot open %s\<newline>'' (\<lambda>fd _. cat f fd) (tl argv)) (exitU 0))"

section \<open>wc\<close>

record wc_counts =
  wc_l :: cint
  wc_w :: cint
  wc_c :: cint
  wc_inword :: bool

definition blanks :: "uint8 list" where
  "blanks = [0x20, 0x0d, 0x09, 0x0a, 0x0b]"

definition wc_byte :: "wc_counts \<Rightarrow> uint8 \<Rightarrow> wc_counts" where
  "wc_byte s b =
     (let s = s\<lparr>wc_c := wc_c s + 1\<rparr>;
          s = (if b = 0x0a then s\<lparr>wc_l := wc_l s + 1\<rparr> else s)
      in if strchr blanks b \<noteq> None then s\<lparr>wc_inword := False\<rparr>
         else if \<not> wc_inword s then s\<lparr>wc_w := wc_w s + 1, wc_inword := True\<rparr>
         else s)"

primrec wc_loop :: "nat \<Rightarrow> cint \<Rightarrow> wc_counts \<Rightarrow> wc_counts uprog" where
  "wc_loop 0 fd s = starveU"
| "wc_loop (Suc f) fd s =
     bindU (readU fd 512) (\<lambda>(n, bs).
     if 0 < sint n then
       if length bs \<noteq> nat (sint n) then faultU else wc_loop f fd (foldl wc_byte s bs)
     else if sint n < 0 then thenU (printf ''wc: read error\<newline>'' []) (exitU 1)
     else retU s)"

definition wc :: "nat \<Rightarrow> cint \<Rightarrow> uint8 list \<Rightarrow> unit uprog" where
  "wc f fd name =
     bindU (wc_loop f fd \<lparr>wc_l = 0, wc_w = 0, wc_c = 0, wc_inword = False\<rparr>) (\<lambda>s.
     printf ''%d %d %d %s\<newline>'' [AInt (wc_l s), AInt (wc_w s), AInt (wc_c s), AStr name])"

definition wc_main :: "nat \<Rightarrow> uint8 list list \<Rightarrow> unit uprog" where
  "wc_main f argv =
     (if length argv \<le> 1 then thenU (wc f 0 []) (exitU 0)
      else thenU (each_file 1 ''wc: cannot open %s\<newline>'' (wc f) (tl argv)) (exitU 0))"

section \<open>echo, kill, ln, mkdir, rm, zombie\<close>

fun echo_args :: "uint8 list list \<Rightarrow> unit uprog" where
  "echo_args [] = retU ()"
| "echo_args (a # as) =
     thenU (doU (Uwrite 1 (take (unat (strlen a)) a))) (
     thenU (doU (Uwrite 1 (if as \<noteq> [] then [0x20] else [0x0a]))) (
     echo_args as))"

definition echo_main :: "uint8 list list \<Rightarrow> unit uprog" where
  "echo_main argv = thenU (echo_args (tl argv)) (exitU 0)"

definition kill_main :: "uint8 list list \<Rightarrow> unit uprog" where
  "kill_main argv =
     (if length argv < 2 then thenU (fprintf 2 ''usage: kill pid...\<newline>'' []) (exitU 1)
      else thenU (forU (tl argv) (\<lambda>a. doU (Ukill (atoi a)))) (exitU 0))"

definition ln_main :: "uint8 list list \<Rightarrow> unit uprog" where
  "ln_main argv =
     (case argv of
        [_, old, new] \<Rightarrow>
          bindU (sysU (Ulink old new)) (\<lambda>r.
          thenU (whenU (sint r < 0) (fprintf 2 ''link %s %s: failed\<newline>'' [AStr old, AStr new])) (
          exitU 0))
      | _ \<Rightarrow> thenU (fprintf 2 ''Usage: ln old new\<newline>'' []) (exitU 1))"

primrec until_error :: "(uint8 list \<Rightarrow> ucall) \<Rightarrow> string \<Rightarrow> uint8 list list \<Rightarrow> unit uprog" where
  "until_error call msg [] = retU ()"
| "until_error call msg (a # as) =
     bindU (sysU (call a)) (\<lambda>r.
     if sint r < 0 then fprintf 2 msg [AStr a]
     else until_error call msg as)"

definition mkdir_main :: "uint8 list list \<Rightarrow> unit uprog" where
  "mkdir_main argv =
     (if length argv < 2 then thenU (fprintf 2 ''Usage: mkdir files...\<newline>'' []) (exitU 1)
      else thenU (until_error Umkdir ''mkdir: %s failed to create\<newline>'' (tl argv)) (exitU 0))"

definition rm_main :: "uint8 list list \<Rightarrow> unit uprog" where
  "rm_main argv =
     (if length argv < 2 then thenU (fprintf 2 ''Usage: rm files...\<newline>'' []) (exitU 1)
      else thenU (until_error Uunlink ''rm: %s failed to delete\<newline>'' (tl argv)) (exitU 0))"

definition zombie_main :: "unit uprog" where
  "zombie_main =
     bindU (sysU Ufork) (\<lambda>pid.
     thenU (whenU (0 < sint pid) (doU (Usleep 5))) (
     exitU 0))"

section \<open>ls\<close>

definition dirsiz :: nat where "dirsiz = 14"

definition fmtname :: "uint8 list \<Rightarrow> uint8 list" where
  "fmtname path =
     (let p = rev (takeWhile (\<lambda>c. c \<noteq> 0x2f) (rev path))
      in if dirsiz \<le> length p then p
         else p @ replicate (dirsiz - length p) 0x20)"

text \<open>The fields of a \<open>struct stat\<close>; the memory has junk there if the call stored nothing.\<close>

definition st_ino :: "uint8 list \<Rightarrow> cint" where
  "st_ino st = le_word (take 4 (drop 4 st))"

definition st_type :: "uint8 list \<Rightarrow> uint16" where
  "st_type st = le_word (take 2 (drop 8 st))"

definition st_size :: "uint8 list \<Rightarrow> uint64" where
  "st_size st = le_word (take 8 (drop 16 st))"

text \<open>The entries of a directory; the size is passed as 64 bits to a \<open>%d\<close>, which takes the low 32.\<close>

primrec ls_entries :: "nat \<Rightarrow> cint \<Rightarrow> uint8 list \<Rightarrow> unit uprog" where
  "ls_entries 0 fd path = starveU"
| "ls_entries (Suc f) fd path =
     bindU (readU fd 16) (\<lambda>(n, de).
     if n \<noteq> 16 then retU ()
     else if length de \<noteq> 16 then faultU
     else if de ! 0 = 0 \<and> de ! 1 = 0 then ls_entries f fd path
     else
       let buf = path @ [0x2f] @ takeWhile (\<lambda>c. c \<noteq> 0) (drop 2 de) in
       bindU (stat buf) (\<lambda>(r, st).
       thenU (if sint r < 0 then printf ''ls: cannot stat %s\<newline>'' [AStr buf]
              else printf ''%s %d %d %d\<newline>''
                [AStr (fmtname buf), AInt (scast (st_type st)), AInt (st_ino st), AInt (ucast (st_size st))]) (
       ls_entries f fd path)))"

definition ls :: "nat \<Rightarrow> uint8 list \<Rightarrow> unit uprog" where
  "ls f path =
     bindU (sysU (Uopen path 0)) (\<lambda>fd.
     if sint fd < 0 then fprintf 2 ''ls: cannot open %s\<newline>'' [AStr path]
     else
       bindU (callU (Ufstat fd)) (\<lambda>(r, st).
       if sint (ucast r :: cint) < 0 then
         thenU (fprintf 2 ''ls: cannot stat %s\<newline>'' [AStr path]) (doU (Uclose fd))
       else
         let t = st_type st in
         thenU
           (if t = 3 \<or> t = 2 then
              printf ''%s %d %d %l\<newline>'' [AStr (fmtname path), AInt (scast t), AInt (st_ino st), ALong (st_size st)]
            else if t = 1 then
              if 512 < strlen path + 1 + of_nat dirsiz + 1 then printf ''ls: path too long\<newline>'' []
              else ls_entries f fd path
            else retU ())
           (doU (Uclose fd))))"

definition ls_main :: "nat \<Rightarrow> uint8 list list \<Rightarrow> unit uprog" where
  "ls_main f argv =
     (if length argv < 2 then thenU (ls f (bytes_of ''.'')) (exitU 0)
      else thenU (forU (tl argv) (ls f)) (exitU 0))"

section \<open>syscount\<close>

text \<open>The cases of \<open>getSyscallName\<close> are the powers of 2 up to \<open>2 ^ 21\<close>.\<close>

definition syscall_names :: "string list" where
  "syscall_names = [''fork'', ''exit'', ''wait'', ''pipe'', ''read'', ''kill'', ''exec'', ''fstat'', ''chdir'', ''dup'', ''getpid'',
     ''sbrk'', ''sleep'', ''uptime'', ''open'', ''write'', ''mknod'', ''unlink'', ''fchmod'', ''link'', ''mkdir'', ''close'']"

definition getSyscallName :: "cint \<Rightarrow> string" where
  "getSyscallName mask' =
     (case find (\<lambda>k. mask' = push_bit k 1) [0..<22] of Some k \<Rightarrow> syscall_names ! k | None \<Rightarrow> ''unknown'')"

text \<open>The mask is positive, so dividing it by 2 shifts it.\<close>

definition syscount_main :: "uint8 list list \<Rightarrow> unit uprog" where
  "syscount_main argv =
     (case argv of
        _ # a # cmd # args \<Rightarrow>
          let m = atoi a in
          if sint m \<le> 0 \<or> and m (m - 1) \<noteq> 0 then
            thenU (printf ''Error: Mask must be a power of 2.\<newline>'' []) (exitU 1)
          else
            bindU (sysU Ufork) (\<lambda>pid.
            bindU (sysU (UgetSysCount m)) (\<lambda>ct2.
            if pid = 0 then thenU (execU cmd (cmd # args)) (exitU 0)
            else
              thenU (doU Uwait) (
              bindU (sysU (UgetSysCount m)) (\<lambda>ct1.
              thenU (printf ''PID %d called %s %d times.\<newline>''
                [AInt pid, AStr (bytes_of (getSyscallName (drop_bit 1 m))), AInt (ct1 - ct2)]) (
              exitU 0)))))
      | _ \<Rightarrow> thenU (printf ''Usage: syscount <mask> <command> [args]\<newline>'' []) (exitU 1))"

section \<open>init\<close>

primrec init_wait :: "nat \<Rightarrow> cint \<Rightarrow> unit uprog" where
  "init_wait 0 pid = starveU"
| "init_wait (Suc f) pid =
     bindU (sysU Uwait) (\<lambda>wpid.
     if wpid = pid then retU ()
     else if sint wpid < 0 then thenU (printf ''init: wait returned an error\<newline>'' []) (exitU 1)
     else init_wait f pid)"

primrec init_loop :: "nat \<Rightarrow> unit uprog" where
  "init_loop 0 = starveU"
| "init_loop (Suc f) =
     thenU (printf ''init: starting sh\<newline>'' []) (
     bindU (sysU Ufork) (\<lambda>pid.
     if sint pid < 0 then thenU (printf ''init: fork failed\<newline>'' []) (exitU 1)
     else if pid = 0 then
       thenU (execU (bytes_of ''sh'') [bytes_of ''sh'']) (
       thenU (printf ''init: exec sh failed\<newline>'' []) (
       exitU 1))
     else thenU (init_wait f pid) (init_loop f)))"

definition init_main :: "nat \<Rightarrow> unit uprog" where
  "init_main f =
     bindU (sysU (Uopen (bytes_of ''console'') 2)) (\<lambda>fd.
     thenU (whenU (sint fd < 0) (
       thenU (doU (Umknod (bytes_of ''console'') 1 0)) (
       doU (Uopen (bytes_of ''console'') 2)))) (
     thenU (doU (Udup 0)) (
     thenU (doU (Udup 0)) (
     init_loop f))))"

section \<open>forktest, stressfs, schedulertest\<close>

definition print :: "string \<Rightarrow> unit uprog" where
  "print s = doU (Uwrite 1 (bytes_of s))"

text \<open>\<open>fork_upto k n\<close> has made \<open>n\<close> children and may make \<open>k\<close> more; the child exits at once.\<close>

primrec fork_upto :: "nat \<Rightarrow> nat \<Rightarrow> nat uprog" where
  "fork_upto 0 n = retU n"
| "fork_upto (Suc k) n =
     bindU (sysU Ufork) (\<lambda>pid.
     if sint pid < 0 then retU n
     else if pid = 0 then exitU 0
     else fork_upto k (n + 1))"

definition forktest :: "unit uprog" where
  "forktest =
     thenU (print ''fork test\<newline>'') (
     bindU (fork_upto 1000 0) (\<lambda>n.
     thenU (whenU (n = 1000) (thenU (print ''fork claimed to work N times!\<newline>'') (exitU 1))) (
     thenU (forU [0..<n] (\<lambda>_.
       bindU (sysU Uwait) (\<lambda>r.
       whenU (sint r < 0) (thenU (print ''wait stopped early\<newline>'') (exitU 1))))) (
     bindU (sysU Uwait) (\<lambda>r.
     thenU (whenU (r \<noteq> - 1) (thenU (print ''wait got too many\<newline>'') (exitU 1))) (
     print ''fork test OK\<newline>''))))))"

definition forktest_main :: "unit uprog" where
  "forktest_main = thenU forktest (exitU 0)"

primrec stressfs_fork :: "nat \<Rightarrow> nat \<Rightarrow> nat uprog" where
  "stressfs_fork 0 i = retU i"
| "stressfs_fork (Suc k) i = bindU (sysU Ufork) (\<lambda>pid. if 0 < sint pid then retU i else stressfs_fork k (i + 1))"

definition stressfs_main :: "unit uprog" where
  "stressfs_main =
     thenU (printf ''stressfs starting\<newline>'' []) (
     bindU (stressfs_fork 4 0) (\<lambda>i.
     thenU (printf ''write %d\<newline>'' [AInt (of_nat i)]) (
     let path = bytes_of ''stressfs'' @ [0x30 + of_nat i] in
     bindU (sysU (Uopen path 0x202)) (\<lambda>fd.
     thenU (forU [0..<20] (\<lambda>_. doU (Uwrite fd (replicate 512 0x61)))) (
     thenU (doU (Uclose fd)) (
     thenU (printf ''read\<newline>'' []) (
     bindU (sysU (Uopen path 0)) (\<lambda>fd.
     thenU (forU [0..<20] (\<lambda>_. doU (Uread fd 512))) (
     thenU (doU (Uclose fd)) (
     thenU (doU Uwait) (
     exitU 0)))))))))))"

text \<open>Division of an \<open>int\<close>, which rounds to zero.\<close>

definition div_int :: "cint \<Rightarrow> int \<Rightarrow> cint" where
  "div_int x k = word_of_int (if sint x < 0 then - (- sint x div k) else sint x div k)"

text \<open>The loop that keeps the processor busy makes no call.\<close>

primrec sched_fork :: "nat \<Rightarrow> nat \<Rightarrow> nat uprog" where
  "sched_fork 0 n = retU n"
| "sched_fork (Suc k) n =
     bindU (sysU Ufork) (\<lambda>pid.
     if sint pid < 0 then retU n
     else if pid = 0 then thenU (whenU (n < 5) (doU (Usleep 200))) (exitU 0)
     else sched_fork k (n + 1))"

text \<open>\<open>waitx\<close> stores the waiting and the running time; they are added up as \<open>int\<close>.\<close>

primrec sched_wait :: "nat \<Rightarrow> cint \<times> cint \<Rightarrow> (cint \<times> cint) uprog" where
  "sched_wait 0 t = retU t"
| "sched_wait (Suc n) t =
     bindU (callU Uwaitx) (\<lambda>(r, bs).
     sched_wait n
       (if 0 \<le> sint (ucast r :: cint)
        then (fst t + le_word (take 4 bs), snd t + le_word (take 4 (drop 4 bs)))
        else t))"

definition schedulertest_main :: "unit uprog" where
  "schedulertest_main =
     bindU (sched_fork 10 0) (\<lambda>n.
     bindU (sched_wait n (0, 0)) (\<lambda>(twtime, trtime).
     thenU (printf ''Average rtime %d,  wtime %d\<newline>'' [AInt (div_int trtime 10), AInt (div_int twtime 10)]) (
     exitU 0)))"

end
