(* ===== verification/UtilsProofs.thy ===== *)
theory UtilsProofs
  imports Utils
begin

text \<open>
  What the utilities do with their input: \<open>cat\<close> copies it, \<open>wc\<close> counts it, \<open>echo\<close> prints its arguments, whatever the pieces in
  which the operating system delivers a file. Which names \<open>syscount\<close> prints.
\<close>

section \<open>cat\<close>

text \<open>Writing to a descriptor takes all bytes.\<close>

definition takes :: "os \<Rightarrow> cint \<Rightarrow> bool" where
  "takes S fd \<longleftrightarrow> (\<forall>h bs. length bs < 2 ^ 31 \<longrightarrow> fst (S (h @ [Uwrite fd bs])) = of_nat (length bs))"

lemma cat_eq:
  assumes "serves S fd inp" and "takes S 1" and "rest = drop (length (got S fd h)) inp" and "length rest < f"
  shows "\<exists>h'. cat f fd S h = (Val (), h') \<and> written 1 h' = written 1 h @ rest"
  using assms(3,4)
proof (induction f arbitrary: h rest)
  case (Suc f)
  obtain k where k: "S (h @ [Uread fd 512]) = (of_nat k, take k rest)" "k \<le> nat (sint (512 :: cint))" "k \<le> length rest"
      "k = 0 \<longrightarrow> rest = [] \<or> sint (512 :: cint) \<le> 0" "sint (ucast (of_nat k :: uint64) :: cint) = int k"
      "drop (length (got S fd (h @ [Uread fd 512]))) inp = drop k rest"
    using serves_read[OF assms(1) Suc.prems(1), of 512] by metis
  let ?h = "h @ [Uread fd 512, Uwrite 1 (take k rest)]"
  show ?case
  proof (cases "k = 0")
    case True
    with k show ?thesis by simp
  next
    case False
    have w: "fst (S ?h) = of_nat k"
      using assms(2)[unfolded takes_def, rule_format, of "take k rest" "h @ [Uread fd 512]"] k(2,3) by simp
    have "drop k rest = drop (length (got S fd ?h)) inp" using k(6) got_snoc[of S fd "h @ [Uread fd 512]" "Uwrite 1 (take k rest)"] by simp
    moreover have "length (drop k rest) < f" using Suc.prems(2) False k(3) by simp
    ultimately obtain h' where h': "cat f fd S ?h = (Val (), h')" "written 1 h' = written 1 ?h @ drop k rest" using Suc.IH by blast
    then have "cat (Suc f) fd S h = (Val (), h')" using k(1,3,5) False w by simp
    moreover have "written 1 h' = written 1 h @ rest" using h'(2) written_simps(2)[of 1 h "[Uread fd 512, Uwrite 1 (take k rest)]"]
      by (simp add: written_def)
    ultimately show ?thesis by blast
  qed
qed simp

text \<open>
  C40. \<open>cat\<close>: in however many pieces the operating system delivers a file, the program comes to its end and has written
  the bytes of the file, in order, to standard output.
\<close>

theorem cat_copies:
  assumes "serves S fd inp" and "takes S 1" and "got S fd h = []" and "length inp < f"
  shows "\<exists>h'. cat f fd S h = (Val (), h') \<and> written 1 h' = written 1 h @ inp"
  using cat_eq[OF assms(1,2), of inp h f] assms(3,4) by simp

theorem cat_copies_witness:
  "\<exists>h'. cat 6 0 (byte_os (bytes_of ''hello'')) [] = (Val (), h') \<and> written 1 h' = bytes_of ''hello''"
proof -
  have "takes (byte_os (bytes_of ''hello'')) 1" by (simp add: takes_def byte_os_def)
  from cat_copies[OF byte_os_serves this, of "[]" 6] show ?thesis by (simp add: bytes_of_def)
qed

section \<open>wc\<close>

definition blank :: "uint8 \<Rightarrow> bool" where
  "blank b \<longleftrightarrow> b \<in> {0x20, 0x0d, 0x09, 0x0a, 0x0b}"

text \<open>The words of a text: the places where a byte that is not blank begins the text or follows a blank.\<close>

definition word_starts :: "uint8 list \<Rightarrow> nat list" where
  "word_starts s = filter (\<lambda>i. \<not> blank (s ! i) \<and> (i = 0 \<or> blank (s ! (i - 1)))) [0..<length s]"

lemma word_starts_snoc:
  "word_starts (s @ [b]) = word_starts s @ (if \<not> blank b \<and> (s = [] \<or> blank (last s)) then [length s] else [])"
proof -
  have "filter (\<lambda>i. \<not> blank ((s @ [b]) ! i) \<and> (i = 0 \<or> blank ((s @ [b]) ! (i - 1)))) [0..<length s] = word_starts s"
    unfolding word_starts_def by (intro filter_cong refl) (auto simp: nth_append)
  then show ?thesis by (cases "s = []") (simp_all add: word_starts_def nth_append last_conv_nth)
qed

lemma wc_bytes:
  "foldl wc_byte \<lparr>wc_l = 0, wc_w = 0, wc_c = 0, wc_inword = False\<rparr> s =
     \<lparr>wc_l = of_nat (count_list s 0x0a), wc_w = of_nat (length (word_starts s)), wc_c = of_nat (length s),
      wc_inword = (s \<noteq> [] \<and> \<not> blank (last s))\<rparr>"
proof (induction s rule: rev_induct)
  case (snoc b s)
  have "strchr blanks b \<noteq> None \<longleftrightarrow> blank b" by (simp add: blanks_def blank_def)
  with snoc show ?case by (auto simp: wc_byte_def word_starts_snoc Let_def add.commute)
qed (simp add: word_starts_def)

lemma wc_loop_eq:
  assumes "serves S fd inp" and "rest = drop (length (got S fd h)) inp" and "length rest < f"
  shows "\<exists>h'. wc_loop f fd s S h = (Val (foldl wc_byte s rest), h') \<and> written 1 h' = written 1 h"
  using assms(2,3)
proof (induction f arbitrary: h rest s)
  case (Suc f)
  obtain k where k: "S (h @ [Uread fd 512]) = (of_nat k, take k rest)" "k \<le> length rest"
      "k = 0 \<longrightarrow> rest = [] \<or> sint (512 :: cint) \<le> 0" "sint (ucast (of_nat k :: uint64) :: cint) = int k"
      "drop (length (got S fd (h @ [Uread fd 512]))) inp = drop k rest"
    using serves_read[OF assms(1) Suc.prems(1), of 512] by metis
  show ?case
  proof (cases "k = 0")
    case False
    then have "length (drop k rest) < f" using Suc.prems(2) k(2) by simp
    from Suc.IH[OF k(5)[symmetric] this, of "foldl wc_byte s (take k rest)"] obtain h' where
      h': "wc_loop f fd (foldl wc_byte s (take k rest)) S (h @ [Uread fd 512]) =
        (Val (foldl wc_byte (foldl wc_byte s (take k rest)) (drop k rest)), h')" "written 1 h' = written 1 h" by auto
    moreover have "foldl wc_byte (foldl wc_byte s (take k rest)) (drop k rest) = foldl wc_byte s rest"
      by (metis append_take_drop_id foldl_append)
    ultimately show ?thesis using k(1,2,4) False by simp
  qed (use k in simp)
qed simp

text \<open>
  C39. \<open>wc\<close>: in however many pieces a file is delivered, the program prints, in decimal, the numbers of its lines, of its
  words and of its bytes, and its name.
\<close>

theorem wc_counts_input:
  assumes "serves S fd inp" and "got S fd h = []" and "length inp < 2 ^ 31" and "length inp < f"
  shows "\<exists>h' l w c. wc f fd name S h = (Val (), h') \<and>
    written 1 h' = written 1 h @ l @ [0x20] @ w @ [0x20] @ c @ [0x20] @ name @ [0x0a] \<and>
    read_int 10 l = int (count_list inp 0x0a) \<and> read_int 10 w = int (length (word_starts inp)) \<and> read_int 10 c = int (length inp)"
proof -
  let ?d = "\<lambda>n :: nat. numeral_of digits (of_nat n :: cint) 10 True"
  let ?l = "count_list inp 0x0a" and ?w = "length (word_starts inp)" and ?c = "length inp"
  define out where "out = ?d ?l @ [0x20] @ ?d ?w @ [0x20] @ ?d ?c @ [0x20] @ name @ [0x0a]"
  have wc_bytes_eq: "foldl wc_byte \<lparr>wc_l = 0, wc_w = 0, wc_c = 0, wc_inword = False\<rparr> inp =
      \<lparr>wc_l = of_nat ?l, wc_w = of_nat ?w, wc_c = of_nat ?c, wc_inword = (inp \<noteq> [] \<and> \<not> blank (last inp))\<rparr>" by (rule wc_bytes)
  obtain h1 where h1: "wc_loop f fd \<lparr>wc_l = 0, wc_w = 0, wc_c = 0, wc_inword = False\<rparr> S h =
      (Val \<lparr>wc_l = of_nat ?l, wc_w = of_nat ?w, wc_c = of_nat ?c, wc_inword = (inp \<noteq> [] \<and> \<not> blank (last inp))\<rparr>, h1)"
      "written 1 h1 = written 1 h"
    using wc_loop_eq[OF assms(1), of inp h f] assms(2,4) unfolding wc_bytes_eq[symmetric] by auto
  have r: "rendered (bytes_of ''%d %d %d %s\<newline>'') [AInt (of_nat ?l), AInt (of_nat ?w), AInt (of_nat ?c), AStr name] = Some out"
    by (simp add: bytes_of_def out_def)
  have "wc f fd name S h = (Val (), h1 @ puts_calls 1 out)"
    using h1(1) vprintf_rendered[OF r, of 1 S h1] by (simp add: wc_def printf_def vprintf_def)
  moreover have "written 1 (h1 @ puts_calls 1 out) = written 1 h @ out" using h1(2) by simp
  moreover have "?l \<le> length inp" "?w \<le> length inp"
    using count_le_length[of inp] length_filter_le[of _ "[0..<length inp]"] by (auto simp: word_starts_def)
  then have "read_int 10 (?d n) = int n" if "n \<in> {?l, ?w, ?c}" for n
    using read_numeral[OF udigits_table, of 10 "of_nat n" True] sint_of_nat_small[of n] that assms(3) by auto
  ultimately show ?thesis unfolding out_def by blast
qed

theorem wc_counts_input_witness:
  "\<exists>h' l w c. wc 12 0 (bytes_of ''f'') (byte_os (bytes_of ''ab  c\<newline>d\<newline>'')) [] = (Val (), h') \<and>
    written 1 h' = l @ [0x20] @ w @ [0x20] @ c @ [0x20] @ bytes_of ''f'' @ [0x0a] \<and>
    read_int 10 l = 2 \<and> read_int 10 w = 3 \<and> read_int 10 c = 8"
proof -
  let ?i = "bytes_of ''ab  c\<newline>d\<newline>''"
  have "count_list ?i 0x0a = 2" "length (word_starts ?i) = 3" "length ?i = 8" by code_simp+
  then show ?thesis using wc_counts_input[OF byte_os_serves[of ?i], of "[]" 12 "bytes_of ''f''"] by simp
qed

section \<open>echo\<close>

lemma strlen_plain: "0 \<notin> set s \<Longrightarrow> strlen_upto n s = n + of_nat (length s)"
  by (induction n s rule: strlen_upto.induct) (auto simp: algebra_simps)

text \<open>The arguments with a blank between two of them.\<close>

fun joined :: "uint8 list list \<Rightarrow> uint8 list" where
  "joined [] = []"
| "joined [a] = a @ [0x0a]"
| "joined (a # as) = a @ [0x20] @ joined as"

lemma echo_args_eq:
  assumes "\<forall>a \<in> set as. 0 \<notin> set a \<and> length a < 2 ^ 32"
  shows "\<exists>h'. echo_args as S h = (Val (), h') \<and> written 1 h' = written 1 h @ joined as"
  using assms
proof (induction as arbitrary: h rule: joined.induct)
  case (2 a)
  then show ?case by (simp add: strlen_def strlen_plain unat_of_nat)
next
  case (3 a b as)
  have "take (unat (strlen a)) a = a" using 3(2) by (simp add: strlen_def strlen_plain unat_of_nat)
  then show ?case using 3(1)[of "h @ [Uwrite 1 a, Uwrite 1 [0x20]]"] 3(2) by auto
qed simp

section \<open>syscount\<close>

text \<open>
  The names \<open>syscount\<close> prints are those of the system calls with the numbers 1 to 18; for \<open>link\<close>, \<open>mkdir\<close>, \<open>close\<close> and
  \<open>waitx\<close> the name of another call is printed.
\<close>

lemma syscount_names:
  "map (\<lambda>k. getSyscallName (drop_bit 1 (push_bit k 1))) [1..<19] =
     [''fork'', ''exit'', ''wait'', ''pipe'', ''read'', ''kill'', ''exec'', ''fstat'', ''chdir'', ''dup'', ''getpid'', ''sbrk'', ''sleep'', ''uptime'',
      ''open'', ''write'', ''mknod'', ''unlink'']"
  "map (\<lambda>k. getSyscallName (drop_bit 1 (push_bit k 1))) [19, 20, 21, 22] = [''fchmod'', ''link'', ''mkdir'', ''close'']"
  by code_simp+

end
