(* ===== verification/Umalloc.thy ===== *)
theory Umalloc
  imports Uos
begin

text \<open>
  The memory allocator of user programs, \<open>user/umalloc.c\<close>. A header is at an address; its fields are two functions of
  addresses. The address of the variable \<open>base\<close> is a parameter. The loops over the circular list have fuel.
\<close>

section \<open>Free blocks\<close>

record heap =
  hd_ptr :: "uint64 \<Rightarrow> uint64"
  hd_size :: "uint64 \<Rightarrow> uint"
  freep :: uint64

definition set_ptr :: "uint64 \<Rightarrow> uint64 \<Rightarrow> heap \<Rightarrow> heap" where
  "set_ptr p q H = H\<lparr>hd_ptr := (hd_ptr H)(p := q)\<rparr>"

definition set_size :: "uint64 \<Rightarrow> uint \<Rightarrow> heap \<Rightarrow> heap" where
  "set_size p n H = H\<lparr>hd_size := (hd_size H)(p := n)\<rparr>"

text \<open>\<open>p + n\<close> for a pointer to a header, of 16 bytes.\<close>

definition hplus :: "uint64 \<Rightarrow> uint \<Rightarrow> uint64" where
  "hplus p n = p + 16 * ucast n"

text \<open>The loop of \<open>free\<close>: the block after which \<open>bp\<close> comes.\<close>

primrec free_find :: "nat \<Rightarrow> heap \<Rightarrow> uint64 \<Rightarrow> uint64 \<Rightarrow> uint64 option" where
  "free_find 0 H bp p = None"
| "free_find (Suc f) H bp p =
     (let q = hd_ptr H p in
      if p < bp \<and> bp < q then Some p
      else if q \<le> p \<and> (p < bp \<or> bp < q) then Some p
      else free_find f H bp q)"

definition free :: "nat \<Rightarrow> uint64 \<Rightarrow> heap \<Rightarrow> heap option" where
  "free f ap H =
     (let bp = ap - 16 in
      case free_find f H bp (freep H) of
        None \<Rightarrow> None
      | Some p \<Rightarrow>
          let q = hd_ptr H p;
              H = (if hplus bp (hd_size H bp) = q
                   then set_ptr bp (hd_ptr H q) (set_size bp (hd_size H bp + hd_size H q) H)
                   else set_ptr bp q H);
              H = (if hplus p (hd_size H p) = bp
                   then set_ptr p (hd_ptr H bp) (set_size p (hd_size H p + hd_size H bp) H)
                   else set_ptr p bp H)
          in Some (H\<lparr>freep := p\<rparr>))"

section \<open>Allocation\<close>

text \<open>The size in bytes is a \<open>uint64\<close> and becomes an \<open>int\<close> for \<open>sbrk\<close>.\<close>

definition morecore :: "nat \<Rightarrow> uint \<Rightarrow> heap \<Rightarrow> (uint64 \<times> heap) uprog" where
  "morecore f nu H =
     (let nu = (if nu < 4096 then 4096 else nu) in
      bindU (callU (Usbrk (ucast (ucast nu * 16 :: uint64)))) (\<lambda>(p, _).
      if p = - 1 then retU (0, H)
      else case free f (hplus p 1) (set_size p nu H) of
          None \<Rightarrow> starveU
        | Some H \<Rightarrow> retU (freep H, H)))"

text \<open>Taking a block that is large enough out of the list, or its end if it is larger.\<close>

definition carve :: "uint \<Rightarrow> uint64 \<Rightarrow> uint64 \<Rightarrow> heap \<Rightarrow> uint64 \<times> heap" where
  "carve nunits prevp p H =
     (if hd_size H p = nunits then (hplus p 1, (set_ptr prevp (hd_ptr H p) H)\<lparr>freep := prevp\<rparr>)
      else
        let H = set_size p (hd_size H p - nunits) H;
            p = hplus p (hd_size H p)
        in (hplus p 1, (set_size p nunits H)\<lparr>freep := prevp\<rparr>))"

primrec malloc_loop :: "nat \<Rightarrow> uint \<Rightarrow> uint64 \<Rightarrow> uint64 \<Rightarrow> heap \<Rightarrow> (uint64 \<times> heap) uprog" where
  "malloc_loop 0 nunits prevp p H = starveU"
| "malloc_loop (Suc f) nunits prevp p H =
     (if nunits \<le> hd_size H p then retU (carve nunits prevp p H)
      else if p = freep H then
        bindU (morecore f nunits H) (\<lambda>(p, H).
        if p = 0 then retU (0, H) else malloc_loop f nunits p (hd_ptr H p) H)
      else malloc_loop f nunits p (hd_ptr H p) H)"

definition units :: "uint \<Rightarrow> uint" where
  "units nbytes = ucast ((ucast nbytes + 16 - 1) div 16 + 1 :: uint64)"

definition malloc :: "nat \<Rightarrow> uint64 \<Rightarrow> uint \<Rightarrow> heap \<Rightarrow> (uint64 \<times> heap) uprog" where
  "malloc f base nbytes H =
     (let H = (if freep H = 0 then set_size base 0 ((set_ptr base base H)\<lparr>freep := base\<rparr>) else H)
      in malloc_loop f (units nbytes) (freep H) (hd_ptr H (freep H)) H)"

end
