(* ===== verification/Sh.thy ===== *)
theory Sh
  imports Umalloc
begin

text \<open>
  The shell, \<open>user/sh.c\<close>. The parser works on a line \<open>s\<close> without its NUL; a pointer into it is an index, and the end
  \<open>es\<close> is the length of the line. The tree of a command is a value of \<open>'a cmd\<close>: for the parser a string is the pair of its
  first index and the index behind its last byte, for \<open>runcmd\<close> it is the bytes. The nodes of the tree are allocated one by one
  with the \<open>malloc\<close> of theory \<open>Umalloc\<close>: since the parser makes no other system call before it is done or panics, the calls of
  the constructors are listed by functions of their own, which follow the parser, and are made when it is done. The
  recursive functions of the parser have fuel.
\<close>

section \<open>Commands\<close>

datatype 'a cmd =
    EXEC "'a list"
  | REDIR "'a cmd" 'a cint cint
  | PIPE "'a cmd" "'a cmd"
  | LIST "'a cmd" "'a cmd"
  | BACK "'a cmd"

type_synonym ptr_cmd = "(nat \<times> nat) cmd"

definition MAXARGS :: nat where "MAXARGS = 10"

text \<open>What can go wrong: a call of \<open>panic\<close>, text left over, no fuel.\<close>

datatype perror = Syntax string | Leftovers nat | NoFuel

type_synonym 'a parsed = "perror + 'a \<times> nat"

section \<open>Tokens\<close>

definition whitespace :: "uint8 list" where
  "whitespace = [0x20, 0x09, 0x0d, 0x0a, 0x0b]"

definition symbols :: "uint8 list" where
  "symbols = bytes_of ''<|>&;()''"

definition byte_at :: "uint8 list \<Rightarrow> nat \<Rightarrow> uint8" where
  "byte_at s i = (if i < length s then s ! i else 0)"

text \<open>The loop \<open>while(s < es && P(*s)) s++\<close>.\<close>

definition skip :: "(uint8 \<Rightarrow> bool) \<Rightarrow> uint8 list \<Rightarrow> nat \<Rightarrow> nat" where
  "skip P s i = i + length (takeWhile P (drop i s))"

definition is_white :: "uint8 \<Rightarrow> bool" where
  "is_white c \<longleftrightarrow> strchr whitespace c \<noteq> None"

definition is_symbol :: "uint8 \<Rightarrow> bool" where
  "is_symbol c \<longleftrightarrow> strchr symbols c \<noteq> None"

text \<open>The token, where it begins and ends, and the new position.\<close>

definition gettoken :: "uint8 list \<Rightarrow> nat \<Rightarrow> uint8 \<times> nat \<times> nat \<times> nat" where
  "gettoken s i =
     (let q = skip is_white s i;
          c = byte_at s q;
          (ret, eq) =
            (if c = 0 then (0, q)
             else if c \<in> set (bytes_of ''|();&<'') then (c, q + 1)
             else if c = 0x3e then if byte_at s (q + 1) = 0x3e then (0x2b, q + 2) else (c, q + 1)
             else (0x61, skip (\<lambda>c. \<not> is_white c \<and> \<not> is_symbol c) s q))
      in (ret, q, eq, skip is_white s eq))"

definition peek :: "uint8 list \<Rightarrow> nat \<Rightarrow> string \<Rightarrow> nat \<times> bool" where
  "peek s i toks =
     (let i = skip is_white s i; c = byte_at s i
      in (i, c \<noteq> 0 \<and> strchr (bytes_of toks) c \<noteq> None))"

lemma skip_le: "i \<le> skip P s i"
  by (simp add: skip_def)

lemma skip_bound: "i \<le> length s \<Longrightarrow> skip P s i \<le> length s"
  using length_takeWhile_le[of P "drop i s"] by (simp add: skip_def)

lemma byte_at_bound: "byte_at s i \<noteq> 0 \<Longrightarrow> i < length s"
  by (simp add: byte_at_def split: if_splits)

lemma skip_stop: "\<not> P (byte_at s (skip P s i)) \<or> length s \<le> skip P s i"
proof -
  have "\<not> P (drop i s ! length (takeWhile P (drop i s)))" if "length (takeWhile P (drop i s)) < length (drop i s)"
    using that by (rule nth_length_takeWhile)
  then show ?thesis by (auto simp: skip_def byte_at_def)
qed

lemma skip_some: "P (byte_at s i) \<Longrightarrow> i < length s \<Longrightarrow> i < skip P s i"
  by (cases "drop i s") (auto simp: skip_def byte_at_def nth_via_drop)

lemma skip_skip: "skip P s (skip P s i) = skip P s i"
  using skip_stop[of P s i] skip_some by (cases "drop (skip P s i) s")
    (auto simp: skip_def byte_at_def nth_via_drop split: if_splits)

lemma symbols_simps: "is_symbol c \<longleftrightarrow> c \<in> {0x3c, 0x7c, 0x3e, 0x26, 0x3b, 0x28, 0x29}"
  "is_white c \<longleftrightarrow> c \<in> {0x20, 0x09, 0x0d, 0x0a, 0x0b}"
  by (simp_all add: is_symbol_def symbols_def is_white_def whitespace_def bytes_of_def)

lemma peek_progress:
  assumes "peek s i toks = (i', b)"
  shows "i \<le> i'" "b \<Longrightarrow> i' < length s" "b \<Longrightarrow> byte_at s i' \<noteq> 0" "i \<le> length s \<Longrightarrow> i' \<le> length s"
  using assms byte_at_bound skip_le[of i is_white s] skip_bound[of i s is_white]
  by (auto simp: peek_def Let_def)

lemma gettoken_progress:
  assumes "gettoken s i = (tok, q, eq, i')"
  shows "i \<le> q" "q \<le> eq" "eq \<le> i'" "tok \<noteq> 0 \<Longrightarrow> q < eq" "tok \<noteq> 0 \<Longrightarrow> q < length s"
    "i \<le> length s \<Longrightarrow> i' \<le> length s"
proof -
  let ?w = "\<lambda>c. \<not> is_white c \<and> \<not> is_symbol c"
  have q: "q = skip is_white s i" and i': "i' = skip is_white s eq"
    using assms by (auto simp: gettoken_def Let_def split: prod.splits)
  show "i \<le> q" "eq \<le> i'" by (simp_all add: q i' skip_le)
  have c: "\<not> is_white (byte_at s q)" if "q < length s" using skip_stop[of is_white s i] that by (auto simp: q)
  have w: "q < skip ?w s q" if "byte_at s q \<noteq> 0" "byte_at s q \<notin> set (bytes_of ''|();&<'')" "byte_at s q \<noteq> 0x3e"
    using skip_some[of ?w s q] c byte_at_bound[of s q] that by (auto simp: symbols_simps bytes_of_def)
  have b: "Suc (Suc q) \<le> length s" if "byte_at s (q + 1) = 0x3e" using byte_at_bound[of s "q + 1"] that by auto
  have eq: "(tok = 0 \<and> eq = q \<and> byte_at s q = 0) \<or>
      (tok \<noteq> 0 \<and> q < length s \<and> q < eq \<and> (eq \<le> length s))"
    using assms w b byte_at_bound[of s q] skip_bound[of q s ?w]
    by (auto simp: gettoken_def Let_def q[symmetric] split: if_splits)
  show "q \<le> eq" "tok \<noteq> 0 \<Longrightarrow> q < eq" "tok \<noteq> 0 \<Longrightarrow> q < length s" using eq by auto
  show "i' \<le> length s" if "i \<le> length s"
    using eq skip_bound[of i s is_white, OF that] skip_bound[of eq s is_white] by (auto simp: q[symmetric] i'[symmetric])
qed

lemma peek_gettoken_less:
  assumes "(i1, b) = peek s i toks" and "(tok, q, eq, i2) = gettoken s i1" and "tok \<noteq> 0"
  shows "i < i2" "i < length s"
  using peek_progress(1)[OF assms(1)[symmetric]] gettoken_progress[OF assms(2)[symmetric]] assms(3) by simp_all

lemma two_tokens_less:
  assumes "(i1, b) = peek s i toks" and "(tok, q1, e1, i2) = gettoken s i1" and "(t, q, eq, i3) = gettoken s i2" and "t \<noteq> 0"
  shows "length s - i3 < length s - i"
  using peek_progress(1)[OF assms(1)[symmetric]] gettoken_progress[OF assms(2)[symmetric]]
    gettoken_progress[OF assms(3)[symmetric]] assms(4) by simp

section \<open>The parser\<close>

text \<open>\<open>O_RDONLY\<close> is 0, \<open>O_WRONLY|O_CREATE|O_TRUNC\<close> is 0x601 and \<open>O_WRONLY|O_CREATE\<close> is 0x201.\<close>

definition redir :: "uint8 \<Rightarrow> 'a cmd \<Rightarrow> 'a \<Rightarrow> 'a cmd" where
  "redir tok cmd f =
     (if tok = 0x3c then REDIR cmd f 0 0
      else if tok = 0x3e then REDIR cmd f 0x601 1
      else if tok = 0x2b then REDIR cmd f 0x201 1
      else cmd)"

function parseredirs :: "ptr_cmd \<Rightarrow> uint8 list \<Rightarrow> nat \<Rightarrow> ptr_cmd parsed" where
  "parseredirs cmd s i =
     (case peek s i ''<>'' of (i, again) \<Rightarrow>
      if \<not> again then Inr (cmd, i)
      else case gettoken s i of (tok, _, _, i) \<Rightarrow>
        case gettoken s i of (t, q, eq, i) \<Rightarrow>
        if t \<noteq> 0x61 then Inl (Syntax ''missing file for redirection'')
        else parseredirs (redir tok cmd (q, eq)) s i)"
  by pat_completeness auto
termination
  by (relation "measure (\<lambda>(cmd, s, i). length s - i)") (auto intro: two_tokens_less)

declare parseredirs.simps [simp del]

text \<open>A word of the line: as long as it can be, without white space or symbols.\<close>

definition is_word :: "uint8 list \<Rightarrow> nat \<times> nat \<Rightarrow> bool" where
  "is_word s w = (case w of (q, eq) \<Rightarrow> q < eq \<and> eq \<le> length s \<and>
     (\<forall>k \<in> {q..<eq}. \<not> is_white (s ! k) \<and> \<not> is_symbol (s ! k)) \<and>
     (eq < length s \<longrightarrow> is_white (s ! eq) \<or> is_symbol (s ! eq)))"

lemma skip_all: "k < skip P s i \<Longrightarrow> i \<le> k \<Longrightarrow> i \<le> length s \<Longrightarrow> P (s ! k)"
  using nth_mem[of "k - i" "takeWhile P (drop i s)"] set_takeWhileD[of _ P "drop i s"] takeWhile_nth[of "k - i" P "drop i s"]
  by (force simp: skip_def)

lemma gettoken_word:
  assumes "gettoken s i = (0x61, q, eq, i')"
  shows "is_word s (q, eq)"
proof -
  let ?w = "\<lambda>c. \<not> is_white c \<and> \<not> is_symbol c"
  have eq: "eq = skip ?w s q" using assms by (auto simp: gettoken_def Let_def bytes_of_def split: if_splits prod.splits)
  have q: "q < eq" "q < length s" using gettoken_progress[OF assms] by auto
  then have "eq \<le> length s" using skip_bound[of q s ?w] by (simp add: eq)
  moreover have "?w (s ! k)" if "k \<in> {q..<eq}" for k using skip_all[of k ?w s q] that q by (simp add: eq)
  moreover have "\<not> ?w (s ! eq)" if "eq < length s" using skip_stop[of ?w s q] that by (simp add: eq byte_at_def split: if_splits)
  ultimately show ?thesis using q by (auto simp: is_word_def)
qed

text \<open>What a redirection keeps, \<open>parseredirs\<close> keeps.\<close>

lemma parseredirs_invariant:
  assumes "parseredirs cmd s i = Inr (cmd', i')" and "P cmd i"
    and "\<And>cmd i i'. P cmd i \<Longrightarrow> i \<le> i' \<Longrightarrow> (i \<le> length s \<Longrightarrow> i' \<le> length s) \<Longrightarrow> P cmd i'"
    and "\<And>cmd i tok w. P cmd i \<Longrightarrow> is_word s w \<Longrightarrow> P (redir tok cmd w) i"
  shows "P cmd' i'"
  using assms
proof (induction cmd s i rule: parseredirs.induct)
  case (1 cmd s i)
  obtain i1 again where p: "peek s i ''<>'' = (i1, again)" by fastforce
  have P1: "P cmd i1" using "1.prems"(3)[OF "1.prems"(2)] peek_progress[OF p] by blast
  show ?case
  proof (cases again)
    case True
    obtain tok q1 e1 i2 where g: "gettoken s i1 = (tok, q1, e1, i2)" by (metis prod_cases4)
    obtain t q eq i3 where g': "gettoken s i2 = (t, q, eq, i3)" by (metis prod_cases4)
    have t: "t = 0x61" and r: "parseredirs (redir tok cmd (q, eq)) s i3 = Inr (cmd', i')"
      using "1.prems"(1) True p g g' by (subst (asm) parseredirs.simps, simp split: if_splits)+
    have "P cmd i3" using "1.prems"(3)[OF P1] gettoken_progress[OF g] gettoken_progress[OF g'] by simp
    then have P3: "P (redir tok cmd (q, eq)) i3" using "1.prems"(4) gettoken_word[of s i2 q eq i3] g' t by blast
    show ?thesis
      using "1.IH"[OF p[symmetric] _ g[symmetric] refl refl g'[symmetric] refl refl _ r P3 "1.prems"(3,4)] True t by simp
  qed (use "1.prems"(1) p P1 in \<open>subst (asm) parseredirs.simps, simp\<close>)
qed

lemma parseredirs_progress:
  assumes "parseredirs cmd s i = Inr (cmd', i')"
  shows "i \<le> i' \<and> (i \<le> length s \<longrightarrow> i' \<le> length s)"
  by (rule parseredirs_invariant[OF assms, of "\<lambda>_ k. i \<le> k \<and> (i \<le> length s \<longrightarrow> k \<le> length s)"]) simp_all

lemma parseredirs_fuel: "parseredirs cmd s i \<noteq> Inl NoFuel"
proof (induction cmd s i rule: parseredirs.induct)
  case (1 cmd s i)
  then show ?case by (subst parseredirs.simps) (auto split: prod.split)
qed

text \<open>The node \<open>execcmd\<close> made is the innermost one, under the redirections found so far.\<close>

fun add_arg :: "'a cmd \<Rightarrow> 'a \<Rightarrow> 'a cmd" where
  "add_arg (EXEC as) a = EXEC (as @ [a])"
| "add_arg (REDIR c f mode fd) a = REDIR (add_arg c a) f mode fd"
| "add_arg c a = c"

lemma args_less:
  assumes "(i1, b) = peek s i toks" and "(tok, q, eq, i2) = gettoken s i1" and "tok \<noteq> 0" and "parseredirs c s i2 = Inr (c', i3)"
  shows "length s - i3 < length s - i"
  using peek_gettoken_less[OF assms(1-3)] parseredirs_progress[OF assms(4)] by linarith

function parseargs :: "ptr_cmd \<Rightarrow> nat \<Rightarrow> uint8 list \<Rightarrow> nat \<Rightarrow> ptr_cmd parsed" where
  "parseargs ret argc s i =
     (case peek s i ''|)&;'' of (i, stop) \<Rightarrow>
      if stop then Inr (ret, i)
      else case gettoken s i of (tok, q, eq, i) \<Rightarrow>
        if tok = 0 then Inr (ret, i)
        else if tok \<noteq> 0x61 then Inl (Syntax ''syntax'')
        else if MAXARGS \<le> argc + 1 then Inl (Syntax ''too many args'')
        else case parseredirs (add_arg ret (q, eq)) s i of
            Inl e \<Rightarrow> Inl e
          | Inr (ret, i) \<Rightarrow> parseargs ret (argc + 1) s i)"
  by pat_completeness auto
termination
  by (relation "measure (\<lambda>(ret, argc, s, i). length s - i)") (auto intro: args_less)

declare parseargs.simps [simp del]

text \<open>The loop of \<open>parseline\<close> over \<open>&\<close>.\<close>

lemma peek_tok:
  assumes "peek s i toks = (i1, True)"
  shows "gettoken s i1 = (tok, q, eq, i2) \<Longrightarrow> tok \<noteq> 0 \<and> i < i2 \<and> i < length s"
proof -
  assume g: "gettoken s i1 = (tok, q, eq, i2)"
  have i1: "i1 = skip is_white s i" "byte_at s i1 \<noteq> 0" using assms by (auto simp: peek_def Let_def)
  then have "q = i1" using g by (auto simp: gettoken_def Let_def skip_skip split: prod.splits)
  then have "tok \<noteq> 0" using g i1(2) by (auto simp: gettoken_def Let_def bytes_of_def split: prod.splits if_splits)
  with peek_progress[OF assms] gettoken_progress[OF g] show ?thesis by auto
qed

function parseback :: "ptr_cmd \<Rightarrow> uint8 list \<Rightarrow> nat \<Rightarrow> ptr_cmd \<times> nat" where
  "parseback cmd s i =
     (case peek s i ''&'' of (i, again) \<Rightarrow>
      if \<not> again then (cmd, i)
      else case gettoken s i of (_, _, _, i) \<Rightarrow> parseback (BACK cmd) s i)"
  by pat_completeness auto
termination
  by (relation "measure (\<lambda>(cmd, s, i). length s - i)") (auto dest!: peek_tok[OF sym] dest: sym)

declare parseback.simps [simp del]

fun parseline :: "nat \<Rightarrow> uint8 list \<Rightarrow> nat \<Rightarrow> ptr_cmd parsed"
  and parsepipe :: "nat \<Rightarrow> uint8 list \<Rightarrow> nat \<Rightarrow> ptr_cmd parsed"
  and parseblock :: "nat \<Rightarrow> uint8 list \<Rightarrow> nat \<Rightarrow> ptr_cmd parsed"
  and parseexec :: "nat \<Rightarrow> uint8 list \<Rightarrow> nat \<Rightarrow> ptr_cmd parsed" where
  "parseline 0 s i = Inl NoFuel"
| "parseline (Suc f) s i =
     (case parsepipe f s i of
        Inl e \<Rightarrow> Inl e
      | Inr (cmd, i) \<Rightarrow>
          case parseback cmd s i of (cmd, i) \<Rightarrow>
          case peek s i '';'' of (i, again) \<Rightarrow>
          if \<not> again then Inr (cmd, i)
          else case gettoken s i of (_, _, _, i) \<Rightarrow>
            case parseline f s i of
              Inl e \<Rightarrow> Inl e
            | Inr (right, i) \<Rightarrow> Inr (LIST cmd right, i))"
| "parsepipe 0 s i = Inl NoFuel"
| "parsepipe (Suc f) s i =
     (case parseexec f s i of
        Inl e \<Rightarrow> Inl e
      | Inr (cmd, i) \<Rightarrow>
          case peek s i ''|'' of (i, again) \<Rightarrow>
          if \<not> again then Inr (cmd, i)
          else case gettoken s i of (_, _, _, i) \<Rightarrow>
            case parsepipe f s i of
              Inl e \<Rightarrow> Inl e
            | Inr (right, i) \<Rightarrow> Inr (PIPE cmd right, i))"
| "parseblock 0 s i = Inl NoFuel"
| "parseblock (Suc f) s i =
     (case peek s i ''('' of (i, b) \<Rightarrow>
      if \<not> b then Inl (Syntax ''parseblock'')
      else case gettoken s i of (_, _, _, i) \<Rightarrow>
        case parseline f s i of
          Inl e \<Rightarrow> Inl e
        | Inr (cmd, i) \<Rightarrow>
            case peek s i '')'' of (i, b) \<Rightarrow>
            if \<not> b then Inl (Syntax ''syntax - missing )'')
            else case gettoken s i of (_, _, _, i) \<Rightarrow> parseredirs cmd s i)"
| "parseexec 0 s i = Inl NoFuel"
| "parseexec (Suc f) s i =
     (case peek s i ''('' of (i, b) \<Rightarrow>
      if b then parseblock f s i
      else case parseredirs (EXEC []) s i of
          Inl e \<Rightarrow> Inl e
        | Inr (ret, i) \<Rightarrow> parseargs ret 0 s i)"

section \<open>The nodes the parser allocates\<close>

text \<open>\<open>sizeof\<close> of the nodes.\<close>

definition sz_execcmd :: uint where "sz_execcmd = 168"
definition sz_redircmd :: uint where "sz_redircmd = 40"
definition sz_pipecmd :: uint where "sz_pipecmd = 24"
definition sz_listcmd :: uint where "sz_listcmd = 24"
definition sz_backcmd :: uint where "sz_backcmd = 16"

text \<open>The sizes that the constructors called by each function of the parser pass to \<open>malloc\<close>, in order, also when the parser panics.\<close>

function redirs_nodes :: "uint8 list \<Rightarrow> nat \<Rightarrow> uint list" where
  "redirs_nodes s i =
     (case peek s i ''<>'' of (i, again) \<Rightarrow>
      if \<not> again then []
      else case gettoken s i of (tok, _, _, i) \<Rightarrow>
        case gettoken s i of (t, q, eq, i) \<Rightarrow>
        if t \<noteq> 0x61 then []
        else (if tok \<in> {0x3c, 0x3e, 0x2b} then [sz_redircmd] else []) @ redirs_nodes s i)"
  by pat_completeness auto
termination
  by (relation "measure (\<lambda>(s, i). length s - i)") (auto intro: two_tokens_less)

declare redirs_nodes.simps [simp del]

function args_nodes :: "ptr_cmd \<Rightarrow> nat \<Rightarrow> uint8 list \<Rightarrow> nat \<Rightarrow> uint list" where
  "args_nodes ret argc s i =
     (case peek s i ''|)&;'' of (i, stop) \<Rightarrow>
      if stop then []
      else case gettoken s i of (tok, q, eq, i) \<Rightarrow>
        if tok = 0 then []
        else if tok \<noteq> 0x61 then []
        else if MAXARGS \<le> argc + 1 then []
        else redirs_nodes s i @ (case parseredirs (add_arg ret (q, eq)) s i of
            Inl e \<Rightarrow> []
          | Inr (ret, i) \<Rightarrow> args_nodes ret (argc + 1) s i))"
  by pat_completeness auto
termination
  by (relation "measure (\<lambda>(ret, argc, s, i). length s - i)") (auto intro: args_less)

declare args_nodes.simps [simp del]

function back_nodes :: "uint8 list \<Rightarrow> nat \<Rightarrow> uint list" where
  "back_nodes s i =
     (case peek s i ''&'' of (i, again) \<Rightarrow>
      if \<not> again then []
      else case gettoken s i of (_, _, _, i) \<Rightarrow> sz_backcmd # back_nodes s i)"
  by pat_completeness auto
termination
  by (relation "measure (\<lambda>(s, i). length s - i)") (auto dest!: peek_tok[OF sym] dest: sym)

declare back_nodes.simps [simp del]

fun line_nodes :: "nat \<Rightarrow> uint8 list \<Rightarrow> nat \<Rightarrow> uint list"
  and pipe_nodes :: "nat \<Rightarrow> uint8 list \<Rightarrow> nat \<Rightarrow> uint list"
  and block_nodes :: "nat \<Rightarrow> uint8 list \<Rightarrow> nat \<Rightarrow> uint list"
  and exec_nodes :: "nat \<Rightarrow> uint8 list \<Rightarrow> nat \<Rightarrow> uint list" where
  "line_nodes 0 s i = []"
| "line_nodes (Suc f) s i =
     pipe_nodes f s i @ (case parsepipe f s i of
        Inl e \<Rightarrow> []
      | Inr (cmd, i) \<Rightarrow>
          back_nodes s i @ (case parseback cmd s i of (cmd, i) \<Rightarrow>
          case peek s i '';'' of (i, again) \<Rightarrow>
          if \<not> again then []
          else case gettoken s i of (_, _, _, i) \<Rightarrow>
            line_nodes f s i @ (case parseline f s i of
              Inl e \<Rightarrow> []
            | Inr (right, i) \<Rightarrow> [sz_listcmd])))"
| "pipe_nodes 0 s i = []"
| "pipe_nodes (Suc f) s i =
     exec_nodes f s i @ (case parseexec f s i of
        Inl e \<Rightarrow> []
      | Inr (cmd, i) \<Rightarrow>
          case peek s i ''|'' of (i, again) \<Rightarrow>
          if \<not> again then []
          else case gettoken s i of (_, _, _, i) \<Rightarrow>
            pipe_nodes f s i @ (case parsepipe f s i of
              Inl e \<Rightarrow> []
            | Inr (right, i) \<Rightarrow> [sz_pipecmd]))"
| "block_nodes 0 s i = []"
| "block_nodes (Suc f) s i =
     (case peek s i ''('' of (i, b) \<Rightarrow>
      if \<not> b then []
      else case gettoken s i of (_, _, _, i) \<Rightarrow>
        line_nodes f s i @ (case parseline f s i of
          Inl e \<Rightarrow> []
        | Inr (cmd, i) \<Rightarrow>
            case peek s i '')'' of (i, b) \<Rightarrow>
            if \<not> b then []
            else case gettoken s i of (_, _, _, i) \<Rightarrow> redirs_nodes s i))"
| "exec_nodes 0 s i = []"
| "exec_nodes (Suc f) s i =
     (case peek s i ''('' of (i, b) \<Rightarrow>
      if b then block_nodes f s i
      else sz_execcmd # redirs_nodes s i @ (case parseredirs (EXEC []) s i of
          Inl e \<Rightarrow> []
        | Inr (ret, i) \<Rightarrow> args_nodes ret 0 s i))"

definition cmd_nodes :: "uint8 list \<Rightarrow> uint list" where
  "cmd_nodes s = line_nodes (4 * length s + 4) s 0"

text \<open>The buffer is the line with its NUL.\<close>

fun nulterminate :: "ptr_cmd \<Rightarrow> uint8 list \<Rightarrow> uint8 list" where
  "nulterminate (EXEC as) buf = foldl (\<lambda>buf (q, eq). buf[eq := 0]) buf as"
| "nulterminate (REDIR c (q, eq) mode fd) buf = (nulterminate c buf)[eq := 0]"
| "nulterminate (PIPE l r) buf = nulterminate r (nulterminate l buf)"
| "nulterminate (LIST l r) buf = nulterminate r (nulterminate l buf)"
| "nulterminate (BACK c) buf = nulterminate c buf"

text \<open>The tree and the buffer its pointers lead into.\<close>

definition parsecmd :: "uint8 list \<Rightarrow> perror + ptr_cmd \<times> uint8 list" where
  "parsecmd s =
     (case parseline (4 * length s + 4) s 0 of
        Inl e \<Rightarrow> Inl e
      | Inr (cmd, i) \<Rightarrow>
          case peek s i [] of (i, _) \<Rightarrow>
          if i \<noteq> length s then Inl (Leftovers i)
          else Inr (cmd, nulterminate cmd (s @ [0])))"

text \<open>The command as the strings its pointers lead to.\<close>

definition cstring :: "uint8 list \<Rightarrow> nat \<Rightarrow> uint8 list" where
  "cstring buf q = takeWhile (\<lambda>c. c \<noteq> 0) (drop q buf)"

definition strings :: "ptr_cmd \<times> uint8 list \<Rightarrow> uint8 list cmd" where
  "strings p = (case p of (cmd, buf) \<Rightarrow> map_cmd (\<lambda>(q, eq). cstring buf q) cmd)"

section \<open>Running commands\<close>

definition panic :: "string \<Rightarrow> 'a uprog" where
  "panic s = thenU (fprintf 2 ''%s\<newline>'' [AStr (bytes_of s)]) (exitU 1)"

definition fork1 :: "cint uprog" where
  "fork1 = bindU (sysU Ufork) (\<lambda>pid. if pid = - 1 then panic ''fork'' else retU pid)"

text \<open>
  The calls of \<open>malloc\<close> by the constructors. None of them checks the result: \<open>memset\<close> at address 0, where the program's text is,
  is a fault.
\<close>

primrec new_nodes :: "nat \<Rightarrow> uint64 \<Rightarrow> uint list \<Rightarrow> heap \<Rightarrow> unit uprog" where
  "new_nodes g base [] H = retU ()"
| "new_nodes g base (n # ns) H =
     bindU (malloc g base n H) (\<lambda>(cmd, H).
     if cmd = 0 then faultU else new_nodes g base ns H)"

definition heap0 :: heap where
  "heap0 = \<lparr>hd_ptr = (\<lambda>_. 0), hd_size = (\<lambda>_. 0), freep = 0\<rparr>"

text \<open>\<open>parsecmd\<close> with its allocations and panics. The child has the heap of the shell, which has allocated nothing.\<close>

definition parse_line :: "nat \<Rightarrow> uint64 \<Rightarrow> uint8 list \<Rightarrow> uint8 list cmd uprog" where
  "parse_line g base s =
     thenU (new_nodes g base (cmd_nodes s) heap0)
     (case parsecmd s of
        Inl (Syntax m) \<Rightarrow> panic m
      | Inl (Leftovers i) \<Rightarrow> thenU (fprintf 2 ''leftovers: %s\<newline>'' [AStr (drop i s)]) (panic ''syntax'')
      | Inl NoFuel \<Rightarrow> starveU
      | Inr p \<Rightarrow> retU (strings p))"

primrec runcmd :: "uint8 list cmd \<Rightarrow> unit uprog" where
  "runcmd (EXEC as) =
     (case as of
        [] \<Rightarrow> exitU 1
      | a # _ \<Rightarrow>
          thenU (execU a as) (
          thenU (fprintf 2 ''exec %s failed\<newline>'' [AStr a]) (
          exitU 0)))"
| "runcmd (REDIR c f mode fd) =
     thenU (sysU (Uclose fd)) (
     bindU (sysU (Uopen f mode)) (\<lambda>r.
     if sint r < 0 then thenU (fprintf 2 ''open %s failed\<newline>'' [AStr f]) (exitU 1)
     else runcmd c))"
| "runcmd (LIST l r) =
     bindU fork1 (\<lambda>pid.
     if pid = 0 then runcmd l
     else thenU (sysU Uwait) (runcmd r))"
| "runcmd (PIPE l r) =
     bindU (callU Upipe) (\<lambda>(v, bs).
     if sint (ucast v :: cint) < 0 then panic ''pipe''
     else
       let p0 = le_word (take 4 bs) :: cint; p1 = le_word (take 4 (drop 4 bs)) in
       bindU fork1 (\<lambda>pid.
       if pid = 0 then
         thenU (sysU (Uclose 1)) (
         thenU (sysU (Udup p1)) (
         thenU (sysU (Uclose p0)) (
         thenU (sysU (Uclose p1)) (
         runcmd l))))
       else
         bindU fork1 (\<lambda>pid.
         if pid = 0 then
           thenU (sysU (Uclose 0)) (
           thenU (sysU (Udup p0)) (
           thenU (sysU (Uclose p0)) (
           thenU (sysU (Uclose p1)) (
           runcmd r))))
         else
           thenU (sysU (Uclose p0)) (
           thenU (sysU (Uclose p1)) (
           thenU (sysU Uwait) (
           thenU (sysU Uwait) (
           exitU 0)))))))"
| "runcmd (BACK c) = bindU fork1 (\<lambda>pid. if pid = 0 then runcmd c else exitU 0)"

section \<open>The loop over lines\<close>

text \<open>The line read, or nothing at the end of the input.\<close>

definition getcmd :: "uint8 list option uprog" where
  "getcmd =
     thenU (sysU (Uwrite 2 (bytes_of ''$ ''))) (
     bindU (gets 100) (\<lambda>buf.
     let s = takeWhile (\<lambda>c. c \<noteq> 0) buf in
     retU (if s = [] then None else Some s)))"

text \<open>The fuel \<open>g\<close> and the address \<open>base\<close> are those of \<open>malloc\<close>.\<close>

primrec sh_loop :: "nat \<Rightarrow> nat \<Rightarrow> uint64 \<Rightarrow> unit uprog" where
  "sh_loop 0 g base = starveU"
| "sh_loop (Suc f) g base =
     bindU getcmd (\<lambda>line.
     case line of
       None \<Rightarrow> exitU 0
     | Some s \<Rightarrow>
         if take 3 s = bytes_of ''cd '' then
           let dir = drop 3 (butlast s) in
           bindU (sysU (Uchdir dir)) (\<lambda>r.
           thenU (whenU (sint r < 0) (fprintf 2 ''cannot cd %s\<newline>'' [AStr dir])) (
           sh_loop f g base))
         else
           bindU fork1 (\<lambda>pid.
           if pid = 0 then bindU (parse_line g base s) runcmd
           else thenU (sysU Uwait) (sh_loop f g base)))"

primrec open_console :: "nat \<Rightarrow> unit uprog" where
  "open_console 0 = starveU"
| "open_console (Suc f) =
     bindU (sysU (Uopen (bytes_of ''console'') 2)) (\<lambda>fd.
     if sint fd < 0 then retU ()
     else if 3 \<le> sint fd then thenU (sysU (Uclose fd)) (retU ())
     else open_console f)"

definition sh_main :: "nat \<Rightarrow> nat \<Rightarrow> uint64 \<Rightarrow> unit uprog" where
  "sh_main f g base = thenU (open_console f) (sh_loop f g base)"

end
