(* ===== verification/UmallocProofs.thy ===== *)
theory UmallocProofs
  imports Umalloc "HOL-Library.Multiset"
begin

text \<open>
  The allocator keeps its free list in order: a circle of blocks with rising addresses, beginning at \<open>base\<close>, in which no
  two blocks touch. Freed blocks go back, blocks that are handed out overlap no other.
\<close>

section \<open>The free list\<close>

text \<open>Following the pointers from \<open>p\<close> through \<open>ps\<close> to \<open>q\<close>.\<close>

fun trail :: "(uint64 \<Rightarrow> uint64) \<Rightarrow> uint64 \<Rightarrow> uint64 list \<Rightarrow> uint64 \<Rightarrow> bool" where
  "trail m p [] q \<longleftrightarrow> m p = q"
| "trail m p (r # ps) q \<longleftrightarrow> m p = r \<and> trail m r ps q"

text \<open>The bytes of a block, and the address behind them.\<close>

definition bend :: "heap \<Rightarrow> uint64 \<Rightarrow> nat" where
  "bend H b = unat b + 16 * unat (hd_size H b)"

definition bytes :: "heap \<Rightarrow> uint64 \<Rightarrow> nat set" where
  "bytes H b = {unat b..<bend H b}"

text \<open>
  The free list: base and then the free blocks, with rising addresses. No two of them touch, so neighbours have been
  joined. The heap is below 64 GiB, more than the memory of the machine, so the size of no block overflows.
\<close>

definition free_ok :: "uint64 \<Rightarrow> heap \<Rightarrow> uint64 list \<Rightarrow> bool" where
  "free_ok base H bs \<longleftrightarrow>
     trail (hd_ptr H) base bs base \<and> freep H \<in> set (base # bs) \<and> base \<noteq> 0 \<and> hd_size H base = 0 \<and>
     sorted_wrt (\<lambda>a b. bend H a < unat b) (base # bs) \<and>
     (\<forall>b \<in> set bs. unat base + 16 \<le> unat b \<and> 0 < hd_size H b \<and> bend H b < 2 ^ 36)"

lemma trail_append: "trail m p (xs @ y # ys) q \<longleftrightarrow> trail m p xs y \<and> trail m y ys q"
  by (induction xs arbitrary: p) auto

lemma trail_last: "trail m p xs q \<Longrightarrow> m (last (p # xs)) = q"
  by (induction xs arbitrary: p) auto

lemma trail_upd: "x \<notin> set (p # ps) \<Longrightarrow> trail (m(x := y)) p ps q = trail m p ps q"
  by (induction ps arbitrary: p) auto

lemma trail_upd_last: "trail m p xs q \<Longrightarrow> distinct (p # xs) \<Longrightarrow> trail (m(last (p # xs) := r)) p xs r"
  by (induction xs arbitrary: p) auto

lemma free_find_below:
  assumes "trail (hd_ptr H) n zs r" and "sorted_wrt (<) (n # zs)" and "\<forall>z \<in> set (n # zs). z < bp"
    and "bp < r \<or> r \<le> n" and "length zs < f"
  shows "free_find f H bp n = Some (last (n # zs))"
  using assms
proof (induction zs arbitrary: n f)
  case Nil
  then show ?case by (cases f) (auto simp: Let_def)
next
  case (Cons z zs)
  then obtain f' where f: "f = Suc f'" by (cases f) auto
  have "r \<le> n \<Longrightarrow> r \<le> z" using Cons.prems(2) by auto
  with Cons.IH[of z f'] Cons.prems have "free_find f' H bp z = Some (last (z # zs))" by (auto simp: f)
  with Cons.prems show ?case by (auto simp: f Let_def)
qed

lemma free_find_above:
  assumes "trail (hd_ptr H) n zs r" and "sorted_wrt (<) (n # zs)" and "\<forall>z \<in> set (n # zs). bp < z" and "r < bp"
  shows "free_find (f + length (n # zs)) H bp n = free_find f H bp r"
  using assms
proof (induction zs arbitrary: n)
  case (Cons z zs)
  then show ?case by (auto simp: Let_def)
qed (auto simp: Let_def)

lemma trail_split:
  "trail m b bs q \<Longrightarrow> b # bs = us @ n # vs \<Longrightarrow> trail m n vs q"
  by (cases us) (auto simp: trail_append)

lemma free_ok_less:
  assumes "free_ok base H bs"
  shows "sorted_wrt (<) (base # bs)" "distinct (base # bs)" "\<And>b. b \<in> set bs \<Longrightarrow> base < b" "\<And>b. b \<in> set (base # bs) \<Longrightarrow> b \<noteq> 0"
proof -
  have "sorted_wrt (\<lambda>a b. bend H a < unat b) (base # bs)" using assms by (simp add: free_ok_def)
  then show s: "sorted_wrt (<) (base # bs)"
    by (rule sorted_wrt_mono_rel[rotated]) (auto simp: bend_def word_less_nat_alt)
  then show "distinct (base # bs)" by (simp only: strict_sorted_iff)
  show "base < b" if "b \<in> set bs" for b using s that by simp
  then show "b \<noteq> 0" if "b \<in> set (base # bs)" for b using assms that by (auto simp: free_ok_def)
qed

lemma free_find_eq:
  assumes "free_ok base H (xs @ ys)" and "\<forall>x \<in> set xs. x < bp" and "\<forall>y \<in> set ys. bp < y" and "base < bp"
    and "n \<in> set (base # xs @ ys)" and "Suc (length (xs @ ys)) < f"
  shows "free_find f H bp n = Some (last (base # xs))"
proof -
  let ?m = "hd_ptr H"
  note ch = assms(1)[unfolded free_ok_def, THEN conjunct1]
  note srt = free_ok_less(1)[OF assms(1)]
  have below: "free_find g H bp n = Some (last (base # xs))" if "base # xs = us @ n # vs" "length xs < g" for g n us vs
  proof -
    have "trail ?m n (vs @ ys) base" by (rule trail_split[OF ch, of us]) (use that in simp)
    then have "trail ?m n vs (hd (ys @ [base]))" by (cases ys) (auto simp: trail_append)
    moreover have "sorted_wrt (<) (n # vs)" "base \<le> n" "\<forall>z \<in> set (n # vs). z < bp" "length vs < g"
      using srt assms(2,4) that by (cases us; auto simp: sorted_wrt_append)+
    moreover have "bp < hd (ys @ [base]) \<or> hd (ys @ [base]) \<le> n" using assms(3) \<open>base \<le> n\<close> by (cases ys) auto
    ultimately have "free_find g H bp n = Some (last (n # vs))" by (intro free_find_below)
    then show ?thesis using that(1) by (metis last_appendR list.distinct(1))
  qed
  show ?thesis
  proof (cases "n \<in> set (base # xs)")
    case True
    then show ?thesis using below[of _ n _ f] assms(6) by (metis split_list add_lessD1 length_append Suc_lessD)
  next
    case False
    with assms(5) obtain us vs where y: "ys = us @ n # vs" by (auto dest: split_list)
    have "trail ?m n vs base" by (rule trail_split[OF ch, of "base # xs @ us"]) (simp add: y)
    moreover have "sorted_wrt (<) (n # vs)" "\<forall>z \<in> set (n # vs). bp < z" using srt assms(3) by (auto simp: y sorted_wrt_append)
    ultimately have "free_find (f - length (n # vs) + length (n # vs)) H bp n = free_find (f - length (n # vs)) H bp base"
      using assms(4) by (intro free_find_above)
    moreover have "length xs < f - length (n # vs)" "length (n # vs) \<le> f" using assms(6) by (simp_all add: y)
    ultimately show ?thesis using below[of "[]" base xs "f - length (n # vs)"] by (simp only: le_add_diff_inverse2 append_Nil)
  qed
qed

section \<open>Freeing a block\<close>

lemma hplus_eq: "unat p + 16 * unat n < 2 ^ 64 \<Longrightarrow> unat (hplus p n) = unat p + 16 * unat n"
proof -
  assume a: "unat p + 16 * unat n < 2 ^ 64"
  have "unat (ucast n :: uint64) = unat n" using unsigned_less[where 'a = nat, of n]
    by (simp add: unsigned_ucast_eq take_bit_nat_eq_self)
  then have "unat (16 * ucast n :: uint64) = 16 * unat n" using a by (simp add: unat_mult_lem[THEN iffD1])
  then show ?thesis using a by (simp add: hplus_def unat_add_lem[THEN iffD1])
qed

lemma hplus_is: "bend H p < 2 ^ 64 \<Longrightarrow> hplus p (hd_size H p) = q \<longleftrightarrow> bend H p = unat q"
  using hplus_eq[of p "hd_size H p"] by (auto simp: bend_def word_unat_eq_iff)

text \<open>A block \<open>b\<close> with the blocks behind it, not yet linked to those before it.\<close>

definition tail_ok :: "uint64 \<Rightarrow> heap \<Rightarrow> uint64 \<Rightarrow> uint64 list \<Rightarrow> bool" where
  "tail_ok base H b ys \<longleftrightarrow> trail (hd_ptr H) b ys base \<and> sorted_wrt (\<lambda>a b. bend H a < unat b) (b # ys) \<and>
     (\<forall>y \<in> set (b # ys). unat base + 16 \<le> unat y \<and> 0 < hd_size H y \<and> bend H y < 2 ^ 36)"

definition join_right :: "uint64 \<Rightarrow> uint64 \<Rightarrow> heap \<Rightarrow> heap" where
  "join_right bp q H =
     (if hplus bp (hd_size H bp) = q
      then set_ptr bp (hd_ptr H q) (set_size bp (hd_size H bp + hd_size H q) H)
      else set_ptr bp q H)"

definition join_left :: "uint64 \<Rightarrow> uint64 \<Rightarrow> heap \<Rightarrow> heap" where
  "join_left p bp H =
     (if hplus p (hd_size H p) = bp
      then set_ptr p (hd_ptr H bp) (set_size p (hd_size H p + hd_size H bp) H)
      else set_ptr p bp H)"

lemma free_joins:
  "free_find f H (ap - 16) (freep H) = Some p \<Longrightarrow>
   free f ap H = Some ((join_left p (ap - 16) (join_right (ap - 16) (hd_ptr H p) H))\<lparr>freep := p\<rparr>)"
  by (simp add: free_def join_right_def join_left_def Let_def)

lemmas heap_upd = set_ptr_def set_size_def

lemma size_add:
  assumes "bend H b = unat c" and "bend H c < 2 ^ 36"
  shows "unat (hd_size H b + hd_size H c) = unat (hd_size H b) + unat (hd_size H c)"
    "unat b + 16 * unat (hd_size H b + hd_size H c) = bend H c"
proof -
  have "unat (hd_size H b) + unat (hd_size H c) < 2 ^ 32" using assms by (simp add: bend_def)
  then show u: "unat (hd_size H b + hd_size H c) = unat (hd_size H b) + unat (hd_size H c)"
    by (simp add: unat_add_lem[THEN iffD1])
  show "unat b + 16 * unat (hd_size H b + hd_size H c) = bend H c" unfolding u using assms(1) by (simp add: bend_def)
qed

lemma sorted_bend_cong:
  "(\<And>z. z \<in> set zs \<Longrightarrow> bend H' z = bend H z) \<Longrightarrow>
   sorted_wrt (\<lambda>a b. bend H' a < unat b) zs = sorted_wrt (\<lambda>a b. bend H a < unat b) zs"
  by (induction zs) auto

lemma size_pos: "unat b < bend H b \<longleftrightarrow> 0 < hd_size H b"
  by (simp add: bend_def word_less_nat_alt)

text \<open>The block behind is joined if it begins where the freed block ends.\<close>

lemma join_right_ok:
  assumes "trail (hd_ptr H) p ys base" and "sorted_wrt (\<lambda>a b. bend H a < unat b) ys" and "bp \<notin> set (p # ys)"
    and "\<forall>y \<in> set (bp # ys). unat base + 16 \<le> unat y \<and> 0 < hd_size H y \<and> bend H y < 2 ^ 36"
    and "\<forall>y \<in> set ys. bend H bp \<le> unat y" and "H' = join_right bp (hd_ptr H p) H"
  shows "\<exists>ys'. tail_ok base H' bp ys' \<and> set ys' \<subseteq> set ys \<and> bytes H bp \<subseteq> bytes H' bp \<and>
    (\<Union>y \<in> set (bp # ys'). bytes H' y) = (\<Union>y \<in> set (bp # ys). bytes H y)"
proof (cases "ys \<noteq> [] \<and> bend H bp = unat (hd ys)")
  case True
  then obtain y zs where y: "ys = y # zs" "bend H bp = unat y" by (cases ys) auto
  have q: "hd_ptr H p = y" using assms(1) y by simp
  have "hplus bp (hd_size H bp) = y" using y assms(4) by (subst hplus_is) auto
  then have H: "H' = set_ptr bp (hd_ptr H y) (set_size bp (hd_size H bp + hd_size H y) H)" by (simp add: assms(6) join_right_def q)
  have e: "bend H y < 2 ^ 36" "unat bp < bend H bp" "unat y < bend H y" using assms(4) y size_pos[of bp H] size_pos[of y H] by auto
  have b: "bend H' bp = bend H y" using size_add(2)[OF y(2) e(1)] by (simp add: H heap_upd bend_def)
  have n: "bp \<notin> set (y # zs)" using assms(3) y by simp
  then have o: "bend H' z = bend H z" "hd_size H' z = hd_size H z" if "z \<in> set zs" for z
    using that by (auto simp: H heap_upd bend_def)
  have "trail (hd_ptr H') bp zs base" using assms(1) y n by (cases zs) (auto simp: H heap_upd trail_upd)
  moreover have "sorted_wrt (\<lambda>a b. bend H' a < unat b) (bp # zs)"
    using assms(2) sorted_bend_cong[of zs H' H] o(1) by (simp add: y(1) b)
  moreover have "0 < hd_size H' bp" using b e y(2) size_pos[of bp H'] by simp
  ultimately have "tail_ok base H' bp zs" using assms(4) b e(1) o by (auto simp: tail_ok_def y(1))
  moreover have "bytes H' bp = bytes H bp \<union> bytes H y" using b y(2) e by (auto simp: bytes_def)
  moreover have "bytes H' z = bytes H z" if "z \<in> set zs" for z using o[OF that] by (simp add: bytes_def)
  ultimately show ?thesis by (intro exI[of _ zs]) (auto simp: y(1))
next
  case False
  have "hplus bp (hd_size H bp) \<noteq> hd_ptr H p"
  proof (cases ys)
    case Nil
    then have "hd_ptr H p = base" using assms(1) by simp
    then show ?thesis using assms(4) by (subst hplus_is) (auto simp: bend_def)
  next
    case (Cons y zs)
    then have "hd_ptr H p = y" using assms(1) by simp
    then show ?thesis using False Cons assms(4) by (subst hplus_is) auto
  qed
  then have H: "H' = set_ptr bp (hd_ptr H p) H" by (simp add: assms(6) join_right_def)
  have o: "bend H' z = bend H z" "hd_size H' z = hd_size H z" "bytes H' z = bytes H z" for z
    by (simp_all add: H heap_upd bend_def bytes_def)
  have "trail (hd_ptr H') bp ys base" using assms(1,3) by (cases ys) (auto simp: H heap_upd trail_upd)
  moreover have "bend H bp < unat y" if "y \<in> set ys" for y
  proof -
    have "bend H bp \<noteq> unat y" using False that assms(2,5) by (cases ys) (fastforce simp: bend_def)+
    then show ?thesis using assms(5) that by force
  qed
  ultimately have "tail_ok base H' bp ys" using assms(2,4) by (auto simp: tail_ok_def o)
  then show ?thesis by (intro exI[of _ ys]) (simp add: o)
qed

text \<open>The block before is joined if it ends where the freed block begins.\<close>

lemma join_left_ok:
  assumes "trail (hd_ptr H) base xs r" and "sorted_wrt (\<lambda>a b. bend H a < unat b) (base # xs)" and "tail_ok base H bp ys"
    and "\<forall>x \<in> set xs. unat base + 16 \<le> unat x \<and> 0 < hd_size H x \<and> bend H x < 2 ^ 36"
    and "\<forall>x \<in> set xs. bend H x \<le> unat bp" and "base \<noteq> 0" and "hd_size H base = 0"
    and "p = last (base # xs)" and "H' = (join_left p bp H)\<lparr>freep := p\<rparr>"
  shows "\<exists>bs. free_ok base H' bs \<and> set bs \<subseteq> set (xs @ bp # ys) \<and> (\<exists>b \<in> set bs. bytes H bp \<subseteq> bytes H' b) \<and>
    (\<Union>y \<in> set bs. bytes H' y) = (\<Union>y \<in> set (xs @ bp # ys). bytes H y)"
proof -
  have tl: "trail (hd_ptr H) bp ys base" "sorted_wrt (\<lambda>a b. bend H a < unat b) (bp # ys)"
      "\<forall>y \<in> set (bp # ys). unat base + 16 \<le> unat y \<and> 0 < hd_size H y \<and> bend H y < 2 ^ 36"
    using assms(3) by (auto simp: tail_ok_def)
  have lt: "unat x < bend H x" if "x \<in> set (xs @ bp # ys)" for x using that assms(4) tl(3) size_pos[of x H] by auto
  have xb: "unat x < unat bp" if "x \<in> set (base # xs)" for x using that lt[of x] assms(5) tl(3) by fastforce
  have yb: "bend H bp < unat y" if "y \<in> set ys" for y using that tl(2) by auto
  have xy: "x \<noteq> y" if "x \<in> set (base # xs)" "y \<in> set (bp # ys)" for x y using xb[OF that(1)] yb[of y] lt[of bp] that by force
  have ds: "distinct (base # xs)"
  proof -
    have "sorted_wrt (<) (base # xs)" using assms(2) by (rule sorted_wrt_mono_rel[rotated]) (auto simp: bend_def word_less_nat_alt)
    then show ?thesis by (simp only: strict_sorted_iff)
  qed
  have pin: "p \<in> set (base # xs)" using assms(8) by (metis last_in_set list.distinct(1))
  show ?thesis
  proof (cases "xs \<noteq> [] \<and> bend H p = unat bp")
    case True
    then obtain zs where x: "xs = zs @ [p]" "bend H p = unat bp" using assms(8) by (metis append_butlast_last_id last.simps)
    have "hplus p (hd_size H p) = bp" using x assms(4) by (subst hplus_is) auto
    then have H: "H' = (set_ptr p (hd_ptr H bp) (set_size p (hd_size H p + hd_size H bp) H))\<lparr>freep := p\<rparr>"
      by (simp add: assms(9) join_left_def)
    have e: "bend H bp < 2 ^ 36" using tl(3) by simp
    have b: "bend H' p = bend H bp" using size_add(2)[OF x(2) e] by (simp add: H heap_upd bend_def)
    have o: "bend H' z = bend H z" "hd_size H' z = hd_size H z" "bytes H' z = bytes H z" if "z \<noteq> p" for z
      using that by (simp_all add: H heap_upd bend_def bytes_def)
    have np: "p \<notin> set (base # zs)" "p \<notin> set (bp # ys)" using ds x(1) xy[OF pin] by auto
    have m: "hd_ptr H' = (hd_ptr H)(p := hd_ptr H bp)" by (simp add: H heap_upd)
    have "trail (hd_ptr H) base zs p" using assms(1) by (simp add: x(1) trail_append)
    then have "trail (hd_ptr H') base zs p" unfolding m by (subst trail_upd[OF np(1)])
    moreover have "trail (hd_ptr H') p ys base" using tl(1) np(2) by (cases ys) (simp_all add: m trail_upd)
    ultimately have "trail (hd_ptr H') base (zs @ p # ys) base" by (simp add: trail_append)
    moreover have "sorted_wrt (\<lambda>a b. bend H' a < unat b) (base # zs @ p # ys)"
    proof -
      have "sorted_wrt (\<lambda>a b. bend H a < unat b) (base # zs)" "sorted_wrt (\<lambda>a b. bend H a < unat b) ys"
        using assms(2) tl(2) by (simp_all add: x(1) sorted_wrt_append)
      moreover have "bend H' z = bend H z" if "z \<in> set (base # zs) \<or> z \<in> set ys" for z
        by (rule o(1)) (use that np in auto)
      ultimately have s: "sorted_wrt (\<lambda>a b. bend H' a < unat b) (base # zs)" "sorted_wrt (\<lambda>a b. bend H' a < unat b) ys"
        using sorted_bend_cong[of "base # zs" H' H] sorted_bend_cong[of ys H' H] by blast+
      have "bend H' z < unat y" if "z \<in> set (base # zs)" "y \<in> set (p # ys)" for z y
      proof -
        have "bend H z < unat p" using assms(2) that(1) by (auto simp: x(1) sorted_wrt_append)
        moreover have "unat p \<le> unat y" using xb[OF pin] yb[of y] lt[of bp] that(2) by force
        moreover have "z \<noteq> p" using np(1) that(1) by auto
        ultimately show ?thesis using o(1) by simp
      qed
      moreover have "bend H' p < unat y" if "y \<in> set ys" for y using yb[OF that] b by simp
      ultimately show ?thesis using s by (auto simp: sorted_wrt_append)
    qed
    moreover have "unat base + 16 \<le> unat y \<and> 0 < hd_size H' y \<and> bend H' y < 2 ^ 36" if "y \<in> set (zs @ p # ys)" for y
    proof (cases "y = p")
      case True
      have "unat p < bend H' p" using b xb[OF pin] lt[of bp] by simp
      then show ?thesis using True b e assms(4) size_pos[of p H'] by (simp add: x(1))
    next
      case False
      then show ?thesis using that o[OF False] assms(4) tl(3) by (auto simp: x(1))
    qed
    moreover have "freep H' = p" by (simp add: H)
    moreover have "hd_size H' base = 0" using o(2)[of base] np(1) assms(7) by auto
    ultimately have "free_ok base H' (zs @ p # ys)" using assms(6) unfolding free_ok_def by auto
    moreover have "bytes H' p = bytes H p \<union> bytes H bp"
      using b x(2) lt[of bp] lt[of p] by (auto simp: bytes_def x(1))
    moreover have "bytes H' y = bytes H y" if "y \<in> set (zs @ ys)" for y by (rule o(3)) (use that np in auto)
    ultimately show ?thesis by (intro exI[of _ "zs @ p # ys"]) (auto simp: x(1))
  next
    case False
    have "hplus p (hd_size H p) \<noteq> bp"
    proof (cases "xs = []")
      case True
      then have "bend H p < unat bp" using assms(7,8) xb[OF pin] by (simp add: bend_def)
      then show ?thesis using unsigned_less[where 'a = nat, of bp] by (subst hplus_is) auto
    next
      case x: False
      then have "p \<in> set xs" using assms(8) by simp
      with False x assms(4) show ?thesis by (subst hplus_is) auto
    qed
    then have H: "H' = (set_ptr p bp H)\<lparr>freep := p\<rparr>" by (simp add: assms(9) join_left_def)
    have o: "bend H' z = bend H z" "hd_size H' z = hd_size H z" "bytes H' z = bytes H z" for z
      by (simp_all add: H heap_upd bend_def bytes_def)
    have m: "hd_ptr H' = (hd_ptr H)(p := bp)" by (simp add: H heap_upd)
    have np: "p \<notin> set (bp # ys)" using xy[OF pin] by auto
    have "trail (hd_ptr H') base (xs @ bp # ys) base"
      using trail_upd_last[OF assms(1) ds, of bp] trail_upd[OF np, of "hd_ptr H" bp base] tl(1)
      by (simp add: trail_append m assms(8))
    moreover have "bend H x < unat bp" if x: "x \<in> set (base # xs)" for x
    proof (cases "x = p")
      case True
      then show ?thesis using False assms(5,7,8) xb[OF x] by (cases "xs = []") (auto simp: bend_def order_less_le)
    next
      case np: False
      have z: "base # xs = butlast (base # xs) @ [p]" unfolding assms(8) by (rule append_butlast_last_id[symmetric]) simp
      have "sorted_wrt (\<lambda>a b. bend H a < unat b) (butlast (base # xs) @ [p])" using assms(2) by (subst z[symmetric])
      moreover have "x \<in> set (butlast (base # xs))" using x np by (subst (asm) z) auto
      ultimately have "bend H x < unat p" unfolding sorted_wrt_append by auto
      then show ?thesis using xb[OF pin] by simp
    qed
    then have "sorted_wrt (\<lambda>a b. bend H' a < unat b) (base # xs @ bp # ys)"
      using assms(2) tl(2) yb lt[of bp] unfolding o by (fastforce simp: sorted_wrt_append)
    moreover have "freep H' = p" "p \<in> set (base # xs @ bp # ys)" using pin by (auto simp: H)
    ultimately have "free_ok base H' (xs @ bp # ys)" using assms(4,6,7) tl(3) unfolding free_ok_def o by auto
    then show ?thesis by (intro exI[of _ "xs @ bp # ys"]) (auto simp: o)
  qed
qed

lemma join_sizes: "a \<noteq> bp \<Longrightarrow> a \<noteq> p \<Longrightarrow> hd_size (join_left p bp (join_right bp q H)) a = hd_size H a"
  by (simp add: join_left_def join_right_def heap_upd)

lemma disjoint_blocks:
  assumes "bytes H a \<inter> bytes H b = {}" and "0 < hd_size H a" and "0 < hd_size H b"
  shows "bend H a \<le> unat b \<or> bend H b \<le> unat a" "a \<noteq> b"
  using assms size_pos[of a H] size_pos[of b H] by (auto simp: bytes_def)

lemma trail_prefix: "trail m b (xs @ ys) q \<Longrightarrow> trail m b xs (m (last (b # xs)))"
  by (cases ys) (use trail_last in \<open>force simp: trail_append\<close>)+

lemma butlast_last_Cons: "butlast (b # xs) @ last (b # xs) # ys = b # xs @ ys"
  by (induction xs arbitrary: b) simp_all

lemma trail_cong: "(\<And>x. x \<in> set (p # ps) \<Longrightarrow> m x = m' x) \<Longrightarrow> trail m p ps q = trail m' p ps q"
  by (induction ps arbitrary: p) auto

lemma dropWhile_above: "sorted_wrt (<) bs \<Longrightarrow> y \<in> set (dropWhile (\<lambda>x. x < b) bs) \<Longrightarrow> \<not> y < b" for b :: uint64
  by (induction bs) (auto split: if_splits)

lemma free_inserts:
  assumes ok: "free_ok base H bs" and bp: "unat base + 16 \<le> unat bp" "0 < hd_size H bp" "bend H bp < 2 ^ 36"
    and dj: "\<And>b. b \<in> set bs \<Longrightarrow> bytes H bp \<inter> bytes H b = {}" and f: "Suc (length bs) < f"
  obtains H' bs' where "free f (hplus bp 1) H = Some H'" "free_ok base H' bs'" "set bs' \<subseteq> set (bp # bs)"
    "(\<Union>b \<in> set bs'. bytes H' b) = bytes H bp \<union> (\<Union>b \<in> set bs. bytes H b)" "\<exists>b \<in> set bs'. bytes H bp \<subseteq> bytes H' b"
    "\<And>a. a \<notin> set (base # bp # bs) \<Longrightarrow> hd_size H' a = hd_size H a"
proof -
  let ?xs = "takeWhile (\<lambda>x. x < bp) bs" and ?ys = "dropWhile (\<lambda>x. x < bp) bs"
  let ?p = "last (base # ?xs)"
  have bs: "bs = ?xs @ ?ys" by simp
  note ok' = ok[unfolded free_ok_def]
  have srt: "sorted_wrt (\<lambda>a b. bend H a < unat b) (base # bs)" using ok' by blast
  have blk: "unat base + 16 \<le> unat b \<and> 0 < hd_size H b \<and> bend H b < 2 ^ 36" if "b \<in> set bs" for b using ok' that by blast
  have dis: "bend H bp \<le> unat b \<or> bend H b \<le> unat bp" "bp \<noteq> b" if "b \<in> set bs" for b
    using disjoint_blocks[OF dj[OF that] bp(2)] blk[OF that] by blast+
  have xs: "x < bp" "bend H x \<le> unat bp" "x \<in> set bs" if "x \<in> set ?xs" for x
  proof -
    show x: "x < bp" "x \<in> set bs" using that set_takeWhileD by metis+
    show "bend H x \<le> unat bp" using dis(1)[OF x(2)] x(1) size_pos[of bp H] bp(2) by (auto simp: word_less_nat_alt)
  qed
  have ys: "bp < y" "bend H bp \<le> unat y" "y \<in> set bs" if "y \<in> set ?ys" for y
  proof -
    show y: "y \<in> set bs" using that set_dropWhileD by metis
    show "bp < y" using dropWhile_above[OF _ that] free_ok_less(1)[OF ok] dis(2)[OF y] by auto
    then show "bend H bp \<le> unat y" using dis(1)[OF y] size_pos[of y H] blk[OF y] by (auto simp: word_less_nat_alt)
  qed
  have base: "base < bp" using bp(1) by (simp add: word_less_nat_alt)
  have "free_find f H bp (freep H) = Some ?p"
    using free_find_eq[of base H ?xs ?ys bp "freep H" f] ok xs(1) ys(1) base f ok' by simp
  then have fr: "free f (hplus bp 1) H = Some ((join_left ?p bp (join_right bp (hd_ptr H ?p) H))\<lparr>freep := ?p\<rparr>)"
    using free_joins[of f H "hplus bp 1"] by (simp add: hplus_def)
  define H1 where "H1 = join_right bp (hd_ptr H ?p) H"
  have pin: "?p \<in> set (base # ?xs)" by (metis last_in_set list.distinct(1))
  have pne: "bp \<noteq> x" if "x \<in> set (base # ?xs)" for x using that xs(1) base by auto
  have ch: "trail (hd_ptr H) base (?xs @ ?ys) base" using ok' by simp
  then have chp: "trail (hd_ptr H) ?p ?ys base"
    by (rule trail_split[of _ _ _ _ "butlast (base # ?xs)"]) (rule butlast_last_Cons[symmetric])
  have chx: "trail (hd_ptr H) base ?xs (hd_ptr H ?p)" by (rule trail_prefix[OF ch])
  have srt_ys: "sorted_wrt (\<lambda>a b. bend H a < unat b) ?ys" and srt_xs: "sorted_wrt (\<lambda>a b. bend H a < unat b) (base # ?xs)"
    using srt sorted_wrt_append[of "\<lambda>a b. bend H a < unat b" "base # ?xs" ?ys] by simp_all
  have pb: "bp \<notin> set (?p # ?ys)" using pne[OF pin] dis(2) ys(3) by auto
  have yb: "\<forall>y \<in> set (bp # ?ys). unat base + 16 \<le> unat y \<and> 0 < hd_size H y \<and> bend H y < 2 ^ 36" using bp blk ys(3) by auto
  have bb: "\<forall>y \<in> set ?ys. bend H bp \<le> unat y" using ys(2) by blast
  obtain ys' where r: "tail_ok base H1 bp ys'" "set ys' \<subseteq> set ?ys" "bytes H bp \<subseteq> bytes H1 bp"
      "(\<Union>y \<in> set (bp # ys'). bytes H1 y) = (\<Union>y \<in> set (bp # ?ys). bytes H y)"
    using join_right_ok[OF chp srt_ys pb yb bb H1_def] by blast
  have o: "hd_ptr H1 x = hd_ptr H x" "hd_size H1 x = hd_size H x" "bend H1 x = bend H x" "bytes H1 x = bytes H x" if "x \<noteq> bp" for x
    using that by (auto simp: H1_def join_right_def heap_upd bend_def bytes_def)
  define H2 where "H2 = (join_left ?p bp H1)\<lparr>freep := ?p\<rparr>"
  have "trail (hd_ptr H1) base ?xs (hd_ptr H ?p)"
    using chx by (subst trail_cong[of base ?xs "hd_ptr H1" "hd_ptr H"]) (use o(1) pne in metis)+
  moreover have "sorted_wrt (\<lambda>a b. bend H1 a < unat b) (base # ?xs)"
    using srt_xs by (subst sorted_bend_cong[of "base # ?xs" H1 H]) (use o(3) pne in metis)+
  moreover have "\<forall>x \<in> set ?xs. unat base + 16 \<le> unat x \<and> 0 < hd_size H1 x \<and> bend H1 x < 2 ^ 36"
    using blk xs(3) o(2,3) pne by (metis list.set_intros(2))
  moreover have "\<forall>x \<in> set ?xs. bend H1 x \<le> unat bp" using xs(2) o(3) pne by (metis list.set_intros(2))
  moreover have "base \<noteq> 0" "hd_size H1 base = 0" using ok' o(2)[of base] base by auto
  ultimately obtain bs' where l: "free_ok base H2 bs'" "set bs' \<subseteq> set (?xs @ bp # ys')" "\<exists>b \<in> set bs'. bytes H1 bp \<subseteq> bytes H2 b"
      "(\<Union>y \<in> set bs'. bytes H2 y) = (\<Union>y \<in> set (?xs @ bp # ys'). bytes H1 y)"
    using join_left_ok[OF _ _ r(1) _ _ _ _ refl H2_def] by blast
  have "(\<Union>y \<in> set ?xs. bytes H1 y) = (\<Union>y \<in> set ?xs. bytes H y)" using o(4) pne by (intro SUP_cong refl) (metis list.set_intros(2))
  moreover have "(\<Union>y \<in> set (?xs @ bp # ys'). bytes H1 y) = (\<Union>y \<in> set ?xs. bytes H1 y) \<union> (\<Union>y \<in> set (bp # ys'). bytes H1 y)"
    by (simp only: set_append UN_Un)
  moreover have "set bs = set ?xs \<union> set ?ys" using bs by (metis set_append)
  ultimately have u: "(\<Union>y \<in> set bs'. bytes H2 y) = bytes H bp \<union> (\<Union>b \<in> set bs. bytes H b)"
    using l(4) r(4) by auto
  show ?thesis
  proof (rule that[of H2 bs'])
    show "free f (hplus bp 1) H = Some H2" using fr by (simp add: H2_def H1_def)
    show "set bs' \<subseteq> set (bp # bs)" using l(2) r(2) xs(3) ys(3) by auto
    show "\<exists>b \<in> set bs'. bytes H bp \<subseteq> bytes H2 b" using l(3) r(3) by blast
    show "hd_size H2 a = hd_size H a" if "a \<notin> set (base # bp # bs)" for a
    proof -
      have "?p \<in> set (base # bs)" using pin xs(3) by (metis list.set_intros set_ConsD)
      then have "a \<noteq> bp" "a \<noteq> ?p" using that by (metis list.set_intros(1,2) set_ConsD)+
      from join_sizes[OF this] show ?thesis by (simp add: H2_def H1_def del: last.simps)
    qed
  qed (use l(1) u in auto)
qed

section \<open>Taking a block\<close>

lemma trail_pred:
  assumes "trail m b (xs @ p # ys) b" and "distinct (b # xs @ p # ys)" and "u \<in> set (b # xs @ p # ys)" and "m u = p"
  shows "u = last (b # xs)"
proof -
  obtain us vs where u: "b # xs @ p # ys = us @ u # vs" using assms(3) by (meson split_list)
  have ch: "trail m u vs b" by (rule trail_split[OF assms(1) u])
  then obtain vs' where vs: "vs = p # vs'" using assms(2,4) by (cases vs) auto
  have e: "(us @ [u]) @ p # vs' = (b # xs) @ p # ys" using u vs by simp
  have tw: "takeWhile (\<lambda>x. x \<noteq> p) (as @ p # bs) = as" if "distinct (as @ p # bs)" for as bs
    using that by (subst takeWhile_append2) auto
  have "us @ [u] = b # xs" using tw[of "us @ [u]" vs'] tw[of "b # xs" ys] assms(2) unfolding e by simp
  then show ?thesis by (metis last_snoc)
qed

definition free_bytes :: "heap \<Rightarrow> uint64 list \<Rightarrow> nat set" where
  "free_bytes H bs = (\<Union>b \<in> set bs. bytes H b)"

lemma free_ok_apart:
  assumes "free_ok base H bs" and "a \<in> set bs" and "b \<in> set bs" and "a \<noteq> b"
  shows "bend H a < unat b \<or> bend H b < unat a"
proof -
  have "sorted_wrt (\<lambda>a b. bend H a < unat b) bs" using assms(1) by (simp add: free_ok_def)
  then show ?thesis using assms(2-4) by (induction bs) auto
qed

text \<open>The whole block, taken out of the list.\<close>

lemma carve_all:
  assumes ok: "free_ok base H (xs @ p # ys)" and H': "H' = (set_ptr u (hd_ptr H p) H)\<lparr>freep := u\<rparr>" and u: "u = last (base # xs)"
  shows "free_ok base H' (xs @ ys)"
proof -
  note ok' = ok[unfolded free_ok_def]
  note ds = free_ok_less(2)[OF ok]
  have un: "u \<in> set (base # xs)" unfolding u by (rule last_in_set) simp
  have ch: "trail (hd_ptr H) base xs p" "trail (hd_ptr H) p ys base" using ok' by (auto simp: trail_append)
  have m: "hd_ptr H' = (hd_ptr H)(u := hd_ptr H p)" by (simp add: H' heap_upd)
  have o: "bend H' z = bend H z" "hd_size H' z = hd_size H z" for z by (simp_all add: H' heap_upd bend_def)
  have "distinct (base # xs)" using ds by auto
  from trail_upd_last[OF ch(1) this, of "hd_ptr H p"] have c: "trail (hd_ptr H') base xs (hd_ptr H p)" by (simp only: m u)
  have "trail (hd_ptr H') base (xs @ ys) base"
  proof (cases ys)
    case Nil
    with c ch(2) show ?thesis by simp
  next
    case (Cons y ys')
    then have "u \<notin> set (y # ys')" using ds un by auto
    from trail_upd[OF this] c ch(2) Cons show ?thesis by (simp add: trail_append m)
  qed
  moreover have "freep H' = u" by (simp add: H')
  moreover have "u \<in> set (base # xs @ ys)" using un by auto
  ultimately show ?thesis using ok' unfolding free_ok_def o by (auto simp: sorted_wrt_append)
qed

text \<open>The end of a larger block.\<close>

lemma carve_end:
  assumes ok: "free_ok base H bs" and p: "p \<in> set bs" and n: "0 < n" "n < hd_size H p" and u: "u \<in> set (base # bs)"
    and b: "b = hplus p (hd_size H p - n)"
    and H': "H' = (set_size b n (set_size p (hd_size H p - n) H))\<lparr>freep := u\<rparr>"
  shows "free_ok base H' bs" "bend H' p = unat b" "bend H' b = bend H p" "b \<notin> set bs" "b \<noteq> base"
proof -
  note ok' = ok[unfolded free_ok_def]
  have pb: "unat base + 16 \<le> unat p" "0 < hd_size H p" "bend H p < 2 ^ 36" using ok' p by blast+
  have sub: "unat (hd_size H p - n) = unat (hd_size H p) - unat n" using n(2) by (simp add: unat_sub word_le_nat_alt word_less_nat_alt)
  have nn: "0 < unat n" "unat n < unat (hd_size H p)" using n by (simp_all add: word_less_nat_alt unat_gt_0)
  have ub: "unat b = unat p + 16 * (unat (hd_size H p) - unat n)"
    unfolding b using pb(3) by (subst hplus_eq) (auto simp: sub bend_def)
  have bp: "unat p < unat b" "unat b < bend H p" using ub nn by (auto simp: bend_def)
  show nb: "b \<notin> set bs"
  proof
    assume "b \<in> set bs"
    moreover have "b \<noteq> p" using bp(1) by auto
    ultimately have "bend H b < unat p \<or> bend H p < unat b" using free_ok_apart[OF ok _ p] by blast
    then show False using bp by (auto simp: bend_def)
  qed
  show "b \<noteq> base" using bp(1) pb(1) by auto
  have s: "hd_size H' z = (if z = b then n else if z = p then hd_size H p - n else hd_size H z)" for z by (simp add: H' heap_upd)
  show e: "bend H' p = unat b" using bp(1) ub by (auto simp: bend_def s sub)
  show "bend H' b = bend H p" using nn ub by (simp add: bend_def s)
  have le: "bend H' z \<le> bend H z" if "z \<noteq> b" for z using that bp e by (auto simp: bend_def s)
  have ls: "bend H' z \<le> bend H z" if "z \<in> set (base # bs)" for z
    by (rule le) (use that nb \<open>b \<noteq> base\<close> in auto)
  have "sorted_wrt (\<lambda>a b. bend H a < unat b) (base # bs)" using ok' by blast
  then have "sorted_wrt (\<lambda>a b. bend H' a < unat b) (base # bs)"
    by (rule sorted_wrt_mono_rel[rotated]) (use ls in \<open>meson le_less_trans\<close>)
  moreover have "unat base + 16 \<le> unat z \<and> 0 < hd_size H' z \<and> bend H' z < 2 ^ 36" if "z \<in> set bs" for z
  proof -
    have "unat base + 16 \<le> unat z" "0 < hd_size H z" "bend H z < 2 ^ 36" using ok' that by blast+
    moreover have "0 < hd_size H p - n" using sub nn by (simp add: word_less_nat_alt)
    ultimately show ?thesis using ls[of z] that nb by (auto simp: s)
  qed
  moreover have "hd_size H' base = 0" using ok' \<open>b \<noteq> base\<close> pb(1) by (auto simp: s)
  moreover have "hd_ptr H' = hd_ptr H" "freep H' = u" by (simp_all add: H' heap_upd)
  ultimately show "free_ok base H' bs" using ok' u unfolding free_ok_def by auto
qed

lemma bytes_free: "free_bytes H (xs @ p # ys) = bytes H p \<union> free_bytes H (xs @ ys)"
  by (auto simp: free_bytes_def)

text \<open>Either way the block returned was free before and the rest is free still.\<close>

lemma carve_ok:
  assumes ok: "free_ok base H bs" and p: "p \<in> set bs" and u: "u \<in> set (base # bs)" "hd_ptr H u = p"
    and n: "0 < n" "n \<le> hd_size H p" and c: "carve n u p H = (a, H')"
  obtains b bs' where "a = hplus b 1" "free_ok base H' bs'" "set bs' \<subseteq> set bs" "hd_size H' b = n" "unat base + 16 \<le> unat b" "bend H' b < 2 ^ 36"
    "free_bytes H bs = bytes H' b \<union> free_bytes H' bs'" "bytes H' b \<inter> free_bytes H' bs' = {}"
    "\<And>x. x \<notin> set (b # bs) \<Longrightarrow> hd_size H' x = hd_size H x"
proof -
  note ok' = ok[unfolded free_ok_def]
  obtain xs ys where bs: "bs = xs @ p # ys" using p by (meson split_list)
  have pb: "unat base + 16 \<le> unat p" "bend H p < 2 ^ 36" using ok' p by blast+
  have ap: "bytes H p \<inter> bytes H z = {}" if "z \<in> set bs" "z \<noteq> p" for z
    using free_ok_apart[OF ok that(1) p that(2)] by (auto simp: bytes_def)
  have ds: "p \<notin> set (xs @ ys)" using free_ok_less(2)[OF ok] by (auto simp: bs)
  show ?thesis
  proof (cases "hd_size H p = n")
    case True
    then have H': "a = hplus p 1" "H' = (set_ptr u (hd_ptr H p) H)\<lparr>freep := u\<rparr>" using c by (auto simp: carve_def)
    have "u = last (base # xs)" using trail_pred[of "hd_ptr H" base xs p ys u] ok' u free_ok_less(2)[OF ok] by (simp add: bs)
    from carve_all[OF ok[unfolded bs] H'(2) this] have k: "free_ok base H' (xs @ ys)" .
    have o: "hd_size H' x = hd_size H x" "bytes H' x = bytes H x" "bend H' x = bend H x" "free_bytes H' zs = free_bytes H zs" for x zs
      by (simp_all add: H'(2) heap_upd bytes_def bend_def free_bytes_def)
    have "bytes H p \<inter> free_bytes H (xs @ ys) = {}" using ap ds by (auto simp: bs free_bytes_def)
    then show ?thesis
      using pb True by (intro that[OF H'(1) k]) (auto simp: o bs bytes_free)
  next
    case False
    let ?b = "hplus p (hd_size H p - n)"
    have H': "a = hplus ?b 1" "H' = (set_size ?b n (set_size p (hd_size H p - n) H))\<lparr>freep := u\<rparr>"
      using c False by (auto simp: carve_def Let_def set_size_def)
    have lt: "n < hd_size H p" using False n(2) by simp
    note e = carve_end[OF ok p n(1) lt u(1) refl H'(2)]
    have bp: "?b \<noteq> p" using e(4) p by auto
    have s: "hd_size H' ?b = n" "\<And>x. x \<notin> set (?b # bs) \<Longrightarrow> hd_size H' x = hd_size H x"
      using p by (auto simp: H'(2) heap_upd)
    have o: "bytes H' z = bytes H z" if "z \<in> set (xs @ ys)" for z
      using that e(4) ds by (auto simp: H'(2) heap_upd bytes_def bend_def bs)
    then have f: "free_bytes H' (xs @ ys) = free_bytes H (xs @ ys)" by (simp add: free_bytes_def)
    have le: "unat p < unat ?b" "unat ?b \<le> bend H p"
    proof -
      have "unat p < bend H' p" using e(1) p size_pos[of p H'] by (auto simp: free_ok_def)
      then show "unat p < unat ?b" by (simp add: e(2))
      show "unat ?b \<le> bend H p" unfolding e(3)[symmetric] by (simp add: bend_def)
    qed
    have un: "bytes H p = bytes H' ?b \<union> bytes H' p" "bytes H' ?b \<inter> bytes H' p = {}"
      using le by (auto simp: bytes_def e(2,3))
    have "bytes H p \<inter> free_bytes H (xs @ ys) = {}" using ap ds by (auto simp: bs free_bytes_def)
    then have "bytes H' ?b \<inter> free_bytes H' bs = {}" using un f by (auto simp: bs bytes_free)
    moreover have "free_bytes H bs = bytes H' ?b \<union> free_bytes H' bs" using un(1) f by (auto simp: bs bytes_free)
    ultimately show ?thesis using pb le(1) s by (intro that[OF H'(1) e(1)]) (auto simp: e(3))
  qed
qed

section \<open>Looking for a block\<close>

text \<open>The list, beginning behind any of its blocks.\<close>

lemma trail_rotate:
  assumes "trail m b bs b" and "n \<in> set (b # bs)"
  obtains zs where "trail m (m n) zs (m n)" "last (m n # zs) = n" "mset (m n # zs) = mset (b # bs)"
proof -
  obtain us vs where s: "b # bs = us @ n # vs" using assms(2) by (meson split_list)
  have c: "trail m n vs b" by (rule trail_split[OF assms(1) s])
  show ?thesis
  proof (cases vs)
    case Nil
    then have "m n = b" "last (b # bs) = n" using c s by simp_all
    then show ?thesis using that[of bs] assms(1) by simp
  next
    case (Cons v vs')
    then have v: "m n = v" "trail m v vs' b" using c by simp_all
    obtain us' where us: "us @ [n] = b # us'" using s by (cases us) auto
    have "b # bs = (b # us') @ v # vs'" using s Cons us by simp
    then have bs: "bs = us' @ v # vs'" by simp
    then have "trail m b us' v" using assms(1) by (simp add: trail_append)
    with v(2) have "trail m v (vs' @ b # us') v" by (simp add: trail_append)
    moreover have "last (v # vs' @ b # us') = n" using us by (metis last_ConsR last_appendR last_snoc list.distinct(1) Nil_is_append_conv)
    ultimately show ?thesis using that[of "vs' @ b # us'"] by (simp add: v(1) bs)
  qed
qed

lemma malloc_loop_scan:
  assumes "trail (hd_ptr H) p zs r" and "last (p # zs) = freep H" and "distinct (p # zs)" and "hd_ptr H u = p" and "length zs < f"
  shows "(\<exists>v q. q \<in> set (p # zs) \<and> v \<in> set (u # p # zs) \<and> hd_ptr H v = q \<and> n \<le> hd_size H q \<and>
      malloc_loop f n u p H S h = (Val (carve n v q H), h)) \<or>
    (\<forall>q \<in> set (p # zs). hd_size H q < n) \<and>
    (\<exists>g. f = g + Suc (length zs) \<and> malloc_loop f n u p H S h = bindU (morecore g n H) (\<lambda>(p, H).
      if p = 0 then retU (0, H) else malloc_loop g n p (hd_ptr H p) H) S h)"
  using assms
proof (induction zs arbitrary: p u f)
  case Nil
  then obtain f' where "f = Suc f'" by (cases f) auto
  with Nil show ?case by (cases "n \<le> hd_size H p") auto
next
  case (Cons z zs)
  obtain f' where f: "f = Suc f'" using Cons.prems(5) by (cases f) auto
  show ?case
  proof (cases "n \<le> hd_size H p")
    case True
    with Cons.prems(4) show ?thesis by (intro disjI1 exI[of _ u] exI[of _ p]) (simp add: f)
  next
    case False
    have "freep H \<in> set (z # zs)" using Cons.prems(2) by (metis last_ConsR last_in_set list.distinct(1))
    then have "p \<noteq> freep H" using Cons.prems(3) by auto
    then have e: "malloc_loop f n u p H = malloc_loop f' n p z H" using False Cons.prems(1) by (simp add: f)
    have "trail (hd_ptr H) z zs r" "last (z # zs) = freep H" "distinct (z # zs)" "hd_ptr H p = z" "length zs < f'"
      using Cons.prems by (auto simp: f)
    from Cons.IH[OF this] show ?thesis unfolding e using False by (auto simp: f not_le)
  qed
qed

lemma malloc_scan:
  assumes ok: "free_ok base H bs" and n: "0 < n" and f: "length bs < f"
  shows "(\<exists>v q. q \<in> set bs \<and> v \<in> set (base # bs) \<and> hd_ptr H v = q \<and> n \<le> hd_size H q \<and>
      malloc_loop f n (freep H) (hd_ptr H (freep H)) H S h = (Val (carve n v q H), h)) \<or>
    (\<forall>q \<in> set bs. hd_size H q < n) \<and>
    (\<exists>g. f = g + Suc (length bs) \<and> malloc_loop f n (freep H) (hd_ptr H (freep H)) H S h = bindU (morecore g n H) (\<lambda>(p, H).
      if p = 0 then retU (0, H) else malloc_loop g n p (hd_ptr H p) H) S h)"
proof -
  note ok' = ok[unfolded free_ok_def]
  let ?p = "hd_ptr H (freep H)"
  obtain zs where z: "trail (hd_ptr H) ?p zs ?p" "last (?p # zs) = freep H" "mset (?p # zs) = mset (base # bs)"
    using trail_rotate[of "hd_ptr H" base bs "freep H"] ok' by blast
  have set: "set (?p # zs) = set (base # bs)" using z(3) by (metis set_mset_mset)
  have len: "length zs = length bs" using z(3) by (metis length_Cons nat.inject size_mset)
  have dis: "distinct (?p # zs)" using z(3) free_ok_less(2)[OF ok] mset_eq_imp_distinct_iff by blast
  have base: "hd_size H base < n" using ok' n by auto
  have fr: "freep H \<in> set (base # bs)" using ok' by blast
  have qb: "q \<in> set bs" if "q \<in> set (?p # zs)" "n \<le> hd_size H q" for q using that base unfolding set by auto
  have vb: "v \<in> set (base # bs)" if "v \<in> set (freep H # ?p # zs)" for v using that fr unfolding set[symmetric] by auto
  have lf: "length zs < f" using f by (simp add: len)
  from malloc_loop_scan[OF z(1,2) dis refl lf, of n S h] show ?thesis
  proof (elim disjE conjE exE, goal_cases)
    case (1 v q)
    then show ?thesis using qb vb by blast
  next
    case (2 g)
    then show ?thesis unfolding set len by auto
  qed
qed

text \<open>New memory from \<open>sbrk\<close>: in no block, and with room for \<open>k\<close> units.\<close>

definition fresh :: "uint64 \<Rightarrow> heap \<Rightarrow> uint64 list \<Rightarrow> uint64 \<Rightarrow> nat \<Rightarrow> bool" where
  "fresh base H bs v k \<longleftrightarrow> unat base + 16 \<le> unat v \<and> unat v + 16 * k < 2 ^ 36 \<and> {unat v..<unat v + 16 * k} \<inter> free_bytes H bs = {}"

definition core_units :: "uint \<Rightarrow> uint" where
  "core_units n = (if n < 4096 then 4096 else n)"

definition core_call :: "uint \<Rightarrow> ucall" where
  "core_call n = Usbrk (ucast (ucast (core_units n) * 16 :: uint64))"

lemma morecore_ok:
  assumes ok: "free_ok base H bs" and v: "fst (S (h @ [core_call n])) = v" "v \<noteq> - 1"
    and fr: "fresh base H bs v (unat (core_units n))" and g: "Suc (length bs) < g"
  obtains H' bs' where "morecore g n H S h = (Val (freep H', H'), h @ [core_call n])" "free_ok base H' bs'" "length bs' \<le> Suc (length bs)"
    "free_bytes H' bs' = free_bytes H bs \<union> {unat v..<unat v + 16 * unat (core_units n)}"
    "\<exists>b \<in> set bs'. n \<le> hd_size H' b" "\<And>a. a \<notin> set (base # v # bs) \<Longrightarrow> hd_size H' a = hd_size H a" "set bs' \<subseteq> set (v # bs)"
proof -
  let ?k = "core_units n"
  define H1 where "H1 = set_size v ?k H"
  have "0 < ?k" and nk: "n \<le> ?k" by (auto simp: core_units_def word_gt_0)
  then have kpos: "0 < ?k" "0 < unat ?k" by (simp_all add: unat_gt_0)
  have vb: "v \<noteq> base" "unat base + 16 \<le> unat v" using fr by (auto simp: fresh_def)
  have b1: "bend H1 v = unat v + 16 * unat ?k" by (simp add: H1_def set_size_def bend_def)
  have "v \<notin> set bs"
  proof
    assume "v \<in> set bs"
    then have "unat v \<in> free_bytes H bs" using ok size_pos[of v H] by (auto simp: free_bytes_def bytes_def free_ok_def)
    then have "unat v \<in> {unat v..<unat v + 16 * unat ?k} \<inter> free_bytes H bs" using kpos(2) by simp
    then show False using fr unfolding fresh_def by blast
  qed
  then have o: "bend H1 z = bend H z" "hd_size H1 z = hd_size H z" "bytes H1 z = bytes H z" if "z \<in> set (base # bs)" for z
    using that vb(1) by (auto simp: H1_def set_size_def bend_def bytes_def)
  have "sorted_wrt (\<lambda>a b. bend H1 a < unat b) (base # bs)"
    using ok sorted_bend_cong[of "base # bs" H1 H] o(1) unfolding free_ok_def by blast
  moreover have "hd_ptr H1 = hd_ptr H" "freep H1 = freep H" by (simp_all add: H1_def set_size_def)
  ultimately have ok1: "free_ok base H1 bs" using ok o unfolding free_ok_def by simp
  have f1: "free_bytes H1 bs = free_bytes H bs" using o(3) by (simp add: free_bytes_def)
  have s1: "0 < hd_size H1 v" "bend H1 v < 2 ^ 36" using kpos(1) b1 fr by (auto simp: H1_def set_size_def fresh_def)
  have bv: "bytes H1 v = {unat v..<unat v + 16 * unat ?k}" by (simp add: bytes_def b1)
  have d1: "bytes H1 v \<inter> bytes H1 b = {}" if "b \<in> set bs" for b
  proof -
    have "bytes H1 b \<subseteq> free_bytes H bs" unfolding f1[symmetric] using that by (auto simp: free_bytes_def)
    then show ?thesis using fr unfolding bv fresh_def by blast
  qed
  obtain H' bs' where r: "free g (hplus v 1) H1 = Some H'" "free_ok base H' bs'" "set bs' \<subseteq> set (v # bs)"
      "(\<Union>b \<in> set bs'. bytes H' b) = bytes H1 v \<union> (\<Union>b \<in> set bs. bytes H1 b)" "\<exists>b \<in> set bs'. bytes H1 v \<subseteq> bytes H' b"
      "\<And>a. a \<notin> set (base # v # bs) \<Longrightarrow> hd_size H' a = hd_size H1 a"
    using free_inserts[OF ok1 vb(2) s1 d1 g] by blast
  show ?thesis
  proof (rule that[of H' bs'])
    show "morecore g n H S h = (Val (freep H', H'), h @ [core_call n])"
    proof -
      obtain x where "S (h @ [core_call n]) = (v, x)" using v(1) by (metis prod.collapse)
      then show ?thesis using r(1) v(2) by (simp add: morecore_def Let_def core_units_def[symmetric] core_call_def H1_def)
    qed
    show "length bs' \<le> Suc (length bs)"
      using card_mono[OF _ r(3)] distinct_card[of bs'] free_ok_less(2)[OF r(2)] card_length[of "v # bs"] by simp
    show "free_bytes H' bs' = free_bytes H bs \<union> {unat v..<unat v + 16 * unat ?k}"
      using r(4) f1 by (auto simp: free_bytes_def bytes_def b1)
    show "\<exists>b \<in> set bs'. n \<le> hd_size H' b"
    proof -
      obtain b where b: "b \<in> set bs'" "{unat v..<unat v + 16 * unat ?k} \<subseteq> {unat b..<bend H' b}"
        using r(5) unfolding bv by (auto simp: bytes_def)
      then have "unat b \<le> unat v" "unat v + 16 * unat ?k \<le> bend H' b" using kpos(2) by auto
      then have "?k \<le> hd_size H' b" by (simp add: bend_def word_le_nat_alt)
      with b(1) nk show ?thesis by (meson order_trans)
    qed
    show "hd_size H' a = hd_size H a" if "a \<notin> set (base # v # bs)" for a
      using r(6)[OF that] that by (simp add: H1_def set_size_def)
  qed (use r(2,3) in auto)
qed

section \<open>The heap\<close>

text \<open>The heap with the blocks that are allocated, by the addresses of their headers. At the start \<open>freep\<close> is 0.\<close>

definition heap_ok :: "uint64 \<Rightarrow> heap \<Rightarrow> uint64 list \<Rightarrow> uint64 set \<Rightarrow> bool" where
  "heap_ok base H bs A \<longleftrightarrow>
     (if freep H = 0 then bs = [] \<and> A = {} \<and> base \<noteq> 0
      else free_ok base H bs \<and>
        (\<forall>a \<in> A. unat base + 16 \<le> unat a \<and> 0 < hd_size H a \<and> bend H a < 2 ^ 36 \<and> bytes H a \<inter> free_bytes H bs = {}) \<and>
        (\<forall>a \<in> A. \<forall>b \<in> A. a \<noteq> b \<longrightarrow> bytes H a \<inter> bytes H b = {}))"

lemma heap_okD:
  assumes "heap_ok base H bs A" and "a \<in> A"
  shows "free_ok base H bs" "unat base + 16 \<le> unat a" "0 < hd_size H a" "bend H a < 2 ^ 36" "bytes H a \<inter> free_bytes H bs = {}"
    "b \<in> A \<Longrightarrow> a \<noteq> b \<Longrightarrow> bytes H a \<inter> bytes H b = {}" "a \<notin> set (base # bs)" "unat a \<in> bytes H a"
proof -
  show ok: "free_ok base H bs" "unat base + 16 \<le> unat a" "0 < hd_size H a" "bend H a < 2 ^ 36" "bytes H a \<inter> free_bytes H bs = {}"
    using assms by (auto simp: heap_ok_def split: if_splits)
  show "b \<in> A \<Longrightarrow> a \<noteq> b \<Longrightarrow> bytes H a \<inter> bytes H b = {}" using assms by (auto simp: heap_ok_def split: if_splits)
  show a: "unat a \<in> bytes H a" using ok(3) size_pos[of a H] by (simp add: bytes_def)
  then show "a \<notin> set (base # bs)" using ok(2,5) by (auto simp: free_bytes_def)
qed

lemma heap_okI:
  assumes "free_ok base H bs"
    and "\<And>a. a \<in> A \<Longrightarrow> unat base + 16 \<le> unat a \<and> 0 < hd_size H a \<and> bend H a < 2 ^ 36 \<and> bytes H a \<inter> free_bytes H bs = {}"
    and "\<And>a b. a \<in> A \<Longrightarrow> b \<in> A \<Longrightarrow> a \<noteq> b \<Longrightarrow> bytes H a \<inter> bytes H b = {}"
  shows "heap_ok base H bs A"
proof -
  have "freep H \<noteq> 0" using assms(1) free_ok_less(4)[OF assms(1)] by (auto simp: free_ok_def)
  then show ?thesis using assms by (simp add: heap_ok_def)
qed

lemma same_size: "hd_size H' a = hd_size H a \<Longrightarrow> bytes H' a = bytes H a \<and> bend H' a = bend H a"
  by (simp add: bytes_def bend_def)

text \<open>
  C36. \<open>free\<close> of an allocated block ends, and gives its bytes back: afterwards exactly those bytes are free besides the ones
  that were free before, the list of free blocks is again in order with neighbours joined, and all other allocated blocks
  are as they were.
\<close>

theorem free_gives_back:
  assumes "heap_ok base H bs A" and "a \<in> A" and "Suc (length bs) < f"
  shows "\<exists>H' bs'. free f (hplus a 1) H = Some H' \<and> heap_ok base H' bs' (A - {a}) \<and>
    free_bytes H' bs' = free_bytes H bs \<union> bytes H a \<and> (\<forall>b \<in> A - {a}. hd_size H' b = hd_size H b)"
proof -
  note a = heap_okD[OF assms(1,2)]
  have "bytes H a \<inter> bytes H b = {}" if "b \<in> set bs" for b using a(5) that by (auto simp: free_bytes_def)
  then obtain H' bs' where r: "free f (hplus a 1) H = Some H'" "free_ok base H' bs'"
      "free_bytes H' bs' = bytes H a \<union> free_bytes H bs" "\<And>x. x \<notin> set (base # a # bs) \<Longrightarrow> hd_size H' x = hd_size H x"
    using free_inserts[OF a(1-4) _ assms(3)] unfolding free_bytes_def by metis
  have s: "hd_size H' b = hd_size H b" "bytes H' b = bytes H b \<and> bend H' b = bend H b" if "b \<in> A - {a}" for b
    using r(4)[of b] heap_okD(7)[OF assms(1), of b] that same_size[of H' b H] by auto
  have "heap_ok base H' bs' (A - {a})"
  proof (rule heap_okI[OF r(2)])
    fix b assume b: "b \<in> A - {a}"
    then have "b \<in> A" "a \<noteq> b" by auto
    note ab = heap_okD[OF assms(1) this(1)] a(6)[OF this]
    show "unat base + 16 \<le> unat b \<and> 0 < hd_size H' b \<and> bend H' b < 2 ^ 36 \<and> bytes H' b \<inter> free_bytes H' bs' = {}"
      using ab(2-5) a(6)[OF \<open>b \<in> A\<close> \<open>a \<noteq> b\<close>] s[OF b] unfolding r(3) by auto
  next
    fix b c assume "b \<in> A - {a}" "c \<in> A - {a}" "b \<noteq> c"
    then show "bytes H' b \<inter> bytes H' c = {}" using heap_okD(6)[OF assms(1), of b c] s(2) by auto
  qed
  then show ?thesis using r(1,3) s(1) by (intro exI[of _ H'] exI[of _ bs']) auto
qed

theorem free_gives_back_witness:
  "let H = \<lparr>hd_ptr = \<lambda>_. 0x1000, hd_size = (\<lambda>_. 0)(0x4000 := 4), freep = 0x1000\<rparr> in
   \<exists>H' bs'. free 2 0x4010 H = Some H' \<and> heap_ok 0x1000 H' bs' {} \<and> free_bytes H' bs' = {0x4000..<0x4040}"
proof -
  let ?H = "\<lparr>hd_ptr = \<lambda>_. 0x1000, hd_size = (\<lambda>_. 0)(0x4000 := 4), freep = 0x1000\<rparr>"
  have "heap_ok 0x1000 ?H [] {0x4000}" by (simp add: heap_ok_def free_ok_def free_bytes_def bend_def)
  from free_gives_back[OF this, of "0x4000" 2] show ?thesis by (simp add: hplus_def free_bytes_def bytes_def bend_def)
qed

text \<open>
  What \<open>sbrk\<close> promises for its next call: it fails or returns the start of as many new bytes as it was asked for.
\<close>

definition sbrk_ok :: "os \<Rightarrow> ucall list \<Rightarrow> uint64 \<Rightarrow> nat set \<Rightarrow> bool" where
  "sbrk_ok S h base used \<longleftrightarrow> (\<forall>k. 0 \<le> sint k \<longrightarrow> (let v = fst (S (h @ [Usbrk k])) in
     v = - 1 \<or> unat base + 16 \<le> unat v \<and> unat v + nat (sint k) < 2 ^ 36 \<and> {unat v..<unat v + nat (sint k)} \<inter> used = {}))"

definition used_bytes :: "heap \<Rightarrow> uint64 list \<Rightarrow> uint64 set \<Rightarrow> nat set" where
  "used_bytes H bs A = free_bytes H bs \<union> (\<Union>a \<in> A. bytes H a)"

lemma unat_up: "unat (ucast n :: uint64) = unat n" for n :: uint
  using unsigned_less[where 'a = nat, of n] by (simp add: unsigned_ucast_eq take_bit_nat_eq_self)

lemma unat_down: "unat y < 2 ^ 32 \<Longrightarrow> unat (ucast y :: uint) = unat y" for y :: uint64
  by (simp add: unsigned_ucast_eq take_bit_nat_eq_self)

lemma unat_units: "unat (units nbytes) = (unat nbytes + 15) div 16 + 1"
proof -
  have b: "unat nbytes < 2 ^ 32" using unsigned_less[where 'a = nat, of nbytes] by simp
  have d: "(unat nbytes + 15) div 16 < 2 ^ 31" by (rule less_mult_imp_div_less) (use b in simp)
  let ?x = "ucast nbytes + 15 :: uint64"
  have x: "unat ?x = unat nbytes + 15" using b by (simp add: unat_add_lem[THEN iffD1] unat_up)
  have xd: "unat (?x div 16) = (unat nbytes + 15) div 16" by (simp add: unat_div x)
  have e: "unat (?x div 16 + 1) = (unat nbytes + 15) div 16 + 1"
    using d by (subst unat_add_lem[THEN iffD1]) (simp_all add: xd)
  have "units nbytes = ucast (?x div 16 + 1)" by (simp add: units_def add.commute)
  then show ?thesis using unat_down[of "?x div 16 + 1"] d unfolding e by simp
qed

lemma core_call_bytes:
  assumes "16 * unat (core_units n) < 2 ^ 31"
  shows "\<exists>k. core_call n = Usbrk k \<and> sint k = int (16 * unat (core_units n))"
proof -
  have e: "(ucast (core_units n) * 16 :: uint64) = of_nat (16 * unat (core_units n))"
    by (simp only: of_nat_mult of_nat_numeral of_nat_unat mult.commute)
  show ?thesis unfolding core_call_def e by (intro exI conjI, rule refl, rule sint_ucast_small[OF assms])
qed

lemma sbrk_fresh:
  assumes "sbrk_ok S h base (used_bytes H bs A)" and "16 * unat (core_units n) < 2 ^ 31" and "fst (S (h @ [core_call n])) = v" and "v \<noteq> - 1"
  shows "fresh base H bs v (unat (core_units n))" "\<And>a. a \<in> A \<Longrightarrow> bytes H a \<inter> {unat v..<unat v + 16 * unat (core_units n)} = {}"
proof -
  obtain k where k: "core_call n = Usbrk k" "sint k = int (16 * unat (core_units n))" using core_call_bytes[OF assms(2)] by blast
  then have v: "unat base + 16 \<le> unat v" "unat v + 16 * unat (core_units n) < 2 ^ 36"
      "{unat v..<unat v + 16 * unat (core_units n)} \<inter> used_bytes H bs A = {}"
    using assms(1,3,4) unfolding sbrk_ok_def Let_def by (metis nat_int of_nat_0_le_iff)+
  then show "fresh base H bs v (unat (core_units n))" "\<And>a. a \<in> A \<Longrightarrow> bytes H a \<inter> {unat v..<unat v + 16 * unat (core_units n)} = {}"
    unfolding fresh_def used_bytes_def by blast+
qed

text \<open>A block carved out of a heap in order is a new allocated block.\<close>

lemma carve_heap:
  assumes "heap_ok base H bs A" and "free_ok base H bs" and "q \<in> set bs" and "v \<in> set (base # bs)" and "hd_ptr H v = q"
    and "0 < n" and "n \<le> hd_size H q" and "carve n v q H = (r, H')"
  shows "\<exists>a bs'. r = hplus a 1 \<and> r \<noteq> 0 \<and> a \<notin> A \<and> heap_ok base H' bs' (insert a A) \<and> hd_size H' a = n \<and> (\<forall>b \<in> A. hd_size H' b = hd_size H b) \<and>
    length bs' \<le> length bs \<and> used_bytes H' bs' (insert a A) = used_bytes H bs A"
proof -
  obtain a bs' where c: "r = hplus a 1" "free_ok base H' bs'" "hd_size H' a = n" "unat base + 16 \<le> unat a" "bend H' a < 2 ^ 36"
      "free_bytes H bs = bytes H' a \<union> free_bytes H' bs'" "bytes H' a \<inter> free_bytes H' bs' = {}"
      "\<And>x. x \<notin> set (a # bs) \<Longrightarrow> hd_size H' x = hd_size H x" "set bs' \<subseteq> set bs"
    using carve_ok[OF assms(2-8)] by metis
  have ua: "unat a \<in> bytes H' a" using size_pos[of a H'] c(3) assms(6) by (simp add: bytes_def)
  have nA: "a \<notin> A" using heap_okD(5,8)[OF assms(1), of a] ua c(6) by blast
  have s: "hd_size H' b = hd_size H b" "bytes H' b = bytes H b \<and> bend H' b = bend H b" if "b \<in> A" for b
    using c(8)[of b] heap_okD(7)[OF assms(1) that] that nA same_size[of H' b H] by auto
  have "heap_ok base H' bs' (insert a A)"
  proof (rule heap_okI[OF c(2)])
    fix b assume "b \<in> insert a A"
    then show "unat base + 16 \<le> unat b \<and> 0 < hd_size H' b \<and> bend H' b < 2 ^ 36 \<and> bytes H' b \<inter> free_bytes H' bs' = {}"
    proof
      assume b: "b \<in> A"
      show ?thesis using heap_okD(2-5)[OF assms(1) b] s[OF b] c(6) by auto
    qed (use c(3-5,7) assms(6) in auto)
  next
    fix b d assume "b \<in> insert a A" "d \<in> insert a A" "b \<noteq> d"
    moreover have "bytes H' a \<inter> bytes H' b = {}" if "b \<in> A" for b using heap_okD(5)[OF assms(1) that] s(2)[OF that] c(6) by auto
    ultimately show "bytes H' b \<inter> bytes H' d = {}" using heap_okD(6)[OF assms(1)] s(2) by (metis Int_commute insertE)
  qed
  moreover have "r \<noteq> 0"
  proof -
    have "unat (hplus a 1) = unat a + 16" using c(5) by (subst hplus_eq) (auto simp: bend_def)
    then show ?thesis using c(1) by auto
  qed
  moreover have "length bs' \<le> length bs"
    using card_mono[OF _ c(9)] distinct_card[of bs'] free_ok_less(2)[OF c(2)] card_length[of bs] by simp
  moreover have "used_bytes H' bs' (insert a A) = used_bytes H bs A" using s(2) c(6) by (auto simp: used_bytes_def)
  ultimately show ?thesis using c(1,3) nA s(1) by blast
qed

text \<open>What a call of \<open>malloc\<close> for \<open>n\<close> units may do to the heap.\<close>

definition allocates :: "uint64 \<Rightarrow> heap \<Rightarrow> uint64 set \<Rightarrow> uint \<Rightarrow> uint64 \<Rightarrow> heap \<Rightarrow> bool" where
  "allocates base H A n r H' \<longleftrightarrow> (\<forall>b \<in> A. hd_size H' b = hd_size H b) \<and>
     (\<exists>a bs'. r = hplus a 1 \<and> r \<noteq> 0 \<and> a \<notin> A \<and> heap_ok base H' bs' (insert a A) \<and> hd_size H' a = n)"

text \<open>The same, with what it makes of the free list and of the memory in use, the bytes \<open>R\<close> being new.\<close>

definition takes :: "uint64 \<Rightarrow> heap \<Rightarrow> uint64 list \<Rightarrow> uint64 set \<Rightarrow> uint \<Rightarrow> nat set \<Rightarrow> uint64 \<Rightarrow> heap \<Rightarrow> bool" where
  "takes base H bs A n R r H' \<longleftrightarrow> (\<forall>b \<in> A. hd_size H' b = hd_size H b) \<and>
     (\<exists>a bs'. r = hplus a 1 \<and> r \<noteq> 0 \<and> a \<notin> A \<and> heap_ok base H' bs' (insert a A) \<and> hd_size H' a = n \<and>
        length bs' \<le> Suc (length bs) \<and> used_bytes H' bs' (insert a A) = used_bytes H bs A \<union> R)"

lemma takesI:
  assumes "\<exists>a bs'. r = hplus a 1 \<and> r \<noteq> 0 \<and> a \<notin> A \<and> heap_ok base H' bs' (insert a A) \<and> hd_size H' a = n \<and>
      (\<forall>b \<in> A. hd_size H' b = hd_size H1 b) \<and> length bs' \<le> length bs1 \<and> used_bytes H' bs' (insert a A) = used_bytes H1 bs1 A"
    and "\<forall>b \<in> A. hd_size H1 b = hd_size H b" and "length bs1 \<le> Suc (length bs)" and "used_bytes H1 bs1 A = used_bytes H bs A \<union> R"
  shows "takes base H bs A n R r H'"
proof -
  from assms(1) obtain a bs' where a: "r = hplus a 1" "r \<noteq> 0" "a \<notin> A" "heap_ok base H' bs' (insert a A)" "hd_size H' a = n"
    "\<forall>b \<in> A. hd_size H' b = hd_size H1 b" "length bs' \<le> length bs1" "used_bytes H' bs' (insert a A) = used_bytes H1 bs1 A" by blast
  have "length bs' \<le> Suc (length bs)" using a(7) assms(3) by simp
  then show ?thesis unfolding takes_def using a(1-6,8) assms(2,4) by (intro conjI exI[of _ a] exI[of _ bs']) auto
qed

lemma takes_allocates: "takes base H bs A n R r H' \<Longrightarrow> allocates base H A n r H' \<and> r \<noteq> 0"
  unfolding takes_def allocates_def by blast

lemma morecore_fails: "fst (S (h @ [core_call n])) = - 1 \<Longrightarrow> morecore g n H S h = (Val (0, H), h @ [core_call n])"
  by (cases "S (h @ [core_call n])") (simp add: morecore_def Let_def core_units_def[symmetric] core_call_def[symmetric])

lemma morecore_heap:
  assumes hp: "heap_ok base H bs A" and ok: "free_ok base H bs" and v: "fst (S (h @ [core_call n])) = v" "v \<noteq> - 1"
    and fr: "fresh base H bs v (unat (core_units n))" "\<And>a. a \<in> A \<Longrightarrow> bytes H a \<inter> {unat v..<unat v + 16 * unat (core_units n)} = {}"
    and n: "0 < n" and g: "length bs + 2 < g"
  shows "\<exists>r H'. bindU (morecore g n H) (\<lambda>(p, H). if p = 0 then retU (0, H) else malloc_loop g n p (hd_ptr H p) H) S h =
    (Val (r, H'), h @ [core_call n]) \<and> takes base H bs A n {unat v..<unat v + 16 * unat (core_units n)} r H'"
proof -
  have g1: "Suc (length bs) < g" using g by simp
  obtain H1 bs1 where m: "morecore g n H S h = (Val (freep H1, H1), h @ [core_call n])" "free_ok base H1 bs1" "length bs1 \<le> Suc (length bs)"
      "free_bytes H1 bs1 = free_bytes H bs \<union> {unat v..<unat v + 16 * unat (core_units n)}"
      "\<exists>b \<in> set bs1. n \<le> hd_size H1 b" "\<And>a. a \<notin> set (base # v # bs) \<Longrightarrow> hd_size H1 a = hd_size H a"
    using morecore_ok[where S = S and h = h, OF ok v fr(1) g1] by metis
  have k: "0 < unat (core_units n)" using n by (auto simp: core_units_def unat_gt_0)
  have s: "hd_size H1 b = hd_size H b" "bytes H1 b = bytes H b \<and> bend H1 b = bend H b" if "b \<in> A" for b
  proof -
    have "b \<noteq> v" using fr(2)[OF that] heap_okD(8)[OF hp that] k by auto
    then show "hd_size H1 b = hd_size H b" using m(6)[of b] heap_okD(7)[OF hp that] by auto
    then show "bytes H1 b = bytes H b \<and> bend H1 b = bend H b" by (rule same_size)
  qed
  have hp1: "heap_ok base H1 bs1 A"
  proof (rule heap_okI[OF m(2)])
    fix b assume b: "b \<in> A"
    show "unat base + 16 \<le> unat b \<and> 0 < hd_size H1 b \<and> bend H1 b < 2 ^ 36 \<and> bytes H1 b \<inter> free_bytes H1 bs1 = {}"
      using heap_okD(2-5)[OF hp b] s[OF b] fr(2)[OF b] unfolding m(4) by auto
  qed (use heap_okD(6)[OF hp] s(2) in metis)
  have nz: "freep H1 \<noteq> 0" using m(2) free_ok_less(4)[OF m(2)] by (auto simp: free_ok_def)
  have g2: "length bs1 < g" using m(3) g by simp
  have "\<not> (\<forall>q \<in> set bs1. hd_size H1 q < n)" using m(5) by (meson not_le)
  then obtain u q where q: "q \<in> set bs1" "u \<in> set (base # bs1)" "hd_ptr H1 u = q" "n \<le> hd_size H1 q"
      "malloc_loop g n (freep H1) (hd_ptr H1 (freep H1)) H1 S (h @ [core_call n]) = (Val (carve n u q H1), h @ [core_call n])"
    using malloc_scan[OF m(2) n g2, of S "h @ [core_call n]"] by blast
  obtain r H' where c: "carve n u q H1 = (r, H')" by fastforce
  have "used_bytes H1 bs1 A = used_bytes H bs A \<union> {unat v..<unat v + 16 * unat (core_units n)}"
    using s(2) m(4) by (auto simp: used_bytes_def)
  with s(1) m(3) have "takes base H bs A n {unat v..<unat v + 16 * unat (core_units n)} r H'"
    by (intro takesI[OF carve_heap[OF hp1 m(2) q(1-3) n q(4) c]]) auto
  then show ?thesis using m(1) nz q(5) c by simp
qed

lemma malloc_step:
  assumes "heap_ok base H bs A" and "sbrk_ok S h base (used_bytes H bs A)" and "unat nbytes \<le> 2 ^ 31 - 32"
    and "2 * length bs + 4 \<le> f"
  defines "n \<equiv> units nbytes"
  defines "v \<equiv> fst (S (h @ [core_call n]))"
  shows "\<exists>r H' h'. malloc f base nbytes H S h = (Val (r, H'), h') \<and>
    (r = 0 \<and> h' = h @ [core_call n] \<and> v = - 1 \<and> heap_ok base H' bs A \<and> (\<forall>b \<in> set bs. hd_size H b < n) \<or>
     h' = h \<and> takes base H bs A n {} r H' \<or>
     h' = h @ [core_call n] \<and> v \<noteq> - 1 \<and> takes base H bs A n {unat v..<unat v + 16 * unat (core_units n)} r H')"
proof -
  define H0 where "H0 = (if freep H = 0 then set_size base 0 ((set_ptr base base H)\<lparr>freep := base\<rparr>) else H)"
  have n: "0 < n" "16 * unat (core_units n) < 2 ^ 31"
  proof -
    show "0 < n" using unat_units[of nbytes] by (simp add: n_def word_less_nat_alt)
    have "(unat nbytes + 15) div 16 \<le> (2 ^ 31 - 17) div 16" using assms(3) by (intro div_le_mono) simp
    then show "16 * unat (core_units n) < 2 ^ 31" using unat_units[of nbytes] by (simp add: core_units_def n_def)
  qed
  have m: "malloc f base nbytes H = malloc_loop f n (freep H0) (hd_ptr H0 (freep H0)) H0" by (simp add: malloc_def H0_def Let_def n_def)
  have ok: "free_ok base H0 bs" "heap_ok base H0 bs A"
    using assms(1) by (auto simp: heap_ok_def H0_def free_ok_def heap_upd split: if_splits)
  have same: "hd_size H0 b = hd_size H b" "bytes H0 b = bytes H b" if "b \<in> set bs \<union> A" for b
    using that assms(1) by (auto simp: H0_def heap_ok_def split: if_splits)
  then have used: "used_bytes H0 bs A = used_bytes H bs A" by (simp add: used_bytes_def free_bytes_def)
  have takes: "takes base H0 bs A n R r H' \<Longrightarrow> takes base H bs A n R r H'" for R r H' using same(1) by (simp add: takes_def used)
  have f: "length bs < f" using assms(4) by simp
  from malloc_scan[OF ok(1) n(1) f, of S h] show ?thesis
  proof (elim disjE conjE exE, goal_cases)
    case (1 v' q)
    obtain r H' where c: "carve n v' q H0 = (r, H')" by fastforce
    have "takes base H0 bs A n {} r H'" by (rule takesI[OF carve_heap[OF ok(2,1) 1(1-3) n(1) 1(4) c]]) auto
    then show ?thesis using 1(5) c m takes by auto
  next
    case (2 g)
    show ?thesis
    proof (cases "v = - 1")
      case True
      then have "malloc f base nbytes H S h = (Val (0, H0), h @ [core_call n])"
        using 2(3) m morecore_fails[where S = S and h = h and n = n and g = g and H = H0] by (simp add: v_def)
      then show ?thesis using True ok(2) 2(1) same(1) by auto
    next
      case False
      have g: "length bs + 2 < g" using 2(2) assms(4) by simp
      have v: "fst (S (h @ [core_call n])) = v" by (simp add: v_def)
      note fr = sbrk_fresh[OF assms(2)[folded used] n(2) v False]
      from morecore_heap[where S = S and h = h, OF ok(2,1) v False fr n(1) g] 2(3) m takes False show ?thesis by auto
    qed
  qed
qed

text \<open>
  C35. \<open>malloc\<close> ends, and returns 0 only if no free block is large enough and \<open>sbrk\<close> fails; otherwise it returns the
  address behind the header of a new block, which has room for the bytes asked for, overlaps no allocated block and no
  free one, and leaves the other allocated blocks as they were. Requests are below 2 GiB.
\<close>

theorem malloc_gives_block:
  assumes "heap_ok base H bs A" and "sbrk_ok S h base (used_bytes H bs A)" and "unat nbytes \<le> 2 ^ 31 - 32"
    and "2 * length bs + 4 \<le> f"
  shows "\<exists>r H' h'. malloc f base nbytes H S h = (Val (r, H'), h') \<and>
    (if r = 0 then fst (S (h @ [core_call (units nbytes)])) = - 1 \<and> heap_ok base H' bs A \<and> (\<forall>b \<in> set bs. hd_size H b < units nbytes)
     else allocates base H A (units nbytes) r H' \<and> unat nbytes \<le> 16 * (unat (units nbytes) - 1))"
proof -
  have "unat nbytes \<le> 16 * (unat (units nbytes) - 1)" unfolding unat_units by simp
  with malloc_step[OF assms] takes_allocates show ?thesis by fastforce
qed

theorem malloc_gives_block_witness:
  "let H = \<lparr>hd_ptr = \<lambda>_. 0, hd_size = \<lambda>_. 0, freep = 0\<rparr> in
   \<exists>r H' h'. malloc 4 0x1000 100 H (\<lambda>_. (0x4000, [])) [] = (Val (r, H'), h') \<and> allocates 0x1000 H {} (units 100) r H'"
proof -
  let ?H = "\<lparr>hd_ptr = \<lambda>_. 0, hd_size = \<lambda>_. 0, freep = 0\<rparr>" and ?S = "\<lambda>_. (0x4000, [])"
  have "unat (0x4000 :: uint64) + nat (sint k) < 2 ^ 36" for k :: cint using sint_less[of k] by simp
  then have "sbrk_ok ?S [] 0x1000 (used_bytes ?H [] {})"
    by (simp add: sbrk_ok_def used_bytes_def free_bytes_def)
  moreover have "heap_ok 0x1000 ?H [] {}" by (simp add: heap_ok_def)
  ultimately show ?thesis using malloc_gives_block[of "0x1000" ?H "[]" "{}" ?S "[]" "100" 4] by (auto split: if_splits)
qed

section \<open>A sequence of requests\<close>

text \<open>
  What \<open>sbrk\<close> promises for all its calls: there is a break, above the variables of the program and below \<open>2 ^ 36\<close>, that every
  successful call returns and moves up by as many bytes as it was asked for.
\<close>

definition sbrk_grows :: "os \<Rightarrow> uint64 \<Rightarrow> (ucall list \<Rightarrow> nat) \<Rightarrow> bool" where
  "sbrk_grows S base brk \<longleftrightarrow> (\<forall>h k. 0 \<le> sint k \<longrightarrow> unat base + 16 \<le> brk h \<and> (let h' = h @ [Usbrk k] in
     fst (S h') = - 1 \<and> brk h' = brk h \<or>
     fst (S h') = of_nat (brk h) \<and> brk h' = brk h + nat (sint k) \<and> brk h + nat (sint k) < 2 ^ 36))"

text \<open>The heap between two requests, with at most \<open>k\<close> free blocks.\<close>

definition heap_below :: "uint64 \<Rightarrow> heap \<Rightarrow> nat \<Rightarrow> nat \<Rightarrow> bool" where
  "heap_below base H brk k \<longleftrightarrow> (\<exists>bs A. heap_ok base H bs A \<and> used_bytes H bs A \<subseteq> {..<brk} \<and> length bs \<le> k)"

lemma sbrk_grows_ok:
  assumes "sbrk_grows S base brk" and "used_bytes H bs A \<subseteq> {..<brk h}"
  shows "sbrk_ok S h base (used_bytes H bs A)"
  unfolding sbrk_ok_def Let_def
proof (intro allI impI)
  fix k :: cint assume "0 \<le> sint k"
  then have g: "unat base + 16 \<le> brk h" "fst (S (h @ [Usbrk k])) = - 1 \<or>
      fst (S (h @ [Usbrk k])) = of_nat (brk h) \<and> brk h + nat (sint k) < 2 ^ 36"
    using assms(1) unfolding sbrk_grows_def Let_def by blast+
  have "unat (of_nat (brk h) :: uint64) = brk h" if "brk h + nat (sint k) < 2 ^ 36" using that by (simp add: unat_of_nat take_bit_nat_eq_self)
  then show "fst (S (h @ [Usbrk k])) = - 1 \<or> unat base + 16 \<le> unat (fst (S (h @ [Usbrk k]))) \<and>
      unat (fst (S (h @ [Usbrk k]))) + nat (sint k) < 2 ^ 36 \<and>
      {unat (fst (S (h @ [Usbrk k])))..<unat (fst (S (h @ [Usbrk k]))) + nat (sint k)} \<inter> used_bytes H bs A = {}"
    using g assms(2) by auto
qed

lemma malloc_next:
  assumes "heap_below base H (brk h) m" and "sbrk_grows S base brk" and "unat nbytes \<le> 2 ^ 31 - 32" and "2 * m + 4 \<le> f"
  shows "\<exists>r H' h'. malloc f base nbytes H S h = (Val (r, H'), h') \<and>
    (r = 0 \<and> (\<exists>k. h' = h @ [Usbrk k]) \<and> fst (S h') = - 1 \<or> r \<noteq> 0 \<and> heap_below base H' (brk h') (Suc m))"
proof -
  obtain bs A where b: "heap_ok base H bs A" "used_bytes H bs A \<subseteq> {..<brk h}" "length bs \<le> m"
    using assms(1) by (auto simp: heap_below_def)
  let ?n = "units nbytes"
  have small: "16 * unat (core_units ?n) < 2 ^ 31"
  proof -
    have "(unat nbytes + 15) div 16 \<le> (2 ^ 31 - 17) div 16" using assms(3) by (intro div_le_mono) simp
    then show ?thesis using unat_units[of nbytes] by (simp add: core_units_def)
  qed
  obtain k where k: "core_call ?n = Usbrk k" "sint k = int (16 * unat (core_units ?n))" using core_call_bytes[OF small] by blast
  let ?h = "h @ [Usbrk k]"
  have gr: "fst (S ?h) = - 1 \<or> fst (S ?h) = of_nat (brk h) \<and> brk ?h = brk h + 16 * unat (core_units ?n) \<and>
      brk h + 16 * unat (core_units ?n) < 2 ^ 36"
    using assms(2) k(2) unfolding sbrk_grows_def Let_def by (metis nat_int of_nat_0_le_iff)
  have f: "2 * length bs + 4 \<le> f" using b(3) assms(4) by simp
  have below: "heap_below base H' b' (Suc m) \<and> r \<noteq> 0"
    if "takes base H bs A ?n R r H'" "used_bytes H bs A \<union> R \<subseteq> {..<b'}" for R r H' b'
  proof -
    from that(1) obtain a bs' where a: "heap_ok base H' bs' (insert a A)" "r \<noteq> 0" "length bs' \<le> Suc (length bs)"
      "used_bytes H' bs' (insert a A) = used_bytes H bs A \<union> R" unfolding takes_def by blast
    have "length bs' \<le> Suc m" using a(3) b(3) by simp
    then show ?thesis using a(1,2,4) that(2) unfolding heap_below_def by (intro conjI exI[of _ bs'] exI[of _ "insert a A"]) auto
  qed
  have region: "used_bytes H bs A \<union> {unat (fst (S ?h))..<unat (fst (S ?h)) + 16 * unat (core_units ?n)} \<subseteq> {..<brk ?h}" if "fst (S ?h) \<noteq> - 1"
  proof -
    have "unat (of_nat (brk h) :: uint64) = brk h" using gr that by (simp add: unat_of_nat take_bit_nat_eq_self)
    then show ?thesis using gr that b(2) by fastforce
  qed
  from malloc_step[OF b(1) sbrk_grows_ok[OF assms(2) b(2)] assms(3) f, unfolded k(1)] show ?thesis
  proof (elim exE conjE disjE, goal_cases)
    case (2 r H' h')
    then show ?case using below[of "{}" r H' "brk h"] b(2) by auto
  next
    case (3 r H' h')
    then show ?case using below[OF 3(4) region] by auto
  qed auto
qed

text \<open>A request of almost 4 GiB asks the kernel for 16 bytes only, for the size wraps around as an \<open>int\<close>.\<close>

lemma core_call_wraps: "core_call (units 0xffffffff) = Usbrk 16"
  by code_simp

end
