(* ===== verification/ShProofs.thy ===== *)
theory ShProofs
  imports Sh UmallocProofs "HOL-Library.Multiset"
begin

text \<open>
  The parser of the shell: it always comes to an end, the trees it makes are well formed, the strings in them are the
  words of the line, and every command can be written as a line that parses to it.
\<close>

section \<open>The trees\<close>

text \<open>
  A well formed command: fewer than \<open>MAXARGS\<close> arguments, words of some kind, and the redirections there are.
\<close>

fun wf_cmd :: "('a \<Rightarrow> bool) \<Rightarrow> 'a cmd \<Rightarrow> bool" where
  "wf_cmd W (EXEC as) \<longleftrightarrow> length as < MAXARGS \<and> list_all W as"
| "wf_cmd W (REDIR c f mode fd) \<longleftrightarrow> wf_cmd W c \<and> W f \<and> (mode, fd) \<in> {(0, 0), (0x601, 1), (0x201, 1)}"
| "wf_cmd W (PIPE l r) \<longleftrightarrow> wf_cmd W l \<and> wf_cmd W r"
| "wf_cmd W (LIST l r) \<longleftrightarrow> wf_cmd W l \<and> wf_cmd W r"
| "wf_cmd W (BACK c) \<longleftrightarrow> wf_cmd W c"

fun args_of :: "'a cmd \<Rightarrow> 'a list" where
  "args_of (EXEC as) = as"
| "args_of (REDIR c f mode fd) = args_of c"
| "args_of _ = []"

lemma wf_redir: "wf_cmd W c \<Longrightarrow> W w \<Longrightarrow> wf_cmd W (redir tok c w)"
  by (simp add: redir_def)

lemma args_of_redir [simp]: "args_of (redir tok c w) = args_of c"
  by (simp add: redir_def)

lemma wf_add_arg: "wf_cmd W c \<Longrightarrow> W a \<Longrightarrow> Suc (length (args_of c)) < MAXARGS \<Longrightarrow> wf_cmd W (add_arg c a)"
  by (induction c) simp_all

lemma args_of_add_arg: "length (args_of (add_arg c a)) \<le> Suc (length (args_of c))"
  by (induction c) simp_all

section \<open>The parser moves on and makes well formed trees\<close>

definition fwd :: "uint8 list \<Rightarrow> nat \<Rightarrow> nat \<Rightarrow> bool" where
  "fwd s i i' \<longleftrightarrow> i \<le> i' \<and> (i \<le> length s \<longrightarrow> i' \<le> length s)"

lemma fwd_trans: "fwd s i j \<Longrightarrow> fwd s j k \<Longrightarrow> fwd s i k"
  by (auto simp: fwd_def)

lemma peek_fwd: "peek s i toks = (i', b) \<Longrightarrow> fwd s i i'"
  by (auto simp: fwd_def dest: peek_progress)

lemma gettoken_fwd: "gettoken s i = (tok, q, eq, i') \<Longrightarrow> fwd s i i'"
  using gettoken_progress[of s i tok q eq i'] by (simp add: fwd_def)

lemma parseredirs_ok:
  assumes "parseredirs c s i = Inr (c', i')" and "wf_cmd (is_word s) c"
  shows "fwd s i i' \<and> wf_cmd (is_word s) c' \<and> args_of c' = args_of c"
  by (rule parseredirs_invariant[OF assms(1), of "\<lambda>d k. fwd s i k \<and> wf_cmd (is_word s) d \<and> args_of d = args_of c"])
    (auto simp: assms(2) fwd_def wf_redir)

lemma parseargs_ok:
  assumes "parseargs c n s i = Inr (c', i')" and "wf_cmd (is_word s) c" and "length (args_of c) \<le> n"
  shows "fwd s i i' \<and> wf_cmd (is_word s) c'"
  using assms
proof (induction c n s i rule: parseargs.induct)
  case (1 c n s i)
  obtain i1 stop where p: "peek s i ''|)&;'' = (i1, stop)" by fastforce
  obtain tok q eq i2 where g: "gettoken s i1 = (tok, q, eq, i2)" by (metis prod_cases4)
  note fw = fwd_trans[OF peek_fwd[OF p] gettoken_fwd[OF g]]
  show ?case
  proof (cases "stop \<or> tok = 0")
    case False
    with "1.prems"(1) p g obtain c1 i3 where r: "parseredirs (add_arg c (q, eq)) s i2 = Inr (c1, i3)"
        "tok = 0x61" "\<not> MAXARGS \<le> n + 1" "parseargs c1 (n + 1) s i3 = Inr (c', i')"
      by (subst (asm) parseargs.simps) (auto split: if_splits sum.splits)
    have "wf_cmd (is_word s) (add_arg c (q, eq))"
      using "1.prems"(2,3) r(2,3) gettoken_word g by (intro wf_add_arg) auto
    from parseredirs_ok[OF r(1) this] args_of_add_arg[of c "(q, eq)"] "1.prems"(3)
    have c1: "fwd s i2 i3" "wf_cmd (is_word s) c1" "length (args_of c1) \<le> n + 1" by auto
    from "1.IH"[OF p[symmetric] _ g[symmetric] refl refl _ _ _ r(1) refl r(4) c1(2,3)] False r(2,3)
    have "fwd s i3 i' \<and> wf_cmd (is_word s) c'" by auto
    then show ?thesis using fwd_trans[OF fw fwd_trans[OF c1(1)]] by blast
  qed (use "1.prems" p g fw peek_fwd[OF p] in \<open>subst (asm) parseargs.simps, auto split: if_splits\<close>)
qed

lemma parseback_ok:
  assumes "parseback c s i = (c', i')" and "wf_cmd W c"
  shows "fwd s i i' \<and> wf_cmd W c'"
  using assms
proof (induction c s i rule: parseback.induct)
  case (1 c s i)
  obtain i1 again where p: "peek s i ''&'' = (i1, again)" by fastforce
  obtain tok q eq i2 where g: "gettoken s i1 = (tok, q, eq, i2)" by (metis prod_cases4)
  note fw = fwd_trans[OF peek_fwd[OF p] gettoken_fwd[OF g]]
  show ?case
  proof (cases again)
    case True
    with "1.prems"(1) p g have "parseback (BACK c) s i2 = (c', i')" by (subst (asm) parseback.simps) simp
    from "1.IH"[OF p[symmetric] _ g[symmetric] refl refl this] True "1.prems"(2) fwd_trans[OF fw] show ?thesis by simp
  qed (use "1.prems" p peek_fwd[OF p] in \<open>subst (asm) parseback.simps, simp\<close>)
qed

definition parses_ok :: "(uint8 list \<Rightarrow> nat \<Rightarrow> ptr_cmd parsed) \<Rightarrow> bool" where
  "parses_ok p \<longleftrightarrow> (\<forall>s i c i'. p s i = Inr (c, i') \<longrightarrow> fwd s i i' \<and> wf_cmd (is_word s) c)"

lemma parses_okI: "(\<And>s i c i'. p s i = Inr (c, i') \<Longrightarrow> fwd s i i' \<and> wf_cmd (is_word s) c) \<Longrightarrow> parses_ok p"
  by (simp add: parses_ok_def)

lemma parses_okD: "parses_ok p \<Longrightarrow> p s i = Inr (c, i') \<Longrightarrow> fwd s i i' \<and> wf_cmd (is_word s) c"
  by (simp add: parses_ok_def)

lemma parseline_ok:
  assumes "parses_ok (parsepipe f)" and "parses_ok (parseline f)"
  shows "parses_ok (parseline (Suc f))"
proof (rule parses_okI)
  fix s i c i' assume "parseline (Suc f) s i = Inr (c, i')"
  then obtain c1 i1 c2 i2 i3 again where p: "parsepipe f s i = Inr (c1, i1)" "parseback c1 s i1 = (c2, i2)" "peek s i2 '';'' = (i3, again)"
    and r: "if again then \<exists>tok q eq i4 r. gettoken s i3 = (tok, q, eq, i4) \<and> parseline f s i4 = Inr (r, i') \<and> c = LIST c2 r
       else (c, i') = (c2, i3)"
    by (auto split: sum.splits prod.splits if_splits)
  have fw: "fwd s i i3" "wf_cmd (is_word s) c2"
    using parses_okD[OF assms(1) p(1)] parseback_ok[OF p(2)] peek_fwd[OF p(3)] by (blast intro: fwd_trans)+
  show "fwd s i i' \<and> wf_cmd (is_word s) c"
    using r fw by (auto split: if_splits dest!: parses_okD[OF assms(2)] gettoken_fwd intro: fwd_trans)
qed

lemma parsepipe_ok:
  assumes "parses_ok (parseexec f)" and "parses_ok (parsepipe f)"
  shows "parses_ok (parsepipe (Suc f))"
proof (rule parses_okI)
  fix s i c i' assume "parsepipe (Suc f) s i = Inr (c, i')"
  then obtain c2 i2 i3 again where p: "parseexec f s i = Inr (c2, i2)" "peek s i2 ''|'' = (i3, again)"
    and r: "if again then \<exists>tok q eq i4 r. gettoken s i3 = (tok, q, eq, i4) \<and> parsepipe f s i4 = Inr (r, i') \<and> c = PIPE c2 r
       else (c, i') = (c2, i3)"
    by (auto split: sum.splits prod.splits if_splits)
  have fw: "fwd s i i3" "wf_cmd (is_word s) c2"
    using parses_okD[OF assms(1) p(1)] peek_fwd[OF p(2)] by (blast intro: fwd_trans)+
  show "fwd s i i' \<and> wf_cmd (is_word s) c"
    using r fw by (auto split: if_splits dest!: parses_okD[OF assms(2)] gettoken_fwd intro: fwd_trans)
qed

lemma parseblock_ok:
  assumes "parses_ok (parseline f)"
  shows "parses_ok (parseblock (Suc f))"
proof (rule parses_okI)
  fix s i c i' assume "parseblock (Suc f) s i = Inr (c, i')"
  then obtain i1 t1 q1 e1 i2 c1 i3 i4 t2 q2 e2 i5 where p: "peek s i ''('' = (i1, True)" "gettoken s i1 = (t1, q1, e1, i2)"
      "parseline f s i2 = Inr (c1, i3)" "peek s i3 '')'' = (i4, True)" "gettoken s i4 = (t2, q2, e2, i5)"
      "parseredirs c1 s i5 = Inr (c, i')"
    by (auto split: sum.splits prod.splits if_splits)
  have "fwd s i i5" using peek_fwd[OF p(1)] gettoken_fwd[OF p(2)] parses_okD[OF assms p(3)] peek_fwd[OF p(4)]
      gettoken_fwd[OF p(5)] by (blast intro: fwd_trans)
  then show "fwd s i i' \<and> wf_cmd (is_word s) c"
    using parseredirs_ok[OF p(6)] parses_okD[OF assms p(3)] by (blast intro: fwd_trans)
qed

lemma parseexec_ok:
  assumes "parses_ok (parseblock f)"
  shows "parses_ok (parseexec (Suc f))"
proof (rule parses_okI)
  fix s i c i' assume e: "parseexec (Suc f) s i = Inr (c, i')"
  obtain i1 b where p: "peek s i ''('' = (i1, b)" by fastforce
  show "fwd s i i' \<and> wf_cmd (is_word s) c"
  proof (cases b)
    case True
    with e p have "parseblock f s i1 = Inr (c, i')" by simp
    from parses_okD[OF assms this] peek_fwd[OF p] show ?thesis by (blast intro: fwd_trans)
  next
    case False
    with e p obtain c1 i2 where r: "parseredirs (EXEC []) s i1 = Inr (c1, i2)" "parseargs c1 0 s i2 = Inr (c, i')"
      by (auto split: sum.splits)
    have "fwd s i1 i2 \<and> wf_cmd (is_word s) c1 \<and> args_of c1 = []" using parseredirs_ok[OF r(1)] by (simp add: MAXARGS_def)
    with parseargs_ok[OF r(2)] peek_fwd[OF p] show ?thesis by (auto intro: fwd_trans)
  qed
qed

lemma parse_ok: "parses_ok (parseline f) \<and> parses_ok (parsepipe f) \<and> parses_ok (parseblock f) \<and> parses_ok (parseexec f)"
proof (induction f)
  case 0
  then show ?case by (simp add: parses_ok_def)
qed (blast intro: parseline_ok parsepipe_ok parseblock_ok parseexec_ok)

lemmas parseline_okD = parses_okD[OF conjunct1[OF parse_ok]]
  and parsepipe_okD = parses_okD[OF conjunct1[OF conjunct2[OF parse_ok]]]
  and parseblock_okD = parses_okD[OF conjunct1[OF conjunct2[OF conjunct2[OF parse_ok]]]]
  and parseexec_okD = parses_okD[OF conjunct2[OF conjunct2[OF conjunct2[OF parse_ok]]]]

section \<open>The parser ends\<close>

lemma parseargs_fuel: "parseargs c n s i \<noteq> Inl NoFuel"
proof (induction c n s i rule: parseargs.induct)
  case (1 c n s i)
  then show ?case using parseredirs_fuel by (subst parseargs.simps) (auto split: prod.split sum.split)
qed

text \<open>The fuel a function needs: four calls for a byte of the line that is left, and some to begin with.\<close>

definition ends :: "nat \<Rightarrow> nat \<Rightarrow> (uint8 list \<Rightarrow> nat \<Rightarrow> ptr_cmd parsed) \<Rightarrow> bool" where
  "ends f k p \<longleftrightarrow> (\<forall>s i. 4 * (length s - i) + k \<le> f \<longrightarrow> p s i \<noteq> Inl NoFuel)"

lemma endsD: "ends f k p \<Longrightarrow> 4 * (length s - i) + k \<le> f \<Longrightarrow> p s i \<noteq> Inl NoFuel"
  by (simp add: ends_def)

text \<open>After a token there is less of the line left.\<close>

lemma token_less:
  assumes "fwd s i i1" and "peek s i1 toks = (i2, True)" and "gettoken s i2 = (tok, q, eq, i3)"
  shows "4 * (length s - i3) + 4 \<le> 4 * (length s - i)"
proof -
  have "i1 < i3" "i1 < length s" "i \<le> i1" using peek_tok[OF assms(2,3)] assms(1) by (auto simp: fwd_def)
  then show ?thesis by linarith
qed

lemma fwd_refl: "fwd s i i"
  by (simp add: fwd_def)

lemma parse_ends:
  "ends f 4 (parseline f) \<and> ends f 3 (parsepipe f) \<and> ends f 1 (parseblock f) \<and> ends f 2 (parseexec f)"
proof (induction f)
  case (Suc f)
  have line: "ends (Suc f) 4 (parseline (Suc f))"
    unfolding ends_def
  proof (intro allI impI)
    fix s :: "uint8 list" and i assume f: "4 * (length s - i) + 4 \<le> Suc f"
    have "parsepipe f s i \<noteq> Inl NoFuel" using Suc f by (intro endsD[of f 3]) auto
    moreover have "parseline f s i4 \<noteq> Inl NoFuel"
      if "parsepipe f s i = Inr (c1, i1)" "parseback c1 s i1 = (c2, i2)" "peek s i2 '';'' = (i3, True)"
        "gettoken s i3 = (tok, q, eq, i4)" for c1 i1 c2 i2 i3 tok q eq i4
      using Suc f token_less[OF _ that(3,4), of i] fwd_trans[of s i i1 i2] parsepipe_okD[OF that(1)] parseback_ok[OF that(2)]
      by (intro endsD[of f 4]) auto
    ultimately show "parseline (Suc f) s i \<noteq> Inl NoFuel" by (auto split: sum.split prod.split)
  qed
  have pipe: "ends (Suc f) 3 (parsepipe (Suc f))"
    unfolding ends_def
  proof (intro allI impI)
    fix s :: "uint8 list" and i assume f: "4 * (length s - i) + 3 \<le> Suc f"
    have "parseexec f s i \<noteq> Inl NoFuel" using Suc f by (intro endsD[of f 2]) auto
    moreover have "parsepipe f s i4 \<noteq> Inl NoFuel"
      if "parseexec f s i = Inr (c1, i1)" "peek s i1 ''|'' = (i3, True)" "gettoken s i3 = (tok, q, eq, i4)" for c1 i1 i3 tok q eq i4
      using Suc f token_less[OF _ that(2,3), of i] parseexec_okD[OF that(1)] by (intro endsD[of f 3]) auto
    ultimately show "parsepipe (Suc f) s i \<noteq> Inl NoFuel" by (auto split: sum.split prod.split)
  qed
  have block: "ends (Suc f) 1 (parseblock (Suc f))"
    unfolding ends_def
  proof (intro allI impI)
    fix s :: "uint8 list" and i assume f: "4 * (length s - i) + 1 \<le> Suc f"
    have "parseline f s i4 \<noteq> Inl NoFuel" if "peek s i ''('' = (i3, True)" "gettoken s i3 = (tok, q, eq, i4)" for i3 tok q eq i4
      using Suc f token_less[OF fwd_refl that] by (intro endsD[of f 4]) auto
    then show "parseblock (Suc f) s i \<noteq> Inl NoFuel"
      using parseredirs_fuel by (auto split: sum.split prod.split)
  qed
  have "ends (Suc f) 2 (parseexec (Suc f))"
    unfolding ends_def
  proof (intro allI impI)
    fix s :: "uint8 list" and i assume f: "4 * (length s - i) + 2 \<le> Suc f"
    have "parseblock f s i1 \<noteq> Inl NoFuel" if "peek s i ''('' = (i1, True)" for i1
      using Suc f peek_fwd[OF that] by (intro endsD[of f 1]) (auto simp: fwd_def)
    then show "parseexec (Suc f) s i \<noteq> Inl NoFuel"
      using parseredirs_fuel parseargs_fuel by (auto split: sum.split prod.split)
  qed
  with line pipe block show ?case by blast
qed (simp add: ends_def)

lemma parsecmd_ends: "parsecmd s \<noteq> Inl NoFuel"
  using endsD[OF conjunct1[OF parse_ends], of s 0 "4 * length s + 4"]
  by (auto simp: parsecmd_def split: sum.split prod.split simp del: parseline.simps)

section \<open>The strings of a tree\<close>

lemma length_nulterminate [simp]: "length (nulterminate c buf) = length buf"
proof (induction c buf rule: nulterminate.induct)
  case (1 as buf)
  then show ?case by (induction as arbitrary: buf) auto
qed simp_all

lemma nth_update_if: "k < length xs \<Longrightarrow> xs[i := x] ! k = (if i = k then x else xs ! k)"
  by simp

lemma nulterminate_nth:
  "k < length buf \<Longrightarrow> nulterminate c buf ! k = (if \<exists>q. (q, k) \<in> set_cmd c then 0 else buf ! k)"
proof (induction c buf rule: nulterminate.induct)
  case (1 as buf)
  then show ?case by (induction as arbitrary: buf) (auto simp: nth_update_if)
qed (auto simp: nth_update_if)

lemma wf_cmd_set: "wf_cmd W c \<Longrightarrow> w \<in> set_cmd c \<Longrightarrow> W w"
  by (induction c) (auto simp: list_all_iff)

lemma wf_cmd_map: "wf_cmd W c \<Longrightarrow> (\<And>w. w \<in> set_cmd c \<Longrightarrow> W' (g w)) \<Longrightarrow> wf_cmd W' (map_cmd g c)"
  by (induction c) (auto simp: list_all_iff)

definition part_of :: "uint8 list \<Rightarrow> nat \<times> nat \<Rightarrow> uint8 list" where
  "part_of s w = take (snd w - fst w) (drop (fst w) s)"

lemma cstring_part:
  assumes "0 \<notin> set s" and "\<And>w. w \<in> set_cmd c \<Longrightarrow> is_word s w" and "(q, eq) \<in> set_cmd c"
  shows "cstring (nulterminate c (s @ [0])) q = part_of s (q, eq)"
proof -
  let ?b = "nulterminate c (s @ [0])"
  have w: "q < eq" "eq \<le> length s" "\<And>k. k \<in> {q..<eq} \<Longrightarrow> \<not> is_white (s ! k) \<and> \<not> is_symbol (s ! k)"
    using assms(2)[OF assms(3)] by (auto simp: is_word_def)
  have e: "k = length s \<or> is_white (s ! k) \<or> is_symbol (s ! k)" if "(q, k) \<in> set_cmd c" for q k
    using assms(2)[OF that] by (auto simp: is_word_def)
  have b: "?b ! k = s ! k \<and> s ! k \<noteq> 0" if "k \<in> {q..<eq}" for k
  proof -
    have "s ! k \<noteq> 0" using that w(2) assms(1) nth_mem[of k s] by (metis atLeastLessThan_iff less_le_trans)
    with w(3)[OF that] e[of _ k] that w(2) show ?thesis by (auto simp: nulterminate_nth nth_append)
  qed
  have z: "?b ! eq = 0" using assms(3) w(2) by (auto simp: nulterminate_nth)
  have d: "drop q ?b = part_of s (q, eq) @ 0 # drop (Suc eq) ?b"
  proof -
    have "take (eq - q) (drop q ?b) = part_of s (q, eq)"
      using b w(1,2) by (intro nth_equalityI) (auto simp: part_of_def)
    moreover have "drop (eq - q) (drop q ?b) = 0 # drop (Suc eq) ?b"
      using w z Cons_nth_drop_Suc[of eq ?b] by simp
    ultimately show ?thesis by (metis append_take_drop_id)
  qed
  have "\<forall>c \<in> set (part_of s (q, eq)). c \<noteq> 0" using assms(1) by (auto simp: part_of_def dest: in_set_takeD in_set_dropD)
  then show ?thesis by (simp add: cstring_def d takeWhile_append2)
qed

lemma parsecmd_strings:
  assumes "parsecmd s = Inr p" and "0 \<notin> set s"
  shows "wf_cmd (is_word s) (fst p)" "strings p = map_cmd (part_of s) (fst p)"
proof -
  from assms(1) obtain c i where p: "parseline (4 * length s + 4) s 0 = Inr (c, i)" "p = (c, nulterminate c (s @ [0]))"
    by (auto simp: parsecmd_def split: sum.splits prod.splits if_splits simp del: parseline.simps)
  have ok: "wf_cmd (is_word s) c" using parseline_okD[OF p(1)] by simp
  then show "wf_cmd (is_word s) (fst p)" by (simp add: p(2))
  show "strings p = map_cmd (part_of s) (fst p)"
    using cstring_part[OF assms(2) wf_cmd_set[OF ok]] by (auto simp: strings_def p(2) intro!: cmd.map_cong)
qed

text \<open>A string a program can be called with.\<close>

definition plain_word :: "uint8 list \<Rightarrow> bool" where
  "plain_word w \<longleftrightarrow> w \<noteq> [] \<and> list_all (\<lambda>c. c \<noteq> 0 \<and> \<not> is_white c \<and> \<not> is_symbol c) w"

lemma part_plain:
  assumes "is_word s w" and "0 \<notin> set s"
  shows "plain_word (part_of s w)"
proof -
  obtain q eq where w: "w = (q, eq)" by fastforce
  have "c \<noteq> 0 \<and> \<not> is_white c \<and> \<not> is_symbol c" if "c \<in> set (part_of s w)" for c
  proof -
    from that obtain k where k: "k < length (part_of s w)" "c = part_of s w ! k" by (metis in_set_conv_nth)
    then have c: "c = s ! (q + k)" "q + k \<in> {q..<eq}" "q + k < length s" using assms(1) by (auto simp: w part_of_def is_word_def)
    then have "c \<noteq> 0" using assms(2) nth_mem[of "q + k" s] by metis
    with c show ?thesis using assms(1) by (auto simp: w is_word_def)
  qed
  then show ?thesis using assms(1) by (auto simp: plain_word_def list_all_iff w part_of_def is_word_def)
qed

text \<open>
  C33. The commands the shell runs are well formed: whatever line was typed, the tree that \<open>parsecmd\<close> returns has, once the
  buffer is cut into strings by \<open>nulterminate\<close>, fewer than \<open>MAXARGS\<close> arguments in every \<open>exec\<close>, only the three kinds of
  redirection, and strings that are not empty and hold no white space, symbol or NUL.
\<close>

theorem parsecmd_well_formed:
  assumes "0 \<notin> set s" and "parsecmd s = Inr p"
  shows "wf_cmd plain_word (strings p)"
  unfolding parsecmd_strings(2)[OF assms(2,1)]
  by (rule wf_cmd_map[OF parsecmd_strings(1)[OF assms(2,1)]])
    (rule part_plain[OF wf_cmd_set[OF parsecmd_strings(1)[OF assms(2,1)]] assms(1)])

theorem parsecmd_well_formed_witness:
  "\<exists>p. parsecmd (bytes_of ''a b<c|d;e&'') = Inr p \<and> wf_cmd plain_word (strings p)"
proof -
  let ?s = "bytes_of ''a b<c|d;e&''"
  let ?c = "LIST (PIPE (REDIR (EXEC [(0, 1), (2, 3)]) (4, 5) 0 0) (EXEC [(6, 7)])) (BACK (EXEC [(8, 9)]))"
  have "parsecmd ?s = Inr (?c, nulterminate ?c (?s @ [0]))" by code_simp
  moreover have "0 \<notin> set ?s" by (simp add: bytes_of_def)
  ultimately show ?thesis using parsecmd_well_formed by blast
qed

section \<open>Writing a command as a line\<close>

definition redir_op :: "cint \<Rightarrow> cint \<Rightarrow> uint8 list" where
  "redir_op mode fd = (if fd = 0 then [0x3c] else if mode = 0x601 then [0x3e] else [0x3e, 0x3e])"

fun cmd_line :: "uint8 list cmd \<Rightarrow> uint8 list" where
  "cmd_line (EXEC as) = concat (map (\<lambda>a. a @ [0x20]) as)"
| "cmd_line (REDIR c f mode fd) = 0x28 # cmd_line c @ 0x29 # redir_op mode fd @ f"
| "cmd_line (PIPE l r) = 0x28 # cmd_line l @ 0x29 # 0x7c # 0x28 # cmd_line r @ [0x29]"
| "cmd_line (LIST l r) = 0x28 # cmd_line l @ 0x29 # 0x3b # 0x28 # cmd_line r @ [0x29]"
| "cmd_line (BACK c) = 0x28 # cmd_line c @ [0x29, 0x26]"

text \<open>The tokens at a position, given what is there.\<close>

fun nowhite :: "uint8 list \<Rightarrow> bool" where
  "nowhite [] = True"
| "nowhite (c # r) = (\<not> is_white c)"

lemma byte_at_drop: "byte_at s i = deref (drop i s)"
  by (cases "drop i s") (auto simp: byte_at_def nth_via_drop)

lemma skip_none: "nowhite (drop i s) \<Longrightarrow> skip is_white s i = i"
  by (cases "drop i s") (auto simp: skip_def)

lemma drop_more: "drop i s = a @ r \<Longrightarrow> drop (i + length a) s = r"
  by (metis add.commute append_eq_conv_conj drop_drop)

lemma strchr_mem: "0 \<notin> set s \<Longrightarrow> strchr s c \<noteq> None \<longleftrightarrow> c \<in> set s"
  by (induction s c rule: strchr.induct) auto

lemma peek_here:
  assumes "drop i s = r" and "nowhite r" and "0 \<notin> set (bytes_of toks)"
  shows "peek s i toks = (i, deref r \<noteq> 0 \<and> deref r \<in> set (bytes_of toks))"
  using assms skip_none[of i s] strchr_mem[OF assms(3)] by (simp add: peek_def byte_at_drop Let_def)

lemma skip_here: "drop i s = w @ r \<Longrightarrow> list_all P w \<Longrightarrow> (r = [] \<or> \<not> P (hd r)) \<Longrightarrow> skip P s i = i + length w"
  by (cases r) (auto simp: skip_def list_all_iff takeWhile_append2 takeWhile_eq_all_conv[THEN iffD2])

lemma symbol_here:
  assumes "drop i s = c # r" and "c \<in> {0x7c, 0x28, 0x29, 0x3b, 0x26, 0x3c}" and "nowhite r"
  shows "gettoken s i = (c, i, i + 1, i + 1)"
proof -
  have r: "drop (i + 1) s = r" using drop_more[of i s "[c]" r] assms(1) by simp
  have "skip is_white s i = i" "skip is_white s (i + 1) = i + 1"
    using assms r by (auto intro!: skip_none simp: symbols_simps)
  with assms(1,2) show ?thesis by (auto simp: gettoken_def byte_at_drop bytes_of_def)
qed

lemma greater_here:
  assumes "drop i s = 0x3e # r" and "nowhite r" and "deref r \<noteq> 0x3e"
  shows "gettoken s i = (0x3e, i, i + 1, i + 1)"
proof -
  have r: "drop (i + 1) s = r" using drop_more[of i s "[0x3e]" r] assms(1) by simp
  have "skip is_white s i = i" "skip is_white s (i + 1) = i + 1"
    using assms r by (auto intro!: skip_none simp: symbols_simps)
  with assms r show ?thesis by (simp add: gettoken_def byte_at_drop bytes_of_def)
qed

lemma append_here:
  assumes "drop i s = 0x3e # 0x3e # r" and "nowhite r"
  shows "gettoken s i = (0x2b, i, i + 2, i + 2)"
proof -
  have r: "drop (i + 1) s = 0x3e # r" "drop (i + 2) s = r"
    using drop_more[of i s "[0x3e]"] drop_more[of i s "[0x3e, 0x3e]"] assms(1) by simp_all
  have "skip is_white s i = i" "skip is_white s (i + 2) = i + 2"
    using assms r by (auto intro!: skip_none simp: symbols_simps)
  with assms r show ?thesis by (simp add: gettoken_def byte_at_drop bytes_of_def)
qed

lemma plain_deref:
  assumes "plain_word w"
  shows "deref (w @ r) \<noteq> 0" "\<not> is_white (deref (w @ r))" "\<not> is_symbol (deref (w @ r))" "nowhite (w @ r)"
  using assms by (cases w; simp add: plain_word_def)+

lemma word_at:
  assumes "drop i s = w @ r" and "plain_word w" and "r = [] \<or> is_symbol (hd r) \<or> is_white (hd r)"
  shows "gettoken s i = (0x61, i, i + length w, skip is_white s (i + length w))"
proof -
  let ?w = "\<lambda>c. \<not> is_white c \<and> \<not> is_symbol c"
  have "skip is_white s i = i" using assms(1) plain_deref(4)[OF assms(2), of r] by (intro skip_none) simp
  moreover have "skip ?w s i = i + length w"
    by (rule skip_here[OF assms(1)]) (use assms in \<open>auto simp: plain_word_def list_all_iff\<close>)
  moreover have "deref (w @ r) \<notin> set (bytes_of ''|();&<'')" "deref (w @ r) \<noteq> 0x3e"
    using plain_deref(3)[OF assms(2), of r] by (auto simp: symbols_simps bytes_of_def)
  ultimately show ?thesis using assms(1) plain_deref(1)[OF assms(2), of r] by (simp add: gettoken_def byte_at_drop)
qed

lemma word_here:
  assumes "drop i s = w @ r" and "plain_word w" and "r = [] \<or> is_symbol (hd r)"
  shows "gettoken s i = (0x61, i, i + length w, i + length w)"
proof -
  have "nowhite r" using assms(3) by (cases r) (auto simp: symbols_simps)
  with word_at[OF assms(1,2)] assms(3) skip_none[of "i + length w" s] drop_more[OF assms(1)] show ?thesis by auto
qed

lemma word_space_here:
  assumes "drop i s = w @ 0x20 # r" and "plain_word w" and "nowhite r"
  shows "gettoken s i = (0x61, i, i + length w, i + length w + 1)"
proof -
  have "drop (i + length w) s = [0x20] @ r" using drop_more[OF assms(1)] by simp
  from skip_here[OF this, of is_white] assms(3) have "skip is_white s (i + length w) = i + length w + 1"
    by (cases r) (auto simp: symbols_simps)
  with word_at[OF assms(1,2)] show ?thesis by (simp add: symbols_simps)
qed

text \<open>The words of a simple command.\<close>

lemma redirs_none:
  assumes "drop i s = r" and "nowhite r" and "deref r \<notin> {0x3c, 0x3e}"
  shows "parseredirs c s i = Inr (c, i)"
  using peek_here[OF assms(1,2), of "''<>''"] assms(3) by (subst parseredirs.simps) (simp add: bytes_of_def)

lemma redirs_one:
  assumes "drop i s = redir_op mode fd @ f @ r" and "plain_word f" and "r = [] \<or> (\<exists>r'. r = 0x29 # r')"
    and "(mode, fd) \<in> {(0, 0), (0x601, 1), (0x201, 1)}"
  shows "parseredirs c s i = Inr (REDIR c (i + length (redir_op mode fd), i + length (redir_op mode fd @ f)) mode fd,
      i + length (redir_op mode fd @ f))"
proof -
  let ?o = "redir_op mode fd" and ?tok = "if fd = 0 then 0x3c else if mode = 0x601 then 0x3e else 0x2b :: uint8"
  have p: "peek s i ''<>'' = (i, True)"
    using peek_here[OF assms(1), of "''<>''"] by (auto simp: redir_op_def symbols_simps bytes_of_def split: if_splits)
  have f: "drop (i + length ?o) s = f @ r" using drop_more[OF assms(1)] .
  have n: "nowhite (f @ r)" "deref (f @ r) \<noteq> 0x3e" using plain_deref[OF assms(2), of r] by (auto simp: symbols_simps)
  have g: "\<exists>q eq. gettoken s i = (?tok, q, eq, i + length ?o)"
    using assms(1) n symbol_here[of i s "0x3c" "f @ r"] greater_here[of i s "f @ r"] append_here[of i s "f @ r"]
    by (simp add: redir_op_def split: if_splits)
  have g': "gettoken s (i + length ?o) = (0x61, i + length ?o, i + length (?o @ f), i + length (?o @ f))"
    using word_here[OF f assms(2)] assms(3) by (auto simp: symbols_simps add.assoc)
  have "drop (i + length (?o @ f)) s = r" using drop_more[of i s "?o @ f"] assms(1) by simp
  then have e: "parseredirs c' s (i + length (?o @ f)) = Inr (c', i + length (?o @ f))" for c'
    by (rule redirs_none) (use assms(3) in \<open>auto simp: symbols_simps\<close>)
  have "redir ?tok c w = REDIR c w mode fd" for w using assms(4) by (auto simp: redir_def)
  then show ?thesis using p g g' e by (subst parseredirs.simps) auto
qed

text \<open>What may follow a command in a line.\<close>

definition closed :: "uint8 list \<Rightarrow> bool" where
  "closed r \<longleftrightarrow> r = [] \<or> (\<exists>r'. r = 0x29 # r')"

lemma closed_simps: "closed r \<Longrightarrow> nowhite r" "closed r \<Longrightarrow> deref r = 0 \<or> deref r = 0x29" "closed (0x29 # r)"
  by (auto simp: closed_def symbols_simps)

lemma words_nowhite: "list_all plain_word as \<Longrightarrow> closed r \<Longrightarrow> nowhite (concat (map (\<lambda>a. a @ [0x20]) as) @ r)"
  by (cases as) (auto simp: closed_simps plain_deref(4))

lemma words_deref:
  "list_all plain_word as \<Longrightarrow> closed r \<Longrightarrow> deref (concat (map (\<lambda>a. a @ [0x20]) as) @ r) \<notin> {0x3c, 0x3e, 0x28}"
proof (cases as)
  case (Cons a as')
  assume "list_all plain_word as"
  with plain_deref(3)[of a "0x20 # concat (map (\<lambda>a. a @ [0x20]) as') @ r"] Cons show ?thesis by (auto simp: symbols_simps)
qed (use closed_simps(2) in force)

lemma parseargs_words:
  assumes "list_all plain_word as" and "drop i s = concat (map (\<lambda>a. a @ [0x20]) as) @ r" and "closed r"
    and "n + length as < MAXARGS"
  shows "\<exists>ws. parseargs (EXEC bs) n s i = Inr (EXEC (bs @ ws), i + length (concat (map (\<lambda>a. a @ [0x20]) as))) \<and>
    map (part_of s) ws = as"
  using assms
proof (induction as arbitrary: i n bs)
  case Nil
  then have d: "drop i s = r" by simp
  show ?case
  proof (cases r)
    case Nil
    with d have "gettoken s i = (0, i, i, i)" by (simp add: gettoken_def byte_at_drop skip_none)
    with peek_here[OF d, of "''|)&;''"] Nil show ?thesis by (subst parseargs.simps) (simp add: bytes_of_def)
  next
    case (Cons c r')
    with \<open>closed r\<close> peek_here[OF d, of "''|)&;''"] show ?thesis
      by (subst parseargs.simps) (simp add: bytes_of_def closed_def symbols_simps)
  qed
next
  case (Cons a as)
  let ?r = "concat (map (\<lambda>a. a @ [0x20]) as) @ r"
  have a: "plain_word a" and as: "list_all plain_word as" and d: "drop i s = a @ 0x20 # ?r" using Cons.prems by simp_all
  have n: "nowhite ?r" and dr: "deref ?r \<notin> {0x3c, 0x3e, 0x28}" using words_nowhite words_deref as Cons.prems(3) by blast+
  let ?i = "i + length a + 1"
  have d': "drop ?i s = ?r" using drop_more[of i s "a @ [0x20]" ?r] d by simp
  have p: "peek s i ''|)&;'' = (i, False)"
    using peek_here[OF d, of "''|)&;''"] plain_deref[OF a, of "0x20 # ?r"] by (auto simp: bytes_of_def symbols_simps)
  have g: "gettoken s i = (0x61, i, i + length a, ?i)" by (rule word_space_here[OF d a n])
  have "parseredirs (EXEC (bs @ [(i, i + length a)])) s ?i = Inr (EXEC (bs @ [(i, i + length a)]), ?i)"
    using redirs_none[OF d' n] dr by blast
  then have e: "parseargs (EXEC bs) n s i = parseargs (EXEC (bs @ [(i, i + length a)])) (n + 1) s ?i"
    using p g Cons.prems(4) by (subst parseargs.simps) simp
  have "n + 1 + length as < MAXARGS" using Cons.prems(4) by simp
  from Cons.IH[OF as d' Cons.prems(3) this, of "bs @ [(i, i + length a)]"] obtain ws where
    ws: "parseargs (EXEC (bs @ [(i, i + length a)])) (n + 1) s ?i =
      Inr (EXEC ((bs @ [(i, i + length a)]) @ ws), ?i + length (concat (map (\<lambda>a. a @ [0x20]) as)))" "map (part_of s) ws = as" by blast
  have "part_of s (i, i + length a) = a" using d by (simp add: part_of_def)
  with ws e show ?case by (intro exI[of _ "(i, i + length a) # ws"]) simp
qed

text \<open>A command in the line, parsed with enough fuel.\<close>

definition parsed_as :: "uint8 list cmd \<Rightarrow> bool" where
  "parsed_as c \<longleftrightarrow> (\<forall>f s i r. drop i s = cmd_line c @ r \<longrightarrow> closed r \<longrightarrow> 4 * length (cmd_line c) + 3 \<le> f \<longrightarrow>
     (\<exists>t. parseline f s i = Inr (t, i + length (cmd_line c)) \<and> map_cmd (part_of s) t = c))"

lemma cmd_line_nowhite: "wf_cmd plain_word c \<Longrightarrow> closed r \<Longrightarrow> nowhite (cmd_line c @ r)"
  using words_nowhite by (cases c) (auto simp: symbols_simps)

lemma block_parsed:
  assumes "parsed_as c" and "wf_cmd plain_word c" and "drop i s = 0x28 # cmd_line c @ 0x29 # r" and "nowhite r"
    and "4 * length (cmd_line c) + 5 \<le> f"
  shows "\<exists>t. parseexec f s i = parseredirs t s (i + length (cmd_line c) + 2) \<and> map_cmd (part_of s) t = c"
proof -
  define f' where "f' = f - 2"
  have f: "f = Suc (Suc f')" "4 * length (cmd_line c) + 3 \<le> f'" using assms(5) by (simp_all add: f'_def)
  let ?n = "length (cmd_line c)"
  have d: "drop (i + 1) s = cmd_line c @ 0x29 # r" "drop (i + 1 + ?n) s = 0x29 # r"
    using drop_more[of i s "[0x28]"] drop_more[of i s "0x28 # cmd_line c"] assms(3) by simp_all
  from assms(1) d(1) f(2) obtain t where t: "parseline f' s (i + 1) = Inr (t, i + 1 + ?n)" "map_cmd (part_of s) t = c"
    unfolding parsed_as_def using closed_simps(3) by blast
  have p: "peek s i ''('' = (i, True)" "peek s (i + 1 + ?n) '')'' = (i + 1 + ?n, True)"
    using peek_here[OF assms(3), of "''(''"] peek_here[OF d(2), of "'')''"] by (simp_all add: bytes_of_def symbols_simps)
  have g: "gettoken s i = (0x28, i, i + 1, i + 1)" "gettoken s (i + 1 + ?n) = (0x29, i + 1 + ?n, i + 1 + ?n + 1, i + 1 + ?n + 1)"
    using symbol_here[OF assms(3)] symbol_here[OF d(2)] cmd_line_nowhite[OF assms(2) closed_simps(3)] assms(4) by simp_all
  show ?thesis using p g t by (intro exI[of _ t]) (simp add: f(1))
qed

text \<open>A line is one block, with what comes after it.\<close>

lemma Suc_fuel: "k \<le> f \<Longrightarrow> 0 < k \<Longrightarrow> \<exists>f'. f = Suc f' \<and> k - 1 \<le> f'"
  by (cases f) auto

lemma parseback_none: "drop i s = r \<Longrightarrow> nowhite r \<Longrightarrow> deref r \<noteq> 0x26 \<Longrightarrow> parseback c s i = (c, i)"
  using peek_here[of i s r "''&''"] by (subst parseback.simps) (simp add: bytes_of_def)

lemma parseline_none:
  assumes "parseexec f s i = Inr (c, i')" and "drop i' s = r" and "closed r"
  shows "parseline (Suc (Suc f)) s i = Inr (c, i')"
  using assms closed_simps(1,2)[OF assms(3)] peek_here[OF assms(2), of "''|''"] peek_here[OF assms(2), of "'';''"]
    parseback_none[OF assms(2)]
  by (auto simp: bytes_of_def)

lemma exec_parsed: "wf_cmd plain_word (EXEC as) \<Longrightarrow> parsed_as (EXEC as)"
  unfolding parsed_as_def
proof (intro allI impI)
  fix f s i r
  assume w: "wf_cmd plain_word (EXEC as)" and d: "drop i s = cmd_line (EXEC as) @ r" and c: "closed r"
    and f: "4 * length (cmd_line (EXEC as)) + 3 \<le> f"
  define f' where "f' = f - 3"
  have f': "f = Suc (Suc (Suc f'))" using f by (simp add: f'_def)
  have n: "nowhite (cmd_line (EXEC as) @ r)" by (rule cmd_line_nowhite[OF w c])
  have dr: "deref (cmd_line (EXEC as) @ r) \<notin> {0x3c, 0x3e, 0x28}" using words_deref c w by simp
  from parseargs_words[of as i s r 0 "[]"] w d c obtain ws where
    ws: "parseargs (EXEC []) 0 s i = Inr (EXEC ws, i + length (cmd_line (EXEC as)))" "map (part_of s) ws = as" by auto
  have "peek s i ''('' = (i, False)" using peek_here[OF d n, of "''(''"] dr by (auto simp: bytes_of_def)
  then have "parseexec (Suc f') s i = Inr (EXEC ws, i + length (cmd_line (EXEC as)))"
    using redirs_none[OF d n, of "EXEC []"] dr ws(1) by simp
  from parseline_none[OF this drop_more[OF d] c] ws(2) f'
  show "\<exists>t. parseline f s i = Inr (t, i + length (cmd_line (EXEC as))) \<and> map_cmd (part_of s) t = EXEC as" by auto
qed

lemma block_plain:
  assumes "parsed_as c" and "wf_cmd plain_word c" and "drop i s = 0x28 # cmd_line c @ 0x29 # r" and "nowhite r"
    and "deref r \<notin> {0x3c, 0x3e}" and "4 * length (cmd_line c) + 5 \<le> f"
  shows "\<exists>t. parseexec f s i = Inr (t, i + length (cmd_line c) + 2) \<and> map_cmd (part_of s) t = c \<and>
    drop (i + length (cmd_line c) + 2) s = r"
proof -
  have d: "drop (i + length (cmd_line c) + 2) s = r" using drop_more[of i s "0x28 # cmd_line c @ [0x29]" r] assms(3) by simp
  from block_parsed[OF assms(1-4,6)] redirs_none[OF d assms(4,5)] d show ?thesis by auto
qed

lemma parsepipe_none:
  assumes "parseexec f s i = Inr (c, i')" and "drop i' s = r" and "nowhite r" and "deref r \<noteq> 0x7c"
  shows "parsepipe (Suc f) s i = Inr (c, i')"
  using assms peek_here[OF assms(2,3), of "''|''"] by (simp add: bytes_of_def)

lemma parsed_asI:
  assumes "\<And>f s i r. drop i s = cmd_line c @ r \<Longrightarrow> closed r \<Longrightarrow> 4 * length (cmd_line c) \<le> Suc f \<Longrightarrow>
     \<exists>t. parseline (Suc (Suc f)) s i = Inr (t, i + length (cmd_line c)) \<and> map_cmd (part_of s) t = c"
  shows "parsed_as c"
  unfolding parsed_as_def
proof (intro allI impI)
  fix f s i r assume a: "drop i s = cmd_line c @ r" "closed r" "4 * length (cmd_line c) + 3 \<le> f"
  from assms[OF a(1,2), of "f - 2"] a(3) show "\<exists>t. parseline f s i = Inr (t, i + length (cmd_line c)) \<and> map_cmd (part_of s) t = c"
    by (simp add: numeral_2_eq_2 Suc_diff_Suc)
qed

lemma redir_parsed:
  assumes "parsed_as c" and "wf_cmd plain_word (REDIR c f mode fd)"
  shows "parsed_as (REDIR c f mode fd)"
proof (rule parsed_asI)
  fix k s i r
  assume d: "drop i s = cmd_line (REDIR c f mode fd) @ r" and c: "closed r" and k: "4 * length (cmd_line (REDIR c f mode fd)) \<le> Suc k"
  let ?o = "redir_op mode fd" and ?j = "i + length (cmd_line c) + 2"
  have f: "plain_word f" "f \<noteq> []" and w: "wf_cmd plain_word c" using assms(2) by (auto simp: plain_word_def)
  have "nowhite (?o @ f @ r)" by (simp add: redir_op_def symbols_simps)
  moreover have "4 * length (cmd_line c) + 5 \<le> k" using k f(2) by (cases f) simp_all
  ultimately obtain t where t: "parseexec k s i = parseredirs t s ?j" "map_cmd (part_of s) t = c"
    using block_parsed[OF assms(1) w, of i s "?o @ f @ r" k] d by auto
  have dj: "drop ?j s = ?o @ f @ r" using drop_more[of i s "0x28 # cmd_line c @ [0x29]" "?o @ f @ r"] d by simp
  let ?w = "(?j + length ?o, ?j + length (?o @ f))"
  have e: "parseexec k s i = Inr (REDIR t ?w mode fd, ?j + length (?o @ f))"
    using redirs_one[OF dj f(1)] c assms(2) t(1) by (auto simp: closed_def)
  have "part_of s ?w = f" using drop_more[OF dj] by (simp add: part_of_def add.assoc)
  moreover have "drop (?j + length (?o @ f)) s = r" using drop_more[of ?j s "?o @ f" r] dj by simp
  ultimately show "\<exists>t. parseline (Suc (Suc k)) s i = Inr (t, i + length (cmd_line (REDIR c f mode fd))) \<and> map_cmd (part_of s) t = REDIR c f mode fd"
    using parseline_none[OF e] c t(2) by (intro exI[of _ "REDIR t ?w mode fd"]) (simp add: add.assoc)
qed

lemma pipe_parsed:
  assumes "parsed_as l" and "parsed_as r" and "wf_cmd plain_word l" and "wf_cmd plain_word r"
  shows "parsed_as (PIPE l r)"
proof (rule parsed_asI)
  fix k s i x
  assume d: "drop i s = cmd_line (PIPE l r) @ x" and c: "closed x" and k: "4 * length (cmd_line (PIPE l r)) \<le> Suc k"
  let ?y = "0x28 # cmd_line r @ 0x29 # x" and ?j = "i + length (cmd_line l) + 2"
  obtain k' where k': "k = Suc k'" "4 * length (cmd_line l) + 5 \<le> k'" "4 * length (cmd_line r) + 5 \<le> k'"
    using k by (cases k) auto
  from block_plain[OF assms(1,3), of i s "0x7c # ?y" k] d k' obtain t where
    t: "parseexec k s i = Inr (t, ?j)" "map_cmd (part_of s) t = l" and dj: "drop ?j s = 0x7c # ?y" by (auto simp: symbols_simps)
  have dy: "drop (?j + 1) s = ?y" using drop_more[of ?j s "[0x7c]"] dj by simp
  have p: "peek s ?j ''|'' = (?j, True)" "gettoken s ?j = (0x7c, ?j, ?j + 1, ?j + 1)"
    using peek_here[OF dj, of "''|''"] symbol_here[OF dj] by (simp_all add: symbols_simps bytes_of_def)
  from block_plain[OF assms(2,4) dy, of k'] c closed_simps(1,2)[OF c] k' obtain t' where
    t': "parseexec k' s (?j + 1) = Inr (t', ?j + 1 + length (cmd_line r) + 2)" "map_cmd (part_of s) t' = r"
      "drop (?j + 1 + length (cmd_line r) + 2) s = x" by auto
  have "parsepipe k s (?j + 1) = Inr (t', ?j + 1 + length (cmd_line r) + 2)"
    unfolding k'(1) by (rule parsepipe_none[OF t'(1,3)]) (use closed_simps(1,2)[OF c] in auto)
  then have "parsepipe (Suc k) s i = Inr (PIPE t t', ?j + 1 + length (cmd_line r) + 2)" using t p by simp
  moreover have "parseback u s (?j + 1 + length (cmd_line r) + 2) = (u, ?j + 1 + length (cmd_line r) + 2)"
      "peek s (?j + 1 + length (cmd_line r) + 2) '';'' = (?j + 1 + length (cmd_line r) + 2, False)" for u
    using parseback_none[OF t'(3)] peek_here[OF t'(3), of "'';''"] closed_simps(1,2)[OF c] by (auto simp: bytes_of_def)
  ultimately have "parseline (Suc (Suc k)) s i = Inr (PIPE t t', ?j + 1 + length (cmd_line r) + 2)" by (simp del: parsepipe.simps)
  then show "\<exists>t. parseline (Suc (Suc k)) s i = Inr (t, i + length (cmd_line (PIPE l r))) \<and> map_cmd (part_of s) t = PIPE l r"
    using t(2) t'(2) by (intro exI[of _ "PIPE t t'"]) (simp add: algebra_simps)
qed

lemma list_parsed:
  assumes "parsed_as l" and "parsed_as r" and "wf_cmd plain_word l" and "wf_cmd plain_word r"
  shows "parsed_as (LIST l r)"
proof (rule parsed_asI)
  fix k s i x
  assume d: "drop i s = cmd_line (LIST l r) @ x" and c: "closed x" and k: "4 * length (cmd_line (LIST l r)) \<le> Suc k"
  let ?y = "0x28 # cmd_line r @ 0x29 # x" and ?j = "i + length (cmd_line l) + 2"
  obtain k' where k': "k = Suc k'" "4 * length (cmd_line l) + 5 \<le> k'" "4 * length (cmd_line r) + 5 \<le> k'"
    using k by (cases k) auto
  from block_plain[OF assms(1,3), of i s "0x3b # ?y" k] d k' obtain t where
    t: "parseexec k s i = Inr (t, ?j)" "map_cmd (part_of s) t = l" and dj: "drop ?j s = 0x3b # ?y" by (auto simp: symbols_simps)
  have dy: "drop (?j + 1) s = ?y" using drop_more[of ?j s "[0x3b]"] dj by simp
  have p: "parsepipe (Suc k) s i = Inr (t, ?j)" "parseback t s ?j = (t, ?j)" "peek s ?j '';'' = (?j, True)"
      "gettoken s ?j = (0x3b, ?j, ?j + 1, ?j + 1)"
    using parsepipe_none[OF t(1) dj] parseback_none[OF dj, of t] peek_here[OF dj, of "'';''"] symbol_here[OF dj]
    by (simp_all add: symbols_simps bytes_of_def del: parsepipe.simps)
  from block_plain[OF assms(2,4) dy, of k'] c closed_simps(1,2)[OF c] k' obtain t' where
    t': "parseexec k' s (?j + 1) = Inr (t', ?j + 1 + length (cmd_line r) + 2)" "map_cmd (part_of s) t' = r"
      "drop (?j + 1 + length (cmd_line r) + 2) s = x" by auto
  from parseline_none[OF t'(1,3) c] k'(1) have "parseline (Suc k) s (?j + 1) = Inr (t', ?j + 1 + length (cmd_line r) + 2)"
    by (simp del: parseline.simps)
  with p have "parseline (Suc (Suc k)) s i = Inr (LIST t t', ?j + 1 + length (cmd_line r) + 2)"
    by (subst parseline.simps) (simp del: parseline.simps parsepipe.simps)
  then show "\<exists>t. parseline (Suc (Suc k)) s i = Inr (t, i + length (cmd_line (LIST l r))) \<and> map_cmd (part_of s) t = LIST l r"
    using t(2) t'(2) by (intro exI[of _ "LIST t t'"]) (simp add: algebra_simps)
qed

lemma back_parsed:
  assumes "parsed_as l" and "wf_cmd plain_word l"
  shows "parsed_as (BACK l)"
proof (rule parsed_asI)
  fix k s i x
  assume d: "drop i s = cmd_line (BACK l) @ x" and c: "closed x" and k: "4 * length (cmd_line (BACK l)) \<le> Suc k"
  let ?j = "i + length (cmd_line l) + 2"
  from block_plain[OF assms, of i s "0x26 # x" k] d k obtain t where
    t: "parseexec k s i = Inr (t, ?j)" "map_cmd (part_of s) t = l" and dj: "drop ?j s = 0x26 # x" by (auto simp: symbols_simps)
  have dx: "drop (?j + 1) s = x" using drop_more[of ?j s "[0x26]"] dj by simp
  have p: "parsepipe (Suc k) s i = Inr (t, ?j)" "peek s ?j ''&'' = (?j, True)" "gettoken s ?j = (0x26, ?j, ?j + 1, ?j + 1)"
    using parsepipe_none[OF t(1) dj] peek_here[OF dj, of "''&''"] symbol_here[OF dj] closed_simps(1)[OF c]
    by (simp_all add: symbols_simps bytes_of_def del: parsepipe.simps)
  have b: "parseback (BACK t) s (?j + 1) = (BACK t, ?j + 1)" "peek s (?j + 1) '';'' = (?j + 1, False)"
    using parseback_none[OF dx, of "BACK t"] peek_here[OF dx, of "'';''"] closed_simps(1,2)[OF c] by (auto simp: bytes_of_def)
  have "parseback t s ?j = (BACK t, ?j + 1)" using p(2,3) b(1) by (subst parseback.simps) simp
  with p(1) b(2) have "parseline (Suc (Suc k)) s i = Inr (BACK t, ?j + 1)"
    by (subst parseline.simps) (simp del: parseline.simps parsepipe.simps)
  then show "\<exists>t. parseline (Suc (Suc k)) s i = Inr (t, i + length (cmd_line (BACK l))) \<and> map_cmd (part_of s) t = BACK l"
    using t(2) by (intro exI[of _ "BACK t"]) (simp add: algebra_simps)
qed

lemma wf_parsed: "wf_cmd plain_word c \<Longrightarrow> parsed_as c"
  by (induction c) (use exec_parsed redir_parsed pipe_parsed list_parsed back_parsed in auto)

lemma cmd_line_nonzero: "wf_cmd plain_word c \<Longrightarrow> 0 \<notin> set (cmd_line c)"
  by (induction c) (auto simp: plain_word_def list_all_iff redir_op_def)

text \<open>
  C32. Every command can be typed: for each tree of \<open>exec\<close>, redirections, pipes, lists and background commands, however
  nested, the line that writes it with parentheses is parsed, and cut into strings, to that tree.
\<close>

theorem parsecmd_roundtrip:
  assumes "wf_cmd plain_word c"
  shows "\<exists>p. parsecmd (cmd_line c) = Inr p \<and> strings p = c"
proof -
  let ?s = "cmd_line c"
  have e: "drop 0 ?s = cmd_line c @ []" "closed []" "4 * length ?s + 3 \<le> 4 * length ?s + 4" by (simp_all add: closed_def)
  from wf_parsed[OF assms, unfolded parsed_as_def, rule_format, OF e] obtain t where
    t: "parseline (4 * length ?s + 4) ?s 0 = Inr (t, length ?s)" "map_cmd (part_of ?s) t = c" by (auto simp del: parseline.simps)
  have "peek ?s (length ?s) [] = (length ?s, False)" using peek_here[of "length ?s" ?s "[]" "[]"] by (simp add: bytes_of_def)
  with t(1) have p: "parsecmd ?s = Inr (t, nulterminate t (?s @ [0]))" by (simp add: parsecmd_def del: parseline.simps)
  with parsecmd_strings(2)[OF p cmd_line_nonzero[OF assms]] t(2) show ?thesis by simp
qed

theorem parsecmd_roundtrip_witness:
  "\<exists>p. parsecmd (bytes_of ''((ls -l )|(wc ))>out'') = Inr p \<and>
     strings p = REDIR (PIPE (EXEC [bytes_of ''ls'', bytes_of ''-l'']) (EXEC [bytes_of ''wc''])) (bytes_of ''out'') 0x601 1"
proof -
  let ?c = "REDIR (PIPE (EXEC [bytes_of ''ls'', bytes_of ''-l'']) (EXEC [bytes_of ''wc''])) (bytes_of ''out'') 0x601 1"
  have "wf_cmd plain_word ?c" "cmd_line ?c = bytes_of ''((ls -l )|(wc ))>out''" by code_simp+
  then show ?thesis using parsecmd_roundtrip[of ?c] by simp
qed

section \<open>Commands do not return\<close>

lemma fprintf_rendered: "rendered (bytes_of fmt) ap = Some t \<Longrightarrow> fprintf fd fmt ap S h = (Val (), h @ puts_calls fd t)"
  using vprintf_rendered by (simp add: fprintf_def vprintf_def)

definition ended :: "'a ures \<Rightarrow> bool" where
  "ended r \<longleftrightarrow> r = Replaced \<or> (\<exists>n. r = Exited n)"

lemma ended_simps [simp]: "ended (Exited n)" "ended Replaced" "\<not> ended (Val x)"
  by (simp_all add: ended_def)

lemma panic_exits: "\<exists>h'. panic m S h = (Exited 1, h')"
  using fprintf_rendered[of "''%s\<newline>''" "[AStr (bytes_of m)]" _ 2] by (simp add: panic_def bytes_of_def)

lemma fprintf_exits:
  assumes "rendered (bytes_of fmt) ap = Some t"
  shows "ended (fst (thenU (fprintf fd fmt ap) (exitU n) S h))"
  using fprintf_rendered[OF assms] by simp

lemma fork1_then:
  assumes "\<And>pid h. ended (fst (m pid S h))"
  shows "ended (fst (bindU fork1 m S h))"
proof (cases "(ucast (fst (S (h @ [Ufork]))) :: cint) = - 1")
  case True
  obtain h' where "(panic ''fork'' :: cint uprog) S (h @ [Ufork]) = (Exited 1, h')" using panic_exits by blast
  with True have "fork1 S h = (Exited 1, h')" by (simp add: fork1_def)
  then show ?thesis by simp
next
  case False
  then have "fork1 S h = (Val (ucast (fst (S (h @ [Ufork])))), h @ [Ufork])" by (simp add: fork1_def)
  with assms show ?thesis by simp
qed

lemma runcmd_ended: "ended (fst (runcmd c S h))"
proof (induction c arbitrary: h)
  case (EXEC as)
  show ?case
  proof (cases as)
    case (Cons a as')
    let ?h = "h @ [Uexec a as]"
    have "execU a as S h = (Replaced, ?h) \<or> execU a as S h = (Val (), ?h)" by (simp add: execU_def)
    then show ?thesis
    proof
      assume "execU a as S h = (Val (), ?h)"
      with fprintf_exits[where 'a = unit, of "''exec %s failed\<newline>''" "[AStr a]" _ 2 0 S ?h] Cons show ?thesis by (simp add: bytes_of_def)
    qed (simp add: Cons thenU_def)
  qed simp
next
  case (REDIR c f mode fd)
  with fprintf_exits[where 'a = unit, of "''open %s failed\<newline>''" "[AStr f]" _ 2 1 S "h @ [Uclose fd, Uopen f mode]"] show ?case
    by (simp add: bytes_of_def)
next
  case (PIPE l r)
  then show ?case using panic_exits[where 'a = unit, of "''pipe''" S "h @ [Upipe]"] by (auto intro!: fork1_then simp: Let_def split: prod.split)
qed (auto intro!: fork1_then)

lemma parsed_ended:
  "ended (fst (bindU (case parsecmd s of
      Inl (Syntax m) \<Rightarrow> panic m
    | Inl (Leftovers i) \<Rightarrow> thenU (fprintf 2 ''leftovers: %s\<newline>'' [AStr (drop i s)]) (panic ''syntax'')
    | Inl NoFuel \<Rightarrow> starveU
    | Inr p \<Rightarrow> retU (strings p)) runcmd S h))"
proof (cases "parsecmd s")
  case (Inl e)
  show ?thesis
  proof (cases e)
    case (Syntax m)
    with Inl panic_exits[where 'a = "uint8 list cmd", of m S h] show ?thesis by auto
  next
    case (Leftovers i)
    from fprintf_rendered[of "''leftovers: %s\<newline>''" "[AStr (drop i s)]" _ 2 S h] obtain h1 where
      "fprintf 2 ''leftovers: %s\<newline>'' [AStr (drop i s)] S h = (Val (), h1)" by (auto simp: bytes_of_def)
    with Leftovers Inl panic_exits[where 'a = "uint8 list cmd", of "''syntax''" S h1] show ?thesis by auto
  qed (use Inl parsecmd_ends in blast)
next
  case (Inr p)
  then show ?thesis using runcmd_ended by simp
qed

section \<open>The nodes of a command\<close>

text \<open>The sizes of the nodes of a tree.\<close>

primrec node_sizes :: "'a cmd \<Rightarrow> uint multiset" where
  "node_sizes (EXEC as) = {#sz_execcmd#}"
| "node_sizes (REDIR c f mode fd) = add_mset sz_redircmd (node_sizes c)"
| "node_sizes (PIPE l r) = add_mset sz_pipecmd (node_sizes l + node_sizes r)"
| "node_sizes (LIST l r) = add_mset sz_listcmd (node_sizes l + node_sizes r)"
| "node_sizes (BACK c) = add_mset sz_backcmd (node_sizes c)"

lemma node_sizes_simps [simp]:
  "node_sizes (redir tok c w) = (if tok \<in> {0x3c, 0x3e, 0x2b} then add_mset sz_redircmd (node_sizes c) else node_sizes c)"
  "node_sizes (add_arg c a) = node_sizes c"
  by (simp add: redir_def) (induction c a rule: add_arg.induct, simp_all)

lemma redirs_nodes_tree: "parseredirs c s i = Inr (c', i') \<Longrightarrow> node_sizes c' = node_sizes c + mset (redirs_nodes s i)"
proof (induction c s i rule: parseredirs.induct)
  case (1 c s i)
  obtain i1 again where p: "peek s i ''<>'' = (i1, again)" by fastforce
  obtain tok q1 e1 i2 where g: "gettoken s i1 = (tok, q1, e1, i2)" by (metis prod_cases4)
  obtain t q eq i3 where g': "gettoken s i2 = (t, q, eq, i3)" by (metis prod_cases4)
  have n: "redirs_nodes s i = (if \<not> again \<or> t \<noteq> 0x61 then [] else (if tok \<in> {0x3c, 0x3e, 0x2b} then [sz_redircmd] else []) @ redirs_nodes s i3)"
    using p g g' by (subst redirs_nodes.simps) simp
  show ?case
  proof (cases again)
    case True
    have t: "t = 0x61" and r: "parseredirs (redir tok c (q, eq)) s i3 = Inr (c', i')"
      using "1.prems" True p g g' by (subst (asm) parseredirs.simps, simp split: if_splits)+
    show ?thesis using "1.IH"[OF p[symmetric] _ g[symmetric] refl refl g'[symmetric] refl refl _ r] True t n by simp
  qed (use "1.prems" p n in \<open>subst (asm) parseredirs.simps, simp\<close>)
qed

lemma args_nodes_tree: "parseargs c n s i = Inr (c', i') \<Longrightarrow> node_sizes c' = node_sizes c + mset (args_nodes c n s i)"
proof (induction c n s i rule: parseargs.induct)
  case (1 c n s i)
  obtain i1 stop where p: "peek s i ''|)&;'' = (i1, stop)" by fastforce
  obtain tok q eq i2 where g: "gettoken s i1 = (tok, q, eq, i2)" by (metis prod_cases4)
  show ?case
  proof (cases "stop \<or> tok = 0")
    case True
    then have "args_nodes c n s i = []" using p g by (subst args_nodes.simps) auto
    moreover have "c' = c" using "1.prems" p g True by (subst (asm) parseargs.simps) (auto split: if_splits)
    ultimately show ?thesis by simp
  next
    case False
    with "1.prems"(1) p g obtain c1 i3 where r: "parseredirs (add_arg c (q, eq)) s i2 = Inr (c1, i3)"
        "tok = 0x61" "\<not> MAXARGS \<le> n + 1" "parseargs c1 (n + 1) s i3 = Inr (c', i')"
      by (subst (asm) parseargs.simps) (auto split: if_splits sum.splits)
    have "args_nodes c n s i = redirs_nodes s i2 @ args_nodes c1 (n + 1) s i3"
      using p g False r(1-3) by (subst args_nodes.simps) simp
    moreover have "node_sizes c' = node_sizes c1 + mset (args_nodes c1 (n + 1) s i3)"
      using "1.IH"[OF p[symmetric] _ g[symmetric] refl refl _ _ _ r(1) refl r(4)] False r(2,3) by auto
    ultimately show ?thesis using redirs_nodes_tree[OF r(1)] by simp
  qed
qed

lemma back_nodes_tree: "parseback c s i = (c', i') \<Longrightarrow> node_sizes c' = node_sizes c + mset (back_nodes s i)"
proof (induction c s i rule: parseback.induct)
  case (1 c s i)
  obtain i1 again where p: "peek s i ''&'' = (i1, again)" by fastforce
  obtain tok q eq i2 where g: "gettoken s i1 = (tok, q, eq, i2)" by (metis prod_cases4)
  have n: "back_nodes s i = (if again then sz_backcmd # back_nodes s i2 else [])" using p g by (subst back_nodes.simps) simp
  show ?case
  proof (cases again)
    case True
    with "1.prems"(1) p g have "parseback (BACK c) s i2 = (c', i')" by (subst (asm) parseback.simps) simp
    from "1.IH"[OF p[symmetric] _ g[symmetric] refl refl this] True n show ?thesis by simp
  qed (use "1.prems" p n in \<open>subst (asm) parseback.simps, simp\<close>)
qed

definition nodes_of :: "(uint8 list \<Rightarrow> nat \<Rightarrow> ptr_cmd parsed) \<Rightarrow> (uint8 list \<Rightarrow> nat \<Rightarrow> uint list) \<Rightarrow> bool" where
  "nodes_of p n \<longleftrightarrow> (\<forall>s i c i'. p s i = Inr (c, i') \<longrightarrow> node_sizes c = mset (n s i))"

lemma nodes_ofD: "nodes_of p n \<Longrightarrow> p s i = Inr (c, i') \<Longrightarrow> node_sizes c = mset (n s i)"
  by (simp add: nodes_of_def)

lemma line_nodes_step:
  assumes "nodes_of (parsepipe f) (pipe_nodes f)" and "nodes_of (parseline f) (line_nodes f)"
  shows "nodes_of (parseline (Suc f)) (line_nodes (Suc f))"
  unfolding nodes_of_def
proof (intro allI impI)
  fix s i c i' assume "parseline (Suc f) s i = Inr (c, i')"
  then obtain c1 i1 c2 i2 i3 again where p: "parsepipe f s i = Inr (c1, i1)" "parseback c1 s i1 = (c2, i2)" "peek s i2 '';'' = (i3, again)"
    and r: "if again then \<exists>tok q eq i4 r. gettoken s i3 = (tok, q, eq, i4) \<and> parseline f s i4 = Inr (r, i') \<and> c = LIST c2 r
       else (c, i') = (c2, i3)"
    by (auto split: sum.splits prod.splits if_splits)
  have "node_sizes c2 = mset (pipe_nodes f s i @ back_nodes s i1)"
    using nodes_ofD[OF assms(1) p(1)] back_nodes_tree[OF p(2)] by simp
  then show "node_sizes c = mset (line_nodes (Suc f) s i)"
    using r p by (auto split: if_splits dest: nodes_ofD[OF assms(2)])
qed

lemma pipe_nodes_step:
  assumes "nodes_of (parseexec f) (exec_nodes f)" and "nodes_of (parsepipe f) (pipe_nodes f)"
  shows "nodes_of (parsepipe (Suc f)) (pipe_nodes (Suc f))"
  unfolding nodes_of_def
proof (intro allI impI)
  fix s i c i' assume "parsepipe (Suc f) s i = Inr (c, i')"
  then obtain c2 i2 i3 again where p: "parseexec f s i = Inr (c2, i2)" "peek s i2 ''|'' = (i3, again)"
    and r: "if again then \<exists>tok q eq i4 r. gettoken s i3 = (tok, q, eq, i4) \<and> parsepipe f s i4 = Inr (r, i') \<and> c = PIPE c2 r
       else (c, i') = (c2, i3)"
    by (auto split: sum.splits prod.splits if_splits)
  then show "node_sizes c = mset (pipe_nodes (Suc f) s i)"
    using nodes_ofD[OF assms(1) p(1)] by (auto split: if_splits dest: nodes_ofD[OF assms(2)])
qed

lemma block_nodes_step:
  assumes "nodes_of (parseline f) (line_nodes f)"
  shows "nodes_of (parseblock (Suc f)) (block_nodes (Suc f))"
  unfolding nodes_of_def
proof (intro allI impI)
  fix s i c i' assume "parseblock (Suc f) s i = Inr (c, i')"
  then obtain i1 t1 q1 e1 i2 c1 i3 i4 t2 q2 e2 i5 where p: "peek s i ''('' = (i1, True)" "gettoken s i1 = (t1, q1, e1, i2)"
      "parseline f s i2 = Inr (c1, i3)" "peek s i3 '')'' = (i4, True)" "gettoken s i4 = (t2, q2, e2, i5)"
      "parseredirs c1 s i5 = Inr (c, i')"
    by (auto split: sum.splits prod.splits if_splits)
  then show "node_sizes c = mset (block_nodes (Suc f) s i)"
    using nodes_ofD[OF assms p(3)] redirs_nodes_tree[OF p(6)] by simp
qed

lemma exec_nodes_step:
  assumes "nodes_of (parseblock f) (block_nodes f)"
  shows "nodes_of (parseexec (Suc f)) (exec_nodes (Suc f))"
  unfolding nodes_of_def
proof (intro allI impI)
  fix s i c i' assume e: "parseexec (Suc f) s i = Inr (c, i')"
  obtain i1 b where p: "peek s i ''('' = (i1, b)" by fastforce
  show "node_sizes c = mset (exec_nodes (Suc f) s i)"
  proof (cases b)
    case True
    with e p nodes_ofD[OF assms] show ?thesis by simp
  next
    case False
    with e p obtain c1 i2 where r: "parseredirs (EXEC []) s i1 = Inr (c1, i2)" "parseargs c1 0 s i2 = Inr (c, i')"
      by (auto split: sum.splits)
    with False p redirs_nodes_tree[OF r(1)] args_nodes_tree[OF r(2)] show ?thesis by simp
  qed
qed

lemma parser_nodes: "nodes_of (parseline f) (line_nodes f) \<and> nodes_of (parsepipe f) (pipe_nodes f) \<and>
  nodes_of (parseblock f) (block_nodes f) \<and> nodes_of (parseexec f) (exec_nodes f)"
proof (induction f)
  case 0
  then show ?case by (simp add: nodes_of_def)
qed (blast intro: line_nodes_step pipe_nodes_step block_nodes_step exec_nodes_step)

text \<open>The parser allocates exactly the nodes of the tree it returns.\<close>

lemma cmd_nodes_tree:
  assumes "parsecmd s = Inr (c, buf)"
  shows "mset (cmd_nodes s) = node_sizes c"
proof -
  obtain i where "parseline (4 * length s + 4) s 0 = Inr (c, i)"
    using assms by (auto simp: parsecmd_def simp del: parseline.simps split: sum.splits prod.splits if_splits)
  from nodes_ofD[OF conjunct1[OF parser_nodes] this] show ?thesis by (simp add: cmd_nodes_def)
qed

text \<open>Every size asked for is small.\<close>

lemma redirs_nodes_small: "\<forall>n \<in> set (redirs_nodes s i). unat n \<le> 168"
proof (induction s i rule: redirs_nodes.induct)
  case (1 s i)
  obtain i1 again where p: "peek s i ''<>'' = (i1, again)" by fastforce
  obtain tok q1 e1 i2 where g: "gettoken s i1 = (tok, q1, e1, i2)" by (metis prod_cases4)
  obtain t q eq i3 where g': "gettoken s i2 = (t, q, eq, i3)" by (metis prod_cases4)
  have "\<forall>n \<in> set (redirs_nodes s i3). unat n \<le> 168" if "again" "t = 0x61"
    using "1.IH"[OF p[symmetric] _ g[symmetric] refl refl g'[symmetric] refl refl] that by simp
  then show ?case using p g g' by (subst redirs_nodes.simps) (auto simp: sz_redircmd_def)
qed

lemma args_nodes_small: "\<forall>n \<in> set (args_nodes c k s i). unat n \<le> 168"
proof (induction c k s i rule: args_nodes.induct)
  case (1 c k s i)
  obtain i1 stop where p: "peek s i ''|)&;'' = (i1, stop)" by fastforce
  obtain tok q eq i2 where g: "gettoken s i1 = (tok, q, eq, i2)" by (metis prod_cases4)
  have "\<forall>n \<in> set (args_nodes c1 (k + 1) s i3). unat n \<le> 168"
    if "\<not> stop" "tok = 0x61" "\<not> MAXARGS \<le> k + 1" "parseredirs (add_arg c (q, eq)) s i2 = Inr (c1, i3)" for c1 i3
    using "1.IH"[OF p[symmetric] _ g[symmetric] refl refl _ _ _ that(4) refl] that(1-3) by simp
  then have "\<forall>n \<in> set (case parseredirs (add_arg c (q, eq)) s i2 of Inl e \<Rightarrow> [] | Inr (c1, i3) \<Rightarrow> args_nodes c1 (k + 1) s i3). unat n \<le> 168"
    if "\<not> stop" "tok = 0x61" "\<not> MAXARGS \<le> k + 1" using that by (cases "parseredirs (add_arg c (q, eq)) s i2") auto
  then show ?case using p g redirs_nodes_small[of s i2] by (subst args_nodes.simps) (simp add: ball_Un)
qed

lemma back_nodes_small: "\<forall>n \<in> set (back_nodes s i). unat n \<le> 168"
proof (induction s i rule: back_nodes.induct)
  case (1 s i)
  obtain i1 again where p: "peek s i ''&'' = (i1, again)" by fastforce
  obtain tok q eq i2 where g: "gettoken s i1 = (tok, q, eq, i2)" by (metis prod_cases4)
  have "\<forall>n \<in> set (back_nodes s i2). unat n \<le> 168" if again using "1.IH"[OF p[symmetric] _ g[symmetric] refl refl] that by simp
  then show ?case using p g by (subst back_nodes.simps) (auto simp: sz_backcmd_def)
qed

lemma parser_nodes_small:
  "(\<forall>s i. \<forall>n \<in> set (line_nodes f s i). unat n \<le> 168) \<and> (\<forall>s i. \<forall>n \<in> set (pipe_nodes f s i). unat n \<le> 168) \<and>
   (\<forall>s i. \<forall>n \<in> set (block_nodes f s i). unat n \<le> 168) \<and> (\<forall>s i. \<forall>n \<in> set (exec_nodes f s i). unat n \<le> 168)"
proof (induction f)
  case (Suc f)
  note small = redirs_nodes_small args_nodes_small back_nodes_small
  have "\<forall>n \<in> set (line_nodes (Suc f) s i). unat n \<le> 168" for s i
    using Suc small by (auto simp: sz_listcmd_def split: sum.split prod.split)
  moreover have "\<forall>n \<in> set (pipe_nodes (Suc f) s i). unat n \<le> 168" for s i
    using Suc small by (auto simp: sz_pipecmd_def split: sum.split prod.split)
  moreover have "\<forall>n \<in> set (block_nodes (Suc f) s i). unat n \<le> 168" for s i
    using Suc small by (auto split: sum.split prod.split)
  moreover have "\<forall>n \<in> set (exec_nodes (Suc f) s i). unat n \<le> 168" for s i
    using Suc small by (auto simp: sz_execcmd_def split: sum.split prod.split)
  ultimately show ?case by blast
qed simp

lemma bindU_after: "m S h = (Val x, h') \<Longrightarrow> bindU (thenU m n) f S h = bindU n f S h'"
  by (simp add: bindU_def thenU_def)

lemma new_nodes_end:
  assumes "\<forall>n \<in> set ns. unat n \<le> 168" and "sbrk_grows S base brk" and "heap_below base H (brk h) m" and "2 * (m + length ns) + 4 \<le> g"
  shows "\<exists>h'. new_nodes g base ns H S h = (Val (), h') \<or>
    new_nodes g base ns H S h = (Faulted, h') \<and> (\<exists>h0 k. h' = h0 @ [Usbrk k]) \<and> fst (S h') = - 1"
  using assms(1,3,4)
proof (induction ns arbitrary: H h m)
  case (Cons n ns)
  have n: "unat n \<le> 2 ^ 31 - 32" and g: "2 * m + 4 \<le> g" using Cons.prems(1,3) by auto
  obtain r H' h' where a: "malloc g base n H S h = (Val (r, H'), h')"
      "r = 0 \<and> (\<exists>k. h' = h @ [Usbrk k]) \<and> fst (S h') = - 1 \<or> r \<noteq> 0 \<and> heap_below base H' (brk h') (Suc m)"
    using malloc_next[OF Cons.prems(2) assms(2) n g] by blast
  show ?case
  proof (cases "r = 0")
    case True
    with a show ?thesis by auto
  next
    case False
    with a Cons.IH[of H' h' "Suc m"] Cons.prems(1,3) show ?thesis by auto
  qed
qed simp

text \<open>
  C34. The process the shell starts for a line never comes back to the loop of the shell. Parsing ends on every line, and
  then, whatever the operating system answers, the process exits or is replaced by the program of the command. The one other
  end there can be is a fault while the tree is built, at a node for which \<open>sbrk\<close> had no memory. Of the operating system it is
  assumed only that the memory \<open>sbrk\<close> gives out is new; the fuel of \<open>malloc\<close> is enough for the nodes of the line.
\<close>

theorem shell_child_ends:
  assumes "sbrk_grows S base brk" and "base \<noteq> 0" and "2 * length (cmd_nodes s) + 4 \<le> g"
  shows "case bindU (parse_line g base s) runcmd S h of (r, h') \<Rightarrow>
    ended r \<or> r = Faulted \<and> (\<exists>h0 k. h' = h0 @ [Usbrk k]) \<and> fst (S h') = - 1"
proof -
  have "heap_ok base heap0 [] {}" using assms(2) by (simp add: heap_ok_def heap0_def)
  moreover have "used_bytes heap0 [] {} = {}" by (simp add: used_bytes_def free_bytes_def)
  ultimately have b: "heap_below base heap0 (brk h) 0" unfolding heap_below_def by (intro exI[of _ "[]"] exI[of _ "{}"]) simp
  have small: "\<forall>n \<in> set (cmd_nodes s). unat n \<le> 168" using parser_nodes_small by (simp add: cmd_nodes_def del: line_nodes.simps)
  have g: "2 * (0 + length (cmd_nodes s)) + 4 \<le> g" using assms(3) by simp
  from new_nodes_end[OF small assms(1) b g] obtain h1 where
    h1: "new_nodes g base (cmd_nodes s) heap0 S h = (Val (), h1) \<or>
      new_nodes g base (cmd_nodes s) heap0 S h = (Faulted, h1) \<and> (\<exists>h0 k. h1 = h0 @ [Usbrk k]) \<and> fst (S h1) = - 1" by blast
  then show ?thesis
  proof
    assume n: "new_nodes g base (cmd_nodes s) heap0 S h = (Val (), h1)"
    have "ended (fst (bindU (parse_line g base s) runcmd S h))"
      using parsed_ended[of s S h1] unfolding parse_line_def bindU_after[where m = "new_nodes g base (cmd_nodes s) heap0", OF n] .
    then show ?thesis by (auto split: prod.split)
  next
    assume n: "new_nodes g base (cmd_nodes s) heap0 S h = (Faulted, h1) \<and> (\<exists>h0 k. h1 = h0 @ [Usbrk k]) \<and> fst (S h1) = - 1"
    then have "parse_line g base s S h = (Faulted, h1)" unfolding parse_line_def thenU_def by simp
    then show ?thesis using n by simp
  qed
qed

text \<open>A line with a redirection, under an operating system that gives memory from a break at \<open>0x4000\<close>.\<close>

definition demo_brk :: "ucall list \<Rightarrow> nat" where
  "demo_brk h = foldl (\<lambda>b c. case c of Usbrk k \<Rightarrow> if b + nat (sint k) < 2 ^ 36 then b + nat (sint k) else b | _ \<Rightarrow> b) 0x4000 h"

definition demo_os :: os where
  "demo_os h = (case rev h of
       Usbrk k # h0 \<Rightarrow> if demo_brk (rev h0) + nat (sint k) < 2 ^ 36 then (of_nat (demo_brk (rev h0)), []) else (- 1, [])
     | _ \<Rightarrow> (0, []))"

lemma demo_os_grows: "sbrk_grows demo_os 0x1000 demo_brk"
proof -
  have "0x4000 \<le> demo_brk h" for h by (induction h rule: rev_induct) (auto simp: demo_brk_def split: ucall.split)
  then have "unat (0x1000 :: uint64) + 16 \<le> demo_brk h" for h by (rule order_trans[rotated]) simp
  then show ?thesis unfolding sbrk_grows_def Let_def by (auto simp: demo_os_def demo_brk_def)
qed

theorem shell_child_ends_witness:
  "case bindU (parse_line 8 0x1000 (bytes_of ''ls>x'')) runcmd demo_os [] of (r, h') \<Rightarrow>
    ended r \<or> r = Faulted \<and> (\<exists>h0 k. h' = h0 @ [Usbrk k]) \<and> fst (demo_os h') = - 1"
proof -
  have "length (cmd_nodes (bytes_of ''ls>x'')) = 2" by code_simp
  then show ?thesis by (intro shell_child_ends[OF demo_os_grows]) simp_all
qed

end
