(* ===== verification/Utest.thy ===== *)
theory Utest
  imports Utils
begin

text \<open>
  What the test programs of \<open>user/\<close> do again and again: a call whose result must not be such and such, with the message
  and \<open>exit(1)\<close> if it is; \<open>close(open(...))\<close>; the status that \<open>wait\<close> and the descriptors that \<open>pipe\<close> store. To read a variable
  that was never set is a fault.
\<close>

definition quit :: "string \<Rightarrow> uarg list \<Rightarrow> 'a uprog" where
  "quit msg args = thenU (printf msg args) (exitU 1)"

text \<open>\<open>if (call ...) { printf(...); exit(1); }\<close>, the condition on the result as an \<open>int\<close>.\<close>

definition reject :: "ucall \<Rightarrow> (int \<Rightarrow> bool) \<Rightarrow> string \<Rightarrow> uarg list \<Rightarrow> unit uprog" where
  "reject c bad msg args = bindU (sysU c) (\<lambda>r. whenU (bad (sint r)) (quit msg args))"

definition close_open :: "uint8 list \<Rightarrow> cint \<Rightarrow> unit uprog" where
  "close_open path flags = bindU (sysU (Uopen path flags)) (\<lambda>fd. doU (Uclose fd))"

text \<open>\<open>wait\<close> with a pointer to a variable that holds \<open>st\<close> or, as \<open>None\<close>, nothing.\<close>

definition waitU :: "cint option \<Rightarrow> (cint \<times> cint option) uprog" where
  "waitU st = bindU (callU Uwait) (\<lambda>(r, bs). retU (ucast r, if length bs < 4 then st else Some (le_word (take 4 bs))))"

definition use :: "cint option \<Rightarrow> (cint \<Rightarrow> 'a uprog) \<Rightarrow> 'a uprog" where
  "use x f = (case x of None \<Rightarrow> faultU | Some v \<Rightarrow> f v)"

text \<open>\<open>wait(&xstatus)\<close> and then \<open>xstatus\<close>.\<close>

definition statusU :: "cint uprog" where
  "statusU = bindU (waitU None) (\<lambda>(_, st). use st retU)"

definition pipeU :: "(cint \<times> cint option \<times> cint option) uprog" where
  "pipeU = bindU (callU Upipe) (\<lambda>(r, bs).
     if length bs < 8 then retU (ucast r, None, None) else retU (ucast r, Some (le_word (take 4 bs)), Some (le_word (take 4 (drop 4 bs)))))"

text \<open>\<open>if ((pid = fork()) < 0) { printf(...); exit(1); }\<close>.\<close>

definition forkU :: "string \<Rightarrow> uarg list \<Rightarrow> cint uprog" where
  "forkU msg args = bindU (sysU Ufork) (\<lambda>pid. if sint pid < 0 then quit msg args else retU pid)"

text \<open>A read into a buffer, which must be large enough for the bytes stored.\<close>

definition readB :: "cint \<Rightarrow> nat \<Rightarrow> uint8 list \<Rightarrow> (cint \<times> uint8 list) uprog" where
  "readB fd n buf =
     bindU (readU fd (of_nat n)) (\<lambda>(r, bs). if length buf < length bs then faultU else retU (r, put_bytes 0 bs buf))"

end
