(* ===== verification/Grind.thy ===== *)
theory Grind
  imports Utest "HOL-Library.Signed_Division"
begin

text \<open>
  The stress test \<open>user/grind.c\<close>: random system calls from two processes for ever. The generator of random numbers is
  the one of Park and Miller; its state \<open>rand_next\<close> is a global variable, of which each process has its own copy.
\<close>

section \<open>Random numbers\<close>

text \<open>
  The arithmetic is on \<open>long\<close>, that is on \<open>64 word\<close>, with the division of C, which truncates. It is written for words of any
  length, so that what it needs of \<open>long\<close> can be stated.
\<close>

definition rand_hi :: "'a::len word \<Rightarrow> 'a word" where
  "rand_hi x = word_of_int (sint x sdiv 127773)"

definition rand_lo :: "'a::len word \<Rightarrow> 'a word" where
  "rand_lo x = word_of_int (sint x smod 127773)"

definition rand_step :: "'a::len word \<Rightarrow> 'a word" where
  "rand_step x =
     (let hi = rand_hi x;
          lo = rand_lo x;
          x = 16807 * lo - 2836 * hi;
          x = (if sint x < 0 then x + 0x7fffffff else x)
      in x - 1)"

definition do_rand :: "uint64 \<Rightarrow> cint \<times> uint64" where
  "do_rand ctx = (let x = rand_step (ctx mod 0x7ffffffe + 1) in (ucast x, x))"

section \<open>The loop\<close>

record gst =
  g_fd :: cint
  g_buf :: "uint8 list"
  g_rand :: uint64
  g_break0 :: uint64

abbreviation p :: "string \<Rightarrow> uint8 list" where "p \<equiv> bytes_of"

definition grind_fork :: "cint uprog" where
  "grind_fork = forkU ''grind: fork failed\<newline>'' []"

text \<open>The cases 1 to 12: files.\<close>

definition go_file :: "nat \<Rightarrow> gst \<Rightarrow> gst uprog" where
  "go_file what s =
     (if what = 1 then thenU (close_open (p ''grindir/../a'') 0x202) (retU s)
      else if what = 2 then thenU (close_open (p ''grindir/../grindir/../b'') 0x202) (retU s)
      else if what = 3 then thenU (doU (Uunlink (p ''grindir/../a''))) (retU s)
      else if what = 4 then
        thenU (reject (Uchdir (p ''grindir'')) (\<lambda>r. r \<noteq> 0) ''grind: chdir grindir failed\<newline>'' []) (
        thenU (doU (Uunlink (p ''../b''))) (
        thenU (doU (Uchdir (p ''/''))) (
        retU s)))
      else if what = 5 then
        thenU (doU (Uclose (g_fd s))) (
        bindU (sysU (Uopen (p ''/grindir/../a'') 0x202)) (\<lambda>fd. retU (s\<lparr>g_fd := fd\<rparr>)))
      else if what = 6 then
        thenU (doU (Uclose (g_fd s))) (
        bindU (sysU (Uopen (p ''/./grindir/./../b'') 0x202)) (\<lambda>fd. retU (s\<lparr>g_fd := fd\<rparr>)))
      else if what = 7 then thenU (doU (Uwrite (g_fd s) (g_buf s))) (retU s)
      else if what = 8 then bindU (readB (g_fd s) 999 (g_buf s)) (\<lambda>(_, buf). retU (s\<lparr>g_buf := buf\<rparr>))
      else if what = 9 then
        thenU (doU (Umkdir (p ''grindir/../a''))) (
        thenU (close_open (p ''a/../a/./a'') 0x202) (
        thenU (doU (Uunlink (p ''a/a''))) (
        retU s)))
      else if what = 10 then
        thenU (doU (Umkdir (p ''/../b''))) (
        thenU (close_open (p ''grindir/../b/b'') 0x202) (
        thenU (doU (Uunlink (p ''b/b''))) (
        retU s)))
      else if what = 11 then
        thenU (doU (Uunlink (p ''b''))) (
        thenU (doU (Ulink (p ''../grindir/./../a'') (p ''../b''))) (
        retU s))
      else
        thenU (doU (Uunlink (p ''../grindir/../a''))) (
        thenU (doU (Ulink (p ''.././b'') (p ''/grindir/../a''))) (
        retU s)))"

text \<open>The cases 13 to 20: processes and memory. The child ends in \<open>exit\<close>.\<close>

definition go_process :: "nat \<Rightarrow> gst \<Rightarrow> unit uprog" where
  "go_process what s =
     (if what = 13 then bindU grind_fork (\<lambda>pid. if pid = 0 then exitU 0 else doU Uwait)
      else if what = 14 then
        bindU grind_fork (\<lambda>pid.
        if pid = 0 then thenU (doU Ufork) (thenU (doU Ufork) (exitU 0)) else doU Uwait)
      else if what = 15 then doU (Usbrk 6011)
      else if what = 16 then
        bindU (callU (Usbrk 0)) (\<lambda>(a, _).
        whenU (g_break0 s < a) (bindU (callU (Usbrk 0)) (\<lambda>(b, _). doU (Usbrk (ucast (- (b - g_break0 s)))))))
      else if what = 17 then
        bindU grind_fork (\<lambda>pid.
        if pid = 0 then thenU (close_open (p ''a'') 0x202) (exitU 0)
        else
          thenU (reject (Uchdir (p ''../grindir/..'')) (\<lambda>r. r \<noteq> 0) ''grind: chdir failed\<newline>'' []) (
          thenU (doU (Ukill pid)) (
          doU Uwait)))
      else if what = 18 then
        bindU grind_fork (\<lambda>pid.
        if pid = 0 then bindU (sysU Ugetpid) (\<lambda>me. thenU (doU (Ukill me)) (exitU 0)) else doU Uwait)
      else if what = 19 then
        bindU pipeU (\<lambda>(r, fds0, fds1).
        if sint r < 0 then quit ''grind: pipe failed\<newline>'' []
        else
          bindU grind_fork (\<lambda>pid.
          if pid = 0 then
            thenU (doU Ufork) (
            thenU (doU Ufork) (
            use fds1 (\<lambda>f1. bindU (sysU (Uwrite f1 (p ''x''))) (\<lambda>n.
            thenU (whenU (n \<noteq> 1) (printf ''grind: pipe write failed\<newline>'' [])) (
            use fds0 (\<lambda>f0. bindU (readU f0 1) (\<lambda>(n, _).
            thenU (whenU (n \<noteq> 1) (printf ''grind: pipe read failed\<newline>'' [])) (
            exitU 0))))))))
          else use fds0 (\<lambda>f0. use fds1 (\<lambda>f1.
            thenU (doU (Uclose f0)) (thenU (doU (Uclose f1)) (doU Uwait))))))
      else
        bindU grind_fork (\<lambda>pid.
        if pid = 0 then
          thenU (doU (Uunlink (p ''a''))) (
          thenU (doU (Umkdir (p ''a''))) (
          thenU (doU (Uchdir (p ''a''))) (
          thenU (doU (Uunlink (p ''../a''))) (
          thenU (doU (Uopen (p ''x'') 0x202)) (
          thenU (doU (Uunlink (p ''x''))) (
          exitU 0))))))
        else doU Uwait))"

text \<open>The case 21: a new file has one byte and an inode number that the image has.\<close>

definition go_create :: "unit uprog" where
  "go_create =
     thenU (doU (Uunlink (p ''c''))) (
     bindU (sysU (Uopen (p ''c'') 0x202)) (\<lambda>fd1.
     if sint fd1 < 0 then quit ''grind: create c failed\<newline>'' []
     else
       thenU (reject (Uwrite fd1 (p ''x'')) (\<lambda>r. r \<noteq> 1) ''grind: write c failed\<newline>'' []) (
       bindU (callU (Ufstat fd1)) (\<lambda>(r, st).
       if (ucast r :: cint) \<noteq> 0 then quit ''grind: fstat failed\<newline>'' []
       else if length st < 24 then faultU
       else
         let size' = le_word (take 8 (drop 16 st)) :: uint64; ino = le_word (take 4 (drop 4 st)) :: uint in
         if size' \<noteq> 1 then quit ''grind: fstat reports wrong size %d\<newline>'' [AInt (ucast size')]
         else if 200 < ino then quit ''grind: fstat reports crazy i-number %d\<newline>'' [AInt ino]
         else thenU (doU (Uclose fd1)) (doU (Uunlink (p ''c'')))))))"

text \<open>The case 22: \<open>echo hi | cat\<close>. Both children end in \<open>exec\<close> or \<open>exit\<close>.\<close>

definition fail2 :: "string \<Rightarrow> cint \<Rightarrow> 'a uprog" where
  "fail2 msg n = thenU (fprintf 2 msg []) (exitU n)"

definition grind_echo :: "cint \<Rightarrow> cint \<Rightarrow> cint \<Rightarrow> cint \<Rightarrow> unit uprog" where
  "grind_echo a0 a1 b0 b1 =
     thenU (doU (Uclose b0)) (
     thenU (doU (Uclose b1)) (
     thenU (doU (Uclose a0)) (
     thenU (doU (Uclose 1)) (
     bindU (sysU (Udup a1)) (\<lambda>d.
     if d \<noteq> 1 then fail2 ''grind: dup failed\<newline>'' 1
     else
       thenU (doU (Uclose a1)) (
       thenU (execU (p ''grindir/../echo'') [p ''echo'', p ''hi'']) (
       fail2 ''grind: echo: not found\<newline>'' 2)))))))"

definition grind_cat :: "cint \<Rightarrow> cint \<Rightarrow> cint \<Rightarrow> cint \<Rightarrow> unit uprog" where
  "grind_cat a0 a1 b0 b1 =
     thenU (doU (Uclose a1)) (
     thenU (doU (Uclose b0)) (
     thenU (doU (Uclose 0)) (
     bindU (sysU (Udup a0)) (\<lambda>d.
     if d \<noteq> 0 then fail2 ''grind: dup failed\<newline>'' 4
     else
       thenU (doU (Uclose a0)) (
       thenU (doU (Uclose 1)) (
       bindU (sysU (Udup b1)) (\<lambda>d.
       if d \<noteq> 1 then fail2 ''grind: dup failed\<newline>'' 5
       else
         thenU (doU (Uclose b1)) (
         thenU (execU (p ''/cat'') [p ''cat'']) (
         fail2 ''grind: cat: not found\<newline>'' 6)))))))))"

text \<open>One byte of the answer, at offset \<open>i\<close> of \<open>buf\<close>.\<close>

definition read_at :: "cint \<Rightarrow> nat \<Rightarrow> uint8 list \<Rightarrow> uint8 list uprog" where
  "read_at fd i buf = bindU (readU fd 1) (\<lambda>(_, bs). if length buf < i + length bs then faultU else retU (put_bytes i bs buf))"

definition go_pipeline :: "unit uprog" where
  "go_pipeline =
     bindU pipeU (\<lambda>(r, aa0, aa1).
     if sint r < 0 then fail2 ''grind: pipe failed\<newline>'' 1
     else bindU pipeU (\<lambda>(r, bb0, bb1).
     if sint r < 0 then fail2 ''grind: pipe failed\<newline>'' 1
     else use aa0 (\<lambda>a0. use aa1 (\<lambda>a1. use bb0 (\<lambda>b0. use bb1 (\<lambda>b1.
     bindU (sysU Ufork) (\<lambda>pid1.
     if pid1 = 0 then grind_echo a0 a1 b0 b1
     else if sint pid1 < 0 then fail2 ''grind: fork failed\<newline>'' 3
     else bindU (sysU Ufork) (\<lambda>pid2.
     if pid2 = 0 then grind_cat a0 a1 b0 b1
     else if sint pid2 < 0 then fail2 ''grind: fork failed\<newline>'' 7
     else
       thenU (doU (Uclose a0)) (
       thenU (doU (Uclose a1)) (
       thenU (doU (Uclose b1)) (
       bindU (read_at b0 0 [0, 0, 0, 0]) (\<lambda>buf.
       bindU (read_at b0 1 buf) (\<lambda>buf.
       bindU (read_at b0 2 buf) (\<lambda>buf.
       thenU (doU (Uclose b0)) (
       bindU (waitU None) (\<lambda>(_, st1).
       bindU (waitU None) (\<lambda>(_, st2).
       use st1 (\<lambda>v1. use st2 (\<lambda>v2.
       let answer = takeWhile (\<lambda>c. c \<noteq> 0) buf in
       whenU (v1 \<noteq> 0 \<or> v2 \<noteq> 0 \<or> strcmp answer (p ''hi\<newline>'') \<noteq> 0)
         (quit (''grind: exec pipeline failed %d %d '' @ [CHR 0x22] @ ''%s'' @ [CHR 0x22, CHR 0x0A]) [AInt v1, AInt v2, AStr answer]))))))))))))))))))))"

definition go_step :: "gst \<Rightarrow> gst uprog" where
  "go_step s =
     (case do_rand (g_rand s) of (r, rand') \<Rightarrow>
      let s = s\<lparr>g_rand := rand'\<rparr>; what = sint r mod 23 in
      if 1 \<le> what \<and> what \<le> 12 then go_file (nat what) s
      else if 13 \<le> what \<and> what \<le> 20 then thenU (go_process (nat what) s) (retU s)
      else if what = 21 then thenU go_create (retU s)
      else if what = 22 then thenU go_pipeline (retU s)
      else retU s)"

primrec go_loop :: "nat \<Rightarrow> bool \<Rightarrow> uint64 \<Rightarrow> gst \<Rightarrow> unit uprog" where
  "go_loop 0 which_child iters s = starveU"
| "go_loop (Suc f) which_child iters s =
     (let iters = iters + 1 in
      thenU (whenU (iters mod 500 = 0) (doU (Uwrite 1 (if which_child then p ''B'' else p ''A'')))) (
      bindU (go_step s) (
      go_loop f which_child iters)))"

definition go :: "nat \<Rightarrow> bool \<Rightarrow> uint64 \<Rightarrow> unit uprog" where
  "go f which_child rand_next =
     bindU (callU (Usbrk 0)) (\<lambda>(break0, _).
     thenU (doU (Umkdir (p ''grindir''))) (
     thenU (reject (Uchdir (p ''grindir'')) (\<lambda>r. r \<noteq> 0) ''grind: chdir grindir failed\<newline>'' []) (
     thenU (doU (Uchdir (p ''/''))) (
     go_loop f which_child 0 \<lparr>g_fd = - 1, g_buf = replicate 999 0, g_rand = rand_next, g_break0 = break0\<rparr>))))"

section \<open>The program\<close>

unbundle bit_operations_syntax

definition iter :: "nat \<Rightarrow> uint64 \<Rightarrow> unit uprog" where
  "iter f rand_next =
     thenU (doU (Uunlink (p ''a''))) (
     thenU (doU (Uunlink (p ''b''))) (
     bindU grind_fork (\<lambda>pid1.
     if pid1 = 0 then thenU (go f False (rand_next XOR 31)) (exitU 0)
     else bindU grind_fork (\<lambda>pid2.
     if pid2 = 0 then thenU (go f True (rand_next XOR 7177)) (exitU 0)
     else
       bindU (waitU (Some (- 1))) (\<lambda>(_, st1).
       thenU (whenU (st1 \<noteq> Some 0) (thenU (doU (Ukill pid1)) (doU (Ukill pid2)))) (
       thenU (doU Uwait) (
       exitU 0)))))))"

primrec grind_loop :: "nat \<Rightarrow> uint64 \<Rightarrow> unit uprog" where
  "grind_loop 0 rand_next = starveU"
| "grind_loop (Suc f) rand_next =
     bindU (sysU Ufork) (\<lambda>pid.
     if pid = 0 then thenU (iter f rand_next) (exitU 0)
     else
       thenU (whenU (0 < sint pid) (doU Uwait)) (
       thenU (doU (Usleep 20)) (
       grind_loop f (rand_next + 1))))"

definition grind_main :: "nat \<Rightarrow> unit uprog" where
  "grind_main f = grind_loop f 1"

section \<open>The generator\<close>

lemma park_miller_step:
  fixes x :: int
  assumes "0 < x" "x < 0x7fffffff"
  defines "y \<equiv> 16807 * (x mod 127773) - 2836 * (x div 127773)"
  shows "(if y < 0 then y + 0x7fffffff else y) = 16807 * x mod 0x7fffffff"
proof -
  have x: "x = 127773 * (x div 127773) + x mod 127773" by simp
  have lo: "0 \<le> x mod 127773" "x mod 127773 < 127773" by simp_all
  have hi: "0 \<le> x div 127773" "x div 127773 \<le> 16807" using assms(1,2) x lo by linarith+
  have "16807 * x = y + x div 127773 * 0x7fffffff" using x unfolding y_def by linarith
  then have "16807 * x mod 0x7fffffff = y mod 0x7fffffff" by simp
  moreover have "- 0x7fffffff < y" "y < 0x7fffffff" using lo hi unfolding y_def by linarith+
  moreover have "y mod 0x7fffffff = (if y < 0 then y + 0x7fffffff else y)" if "- 0x7fffffff < y" "y < 0x7fffffff"
    using that mod_pos_pos_trivial[of y "0x7fffffff"] mod_pos_pos_trivial[of "y + 0x7fffffff" "0x7fffffff"] by auto
  ultimately show ?thesis by simp
qed

text \<open>Multiplication by 16807 can be undone.\<close>

lemma park_miller_inverse:
  fixes x :: int
  assumes "0 < x" "x < 0x7fffffff"
  shows "1407677000 * (16807 * x mod 0x7fffffff) mod 0x7fffffff = x"
proof -
  have "1407677000 * (16807 * x mod 0x7fffffff) mod 0x7fffffff = 1407677000 * (16807 * x) mod 0x7fffffff"
    by (rule mod_mult_right_eq)
  also have "1407677000 * (16807 * x) = x + 11017 * x * 0x7fffffff" by simp
  also have "(x + 11017 * x * 0x7fffffff) mod 0x7fffffff = x" using assms by (simp only: mod_mult_self1 mod_pos_pos_trivial less_imp_le)
  finally show ?thesis .
qed

text \<open>No operation of the step overflows words of 32 bits or more.\<close>

lemma sint_of_int:
  assumes "31 < LENGTH('a::len)" and "- 0x80000000 \<le> k" and "k < 0x80000000"
  shows "sint (word_of_int k :: 'a word) = k"
proof -
  have "(2::int) ^ 31 \<le> 2 ^ (LENGTH('a) - 1)" using assms(1) by (intro power_increasing) auto
  then show ?thesis using assms(2,3) by (simp add: sint_sbintrunc' signed_take_bit_int_eq_self)
qed

lemma rand_step_exact:
  fixes x :: int
  assumes "31 < LENGTH('a::len)" and "0 < x" and "x < 0x7fffffff"
  defines "w \<equiv> word_of_int x :: 'a word"
  shows "rand_hi w = word_of_int (x div 127773)" and "rand_lo w = word_of_int (x mod 127773)"
    and "sint (rand_hi w) = x div 127773" and "sint (rand_lo w) = x mod 127773"
    and "sint (16807 * rand_lo w) = 16807 * (x mod 127773)" and "sint (2836 * rand_hi w) = 2836 * (x div 127773)"
    and "sint (16807 * rand_lo w - 2836 * rand_hi w) = 16807 * (x mod 127773) - 2836 * (x div 127773)"
proof -
  note S = sint_of_int[OF assms(1)]
  have x: "x = 127773 * (x div 127773) + x mod 127773" by simp
  have lo: "0 \<le> x mod 127773" "x mod 127773 < 127773" by simp_all
  have hi: "0 \<le> x div 127773" "x div 127773 \<le> 16807" using assms(2,3) x lo by linarith+
  have w: "sint w = x" unfolding w_def by (rule S) (use assms in linarith)+
  show h: "rand_hi w = word_of_int (x div 127773)" and l: "rand_lo w = word_of_int (x mod 127773)"
    using assms(2) by (simp_all add: rand_hi_def rand_lo_def w signed_divide_int_def signed_modulo_int_def)
  show "sint (rand_hi w) = x div 127773" "sint (rand_lo w) = x mod 127773" unfolding h l by (rule S; use lo hi in linarith)+
  show "sint (16807 * rand_lo w) = 16807 * (x mod 127773)" "sint (2836 * rand_hi w) = 2836 * (x div 127773)"
    unfolding h l using S[of "16807 * (x mod 127773)"] S[of "2836 * (x div 127773)"] lo hi by simp_all
  show "sint (16807 * rand_lo w - 2836 * rand_hi w) = 16807 * (x mod 127773) - 2836 * (x div 127773)"
    unfolding h l using S[of "16807 * (x mod 127773) - 2836 * (x div 127773)"] lo hi by simp
qed

lemma rand_step_eq:
  fixes x :: int
  assumes "31 < LENGTH('a::len)" and "0 < x" and "x < 0x7fffffff"
  shows "rand_step (word_of_int x :: 'a word) = word_of_int (16807 * x mod 0x7fffffff - 1)"
proof -
  note E = rand_step_exact[OF assms]
  have "rand_step (word_of_int x :: 'a word) =
      word_of_int ((if 16807 * (x mod 127773) - 2836 * (x div 127773) < 0
        then 16807 * (x mod 127773) - 2836 * (x div 127773) + 0x7fffffff else 16807 * (x mod 127773) - 2836 * (x div 127773)) - 1)"
    unfolding rand_step_def Let_def E(7) unfolding E(1,2) by simp
  then show ?thesis unfolding park_miller_step[OF assms(2,3)] .
qed

lemma rand_input: "ctx mod 0x7ffffffe + 1 = (word_of_int (int (unat ctx mod 0x7ffffffe) + 1) :: uint64)"
  by (rule word_uint_eqI) (simp add: uint_word_ariths uint_word_of_int uint_mod zmod_int)

lemma do_rand_eq:
  fixes ctx :: uint64
  defines "r \<equiv> 16807 * (int (unat ctx mod 0x7ffffffe) + 1) mod 0x7fffffff - 1"
  shows "do_rand ctx = (word_of_int r, word_of_int r)" "0 \<le> r" "r \<le> 0x7ffffffd"
proof -
  let ?x = "int (unat ctx mod 0x7ffffffe) + 1"
  have m: "unat ctx mod 0x7ffffffe < 0x7ffffffe" by simp
  then have b: "0 < ?x" "?x < 0x7fffffff" by linarith+
  have "16807 * ?x mod 0x7fffffff \<noteq> 0" using park_miller_inverse[OF b] b by auto
  moreover have "0 \<le> 16807 * ?x mod 0x7fffffff" "16807 * ?x mod 0x7fffffff < 0x7fffffff" by simp_all
  ultimately show r: "0 \<le> r" "r \<le> 0x7ffffffd" unfolding r_def by linarith+
  have "rand_step (ctx mod 0x7ffffffe + 1) = word_of_int r"
    using rand_step_eq[where 'a = 64, OF _ b] unfolding rand_input r_def by simp
  moreover have "ucast (word_of_int r :: uint64) = (word_of_int r :: cint)" using r by (simp add: ucast_eq uint_word_of_int)
  ultimately show "do_rand ctx = (word_of_int r, word_of_int r)" unfolding do_rand_def Let_def by simp
qed

text \<open>
  C38. The generator of \<open>grind\<close> steps as Park and Miller have it, multiplication by \<open>7 ^ 5\<close> modulo \<open>2 ^ 31 - 1\<close>, without overflowing
  31 bits: from the state \<open>x - 1\<close>, where \<open>x\<close> is between 1 and \<open>2 ^ 31 - 2\<close>, it goes to \<open>7 ^ 5 * x mod (2 ^ 31 - 1) - 1\<close>, which is in
  the same range, is what it returns, and is different for different states; and with \<open>int\<close> of 32 bits in the place of \<open>long\<close> both
  products and their difference are exact, and the step comes to the same number.
\<close>

theorem do_rand_park_miller:
  "unat (snd (do_rand ctx)) + 1 = 7 ^ 5 * (unat ctx mod (2 ^ 31 - 2) + 1) mod (2 ^ 31 - 1) \<and>
   unat (snd (do_rand ctx)) < 2 ^ 31 - 2 \<and> sint (fst (do_rand ctx)) = int (unat (snd (do_rand ctx))) \<and>
   (do_rand ctx = do_rand ctx' \<longleftrightarrow> unat ctx mod (2 ^ 31 - 2) = unat ctx' mod (2 ^ 31 - 2)) \<and>
   (let y = of_nat (unat ctx mod (2 ^ 31 - 2) + 1) :: 32 word in
      sint (16807 * rand_lo y) = 16807 * sint (rand_lo y) \<and> sint (2836 * rand_hi y) = 2836 * sint (rand_hi y) \<and>
      sint (16807 * rand_lo y - 2836 * rand_hi y) = sint (16807 * rand_lo y) - sint (2836 * rand_hi y) \<and>
      rand_step y = fst (do_rand ctx))"
proof -
  define x where "x c = int (unat c mod 0x7ffffffe) + 1" for c :: uint64
  define r where "r c = 16807 * x c mod 0x7fffffff - 1" for c :: uint64
  note R = do_rand_eq[folded x_def, folded r_def]
  have u: "uint (word_of_int (r c) :: uint64) = r c" for c using R(2,3)[of c] by (simp add: uint_word_of_int)
  have s: "sint (word_of_int (r c) :: cint) = r c" for c
    using R(2,3)[of c] by (subst sint_uint_small) (simp_all add: uint_word_of_int)
  have n: "int (unat (snd (do_rand c))) = r c" for c using u[of c] R(1)[of c] by simp
  have "int (7 ^ 5 * (unat ctx mod (2 ^ 31 - 2) + 1) mod (2 ^ 31 - 1)) = r ctx + 1"
    by (simp add: r_def x_def zmod_int add.commute)
  then have a: "unat (snd (do_rand ctx)) + 1 = 7 ^ 5 * (unat ctx mod (2 ^ 31 - 2) + 1) mod (2 ^ 31 - 1)"
    using n[of ctx] by linarith
  have "unat (snd (do_rand ctx)) < 0x7ffffffe" using n[of ctx] R(3)[of ctx] by linarith
  then have b: "unat (snd (do_rand ctx)) < 2 ^ 31 - 2" by simp
  have c: "sint (fst (do_rand ctx)) = int (unat (snd (do_rand ctx)))" using n[of ctx] s[of ctx] R(1)[of ctx] by simp
  have "x ctx = x ctx'" if "do_rand ctx = do_rand ctx'"
  proof -
    have "1407677000 * (r c + 1) mod 0x7fffffff = x c" for c
    proof -
      have "unat c mod 0x7ffffffe < 0x7ffffffe" by simp
      then have "0 < x c" "x c < 0x7fffffff" unfolding x_def by linarith+
      then show ?thesis unfolding r_def by (simp only: diff_add_cancel park_miller_inverse)
    qed
    moreover have "r ctx = r ctx'" using that n[of ctx] n[of ctx'] by simp
    ultimately show ?thesis by metis
  qed
  moreover have "do_rand ctx = do_rand ctx'" if "x ctx = x ctx'" unfolding R(1) r_def that ..
  ultimately have "do_rand ctx = do_rand ctx' \<longleftrightarrow> x ctx = x ctx'" by blast
  also have "\<dots> \<longleftrightarrow> unat ctx mod (2 ^ 31 - 2) = unat ctx' mod (2 ^ 31 - 2)" unfolding x_def by simp
  finally have d: "do_rand ctx = do_rand ctx' \<longleftrightarrow> unat ctx mod (2 ^ 31 - 2) = unat ctx' mod (2 ^ 31 - 2)" .
  have "unat ctx mod 0x7ffffffe < 0x7ffffffe" by simp
  then have x: "0 < x ctx" "x ctx < 0x7fffffff" unfolding x_def by linarith+
  have y: "of_nat (unat ctx mod (2 ^ 31 - 2) + 1) = (word_of_int (x ctx) :: 32 word)" by (simp add: x_def)
  note E = rand_step_exact[where 'a = 32, OF _ x, simplified] and F = rand_step_eq[where 'a = 32, OF _ x, simplified]
  have "rand_step (word_of_int (x ctx)) = fst (do_rand ctx)" unfolding F R(1) r_def by simp
  with a b c d show ?thesis unfolding y Let_def E(3-7) by blast
qed

end
