(* ===== verification/Mkfs.thy ===== *)
theory Mkfs
  imports Fs
begin

text \<open>
  Building the file system image, \<open>mkfs/mkfs.c\<close>, which runs on a little-endian host. The image is a list of sectors. The
  files of the host are a parameter: a file that cannot be opened, or the pieces in which \<open>read\<close> delivers it. The host
  accepts what is written to the image. Failing is a call of \<open>die\<close>, an assertion or the message on usage.
\<close>

section \<open>Data\<close>

definition FSSIZE :: nat where "FSSIZE = 2000"
definition NINODES :: nat where "NINODES = 200"
definition nbitmap :: nat where "nbitmap = FSSIZE div (BSIZE * 8) + 1"
definition ninodeblocks :: nat where "ninodeblocks = NINODES div IPB + 1"
definition nlog :: nat where "nlog = LOGSIZE"
definition nmeta :: nat where "nmeta = 2 + nlog + ninodeblocks + nbitmap"

record dinode =
  d_type :: uint16
  d_major :: uint16
  d_minor :: uint16
  d_nlink :: uint16
  d_size :: uint
  d_addrs :: "nat \<Rightarrow> uint"

record mkst =
  img :: "uint8 list list"
  freeinode :: uint
  freeblock :: uint

datatype merror = Die "uint8 list" | Assertion | Usage

type_synonym 'a made = "merror + 'a"

definition bindM :: "'a made \<Rightarrow> ('a \<Rightarrow> 'b made) \<Rightarrow> 'b made" where
  "bindM m f = (case m of Inl e \<Rightarrow> Inl e | Inr x \<Rightarrow> f x)"

lemma bindM_simps [simp]: "bindM (Inl e) f = Inl e" "bindM (Inr x) f = f x"
  by (simp_all add: bindM_def)

text \<open>The bytes of the result, as the host reads them.\<close>

definition xshort :: "uint16 \<Rightarrow> uint16" where
  "xshort x = le_word [ucast x, ucast (drop_bit 8 x)]"

definition xint :: "uint \<Rightarrow> uint" where
  "xint x = le_word [ucast x, ucast (drop_bit 8 x), ucast (drop_bit 16 x), ucast (drop_bit 24 x)]"

definition mk_sb :: superblock where
  "mk_sb = \<lparr>sb_magic = FSMAGIC, sb_size = xint (of_nat FSSIZE), sb_nblocks = xint (of_nat (FSSIZE - nmeta)),
     sb_ninodes = xint (of_nat NINODES), sb_nlog = xint (of_nat nlog), sb_logstart = xint 2,
     sb_inodestart = xint (of_nat (2 + nlog)), sb_bmapstart = xint (of_nat (2 + nlog + ninodeblocks))\<rparr>"

text \<open>The bytes of the super block, for \<open>memmove\<close>.\<close>

definition sb_bytes :: "superblock \<Rightarrow> uint8 list" where
  "sb_bytes s = le_bytes 4 (sb_magic s) @ le_bytes 4 (sb_size s) @ le_bytes 4 (sb_nblocks s) @ le_bytes 4 (sb_ninodes s) @
     le_bytes 4 (sb_nlog s) @ le_bytes 4 (sb_logstart s) @ le_bytes 4 (sb_inodestart s) @ le_bytes 4 (sb_bmapstart s)"

definition zeroes :: "uint8 list" where
  "zeroes = replicate BSIZE 0"

section \<open>Sectors\<close>

text \<open>\<open>sec * BSIZE\<close> is computed as a \<open>uint\<close>.\<close>

definition sector :: "uint \<Rightarrow> nat" where
  "sector sec = unat (sec * of_nat BSIZE) div BSIZE"

definition wsect :: "uint \<Rightarrow> uint8 list \<Rightarrow> mkst \<Rightarrow> mkst" where
  "wsect sec buf s =
     (let i = sector sec; im = img s in
      s\<lparr>img := (if i < length im then im[i := buf] else im @ replicate (i - length im) zeroes @ [buf])\<rparr>)"

definition rsect :: "uint \<Rightarrow> mkst \<Rightarrow> uint8 list made" where
  "rsect sec s = (let i = sector sec in if i < length (img s) then Inr (img s ! i) else Inl (Die (bytes_of ''read'')))"

section \<open>Inodes\<close>

text \<open>A \<open>struct dinode\<close> in a block, as the kernel has it.\<close>

definition inode_of :: "dinode \<Rightarrow> inode" where
  "inode_of d = \<lparr>i_dev = 0, i_inum = 0, i_ref = 0, i_valid = False, i_type = d_type d, i_major = d_major d, i_minor = d_minor d,
     i_nlink = d_nlink d, i_size = d_size d, i_addrs = d_addrs d\<rparr>"

definition dinode_at :: "nat \<Rightarrow> uint8 list \<Rightarrow> dinode" where
  "dinode_at off bs = \<lparr>d_type = get16 off bs, d_major = get16 (off + 2) bs, d_minor = get16 (off + 4) bs,
     d_nlink = get16 (off + 6) bs, d_size = get32 (off + 8) bs,
     d_addrs = (\<lambda>i. if i < NDIRECT + 1 then get32 (off + 12 + 4 * i) bs else 0)\<rparr>"

definition winode :: "uint \<Rightarrow> dinode \<Rightarrow> mkst \<Rightarrow> mkst made" where
  "winode inum d s =
     (let bn = IBLOCK inum mk_sb in
      bindM (rsect bn s) (\<lambda>buf. Inr (wsect bn (dinode_put (dinode_off inum) (inode_of d) buf) s)))"

definition rinode :: "uint \<Rightarrow> mkst \<Rightarrow> dinode made" where
  "rinode inum s = bindM (rsect (IBLOCK inum mk_sb) s) (\<lambda>buf. Inr (dinode_at (dinode_off inum) buf))"

definition mk_ialloc :: "uint16 \<Rightarrow> mkst \<Rightarrow> (uint \<times> mkst) made" where
  "mk_ialloc type' s =
     (let inum = freeinode s;
          s = s\<lparr>freeinode := freeinode s + 1\<rparr>;
          d = \<lparr>d_type = xshort type', d_major = 0, d_minor = 0, d_nlink = xshort 1, d_size = xint 0, d_addrs = (\<lambda>_. 0)\<rparr>
      in bindM (winode inum d s) (\<lambda>s. Inr (inum, s)))"

text \<open>\<open>freeblock++\<close>.\<close>

definition take_block :: "mkst \<Rightarrow> uint \<times> mkst" where
  "take_block s = (freeblock s, s\<lparr>freeblock := freeblock s + 1\<rparr>)"

text \<open>The data block of a file with the number \<open>fbn\<close>, made if there is none yet.\<close>

definition file_block :: "nat \<Rightarrow> dinode \<Rightarrow> mkst \<Rightarrow> (uint \<times> dinode \<times> mkst) made" where
  "file_block fbn din s =
     (if fbn < NDIRECT then
        if xint (d_addrs din fbn) = 0
        then case take_block s of (b, s) \<Rightarrow>
          let din = din\<lparr>d_addrs := (d_addrs din)(fbn := xint b)\<rparr> in Inr (xint (d_addrs din fbn), din, s)
        else Inr (xint (d_addrs din fbn), din, s)
      else
        case (if xint (d_addrs din NDIRECT) = 0
              then case take_block s of (b, s) \<Rightarrow> (din\<lparr>d_addrs := (d_addrs din)(NDIRECT := xint b)\<rparr>, s)
              else (din, s)) of (din, s) \<Rightarrow>
        bindM (rsect (xint (d_addrs din NDIRECT)) s) (\<lambda>indirect.
        let j = 4 * (fbn - NDIRECT) in
        if get32 j indirect = 0
        then case take_block s of (b, s) \<Rightarrow>
          let indirect = put32 j (xint b) indirect
          in Inr (xint (get32 j indirect), din, wsect (xint (d_addrs din NDIRECT)) indirect s)
        else Inr (xint (get32 j indirect), din, s)))"

function iappend_loop :: "uint8 list \<Rightarrow> uint \<Rightarrow> dinode \<Rightarrow> mkst \<Rightarrow> (uint \<times> dinode \<times> mkst) made" where
  "iappend_loop p off din s =
     (if p = [] then Inr (off, din, s)
      else
        let fbn = unat off div BSIZE in
        if \<not> fbn < MAXFILE then Inl Assertion
        else case file_block fbn din s of
            Inl e \<Rightarrow> Inl e
          | Inr (x, din, s) \<Rightarrow>
              let n1 = min (length p) ((fbn + 1) * BSIZE - unat off) in
              case rsect x s of
                Inl e \<Rightarrow> Inl e
              | Inr buf \<Rightarrow>
                  iappend_loop (drop n1 p) (off + of_nat n1) din
                    (wsect x (put_bytes (unat off - fbn * BSIZE) (take n1 p) buf) s))"
  by pat_completeness auto
termination
  by (relation "measure (\<lambda>(p, off, din, s). length p)") (auto simp: BSIZE_def)

declare iappend_loop.simps [simp del]

definition iappend :: "uint \<Rightarrow> uint8 list \<Rightarrow> mkst \<Rightarrow> mkst made" where
  "iappend inum p s =
     bindM (rinode inum s) (\<lambda>din.
     bindM (iappend_loop p (xint (d_size din)) din s) (\<lambda>(off, din, s).
     winode inum (din\<lparr>d_size := xint off\<rparr>) s))"

section \<open>The free map\<close>

definition mk_bitmap :: "nat \<Rightarrow> uint8 list" where
  "mk_bitmap used = fold (\<lambda>i buf. buf[i div 8 := buf ! (i div 8) OR push_bit (i mod 8) 1]) [0..<used] zeroes"

definition mk_balloc :: "cint \<Rightarrow> mkst \<Rightarrow> mkst made" where
  "mk_balloc used s =
     (if \<not> sint used < int (BSIZE * 8) then Inl Assertion
      else Inr (wsect (sb_bmapstart mk_sb) (mk_bitmap (nat (sint used))) s))"

section \<open>The program\<close>

definition mk_dirent :: "uint \<Rightarrow> uint8 list \<Rightarrow> uint8 list" where
  "mk_dirent inum name = le_bytes 2 (xshort (ucast inum)) @ take DIRSIZ (name @ replicate DIRSIZ 0)"

definition shortname :: "uint8 list \<Rightarrow> uint8 list" where
  "shortname a = (if take 5 a = bytes_of ''user/'' then drop 5 a else a)"

primrec iappends :: "uint \<Rightarrow> uint8 list list \<Rightarrow> mkst \<Rightarrow> mkst made" where
  "iappends inum [] s = Inr s"
| "iappends inum (p # ps) s = bindM (iappend inum p s) (iappends inum ps)"

definition add_file :: "(uint8 list \<Rightarrow> uint8 list list option) \<Rightarrow> uint \<Rightarrow> uint8 list \<Rightarrow> mkst \<Rightarrow> mkst made" where
  "add_file host rootino a s =
     (let name = shortname a in
      if 0x2f \<in> set name then Inl Assertion
      else case host a of
          None \<Rightarrow> Inl (Die a)
        | Some ps \<Rightarrow>
            let name = (if take 1 name = [0x5f] then drop 1 name else name) in
            bindM (mk_ialloc T_FILE s) (\<lambda>(inum, s).
            bindM (iappend rootino (mk_dirent inum name) s) (
            iappends inum ps)))"

primrec add_files :: "(uint8 list \<Rightarrow> uint8 list list option) \<Rightarrow> uint \<Rightarrow> uint8 list list \<Rightarrow> mkst \<Rightarrow> mkst made" where
  "add_files host rootino [] s = Inr s"
| "add_files host rootino (a # as) s = bindM (add_file host rootino a s) (add_files host rootino as)"

text \<open>The empty file system: super block and root directory.\<close>

definition mk_empty :: "(uint \<times> mkst) made" where
  "mk_empty =
     (let s = \<lparr>img = [], freeinode = 1, freeblock = of_nat nmeta\<rparr>;
          s = fold (\<lambda>i. wsect (of_nat i) zeroes) [0..<FSSIZE] s;
          s = wsect 1 (put_bytes 0 (sb_bytes mk_sb) zeroes) s
      in bindM (mk_ialloc T_DIR s) (\<lambda>(rootino, s).
         if rootino \<noteq> ROOTINO then Inl Assertion
         else
           bindM (iappend rootino (mk_dirent rootino (bytes_of ''.'')) s) (\<lambda>s.
           bindM (iappend rootino (mk_dirent rootino (bytes_of ''..'')) s) (\<lambda>s.
           Inr (rootino, s)))))"

text \<open>The size of the root directory becomes a number of whole blocks.\<close>

definition fix_root :: "uint \<Rightarrow> mkst \<Rightarrow> mkst made" where
  "fix_root rootino s =
     bindM (rinode rootino s) (\<lambda>din.
     let off = xint (d_size din);
         off = (off div of_nat BSIZE + 1) * of_nat BSIZE
     in winode rootino (din\<lparr>d_size := xint off\<rparr>) s)"

definition mkfs_main :: "(uint8 list \<Rightarrow> uint8 list list option) \<Rightarrow> uint8 list list \<Rightarrow> mkst made" where
  "mkfs_main host argv =
     (if length argv < 2 then Inl Usage
      else
        bindM mk_empty (\<lambda>(rootino, s).
        bindM (add_files host rootino (drop 2 argv) s) (\<lambda>s.
        bindM (fix_root rootino s) (\<lambda>s.
        mk_balloc (freeblock s) s))))"

end
