(* ===== verification/MkfsProofs.thy ===== *)
theory MkfsProofs
  imports Mkfs FsProofs
begin

text \<open>
  The image that \<open>mkfs\<close> builds, read by the layout of the kernel: what is appended to a file is read back, no two files
  share a block, and the free map has exactly the blocks in use.
\<close>

section \<open>Sectors\<close>

lemma xint_id [simp]: "xint x = x"
proof -
  have "xint x = le_word (le_bytes 4 x)" by (simp add: xint_def numeral_eq_Suc)
  then show ?thesis by (simp add: le_word_le_bytes)
qed

lemma xshort_id [simp]: "xshort x = x"
proof -
  have "xshort x = le_word (le_bytes 2 x)" by (simp add: xshort_def numeral_eq_Suc)
  then show ?thesis by (simp add: le_word_le_bytes)
qed

lemma sector_small [simp]: "unat sec < 2 ^ 22 \<Longrightarrow> sector sec = unat sec"
proof -
  assume a: "unat sec < 2 ^ 22"
  then have "unat (sec * 1024) = unat sec * 1024" by (simp add: unat_mult_lem[THEN iffD1])
  then show ?thesis by (simp add: sector_def BSIZE_def)
qed

definition img_ok :: "uint8 list list \<Rightarrow> bool" where
  "img_ok im \<longleftrightarrow> length im = FSSIZE \<and> (\<forall>b \<in> set im. length b = BSIZE)"

lemma img_ok_nth: "img_ok im \<Longrightarrow> i < FSSIZE \<Longrightarrow> length (im ! i) = BSIZE"
  by (simp add: img_ok_def)

lemma img_ok_update: "img_ok im \<Longrightarrow> length b = BSIZE \<Longrightarrow> img_ok (im[i := b])"
  using set_update_subset_insert[of im i b] by (auto simp: img_ok_def)

lemma rsect_eq: "img_ok (img s) \<Longrightarrow> unat x < FSSIZE \<Longrightarrow> rsect x s = Inr (img s ! unat x)"
  by (simp add: rsect_def img_ok_def FSSIZE_def)

lemma wsect_eq: "img_ok (img s) \<Longrightarrow> unat x < FSSIZE \<Longrightarrow> wsect x b s = s\<lparr>img := (img s)[unat x := b]\<rparr>"
  by (simp add: wsect_def img_ok_def FSSIZE_def Let_def)

section \<open>The blocks of a file\<close>

text \<open>Block number \<open>k\<close> of a file, as \<open>bmap\<close> of the kernel finds it.\<close>

definition bno :: "uint8 list list \<Rightarrow> dinode \<Rightarrow> nat \<Rightarrow> uint" where
  "bno im d k = (if k < NDIRECT then d_addrs d k else get32 (4 * (k - NDIRECT)) (im ! unat (d_addrs d NDIRECT)))"

definition blocks_of :: "nat \<Rightarrow> nat" where
  "blocks_of n = (n + BSIZE - 1) div BSIZE"

text \<open>All blocks of a file of \<open>n\<close> data blocks.\<close>

definition owned :: "uint8 list list \<Rightarrow> dinode \<Rightarrow> nat \<Rightarrow> nat set" where
  "owned im d n = (\<lambda>k. unat (bno im d k)) ` {..<n} \<union> (if NDIRECT < n then {unat (d_addrs d NDIRECT)} else {})"

definition data :: "uint8 list list \<Rightarrow> dinode \<Rightarrow> nat \<Rightarrow> uint8 list" where
  "data im d n = concat (map (\<lambda>k. im ! unat (bno im d k)) [0..<n])"

definition contents :: "uint8 list list \<Rightarrow> dinode \<Rightarrow> uint8 list" where
  "contents im d = take (unat (d_size d)) (data im d (blocks_of (unat (d_size d))))"

text \<open>
  The first \<open>n\<close> blocks of a file are different blocks between the meta blocks and \<open>fb\<close>, and it has no others.
\<close>

definition blocks_ok :: "uint8 list list \<Rightarrow> nat \<Rightarrow> dinode \<Rightarrow> nat \<Rightarrow> bool" where
  "blocks_ok im fb d n \<longleftrightarrow> n \<le> MAXFILE \<and> owned im d n \<subseteq> {nmeta..<fb} \<and> inj_on (bno im d) {..<n} \<and>
     (NDIRECT < n \<longrightarrow> (\<forall>k < n. bno im d k \<noteq> d_addrs d NDIRECT)) \<and>
     (\<forall>k. n \<le> k \<and> k < NDIRECT \<longrightarrow> d_addrs d k = 0) \<and> (n \<le> NDIRECT \<longrightarrow> d_addrs d NDIRECT = 0) \<and>
     (\<forall>k > NDIRECT. d_addrs d k = 0) \<and> (NDIRECT < n \<longrightarrow> (\<forall>k. n \<le> k \<and> k < MAXFILE \<longrightarrow> bno im d k = 0))"

lemma blocks_okD:
  assumes "blocks_ok im fb d n"
  shows "n \<le> MAXFILE" "\<And>k. k < n \<Longrightarrow> nmeta \<le> unat (bno im d k) \<and> unat (bno im d k) < fb"
    "NDIRECT < n \<Longrightarrow> nmeta \<le> unat (d_addrs d NDIRECT) \<and> unat (d_addrs d NDIRECT) < fb"
    "\<And>j k. j < n \<Longrightarrow> k < n \<Longrightarrow> bno im d j = bno im d k \<Longrightarrow> j = k"
    "\<And>k. NDIRECT < n \<Longrightarrow> k < n \<Longrightarrow> bno im d k \<noteq> d_addrs d NDIRECT"
    "\<And>k. n \<le> k \<Longrightarrow> k < NDIRECT \<Longrightarrow> d_addrs d k = 0" "n \<le> NDIRECT \<Longrightarrow> d_addrs d NDIRECT = 0" "\<And>k. NDIRECT < k \<Longrightarrow> d_addrs d k = 0"
    "\<And>k. NDIRECT < n \<Longrightarrow> n \<le> k \<Longrightarrow> k < MAXFILE \<Longrightarrow> bno im d k = 0"
  using assms unfolding blocks_ok_def owned_def by (auto dest: inj_onD)

lemma blocks_okI:
  assumes "n \<le> MAXFILE" "\<And>k. k < n \<Longrightarrow> nmeta \<le> unat (bno im d k) \<and> unat (bno im d k) < fb"
    "NDIRECT < n \<Longrightarrow> nmeta \<le> unat (d_addrs d NDIRECT) \<and> unat (d_addrs d NDIRECT) < fb"
    "\<And>j k. j < n \<Longrightarrow> k < n \<Longrightarrow> bno im d j = bno im d k \<Longrightarrow> j = k"
    "\<And>k. NDIRECT < n \<Longrightarrow> k < n \<Longrightarrow> bno im d k \<noteq> d_addrs d NDIRECT"
    "\<And>k. n \<le> k \<Longrightarrow> k < NDIRECT \<Longrightarrow> d_addrs d k = 0" "n \<le> NDIRECT \<Longrightarrow> d_addrs d NDIRECT = 0" "\<And>k. NDIRECT < k \<Longrightarrow> d_addrs d k = 0"
    "\<And>k. NDIRECT < n \<Longrightarrow> n \<le> k \<Longrightarrow> k < MAXFILE \<Longrightarrow> bno im d k = 0"
  shows "blocks_ok im fb d n"
  using assms unfolding blocks_ok_def owned_def by (auto intro: inj_onI)

lemma nmeta_pos: "0 < nmeta" "nmeta < FSSIZE"
  by (simp_all add: nmeta_def nlog_def ninodeblocks_def nbitmap_def FSSIZE_def NINODES_def BSIZE_def IPB_def LOGSIZE_def MAXOPBLOCKS_def)

text \<open>One more block \<open>y\<close>, taken from the free ones.\<close>

lemma blocks_ok_Suc:
  assumes ok: "blocks_ok im fb d n" and n: "n < MAXFILE" and same: "\<And>j. j < n \<Longrightarrow> bno im' d' j = bno im d j"
    and y: "fb \<le> unat (bno im' d' n)" "unat (bno im' d' n) < fb'" and fb: "nmeta \<le> fb"
    and ind: "NDIRECT < n \<Longrightarrow> d_addrs d' NDIRECT = d_addrs d NDIRECT"
    and new: "NDIRECT = n \<Longrightarrow> unat (d_addrs d' NDIRECT) = fb \<and> fb < unat (bno im' d' n)"
    and z: "\<And>k. n < k \<Longrightarrow> k < NDIRECT \<Longrightarrow> d_addrs d' k = 0" "n < NDIRECT \<Longrightarrow> d_addrs d' NDIRECT = 0"
      "\<And>k. NDIRECT < k \<Longrightarrow> d_addrs d' k = 0" "\<And>k. NDIRECT \<le> n \<Longrightarrow> n < k \<Longrightarrow> k < MAXFILE \<Longrightarrow> bno im' d' k = 0"
  shows "blocks_ok im' fb' d' (Suc n)"
proof (rule blocks_okI)
  note D = blocks_okD[OF ok]
  show "nmeta \<le> unat (bno im' d' k) \<and> unat (bno im' d' k) < fb'" if "k < Suc n" for k
    using D(2)[of k] same[of k] y fb that by (cases "k = n") auto
  show "nmeta \<le> unat (d_addrs d' NDIRECT) \<and> unat (d_addrs d' NDIRECT) < fb'" if "NDIRECT < Suc n"
    using D(3) ind new y fb that by (cases "NDIRECT = n") auto
  have old: "bno im' d' j \<noteq> bno im' d' n" if "j < n" for j using D(2)[of j] same[of j] y that by auto
  show "j = k" if "j < Suc n" "k < Suc n" "bno im' d' j = bno im' d' k" for j k
    using D(4)[of j k] same[of j] same[of k] old[of j] old[of k] that unfolding less_Suc_eq by metis
  show "bno im' d' k \<noteq> d_addrs d' NDIRECT" if "NDIRECT < Suc n" "k < Suc n" for k
  proof (cases "NDIRECT = n")
    case True then show ?thesis using D(2)[of k] same[of k] new that by (cases "k = n") auto
  next
    case False
    then show ?thesis using D(2)[of k] D(3) D(5)[of k] same[of k] ind y that by (cases "k = n") auto
  qed
  show "d_addrs d' NDIRECT = 0" if "Suc n \<le> NDIRECT" using z(2) that by simp
  show "Suc n \<le> MAXFILE" using n by simp
  show "d_addrs d' k = 0" if "Suc n \<le> k" "k < NDIRECT" for k using z(1) that by simp
  show "d_addrs d' k = 0" if "NDIRECT < k" for k using z(3) that by simp
  show "bno im' d' k = 0" if "NDIRECT < Suc n" "Suc n \<le> k" "k < MAXFILE" for k using z(4) that by simp
qed

definition need :: "nat \<Rightarrow> nat" where
  "need n = n + (if NDIRECT < n then 1 else 0)"

definition zero_above :: "uint8 list list \<Rightarrow> nat \<Rightarrow> bool" where
  "zero_above im fb \<longleftrightarrow> (\<forall>b. fb \<le> b \<and> b < FSSIZE \<longrightarrow> im ! b = zeroes)"

text \<open>The image while files are written to it.\<close>

definition room_ok :: "mkst \<Rightarrow> bool" where
  "room_ok s \<longleftrightarrow> img_ok (img s) \<and> zero_above (img s) (unat (freeblock s)) \<and> nmeta \<le> unat (freeblock s) \<and> unat (freeblock s) \<le> FSSIZE"

lemma data_Suc: "data im d (Suc n) = data im d n @ im ! unat (bno im d n)"
  by (simp add: data_def)

lemma data_cong:
  "(\<And>j. j < n \<Longrightarrow> im' ! unat (bno im' d' j) = im ! unat (bno im d j)) \<Longrightarrow> data im' d' n = data im d n"
  unfolding data_def by (rule arg_cong[where f = concat]) simp

lemma length_zeroes [simp]: "length zeroes = BSIZE"
  by (simp add: zeroes_def)

lemma get32_zeroes [simp]: "off + 4 \<le> BSIZE \<Longrightarrow> get32 off zeroes = 0"
  by (simp add: get32_def get_bytes_def zeroes_def numeral_eq_Suc)

lemma unat_Suc_small: "unat (x :: uint) < FSSIZE \<Longrightarrow> unat (x + 1) = Suc (unat x)"
  by (simp add: FSSIZE_def unat_word_ariths(1))

text \<open>What making one more block does to the image \<open>s\<close> and the inode \<open>d\<close>.\<close>

definition grown :: "mkst \<Rightarrow> dinode \<Rightarrow> nat \<Rightarrow> mkst \<Rightarrow> dinode \<Rightarrow> bool" where
  "grown s d n s' d' \<longleftrightarrow> room_ok s' \<and> unat (freeblock s') + need n = unat (freeblock s) + need (Suc n) \<and>
     blocks_ok (img s') (unat (freeblock s')) d' (Suc n) \<and> data (img s') d' (Suc n) = data (img s) d n @ zeroes \<and>
     (\<forall>b < unat (freeblock s). b \<notin> owned (img s) d n \<longrightarrow> img s' ! b = img s ! b) \<and> freeinode s' = freeinode s \<and>
     owned (img s') d' (Suc n) \<subseteq> owned (img s) d n \<union> {unat (freeblock s)..<unat (freeblock s')} \<and>
     (\<exists>a. d' = d\<lparr>d_addrs := a\<rparr>)"

lemma file_block_direct:
  assumes s: "room_ok s" and ok: "blocks_ok (img s) (unat (freeblock s)) d n" and n: "n < NDIRECT"
    and room: "unat (freeblock s) + need (Suc n) \<le> FSSIZE + need n"
  shows "\<exists>d' s'. file_block n d s = Inr (bno (img s') d' n, d', s') \<and> grown s d n s' d'"
proof -
  let ?s = "s\<lparr>freeblock := freeblock s + 1\<rparr>" and ?d = "d\<lparr>d_addrs := (d_addrs d)(n := freeblock s)\<rparr>"
  note D = blocks_okD[OF ok]
  have fb: "unat (freeblock s) < FSSIZE" using room n by (simp add: need_def)
  have sm: "bno (img s) ?d j = bno (img s) d j" if "j \<noteq> n" for j using that n by (simp add: bno_def)
  have bn: "bno (img s) ?d n = freeblock s" using n by (simp add: bno_def)
  have "file_block n d s = Inr (bno (img ?s) ?d n, ?d, ?s)"
    using n D(6)[of n] by (simp add: file_block_def take_block_def bno_def Let_def)
  moreover have "blocks_ok (img s) (Suc (unat (freeblock s))) ?d (Suc n)"
    using s n bn sm D(6,7,8) by (intro blocks_ok_Suc[OF ok]) (auto simp: room_ok_def MAXFILE_def)
  moreover have "data (img s) ?d (Suc n) = data (img s) d n @ zeroes"
    using s fb bn sm by (auto simp: data_Suc room_ok_def zero_above_def intro: data_cong)
  moreover have "owned (img s) ?d (Suc n) \<subseteq> owned (img s) d n \<union> {unat (freeblock s)..<Suc (unat (freeblock s))}"
    using n bn sm by (auto simp: owned_def less_Suc_eq)
  ultimately show ?thesis using s n fb unat_Suc_small[OF fb]
    by (intro exI[of _ ?d] exI[of _ ?s]) (auto simp: grown_def room_ok_def zero_above_def need_def)
qed

text \<open>A new entry of the indirect block.\<close>

lemma get32_entry:
  assumes "length b = BSIZE" "NDIRECT \<le> n" "n < MAXFILE" "NDIRECT \<le> k" "k < MAXFILE"
  shows "get32 (4 * (k - NDIRECT)) (put32 (4 * (n - NDIRECT)) x b) = (if k = n then x else get32 (4 * (k - NDIRECT)) b)"
proof (cases "k = n")
  case False
  then have "4 * (k - NDIRECT) + 4 \<le> 4 * (n - NDIRECT) \<or> 4 * (n - NDIRECT) + 4 \<le> 4 * (k - NDIRECT)" using assms by linarith
  then show ?thesis using False assms get32_put32_other[of "4 * (n - NDIRECT)" b "4 * (k - NDIRECT)"]
    by (simp add: MAXFILE_def NINDIRECT_def BSIZE_def)
qed (use assms in \<open>simp add: MAXFILE_def NINDIRECT_def BSIZE_def\<close>)

lemma indirect_entry:
  assumes s: "room_ok s" and ok: "blocks_ok (img s) (unat (freeblock s)) d n" and n: "NDIRECT < n" "n < MAXFILE"
  shows "bno ((img s)[unat (d_addrs d NDIRECT) := put32 (4 * (n - NDIRECT)) x (img s ! unat (d_addrs d NDIRECT))]) d k =
    (if k = n then x else if k < MAXFILE then bno (img s) d k else
     bno ((img s)[unat (d_addrs d NDIRECT) := put32 (4 * (n - NDIRECT)) x (img s ! unat (d_addrs d NDIRECT))]) d k)"
proof -
  have "unat (d_addrs d NDIRECT) < FSSIZE" using blocks_okD(3)[OF ok] n s by (simp add: room_ok_def)
  then show ?thesis using s n
    by (simp add: bno_def get32_entry room_ok_def img_ok_nth img_ok_def[THEN iffD1, THEN conjunct1])
qed

lemma file_block_indirect:
  assumes s: "room_ok s" and ok: "blocks_ok (img s) (unat (freeblock s)) d n" and n: "NDIRECT < n" "n < MAXFILE"
    and room: "unat (freeblock s) + need (Suc n) \<le> FSSIZE + need n"
  shows "\<exists>d' s'. file_block n d s = Inr (bno (img s') d' n, d', s') \<and> grown s d n s' d'"
proof -
  let ?i = "unat (d_addrs d NDIRECT)" and ?x = "freeblock s"
  let ?im = "(img s)[?i := put32 (4 * (n - NDIRECT)) ?x (img s ! ?i)]"
  let ?s = "s\<lparr>freeblock := freeblock s + 1, img := ?im\<rparr>"
  note D = blocks_okD[OF ok]
  have fb: "unat ?x < FSSIZE" using room n by (simp add: need_def)
  have i: "?i < FSSIZE" "nmeta \<le> ?i" "?i < unat ?x" "length (img s ! ?i) = BSIZE" "length (img s) = FSSIZE"
    using D(3) n s fb by (auto simp: room_ok_def img_ok_def)
  have i0: "d_addrs d NDIRECT \<noteq> 0" using i(2) nmeta_pos by auto
  note E = indirect_entry[OF s ok n, of ?x]
  have j: "4 * (n - NDIRECT) + 4 \<le> BSIZE" using n by (simp add: MAXFILE_def NINDIRECT_def BSIZE_def)
  have z: "get32 (4 * (n - NDIRECT)) (img s ! ?i) = 0" using D(9)[of n] n by (simp add: bno_def)
  have bn: "bno ?im d n = ?x" by (simp add: E)
  have sm: "bno ?im d k = bno (img s) d k" if "k \<noteq> n" "k < MAXFILE" for k using that E[of k] by simp
  have "file_block n d s = Inr (bno (img ?s) d n, d, ?s)"
    using n i0 i j z s bn by (simp add: file_block_def take_block_def Let_def rsect_eq wsect_eq room_ok_def)
  moreover have "blocks_ok ?im (Suc (unat ?x)) d (Suc n)"
    using s n bn sm D(6,7,8,9) by (intro blocks_ok_Suc[OF ok]) (auto simp: room_ok_def)
  moreover have "data ?im d (Suc n) = data (img s) d n @ zeroes"
  proof -
    have "?im ! unat (bno ?im d k) = img s ! unat (bno (img s) d k)" if "k < n" for k
      using D(5)[of k, THEN not_sym] n that by (simp add: sm word_unat_eq_iff)
    moreover have "?im ! unat ?x = zeroes" using s i fb by (simp add: room_ok_def zero_above_def)
    ultimately show ?thesis by (auto simp: data_Suc bn intro: data_cong)
  qed
  moreover have "owned ?im d (Suc n) \<subseteq> owned (img s) d n \<union> {unat ?x..<Suc (unat ?x)}"
    using n bn sm by (auto simp: owned_def less_Suc_eq)
  moreover have "?im ! b = img s ! b" if "b \<notin> owned (img s) d n" for b
    using that n by (auto simp: owned_def)
  ultimately show ?thesis using s n fb j i unat_Suc_small[OF fb]
    by (intro exI[of _ d] exI[of _ ?s]) (auto simp: grown_def room_ok_def zero_above_def need_def intro!: img_ok_update exI[of _ "d_addrs d"])
qed

lemma file_block_first_indirect:
  assumes s: "room_ok s" and ok: "blocks_ok (img s) (unat (freeblock s)) d NDIRECT"
    and room: "unat (freeblock s) + need (Suc NDIRECT) \<le> FSSIZE + need NDIRECT"
  shows "\<exists>d' s'. file_block NDIRECT d s = Inr (bno (img s') d' NDIRECT, d', s') \<and> grown s d NDIRECT s' d'"
proof -
  let ?f = "freeblock s"
  let ?d = "d\<lparr>d_addrs := (d_addrs d)(NDIRECT := ?f)\<rparr>" and ?im = "(img s)[unat ?f := put32 0 (?f + 1) zeroes]"
  let ?s = "s\<lparr>freeblock := ?f + 1 + 1, img := ?im\<rparr>"
  note D = blocks_okD[OF ok]
  have fb: "unat ?f < FSSIZE" "Suc (unat ?f) < FSSIZE" using room by (simp_all add: need_def)
  have u: "unat (?f + 1) = Suc (unat ?f)" "unat (?f + 1 + 1) = Suc (Suc (unat ?f))"
    using unat_Suc_small[of ?f] unat_Suc_small[of "?f + 1"] fb by simp_all
  have f: "?f \<noteq> 0" "nmeta \<le> unat ?f" using s nmeta_pos by (auto simp: room_ok_def)
  have im: "img s ! unat ?f = zeroes" "img s ! Suc (unat ?f) = zeroes" "length (img s) = FSSIZE"
    using s fb by (simp_all add: room_ok_def zero_above_def img_ok_def)
  have four: "4 \<le> BSIZE" by (simp add: BSIZE_def)
  have bn: "bno ?im ?d NDIRECT = ?f + 1" using im fb four by (simp add: bno_def)
  have sm: "bno ?im ?d k = bno (img s) d k" if "k < NDIRECT" for k using that by (simp add: bno_def)
  have z: "bno ?im ?d k = 0" if "NDIRECT < k" "k < MAXFILE" for k
    using that im fb get32_entry[of zeroes NDIRECT k "?f + 1"] by (simp add: bno_def MAXFILE_def NINDIRECT_def BSIZE_def)
  have "file_block NDIRECT d s = Inr (bno (img ?s) ?d NDIRECT, ?d, ?s)"
    using D(7) im fb f four bn s by (simp add: file_block_def take_block_def Let_def rsect_eq wsect_eq room_ok_def)
  moreover have "blocks_ok ?im (Suc (Suc (unat ?f))) ?d (Suc NDIRECT)"
    using f bn sm u z D(8) by (intro blocks_ok_Suc[OF ok]) (auto simp: MAXFILE_def NINDIRECT_def BSIZE_def)
  moreover have "data ?im ?d (Suc NDIRECT) = data (img s) d NDIRECT @ zeroes"
  proof -
    have "?im ! unat (bno ?im ?d k) = img s ! unat (bno (img s) d k)" if "k < NDIRECT" for k
      using D(2)[of k] that by (simp add: sm)
    then show ?thesis using im u by (auto simp: data_Suc bn intro: data_cong)
  qed
  moreover have "owned ?im ?d (Suc NDIRECT) \<subseteq> owned (img s) d NDIRECT \<union> {unat ?f..<Suc (Suc (unat ?f))}"
    using bn sm u by (auto simp: owned_def less_Suc_eq)
  ultimately show ?thesis using s fb four u unfolding grown_def
    by (intro exI[of _ ?d] exI[of _ ?s]) (auto simp: room_ok_def zero_above_def need_def intro!: img_ok_update)
qed

lemma file_block_new:
  assumes "room_ok s" "blocks_ok (img s) (unat (freeblock s)) d n" "n < MAXFILE"
    "unat (freeblock s) + need (Suc n) \<le> FSSIZE + need n"
  shows "\<exists>d' s'. file_block n d s = Inr (bno (img s') d' n, d', s') \<and> grown s d n s' d'"
  using assms file_block_direct file_block_first_indirect file_block_indirect by (metis linorder_neqE_nat)

lemma file_block_old:
  assumes s: "room_ok s" and ok: "blocks_ok (img s) (unat (freeblock s)) d n" and k: "k < n"
  shows "file_block k d s = Inr (bno (img s) d k, d, s)"
proof -
  note D = blocks_okD[OF ok]
  have b: "bno (img s) d k \<noteq> 0" using D(2)[of k] k nmeta_pos by auto
  show ?thesis
  proof (cases "k < NDIRECT")
    case True then show ?thesis using b by (simp add: file_block_def bno_def)
  next
    case False
    then have "d_addrs d NDIRECT \<noteq> 0" "unat (d_addrs d NDIRECT) < FSSIZE"
      using D(3) k nmeta_pos s by (auto simp: room_ok_def)
    then show ?thesis using False b s by (simp add: file_block_def bno_def rsect_eq room_ok_def Let_def)
  qed
qed

text \<open>Writing to a data block.\<close>

lemma bno_write:
  assumes ok: "blocks_ok im fb d n" and k: "k < n"
  shows "bno (im[unat (bno im d k) := b]) d j = bno im d j"
proof -
  note D = blocks_okD[OF ok]
  have "unat (bno im d k) \<noteq> unat (d_addrs d NDIRECT)"
    using D(2)[of k] D(5)[of k] D(7) k nmeta_pos by (cases "NDIRECT < n") (auto simp: word_unat_eq_iff)
  then show ?thesis by (simp add: bno_def)
qed

lemma blocks_ok_cong: "(\<And>k. bno im' d k = bno im d k) \<Longrightarrow> blocks_ok im' fb d n = blocks_ok im fb d n"
  by (simp add: blocks_ok_def owned_def inj_on_def)

lemma data_write:
  assumes ok: "blocks_ok im fb d n" and k: "k < n" and fb: "fb \<le> length im"
  shows "data (im[unat (bno im d k) := b]) d n = concat ((map (\<lambda>k. im ! unat (bno im d k)) [0..<n])[k := b])"
proof -
  note D = blocks_okD[OF ok]
  have "im[unat (bno im d k) := b] ! unat (bno im d j) = (if j = k then b else im ! unat (bno im d j))" if "j < n" for j
    using D(2)[of k] D(4)[of j k] k that fb by (auto simp: nth_list_update word_unat_eq_iff)
  then have "map (\<lambda>j. im[unat (bno im d k) := b] ! unat (bno im d j)) [0..<n] = (map (\<lambda>k. im ! unat (bno im d k)) [0..<n])[k := b]"
    by (auto intro: nth_equalityI simp: nth_list_update)
  then show ?thesis by (simp add: data_def bno_write[OF ok k])
qed

text \<open>Bytes of a block are bytes of the concatenation.\<close>

lemma concat_put_bytes:
  assumes "\<forall>b \<in> set bs. length b = B" "k < length bs" "off + length v \<le> B"
  shows "concat (bs[k := put_bytes off v (bs ! k)]) = put_bytes (k * B + off) v (concat bs)"
  using assms
proof (induction bs arbitrary: k)
  case (Cons b bs)
  show ?case
  proof (cases k)
    case 0 with Cons.prems show ?thesis by (simp add: put_bytes_def)
  next
    case (Suc j) with Cons show ?thesis by (simp add: put_bytes_def add.assoc)
  qed
qed simp

lemma take_put_bytes: "off \<le> length bs \<Longrightarrow> m = off + length v \<Longrightarrow> take m (put_bytes off v bs) = take off bs @ v"
  by (simp add: put_bytes_def)

section \<open>Appending\<close>

definition extended :: "mkst \<Rightarrow> dinode \<Rightarrow> nat \<Rightarrow> mkst \<Rightarrow> dinode \<Rightarrow> nat \<Rightarrow> bool" where
  "extended s d n s' d' n' \<longleftrightarrow> room_ok s' \<and> blocks_ok (img s') (unat (freeblock s')) d' n' \<and>
     unat (freeblock s) \<le> unat (freeblock s') \<and> unat (freeblock s') + need n = unat (freeblock s) + need n' \<and>
     (\<forall>b < unat (freeblock s). b \<notin> owned (img s) d n \<longrightarrow> img s' ! b = img s ! b) \<and> freeinode s' = freeinode s \<and>
     owned (img s') d' n' \<subseteq> owned (img s) d n \<union> {unat (freeblock s)..<unat (freeblock s')} \<and>
     (\<exists>a. d' = d\<lparr>d_addrs := a\<rparr>)"

lemma extended_refl: "room_ok s \<Longrightarrow> blocks_ok (img s) (unat (freeblock s)) d n \<Longrightarrow> extended s d n s d n"
  by (auto simp: extended_def intro: exI[of _ "d_addrs d"])

lemma extended_trans:
  assumes a: "extended s d n s' d' n'" and b: "extended s' d' n' s'' d'' n''"
  shows "extended s d n s'' d'' n''"
proof -
  have "img s'' ! x = img s ! x" if "x < unat (freeblock s)" "x \<notin> owned (img s) d n" for x
  proof -
    have "x < unat (freeblock s')" "x \<notin> owned (img s') d' n'" using a that by (auto simp: extended_def)
    then show ?thesis using a b that by (simp add: extended_def)
  qed
  moreover have "owned (img s'') d'' n'' \<subseteq> owned (img s) d n \<union> {unat (freeblock s)..<unat (freeblock s'')}"
    using a b unfolding extended_def by fastforce
  ultimately show ?thesis using a b unfolding extended_def by auto
qed

lemma grown_extended: "grown s d n s' d' \<Longrightarrow> extended s d n s' d' (Suc n)"
  by (auto simp: grown_def extended_def need_def split: if_splits)

lemma length_data:
  assumes "room_ok s" "blocks_ok (img s) (unat (freeblock s)) d n" "m \<le> n"
  shows "length (data (img s) d m) = m * BSIZE"
  using assms(3)
proof (induction m)
  case (Suc m)
  then have "unat (bno (img s) d m) < FSSIZE" using assms blocks_okD(2)[OF assms(2), of m] by (simp add: room_ok_def)
  with Suc assms(1) show ?case by (simp add: data_Suc img_ok_nth room_ok_def)
qed (simp add: data_def)

lemma write_block:
  assumes s: "room_ok s" and ok: "blocks_ok (img s) (unat (freeblock s)) d n" and k: "k < n" and v: "off + length v \<le> BSIZE"
  defines "s' \<equiv> wsect (bno (img s) d k) (put_bytes off v (img s ! unat (bno (img s) d k))) s"
  shows "extended s d n s' d n" "data (img s') d n = put_bytes (k * BSIZE + off) v (data (img s) d n)"
proof -
  let ?x = "unat (bno (img s) d k)"
  note D = blocks_okD[OF ok]
  have x: "?x < FSSIZE" "?x < unat (freeblock s)" "length (img s ! ?x) = BSIZE" "length (img s) = FSSIZE"
    using D(2)[OF k] s by (auto simp: room_ok_def img_ok_def)
  have s': "s' = s\<lparr>img := (img s)[?x := put_bytes off v (img s ! ?x)]\<rparr>"
    using s x by (simp add: s'_def wsect_eq room_ok_def)
  have bn: "bno (img s') d j = bno (img s) d j" for j by (simp add: s' bno_write[OF ok k])
  have ow: "owned (img s') d n = owned (img s) d n" by (simp add: owned_def bn)
  have "?x \<in> owned (img s) d n" using k by (auto simp: owned_def)
  moreover have "room_ok s'" using s x v by (auto simp: s' room_ok_def zero_above_def intro!: img_ok_update)
  moreover have "blocks_ok (img s') (unat (freeblock s')) d n" using ok blocks_ok_cong[of "img s'" d "img s"] bn by (simp add: s')
  moreover have "img s' ! b = img s ! b" if "b \<noteq> ?x" for b using that by (simp add: s')
  moreover have "\<exists>a. d = d\<lparr>d_addrs := a\<rparr>" by (rule exI[of _ "d_addrs d"]) simp
  moreover have "freeblock s' = freeblock s" "freeinode s' = freeinode s" by (simp_all add: s')
  ultimately show "extended s d n s' d n" unfolding extended_def ow by (metis order_refl sup.cobounded1)
  have "\<forall>b \<in> set (map (\<lambda>k. img s ! unat (bno (img s) d k)) [0..<n]). length b = BSIZE"
  proof -
    have "length (img s ! unat (bno (img s) d j)) = BSIZE" if "j < n" for j
      using D(2)[OF that] s by (auto simp: room_ok_def intro!: img_ok_nth)
    then show ?thesis by simp
  qed
  from concat_put_bytes[OF this, of k off v] show "data (img s') d n = put_bytes (k * BSIZE + off) v (data (img s) d n)"
    using data_write[OF ok k, of "put_bytes off v (img s ! ?x)"] k v s x by (simp add: s' room_ok_def data_def)
qed

text \<open>The block to write to, for a file of \<open>sz\<close> bytes.\<close>

lemma blocks_of_part: "0 < r \<Longrightarrow> r \<le> BSIZE \<Longrightarrow> blocks_of (q * BSIZE + r) = Suc q"
  unfolding blocks_of_def by (rule div_nat_eqI) (auto simp: BSIZE_def)

lemma blocks_of_whole: "blocks_of (q * BSIZE) = q"
  unfolding blocks_of_def by (rule div_nat_eqI) (auto simp: BSIZE_def)

definition padded :: "nat \<Rightarrow> uint8 list \<Rightarrow> uint8 list" where
  "padded n c = c @ replicate (n * BSIZE - length c) 0"

lemma padded_Suc: "length c = n * BSIZE \<Longrightarrow> padded n c @ zeroes = padded (Suc n) c"
  by (simp add: padded_def zeroes_def)

lemma padded_put: "length c + length v \<le> n * BSIZE \<Longrightarrow> put_bytes (length c) v (padded n c) = padded n (c @ v)"
  by (simp add: padded_def put_bytes_def)

lemma take_padded [simp]: "take (length c) (padded n c) = c"
  by (simp add: padded_def)

lemma file_block_at:
  assumes s: "room_ok s" and ok: "blocks_ok (img s) (unat (freeblock s)) d (blocks_of sz)" and m: "sz div BSIZE < MAXFILE"
    and room: "unat (freeblock s) + need (Suc (sz div BSIZE)) \<le> FSSIZE + need (blocks_of sz)"
    and c: "length c = sz" "data (img s) d (blocks_of sz) = padded (blocks_of sz) c"
  shows "\<exists>d' s'. file_block (sz div BSIZE) d s = Inr (bno (img s') d' (sz div BSIZE), d', s') \<and>
    extended s d (blocks_of sz) s' d' (Suc (sz div BSIZE)) \<and>
    data (img s') d' (Suc (sz div BSIZE)) = padded (Suc (sz div BSIZE)) c"
proof (cases "sz mod BSIZE = 0")
  case True
  then have q: "sz div BSIZE * BSIZE = sz" using div_mult_mod_eq[of sz BSIZE] by simp
  have b: "blocks_of sz = sz div BSIZE" using blocks_of_whole[of "sz div BSIZE"] q by simp
  obtain d' s' where "file_block (sz div BSIZE) d s = Inr (bno (img s') d' (sz div BSIZE), d', s')" "grown s d (sz div BSIZE) s' d'"
    using file_block_new[OF s ok[unfolded b] m] room b by auto
  moreover from this have "data (img s') d' (Suc (sz div BSIZE)) = data (img s) d (sz div BSIZE) @ zeroes" by (simp add: grown_def)
  ultimately show ?thesis using c q padded_Suc[of c "sz div BSIZE"] unfolding b by (auto dest: grown_extended)
next
  case False
  then have b: "blocks_of sz = Suc (sz div BSIZE)"
    using blocks_of_part[of "sz mod BSIZE" "sz div BSIZE"] by (simp add: BSIZE_def)
  show ?thesis using file_block_old[OF s ok, of "sz div BSIZE"] extended_refl[OF s ok] b c by auto
qed

lemma blocks_of_mono: "m \<le> n \<Longrightarrow> blocks_of m \<le> blocks_of n"
  by (simp add: blocks_of_def div_le_mono)

lemma need_mono: "m \<le> n \<Longrightarrow> need m \<le> need n"
  by (simp add: need_def)

lemma unat_add_small: "unat (off :: uint) + n \<le> MAXFILE * BSIZE \<Longrightarrow> unat (off + of_nat n) = unat off + n"
  by (simp add: unat_word_ariths(1) unat_of_nat MAXFILE_def NDIRECT_def NINDIRECT_def BSIZE_def)

text \<open>The part of the data that goes to the block at \<open>off\<close>.\<close>

lemma part_bounds:
  fixes off :: nat
  assumes "p \<noteq> []"
  defines "k \<equiv> off div BSIZE" and "n1 \<equiv> min (length p) ((off div BSIZE + 1) * BSIZE - off)"
  shows "blocks_of (off + n1) = Suc k" "off - k * BSIZE + n1 \<le> BSIZE" "k * BSIZE \<le> off" "n1 \<le> length p"
    "n1 < length p \<Longrightarrow> off + n1 = Suc k * BSIZE"
proof -
  have off: "off = k * BSIZE + off mod BSIZE" "off mod BSIZE < BSIZE" by (simp_all add: k_def BSIZE_def)
  have n1: "n1 = min (length p) (BSIZE - off mod BSIZE)" using off(1) by (simp add: n1_def k_def[symmetric] algebra_simps)
  show "blocks_of (off + n1) = Suc k"
    using blocks_of_part[of "off mod BSIZE + n1" k] off assms(1) n1 by (simp add: add.assoc[symmetric])
  show "off - k * BSIZE + n1 \<le> BSIZE" "k * BSIZE \<le> off" "n1 \<le> length p" "n1 < length p \<Longrightarrow> off + n1 = Suc k * BSIZE"
    using off n1 by auto
qed

lemma iappend_loop_step:
  fixes off :: uint
  assumes s: "room_ok s" and ok: "blocks_ok (img s) (unat (freeblock s)) d (blocks_of (unat off))" and p: "p \<noteq> []"
    and m: "unat off + length p \<le> MAXFILE * BSIZE"
    and room: "unat (freeblock s) + need (blocks_of (unat off + length p)) \<le> FSSIZE + need (blocks_of (unat off))"
    and c: "length c = unat off" "data (img s) d (blocks_of (unat off)) = padded (blocks_of (unat off)) c"
  defines "n1 \<equiv> min (length p) ((unat off div BSIZE + 1) * BSIZE - unat off)"
  shows "\<exists>d' s'. iappend_loop p off d s = iappend_loop (drop n1 p) (off + of_nat n1) d' s' \<and>
    extended s d (blocks_of (unat off)) s' d' (blocks_of (unat off + n1)) \<and>
    data (img s') d' (blocks_of (unat off + n1)) = padded (blocks_of (unat off + n1)) (c @ take n1 p)"
proof -
  let ?k = "unat off div BSIZE"
  note B = part_bounds[OF p, of "unat off", folded n1_def]
  have "Suc ?k \<le> blocks_of (unat off + length p)" using B(1,4) blocks_of_mono[of "unat off + n1" "unat off + length p"] by simp
  then have t: "unat (freeblock s) + need (Suc ?k) \<le> FSSIZE + need (blocks_of (unat off))"
    using room need_mono[of "Suc ?k" "blocks_of (unat off + length p)"] by linarith
  have k: "?k < MAXFILE" using m p by (intro less_mult_imp_div_less) (auto simp: neq_Nil_conv)
  obtain d' s1 where fb: "file_block ?k d s = Inr (bno (img s1) d' ?k, d', s1)"
    and e: "extended s d (blocks_of (unat off)) s1 d' (Suc ?k)" and t1: "data (img s1) d' (Suc ?k) = padded (Suc ?k) c"
    using file_block_at[OF s ok k t c] by blast
  have s1: "room_ok s1" and ok1: "blocks_ok (img s1) (unat (freeblock s1)) d' (Suc ?k)" using e by (simp_all add: extended_def)
  let ?x = "bno (img s1) d' ?k"
  let ?s' = "wsect ?x (put_bytes (unat off - ?k * BSIZE) (take n1 p) (img s1 ! unat ?x)) s1"
  have x: "rsect ?x s1 = Inr (img s1 ! unat ?x)"
    using blocks_okD(2)[OF ok1, of ?k] s1 by (intro rsect_eq) (auto simp: room_ok_def)
  note W = write_block[OF s1 ok1, of ?k "unat off - ?k * BSIZE" "take n1 p"]
  have "iappend_loop p off d s = iappend_loop (drop n1 p) (off + of_nat n1) d' ?s'"
    using p k fb x by (subst iappend_loop.simps) (simp add: Let_def n1_def)
  moreover have "extended s d (blocks_of (unat off)) ?s' d' (Suc ?k)"
    using extended_trans[OF e W(1)] B by simp
  moreover have "data (img ?s') d' (Suc ?k) = padded (Suc ?k) (c @ take n1 p)"
    using W(2) B t1 c padded_put[of c "take n1 p" "Suc ?k"] by simp
  ultimately show ?thesis using B(1) by auto
qed

lemma iappend_loop_appends:
  assumes "room_ok s" "blocks_ok (img s) (unat (freeblock s)) d (blocks_of (unat off))" "unat off + length p \<le> MAXFILE * BSIZE"
    "unat (freeblock s) + need (blocks_of (unat off + length p)) \<le> FSSIZE + need (blocks_of (unat off))"
    "length c = unat off" "data (img s) d (blocks_of (unat off)) = padded (blocks_of (unat off)) c"
  shows "\<exists>d' s'. iappend_loop p off d s = Inr (off + of_nat (length p), d', s') \<and>
    extended s d (blocks_of (unat off)) s' d' (blocks_of (unat off + length p)) \<and>
    data (img s') d' (blocks_of (unat off + length p)) = padded (blocks_of (unat off + length p)) (c @ p)"
  using assms
proof (induction "length p" arbitrary: p off d s c rule: less_induct)
  case less
  show ?case
  proof (cases "p = []")
    case True
    then show ?thesis using extended_refl less.prems by (subst iappend_loop.simps) auto
  next
    case False
    define n1 where "n1 = min (length p) ((unat off div BSIZE + 1) * BSIZE - unat off)"
    note B = part_bounds[OF False, of "unat off", folded n1_def]
    have n1: "0 < n1" using False B(1,3) by (simp add: n1_def BSIZE_def)
    obtain d1 s1 where l: "iappend_loop p off d s = iappend_loop (drop n1 p) (off + of_nat n1) d1 s1"
      and e: "extended s d (blocks_of (unat off)) s1 d1 (blocks_of (unat off + n1))"
      and t: "data (img s1) d1 (blocks_of (unat off + n1)) = padded (blocks_of (unat off + n1)) (c @ take n1 p)"
      using iappend_loop_step[OF less.prems(1,2) False less.prems(3-6)] unfolding n1_def by blast
    have u: "unat (off + of_nat n1) = unat off + n1" "unat off + n1 + length (drop n1 p) = unat off + length p"
      using less.prems(3) B(4) unat_add_small[of off n1] by auto
    have a: "off + of_nat n1 + of_nat (length (drop n1 p)) = off + of_nat (length p)" using B(4) by (simp add: of_nat_diff)
    have r: "unat (freeblock s1) + need (blocks_of (unat off)) = unat (freeblock s) + need (blocks_of (unat off + n1))"
      "room_ok s1" "blocks_ok (img s1) (unat (freeblock s1)) d1 (blocks_of (unat off + n1))"
      using e by (simp_all add: extended_def)
    have "length (drop n1 p) < length p" using n1 False by simp
    from less.hyps[OF this, where off = "off + of_nat n1" and d = d1 and s = s1 and c = "c @ take n1 p", unfolded u a]
    obtain d' s' where "iappend_loop (drop n1 p) (off + of_nat n1) d1 s1 = Inr (off + of_nat (length p), d', s')"
      "extended s1 d1 (blocks_of (unat off + n1)) s' d' (blocks_of (unat off + length p))"
      "data (img s') d' (blocks_of (unat off + length p)) = padded (blocks_of (unat off + length p)) (c @ p)"
      using r t B(4) less.prems(3-5) by auto
    then show ?thesis using l extended_trans[OF e] by auto
  qed
qed

section \<open>Inodes\<close>

definition node :: "mkst \<Rightarrow> uint \<Rightarrow> dinode" where
  "node s i = dinode_at (dinode_off i) (img s ! unat (IBLOCK i mk_sb))"

definition inode_as :: "inode \<Rightarrow> dinode" where
  "inode_as x = \<lparr>d_type = i_type x, d_major = i_major x, d_minor = i_minor x, d_nlink = i_nlink x, d_size = i_size x, d_addrs = i_addrs x\<rparr>"

lemma dinode_at_get: "dinode_at off bs = inode_as (dinode_get off bs (inode_of (d\<lparr>d_addrs := \<lambda>_. 0\<rparr>)))"
  by (simp add: dinode_at_def inode_as_def dinode_get_def inode_of_def cong: if_cong)

lemma dinode_at_put:
  assumes "off + 64 \<le> length bs" "\<forall>k > NDIRECT. d_addrs d k = 0"
  shows "dinode_at off (dinode_put off (inode_of d) bs) = d"
proof -
  have "(\<lambda>i. if i < NDIRECT + 1 then d_addrs d i else 0) = d_addrs d" using assms(2) by (auto simp: fun_eq_iff)
  then show ?thesis using assms(1)
    by (simp add: dinode_at_get[where d = d] dinode_get_put inode_as_def inode_of_def cong: if_cong)
qed

lemma dinode_at_put_other:
  "off + 64 \<le> length bs \<Longrightarrow> p + 64 \<le> length bs \<Longrightarrow> p + 64 \<le> off \<or> off + 64 \<le> p \<Longrightarrow>
    dinode_at p (dinode_put off x bs) = dinode_at p bs"
  by (simp only: dinode_at_get[where d = "undefined"] dinode_get_put_other)

definition inum_ok :: "uint \<Rightarrow> bool" where
  "inum_ok i \<longleftrightarrow> unat i < NINODES"

lemma iblock_unat:
  assumes "inum_ok i"
  shows "unat (IBLOCK i mk_sb) = 2 + nlog + unat i div IPB"
proof -
  have "unat i div 16 < 13" using assms by (simp add: inum_ok_def NINODES_def less_mult_imp_div_less)
  then show ?thesis
    by (simp add: IBLOCK_def mk_sb_def nlog_def LOGSIZE_def MAXOPBLOCKS_def IPB_def BSIZE_def unat_word_ariths(1) unat_div)
qed

lemma iblock_bounds:
  assumes "inum_ok i"
  shows "2 + nlog \<le> unat (IBLOCK i mk_sb)" "unat (IBLOCK i mk_sb) < 2 + nlog + ninodeblocks" "unat (IBLOCK i mk_sb) < nmeta"
    "unat (IBLOCK i mk_sb) < FSSIZE"
proof -
  have "unat i div IPB < ninodeblocks" using assms
    by (simp add: inum_ok_def ninodeblocks_def less_Suc_eq_le div_le_mono)
  then show "2 + nlog \<le> unat (IBLOCK i mk_sb)" "unat (IBLOCK i mk_sb) < 2 + nlog + ninodeblocks" "unat (IBLOCK i mk_sb) < nmeta"
    using iblock_unat[OF assms] by (auto simp: nmeta_def)
  then show "unat (IBLOCK i mk_sb) < FSSIZE" using nmeta_pos by linarith
qed

lemma dinode_off_inj:
  assumes "inum_ok i" "inum_ok j" "unat (IBLOCK i mk_sb) = unat (IBLOCK j mk_sb)" "i \<noteq> j"
  shows "dinode_off i \<noteq> dinode_off j"
proof
  assume "dinode_off i = dinode_off j"
  then have "unat i mod IPB = unat j mod IPB" by (simp add: dinode_off_def)
  moreover have "unat i div IPB = unat j div IPB" using assms by (simp add: iblock_unat)
  ultimately have "unat i = unat j" by (metis div_mult_mod_eq)
  with assms(4) show False by (simp add: word_unat_eq_iff)
qed

lemma winode_writes:
  assumes s: "img_ok (img s)" and i: "inum_ok i" and d: "\<forall>k > NDIRECT. d_addrs d k = 0"
  shows "\<exists>b. winode i d s = Inr (s\<lparr>img := (img s)[unat (IBLOCK i mk_sb) := b]\<rparr>) \<and> length b = BSIZE \<and>
    node (s\<lparr>img := (img s)[unat (IBLOCK i mk_sb) := b]\<rparr>) i = d \<and>
    (\<forall>j. inum_ok j \<and> j \<noteq> i \<longrightarrow> node (s\<lparr>img := (img s)[unat (IBLOCK i mk_sb) := b]\<rparr>) j = node s j)"
proof -
  let ?n = "unat (IBLOCK i mk_sb)"
  let ?b = "dinode_put (dinode_off i) (inode_of d) (img s ! ?n)"
  have n: "?n < FSSIZE" "length (img s ! ?n) = BSIZE" "length (img s) = FSSIZE"
    using iblock_bounds[OF i] s by (auto simp: img_ok_def)
  have l: "length ?b = BSIZE" using n dinode_off_bound[of i] by (simp add: length_dinode_put)
  have "winode i d s = Inr (s\<lparr>img := (img s)[?n := ?b]\<rparr>)"
    using s n by (simp add: winode_def rsect_eq wsect_eq Let_def)
  moreover have "node (s\<lparr>img := (img s)[?n := ?b]\<rparr>) i = d" using n d dinode_off_bound[of i] by (simp add: node_def dinode_at_put)
  moreover have "node (s\<lparr>img := (img s)[?n := ?b]\<rparr>) j = node s j" if "inum_ok j" "j \<noteq> i" for j
  proof (cases "unat (IBLOCK j mk_sb) = ?n")
    case True
    from dinode_off_inj[OF that(1) i this that(2), THEN not_sym] dinode_off_apart[of i j] show ?thesis
      using n dinode_off_bound[of i] dinode_off_bound[of j] True by (simp add: node_def dinode_at_put_other)
  qed (simp add: node_def)
  ultimately show ?thesis using l by blast
qed

lemma rinode_eq: "img_ok (img s) \<Longrightarrow> inum_ok i \<Longrightarrow> rinode i s = Inr (node s i)"
  by (simp add: rinode_def node_def rsect_eq iblock_bounds)

section \<open>Files\<close>

definition in_use :: "mkst \<Rightarrow> uint \<Rightarrow> bool" where
  "in_use s i \<longleftrightarrow> 0 < unat i \<and> unat i < unat (freeinode s)"

definition nblocks :: "mkst \<Rightarrow> uint \<Rightarrow> nat" where
  "nblocks s i = blocks_of (unat (d_size (node s i)))"

definition own :: "mkst \<Rightarrow> uint \<Rightarrow> nat set" where
  "own s i = owned (img s) (node s i) (nblocks s i)"

definition file_of :: "mkst \<Rightarrow> uint \<Rightarrow> uint8 list" where
  "file_of s i = contents (img s) (node s i)"

text \<open>
  No two files share a block; the blocks from \<open>freeblock\<close> on and the rest of the last block of a file are zero.
\<close>

definition files_ok :: "mkst \<Rightarrow> bool" where
  "files_ok s \<longleftrightarrow> room_ok s \<and> 0 < unat (freeinode s) \<and> unat (freeinode s) \<le> NINODES \<and>
     (\<forall>i. in_use s i \<longrightarrow> blocks_ok (img s) (unat (freeblock s)) (node s i) (nblocks s i) \<and>
        data (img s) (node s i) (nblocks s i) = padded (nblocks s i) (file_of s i)) \<and>
     (\<forall>i j. in_use s i \<and> in_use s j \<and> i \<noteq> j \<longrightarrow> own s i \<inter> own s j = {})"

lemma in_use_inum: "files_ok s \<Longrightarrow> in_use s i \<Longrightarrow> inum_ok i"
  by (simp add: files_ok_def in_use_def inum_ok_def)

lemma files_okD:
  assumes "files_ok s"
  shows "room_ok s" "img_ok (img s)" "in_use s i \<Longrightarrow> blocks_ok (img s) (unat (freeblock s)) (node s i) (nblocks s i)"
    "in_use s i \<Longrightarrow> in_use s j \<Longrightarrow> i \<noteq> j \<Longrightarrow> own s i \<inter> own s j = {}" "in_use s i \<Longrightarrow> own s i \<subseteq> {nmeta..<unat (freeblock s)}"
    "in_use s i \<Longrightarrow> data (img s) (node s i) (nblocks s i) = padded (nblocks s i) (file_of s i)"
  using assms unfolding files_ok_def by (auto simp: room_ok_def own_def blocks_ok_def)

lemma blocks_frame:
  assumes ok: "blocks_ok im fb d n" and same: "\<And>b. b \<in> owned im d n \<Longrightarrow> im' ! b = im ! b" and fb: "fb \<le> fb'"
  shows "blocks_ok im' fb' d n" "owned im' d n = owned im d n" "data im' d n = data im d n"
proof -
  have bn: "bno im' d k = bno im d k" if "k < NDIRECT \<or> NDIRECT < n" for k
    using that same[of "unat (d_addrs d NDIRECT)"] by (auto simp: bno_def owned_def)
  then have bk: "bno im' d k = bno im d k" if "k < n" for k using that by (cases "k < NDIRECT") auto
  show ow: "owned im' d n = owned im d n" by (simp add: owned_def bk)
  show "data im' d n = data im d n" by (rule data_cong) (auto simp: bk owned_def intro!: same)
  have "inj_on (bno im' d) {..<n} = inj_on (bno im d) {..<n}" by (rule inj_on_cong) (simp add: bk)
  then show "blocks_ok im' fb' d n" using ok fb bn bk unfolding blocks_ok_def ow by auto
qed

lemma addrs_cong:
  assumes "d_addrs d' = d_addrs d"
  shows "owned im d' n = owned im d n" "data im d' n = data im d n" "blocks_ok im fb d' n = blocks_ok im fb d n"
proof -
  have "bno im d' = bno im d" using assms by (simp add: bno_def fun_eq_iff)
  then show "owned im d' n = owned im d n" "data im d' n = data im d n" "blocks_ok im fb d' n = blocks_ok im fb d n"
    using assms by (simp_all add: owned_def data_def blocks_ok_def)
qed

lemma contents_eq: "d_size d' = sz \<Longrightarrow> contents im d' = take (unat sz) (data im d' (blocks_of (unat sz)))"
  by (simp add: contents_def)

lemma length_file: "files_ok s \<Longrightarrow> in_use s i \<Longrightarrow> length (file_of s i) = unat (d_size (node s i))"
proof -
  assume a: "files_ok s" "in_use s i"
  have "unat (d_size (node s i)) \<le> nblocks s i * BSIZE"
    using div_mult_mod_eq[of "unat (d_size (node s i)) + BSIZE - 1" BSIZE]
      mod_less_divisor[of BSIZE "unat (d_size (node s i)) + BSIZE - 1"]
    unfolding nblocks_def blocks_of_def by (simp add: BSIZE_def)
  then show ?thesis using length_data[OF files_okD(1)[OF a(1)] files_okD(3)[OF a]]
    by (simp add: file_of_def contents_def nblocks_def)
qed

text \<open>What appending \<open>p\<close> to the file \<open>i\<close> does to the other files and to the blocks outside of files.\<close>

definition others_kept :: "mkst \<Rightarrow> uint \<Rightarrow> mkst \<Rightarrow> bool" where
  "others_kept s i s' \<longleftrightarrow> freeinode s' = freeinode s \<and> unat (freeblock s) \<le> unat (freeblock s') \<and>
     (\<forall>j. inum_ok j \<and> j \<noteq> i \<longrightarrow> node s' j = node s j) \<and> (\<forall>j. in_use s j \<and> j \<noteq> i \<longrightarrow> file_of s' j = file_of s j) \<and>
     (\<forall>b. b < 2 + nlog \<or> 2 + nlog + ninodeblocks \<le> b \<and> b < nmeta \<longrightarrow> img s' ! b = img s ! b)"

lemma others_kept_trans: "others_kept s i s' \<Longrightarrow> others_kept s' i s'' \<Longrightarrow> others_kept s i s''"
  unfolding others_kept_def in_use_def by auto

text \<open>A step that extends the file \<open>i\<close> and then stores its inode.\<close>

lemma extended_stored:
  assumes ok: "files_ok s" and i: "in_use s i" and e: "extended s (node s i) (nblocks s i) s1 d n"
    and s': "s' = s1\<lparr>img := (img s1)[unat (IBLOCK i mk_sb) := b]\<rparr>" and b: "length b = BSIZE"
    and ni: "node s' i = d'" and d': "d_addrs d' = d_addrs d" and n: "n = blocks_of (unat (d_size d'))"
    and nj: "\<And>j. inum_ok j \<Longrightarrow> j \<noteq> i \<Longrightarrow> node s' j = node s1 j"
    and c: "data (img s1) d n = padded n c" "length c = unat (d_size d')"
  shows "files_ok s'" "others_kept s i s'" "file_of s' i = c" "unat (freeblock s') = unat (freeblock s1)"
proof -
  note D = files_okD[OF ok]
  have nm: "nmeta \<le> unat (freeblock s)" using D(1) by (simp add: room_ok_def)
  note E = e[unfolded extended_def own_def[symmetric]]
  have ok1: "blocks_ok (img s1) (unat (freeblock s1)) d n" and fb: "unat (freeblock s) \<le> unat (freeblock s1)"
    and s1: "room_ok s1" "freeinode s1 = freeinode s" using E by auto
  have fr: "img s1 ! c = img s ! c" if "c < unat (freeblock s)" "c \<notin> own s i" for c using E that by blast
  have low: "img s1 ! c = img s ! c" if "c < nmeta" for c using fr[of c] D(5)[OF i] that nm by fastforce
  have node1: "node s1 j = node s j" if "inum_ok j" for j using low iblock_bounds[OF that] by (simp add: node_def)
  have ib: "unat (IBLOCK i mk_sb) < nmeta" "2 + nlog \<le> unat (IBLOCK i mk_sb)" "unat (IBLOCK i mk_sb) < 2 + nlog + ninodeblocks"
    using iblock_bounds[OF in_use_inum[OF ok i]] by auto
  have same: "img s' ! c = img s1 ! c" if "c \<noteq> unat (IBLOCK i mk_sb)" for c using that by (simp add: s')
  have keep: "img s' ! c = img s ! c" if "c \<in> own s j" "in_use s j" "j \<noteq> i" for c j
  proof -
    have "nmeta \<le> c" "c < unat (freeblock s)" "c \<notin> own s i" using D(5)[OF that(2)] D(4)[OF that(2) i that(3)] that(1) by auto
    then show ?thesis using fr[of c] same[of c] ib by simp
  qed
  have nodej: "node s' j = node s j" if "in_use s j" "j \<noteq> i" for j using that nj node1 in_use_inum[OF ok] by simp
  have "img s' ! c = img s1 ! c" if "c \<in> owned (img s1) d n" for c
  proof -
    have "nmeta \<le> c" using ok1 that by (auto simp: blocks_ok_def)
    then show ?thesis using same[of c] ib by simp
  qed
  note F = blocks_frame[OF ok1 this order_refl, folded addrs_cong[OF d']]
  have oi: "own s' i = owned (img s1) d n" using F(2) by (simp add: own_def nblocks_def ni n[symmetric] addrs_cong[OF d'])
  note G = blocks_frame[OF D(3)[unfolded nblocks_def] keep[unfolded own_def nblocks_def] fb]
  have oj: "own s' j = own s j" if "in_use s j" "j \<noteq> i" for j
    using G(2)[OF that(1) _ that(1) that(2)] nodej[OF that] by (simp add: own_def nblocks_def)
  have rm: "room_ok s'" using s1 ib b nm by (auto simp: room_ok_def s' zero_above_def intro!: img_ok_update)
  have lv: "in_use s' j \<longleftrightarrow> in_use s j" for j using s1 by (simp add: in_use_def s')
  have di: "data (img s') d' n = padded n c" using F(3) c by (simp add: addrs_cong[OF d'])
  have "take (length c) (data (img s') d' n) = c" by (simp add: di)
  then show fi: "file_of s' i = c" by (simp add: file_of_def ni contents_def n c(2))
  show fb': "unat (freeblock s') = unat (freeblock s1)" by (simp add: s')
  have fj: "file_of s' j = file_of s j" if "in_use s j" "j \<noteq> i" for j
    using G(3)[OF that(1) _ that(1) that(2)] nodej[OF that] by (simp add: file_of_def contents_def)
  have "blocks_ok (img s') (unat (freeblock s')) (node s' j) (nblocks s' j) \<and>
    data (img s') (node s' j) (nblocks s' j) = padded (nblocks s' j) (file_of s' j)" if "in_use s j" for j
  proof (cases "j = i")
    case True then show ?thesis using F(1) ni n fb' di fi by (simp add: nblocks_def)
  next
    case False
    then show ?thesis using G(1,3)[OF that _ that False] nodej[OF that False] fb' D(6)[OF that] fj[OF that False] by (simp add: nblocks_def)
  qed
  moreover have "own s' j \<inter> own s' k = {}" if "in_use s j" "in_use s k" "j \<noteq> k" for j k
  proof -
    have ap: "own s' i \<inter> own s m = {}" if "in_use s m" "m \<noteq> i" for m
      using E D(4)[OF that(1) i that(2)] D(5)[OF that(1)] unfolding oi by fastforce
    show ?thesis using D(4)[OF that] ap[of j] ap[of k] oj[of j] oj[of k] that by (cases "j = i"; cases "k = i") (auto simp: Int_commute)
  qed
  ultimately show "files_ok s'" using ok s1 rm unfolding files_ok_def lv by (auto simp: s')
  have "img s' ! c = img s ! c" if "c < 2 + nlog \<or> 2 + nlog + ninodeblocks \<le> c \<and> c < nmeta" for c
    using that low[of c] same[of c] ib by (auto simp: nmeta_def)
  then show "others_kept s i s'" using s1 fb fb' nj node1 fj by (simp add: others_kept_def s')
qed

definition attr :: "dinode \<Rightarrow> uint16 \<times> uint16 \<times> uint16 \<times> uint16" where
  "attr d = (d_type d, d_major d, d_minor d, d_nlink d)"

lemma iappend_files:
  assumes ok: "files_ok s" and i: "in_use s i" and m: "length (file_of s i) + length p \<le> MAXFILE * BSIZE"
    and room: "unat (freeblock s) + need (blocks_of (length (file_of s i) + length p)) \<le> FSSIZE + need (blocks_of (length (file_of s i)))"
  shows "\<exists>s'. iappend i p s = Inr s' \<and> files_ok s' \<and> others_kept s i s' \<and> file_of s' i = file_of s i @ p \<and>
    unat (freeblock s') + need (blocks_of (length (file_of s i))) = unat (freeblock s) + need (blocks_of (length (file_of s i) + length p)) \<and>
    attr (node s' i) = attr (node s i)"
proof -
  let ?d = "node s i" and ?c = "file_of s i" and ?n = "blocks_of (length (file_of s i) + length p)"
  note D = files_okD[OF ok]
  have sz: "unat (d_size ?d) = length ?c" using length_file[OF ok i] by simp
  have nb: "nblocks s i = blocks_of (length ?c)" by (simp add: nblocks_def sz)
  have io: "inum_ok i" using in_use_inum[OF ok i] .
  obtain d s1 where l: "iappend_loop p (d_size ?d) ?d s = Inr (d_size ?d + of_nat (length p), d, s1)"
    and e: "extended s ?d (nblocks s i) s1 d ?n" and t: "data (img s1) d ?n = padded ?n (?c @ p)"
    using iappend_loop_appends[where s = s and d = ?d and off = "d_size ?d" and p = p and c = ?c, unfolded sz, folded nb,
        OF D(1) D(3)[OF i] m room[folded nb] refl D(6)[OF i]] by blast
  define d' where "d' = d\<lparr>d_size := d_size ?d + of_nat (length p)\<rparr>"
  have sz': "unat (d_size d') = length ?c + length p" using unat_add_small[of "d_size ?d" "length p"] m sz by (simp add: d'_def)
  have ok1: "room_ok s1" "blocks_ok (img s1) (unat (freeblock s1)) d ?n" and dt: "attr d = attr ?d"
    and fb: "unat (freeblock s1) + need (nblocks s i) = unat (freeblock s) + need ?n" using e by (auto simp: extended_def attr_def)
  obtain b where w: "winode i d' s1 = Inr (s1\<lparr>img := (img s1)[unat (IBLOCK i mk_sb) := b]\<rparr>)" "length b = BSIZE"
    "node (s1\<lparr>img := (img s1)[unat (IBLOCK i mk_sb) := b]\<rparr>) i = d'"
    "\<forall>j. inum_ok j \<and> j \<noteq> i \<longrightarrow> node (s1\<lparr>img := (img s1)[unat (IBLOCK i mk_sb) := b]\<rparr>) j = node s1 j"
    using winode_writes[of s1 i d'] ok1(1) io blocks_okD(8)[OF ok1(2)] unfolding d'_def room_ok_def by fastforce
  let ?s' = "s1\<lparr>img := (img s1)[unat (IBLOCK i mk_sb) := b]\<rparr>"
  have "d_addrs d' = d_addrs d" and at: "attr d' = attr d" by (simp_all add: d'_def attr_def)
  from this(1) have X: "files_ok ?s'" "others_kept s i ?s'" "file_of ?s' i = ?c @ p" "unat (freeblock ?s') = unat (freeblock s1)"
    using extended_stored[OF ok i e refl w(2,3), where c = "?c @ p"] w(4) t sz' by simp_all
  have "iappend i p s = Inr ?s'"
    using l w(1) rinode_eq[OF D(2) io] by (simp add: iappend_def d'_def)
  then show ?thesis using X w(3) dt fb at unfolding nb by (intro exI[of _ ?s']) simp
qed

end
