(* ===== verification/MkfsImage.thy ===== *)
theory MkfsImage
  imports MkfsProofs
begin

text \<open>
  The whole image of \<open>mkfs\<close> against its specification: a list of files, each with its attributes and contents, in the order
  of their inodes. Every step of the program is an operation on that list as long as the files fit, and the image at the end
  has the super block, the free map, the root directory and the files that the arguments ask for.
\<close>

section \<open>The specification\<close>

type_synonym spec = "((uint16 \<times> uint16 \<times> uint16 \<times> uint16) \<times> uint8 list) list"

definition blocks_needed :: "spec \<Rightarrow> nat" where
  "blocks_needed fs = sum_list (map (\<lambda>f. need (blocks_of (length (snd f)))) fs)"

definition fits :: "spec \<Rightarrow> bool" where
  "fits fs \<longleftrightarrow> length fs < NINODES \<and> (\<forall>f \<in> set fs. length (snd f) \<le> MAXFILE * BSIZE) \<and> nmeta + blocks_needed fs \<le> FSSIZE"

definition spec_append :: "nat \<Rightarrow> uint8 list \<Rightarrow> spec \<Rightarrow> spec" where
  "spec_append k p fs = fs[k := (fst (fs ! k), snd (fs ! k) @ p)]"

definition spec_new :: "uint16 \<Rightarrow> spec \<Rightarrow> spec" where
  "spec_new t fs = fs @ [((t, 0, 0, 1), [])]"

definition low_blocks :: "nat \<Rightarrow> uint8 list" where
  "low_blocks b = (if b = 1 then put_bytes 0 (sb_bytes mk_sb) zeroes else zeroes)"

definition represents :: "mkst \<Rightarrow> spec \<Rightarrow> bool" where
  "represents s fs \<longleftrightarrow> files_ok s \<and> unat (freeinode s) = Suc (length fs) \<and> unat (freeblock s) = nmeta + blocks_needed fs \<and>
     (\<forall>k < length fs. file_of s (of_nat (Suc k)) = snd (fs ! k) \<and> attr (node s (of_nat (Suc k))) = fst (fs ! k)) \<and>
     (\<forall>b < 2 + nlog. img s ! b = low_blocks b)"

section \<open>Appending and new inodes\<close>

lemma blocks_needed_append: "blocks_needed (fs @ gs) = blocks_needed fs + blocks_needed gs"
  by (simp add: blocks_needed_def)

lemma blocks_needed_update:
  "k < length fs \<Longrightarrow> blocks_needed (fs[k := f]) + need (blocks_of (length (snd (fs ! k)))) =
     blocks_needed fs + need (blocks_of (length (snd f)))"
proof (induction fs arbitrary: k)
  case (Cons g fs) then show ?case by (cases k) (force simp: blocks_needed_def)+
qed simp

lemma unat_inum: "n \<le> NINODES \<Longrightarrow> unat (of_nat n :: uint) = n"
  by (simp add: NINODES_def unat_of_nat)

lemma in_use_inode: "represents s fs \<Longrightarrow> length fs < NINODES \<Longrightarrow> k < length fs \<Longrightarrow> in_use s (of_nat (Suc k))"
  using unat_inum[of "Suc k"] by (simp add: in_use_def represents_def del: of_nat_Suc)

lemma iappend_represents:
  assumes r: "represents s fs" and k: "k < length fs" and fit: "fits (spec_append k p fs)"
  shows "\<exists>s'. iappend (of_nat (Suc k)) p s = Inr s' \<and> represents s' (spec_append k p fs)"
proof -
  let ?i = "of_nat (Suc k) :: uint" and ?c = "snd (fs ! k)"
  have l: "length fs < NINODES" using fit by (simp add: fits_def spec_append_def)
  have c: "files_ok s" "file_of s ?i = ?c" "attr (node s ?i) = fst (fs ! k)" using r k by (simp_all add: represents_def)
  have "spec_append k p fs ! k \<in> set (spec_append k p fs)" using k by (intro nth_mem) (simp add: spec_append_def)
  then have m: "length ?c + length p \<le> MAXFILE * BSIZE" using fit k by (auto simp: fits_def spec_append_def)
  have n: "blocks_needed (spec_append k p fs) + need (blocks_of (length ?c)) = blocks_needed fs + need (blocks_of (length ?c + length p))"
    using blocks_needed_update[OF k, of "(fst (fs ! k), ?c @ p)"] by (simp add: spec_append_def)
  have room: "unat (freeblock s) + need (blocks_of (length ?c + length p)) \<le> FSSIZE + need (blocks_of (length ?c))"
    using r fit n by (simp add: represents_def fits_def)
  obtain s' where s': "iappend ?i p s = Inr s'" "files_ok s'" "others_kept s ?i s'" "file_of s' ?i = ?c @ p"
    "unat (freeblock s') + need (blocks_of (length ?c)) = unat (freeblock s) + need (blocks_of (length ?c + length p))"
    "attr (node s' ?i) = attr (node s ?i)"
    using iappend_files[OF c(1) in_use_inode[OF r l k], of p] m room unfolding c(2) by blast
  have "file_of s' (of_nat (Suc j)) = snd (spec_append k p fs ! j) \<and> attr (node s' (of_nat (Suc j))) = fst (spec_append k p fs ! j)"
    if j: "j < length fs" for j
  proof (cases "j = k")
    case False
    then have "of_nat (Suc j) \<noteq> ?i" using unat_inum[of "Suc j"] unat_inum[of "Suc k"] j k l by (metis Suc_leI less_trans nat.inject)
    moreover have "inum_ok (of_nat (Suc j))" using in_use_inum[OF c(1) in_use_inode[OF r l j]] .
    ultimately show ?thesis using s'(3) in_use_inode[OF r l j] r j False by (simp add: others_kept_def represents_def spec_append_def)
  qed (use s' c k in \<open>simp add: spec_append_def\<close>)
  moreover have "unat (freeblock s') = nmeta + blocks_needed (spec_append k p fs)" using s'(5) n r by (simp add: represents_def)
  moreover have "freeinode s' = freeinode s" "\<forall>b < 2 + nlog. img s' ! b = img s ! b" using s'(3) by (simp_all add: others_kept_def)
  ultimately have "represents s' (spec_append k p fs)" using s'(2) r by (simp add: represents_def spec_append_def)
  with s'(1) show ?thesis by blast
qed

text \<open>Storing a meta block does not change what files hold whose inodes stay.\<close>

lemma stored_others:
  assumes ok: "files_ok s" and j: "in_use s j" and n: "node s' j = node s j" and img: "img s' = (img s)[c := b]" and c: "c < nmeta"
  shows "blocks_ok (img s') (unat (freeblock s)) (node s' j) (nblocks s' j)" "own s' j = own s j" "file_of s' j = file_of s j"
    "data (img s') (node s' j) (nblocks s' j) = padded (nblocks s' j) (file_of s' j)"
proof -
  note D = files_okD[OF ok]
  have "img s' ! a = img s ! a" if "a \<in> owned (img s) (node s j) (nblocks s j)" for a
    using that D(5)[OF j] c by (auto simp: own_def img)
  note F = blocks_frame[OF D(3)[OF j] this order_refl]
  show f: "file_of s' j = file_of s j" using F(3) n by (simp add: file_of_def contents_def nblocks_def)
  show "blocks_ok (img s') (unat (freeblock s)) (node s' j) (nblocks s' j)" "own s' j = own s j"
    "data (img s') (node s' j) (nblocks s' j) = padded (nblocks s' j) (file_of s' j)"
    using F n f D(6)[OF j] by (simp_all add: own_def nblocks_def)
qed

lemma blocks_of_0 [simp]: "blocks_of 0 = 0"
  by (simp add: blocks_of_def BSIZE_def)

lemma empty_file: "d_addrs d = (\<lambda>_. 0) \<Longrightarrow> blocks_ok im fb d 0" "owned im d 0 = {}" "data im d 0 = []"
  by (auto simp: blocks_ok_def owned_def data_def NDIRECT_def)

lemma mk_ialloc_files:
  assumes ok: "files_ok s" and i: "inum_ok (freeinode s)"
  shows "\<exists>s'. mk_ialloc t s = Inr (freeinode s, s') \<and> files_ok s' \<and> freeinode s' = freeinode s + 1 \<and> freeblock s' = freeblock s \<and>
    file_of s' (freeinode s) = [] \<and> attr (node s' (freeinode s)) = (t, 0, 0, 1) \<and>
    (\<forall>j. in_use s j \<longrightarrow> node s' j = node s j \<and> file_of s' j = file_of s j) \<and> (\<forall>b < 2 + nlog. img s' ! b = img s ! b)"
proof -
  let ?i = "freeinode s" and ?s = "s\<lparr>freeinode := freeinode s + 1\<rparr>"
  let ?d = "\<lparr>d_type = t, d_major = 0, d_minor = 0, d_nlink = 1, d_size = 0, d_addrs = (\<lambda>_. 0)\<rparr>"
  note D = files_okD[OF ok]
  obtain b where w: "winode ?i ?d ?s = Inr (?s\<lparr>img := (img ?s)[unat (IBLOCK ?i mk_sb) := b]\<rparr>)" "length b = BSIZE"
    "node (?s\<lparr>img := (img ?s)[unat (IBLOCK ?i mk_sb) := b]\<rparr>) ?i = ?d"
    "\<forall>j. inum_ok j \<and> j \<noteq> ?i \<longrightarrow> node (?s\<lparr>img := (img ?s)[unat (IBLOCK ?i mk_sb) := b]\<rparr>) j = node ?s j"
    using winode_writes[of ?s ?i ?d] D(2) i by auto
  define s' where "s' = ?s\<lparr>img := (img ?s)[unat (IBLOCK ?i mk_sb) := b]\<rparr>"
  have s': "img s' = (img s)[unat (IBLOCK ?i mk_sb) := b]" "freeinode s' = freeinode s + 1" "freeblock s' = freeblock s" by (simp_all add: s'_def)
  have ni: "node s' ?i = ?d" using w(3) by (simp add: s'_def)
  have u: "in_use s' j \<longleftrightarrow> in_use s j \<or> j = ?i" for j
  proof -
    have "unat (?i + 1) = Suc (unat ?i)" using i by (intro unat_Suc_small) (simp add: inum_ok_def NINODES_def FSSIZE_def)
    then show ?thesis using ok by (auto simp: in_use_def s' files_ok_def less_Suc_eq word_unat_eq_iff)
  qed
  have ne: "j \<noteq> ?i" if "in_use s j" for j using that by (auto simp: in_use_def)
  have nj: "node s' j = node s j" if "in_use s j" for j
    using w(4) that in_use_inum[OF ok that] ne[OF that] by (simp add: s'_def) (simp add: node_def)
  have fi: "file_of s' ?i = []" "own s' ?i = {}" "nblocks s' ?i = 0"
    by (simp_all add: file_of_def contents_def own_def nblocks_def ni empty_file)
  note O = stored_others[OF ok _ nj s'(1) iblock_bounds(3)[OF i]]
  have "room_ok s'" using D(1) iblock_bounds(3)[OF i] w(2) by (auto simp: room_ok_def s' zero_above_def intro!: img_ok_update)
  moreover have "blocks_ok (img s') (unat (freeblock s')) (node s' j) (nblocks s' j) \<and>
    data (img s') (node s' j) (nblocks s' j) = padded (nblocks s' j) (file_of s' j)" if "in_use s' j" for j
    using that O(1,4)[of j] fi ni by (auto simp: u s' empty_file padded_def)
  moreover have "own s' j \<inter> own s' k = {}" if "in_use s' j" "in_use s' k" "j \<noteq> k" for j k
    using that fi O(2)[of j] O(2)[of k] D(4)[of j k] unfolding u by auto
  moreover have "unat (freeinode s') \<le> NINODES" "0 < unat (freeinode s')"
    using i unat_Suc_small[of ?i] by (simp_all add: s' inum_ok_def NINODES_def FSSIZE_def)
  ultimately have "files_ok s'" by (simp add: files_ok_def)
  moreover have "mk_ialloc t s = Inr (?i, s')" using w(1) by (simp add: mk_ialloc_def s'_def Let_def)
  moreover have "\<forall>b < 2 + nlog. img s' ! b = img s ! b" using iblock_bounds(1)[OF i] by (auto simp: s')
  ultimately show ?thesis using fi ni nj O(3) by (auto simp: s' attr_def)
qed

lemma mk_ialloc_represents:
  assumes r: "represents s fs" and fit: "fits (spec_new t fs)"
  shows "\<exists>s'. mk_ialloc t s = Inr (of_nat (Suc (length fs)), s') \<and> represents s' (spec_new t fs)"
proof -
  have l: "Suc (length fs) < NINODES" using fit by (simp add: fits_def spec_new_def)
  have i: "freeinode s = of_nat (Suc (length fs))" using r l unat_inum[of "Suc (length fs)"] by (simp add: represents_def word_unat_eq_iff del: of_nat_Suc)
  have io: "inum_ok (freeinode s)" using r l by (simp add: represents_def inum_ok_def)
  have ok: "files_ok s" using r by (simp add: represents_def)
  obtain s' where s': "mk_ialloc t s = Inr (freeinode s, s')" "files_ok s'" "freeinode s' = freeinode s + 1" "freeblock s' = freeblock s"
    "file_of s' (freeinode s) = []" "attr (node s' (freeinode s)) = (t, 0, 0, 1)"
    "\<forall>j. in_use s j \<longrightarrow> node s' j = node s j \<and> file_of s' j = file_of s j" "\<forall>b < 2 + nlog. img s' ! b = img s ! b"
    using mk_ialloc_files[OF ok io] by blast
  have "file_of s' (of_nat (Suc k)) = snd (spec_new t fs ! k) \<and> attr (node s' (of_nat (Suc k))) = fst (spec_new t fs ! k)"
    if "k < Suc (length fs)" for k
  proof (cases "k = length fs")
    case False
    then have k: "k < length fs" using that by simp
    show ?thesis using s'(7) r in_use_inode[OF r _ k] l k by (simp add: represents_def spec_new_def nth_append del: of_nat_Suc)
  qed (use s' i in \<open>simp add: spec_new_def del: of_nat_Suc\<close>)
  moreover have "blocks_needed (spec_new t fs) = blocks_needed fs"
    by (simp add: spec_new_def blocks_needed_append) (simp add: blocks_needed_def need_def)
  moreover have "unat (freeinode s') = Suc (length (spec_new t fs))"
    using s'(3) r l unat_Suc_small[of "freeinode s"] by (simp add: represents_def spec_new_def NINODES_def FSSIZE_def)
  ultimately have "represents s' (spec_new t fs)" using s' r by (simp add: represents_def spec_new_def)
  then show ?thesis using s'(1) i by auto
qed

lemma spec_append_simps [simp]:
  "k < length fs \<Longrightarrow> spec_append k [] fs = fs" "length (spec_append k p fs) = length fs"
  "k < length fs \<Longrightarrow> spec_append k q (spec_append k p fs) = spec_append k (p @ q) fs"
  by (simp_all add: spec_append_def)

lemma fits_append:
  assumes "fits (spec_append k p fs)" "k < length fs"
  shows "fits fs"
proof -
  have "length (snd f) \<le> MAXFILE * BSIZE" if f: "f \<in> set fs" for f
  proof -
    obtain j where j: "j < length fs" "fs ! j = f" using f unfolding in_set_conv_nth by blast
    have "spec_append k p fs ! j \<in> set (spec_append k p fs)" using j(1) by (intro nth_mem) simp
    then have "length (snd (spec_append k p fs ! j)) \<le> MAXFILE * BSIZE" using assms(1) by (simp add: fits_def)
    then show ?thesis using j by (cases "j = k") (auto simp: spec_append_def)
  qed
  moreover have "need (blocks_of (length (snd (fs ! k)))) \<le> need (blocks_of (length (snd (fs ! k)) + length p))"
    by (intro need_mono blocks_of_mono) simp
  then have "blocks_needed fs \<le> blocks_needed (spec_append k p fs)"
    using blocks_needed_update[OF assms(2), of "(fst (fs ! k), snd (fs ! k) @ p)"] by (simp add: spec_append_def)
  ultimately show ?thesis using assms(1) by (auto simp: fits_def)
qed

lemma fits_new: "fits (spec_new t fs) \<Longrightarrow> fits fs"
  by (simp add: fits_def spec_new_def blocks_needed_append)

lemma iappends_represents:
  assumes "represents s fs" "k < length fs" "fits (spec_append k (concat ps) fs)"
  shows "\<exists>s'. iappends (of_nat (Suc k)) ps s = Inr s' \<and> represents s' (spec_append k (concat ps) fs)"
  using assms
proof (induction ps arbitrary: s fs)
  case (Cons p ps)
  have fit: "fits (spec_append k (concat ps) (spec_append k p fs))" using Cons.prems by simp
  then have "fits (spec_append k p fs)" using fits_append[OF fit] Cons.prems(2) by simp
  from iappend_represents[OF Cons.prems(1,2) this] obtain s1
    where s1: "iappend (of_nat (Suc k)) p s = Inr s1" "represents s1 (spec_append k p fs)" by blast
  from Cons.IH[OF s1(2) _ fit] s1(1) Cons.prems(2) show ?case by (simp del: of_nat_Suc)
qed simp

section \<open>The files of the arguments\<close>

definition fs_name :: "uint8 list \<Rightarrow> uint8 list" where
  "fs_name a = (let name = shortname a in if take 1 name = [0x5f] then drop 1 name else name)"

definition spec_add :: "(uint8 list \<Rightarrow> uint8 list list option) \<Rightarrow> spec \<Rightarrow> uint8 list \<Rightarrow> spec" where
  "spec_add host fs a =
     spec_append (length fs) (concat (the (host a)))
       (spec_append 0 (mk_dirent (of_nat (Suc (length fs))) (fs_name a)) (spec_new T_FILE fs))"

definition arg_ok :: "(uint8 list \<Rightarrow> uint8 list list option) \<Rightarrow> uint8 list \<Rightarrow> bool" where
  "arg_ok host a \<longleftrightarrow> 0x2f \<notin> set (shortname a) \<and> host a \<noteq> None"

lemma add_file_represents:
  assumes r: "represents s fs" and ne: "fs \<noteq> []" and a: "arg_ok host a" and fit: "fits (spec_add host fs a)"
  shows "\<exists>s'. add_file host ROOTINO a s = Inr s' \<and> represents s' (spec_add host fs a)"
proof -
  let ?n = "of_nat (Suc (length fs)) :: uint" and ?e = "mk_dirent (of_nat (Suc (length fs))) (fs_name a)"
  let ?fs1 = "spec_new T_FILE fs" and ?fs2 = "spec_append 0 (mk_dirent (of_nat (Suc (length fs))) (fs_name a)) (spec_new T_FILE fs)"
  have l: "length ?fs1 = Suc (length fs)" by (simp add: spec_new_def)
  obtain ps where ps: "host a = Some ps" using a by (auto simp: arg_ok_def)
  have fit2: "fits ?fs2" using fit fits_append[of "length fs" "concat ps" ?fs2] l ps by (simp add: spec_add_def)
  have fit1: "fits ?fs1" using fits_append[OF fit2] l by simp
  obtain s1 where s1: "mk_ialloc T_FILE s = Inr (?n, s1)" "represents s1 ?fs1" using mk_ialloc_represents[OF r fit1] by blast
  obtain s2 where s2: "iappend ROOTINO ?e s1 = Inr s2" "represents s2 ?fs2"
    using iappend_represents[OF s1(2) _ fit2] l by (auto simp: ROOTINO_def)
  obtain s3 where "iappends ?n ps s2 = Inr s3" "represents s3 (spec_add host fs a)"
    using iappends_represents[OF s2(2), of "length fs" ps] fit l ps by (auto simp: spec_add_def simp del: of_nat_Suc)
  then show ?thesis using s1(1) s2(1) a ps
    by (auto simp: add_file_def arg_ok_def fs_name_def Let_def simp del: of_nat_Suc)
qed

lemma length_spec_add [simp]: "length (spec_add host fs a) = Suc (length fs)"
  by (simp add: spec_add_def spec_new_def)

lemma fits_add: "fits (spec_add host fs a) \<Longrightarrow> fits fs"
  using fits_append fits_new by (metis length_append_singleton less_Suc_eq length_spec_add spec_append_simps(2) spec_add_def zero_less_Suc)

lemma fits_adds: "fits (foldl (spec_add host) fs as) \<Longrightarrow> fits fs"
  by (induction as arbitrary: fs) (auto dest: fits_add)

lemma add_files_represents:
  assumes "represents s fs" "fs \<noteq> []" "\<forall>a \<in> set as. arg_ok host a" "fits (foldl (spec_add host) fs as)"
  shows "\<exists>s'. add_files host ROOTINO as s = Inr s' \<and> represents s' (foldl (spec_add host) fs as)"
  using assms
proof (induction as arbitrary: s fs)
  case (Cons a as)
  obtain s1 where s1: "add_file host ROOTINO a s = Inr s1" "represents s1 (spec_add host fs a)"
    using add_file_represents[of s fs host a] fits_adds[of host "spec_add host fs a" as] Cons.prems by auto
  have "spec_add host fs a \<noteq> []" using length_spec_add[of host fs a] by fastforce
  with Cons.IH[OF s1(2)] Cons.prems s1(1) show ?case by simp
qed simp

text \<open>The entries of the root directory, and the files after it.\<close>

definition entries :: "nat \<Rightarrow> uint8 list list \<Rightarrow> uint8 list" where
  "entries n as = concat (map (\<lambda>(k, a). mk_dirent (of_nat k) (fs_name a)) (List.enumerate n as))"

lemma spec_adds:
  "foldl (spec_add host) ((t, c) # gs) as =
     (t, c @ entries (length gs + 2) as) # gs @ map (\<lambda>a. ((T_FILE, 0, 0, 1), concat (the (host a)))) as"
proof (induction as arbitrary: c gs)
  case (Cons a as)
  have "spec_add host ((t, c) # gs) a =
    (t, c @ mk_dirent (of_nat (length gs + 2)) (fs_name a)) # gs @ [((T_FILE, 0, 0, 1), concat (the (host a)))]"
    by (simp add: spec_add_def spec_append_def spec_new_def)
  then show ?case using Cons.IH by (simp add: entries_def)
qed (simp add: entries_def)

section \<open>The empty file system\<close>

lemma zero_image:
  assumes "n \<le> FSSIZE" "img s = []"
  shows "fold (\<lambda>i. wsect (of_nat i) zeroes) [0..<n] s = s\<lparr>img := replicate n zeroes\<rparr>"
  using assms(1)
proof (induction n)
  case (Suc n)
  have "sector (of_nat n) = n" using Suc.prems by (simp add: unat_of_nat FSSIZE_def)
  then show ?case using Suc by (simp add: wsect_def Let_def replicate_append_same)
qed (use assms(2) in simp)

lemma empty_represents:
  "represents \<lparr>img = (replicate FSSIZE zeroes)[1 := put_bytes 0 (sb_bytes mk_sb) zeroes], freeinode = 1, freeblock = of_nat nmeta\<rparr> []"
proof -
  have n: "unat (of_nat nmeta :: uint) = nmeta" using nmeta_pos by (simp add: unat_of_nat FSSIZE_def)
  have "length (put_bytes 0 (sb_bytes mk_sb) zeroes) = BSIZE" by (simp add: sb_bytes_def BSIZE_def)
  then have "img_ok ((replicate FSSIZE zeroes)[1 := put_bytes 0 (sb_bytes mk_sb) zeroes])"
    by (intro img_ok_update) (auto simp: img_ok_def)
  moreover have "1 < nmeta" "2 + nlog \<le> FSSIZE" by (simp_all add: nmeta_def nlog_def LOGSIZE_def MAXOPBLOCKS_def FSSIZE_def)
  ultimately show ?thesis using n nmeta_pos
    by (auto simp: represents_def files_ok_def room_ok_def in_use_def zero_above_def low_blocks_def blocks_needed_def NINODES_def nth_list_update)
qed

lemma length_dirent: "length (mk_dirent i n) = 16"
  by (simp add: mk_dirent_def DIRSIZ_def)

definition dots :: "uint8 list" where
  "dots = mk_dirent ROOTINO (bytes_of ''.'') @ mk_dirent ROOTINO (bytes_of ''..'')"

lemma fits_root: "length c \<le> 1024 \<Longrightarrow> fits [(t, c)]"
  by (auto simp: fits_def blocks_needed_def need_def blocks_of_def nmeta_def nlog_def ninodeblocks_def nbitmap_def FSSIZE_def NINODES_def
      BSIZE_def IPB_def LOGSIZE_def MAXOPBLOCKS_def MAXFILE_def NDIRECT_def NINDIRECT_def)

lemma mk_empty_represents: "\<exists>s. mk_empty = Inr (ROOTINO, s) \<and> represents s [((T_DIR, 0, 0, 1), dots)]"
proof -
  let ?t = "(T_DIR, 0, 0, 1) :: uint16 \<times> uint16 \<times> uint16 \<times> uint16"
  let ?d1 = "mk_dirent ROOTINO (bytes_of ''.'')" and ?d2 = "mk_dirent ROOTINO (bytes_of ''..'')"
  let ?s = "\<lparr>img = (replicate FSSIZE zeroes)[1 := put_bytes 0 (sb_bytes mk_sb) zeroes], freeinode = 1, freeblock = of_nat nmeta\<rparr>"
  have app: "spec_append 0 p [(?t, c)] = [(?t, c @ p)]" for p c by (simp add: spec_append_def)
  obtain s1 where s1: "mk_ialloc T_DIR ?s = Inr (1, s1)" "represents s1 [(?t, [])]"
    using mk_ialloc_represents[OF empty_represents, of T_DIR] fits_root[of "[]" ?t] by (auto simp: spec_new_def)
  obtain s2 where s2: "iappend ROOTINO ?d1 s1 = Inr s2" "represents s2 [(?t, ?d1)]"
    using iappend_represents[OF s1(2), of 0 ?d1] fits_root[of ?d1 ?t] by (auto simp: app ROOTINO_def length_dirent)
  obtain s3 where s3: "iappend ROOTINO ?d2 s2 = Inr s3" "represents s3 [(?t, dots)]"
    using iappend_represents[OF s2(2), of 0 ?d2] fits_root[of dots ?t] by (auto simp: app ROOTINO_def length_dirent dots_def)
  have "fold (\<lambda>i. wsect (of_nat i) zeroes) [0..<FSSIZE] \<lparr>img = [], freeinode = 1, freeblock = of_nat nmeta\<rparr> =
      \<lparr>img = replicate FSSIZE zeroes, freeinode = 1, freeblock = of_nat nmeta\<rparr>"
    by (subst zero_image) simp_all
  moreover have "wsect 1 (put_bytes 0 (sb_bytes mk_sb) zeroes) \<lparr>img = replicate FSSIZE zeroes, freeinode = 1, freeblock = of_nat nmeta\<rparr> = ?s"
    by (simp add: wsect_def FSSIZE_def Let_def)
  ultimately have "mk_empty = Inr (ROOTINO, s3)"
    using s1(1) s2(1) s3(1) by (simp add: mk_empty_def ROOTINO_def Let_def del: One_nat_def)
  with s3(2) show ?thesis by blast
qed

section \<open>The free map\<close>

lemma mk_bitmap_Suc: "mk_bitmap (Suc n) = bmap_set n (mk_bitmap n)"
  by (simp add: mk_bitmap_def bmap_set_def)

lemma length_mk_bitmap [simp]: "length (mk_bitmap n) = BSIZE"
  by (induction n) (simp_all add: mk_bitmap_Suc bmap_set_def, simp add: mk_bitmap_def)

lemma bmap_bit_mk_bitmap:
  assumes "n \<le> BPB" "b < BPB"
  shows "bmap_bit b (mk_bitmap n) \<longleftrightarrow> b < n"
  using assms(1)
proof (induction n)
  case 0
  have "b div 8 < BSIZE" using assms(2) by (simp add: BPB_def less_mult_imp_div_less)
  then show ?case by (simp add: mk_bitmap_def bmap_bit_def zeroes_def)
next
  case (Suc n)
  then have "n div 8 < length (mk_bitmap n)" by (simp add: BPB_def less_mult_imp_div_less)
  with Suc show ?case by (auto simp: mk_bitmap_Suc bmap_bit_set)
qed

lemma mk_balloc_writes:
  assumes "img_ok (img s)" "unat (freeblock s) \<le> FSSIZE"
  shows "mk_balloc (freeblock s) s = Inr (s\<lparr>img := (img s)[2 + nlog + ninodeblocks := mk_bitmap (unat (freeblock s))]\<rparr>)"
proof -
  have "2 + nlog + ninodeblocks < FSSIZE"
    by (simp add: nlog_def ninodeblocks_def LOGSIZE_def MAXOPBLOCKS_def NINODES_def IPB_def BSIZE_def FSSIZE_def)
  moreover have "unat (sb_bmapstart mk_sb) = 2 + nlog + ninodeblocks"
    by (simp add: mk_sb_def nlog_def ninodeblocks_def LOGSIZE_def MAXOPBLOCKS_def NINODES_def IPB_def BSIZE_def)
  moreover have u: "uint (freeblock s) \<le> 2000" using assms(2) unfolding uint_nat FSSIZE_def by linarith
  have "sint (freeblock s) = uint (freeblock s)" by (rule sint_uint_small) (use u in simp)
  then have "sint (freeblock s) < int (BSIZE * 8)" "nat (sint (freeblock s)) = unat (freeblock s)" using u by (simp_all add: BSIZE_def)
  ultimately show ?thesis using assms(1) by (simp add: mk_balloc_def wsect_eq)
qed

section \<open>The root directory\<close>

lemma take_data:
  assumes "room_ok s" "blocks_ok (img s) (unat (freeblock s)) d n" "n \<le> m" "k \<le> n * BSIZE"
  shows "take k (data (img s) d m) = take k (data (img s) d n)"
proof -
  have "[0..<m] = [0..<n] @ [n..<m]" using assms(3) by (metis le0 le_Suc_ex upt_add_eq_append)
  then have "data (img s) d m = data (img s) d n @ concat (map (\<lambda>k. img s ! unat (bno (img s) d k)) [n..<m])" by (simp add: data_def)
  then show ?thesis using length_data[OF assms(1,2), of n] assms(4) by simp
qed

text \<open>\<open>fix_root\<close> rounds the size up; the entries stay, and so do the other files.\<close>

definition root_size :: "nat \<Rightarrow> nat" where
  "root_size n = (n div BSIZE + 1) * BSIZE"

lemma root_size_blocks: "blocks_of n \<le> blocks_of (root_size n)" "n \<le> root_size n" "n mod BSIZE \<noteq> 0 \<Longrightarrow> blocks_of (root_size n) = blocks_of n"
proof -
  have n: "n = n div BSIZE * BSIZE + n mod BSIZE" "n mod BSIZE < BSIZE" by (simp_all add: BSIZE_def)
  have r: "root_size n = n div BSIZE * BSIZE + BSIZE" by (simp add: root_size_def)
  then show "n \<le> root_size n" using n by linarith
  then show "blocks_of n \<le> blocks_of (root_size n)" by (rule blocks_of_mono)
  show "blocks_of (root_size n) = blocks_of n" if "n mod BSIZE \<noteq> 0"
    using that blocks_of_part[of "n mod BSIZE" "n div BSIZE"] blocks_of_whole[of "n div BSIZE + 1"] n(2) unfolding root_size_def n(1)[symmetric]
    by simp
qed

lemma fix_root_files:
  assumes ok: "files_ok s" and i: "in_use s i" and m: "length (file_of s i) \<le> MAXFILE * BSIZE"
  shows "\<exists>s' b. fix_root i s = Inr s' \<and> s' = s\<lparr>img := (img s)[unat (IBLOCK i mk_sb) := b]\<rparr> \<and> length b = BSIZE \<and>
    node s' i = (node s i)\<lparr>d_size := of_nat (root_size (length (file_of s i)))\<rparr> \<and>
    take (length (file_of s i)) (file_of s' i) = file_of s i \<and>
    (length (file_of s i) mod BSIZE \<noteq> 0 \<longrightarrow> file_of s' i = padded (nblocks s i) (file_of s i) \<and> own s' i = own s i) \<and>
    (\<forall>j. in_use s j \<and> j \<noteq> i \<longrightarrow> node s' j = node s j \<and> file_of s' j = file_of s j \<and> own s' j = own s j)"
proof -
  let ?c = "file_of s i" and ?d = "(node s i)\<lparr>d_size := of_nat (root_size (length (file_of s i)))\<rparr>"
  note D = files_okD[OF ok]
  have io: "inum_ok i" using in_use_inum[OF ok i] .
  have sz: "unat (d_size (node s i)) = length ?c" using length_file[OF ok i] by simp
  have nb: "nblocks s i = blocks_of (length ?c)" by (simp add: nblocks_def sz)
  have rs: "root_size (length ?c) < 2 ^ 32" using m div_le_mono[OF m, of BSIZE]
    by (simp add: root_size_def MAXFILE_def NDIRECT_def NINDIRECT_def BSIZE_def)
  have d: "d_addrs ?d = d_addrs (node s i)" "unat (d_size ?d) = root_size (length ?c)" using rs by (simp_all add: unat_of_nat)
  obtain b where w: "winode i ?d s = Inr (s\<lparr>img := (img s)[unat (IBLOCK i mk_sb) := b]\<rparr>)" "length b = BSIZE"
    "node (s\<lparr>img := (img s)[unat (IBLOCK i mk_sb) := b]\<rparr>) i = ?d"
    "\<forall>j. inum_ok j \<and> j \<noteq> i \<longrightarrow> node (s\<lparr>img := (img s)[unat (IBLOCK i mk_sb) := b]\<rparr>) j = node s j"
    using winode_writes[OF D(2) io, of ?d] blocks_okD(8)[OF D(3)[OF i]] d(1) by auto
  define s' where "s' = s\<lparr>img := (img s)[unat (IBLOCK i mk_sb) := b]\<rparr>"
  note W = w[folded s'_def]
  have "(of_nat (root_size (length ?c)) :: uint) = (d_size (node s i) div of_nat BSIZE + 1) * of_nat BSIZE"
  proof -
    have "d_size (node s i) div 1024 = of_nat (length ?c div 1024)"
      using sz rs by (simp add: word_unat_eq_iff unat_div unat_of_nat root_size_def BSIZE_def)
    then show ?thesis by (simp add: root_size_def BSIZE_def)
  qed
  then have "fix_root i s = Inr s'" using W(1) rinode_eq[OF D(2) io] by (simp add: fix_root_def Let_def)
  moreover have rm: "room_ok s'" using D(1) iblock_bounds(3)[OF io] w(2) by (auto simp: room_ok_def s'_def zero_above_def intro!: img_ok_update)
  moreover have "img s' ! c = img s ! c" if "c \<in> owned (img s) (node s i) (nblocks s i)" for c
    using that D(5)[OF i] iblock_bounds(3)[OF io] by (auto simp: own_def s'_def)
  note F = blocks_frame[OF D(3)[OF i] this order_refl, folded addrs_cong[OF d(1)]]
  have dt: "data (img s') ?d (nblocks s i) = padded (nblocks s i) ?c" using F(3) D(6)[OF i] addrs_cong[OF d(1)] by simp
  have fo: "file_of s' i = take (root_size (length ?c)) (data (img s') ?d (blocks_of (root_size (length ?c))))"
    using W(3) d(2) by (simp add: file_of_def contents_def)
  have fb': "freeblock s' = freeblock s" by (simp add: s'_def)
  have le: "length ?c \<le> nblocks s i * BSIZE" "length (padded (nblocks s i) ?c) = nblocks s i * BSIZE"
    using length_data[OF D(1) D(3)[OF i] order_refl] D(6)[OF i] by (simp_all add: padded_def)
  have "take (length ?c) (file_of s' i) = take (length ?c) (data (img s') ?d (nblocks s i))"
    using take_data[OF rm, of ?d "nblocks s i" "blocks_of (root_size (length ?c))" "length ?c"] F(1) root_size_blocks le nb
    by (simp add: fo fb' min_absorb1)
  then have "take (length ?c) (file_of s' i) = ?c" by (simp add: dt)
  moreover have "file_of s' i = padded (nblocks s i) ?c" if "length ?c mod BSIZE \<noteq> 0"
    using root_size_blocks(3)[OF that] nb fo dt le blocks_of_whole[of "length ?c div BSIZE + 1"] by (simp add: root_size_def)
  moreover have "own s' i = own s i" if "length ?c mod BSIZE \<noteq> 0"
    using root_size_blocks(3)[OF that] nb F(2) W(3) d addrs_cong[OF d(1)] by (simp add: own_def nblocks_def)
  moreover have "node s' j = node s j \<and> file_of s' j = file_of s j \<and> own s' j = own s j" if j: "in_use s j" "j \<noteq> i" for j
  proof -
    have "node s' j = node s j" using W(4) j in_use_inum[OF ok] by simp
    then show ?thesis using stored_others[OF ok j(1), of s' "unat (IBLOCK i mk_sb)" b] iblock_bounds(3)[OF io] by (simp add: s'_def)
  qed
  ultimately show ?thesis using W(2,3) s'_def by blast
qed

text \<open>The new block of the inode, and that it does not depend on other blocks.\<close>

definition fixed_root :: "uint \<Rightarrow> uint8 list \<Rightarrow> uint8 list" where
  "fixed_root i buf =
     (let d = dinode_at (dinode_off i) buf
      in dinode_put (dinode_off i) (inode_of (d\<lparr>d_size := (d_size d div of_nat BSIZE + 1) * of_nat BSIZE\<rparr>)) buf)"

lemma fix_root_eq:
  assumes "img_ok (img s)" "inum_ok i"
  shows "fix_root i s = Inr (s\<lparr>img := (img s)[unat (IBLOCK i mk_sb) := fixed_root i (img s ! unat (IBLOCK i mk_sb))]\<rparr>)"
  using assms iblock_bounds(4)[OF assms(2)]
  by (simp add: fix_root_def rinode_def winode_def rsect_eq wsect_eq fixed_root_def Let_def)

lemma fix_root_swap:
  assumes "img_ok (img s)" "inum_ok i" "c \<noteq> unat (IBLOCK i mk_sb)" "length b = BSIZE" "fix_root i s = Inr s'"
  shows "fix_root i (s\<lparr>img := (img s)[c := b]\<rparr>) = Inr (s'\<lparr>img := (img s')[c := b]\<rparr>)"
proof -
  have "img_ok ((img s)[c := b])" using assms by (simp add: img_ok_update)
  then show ?thesis using assms fix_root_eq[of s i] fix_root_eq[of "s\<lparr>img := (img s)[c := b]\<rparr>" i] by (auto simp: list_update_swap)
qed

lemma bitmap_files:
  assumes ok: "files_ok s" and c: "2 + nlog + ninodeblocks \<le> c" "c < nmeta" and b: "length b = BSIZE"
  defines "s' \<equiv> s\<lparr>img := (img s)[c := b]\<rparr>"
  shows "files_ok s'" "in_use s j \<Longrightarrow> node s' j = node s j \<and> file_of s' j = file_of s j \<and> own s' j = own s j"
proof -
  note D = files_okD[OF ok]
  have n: "node s' j = node s j" if "in_use s j" for j
    using iblock_bounds(2)[OF in_use_inum[OF ok that]] c by (auto simp: node_def s'_def)
  have "img s' = (img s)[c := b]" by (simp add: s'_def)
  note O = stored_others[OF ok _ n this c(2)]
  have "room_ok s'" using D(1) c b by (auto simp: room_ok_def s'_def zero_above_def intro!: img_ok_update)
  moreover have u: "in_use s' j \<longleftrightarrow> in_use s j" for j by (simp add: in_use_def s'_def)
  ultimately show "files_ok s'" using ok O(1,2,4) unfolding files_ok_def u by (simp add: s'_def)
  show "node s' j = node s j \<and> file_of s' j = file_of s j \<and> own s' j = own s j" if "in_use s j" for j
    using n O(2,3) that by simp
qed

section \<open>The image\<close>

definition root_dir :: "uint8 list list \<Rightarrow> uint8 list" where
  "root_dir as = dots @ entries 2 as"

definition mkfs_spec :: "(uint8 list \<Rightarrow> uint8 list list option) \<Rightarrow> uint8 list list \<Rightarrow> spec" where
  "mkfs_spec host as =
     ((T_DIR, 0, 0, 1), root_dir as) # map (\<lambda>a. ((T_FILE, 0, 0, 1), concat (the (host a)))) as"

lemma sb_of_sb_bytes: "sb_of_block (put_bytes 0 (sb_bytes x) zeroes) = x"
  by (simp add: sb_of_block_def sb_bytes_def put_bytes_def get32_def get_bytes_def le_word_le_bytes)

definition with_bitmap :: "mkst \<Rightarrow> mkst" where
  "with_bitmap s = s\<lparr>img := (img s)[2 + nlog + ninodeblocks := mk_bitmap (unat (freeblock s))]\<rparr>"

lemma mkfs_main_steps:
  assumes "2 \<le> length argv" "\<forall>a \<in> set (drop 2 argv). arg_ok host a" "fits (mkfs_spec host (drop 2 argv))"
  shows "\<exists>s1 s. represents s1 (mkfs_spec host (drop 2 argv)) \<and> mkfs_main host argv = Inr s \<and> fix_root ROOTINO (with_bitmap s1) = Inr s"
proof -
  let ?as = "drop 2 argv"
  obtain s0 where s0: "mk_empty = Inr (ROOTINO, s0)" "represents s0 [((T_DIR, 0, 0, 1), dots)]" using mk_empty_represents by blast
  have sp: "foldl (spec_add host) [((T_DIR, 0, 0, 1), dots)] ?as = mkfs_spec host ?as"
    using spec_adds[of host "(T_DIR, 0, 0, 1)" dots "[]" ?as] by (simp add: mkfs_spec_def root_dir_def numeral_2_eq_2)
  obtain s1 where s1: "add_files host ROOTINO ?as s0 = Inr s1" "represents s1 (mkfs_spec host ?as)"
    using add_files_represents[OF s0(2) _ assms(2)] assms(3) sp by auto
  have ok: "img_ok (img s1)" "unat (freeblock s1) \<le> FSSIZE" "inum_ok ROOTINO"
    using s1(2) by (simp_all add: represents_def files_ok_def room_ok_def inum_ok_def ROOTINO_def NINODES_def)
  let ?s2 = "s1\<lparr>img := (img s1)[unat (IBLOCK ROOTINO mk_sb) := fixed_root ROOTINO (img s1 ! unat (IBLOCK ROOTINO mk_sb))]\<rparr>"
  have s2: "fix_root ROOTINO s1 = Inr ?s2" using fix_root_eq[OF ok(1,3)] .
  have "length (fixed_root ROOTINO (img s1 ! unat (IBLOCK ROOTINO mk_sb))) = BSIZE"
    using ok iblock_bounds(4)[OF ok(3)] dinode_off_bound[of ROOTINO] by (simp add: fixed_root_def Let_def length_dinode_put img_ok_nth)
  then have "mk_balloc (freeblock ?s2) ?s2 = Inr (with_bitmap ?s2)"
    using mk_balloc_writes[of ?s2] ok img_ok_update[OF ok(1)] by (simp add: with_bitmap_def)
  moreover have "fix_root ROOTINO (with_bitmap s1) = Inr (with_bitmap ?s2)"
    using fix_root_swap[OF ok(1,3) _ _ s2, of "2 + nlog + ninodeblocks" "mk_bitmap (unat (freeblock s1))"] iblock_bounds(2)[OF ok(3)]
    by (simp add: with_bitmap_def)
  moreover from calculation have "mkfs_main host argv = Inr (with_bitmap ?s2)" using assms(1)
    unfolding mkfs_main_def s0(1) by (simp add: s1(1) s2)
  ultimately show ?thesis using s1(2) by blast
qed

lemma image_files:
  assumes r: "represents s1 fs" and fit: "fits fs" and ne: "fs \<noteq> []" and f: "fix_root ROOTINO (with_bitmap s1) = Inr s"
  shows "length (img s) = FSSIZE" "b < 2 + nlog \<Longrightarrow> img s ! b = low_blocks b"
    "img s ! (2 + nlog + ninodeblocks) = mk_bitmap (nmeta + blocks_needed fs)"
    "attr (node s ROOTINO) = fst (hd fs)" "take (length (snd (hd fs))) (file_of s ROOTINO) = snd (hd fs)"
    "length (snd (hd fs)) mod BSIZE \<noteq> 0 \<Longrightarrow> file_of s ROOTINO = padded (blocks_of (length (snd (hd fs)))) (snd (hd fs))"
    "0 < k \<Longrightarrow> k < length fs \<Longrightarrow> attr (node s (of_nat (Suc k))) = fst (fs ! k) \<and> file_of s (of_nat (Suc k)) = snd (fs ! k) \<and>
       own s (of_nat (Suc k)) \<subseteq> {nmeta..<nmeta + blocks_needed fs}"
    "0 < j \<Longrightarrow> j < k \<Longrightarrow> k < length fs \<Longrightarrow> own s (of_nat (Suc j)) \<inter> own s (of_nat (Suc k)) = {}"
    "img_ok (img s)" "length (snd (hd fs)) mod BSIZE \<noteq> 0 \<Longrightarrow> own s ROOTINO \<subseteq> {nmeta..<nmeta + blocks_needed fs}"
proof -
  let ?s = "with_bitmap s1"
  have l: "length fs < NINODES" using fit by (simp add: fits_def)
  have ok1: "files_ok s1" using r by (simp add: represents_def)
  have bm: "2 + nlog + ninodeblocks < nmeta" by (simp add: nmeta_def nbitmap_def)
  note B = bitmap_files[OF ok1 order_refl bm length_mk_bitmap[of "unat (freeblock s1)"], folded with_bitmap_def]
  have u: "in_use ?s j \<longleftrightarrow> in_use s1 j" for j by (simp add: in_use_def with_bitmap_def)
  have iu: "in_use s1 (of_nat (Suc k))" if "k < length fs" for k using in_use_inode[OF r l that] .
  have root: "in_use s1 ROOTINO" "file_of s1 ROOTINO = snd (hd fs)" "attr (node s1 ROOTINO) = fst (hd fs)"
    using iu[of 0] ne r by (auto simp: ROOTINO_def represents_def hd_conv_nth)
  have m: "length (snd (hd fs)) \<le> MAXFILE * BSIZE" using fit ne by (simp add: fits_def)
  have ib: "inum_ok ROOTINO" using in_use_inum[OF ok1 root(1)] .
  obtain b' where R: "s = ?s\<lparr>img := (img ?s)[unat (IBLOCK ROOTINO mk_sb) := b']\<rparr>" "length b' = BSIZE"
    "attr (node s ROOTINO) = fst (hd fs)" "take (length (snd (hd fs))) (file_of s ROOTINO) = snd (hd fs)"
    "length (snd (hd fs)) mod BSIZE \<noteq> 0 \<longrightarrow> file_of s ROOTINO = padded (nblocks ?s ROOTINO) (snd (hd fs)) \<and> own s ROOTINO = own s1 ROOTINO"
    "\<forall>j. in_use s1 j \<and> j \<noteq> ROOTINO \<longrightarrow> node s j = node s1 j \<and> file_of s j = file_of s1 j \<and> own s j = own s1 j"
  proof -
    have a: "attr (d\<lparr>d_size := z\<rparr>) = attr d" for d z by (simp add: attr_def)
    have "file_of ?s ROOTINO = snd (hd fs)" "node ?s ROOTINO = node s1 ROOTINO" "in_use ?s ROOTINO"
      using B(2)[OF root(1)] root u by simp_all
    from fix_root_files[OF B(1) this(3), unfolded this(1,2), OF m, unfolded f sum.inject] obtain b where
      "s = ?s\<lparr>img := (img ?s)[unat (IBLOCK ROOTINO mk_sb) := b]\<rparr>" "length b = BSIZE"
      "node s ROOTINO = (node s1 ROOTINO)\<lparr>d_size := of_nat (root_size (length (snd (hd fs))))\<rparr>"
      "take (length (snd (hd fs))) (file_of s ROOTINO) = snd (hd fs)"
      "length (snd (hd fs)) mod BSIZE \<noteq> 0 \<longrightarrow> file_of s ROOTINO = padded (nblocks ?s ROOTINO) (snd (hd fs)) \<and> own s ROOTINO = own ?s ROOTINO"
      "\<forall>j. in_use ?s j \<and> j \<noteq> ROOTINO \<longrightarrow> node s j = node ?s j \<and> file_of s j = file_of ?s j \<and> own s j = own ?s j" by blast
    with that show thesis using root(1,3) B(2) u a by metis
  qed
  show "attr (node s ROOTINO) = fst (hd fs)" "take (length (snd (hd fs))) (file_of s ROOTINO) = snd (hd fs)" using R by simp_all
  have "nblocks ?s ROOTINO = blocks_of (length (snd (hd fs)))"
    using length_file[OF B(1), of ROOTINO] B(2)[OF root(1)] root by (simp add: nblocks_def u)
  then show "file_of s ROOTINO = padded (blocks_of (length (snd (hd fs)))) (snd (hd fs))" if "length (snd (hd fs)) mod BSIZE \<noteq> 0"
    using R(5) that by simp
  show "img_ok (img s)" using R(1,2) files_okD(2)[OF ok1] by (simp add: with_bitmap_def img_ok_update)
  show "own s ROOTINO \<subseteq> {nmeta..<nmeta + blocks_needed fs}" if "length (snd (hd fs)) mod BSIZE \<noteq> 0"
    using R(5) that files_okD(5)[OF ok1 root(1)] r by (simp add: represents_def)
  show "length (img s) = FSSIZE" using R(1) files_okD(2)[OF ok1] by (simp add: with_bitmap_def img_ok_def)
  show "img s ! b = low_blocks b" if "b < 2 + nlog" for b
    using R(1) iblock_bounds(1)[OF ib] that r by (simp add: with_bitmap_def represents_def)
  show "img s ! (2 + nlog + ninodeblocks) = mk_bitmap (nmeta + blocks_needed fs)"
    using R(1) iblock_bounds(2)[OF ib] r bm nmeta_pos files_okD(2)[OF ok1] by (simp add: with_bitmap_def represents_def img_ok_def)
  have nr: "of_nat (Suc k) \<noteq> ROOTINO" if "0 < k" "k < length fs" for k
    using that l unat_inum[of "Suc k"] by (auto simp: ROOTINO_def word_unat_eq_iff simp del: of_nat_Suc)
  show k: "attr (node s (of_nat (Suc k))) = fst (fs ! k) \<and> file_of s (of_nat (Suc k)) = snd (fs ! k) \<and>
       own s (of_nat (Suc k)) \<subseteq> {nmeta..<nmeta + blocks_needed fs}" if "0 < k" "k < length fs" for k
    using R(6) iu[OF that(2)] nr[OF that] r that files_okD(5)[OF ok1 iu[OF that(2)]] by (simp add: represents_def del: of_nat_Suc)
  show "own s (of_nat (Suc j)) \<inter> own s (of_nat (Suc k)) = {}" if "0 < j" "j < k" "k < length fs" for j k
  proof -
    have "of_nat (Suc j) \<noteq> (of_nat (Suc k) :: uint)"
      using that l unat_inum[of "Suc k"] unat_inum[of "Suc j"] by (auto simp: word_unat_eq_iff simp del: of_nat_Suc)
    then show ?thesis using R(6) iu[of j] iu[of k] nr[of j] nr[of k] files_okD(4)[OF ok1] that by (simp del: of_nat_Suc)
  qed
qed

text \<open>
  C31. If the host has all the files and they fit, \<open>mkfs\<close> makes an image in which the kernel finds the super block that it
  needs, an empty log, a free map with exactly the blocks in use, in the root directory the entries \<open>.\<close>, \<open>..\<close> and one for
  each file, in order and followed by zeros, and under the inode of each entry a file with the bytes that the host has; no two of
  these files share a block.
\<close>

theorem mkfs_builds:
  assumes "2 \<le> length argv" "\<forall>a \<in> set (drop 2 argv). arg_ok host a" "fits (mkfs_spec host (drop 2 argv))"
  shows "\<exists>s. mkfs_main host argv = Inr s \<and> length (img s) = FSSIZE \<and> sb_of_block (img s ! 1) = mk_sb \<and>
    (\<forall>b. 2 \<le> b \<and> b < 2 + nlog \<longrightarrow> img s ! b = zeroes) \<and>
    (\<forall>b < BPB. bmap_bit b (img s ! unat (BBLOCK 0 mk_sb)) \<longleftrightarrow> b < nmeta + blocks_needed (mkfs_spec host (drop 2 argv))) \<and>
    attr (node s ROOTINO) = (T_DIR, 0, 0, 1) \<and>
    take (length (root_dir (drop 2 argv))) (file_of s ROOTINO) = root_dir (drop 2 argv) \<and>
    (length (root_dir (drop 2 argv)) mod BSIZE \<noteq> 0 \<longrightarrow>
       file_of s ROOTINO = padded (blocks_of (length (root_dir (drop 2 argv)))) (root_dir (drop 2 argv))) \<and>
    (\<forall>k < length argv - 2. attr (node s (of_nat (k + 2))) = (T_FILE, 0, 0, 1) \<and>
       file_of s (of_nat (k + 2)) = concat (the (host (argv ! (k + 2)))) \<and>
       own s (of_nat (k + 2)) \<subseteq> {nmeta..<nmeta + blocks_needed (mkfs_spec host (drop 2 argv))} \<and>
       (\<forall>j < k. own s (of_nat (j + 2)) \<inter> own s (of_nat (k + 2)) = {}))"
proof -
  let ?fs = "mkfs_spec host (drop 2 argv)" and ?c = "root_dir (drop 2 argv)"
  obtain s1 s where r: "represents s1 ?fs" and m: "mkfs_main host argv = Inr s" and f: "fix_root ROOTINO (with_bitmap s1) = Inr s"
    using mkfs_main_steps[OF assms] by blast
  have hd: "hd ?fs = ((T_DIR, 0, 0, 1), ?c)" "length ?fs = Suc (length argv - 2)" by (simp_all add: mkfs_spec_def)
  note I = image_files[OF r assms(3) _ f, unfolded hd fst_conv snd_conv]
  have used: "nmeta + blocks_needed ?fs \<le> BPB" using assms(3) by (simp add: fits_def FSSIZE_def BPB_def BSIZE_def)
  have bb: "unat (BBLOCK 0 mk_sb) = 2 + nlog + ninodeblocks"
    by (simp add: BBLOCK_def mk_sb_def nlog_def ninodeblocks_def LOGSIZE_def MAXOPBLOCKS_def NINODES_def IPB_def BSIZE_def)
  have sb: "sb_of_block (img s ! 1) = mk_sb" using I(2)[of 1] by (simp add: low_blocks_def sb_of_sb_bytes mkfs_spec_def)
  have lg: "\<forall>b. 2 \<le> b \<and> b < 2 + nlog \<longrightarrow> img s ! b = zeroes" using I(2) by (simp add: low_blocks_def mkfs_spec_def)
  have "?fs ! Suc k = ((T_FILE, 0, 0, 1), concat (the (host (argv ! (k + 2)))))" if "k < length argv - 2" for k
    using that by (simp add: mkfs_spec_def add.commute)
  then have fl: "attr (node s (of_nat (k + 2))) = (T_FILE, 0, 0, 1) \<and> file_of s (of_nat (k + 2)) = concat (the (host (argv ! (k + 2)))) \<and>
       own s (of_nat (k + 2)) \<subseteq> {nmeta..<nmeta + blocks_needed ?fs} \<and>
       (\<forall>j < k. own s (of_nat (j + 2)) \<inter> own s (of_nat (k + 2)) = {})" if "k < length argv - 2" for k
    using that I(7)[of "Suc k"] I(8)[of "Suc _" "Suc k"] by (simp add: mkfs_spec_def del: of_nat_Suc)
  show ?thesis using m I(1,4,5,6) sb lg fl bmap_bit_mk_bitmap[OF used] I(3)
    by (intro exI[of _ s]) (simp add: mkfs_spec_def bb)
qed

definition demo_host :: "uint8 list \<Rightarrow> uint8 list list option" where
  "demo_host a = (if a = bytes_of ''user/_cat'' then Some [[1, 2], [3]] else None)"

definition demo_args :: "uint8 list list" where
  "demo_args = [bytes_of ''mkfs'', bytes_of ''fs.img'', bytes_of ''user/_cat'']"

lemma demo_fits: "fits (mkfs_spec demo_host (drop 2 demo_args))"
proof -
  have "length (root_dir (drop 2 demo_args)) = 48" by (simp add: root_dir_def dots_def entries_def length_dirent demo_args_def)
  then show ?thesis
    by (simp add: mkfs_spec_def fits_def blocks_needed_def demo_args_def demo_host_def need_def blocks_of_def nmeta_def nlog_def ninodeblocks_def
        nbitmap_def FSSIZE_def NINODES_def BSIZE_def IPB_def LOGSIZE_def MAXOPBLOCKS_def MAXFILE_def NDIRECT_def NINDIRECT_def)
qed

theorem mkfs_builds_witness:
  "\<exists>s. mkfs_main demo_host demo_args = Inr s \<and> sb_of_block (img s ! 1) = mk_sb \<and> file_of s 2 = [1, 2, 3] \<and>
     take 48 (file_of s ROOTINO) = dots @ mk_dirent 2 (bytes_of ''cat'')"
proof -
  have r: "root_dir (drop 2 demo_args) = dots @ mk_dirent 2 (bytes_of ''cat'')" "length (root_dir (drop 2 demo_args)) = 48"
    by (simp_all add: root_dir_def dots_def entries_def demo_args_def fs_name_def shortname_def bytes_of_def length_dirent)
  have a: "2 \<le> length demo_args" "\<forall>a \<in> set (drop 2 demo_args). arg_ok demo_host a"
    by (simp_all add: demo_args_def arg_ok_def demo_host_def shortname_def bytes_of_def)
  from mkfs_builds[OF a demo_fits] obtain s where s: "mkfs_main demo_host demo_args = Inr s" "sb_of_block (img s ! 1) = mk_sb"
    "take (length (root_dir (drop 2 demo_args))) (file_of s ROOTINO) = root_dir (drop 2 demo_args)"
    "\<forall>k < length demo_args - 2. file_of s (of_nat (k + 2)) = concat (the (demo_host (demo_args ! (k + 2))))"
    by blast
  have "file_of s 2 = [1, 2, 3]" using s(4)[rule_format, of 0] by (simp add: demo_args_def demo_host_def)
  with s(1,2) s(3)[unfolded r(2), unfolded r(1)] show ?thesis by blast
qed

end
