(* ===== verification/BlockIO.thy ===== *)
theory BlockIO
  imports BioProofs VirtioProofs
begin

text \<open>
  Reading blocks: a process that reads a block gets what the disk has, from the cache or through the driver. The disk is
  outside of the kernel; what is used of it is that it answers a request to read and interrupts, after which the scheduler runs the
  process again.
\<close>

section \<open>The hart\<close>

text \<open>Process \<open>p\<close> runs on the hart, outside of critical sections.\<close>

definition calm :: "nat \<Rightarrow> hst \<Rightarrow> bool" where
  "calm p h \<longleftrightarrow> hart_ok h \<and> unlocked h \<and> c_noff (mycpu h) = 0 \<and> c_proc (mycpu h) = Some p"

lemma calm_settle [simp]: "calm p (settle h) = calm p h"
  by (simp add: calm_def)

lemma calmD:
  assumes "calm p h"
  shows "hart_ok h" "unlocked h" "\<And>lk. lock_free lk h" "c_noff (mycpu h) = 0" "c_proc (mycpu h) = Some p"
    "can_wake h" "\<And>lk. (\<And>q. lk \<noteq> ProcLock q) \<Longrightarrow> can_wake (locked lk h)"
  using assms by (auto simp: calm_def unlocked_def can_wake_def hart_ok_locked)

lemma locked_holds: "c_noff (mycpu h) = 0 \<Longrightarrow> c_noff (mycpu (locked lk h)) = 1 \<and> holding lk (locked lk h)"
  by (simp add: locked_def hart_defs)

lemma resumed_calm:
  assumes "resumed p h" and "\<forall>lk. lk \<noteq> ProcLock p \<longrightarrow> lock_free lk h"
  shows "\<exists>g. release (ProcLock p) (mycpu_update (\<lambda>c. c\<lparr>c_intena := i\<rparr>) h) = Inr g \<and> calm p g"
proof -
  obtain g where g: "release (ProcLock p) (mycpu_update (\<lambda>c. c\<lparr>c_intena := i\<rparr>) h) = Inr g" "lock_free (ProcLock p) g"
      "c_noff (mycpu g) = 0" "c_proc (mycpu g) = Some p" "\<forall>lk. lk \<noteq> ProcLock p \<longrightarrow> locks g lk = locks h lk"
    using yield_back[OF assms(1), of i] by blast
  have "lock_free lk g" for lk using g(2,5) assms(2) by (cases "lk = ProcLock p") (auto simp: lock_free_def)
  with g show ?thesis by (auto simp: calm_def unlocked_def hart_ok_def)
qed

section \<open>The disk\<close>

text \<open>The request at descriptor \<open>i\<close> to read the block at \<open>sector\<close> into buffer \<open>b\<close>, in the ring for the device.\<close>

definition read_request :: "disk \<Rightarrow> nat \<Rightarrow> nat \<Rightarrow> uint64 \<Rightarrow> bool" where
  "read_request k i b sector \<longleftrightarrow>
     avail_ring k (unat (avail_idx k - 1) mod NUM) = of_nat i \<and> i < NUM \<and>
     ops k i = \<lparr>rq_type = VIRTIO_BLK_T_IN, rq_reserved = 0, rq_sector = sector\<rparr> \<and> info_b k i = Some b \<and>
     (\<exists>j l. desc k i = \<lparr>vd_addr = OpAddr i, vd_len = 16, vd_flags = VRING_DESC_F_NEXT, vd_next = of_nat j\<rparr> \<and>
       desc k j = \<lparr>vd_addr = DataAddr b, vd_len = of_nat BSIZE, vd_flags = VRING_DESC_F_WRITE OR VRING_DESC_F_NEXT, vd_next = of_nat l\<rparr> \<and>
       desc k l = \<lparr>vd_addr = StatusAddr i, vd_len = 1, vd_flags = VRING_DESC_F_WRITE, vd_next = 0\<rparr>)"

text \<open>What of a process and of the kernel's data stays while a process waits for the disk.\<close>

definition ident :: "proc \<Rightarrow> cint \<times> uint64" where
  "ident x = (p_pid x, p_pagetable x)"

definition rest :: "'a dst_scheme \<Rightarrow> mst \<times> 'a" where
  "rest d = (km d, dst.more d)"

text \<open>
  A disk with the blocks \<open>B\<close>: when a process waits for a request to read, the disk stores the block in the buffer, the
  interrupt handler marks the buffer and wakes the process, and the scheduler runs it again; other processes leave the file system alone.
\<close>

definition disk_serves :: "'a dst_scheme env \<Rightarrow> (uint64 \<Rightarrow> uint8 list) \<Rightarrow> bool" where
  "disk_serves E B \<longleftrightarrow> (\<forall>p h d b i sector.
     p < NPROC \<and> p_state (procs d p) = SLEEPING \<and> p_chan (procs d p) = Some (ChanBuf b) \<and> sched_inv d \<and>
     b_disk (bufs d b) \<and> read_request (disk d) i b sector \<longrightarrow>
     (\<exists>h' d'. e_swt E p (h, d) = Inr (h', d') \<and> resumed p h' \<and> (\<forall>lk. lk \<noteq> ProcLock p \<longrightarrow> lock_free lk h') \<and>
        sched_inv d' \<and> p_state (procs d' p) = RUNNING \<and> ident (procs d' p) = ident (procs d p) \<and>
        bufs d' = (bufs d)(b := (bufs d b)\<lparr>b_data := B sector, b_disk := False\<rparr>) \<and>
        desc (disk d') = desc (disk d) \<and> dfree (disk d') = dfree (disk d) \<and> sleeplocks d' = sleeplocks d \<and> rest d' = rest d))"

text \<open>Process \<open>p\<close> may do file system operations.\<close>

definition at_work :: "nat \<Rightarrow> 'a pst_scheme \<Rightarrow> bool" where
  "at_work p d \<longleftrightarrow> p < NPROC \<and> sched_inv d \<and> p_state (procs d p) = RUNNING"

lemma globals_parts: "globals d' = globals d \<Longrightarrow> sleeplocks d' = sleeplocks d \<and> bufs d' = bufs d \<and> disk d' = disk d \<and> rest d' = rest d"
  by (cases d; cases d') (simp add: globals_def rest_def)

lemma wakeupS_running:
  assumes "can_wake h" and "c_proc (mycpu h) = Some p" and "at_work p d"
  shows "\<exists>d'. wakeupS ch (h, d) = Inr ((), (settle h, d')) \<and> at_work p d' \<and> globals d' = globals d \<and> procs d' p = procs d p"
proof -
  have h: "hart_ok h" "\<forall>q < NPROC. Some q \<noteq> c_proc (mycpu h) \<longrightarrow> lock_free (ProcLock q) h" "sched_inv d"
    using assms by (auto simp: can_wake_def at_work_def)
  obtain d' where "wakeup (Some ch) (h, d) = Inr (settle h, d')" "sched_inv d'" "globals d' = globals d"
      "procs d' = woken (Some ch) (c_proc (mycpu h)) [0..<NPROC] d"
    using wakeup_frame[OF h] by blast
  then show ?thesis using assms by (auto simp: wakeupS_def woken_def sleeper_def at_work_def)
qed

text \<open>Sleeping on a buffer until the disk has answered.\<close>

lemma sleep_for_disk:
  assumes E: "disk_serves E B" and h: "calm p h" and d: "at_work p d" and r: "read_request (disk d) i b sector" and b: "b_disk (bufs d b)"
  shows "\<exists>g d'. sleepS E (ChanBuf b) VdiskLock (locked VdiskLock h, d) = Inr ((), (locked VdiskLock g, d')) \<and> calm p g \<and> at_work p d' \<and>
    ident (procs d' p) = ident (procs d p) \<and> bufs d' = (bufs d)(b := (bufs d b)\<lparr>b_data := B sector, b_disk := False\<rparr>) \<and>
    desc (disk d') = desc (disk d) \<and> dfree (disk d') = dfree (disk d) \<and> sleeplocks d' = sleeplocks d \<and> rest d' = rest d"
proof -
  note C = calmD[OF h]
  let ?h = "locked VdiskLock h"
  have hh: "hart_ok ?h" "c_proc (mycpu ?h) = Some p" "c_noff (mycpu ?h) = 1" "holding VdiskLock ?h" "lock_free (ProcLock p) ?h"
    using C locked_holds[of h VdiskLock] by (simp_all add: hart_ok_locked)
  obtain d1 where d1: "sched_inv d1" "procs d1 = (procs d)(p := (procs d p)\<lparr>p_chan := Some (ChanBuf b), p_state := SLEEPING\<rparr>)"
      "globals d1 = globals d"
    and sl: "sleep (e_swt E) (ChanBuf b) VdiskLock (?h, d) = bindR (e_swt E p (asleep_h p VdiskLock ?h, d1)) (\<lambda>(h', d).
      bindR (bindR (release (ProcLock p) (mycpu_update (\<lambda>c. c\<lparr>c_intena := c_intena (mycpu ?h)\<rparr>) h')) (acquire VdiskLock))
        (\<lambda>h. Inr (h, upd_proc p (\<lambda>x. x\<lparr>p_chan := None\<rparr>) d)))"
    using sleep_switch[OF hh, of d "ChanBuf b" "e_swt E"] d by (auto simp: at_work_def)
  note G = globals_parts[OF d1(3)]
  obtain h2 d2 where e: "e_swt E p (asleep_h p VdiskLock ?h, d1) = Inr (h2, d2)" "resumed p h2"
      "\<forall>lk. lk \<noteq> ProcLock p \<longrightarrow> lock_free lk h2" "sched_inv d2" "p_state (procs d2 p) = RUNNING" "ident (procs d2 p) = ident (procs d1 p)"
      "bufs d2 = (bufs d1)(b := (bufs d1 b)\<lparr>b_data := B sector, b_disk := False\<rparr>)"
      "desc (disk d2) = desc (disk d1)" "dfree (disk d2) = dfree (disk d1)" "sleeplocks d2 = sleeplocks d1" "rest d2 = rest d1"
    using E[unfolded disk_serves_def, rule_format, of p d1 b i sector "asleep_h p VdiskLock ?h"] d d1(1,2) r b G
    by (auto simp: at_work_def)
  obtain g where g: "release (ProcLock p) (mycpu_update (\<lambda>c. c\<lparr>c_intena := c_intena (mycpu ?h)\<rparr>) h2) = Inr g" "calm p g"
    using resumed_calm[OF e(2,3)] by blast
  let ?d' = "upd_proc p (\<lambda>x. x\<lparr>p_chan := None\<rparr>) d2"
  have "sleepS E (ChanBuf b) VdiskLock (?h, d) = Inr ((), (locked VdiskLock g, ?d'))"
    using calmD(3)[OF g(2)] g(1) e(1) by (simp add: sleepS_def sl doS_def acquire_free)
  moreover have "at_work p ?d'" using e(4,5) d by (auto simp: at_work_def intro: sched_inv_upd_proc)
  moreover have "ident (procs ?d' p) = ident (procs d p)" using e(6) d1(2) by (simp add: ident_def)
  moreover have "globals ?d' = globals d2" by simp
  ultimately show ?thesis using g(2) e(7-11) G globals_parts[of ?d' d2]
    by (intro exI[of _ g] exI[of _ ?d']) simp
qed

lemma submitted_request:
  assumes "distinct [i0, i1, i2]" "i0 < NUM" "i1 < NUM" "i2 < NUM"
  shows "read_request (submit_request b i0 (format_request b False sector i0 i1 i2 k)) i0 b sector"
    "desc (submit_request b i0 (format_request b False sector i0 i1 i2 k)) = desc (format_request b False sector i0 i1 i2 k)"
    "dfree (submit_request b i0 (format_request b False sector i0 i1 i2 k)) = dfree k"
  using assms by (auto simp: read_request_def submit_request_def format_request_def Let_def upd_desc_def)

lemma free_list_three:
  assumes "3 \<le> length (free_list k)"
  shows "\<exists>i0 i1 i2. take 3 (free_list k) = [i0, i1, i2] \<and> distinct [i0, i1, i2] \<and> i0 < NUM \<and> i1 < NUM \<and> i2 < NUM \<and>
    dfree k i0 \<and> dfree k i1 \<and> dfree k i2"
proof -
  from assms obtain i0 i1 i2 r where F: "free_list k = i0 # i1 # i2 # r"
    by (metis One_nat_def Suc_le_length_iff numeral_3_eq_3)
  have "distinct (free_list k)" "\<And>i. i \<in> set (free_list k) \<Longrightarrow> i < NUM \<and> dfree k i" by (auto simp: free_list_def)
  with F show ?thesis by (auto simp: numeral_3_eq_3)
qed

lemma free_desc_running:
  assumes "can_wake h" and "c_proc (mycpu h) = Some p" and "at_work p d" and "i < NUM" and "\<not> dfree (disk d) i"
  shows "\<exists>d'. free_desc i (h, d) = Inr ((), (settle h, d')) \<and> at_work p d' \<and> procs d' p = procs d p \<and> bufs d' = bufs d \<and>
    sleeplocks d' = sleeplocks d \<and> rest d' = rest d \<and>
    disk d' = (upd_desc i (\<lambda>_. desc0) (disk d))\<lparr>dfree := (dfree (disk d))(i := True)\<rparr>"
proof -
  let ?d = "upd_disk (\<lambda>k. (upd_desc i (\<lambda>_. desc0) k)\<lparr>dfree := (dfree k)(i := True)\<rparr>) d"
  have "at_work p ?d" using assms(3) by (simp add: at_work_def) (simp add: upd_disk_def)
  from wakeupS_running[OF assms(1,2) this, of ChanDiskFree] obtain d' where
    d': "wakeupS ChanDiskFree (h, ?d) = Inr ((), (settle h, d'))" "at_work p d'" "globals d' = globals ?d" "procs d' p = procs ?d p"
    by blast
  have "free_desc i (h, d) = Inr ((), (settle h, d'))" using assms(4,5) d'(1) by (simp add: free_desc_def)
  moreover have "procs ?d = procs d" "bufs ?d = bufs d" "sleeplocks ?d = sleeplocks d" "rest ?d = rest d"
    by (simp_all add: upd_disk_def rest_def)
  ultimately show ?thesis using d'(2,4) globals_parts[OF d'(3)] by (intro exI[of _ d']) simp
qed

lemma free_three:
  assumes "can_wake h" and "c_proc (mycpu h) = Some p" and "at_work p d" and "distinct [i0, i1, i2]"
    and "\<forall>j \<in> {i0, i1, i2}. j < NUM \<and> \<not> dfree (disk d) j" and "desc_chain (disk d) [i0, i1, i2]"
  shows "\<exists>d'. free_chain i0 (h, d) = Inr ((), (settle h, d')) \<and> at_work p d' \<and> procs d' p = procs d p \<and> bufs d' = bufs d \<and>
    sleeplocks d' = sleeplocks d \<and> rest d' = rest d \<and> dfree (disk d') = (\<lambda>j. j \<in> {i0, i1, i2} \<or> dfree (disk d) j)"
proof -
  obtain d1 where d1: "free_desc i0 (h, d) = Inr ((), (settle h, d1))" "at_work p d1" "procs d1 p = procs d p" "bufs d1 = bufs d"
      "sleeplocks d1 = sleeplocks d" "rest d1 = rest d" "disk d1 = (upd_desc i0 (\<lambda>_. desc0) (disk d))\<lparr>dfree := (dfree (disk d))(i0 := True)\<rparr>"
    using free_desc_running[OF assms(1,2,3), of i0] assms(5) by auto
  have h: "can_wake (settle h)" "c_proc (mycpu (settle h)) = Some p" using assms(1,2) by simp_all
  have "i1 < NUM" "\<not> dfree (disk d1) i1" using assms(4,5) by (auto simp: d1(7))
  from free_desc_running[OF h d1(2) this] obtain d2 where d2: "free_desc i1 (settle h, d1) = Inr ((), (settle h, d2))" "at_work p d2"
      "procs d2 p = procs d p" "bufs d2 = bufs d" "sleeplocks d2 = sleeplocks d" "rest d2 = rest d"
      "disk d2 = (upd_desc i1 (\<lambda>_. desc0) (disk d1))\<lparr>dfree := (dfree (disk d1))(i1 := True)\<rparr>" by (auto simp: d1)
  have "i2 < NUM" "\<not> dfree (disk d2) i2" using assms(4,5) by (auto simp: d1(7) d2(7))
  from free_desc_running[OF h d2(2) this] obtain d3 where d3: "free_desc i2 (settle h, d2) = Inr ((), (settle h, d3))" "at_work p d3"
      "procs d3 p = procs d p" "bufs d3 = bufs d" "sleeplocks d3 = sleeplocks d" "rest d3 = rest d"
      "disk d3 = (upd_desc i2 (\<lambda>_. desc0) (disk d2))\<lparr>dfree := (dfree (disk d2))(i2 := True)\<rparr>" by (auto simp: d2)
  have c: "vd_flags (desc (disk d) i0) AND VRING_DESC_F_NEXT \<noteq> 0" "unat (vd_next (desc (disk d) i0)) = i1"
    "vd_flags (desc (disk d) i1) AND VRING_DESC_F_NEXT \<noteq> 0" "unat (vd_next (desc (disk d) i1)) = i2"
    "vd_flags (desc (disk d) i2) AND VRING_DESC_F_NEXT = 0" using assms(6) by auto
  have e: "desc (disk d1) i1 = desc (disk d) i1" "desc (disk d2) i2 = desc (disk d) i2" using assms(4) by (auto simp: d1(7) d2(7) upd_desc_def)
  obtain m where n: "NUM + 1 = Suc (Suc (Suc m))" by (auto simp: NUM_def)
  have "free_chain i0 (h, d) = Inr ((), (settle h, d3))"
    unfolding free_chain_def n using d1(1) d2(1) d3(1) c e by simp
  moreover have "dfree (disk d3) = (\<lambda>j. j \<in> {i0, i1, i2} \<or> dfree (disk d) j)" by (auto simp: d1(7) d2(7) d3(7) fun_eq_iff upd_desc_def)
  ultimately show ?thesis using d3 by (intro exI[of _ d3]) simp
qed

lemma sleep_rounds_once:
  "cond d \<Longrightarrow> sleepS E ch lk (h, d) = Inr ((), (h', d')) \<Longrightarrow> \<not> cond d' \<Longrightarrow>
    sleep_rounds (Suc (Suc n)) E cond ch lk (h, d) = Inr ((), (h', d'))"
  by simp

declare sleep_rounds.simps [simp del]

text \<open>The driver reads the block into the buffer.\<close>

definition sector_of :: "uint \<Rightarrow> uint64" where
  "sector_of bn = ucast (bn * of_nat (BSIZE div 512))"

lemma disk_rw_reads:
  assumes E: "disk_serves E B" "1 < e_fuel E" and h: "calm p h" and d: "at_work p d" and fr: "3 \<le> length (free_list (disk d))"
  shows "\<exists>g d'. virtio_disk_rw E b False (h, d) = Inr ((), (g, d')) \<and> calm p g \<and> at_work p d' \<and> ident (procs d' p) = ident (procs d p) \<and>
    bufs d' = (bufs d)(b := (bufs d b)\<lparr>b_data := B (sector_of (b_blockno (bufs d b))), b_disk := False\<rparr>) \<and>
    dfree (disk d') = dfree (disk d) \<and> sleeplocks d' = sleeplocks d \<and> rest d' = rest d"
proof -
  let ?sec = "sector_of (b_blockno (bufs d b))"
  note C = calmD[OF h]
  obtain i0 i1 i2 where i: "take 3 (free_list (disk d)) = [i0, i1, i2]" "distinct [i0, i1, i2]" "i0 < NUM" "i1 < NUM" "i2 < NUM"
    "dfree (disk d) i0" "dfree (disk d) i1" "dfree (disk d) i2" using free_list_three[OF fr] by blast
  let ?k1 = "take_descs [i0, i1, i2] (disk d)"
  let ?k = "submit_request b i0 (format_request b False ?sec i0 i1 i2 ?k1)"
  let ?d1 = "d\<lparr>bufs := (bufs d)(b := (bufs d b)\<lparr>b_disk := True\<rparr>), disk := ?k, mmio_out := mmio_out d @ [(VIRTIO0 + VIRTIO_MMIO_QUEUE_NOTIFY, 0)]\<rparr>"
  note S = submitted_request[OF i(2-5), of b ?sec ?k1]
  have al: "alloc3_wait (e_fuel E) E (locked VdiskLock h, d) = Inr ([i0, i1, i2], (locked VdiskLock h, upd_disk (take_descs [i0, i1, i2]) d))"
    using alloc_descs_enough[OF fr, of "[]" "locked VdiskLock h"] E(2) i(1) by (cases "e_fuel E") (simp_all add: alloc3_desc_def)
  have w1: "at_work p ?d1" using d by (simp add: at_work_def sched_inv_cong[of ?d1 d])
  obtain g d2 where sl: "sleepS E (ChanBuf b) VdiskLock (locked VdiskLock h, ?d1) = Inr ((), (locked VdiskLock g, d2))" "calm p g" "at_work p d2"
      "ident (procs d2 p) = ident (procs ?d1 p)" "bufs d2 = (bufs ?d1)(b := (bufs ?d1 b)\<lparr>b_data := B ?sec, b_disk := False\<rparr>)"
      "desc (disk d2) = desc (disk ?d1)" "dfree (disk d2) = dfree (disk ?d1)" "sleeplocks d2 = sleeplocks ?d1" "rest d2 = rest ?d1"
    using sleep_for_disk[OF E(1) h w1, of i0 b ?sec] S(1) by auto
  obtain n where n: "e_fuel E = Suc (Suc n)" using less_imp_Suc_add[OF E(2)] by auto
  have wait: "sleep_while E (\<lambda>d. b_disk (bufs d b)) (ChanBuf b) VdiskLock (locked VdiskLock h, ?d1) = Inr ((), (locked VdiskLock g, d2))"
    using sl(1,5) by (simp add: sleep_while_def n sleep_rounds_once)
  let ?d3 = "upd_disk (\<lambda>k. k\<lparr>info_b := (info_b k)(i0 := None)\<rparr>) d2"
  note G = calmD[OF sl(2)]
  have w3: "at_work p ?d3" using sl(3) by (simp add: at_work_def) (simp add: upd_disk_def)
  have "dfree (disk ?d3) = (\<lambda>j. dfree (disk d) j \<and> j \<notin> {i0, i1, i2})" using sl(7) S(3) by (simp add: take_descs_def fun_eq_iff)
  moreover have "desc_chain (disk ?d3) [i0, i1, i2]"
    using format_request_chain(1)[OF i(2,4,5), of b False ?sec ?k1] sl(6) S(2) by (simp add: desc_chain_cong)
  ultimately obtain d4 where d4: "free_chain i0 (locked VdiskLock g, ?d3) = Inr ((), (locked VdiskLock g, d4))" "at_work p d4"
      "procs d4 p = procs ?d3 p" "bufs d4 = bufs ?d3" "sleeplocks d4 = sleeplocks ?d3" "rest d4 = rest ?d3"
      "dfree (disk d4) = (\<lambda>j. j \<in> {i0, i1, i2} \<or> dfree (disk ?d3) j)"
    using free_three[of "locked VdiskLock g" p ?d3 i0 i1 i2] G(7)[of VdiskLock] G(1,5) w3 i(2-5) by auto
  have "virtio_disk_rw E b False (h, d) = thenS (sleep_while E (\<lambda>d. b_disk (bufs d b)) (ChanBuf b) VdiskLock) (
      thenS (modD (upd_disk (\<lambda>k. k\<lparr>info_b := (info_b k)(i0 := None)\<rparr>))) (thenS (free_chain i0) (releaseS VdiskLock))) (locked VdiskLock h, ?d1)"
    using al C(3) by (simp add: virtio_disk_rw_def acquireS_free sector_of_def mmio_write_def Let_def upd_disk_def upd_buf_def)
  also have "\<dots> = Inr ((), (settle g, d4))"
    using wait d4(1) G(1,3) by (simp add: releaseS_locked)
  finally have "virtio_disk_rw E b False (h, d) = Inr ((), (settle g, d4))" .
  moreover have "procs ?d3 = procs d2" "bufs ?d3 = bufs d2" "sleeplocks ?d3 = sleeplocks d2" "rest ?d3 = rest d2"
    by (simp_all add: upd_disk_def rest_def)
  moreover have "dfree (disk d4) = dfree (disk d)" using d4(7) sl(7) S(3) i(6-8) by (auto simp: take_descs_def fun_eq_iff)
  ultimately show ?thesis using sl(2,4,5,8,9) d4(2-6) by (intro exI[of _ "settle g"] exI[of _ d4]) (simp add: rest_def)
qed

section \<open>The cache\<close>

text \<open>
  The cache over a disk with the blocks \<open>B\<close>, while process \<open>p\<close> works on it: it holds the buffers \<open>L\<close>, each with one reference more
  than \<open>r\<close> counts, and what is valid in the cache is what the disk has.
\<close>

definition cache_ok :: "(uint64 \<Rightarrow> uint8 list) \<Rightarrow> cint \<Rightarrow> (nat \<Rightarrow> uint) \<Rightarrow> nat set \<Rightarrow> 'a dst_scheme \<Rightarrow> bool" where
  "cache_ok B pid r L d \<longleftrightarrow> (\<exists>xs. linked (bufs d) xs \<and> set xs = {..<NBUF}) \<and> 3 \<le> length (free_list (disk d)) \<and>
     (\<forall>b < NBUF. (b_valid (bufs d b) \<longrightarrow> b_data (bufs d b) = B (sector_of (b_blockno (bufs d b)))) \<and>
        b_refcnt (bufs d b) = (if b \<in> L then r b + 1 else r b) \<and>
        (if b \<in> L then sl_locked (sleeplocks d (BufLk b)) \<and> sl_pid (sleeplocks d (BufLk b)) = pid else \<not> sl_locked (sleeplocks d (BufLk b))))"

definition io_ok :: "(uint64 \<Rightarrow> uint8 list) \<Rightarrow> nat \<Rightarrow> (nat \<Rightarrow> uint) \<Rightarrow> nat set \<Rightarrow> 'a dst_scheme kst \<Rightarrow> bool" where
  "io_ok B p r L s \<longleftrightarrow> calm p (fst s) \<and> at_work p (snd s) \<and> cache_ok B (p_pid (procs (snd s) p)) r L (snd s)"

text \<open>What reading leaves alone.\<close>

definition frame :: "nat \<Rightarrow> 'a dst_scheme \<Rightarrow> (cint \<times> uint64) \<times> (mst \<times> 'a) \<times> (nat \<Rightarrow> sleeplock)" where
  "frame p d = (ident (procs d p), rest d, \<lambda>i. sleeplocks d (InodeLk i))"

lemma length_linked: "linked bs xs \<Longrightarrow> set xs = {..<NBUF} \<Longrightarrow> length xs = NBUF"
  by (metis card_lessThan distinct_card linked_def)

lemma linked_cong:
  assumes "\<And>x. b_next (bs' x) = b_next (bs x) \<and> b_prev (bs' x) = b_prev (bs x)"
  shows "linked bs' xs = linked bs xs"
  using chain_cong[of bhead xs bs' bs bhead] assms by (simp add: linked_def)

lemma bget_choice_some:
  assumes "set xs = {..<NBUF}" and "\<exists>b < NBUF. b_refcnt (bs b) = 0"
  shows "\<exists>b < NBUF. bget_choice bs xs dev bn = Some b \<and> (b_dev (bs b) = dev \<and> b_blockno (bs b) = bn \<or> b_refcnt (bs b) = 0)"
proof (cases "List.find (\<lambda>b. b_dev (bs b) = dev \<and> b_blockno (bs b) = bn) xs")
  case (Some b)
  then show ?thesis using assms(1) find_Some_holds[OF Some] find_Some_mem[OF Some] by (auto simp: bget_choice_def)
next
  case None
  obtain b where b: "List.find (\<lambda>b. b_refcnt (bs b) = 0) (rev xs) = Some b"
    using assms find_None_fails[of "\<lambda>b. b_refcnt (bs b) = 0" "rev xs"] by (cases "List.find (\<lambda>b. b_refcnt (bs b) = 0) (rev xs)") auto
  then show ?thesis using None assms(1) find_Some_holds[OF b] find_Some_mem[OF b] by (auto simp: bget_choice_def)
qed

lemma got_sel [simp]:
  "b_next (got dev bn x) = b_next x" "b_prev (got dev bn x) = b_prev x" "b_blockno (got dev bn x) = bn" "b_data (got dev bn x) = b_data x"
  by (auto simp: got_def)

lemma upd_sl_dst [simp]:
  fixes d :: "'a dst_scheme"
  shows "bufs (upd_sl lk f d) = bufs d" "disk (upd_sl lk f d) = disk d" "rest (upd_sl lk f d) = rest d" "at_work p (upd_sl lk f d) = at_work p d"
    "disk (upd_buf b g d) = disk d" "rest (upd_buf b g d) = rest d" "at_work p (upd_buf b g d) = at_work p d"
proof -
  show "at_work p (upd_sl lk f d) = at_work p d" by (simp add: at_work_def)
  show "at_work p (upd_buf b g d) = at_work p d"
    using sched_inv_cong[of "upd_buf b g d" d] by (simp add: at_work_def) (simp add: upd_buf_def)
qed (simp_all add: upd_sl_def upd_buf_def rest_def)

lemma cache_okD:
  "cache_ok B pid r L d \<Longrightarrow> b < NBUF \<Longrightarrow> b_valid (bufs d b) \<Longrightarrow> b_data (bufs d b) = B (sector_of (b_blockno (bufs d b)))"
  by (simp add: cache_ok_def)

text \<open>The cache after \<open>bget\<close> has taken buffer \<open>b\<close>.\<close>

lemma cache_ok_got:
  assumes c: "cache_ok B pid r {} d" and b: "b < NBUF" "b_dev (bufs d b) = dev \<and> b_blockno (bufs d b) = bn \<or> b_refcnt (bufs d b) = 0"
  shows "cache_ok B pid r {b} (upd_sl (BufLk b) (\<lambda>l. l\<lparr>sl_locked := True, sl_pid := pid\<rparr>) (upd_buf b (got dev bn) d))"
proof -
  let ?d = "upd_sl (BufLk b) (\<lambda>l. l\<lparr>sl_locked := True, sl_pid := pid\<rparr>) (upd_buf b (got dev bn) d)"
  have d: "bufs ?d = (bufs d)(b := got dev bn (bufs d b))" "disk ?d = disk d"
    "sleeplocks ?d = (sleeplocks d)(BufLk b := (sleeplocks d (BufLk b))\<lparr>sl_locked := True, sl_pid := pid\<rparr>)"
    by simp_all
  have "linked (bufs ?d) xs = linked (bufs d) xs" for xs by (rule linked_cong) (simp add: d)
  moreover have "b_refcnt (got dev bn (bufs d b)) = r b + 1" using c b by (auto simp: got_def cache_ok_def)
  moreover have "b_valid (got dev bn (bufs d b)) \<longrightarrow> b_data (bufs d b) = B (sector_of bn)" using c b by (auto simp: got_def cache_ok_def)
  ultimately show ?thesis using c unfolding cache_ok_def d by auto
qed

lemma bread_reads:
  assumes E: "disk_serves E B" "1 < e_fuel E" and s: "io_ok B p r {} (h, d)" and r: "\<exists>b < NBUF. r b = 0"
  shows "\<exists>b g d'. bread E dev bn (h, d) = Inr (b, (g, d')) \<and> b < NBUF \<and> b_data (bufs d' b) = B (sector_of bn) \<and>
    io_ok B p r {b} (g, d') \<and> frame p d' = frame p d"
proof -
  have h: "calm p h" and w: "at_work p d" and c: "cache_ok B (p_pid (procs d p)) r {} d" using s by (simp_all add: io_ok_def)
  obtain xs where xs: "linked (bufs d) xs" "set xs = {..<NBUF}" using c by (auto simp: cache_ok_def)
  have "\<exists>b < NBUF. b_refcnt (bufs d b) = 0" using r c by (auto simp: cache_ok_def)
  from bget_choice_some[OF xs(2) this, of dev bn] obtain b where b: "b < NBUF" "bget_choice (bufs d) xs dev bn = Some b"
    "b_dev (bufs d b) = dev \<and> b_blockno (bufs d b) = bn \<or> b_refcnt (bufs d b) = 0" by blast
  let ?d1 = "upd_sl (BufLk b) (\<lambda>l. l\<lparr>sl_locked := True, sl_pid := p_pid (procs d p)\<rparr>) (upd_buf b (got dev bn) d)"
  have c1: "cache_ok B (p_pid (procs d p)) r {b} ?d1" using cache_ok_got[OF c b(1,3)] .
  have g: "bget E dev bn (h, d) = Inr (b, (settle h, ?d1))"
    using bget_eq[of h p E d xs dev bn] calmD[OF h] E(2) xs length_linked[OF xs] b c by (auto simp: cache_ok_def)
  have d1: "bufs ?d1 = (bufs d)(b := got dev bn (bufs d b))" "procs ?d1 = procs d" "frame p ?d1 = frame p d" "disk ?d1 = disk d"
    by (simp_all add: frame_def)
  have w1: "at_work p ?d1" using w by simp
  show ?thesis
  proof (cases "b_valid (bufs ?d1 b)")
    case True
    then have "bread E dev bn (h, d) = Inr (b, (settle h, ?d1))" using g by (simp add: bread_def)
    moreover have "b_data (bufs ?d1 b) = B (sector_of bn)" using True cache_okD[OF c1 b(1)] by simp
    moreover have "io_ok B p r {b} (settle h, ?d1)" using h w1 c1 by (simp add: io_ok_def)
    ultimately show ?thesis using b(1) d1(3) by blast
  next
    case False
    have fr: "3 \<le> length (free_list (disk ?d1))" using c1 by (simp add: cache_ok_def)
    have bn: "b_blockno (bufs ?d1 b) = bn" by (simp add: got_def)
    with disk_rw_reads[OF E _ w1 fr, of "settle h" b] h obtain g' d2 where
      v: "virtio_disk_rw E b False (settle h, ?d1) = Inr ((), (g', d2))" "calm p g'" "at_work p d2" "ident (procs d2 p) = ident (procs d p)"
        "bufs d2 = (bufs ?d1)(b := (bufs ?d1 b)\<lparr>b_data := B (sector_of bn), b_disk := False\<rparr>)" "dfree (disk d2) = dfree (disk ?d1)"
        "sleeplocks d2 = sleeplocks ?d1" "rest d2 = rest ?d1" by (auto simp: d1(2))
    let ?d3 = "upd_buf b (\<lambda>x. x\<lparr>b_valid := True\<rparr>) d2"
    have "bread E dev bn (h, d) = Inr (b, (g', ?d3))" using False g v(1) by (simp add: bread_def)
    moreover have "cache_ok B (p_pid (procs ?d3 p)) r {b} ?d3"
    proof -
      have d3: "bufs ?d3 = (bufs ?d1)(b := (bufs ?d1 b)\<lparr>b_data := B (sector_of bn), b_disk := False, b_valid := True\<rparr>)"
        "sleeplocks ?d3 = sleeplocks ?d1" "free_list (disk ?d3) = free_list (disk ?d1)" "p_pid (procs ?d3 p) = p_pid (procs d p)"
        using v by (simp_all add: upd_buf_def free_list_def ident_def)
      have "linked (bufs ?d3) ys = linked (bufs ?d1) ys" for ys by (rule linked_cong) (simp add: v(5))
      then show ?thesis using c1 unfolding cache_ok_def d3 by auto
    qed
    moreover have "at_work p ?d3" using v(3) by simp
    moreover have "frame p ?d3 = frame p d" using v(4,7,8) by (simp add: frame_def)
    moreover have "b_data (bufs ?d3 b) = B (sector_of bn)" using v(5) by simp
    ultimately show ?thesis using b(1) v(2) by (intro exI[of _ b] exI[of _ g'] exI[of _ ?d3]) (simp add: io_ok_def)
  qed
qed

text \<open>Letting a buffer go, which puts it at the front of the list when it was the last reference.\<close>

lemma releasesleep_running:
  fixes d :: "'a dst_scheme"
  assumes h: "calm p h" and d: "at_work p d"
  shows "\<exists>d'. releasesleep lk (h, d) = Inr ((), (settle h, d')) \<and> at_work p d' \<and> procs d' p = procs d p \<and> bufs d' = bufs d \<and>
    disk d' = disk d \<and> rest d' = rest d \<and> sleeplocks d' = (sleeplocks d)(lk := (sleeplocks d lk)\<lparr>sl_locked := False, sl_pid := 0\<rparr>)"
proof -
  let ?d = "upd_sl lk (\<lambda>l. l\<lparr>sl_locked := False, sl_pid := 0\<rparr>) d" and ?h = "locked (SleepLkLock lk) h"
  have "can_wake ?h" "c_proc (mycpu ?h) = Some p" "at_work p ?d" using calmD[OF h] d by auto
  from wakeupS_running[OF this] obtain d' where d': "wakeupS (ChanSleeplock lk) (?h, ?d) = Inr ((), (settle ?h, d'))" "at_work p d'"
    "globals d' = globals ?d" "procs d' p = procs ?d p" by blast
  have "releasesleep lk (h, d) = Inr ((), (settle h, d'))" using d'(1) calmD[OF h] by (simp add: releasesleep_def khart)
  then show ?thesis using d'(2,4) globals_parts[OF d'(3)] by auto
qed

lemma cache_ok_let_go:
  fixes d :: "'a dst_scheme"
  assumes c: "cache_ok B pid r {b} d" and b: "b < NBUF" and e: "disk e = disk d"
    "bufs e = (bufs d)(b := (bufs d b)\<lparr>b_refcnt := r b\<rparr>)"
    "sleeplocks e = (sleeplocks d)(BufLk b := (sleeplocks d (BufLk b))\<lparr>sl_locked := False, sl_pid := 0\<rparr>)"
  shows "cache_ok B pid r {} e" "cache_ok B pid r {} (e\<lparr>bufs := link_front b (unlink b (bufs e))\<rparr>)"
proof -
  obtain xs where xs: "linked (bufs d) xs" "set xs = {..<NBUF}" using c by (auto simp: cache_ok_def)
  have "linked (bufs e) xs = linked (bufs d) xs" by (rule linked_cong) (simp add: e)
  with xs(1) have l: "linked (bufs e) xs" by simp
  have bs: "(b_valid (bufs e x) \<longrightarrow> b_data (bufs e x) = B (sector_of (b_blockno (bufs e x)))) \<and> b_refcnt (bufs e x) = r x \<and>
    \<not> sl_locked (sleeplocks e (BufLk x))" if "x < NBUF" for x
    using c that unfolding cache_ok_def e by (auto split: if_splits)
  have fr: "3 \<le> length (free_list (disk e))" using c by (simp add: cache_ok_def e)
  show "cache_ok B pid r {} e" using l xs(2) bs fr unfolding cache_ok_def by auto
  have "linked (link_front b (unlink b (bufs e))) (b # remove1 b xs)" using l b xs(2) by (intro linked_to_front) auto
  moreover have "set (b # remove1 b xs) = {..<NBUF}" using l b xs(2) by (auto simp: linked_def)
  ultimately show "cache_ok B pid r {} (e\<lparr>bufs := link_front b (unlink b (bufs e))\<rparr>)"
    using bs fr unfolding cache_ok_def by (auto simp: link_front_sel unlink_sel)
qed

lemma bufs_update_frame [simp]:
  fixes d :: "'a dst_scheme"
  shows "at_work p (d\<lparr>bufs := f\<rparr>) = at_work p d" "rest (d\<lparr>bufs := f\<rparr>) = rest d"
  using sched_inv_cong[of "d\<lparr>bufs := f\<rparr>" d] by (simp_all add: at_work_def rest_def)

lemma brelse_done:
  assumes s: "io_ok B p r {b} (h, d)" and b: "b < NBUF"
  shows "\<exists>g d'. brelse b (h, d) = Inr ((), (g, d')) \<and> io_ok B p r {} (g, d') \<and> frame p d' = frame p d"
proof -
  have h: "calm p h" and w: "at_work p d" and c: "cache_ok B (p_pid (procs d p)) r {b} d" using s by (simp_all add: io_ok_def)
  have hold: "holdingsleep (BufLk b) (h, d) = Inr (True, (settle h, d))"
    using c b calmD[OF h] by (simp add: holdingsleep_eq cache_ok_def)
  from releasesleep_running[of p "settle h" d] h w obtain d1 where d1: "releasesleep (BufLk b) (settle h, d) = Inr ((), (settle h, d1))"
    "at_work p d1" "procs d1 p = procs d p" "bufs d1 = bufs d" "disk d1 = disk d" "rest d1 = rest d"
    "sleeplocks d1 = (sleeplocks d)(BufLk b := (sleeplocks d (BufLk b))\<lparr>sl_locked := False, sl_pid := 0\<rparr>)" by (metis calm_settle settle_settle)
  let ?e = "upd_buf b (\<lambda>x. x\<lparr>b_refcnt := b_refcnt x - 1\<rparr>) d1"
  let ?d2 = "if b_refcnt (bufs ?e b) = 0 then ?e\<lparr>bufs := link_front b (unlink b (bufs ?e))\<rparr> else ?e"
  have "brelse b (h, d) = Inr ((), (settle h, ?d2))"
    using hold d1(1) calmD[OF h] by (simp add: brelse_def khart)
  moreover have "b_refcnt (bufs d b) - 1 = r b" using c b by (simp add: cache_ok_def)
  then have "disk ?e = disk d" "bufs ?e = (bufs d)(b := (bufs d b)\<lparr>b_refcnt := r b\<rparr>)"
    "sleeplocks ?e = (sleeplocks d)(BufLk b := (sleeplocks d (BufLk b))\<lparr>sl_locked := False, sl_pid := 0\<rparr>)" using d1(4-7) by simp_all
  from cache_ok_let_go[OF c b this] have "cache_ok B (p_pid (procs d p)) r {} ?d2" by (simp only: if_split simp_thms)
  moreover have "at_work p ?d2" using d1(2) by simp
  moreover have "procs ?d2 p = procs d p" "frame p ?d2 = frame p d" using d1(3,6,7) by (simp_all add: frame_def)
  ultimately show ?thesis using h by (intro exI[of _ "settle h"] exI[of _ ?d2]) (simp only: io_ok_def fst_conv snd_conv calm_settle)
qed

section \<open>A disk that answers at once\<close>

text \<open>
  The machine while a process waits for a read: the disk stores the block of the newest request in the buffer, the handler
  wakes up the process, and the scheduler switches to it.
\<close>

definition back_hart :: "nat \<Rightarrow> hst" where
  "back_hart p = mycpu_update (\<lambda>c. c\<lparr>c_proc := Some p, c_noff := 1\<rparr>)
     ((hst0 0)\<lparr>locks := (locks (hst0 0))(ProcLock p := \<lparr>lk_locked = True, lk_name = [], lk_cpu = Some 0\<rparr>)\<rparr>)"

definition answer :: "(uint64 \<Rightarrow> uint8 list) \<Rightarrow> nat \<Rightarrow> 'a dst_scheme \<Rightarrow> 'a dst_scheme" where
  "answer B b d =
     (let k = disk d; i = unat (avail_ring k (unat (avail_idx k - 1) mod NUM))
      in upd_buf b (\<lambda>x. x\<lparr>b_data := B (rq_sector (ops k i)), b_disk := False\<rparr>) d)"

definition disk_env :: "(uint64 \<Rightarrow> uint8 list) \<Rightarrow> 'a dst_scheme env" where
  "disk_env B = demo_env\<lparr>e_fuel := 2, e_swt := (\<lambda>p (h, d). case p_chan (procs d p) of
     Some (ChanBuf b) \<Rightarrow> bindR (wakeup (Some (ChanBuf b)) (hst0 0, answer B b d)) (\<lambda>(_, d).
       Inr (back_hart p, upd_proc p (\<lambda>x. x\<lparr>p_state := RUNNING\<rparr>) d))
   | _ \<Rightarrow> Inl Spin)\<rparr>"

lemma back_hart_ok: "resumed p (back_hart p)" "lk \<noteq> ProcLock p \<Longrightarrow> lock_free lk (back_hart p)"
  by (simp_all add: back_hart_def resumed_def handed_back_def hst0_def hart_ok_def lock_free_def hart_defs)

lemma disk_env_serves: "disk_serves (disk_env B :: 'a dst_scheme env) B"
proof -
  have "\<exists>h' d'. e_swt (disk_env B) p (h, d) = Inr (h', d') \<and> resumed p h' \<and> (\<forall>lk. lk \<noteq> ProcLock p \<longrightarrow> lock_free lk h') \<and>
        sched_inv d' \<and> p_state (procs d' p) = RUNNING \<and> ident (procs d' p) = ident (procs d p) \<and>
        bufs d' = (bufs d)(b := (bufs d b)\<lparr>b_data := B sector, b_disk := False\<rparr>) \<and>
        desc (disk d') = desc (disk d) \<and> dfree (disk d') = dfree (disk d) \<and> sleeplocks d' = sleeplocks d \<and> rest d' = rest d"
    if p: "p < NPROC" "p_state (procs d p) = SLEEPING" "p_chan (procs d p) = Some (ChanBuf b)" "sched_inv d"
      and r: "read_request (disk d) i b sector" for p h b i sector and d :: "'a dst_scheme"
  proof -
    have i: "avail_ring (disk d) (unat (avail_idx (disk d) - 1) mod NUM) = of_nat i" "i < NUM" "rq_sector (ops (disk d) i) = sector"
      using r by (simp_all add: read_request_def)
    then have a: "answer B b d = upd_buf b (\<lambda>x. x\<lparr>b_data := B sector, b_disk := False\<rparr>) d"
      by (simp add: answer_def NUM_def unat_of_nat)
    have h: "hart_ok (hst0 0)" "\<forall>p < NPROC. Some p \<noteq> c_proc (mycpu (hst0 0)) \<longrightarrow> lock_free (ProcLock p) (hst0 0)" "c_proc (mycpu (hst0 0)) = None"
      by (simp_all add: hst0_def hart_ok_def lock_free_def hart_defs)
    have "sched_inv (answer B b d)" using p(4) sched_inv_cong[of "answer B b d" d] by (simp add: a upd_buf_def)
    from wakeup_frame[OF h(1,2) this, of "Some (ChanBuf b)"] obtain d1 where d1: "wakeup (Some (ChanBuf b)) (hst0 0, answer B b d) = Inr (settle (hst0 0), d1)"
      "sched_inv d1" "globals d1 = globals (answer B b d)" "procs d1 = woken (Some (ChanBuf b)) None [0..<NPROC] (answer B b d)" by (auto simp: h(3))
    have st: "p_state (procs d1 p) = RUNNABLE" "ident (procs d1 p) = ident (procs d p)"
      using p by (simp_all add: d1(4) woken_def sleeper_def a ident_def)
    let ?d2 = "upd_proc p (\<lambda>x. x\<lparr>p_state := RUNNING\<rparr>) d1"
    have "sched_inv ?d2" using d1(2) st(1) by (intro sched_inv_upd_proc) (auto simp: active_def)
    moreover have "e_swt (disk_env B) p (h, d) = Inr (back_hart p, ?d2)" using p(3) d1(1) by (simp add: disk_env_def)
    moreover have "ident (procs ?d2 p) = ident (procs d p)" using st(2) by (simp add: ident_def)
    ultimately show ?thesis using back_hart_ok globals_parts[OF d1(3)]
      by (intro exI[of _ "back_hart p"] exI[of _ ?d2]) (simp add: a upd_proc_def rest_def upd_buf_def)
  qed
  then show ?thesis unfolding disk_serves_def by blast
qed

lemma disk_env_fuel [simp]: "e_fuel (disk_env B) = 2"
  by (simp add: disk_env_def)

end
