(* ===== verification/FsRead.thy ===== *)
theory FsRead
  imports BlockIO LogProofs FsProofs
begin

text \<open>
  Reading files: on a disk with the blocks \<open>B\<close>, \<open>ilock\<close> loads the inode that the disk has, \<open>readi\<close> gives the bytes of the
  file, and \<open>dirlookup\<close> finds the entry of a directory. No operation changes the disk, and each gives back the buffers that it takes.
\<close>

section \<open>The bytes of a file\<close>

abbreviation block :: "(uint64 \<Rightarrow> uint8 list) \<Rightarrow> uint \<Rightarrow> uint8 list" where
  "block B bn \<equiv> B (sector_of bn)"

text \<open>Block number \<open>k\<close> of a file, and byte number \<open>i\<close>.\<close>

definition fblock :: "(uint64 \<Rightarrow> uint8 list) \<Rightarrow> inode \<Rightarrow> nat \<Rightarrow> uint" where
  "fblock B x k = (if k < NDIRECT then i_addrs x k else get32 (4 * (k - NDIRECT)) (block B (i_addrs x NDIRECT)))"

definition byte_at :: "(uint64 \<Rightarrow> uint8 list) \<Rightarrow> inode \<Rightarrow> nat \<Rightarrow> uint8" where
  "byte_at B x i = block B (fblock B x (i div BSIZE)) ! (i mod BSIZE)"

definition file_bytes :: "(uint64 \<Rightarrow> uint8 list) \<Rightarrow> inode \<Rightarrow> uint8 list" where
  "file_bytes B x = map (byte_at B x) [0..<unat (i_size x)]"

text \<open>The file has a block wherever it has a byte.\<close>

definition has_block :: "(uint64 \<Rightarrow> uint8 list) \<Rightarrow> inode \<Rightarrow> nat \<Rightarrow> bool" where
  "has_block B x k \<longleftrightarrow> k < MAXFILE \<and> fblock B x k \<noteq> 0 \<and> length (block B (fblock B x k)) = BSIZE \<and>
     (NDIRECT \<le> k \<longrightarrow> i_addrs x NDIRECT \<noteq> 0)"

definition mapped :: "(uint64 \<Rightarrow> uint8 list) \<Rightarrow> inode \<Rightarrow> bool" where
  "mapped B x \<longleftrightarrow> (\<forall>i < unat (i_size x). has_block B x (i div BSIZE))"

definition reader :: "'a dst_scheme env \<Rightarrow> (uint64 \<Rightarrow> uint8 list) \<Rightarrow> (nat \<Rightarrow> uint) \<Rightarrow> bool" where
  "reader E B r \<longleftrightarrow> disk_serves E B \<and> 1 < e_fuel E \<and> (\<exists>b < NBUF. r b = 0)"

lemma frame_fs:
  fixes d d' :: "'a fsst_scheme"
  shows "frame p d' = frame p d \<Longrightarrow> inodes d' = inodes d \<and> sb d' = sb d \<and> km d' = km d \<and> fsst.more d' = fsst.more d \<and>
    (\<forall>i. sleeplocks d' (InodeLk i) = sleeplocks d (InodeLk i)) \<and> ident (procs d' p) = ident (procs d p)"
  by (cases d; cases d') (simp add: frame_def rest_def fun_eq_iff)

lemma io_ok_settle [simp]: "io_ok B p r L (settle h, d) = io_ok B p r L (h, d)"
  by (simp add: io_ok_def)

lemma io_okD: "io_ok B p r L (h, d) \<Longrightarrow> calm p h \<and> at_work p d"
  by (simp add: io_ok_def)

lemma bread_uses:
  assumes "reader E B r" and "io_ok B p r {} (h, d)"
  obtains b g d' where "bread E dev bn (h, d) = Inr (b, (g, d'))" "b < NBUF" "b_data (bufs d' b) = block B bn"
    "io_ok B p r {b} (g, d')" "frame p d' = frame p d"
  using bread_reads[of E B p r h d dev bn] assms unfolding reader_def by blast

section \<open>bmap and readi\<close>

lemma bmap_found:
  assumes R: "reader E B r" and s: "io_ok B p r {} (h, d)" and k: "has_block B (inodes d ip) k"
  shows "\<exists>g d'. bmap E ip k (h, d) = Inr (fblock B (inodes d ip) k, (g, d')) \<and> io_ok B p r {} (g, d') \<and> frame p d' = frame p d"
proof (cases "k < NDIRECT")
  case True
  then show ?thesis using s k by (auto simp: bmap_def has_block_def fblock_def)
next
  case False
  let ?x = "inodes d ip"
  obtain b g d1 where b: "bread E (i_dev ?x) (i_addrs ?x NDIRECT) (h, d) = Inr (b, (g, d1))" "b < NBUF"
    "b_data (bufs d1 b) = block B (i_addrs ?x NDIRECT)" "io_ok B p r {b} (g, d1)" "frame p d1 = frame p d"
    using bread_uses[OF R s] by blast
  obtain g' d2 where d2: "brelse b (g, d1) = Inr ((), (g', d2))" "io_ok B p r {} (g', d2)" "frame p d2 = frame p d1"
    using brelse_done[OF b(4,2)] by blast
  have "k - NDIRECT < NINDIRECT" using k False by (auto simp: has_block_def MAXFILE_def)
  then have "bmap E ip k (h, d) = Inr (fblock B ?x k, (g', d2))"
    using False k b(1,3) d2(1) by (simp add: bmap_def has_block_def fblock_def bdata_def Let_def)
  with d2 b(5) show ?thesis by auto
qed

lemma segment_bytes:
  assumes "has_block B x (off div BSIZE)" and "off mod BSIZE + m \<le> BSIZE"
  shows "get_bytes (off mod BSIZE) m (block B (fblock B x (off div BSIZE))) = map (byte_at B x) [off..<off + m]"
proof (rule nth_equalityI)
  fix i assume "i < length (get_bytes (off mod BSIZE) m (block B (fblock B x (off div BSIZE))))"
  then have i: "i < m" using assms by (simp add: get_bytes_def has_block_def)
  have "(off + i) div BSIZE = off div BSIZE" "(off + i) mod BSIZE = off mod BSIZE + i"
    using assms(2) i div_mult_mod_eq[of off BSIZE] div_less[of "off mod BSIZE + i" BSIZE] mod_less[of "off mod BSIZE + i" BSIZE]
      div_mult_self3[of BSIZE "off div BSIZE" "off mod BSIZE + i"] mod_mult_self3[of "off div BSIZE" BSIZE "off mod BSIZE + i"]
    by (simp_all add: add.assoc[symmetric] BSIZE_def)
  then show "get_bytes (off mod BSIZE) m (block B (fblock B x (off div BSIZE))) ! i = map (byte_at B x) [off..<off + m] ! i"
    using i assms by (simp add: get_bytes_def byte_at_def has_block_def)
qed (use assms in \<open>simp add: get_bytes_def has_block_def\<close>)

lemma copyout_local: "calm p h \<Longrightarrow> either_copyout LocalDst bs (h, d) = Inr (0, (settle h, d))"
  using calmD[of p h] by (simp add: either_copyout_def myprocS_def myproc_eq bindS_def)

lemma readi_loop_reads:
  assumes R: "reader E B r" and "io_ok B p r {} (h, d)"
    and "\<forall>(off, m) \<in> set cs. has_block B (inodes d ip) (off div BSIZE) \<and> off mod BSIZE + m \<le> BSIZE"
  shows "\<exists>g d'. readi_loop E ip LocalDst tot acc cs (h, d) =
      Inr ((tot + of_nat (length (spans cs)), acc @ map (byte_at B (inodes d ip)) (spans cs)), (g, d')) \<and>
    io_ok B p r {} (g, d') \<and> frame p d' = frame p d"
  using assms(2,3)
proof (induction cs arbitrary: tot acc h d)
  case (Cons c cs)
  obtain off m where c: "c = (off, m)" by (cases c)
  let ?x = "inodes d ip" and ?a = "fblock B (inodes d ip) (off div BSIZE)"
  have hb: "has_block B ?x (off div BSIZE)" "off mod BSIZE + m \<le> BSIZE" using Cons.prems(2) by (auto simp: c)
  obtain g1 d1 where d1: "bmap E ip (off div BSIZE) (h, d) = Inr (?a, (g1, d1))" "io_ok B p r {} (g1, d1)" "frame p d1 = frame p d"
    using bmap_found[OF R Cons.prems(1) hb(1)] by blast
  obtain b g2 d2 where d2: "bread E (i_dev ?x) ?a (g1, d1) = Inr (b, (g2, d2))" "b < NBUF" "b_data (bufs d2 b) = block B ?a"
    "io_ok B p r {b} (g2, d2)" "frame p d2 = frame p d1" using bread_uses[OF R d1(2)] by blast
  obtain g3 d3 where d3: "brelse b (settle g2, d2) = Inr ((), (g3, d3))" "io_ok B p r {} (g3, d3)" "frame p d3 = frame p d2"
    using brelse_done[of B p r b "settle g2" d2] d2(2,4) by auto
  have fr: "frame p d3 = frame p d" using d3(3) d2(5) d1(3) by simp
  have x: "inodes d1 ip = ?x" "inodes d3 = inodes d" using frame_fs[OF d1(3)] frame_fs[OF fr] by simp_all
  have "readi_loop E ip LocalDst tot acc (c # cs) (h, d) =
      readi_loop E ip LocalDst (tot + of_nat m) (acc @ map (byte_at B ?x) [off..<off + m]) cs (g3, d3)"
    using d1(1) d2(1,3) d3(1) x(1) hb segment_bytes[OF hb] copyout_local[of p g2 _ d2] io_okD[OF d2(4)]
    by (simp add: c has_block_def bdata_def Let_def dst_plus_def)
  moreover have cs: "\<forall>(off, m) \<in> set cs. has_block B ?x (off div BSIZE) \<and> off mod BSIZE + m \<le> BSIZE" using Cons.prems(2) by simp
  obtain g d' where "readi_loop E ip LocalDst (tot + of_nat m) (acc @ map (byte_at B ?x) [off..<off + m]) cs (g3, d3) =
      Inr ((tot + of_nat m + of_nat (length (spans cs)), (acc @ map (byte_at B ?x) [off..<off + m]) @ map (byte_at B ?x) (spans cs)), (g, d'))"
    "io_ok B p r {} (g, d')" "frame p d' = frame p d3"
    using Cons.IH[OF d3(2), unfolded x(2), OF cs] by blast
  ultimately show ?case using fr by (auto simp: c add.assoc)
qed (auto simp: retS_def)

lemma chunks_has_block:
  assumes "mapped B x" and "off + n \<le> unat (i_size x)"
  shows "\<forall>(o', m) \<in> set (chunks off n). has_block B x (o' div BSIZE) \<and> o' mod BSIZE + m \<le> BSIZE"
proof (clarify)
  fix i m assume im: "(i, m) \<in> set (chunks off n)"
  have "i \<in> set (spans (chunks off n))" using im chunks_in_block[OF im] by (force simp: spans_def)
  then show "has_block B x (i div BSIZE) \<and> i mod BSIZE + m \<le> BSIZE"
    using assms chunks_in_block[OF im] by (auto simp: chunks_cover mapped_def)
qed

lemma take_drop_file: "take n (drop off (file_bytes B x)) = map (byte_at B x) [off..<min (off + n) (unat (i_size x))]"
  by (cases "off + n \<le> unat (i_size x)") (simp_all add: file_bytes_def take_map drop_map)

lemma readi_eq:
  assumes R: "reader E B r" and s: "io_ok B p r {} (h, d)" and m: "mapped B (inodes d ip)" and o: "off \<le> off + n"
    and bs: "bs = take (unat n) (drop (unat off) (file_bytes B (inodes d ip)))"
  shows "\<exists>g d'. readi E ip LocalDst off n (h, d) = Inr ((of_nat (length bs), bs), (g, d')) \<and> io_ok B p r {} (g, d') \<and> frame p d' = frame p d"
proof (cases "i_size (inodes d ip) < off")
  case True
  then have "bs = []" by (simp add: bs file_bytes_def word_less_nat_alt)
  then show ?thesis using True s by (auto simp: readi_def)
next
  case False
  let ?x = "inodes d ip"
  define k where "k = (if i_size ?x < off + n then i_size ?x - off else n)"
  have on: "unat (off + n) = unat off + unat n" using o by (simp add: no_olen_add_nat flip: unat_add_lem)
  have k: "unat off + unat k = min (unat off + unat n) (unat (i_size ?x))"
    using False on by (auto simp: k_def word_less_nat_alt unat_sub not_less word_le_nat_alt)
  have "readi E ip LocalDst off n (h, d) = readi_loop E ip LocalDst 0 [] (chunks (unat off) (unat k)) (h, d)"
    using False o by (simp add: readi_def k_def Let_def not_less[symmetric])
  moreover have "map (byte_at B ?x) (spans (chunks (unat off) (unat k))) = bs"
    by (simp add: bs take_drop_file chunks_cover k)
  moreover from this have "length (spans (chunks (unat off) (unat k))) = length bs" by (metis length_map)
  moreover note readi_loop_reads[OF R s chunks_has_block[OF m], of "unat off" "unat k" 0 "[]"]
  ultimately show ?thesis using k by (simp add: min.coboundedI2)
qed

section \<open>Inodes\<close>

lemma frame_upd:
  fixes d d' :: "'a fsst_scheme"
  assumes "frame p d' = frame p d"
  shows "frame p (upd_inode ip f d') = frame p (upd_inode ip f d)" "frame p (upd_sl lk g d') = frame p (upd_sl lk g d)"
  using assms by (cases d; cases d'; auto simp: frame_def rest_def upd_inode_def upd_sl_def fun_eq_iff)+

lemma io_ok_upd [simp]:
  fixes d :: "'a fsst_scheme"
  shows "io_ok B p r L (h, upd_inode ip f d) = io_ok B p r L (h, d)"
    "io_ok B p r L (h, upd_sl (InodeLk ip) g d) = io_ok B p r L (h, d)"
proof -
  show "io_ok B p r L (h, upd_inode ip f d) = io_ok B p r L (h, d)"
    using sched_inv_cong[of "upd_inode ip f d" d] by (simp add: io_ok_def at_work_def cache_ok_def upd_inode_def)
qed (simp add: io_ok_def cache_ok_def)

text \<open>The inode as \<open>ilock\<close> loads it.\<close>

definition loaded :: "(uint64 \<Rightarrow> uint8 list) \<Rightarrow> superblock \<Rightarrow> inode \<Rightarrow> inode" where
  "loaded B s x = (if i_valid x then x else (dinode_get (dinode_off (i_inum x)) (block B (IBLOCK (i_inum x) s)) x)\<lparr>i_valid := True\<rparr>)"

lemma ilock_loads:
  fixes d :: "'a fsst_scheme"
  assumes R: "reader E B r" and s: "io_ok B p r {} (h, d)" and ref: "0 < sint (i_ref (inodes d ip))"
    and free: "\<not> sl_locked (sleeplocks d (InodeLk ip))" and t: "i_type (loaded B (sb d) (inodes d ip)) \<noteq> 0"
  shows "\<exists>g d'. ilock E (Some ip) (h, d) = Inr ((), (g, d')) \<and> io_ok B p r {} (g, d') \<and>
    frame p d' = frame p (upd_inode ip (loaded B (sb d)) (upd_sl (InodeLk ip) (\<lambda>l. l\<lparr>sl_locked := True, sl_pid := p_pid (procs d p)\<rparr>) d))"
proof -
  let ?x = "inodes d ip" and ?d1 = "upd_sl (InodeLk ip) (\<lambda>l. l\<lparr>sl_locked := True, sl_pid := p_pid (procs d p)\<rparr>) d"
  have h: "calm p h" using s by (simp add: io_ok_def)
  have a: "acquiresleep E (InodeLk ip) (h, d) = Inr ((), (settle h, ?d1))"
    using acquiresleep_free[of h "InodeLk ip" p d E] calmD[OF h] free R by (simp add: reader_def)
  have d1: "inodes ?d1 = inodes d" "sb ?d1 = sb d" by (simp_all add: upd_sl_def)
  show ?thesis
  proof (cases "i_valid ?x")
    case True
    then have "ilock E (Some ip) (h, d) = Inr ((), (settle h, ?d1))" using a ref by (simp add: ilock_def d1)
    moreover have "upd_inode ip (loaded B (sb d)) ?d1 = ?d1" using True by (simp add: upd_inode_def loaded_def d1)
    ultimately show ?thesis using s by auto
  next
    case False
    let ?f = "dinode_get (dinode_off (i_inum ?x)) (block B (IBLOCK (i_inum ?x) (sb d)))"
    have "io_ok B p r {} (settle h, ?d1)" using s by simp
    from bread_uses[OF R this] obtain b g d2 where b: "bread E (i_dev ?x) (IBLOCK (i_inum ?x) (sb d)) (settle h, ?d1) = Inr (b, (g, d2))" "b < NBUF"
      "b_data (bufs d2 b) = block B (IBLOCK (i_inum ?x) (sb d))" "io_ok B p r {b} (g, d2)" "frame p d2 = frame p ?d1" by blast
    have "io_ok B p r {b} (g, upd_inode ip ?f d2)" using b(4) by simp
    from brelse_done[OF this b(2)] obtain g3 d3 where d3: "brelse b (g, upd_inode ip ?f d2) = Inr ((), (g3, d3))" "io_ok B p r {} (g3, d3)"
      "frame p d3 = frame p (upd_inode ip ?f d2)" by blast
    let ?d4 = "upd_inode ip (\<lambda>x. x\<lparr>i_valid := True\<rparr>) d3"
    have "frame p ?d4 = frame p (upd_inode ip (\<lambda>x. x\<lparr>i_valid := True\<rparr>) (upd_inode ip ?f ?d1))"
      using frame_upd(1)[OF d3(3), of ip "\<lambda>x. x\<lparr>i_valid := True\<rparr>"] frame_upd(1)[OF frame_upd(1)[OF b(5)]] by metis
    also have "upd_inode ip (\<lambda>x. x\<lparr>i_valid := True\<rparr>) (upd_inode ip ?f ?d1) = upd_inode ip (loaded B (sb d)) ?d1"
      using False by (simp add: upd_inode_def loaded_def d1)
    finally have f4: "frame p ?d4 = frame p (upd_inode ip (loaded B (sb d)) ?d1)" .
    have "inodes ?d4 ip = loaded B (sb d) ?x" using frame_fs[OF f4] by (simp add: upd_inode_def upd_sl_def)
    then have "ilock E (Some ip) (h, d) = Inr ((), (g3, ?d4))"
      using a ref False b(1,3) d3(1) t by (simp add: ilock_def d1 bdata_def)
    then show ?thesis using f4 d3(2) by (intro exI[of _ g3] exI[of _ ?d4]) simp
  qed
qed

text \<open>The entry of the inode table that \<open>iget\<close> chooses.\<close>

definition iget_entry :: "(nat \<Rightarrow> inode) \<Rightarrow> uint \<Rightarrow> uint \<Rightarrow> (nat \<times> inode) option" where
  "iget_entry tb dev inum =
     (case List.find (\<lambda>ip. 0 < sint (i_ref (tb ip)) \<and> i_dev (tb ip) = dev \<and> i_inum (tb ip) = inum) [0..<NINODE] of
        Some ip \<Rightarrow> Some (ip, (tb ip)\<lparr>i_ref := i_ref (tb ip) + 1\<rparr>)
      | None \<Rightarrow> map_option (\<lambda>ip. (ip, (tb ip)\<lparr>i_dev := dev, i_inum := inum, i_ref := 1, i_valid := False\<rparr>))
          (List.find (\<lambda>ip. i_ref (tb ip) = 0) [0..<NINODE]))"

lemma iget_eq:
  assumes h: "calm p h" and e: "iget_entry (inodes d) dev inum = Some (ip, x)"
  shows "iget dev inum (h, d) = Inr (ip, (settle h, upd_inode ip (\<lambda>_. x) d))"
proof (cases "List.find (\<lambda>ip. 0 < sint (i_ref (inodes d ip)) \<and> i_dev (inodes d ip) = dev \<and> i_inum (inodes d ip) = inum) [0..<NINODE]")
  case None
  then obtain ip' where "List.find (\<lambda>ip. i_ref (inodes d ip) = 0) [0..<NINODE] = Some ip'"
    "x = (inodes d ip)\<lparr>i_dev := dev, i_inum := inum, i_ref := 1, i_valid := False\<rparr>" "ip = ip'"
    using e by (auto simp: iget_entry_def)
  then show ?thesis using calmD(1,3)[OF h] None by (simp add: iget_def khart upd_inode_def)
next
  case (Some ip')
  then have "x = (inodes d ip)\<lparr>i_ref := i_ref (inodes d ip) + 1\<rparr>" "ip = ip'" using e by (auto simp: iget_entry_def)
  then show ?thesis using calmD(1,3)[OF h] Some by (simp add: iget_def khart upd_inode_def)
qed

lemma iunlock_done:
  fixes d :: "'a fsst_scheme"
  assumes s: "io_ok B p r {} (h, d)" and ref: "0 < sint (i_ref (inodes d ip))"
    and l: "sl_locked (sleeplocks d (InodeLk ip))" "sl_pid (sleeplocks d (InodeLk ip)) = p_pid (procs d p)"
  shows "\<exists>g d'. iunlock (Some ip) (h, d) = Inr ((), (g, d')) \<and> io_ok B p r {} (g, d') \<and>
    frame p d' = frame p (upd_sl (InodeLk ip) (\<lambda>l. l\<lparr>sl_locked := False, sl_pid := 0\<rparr>) d)"
proof -
  have h: "calm p h" "at_work p d" using s by (simp_all add: io_ok_def)
  obtain d' where d': "releasesleep (InodeLk ip) (settle h, d) = Inr ((), (settle h, d'))" "at_work p d'" "procs d' p = procs d p"
    "bufs d' = bufs d" "disk d' = disk d" "rest d' = rest d"
    "sleeplocks d' = (sleeplocks d)(InodeLk ip := (sleeplocks d (InodeLk ip))\<lparr>sl_locked := False, sl_pid := 0\<rparr>)"
    using releasesleep_running[of p "settle h" d "InodeLk ip"] h by auto
  have "iunlock (Some ip) (h, d) = Inr ((), (settle h, d'))"
    using d'(1) l ref calmD[OF h(1)] by (simp add: iunlock_def holdingsleep_eq)
  moreover have "io_ok B p r {} (settle h, d')" using s d' by (simp add: io_ok_def cache_ok_def)
  moreover have "frame p d' = frame p (upd_sl (InodeLk ip) (\<lambda>l. l\<lparr>sl_locked := False, sl_pid := 0\<rparr>) d)"
    using d' by (simp add: frame_def fun_eq_iff)
  ultimately show ?thesis by blast
qed

lemma iput_keeps:
  assumes h: "calm p h" and n: "i_ref (inodes d ip) \<noteq> 1 \<or> i_nlink (inodes d ip) \<noteq> 0"
  shows "iput E ip (h, d) = Inr ((), (settle h, upd_inode ip (\<lambda>x. x\<lparr>i_ref := i_ref x - 1\<rparr>) d))"
proof -
  have c: "\<not> (i_ref (inodes d ip) = 1 \<and> i_valid (inodes d ip) \<and> i_nlink (inodes d ip) = 0)" using n by blast
  show ?thesis using calmD[OF h] by (simp add: iput_def khart c del: de_Morgan_conj)
qed

section \<open>Directories\<close>

definition dir_entries :: "uint8 list \<Rightarrow> dirent list" where
  "dir_entries bs = map (\<lambda>i. dirent_of (take 16 (drop (16 * i) bs))) [0..<length bs div 16]"

definition names :: "uint8 list \<Rightarrow> dirent \<Rightarrow> bool" where
  "names name de \<longleftrightarrow> de_inum de \<noteq> 0 \<and> cstr_take DIRSIZ (cstr_of name) = cstr_take DIRSIZ (cstr_of (de_name de))"

lemma read_dirent_reads:
  assumes R: "reader E B r" and s: "io_ok B p r {} (h, d)" and m: "mapped B (inodes d dp)" and i: "i < unat (i_size (inodes d dp)) div 16"
  shows "\<exists>g d'. read_dirent E msg dp (of_nat (16 * i)) (h, d) = Inr (dir_entries (file_bytes B (inodes d dp)) ! i, (g, d')) \<and>
    io_ok B p r {} (g, d') \<and> frame p d' = frame p d"
proof -
  let ?x = "inodes d dp" and ?o = "of_nat (16 * i) :: uint"
  have b: "16 * i + 16 \<le> unat (i_size ?x)" using i by linarith
  have l: "unat (i_size ?x) < 2 ^ 32" using unsigned_less[of "i_size ?x", where ?'a = nat] by simp
  have o: "unat ?o = 16 * i" using b l by (simp add: unat_of_nat del: of_nat_mult)
  then have "?o \<le> ?o + 16" using b l by (simp add: no_olen_add_nat)
  moreover have "length (take 16 (drop (16 * i) (file_bytes B ?x))) = 16" using b by (simp add: file_bytes_def)
  ultimately show ?thesis
    using readi_eq[OF R s m, of ?o 16 "take 16 (drop (16 * i) (file_bytes B ?x))"] o i
    by (auto simp: read_dirent_def dir_entries_def file_bytes_def)
qed

lemma namecmp_eq: "namecmp s t = 0 \<longleftrightarrow> cstr_take DIRSIZ (cstr_of s) = cstr_take DIRSIZ (cstr_of t)"
  by (simp add: namecmp_def strncmp_eq)

text \<open>The search through the entries \<open>is\<close> of a directory.\<close>

lemma dir_search:
  assumes R: "reader E B r" and "io_ok B p r {} (h, d)" and "mapped B (inodes d dp)"
    and "\<forall>i \<in> set is. i < unat (i_size (inodes d dp)) div 16"
    and k: "\<And>i. List.find (\<lambda>i. names name (dir_entries (file_bytes B (inodes d dp)) ! i)) is = Some i \<Longrightarrow>
      iget_entry (inodes d) dev (ucast (de_inum (dir_entries (file_bytes B (inodes d dp)) ! i))) = Some (ip, y)"
  shows "\<exists>g d'. searchS (map (\<lambda>i. of_nat (16 * i)) is) (\<lambda>off.
       bindS (read_dirent E msg dp off) (\<lambda>de.
       if de_inum de = 0 then retS None
       else if namecmp name (de_name de) = 0
       then bindS (iget dev (ucast (de_inum de))) (\<lambda>ip. retS (Some (ip, off)))
       else retS None)) (h, d) =
     Inr (map_option (\<lambda>i. (ip, of_nat (16 * i))) (List.find (\<lambda>i. names name (dir_entries (file_bytes B (inodes d dp)) ! i)) is), (g, d')) \<and>
    io_ok B p r {} (g, d') \<and>
    frame p d' = frame p (if List.find (\<lambda>i. names name (dir_entries (file_bytes B (inodes d dp)) ! i)) is = None then d else upd_inode ip (\<lambda>_. y) d)"
  using assms(2-)
proof (induction "is" arbitrary: h d)
  case (Cons i "is")
  let ?e = "dir_entries (file_bytes B (inodes d dp)) ! i"
  have i: "i < unat (i_size (inodes d dp)) div 16" using Cons.prems(3) by simp
  obtain g1 d1 where d1: "read_dirent E msg dp (of_nat (16 * i)) (h, d) = Inr (?e, (g1, d1))" "io_ok B p r {} (g1, d1)" "frame p d1 = frame p d"
    using read_dirent_reads[OF R Cons.prems(1,2) i] by blast
  have x: "inodes d1 = inodes d" using frame_fs[OF d1(3)] by simp
  show ?case
  proof (cases "names name ?e")
    case True
    then have "iget_entry (inodes d1) dev (ucast (de_inum ?e)) = Some (ip, y)" using Cons.prems(4)[of i] by (simp add: x)
    with iget_eq io_okD[OF d1(2)] have "iget dev (ucast (de_inum ?e)) (g1, d1) = Inr (ip, (settle g1, upd_inode ip (\<lambda>_. y) d1))" by blast
    then show ?thesis using True d1(1,2) frame_upd(1)[OF d1(3)]
      by (intro exI[of _ "settle g1"] exI[of _ "upd_inode ip (\<lambda>_. y) d1"]) (simp add: names_def namecmp_eq)
  next
    case False
    then have "de_inum ?e = 0 \<or> namecmp name (de_name ?e) \<noteq> 0" by (auto simp: names_def namecmp_eq)
    moreover have fu: "frame p (if c then d1 else upd_inode ip (\<lambda>_. y) d1) = frame p (if c then d else upd_inode ip (\<lambda>_. y) d)" for c
      using d1(3) frame_upd(1)[OF d1(3)] by simp
    moreover note Cons.IH[OF d1(2), unfolded x fu, OF Cons.prems(2)]
    ultimately show ?thesis using False d1(1) Cons.prems(3,4) by auto
  qed
qed simp

definition lookup_name :: "uint8 list \<Rightarrow> uint8 list \<Rightarrow> nat option" where
  "lookup_name name bs = List.find (\<lambda>i. names name (dir_entries bs ! i)) [0..<length bs div 16]"

lemma dirlookup_finds:
  assumes R: "reader E B r" and s: "io_ok B p r {} (h, d)" and x: "x = inodes d dp" "mapped B x" "i_type x = T_DIR" "16 dvd unat (i_size x)"
    and k: "\<And>i. lookup_name name (file_bytes B x) = Some i \<Longrightarrow>
      iget_entry (inodes d) (i_dev x) (ucast (de_inum (dir_entries (file_bytes B x) ! i))) = Some (ip, y)"
  shows "\<exists>g d'. dirlookup E dp name (h, d) =
      Inr (map_option (\<lambda>i. (ip, of_nat (16 * i))) (lookup_name name (file_bytes B x)), (g, d')) \<and> io_ok B p r {} (g, d') \<and>
    frame p d' = frame p (if lookup_name name (file_bytes B x) = None then d else upd_inode ip (\<lambda>_. y) d)"
proof -
  have "(unat (i_size x) + 15) div 16 = unat (i_size x) div 16" using x(4) by (auto elim!: dvdE)
  then have o: "dir_offsets (i_size x) = map (\<lambda>i. of_nat (16 * i)) [0..<unat (i_size x) div 16]" by (simp add: dir_offsets_def)
  have l: "lookup_name name (file_bytes B x) = List.find (\<lambda>i. names name (dir_entries (file_bytes B x) ! i)) [0..<unat (i_size x) div 16]"
    by (simp add: lookup_name_def file_bytes_def)
  have b: "\<forall>i \<in> set [0..<unat (i_size x) div 16]. i < unat (i_size x) div 16" by simp
  note D = dir_search[OF R s, of dp, folded x(1), where ip = ip and y = y and dev = "i_dev x" and name = name and msg = "''dirlookup read''",
    OF x(2) b, folded l, OF k]
  have e: "dirlookup E dp name (h, d) = searchS (map (\<lambda>i. of_nat (16 * i)) [0..<unat (i_size x) div 16]) (\<lambda>off.
       bindS (read_dirent E ''dirlookup read'' dp off) (\<lambda>de.
       if de_inum de = 0 then retS None
       else if namecmp name (de_name de) = 0
       then bindS (iget (i_dev x) (ucast (de_inum de))) (\<lambda>ip. retS (Some (ip, off)))
       else retS None)) (h, d)"
    using x(3) o by (simp add: dirlookup_def x(1)[symmetric])
  show ?thesis unfolding e by (rule D)
qed

section \<open>The inode table\<close>

text \<open>The inode as the disk has it.\<close>

definition disk_inode :: "(uint64 \<Rightarrow> uint8 list) \<Rightarrow> superblock \<Rightarrow> uint \<Rightarrow> inode" where
  "disk_inode B s inum = dinode_get (dinode_off inum) (block B (IBLOCK inum s))
     \<lparr>i_dev = 0, i_inum = inum, i_ref = 0, i_valid = True, i_type = 0, i_major = 0, i_minor = 0, i_nlink = 0, i_size = 0, i_addrs = (\<lambda>_. 0)\<rparr>"

definition same_file :: "inode \<Rightarrow> inode \<Rightarrow> bool" where
  "same_file x y \<longleftrightarrow> i_type x = i_type y \<and> i_nlink x = i_nlink y \<and> i_size x = i_size y \<and> (\<forall>k \<le> NDIRECT. i_addrs x k = i_addrs y k)"

lemma same_fileD:
  assumes "same_file x y"
  shows "i_type x = i_type y" "i_nlink x = i_nlink y" "i_size x = i_size y" "file_bytes B x = file_bytes B y" "mapped B x = mapped B y"
proof -
  have "fblock B x k = fblock B y k" for k using assms by (simp add: same_file_def fblock_def)
  then show "file_bytes B x = file_bytes B y" "mapped B x = mapped B y"
    using assms by (simp_all add: file_bytes_def byte_at_def mapped_def has_block_def same_file_def)
qed (use assms in \<open>simp_all add: same_file_def\<close>)

text \<open>
  Every entry in use counts less than \<open>n\<close> references, and what it has of the inode is what the disk has.
\<close>

definition entry_ok :: "(uint64 \<Rightarrow> uint8 list) \<Rightarrow> superblock \<Rightarrow> int \<Rightarrow> inode \<Rightarrow> bool" where
  "entry_ok B s n x \<longleftrightarrow> 0 \<le> sint (i_ref x) \<and> sint (i_ref x) < n \<and>
     (0 < sint (i_ref x) \<and> i_valid x \<longrightarrow> same_file x (disk_inode B s (i_inum x)))"

lemma loaded_ok:
  assumes "entry_ok B s n x" and "0 < sint (i_ref x)"
  shows "same_file (loaded B s x) (disk_inode B s (i_inum x))" "i_inum (loaded B s x) = i_inum x" "i_dev (loaded B s x) = i_dev x"
    "i_ref (loaded B s x) = i_ref x" "entry_ok B s n (loaded B s x)"
  using assms by (auto simp: loaded_def entry_ok_def same_file_def disk_inode_def dinode_get_def)

lemma sint_inc:
  assumes "0 \<le> sint (x :: cint)" and "sint x + 1 < 2 ^ 31"
  shows "sint (x + 1) = sint x + 1"
  using assms by (simp add: sint_word_ariths) (subst signed_take_bit_int_eq_self, simp_all)

lemma iget_entry_some:
  assumes t: "\<And>ip. ip < NINODE \<Longrightarrow> entry_ok B s n (tb ip)" and free: "\<exists>ip < NINODE. i_ref (tb ip) = 0" and n: "1 < n" "n < 2 ^ 31"
  shows "\<exists>ip x. iget_entry tb dev inum = Some (ip, x) \<and> ip < NINODE \<and> i_dev x = dev \<and> i_inum x = inum \<and> 0 < sint (i_ref x) \<and>
    entry_ok B s (n + 1) x \<and> (i_ref (tb ip) = 0 \<or> i_inum (tb ip) = inum)"
proof (cases "List.find (\<lambda>ip. 0 < sint (i_ref (tb ip)) \<and> i_dev (tb ip) = dev \<and> i_inum (tb ip) = inum) [0..<NINODE]")
  case None
  obtain ip where ip: "List.find (\<lambda>ip. i_ref (tb ip) = 0) [0..<NINODE] = Some ip" "ip < NINODE" "i_ref (tb ip) = 0"
  proof (cases "List.find (\<lambda>ip. i_ref (tb ip) = 0) [0..<NINODE]")
    case None then show ?thesis using free by (auto simp: find_None_iff)
  next
    case (Some ip) then show ?thesis using that find_Some_holds[OF Some] find_Some_mem[OF Some] by simp
  qed
  then show ?thesis using None n by (simp add: iget_entry_def entry_ok_def)
next
  case (Some ip)
  have ip: "ip < NINODE" "0 < sint (i_ref (tb ip))" "i_dev (tb ip) = dev" "i_inum (tb ip) = inum"
    using find_Some_holds[OF Some] find_Some_mem[OF Some] by simp_all
  then have "entry_ok B s (n + 1) ((tb ip)\<lparr>i_ref := i_ref (tb ip) + 1\<rparr>)" "sint (i_ref (tb ip) + 1) = sint (i_ref (tb ip)) + 1"
    using t[OF ip(1)] n sint_inc[of "i_ref (tb ip)"] by (auto simp: entry_ok_def same_file_def)
  then show ?thesis using Some ip by (simp add: iget_entry_def)
qed

definition itable_ok :: "(uint64 \<Rightarrow> uint8 list) \<Rightarrow> int \<Rightarrow> 'a fsst_scheme \<Rightarrow> bool" where
  "itable_ok B n d \<longleftrightarrow> (\<forall>ip < NINODE. entry_ok B (sb d) n (inodes d ip) \<and> \<not> sl_locked (sleeplocks d (InodeLk ip)))"

lemma upd_inode_sel [simp]:
  "inodes (upd_inode ip f d) = (inodes d)(ip := f (inodes d ip))" "sb (upd_inode ip f d) = sb d" "sleeplocks (upd_inode ip f d) = sleeplocks d"
  "procs (upd_inode ip f d) = procs d" "km (upd_inode ip f d) = km d"
  by (simp_all add: upd_inode_def)

lemma upd_sl_fs [simp]:
  fixes d :: "'a fsst_scheme"
  shows "inodes (upd_sl lk f d) = inodes d" "sb (upd_sl lk f d) = sb d" "km (upd_sl lk f d) = km d"
  by (simp_all add: upd_sl_def)

text \<open>Taking a reference to an inode and locking it.\<close>

lemma iget_ilock:
  fixes d :: "'a fsst_scheme"
  assumes R: "reader E B r" and s: "io_ok B p r {} (h, d)" and t: "itable_ok B n d" and free: "\<exists>ip < NINODE. i_ref (inodes d ip) = 0"
    and n: "1 < n" "n < 2 ^ 31" and ty: "i_type (disk_inode B (sb d) inum) \<noteq> 0"
  shows "\<exists>ip x h1 d1 g d'. iget dev inum (h, d) = Inr (ip, (h1, d1)) \<and> ilock E (Some ip) (h1, d1) = Inr ((), (g, d')) \<and> io_ok B p r {} (g, d') \<and>
    ip < NINODE \<and> (i_ref (inodes d ip) = 0 \<or> i_inum (inodes d ip) = inum) \<and>
    i_dev x = dev \<and> i_inum x = inum \<and> 0 < sint (i_ref x) \<and> entry_ok B (sb d) (n + 1) x \<and> same_file x (disk_inode B (sb d) inum) \<and>
    frame p d' = frame p (upd_inode ip (\<lambda>_. x) (upd_sl (InodeLk ip) (\<lambda>l. l\<lparr>sl_locked := True, sl_pid := p_pid (procs d p)\<rparr>) d))"
proof -
  have te: "\<And>ip. ip < NINODE \<Longrightarrow> entry_ok B (sb d) n (inodes d ip)" using t by (simp add: itable_ok_def)
  obtain ip x where e: "iget_entry (inodes d) dev inum = Some (ip, x)" "ip < NINODE" "i_dev x = dev" "i_inum x = inum" "0 < sint (i_ref x)"
    "entry_ok B (sb d) (n + 1) x" "i_ref (inodes d ip) = 0 \<or> i_inum (inodes d ip) = inum" using iget_entry_some[OF te free n] by blast
  let ?d1 = "upd_inode ip (\<lambda>_. x) d"
  note L = loaded_ok[OF e(6,5)]
  have "calm p h" using s by (simp add: io_ok_def)
  from iget_eq[OF this e(1)] have g1: "iget dev inum (h, d) = Inr (ip, (settle h, ?d1))" .
  have "io_ok B p r {} (settle h, ?d1)" using s by simp
  moreover have "i_type (loaded B (sb ?d1) (inodes ?d1 ip)) \<noteq> 0" using same_fileD(1)[OF L(1)] ty e(4) by simp
  moreover have "\<not> sl_locked (sleeplocks ?d1 (InodeLk ip))" using t e(2) by (simp add: itable_ok_def)
  ultimately obtain g d' where l: "ilock E (Some ip) (settle h, ?d1) = Inr ((), (g, d'))" "io_ok B p r {} (g, d')"
    "frame p d' = frame p (upd_inode ip (loaded B (sb ?d1)) (upd_sl (InodeLk ip) (\<lambda>l. l\<lparr>sl_locked := True, sl_pid := p_pid (procs ?d1 p)\<rparr>) ?d1))"
    using ilock_loads[OF R, of p "settle h" ?d1 ip] e(5) by auto
  have "upd_inode ip (loaded B (sb ?d1)) (upd_sl (InodeLk ip) (\<lambda>l. l\<lparr>sl_locked := True, sl_pid := p_pid (procs ?d1 p)\<rparr>) ?d1) =
      upd_inode ip (\<lambda>_. loaded B (sb d) x) (upd_sl (InodeLk ip) (\<lambda>l. l\<lparr>sl_locked := True, sl_pid := p_pid (procs d p)\<rparr>) d)"
    by (simp add: upd_inode_def upd_sl_def)
  then show ?thesis using g1 l e(2-5,7) L by (intro exI[of _ ip] exI[of _ "loaded B (sb d) x"] exI[of _ "settle h"] exI[of _ ?d1] exI[of _ g] exI[of _ d']) simp
qed

text \<open>Unlocking an inode and giving the reference back.\<close>

lemma iunlockput_done:
  fixes d :: "'a fsst_scheme"
  assumes s: "io_ok B p r {} (h, d)" and x: "0 < sint (i_ref (inodes d ip))" "i_nlink (inodes d ip) \<noteq> 0"
    and l: "sl_locked (sleeplocks d (InodeLk ip))" "sl_pid (sleeplocks d (InodeLk ip)) = p_pid (procs d p)"
  shows "\<exists>g d'. iunlockput E ip (h, d) = Inr ((), (g, d')) \<and> io_ok B p r {} (g, d') \<and>
    frame p d' = frame p (upd_inode ip (\<lambda>x. x\<lparr>i_ref := i_ref x - 1\<rparr>) (upd_sl (InodeLk ip) (\<lambda>l. l\<lparr>sl_locked := False, sl_pid := 0\<rparr>) d))"
proof -
  obtain g d1 where d1: "iunlock (Some ip) (h, d) = Inr ((), (g, d1))" "io_ok B p r {} (g, d1)"
    "frame p d1 = frame p (upd_sl (InodeLk ip) (\<lambda>l. l\<lparr>sl_locked := False, sl_pid := 0\<rparr>) d)" using iunlock_done[OF s x(1) l] by blast
  have c: "calm p g" using d1(2) by (simp add: io_ok_def)
  have "i_nlink (inodes d1 ip) \<noteq> 0" using frame_fs[OF d1(3)] x(2) by simp
  then have "iput E ip (g, d1) = Inr ((), (settle g, upd_inode ip (\<lambda>x. x\<lparr>i_ref := i_ref x - 1\<rparr>) d1))" using iput_keeps[OF c] by blast
  then show ?thesis using d1(1,2) frame_upd(1)[OF d1(3)] by (simp add: iunlockput_def)
qed

lemma path_elems_single:
  assumes "components path = [e]"
  shows "path_elems path = [(name_field e, [])]"
  using path_elems_components[of path] assms by (auto simp: map_eq_Cons_conv)

text \<open>A name in the root directory.\<close>

lemma namei_in_root:
  fixes d :: "'a fsst_scheme"
  assumes R: "reader E B r" and s: "io_ok B p r {} (h, d)" and t: "itable_ok B n d" and n: "1 < n" "n + 1 < 2 ^ 31"
    and free: "\<exists>i < NINODE. \<exists>j < NINODE. i \<noteq> j \<and> i_ref (inodes d i) = 0 \<and> i_ref (inodes d j) = 0"
    and path: "components path = [e]" "hd path = slash"
    and root: "i_type (disk_inode B (sb d) ROOTINO) = T_DIR" "i_nlink (disk_inode B (sb d) ROOTINO) \<noteq> 0" "mapped B (disk_inode B (sb d) ROOTINO)"
      "16 dvd unat (i_size (disk_inode B (sb d) ROOTINO))"
    and k: "lookup_name (name_field e) (file_bytes B (disk_inode B (sb d) ROOTINO)) = Some k"
      "inum = ucast (de_inum (dir_entries (file_bytes B (disk_inode B (sb d) ROOTINO)) ! k))" "inum \<noteq> ROOTINO"
  shows "\<exists>ip g d'. namei E path (h, d) = Inr (Some ip, (g, d')) \<and> io_ok B p r {} (g, d') \<and> ip < NINODE \<and> i_dev (inodes d' ip) = ROOTDEV \<and>
    i_inum (inodes d' ip) = inum \<and> 0 < sint (i_ref (inodes d' ip)) \<and> entry_ok B (sb d') (n + 2) (inodes d' ip) \<and>
    \<not> sl_locked (sleeplocks d' (InodeLk ip)) \<and> sb d' = sb d \<and> km d' = km d"
proof -
  have n1: "n < 2 ^ 31" and ne: "path \<noteq> []" and ty: "i_type (disk_inode B (sb d) ROOTINO) \<noteq> 0"
    and fr: "\<exists>i < NINODE. i_ref (inodes d i) = 0" using n free path(1) root(1) by (auto simp: T_DIR_def)
  obtain rp x h1 d1 g2 d2 where a: "iget ROOTDEV ROOTINO (h, d) = Inr (rp, (h1, d1))" "ilock E (Some rp) (h1, d1) = Inr ((), (g2, d2))"
    "io_ok B p r {} (g2, d2)" "rp < NINODE" "i_dev x = ROOTDEV" "i_inum x = ROOTINO" "0 < sint (i_ref x)" "entry_ok B (sb d) (n + 1) x"
    "same_file x (disk_inode B (sb d) ROOTINO)"
    "frame p d2 = frame p (upd_inode rp (\<lambda>_. x) (upd_sl (InodeLk rp) (\<lambda>l. l\<lparr>sl_locked := True, sl_pid := p_pid (procs d p)\<rparr>) d))"
    using iget_ilock[OF R s t fr n(1) n1 ty] by blast
  note X = same_fileD[OF a(9)] and F2 = frame_fs[OF a(10)]
  have i2: "inodes d2 = (inodes d)(rp := x)" "sb d2 = sb d" using F2 by simp_all
  have "entry_ok B (sb d) (n + 1) (inodes d2 ip)" if "ip < NINODE" for ip
    using t a(8) that unfolding i2 itable_ok_def by (auto simp: entry_ok_def)
  moreover have "\<exists>ip < NINODE. i_ref (inodes d2 ip) = 0" using free unfolding i2 by (metis fun_upd_other)
  ultimately obtain ip y where y: "iget_entry (inodes d2) ROOTDEV inum = Some (ip, y)" "ip < NINODE" "i_dev y = ROOTDEV" "i_inum y = inum"
    "0 < sint (i_ref y)" "entry_ok B (sb d) (n + 1 + 1) y" "i_ref (inodes d2 ip) = 0 \<or> i_inum (inodes d2 ip) = inum"
    using iget_entry_some[of B "sb d" "n + 1" "inodes d2" ROOTDEV inum] n by auto
  have ip: "ip \<noteq> rp" using y(7) a(6,7) k(3) by (auto simp: i2)
  have x2: "x = inodes d2 rp" "mapped B x" "i_type x = T_DIR" "16 dvd unat (i_size x)" using X root by (simp_all add: i2)
  obtain g3 d3 where d3: "dirlookup E rp (name_field e) (g2, d2) = Inr (Some (ip, of_nat (16 * k)), (g3, d3))" "io_ok B p r {} (g3, d3)"
    "frame p d3 = frame p (upd_inode ip (\<lambda>_. y) d2)"
    using dirlookup_finds[OF R a(3) x2, of "name_field e" ip y] y(1) k X(4) a(5) by auto
  note F3 = frame_fs[OF d3(3)]
  have i3: "inodes d3 = (inodes d)(rp := x, ip := y)" "sb d3 = sb d" "km d3 = km d" using F3 F2 by (simp_all add: i2)
  have r3: "0 < sint (i_ref (inodes d3 rp))" "i_nlink (inodes d3 rp) \<noteq> 0" using ip a(7) X(2) root(2) by (simp_all add: i3)
  have l3: "sl_locked (sleeplocks d3 (InodeLk rp))" "sl_pid (sleeplocks d3 (InodeLk rp)) = p_pid (procs d3 p)"
    using F3 F2 by (simp_all add: ident_def)
  obtain g4 d4 where d4: "iunlockput E rp (g3, d3) = Inr ((), (g4, d4))" "io_ok B p r {} (g4, d4)"
    "frame p d4 = frame p (upd_inode rp (\<lambda>x. x\<lparr>i_ref := i_ref x - 1\<rparr>) (upd_sl (InodeLk rp) (\<lambda>l. l\<lparr>sl_locked := False, sl_pid := 0\<rparr>) d3))"
    using iunlockput_done[OF d3(2) r3 l3] by blast
  note F4 = frame_fs[OF d4(3)]
  have "namei E path (h, d) = Inr (Some ip, (g4, d4))"
    using a(1,2) d3(1) d4(1) path ne x2(3) by (simp add: namei_def namex_def path_elems_single i2)
  moreover have "inodes d4 ip = y" "sb d4 = sb d" "km d4 = km d" using F4 ip i3 by simp_all
  moreover have "\<not> sl_locked (sleeplocks d4 (InodeLk ip))" using F4 F3 F2 ip t y(2) by (simp add: itable_ok_def)
  ultimately show ?thesis using d4(2) y by (intro exI[of _ ip] exI[of _ g4] exI[of _ d4]) (simp add: add.assoc)
qed

lemma ilock_readi:
  fixes d :: "'a fsst_scheme"
  assumes R: "reader E B r" and s: "io_ok B p r {} (h, d)" and ref: "0 < sint (i_ref (inodes d ip))" and e: "entry_ok B (sb d) n (inodes d ip)"
    and free: "\<not> sl_locked (sleeplocks d (InodeLk ip))" and x: "x = disk_inode B (sb d) (i_inum (inodes d ip))" "i_type x \<noteq> 0" "mapped B x"
    and o: "off \<le> off + len" and bs: "bs = take (unat len) (drop (unat off) (file_bytes B x))"
  shows "\<exists>g1 d1 g2 d2. ilock E (Some ip) (h, d) = Inr ((), (g1, d1)) \<and> readi E ip LocalDst off len (g1, d1) = Inr ((of_nat (length bs), bs), (g2, d2)) \<and>
    io_ok B p r {} (g2, d2) \<and> km d2 = km d"
proof -
  note L = same_fileD[OF loaded_ok(1)[OF e ref], folded x(1)]
  obtain g1 d1 where l: "ilock E (Some ip) (h, d) = Inr ((), (g1, d1))" "io_ok B p r {} (g1, d1)"
    "frame p d1 = frame p (upd_inode ip (loaded B (sb d)) (upd_sl (InodeLk ip) (\<lambda>l. l\<lparr>sl_locked := True, sl_pid := p_pid (procs d p)\<rparr>) d))"
    using ilock_loads[OF R s ref free] L(1) x(2) by auto
  have i1: "inodes d1 ip = loaded B (sb d) (inodes d ip)" "km d1 = km d" using frame_fs[OF l(3)] by simp_all
  then have "mapped B (inodes d1 ip)" "bs = take (unat len) (drop (unat off) (file_bytes B (inodes d1 ip)))" using L(4,5) x(3) bs by simp_all
  from readi_eq[OF R l(2) this(1) o this(2)] obtain g2 d2 where
    "readi E ip LocalDst off len (g1, d1) = Inr ((of_nat (length bs), bs), (g2, d2))" "io_ok B p r {} (g2, d2)" "frame p d2 = frame p d1" by blast
  then show ?thesis using l(1) i1(2) frame_fs[of p d2 d1] by auto
qed

text \<open>
  C9. On a disk that answers, \<open>readi\<close> returns the bytes of the file that are in the range asked for, from the cache or from the
  disk, in direct or indirect blocks, and their number, less than asked for at the end of the file. Afterwards the cache
  agrees with the disk and no buffer is left locked or with more references; nothing of the file system, of the process or of memory has changed.
\<close>

theorem readi_reads_file:
  fixes d :: "'a fsst_scheme"
  assumes "disk_serves E B" and "1 < e_fuel E" and "\<exists>b < NBUF. r b = 0" and "io_ok B p r {} (h, d)"
    and "mapped B (inodes d ip)" and "off \<le> off + n"
  shows "\<exists>g d'. readi E ip LocalDst off n (h, d) =
      Inr (let bs = take (unat n) (drop (unat off) (file_bytes B (inodes d ip))) in (of_nat (length bs), bs), (g, d')) \<and>
    io_ok B p r {} (g, d') \<and> frame p d' = frame p d"
  using readi_eq[OF _ assms(4-6) refl] assms(1-3) by (simp add: reader_def Let_def)

text \<open>The processes of \<open>ops_pst\<close>, an empty cache and an empty inode table.\<close>

definition demo_fs :: fsst where
  "demo_fs = lst.extend (demo_lst\<lparr>bufs := bcache0\<rparr>) \<lparr>inodes = (\<lambda>_. \<lparr>i_dev = 0, i_inum = 0, i_ref = 0, i_valid = False, i_type = 0,
     i_major = 0, i_minor = 0, i_nlink = 0, i_size = 0, i_addrs = (\<lambda>_. 0)\<rparr>)\<rparr>"

lemma bcache0_fields: "b_valid (bcache0 b) = False \<and> b_refcnt (bcache0 b) = 0"
proof -
  have "b_valid (fold link_front ns bs b) = b_valid (bs b) \<and> b_refcnt (fold link_front ns bs b) = b_refcnt (bs b)" for ns bs
    by (induction ns arbitrary: bs) (simp_all add: link_front_sel)
  then show ?thesis by (simp add: bcache0_def buf0_def)
qed

lemma demo_fs_fields:
  "procs demo_fs = procs ops_pst" "multique demo_fs = multique ops_pst" "sizeofq demo_fs = sizeofq ops_pst" "bufs demo_fs = bcache0"
  "disk demo_fs = disk0" "sleeplocks demo_fs = (\<lambda>_. \<lparr>sl_locked = False, sl_name = [], sl_pid = 0\<rparr>)" "i_ref (inodes demo_fs ip) = 0"
  by (simp_all add: demo_fs_def demo_lst_def demo_dst_def lst.defs dst.defs)

lemma demo_fs_ok: "io_ok B 0 (\<lambda>_. 0) {} (ops_hst, demo_fs)" "itable_ok B 2 demo_fs"
proof -
  have "calm 0 ops_hst" by (simp add: calm_def ops_hst_ok ops_unlocked)
  moreover have "at_work 0 demo_fs"
    using ops_inv sched_inv_cong[of demo_fs ops_pst] by (simp add: at_work_def demo_fs_fields ops_procs NPROC_def)
  moreover have "\<exists>xs. linked (bufs demo_fs) xs \<and> set xs = {..<NBUF}"
    using bcache0_linked by (intro exI[of _ "rev [0..<NBUF]"]) (auto simp: demo_fs_fields)
  moreover have "3 \<le> length (free_list (disk demo_fs))" by (simp add: free_list_def demo_fs_fields disk0_def NUM_def)
  ultimately show "io_ok B 0 (\<lambda>_. 0) {} (ops_hst, demo_fs)" by (simp add: io_ok_def cache_ok_def demo_fs_fields bcache0_fields)
  show "itable_ok B 2 demo_fs" by (simp add: itable_ok_def entry_ok_def demo_fs_fields)
qed

theorem readi_reads_file_witness:
  "\<exists>g d'. readi (disk_env (\<lambda>_. replicate BSIZE 7)) 3 LocalDst 698 10 (ops_hst, upd_inode 3 (\<lambda>_. demo_inode) demo_fs) = Inr ((2, [7, 7]), (g, d'))"
proof -
  let ?B = "\<lambda>_ :: uint64. replicate BSIZE (7 :: uint8)" and ?d = "upd_inode 3 (\<lambda>_. demo_inode) demo_fs"
  have z: "i div BSIZE = 0" "i < BSIZE" if "i < 700" for i using that by (simp_all add: BSIZE_def)
  have "mapped ?B (inodes ?d 3)"
    by (auto simp: mapped_def has_block_def fblock_def demo_inode_def z NDIRECT_def MAXFILE_def)
  moreover have "io_ok ?B 0 (\<lambda>_. 0) {} (ops_hst, ?d)" using demo_fs_ok(1) by simp
  moreover have "\<exists>b < NBUF. (0 :: uint) = 0" by (intro exI[of _ 0]) (simp add: NBUF_def)
  ultimately obtain g d' where g: "readi (disk_env ?B) 3 LocalDst 698 10 (ops_hst, ?d) =
      Inr (let bs = take (unat (10 :: uint)) (drop (unat (698 :: uint)) (file_bytes ?B (inodes ?d 3))) in (of_nat (length bs), bs), (g, d'))"
    using readi_reads_file[OF disk_env_serves, of ?B "\<lambda>_. 0" 0 ops_hst ?d 3 698 10] by auto
  have "take (unat (10 :: uint)) (drop (unat (698 :: uint)) (file_bytes ?B (inodes ?d 3))) = map (byte_at ?B demo_inode) [698..<700]"
    unfolding take_drop_file by (simp add: demo_inode_def)
  also have "\<dots> = [7, 7]" by (simp add: byte_at_def upt_rec) (simp add: BSIZE_def)
  finally show ?thesis using g by (simp add: Let_def)
qed

end
