(* ===== verification/ReadBack.thy ===== *)
theory ReadBack
  imports FsRead MkfsImage
begin

text \<open>
  The kernel on a disk that \<open>mkfs\<close> has made: what \<open>ilock\<close> and \<open>readi\<close> see of an inode is what the image holds, and the
  entries of the root directory are the files of the command line.
\<close>

section \<open>The image as a disk\<close>

definition disk_of :: "uint8 list list \<Rightarrow> uint64 \<Rightarrow> uint8 list" where
  "disk_of im sec = (if unat sec div 2 < length im then im ! (unat sec div 2) else [])"

lemma block_disk_of:
  assumes "length im = FSSIZE" "unat bn < FSSIZE"
  shows "block (disk_of im) bn = im ! unat bn"
proof -
  have "unat (bn * 2) = unat bn * 2" using assms(2) by (simp add: unat_mult_lem[THEN iffD1] FSSIZE_def)
  then have "unat (sector_of bn) = unat bn * 2" using assms(2) by (simp add: sector_of_def BSIZE_def unsigned_ucast_eq FSSIZE_def take_bit_nat_eq_self)
  then show ?thesis using assms by (simp add: disk_of_def)
qed

lemma disk_inode_node:
  assumes "length (img s) = FSSIZE" "inum_ok i"
  shows "inode_as (disk_inode (disk_of (img s)) mk_sb i) = node s i"
  using block_disk_of[OF assms(1) iblock_bounds(4)[OF assms(2)]]
  by (simp add: inode_as_def disk_inode_def node_def dinode_at_def dinode_get_def cong: if_cong)

lemma nth_concat_blocks:
  "(\<And>k. k < n \<Longrightarrow> length (f k) = m) \<Longrightarrow> j < n * m \<Longrightarrow> concat (map f [0..<n]) ! j = f (j div m) ! (j mod m)"
proof (induction n)
  case (Suc n)
  have l: "length (concat (map f [0..<k])) = k * m" if "k \<le> n" for k using that Suc.prems(1) by (induction k) simp_all
  show ?case
  proof (cases "j < n * m")
    case True then show ?thesis using Suc by (simp add: nth_append l)
  next
    case False
    then have d: "j div m = n" using Suc.prems(2) by (auto simp: div_nat_eqI mult.commute)
    then have "j mod m = j - n * m" using minus_div_mult_eq_mod[of j m] by simp
    with d show ?thesis using False by (simp add: nth_append l)
  qed
qed simp

lemma file_on_disk:
  assumes ok: "img_ok (img s)" and i: "inum_ok i" and own: "own s i \<subseteq> {nmeta..<FSSIZE}" and n: "length (file_of s i) \<le> MAXFILE * BSIZE"
  defines "B \<equiv> disk_of (img s)" and "x \<equiv> disk_inode (disk_of (img s)) mk_sb i"
  shows "file_bytes B x = file_of s i" "mapped B x" "length (file_of s i) = unat (d_size (node s i))"
proof -
  let ?d = "node s i" and ?n = "unat (d_size (node s i))"
  have l: "length (img s) = FSSIZE" using ok by (simp add: img_ok_def)
  have x: "i_size x = d_size ?d" "i_addrs x = d_addrs ?d" unfolding disk_inode_node[OF l i, symmetric] x_def by (simp_all add: inode_as_def)
  have bn: "nmeta \<le> unat (bno (img s) ?d k)" "unat (bno (img s) ?d k) < FSSIZE" if "k < nblocks s i" for k
    using own that by (auto simp: own_def owned_def)
  have ind: "nmeta \<le> unat (d_addrs ?d NDIRECT)" "unat (d_addrs ?d NDIRECT) < FSSIZE" if "NDIRECT < nblocks s i"
    using own that by (auto simp: own_def owned_def)
  have fb: "fblock B x k = bno (img s) ?d k" if "k < nblocks s i" for k
    using that ind(2) by (simp add: fblock_def bno_def x B_def block_disk_of[OF l])
  have blk: "block B (fblock B x k) = img s ! unat (bno (img s) ?d k)" "length (img s ! unat (bno (img s) ?d k)) = BSIZE" if "k < nblocks s i" for k
    using bn[OF that] fb[OF that] block_disk_of[OF l, folded B_def] by (simp_all add: img_ok_nth[OF ok])
  have dl: "length (data (img s) ?d k) = k * BSIZE" if "k \<le> nblocks s i" for k
    using that blk(2) by (induction k) (simp_all add: data_def)
  have le: "?n \<le> nblocks s i * BSIZE" unfolding nblocks_def blocks_of_def by (simp add: BSIZE_def)
  then show len: "length (file_of s i) = ?n" using dl[of "nblocks s i"] by (simp add: file_of_def contents_def nblocks_def[symmetric])
  have nb: "j div BSIZE < nblocks s i" "nblocks s i \<le> MAXFILE" if "j < ?n" for j
    using that n len unfolding nblocks_def blocks_of_def by (simp_all add: BSIZE_def MAXFILE_def NDIRECT_def NINDIRECT_def)
  have "file_of s i ! j = byte_at B x j" if "j < ?n" for j
    using nth_concat_blocks[of "nblocks s i" "\<lambda>k. img s ! unat (bno (img s) ?d k)" BSIZE j] that le nb(1)[OF that] blk
    by (simp add: file_of_def contents_def nblocks_def[symmetric] data_def byte_at_def)
  then show "file_bytes B x = file_of s i" using len by (intro nth_equalityI) (simp_all add: file_bytes_def x)
  have "has_block B x (j div BSIZE)" if "j < ?n" for j
    using nb[OF that] bn(1)[OF nb(1)[OF that]] blk[OF nb(1)[OF that]] ind(1) nmeta_pos(1) fb[OF nb(1)[OF that]]
    by (auto simp: has_block_def x)
  then show "mapped B x" by (simp add: mapped_def x)
qed

section \<open>The root directory\<close>

text \<open>A name as the kernel compares it.\<close>

definition dname :: "uint8 list \<Rightarrow> uint8 list" where
  "dname name = cstr_take DIRSIZ (cstr_of name)"

lemma cstr_take_cong: "(\<And>i. i < n \<Longrightarrow> p i = q i) \<Longrightarrow> cstr_take n p = cstr_take n q"
proof (induction n arbitrary: p q)
  case (Suc n)
  have "cstr_take n (cstr_tl p) = cstr_take n (cstr_tl q)" by (rule Suc.IH) (use Suc.prems in \<open>simp add: cstr_tl_def\<close>)
  then show ?case using Suc.prems[of 0] by simp
qed simp

lemma dname_field: "dname (name_field e) = dname e" "dname (take DIRSIZ (e @ replicate DIRSIZ 0)) = dname e"
proof -
  show "dname (name_field e) = dname e" unfolding dname_def
    by (rule cstr_take_cong) (simp add: name_field_def cstr_of_def nth_append)
  show "dname (take DIRSIZ (e @ replicate DIRSIZ 0)) = dname e" unfolding dname_def
    by (rule cstr_take_cong) (auto simp: cstr_of_def nth_append)
qed

lemma dirent_of_mk: "dirent_of (mk_dirent i name) = \<lparr>de_inum = ucast i, de_name = take DIRSIZ (name @ replicate DIRSIZ 0)\<rparr>"
  by (simp add: dirent_of_def mk_dirent_def get16_def get_bytes_def le_word_le_bytes)

definition root_entries :: "uint8 list list \<Rightarrow> (uint \<times> uint8 list) list" where
  "root_entries as = (ROOTINO, bytes_of ''.'') # (ROOTINO, bytes_of ''..'') # map (\<lambda>(k, a). (of_nat k, fs_name a)) (List.enumerate 2 as)"

lemma root_dir_entries: "root_dir as = concat (map (\<lambda>(i, name). mk_dirent i name) (root_entries as))"
  by (simp add: root_dir_def dots_def entries_def root_entries_def comp_def case_prod_unfold)

lemma take_drop_concat:
  "(\<forall>x \<in> set xs. length x = m) \<Longrightarrow> i < length xs \<Longrightarrow> take m (drop (m * i) (concat xs @ zs)) = xs ! i"
proof (induction xs arbitrary: i)
  case (Cons x xs)
  then show ?case by (cases i) auto
qed simp

lemma root_names:
  assumes j: "j < length (root_entries as)"
  shows "j < length (root_dir as @ zs) div 16" "dir_entries (root_dir as @ zs) ! j =
    \<lparr>de_inum = ucast (fst (root_entries as ! j)), de_name = take DIRSIZ (snd (root_entries as ! j) @ replicate DIRSIZ 0)\<rparr>"
proof -
  let ?xs = "map (\<lambda>(i, name). mk_dirent i name) (root_entries as)"
  have l: "\<forall>x \<in> set ?xs. length x = 16" by (auto simp: length_dirent)
  have "length (concat xs) = 16 * length xs" if "\<forall>x \<in> set xs. length x = 16" for xs :: "uint8 list list"
    using that by (induction xs) simp_all
  from this[OF l] have "length (concat ?xs) = 16 * length ?xs" .
  then show b: "j < length (root_dir as @ zs) div 16" using j by (simp add: root_dir_entries)
  show "dir_entries (root_dir as @ zs) ! j =
    \<lparr>de_inum = ucast (fst (root_entries as ! j)), de_name = take DIRSIZ (snd (root_entries as ! j) @ replicate DIRSIZ 0)\<rparr>"
    using b j take_drop_concat[OF l, of j zs] by (simp add: dir_entries_def root_dir_entries dirent_of_mk case_prod_beta)
qed

lemma small_inum:
  assumes "0 < j" "j < 2 ^ 16"
  shows "(ucast (of_nat j :: uint) :: uint16) = of_nat j" "(of_nat j :: uint16) \<noteq> 0" "ucast (of_nat j :: uint16) = (of_nat j :: uint)"
  using assms by (auto simp: word_unat_eq_iff unsigned_ucast_eq unsigned_of_nat take_bit_nat_eq_self)

lemma lookup_root:
  assumes d: "distinct (map dname (bytes_of ''.'' # bytes_of ''..'' # map fs_name as))" and k: "k < length as" and n: "length as < 2 ^ 15"
  shows "lookup_name (name_field (fs_name (as ! k))) (root_dir as @ zs) = Some (k + 2)"
    "de_inum (dir_entries (root_dir as @ zs) ! (k + 2)) = of_nat (k + 2)"
proof -
  have le: "length (root_entries as) = length as + 2" by (simp add: root_entries_def)
  have "map (\<lambda>(k, a). dname (fs_name a)) (List.enumerate n as) = map (dname \<circ> fs_name) as" for n
    by (induction as arbitrary: n) simp_all
  then have nm: "map (\<lambda>x. dname (snd x)) (root_entries as) = map dname (bytes_of ''.'' # bytes_of ''..'' # map fs_name as)"
    by (simp add: root_entries_def comp_def case_prod_unfold)
  have nt: "names (name_field (fs_name (as ! k))) (dir_entries (root_dir as @ zs) ! j) \<longleftrightarrow>
    ucast (fst (root_entries as ! j)) \<noteq> (0 :: uint16) \<and> dname (fs_name (as ! k)) = dname (snd (root_entries as ! j))" if "j < length as + 2" for j
    using root_names(2)[of j as zs] that le dname_field by (simp add: names_def dname_def)
  have e: "root_entries as ! (k + 2) = (of_nat (k + 2), fs_name (as ! k))" using k by (simp add: root_entries_def nth_enumerate_eq)
  have u: "(ucast (of_nat (k + 2) :: uint) :: uint16) = of_nat (k + 2)" and nz: "(of_nat (k + 2) :: uint16) \<noteq> 0"
    using small_inum[of "k + 2"] k n by auto
  have dn: "dname (snd (root_entries as ! j)) \<noteq> dname (fs_name (as ! k))" if "j < k + 2" for j
    using d[folded nm, unfolded distinct_conv_nth, rule_format, of j "k + 2"] that k le e by simp
  have "names (name_field (fs_name (as ! k))) (dir_entries (root_dir as @ zs) ! (k + 2))" using nt[of "k + 2"] k e u nz by simp
  moreover have "\<not> names (name_field (fs_name (as ! k))) (dir_entries (root_dir as @ zs) ! j)" if "j < k + 2" for j
    using nt[of j] dn[OF that] that k by auto
  moreover have "k + 2 < length (root_dir as @ zs) div 16" using root_names(1)[of "k + 2" as zs] k le by simp
  ultimately show "lookup_name (name_field (fs_name (as ! k))) (root_dir as @ zs) = Some (k + 2)"
    unfolding lookup_name_def find_Some_iff by (intro exI[of _ "k + 2"]) simp
  show "de_inum (dir_entries (root_dir as @ zs) ! (k + 2)) = of_nat (k + 2)" using root_names(2)[of "k + 2" as zs] k le e u by simp
qed

section \<open>What mkfs leaves on the disk\<close>

lemma mkfs_disk:
  assumes m: "2 \<le> length argv" "\<forall>a \<in> set (drop 2 argv). arg_ok host a" "fits (mkfs_spec host (drop 2 argv))"
    and c: "length (root_dir (drop 2 argv)) mod BSIZE \<noteq> 0" and s: "mkfs_main host argv = Inr s"
  defines "B \<equiv> disk_of (img s)"
  shows "sb_of_block (img s ! 1) = mk_sb"
    "i_type (disk_inode B mk_sb ROOTINO) = T_DIR" "i_nlink (disk_inode B mk_sb ROOTINO) = 1" "mapped B (disk_inode B mk_sb ROOTINO)"
    "16 dvd unat (i_size (disk_inode B mk_sb ROOTINO))" "\<exists>zs. file_bytes B (disk_inode B mk_sb ROOTINO) = root_dir (drop 2 argv) @ zs"
    "k < length argv - 2 \<Longrightarrow> i_type (disk_inode B mk_sb (of_nat (k + 2))) = T_FILE \<and> mapped B (disk_inode B mk_sb (of_nat (k + 2))) \<and>
       file_bytes B (disk_inode B mk_sb (of_nat (k + 2))) = concat (the (host (argv ! (k + 2))))"
proof -
  let ?fs = "mkfs_spec host (drop 2 argv)" and ?c = "root_dir (drop 2 argv)"
  obtain s1 where r: "represents s1 ?fs" and f: "fix_root ROOTINO (with_bitmap s1) = Inr s" using mkfs_main_steps[OF m] s by auto
  have hd: "hd ?fs = ((T_DIR, 0, 0, 1), ?c)" "length ?fs = length argv - 1" "?fs \<noteq> []" using m(1) by (simp_all add: mkfs_spec_def)
  note I = image_files[OF r m(3) hd(3) f, unfolded hd(1) fst_conv snd_conv]
  have fit: "length argv - 1 < NINODES" "length ?c \<le> MAXFILE * BSIZE" "nmeta + blocks_needed ?fs \<le> FSSIZE"
    and fk: "\<And>x. x \<in> set ?fs \<Longrightarrow> length (snd x) \<le> MAXFILE * BSIZE" using m(3) hd by (auto simp: fits_def mkfs_spec_def)
  show "sb_of_block (img s ! 1) = mk_sb" using I(2)[of 1] by (simp add: low_blocks_def sb_of_sb_bytes)
  have ri: "inum_ok ROOTINO" by (simp add: inum_ok_def ROOTINO_def NINODES_def)
  have b: "blocks_of (length ?c) \<le> MAXFILE" "length ?c \<le> blocks_of (length ?c) * BSIZE"
    using fit(2) unfolding blocks_of_def by (simp_all add: BSIZE_def MAXFILE_def NDIRECT_def NINDIRECT_def)
  have fr: "file_of s ROOTINO = padded (blocks_of (length ?c)) ?c" using I(6) c by simp
  then have lr: "length (file_of s ROOTINO) = blocks_of (length ?c) * BSIZE" using b(2) by (simp add: padded_def)
  have "own s ROOTINO \<subseteq> {nmeta..<FSSIZE}" using I(10)[OF c] fit(3) by auto
  note R = file_on_disk[OF I(9) ri this, folded B_def] and X = disk_inode_node[OF I(1) ri, folded B_def, unfolded inode_as_def]
  show "mapped B (disk_inode B mk_sb ROOTINO)" using R(2) lr b(1) by simp
  show "i_type (disk_inode B mk_sb ROOTINO) = T_DIR" "i_nlink (disk_inode B mk_sb ROOTINO) = 1" using I(4) unfolding X[symmetric] by (simp_all add: attr_def)
  have "unat (i_size (disk_inode B mk_sb ROOTINO)) = blocks_of (length ?c) * BSIZE" using R(3) lr b(1) unfolding X[symmetric] by simp
  then show "16 dvd unat (i_size (disk_inode B mk_sb ROOTINO))" by (simp add: BSIZE_def)
  show "\<exists>zs. file_bytes B (disk_inode B mk_sb ROOTINO) = ?c @ zs" using R(1) fr lr b(1) by (simp add: padded_def)
  assume k: "k < length argv - 2"
  then have e: "Suc k < length ?fs" "?fs ! Suc k = ((T_FILE, 0, 0, 1), concat (the (host (argv ! (k + 2)))))"
    by (simp_all add: mkfs_spec_def add.commute)
  have ki: "inum_ok (of_nat (k + 2))" using k fit(1) unat_inum[of "k + 2"] by (simp add: inum_ok_def del: of_nat_add)
  note K = I(7)[of "Suc k", OF _ e(1), unfolded e(2) fst_conv snd_conv]
  have K': "attr (node s (of_nat (k + 2))) = (T_FILE, 0, 0, 1)" "file_of s (of_nat (k + 2)) = concat (the (host (argv ! (k + 2))))"
    "own s (of_nat (k + 2)) \<subseteq> {nmeta..<FSSIZE}" using K fit(3) by auto
  have "length (file_of s (of_nat (k + 2))) \<le> MAXFILE * BSIZE" using fk[OF nth_mem[OF e(1)]] K'(2) by (simp add: e(2))
  from file_on_disk[OF I(9) ki K'(3) this, folded B_def] K' disk_inode_node[OF I(1) ki, folded B_def, unfolded inode_as_def]
  show "i_type (disk_inode B mk_sb (of_nat (k + 2))) = T_FILE \<and> mapped B (disk_inode B mk_sb (of_nat (k + 2))) \<and>
       file_bytes B (disk_inode B mk_sb (of_nat (k + 2))) = concat (the (host (argv ! (k + 2))))" by (metis attr_def dinode.select_convs(1) prod.inject)
qed

end
