(* ===== verification/Spec2Isabelle.thy ===== *)
theory Spec2Isabelle
  imports Prelude Spinlock ProcTable Sched ProcOps SleepWake Mem KString Kalloc Vm VmProofs VmUser
    KState Sleeplock Virtio Bio Block Log Fs Console Printf File ProcLife Trap Exec Sysproc Sysfile Usertrap
    Ring KProofs BioProofs VirtioProofs LogProofs FsProofs FileProofs PrintfProofs TrapProofs AlarmProofs SyscallProofs
    Digits User Ulib Uprintf Uos Grep Utils UtilsProofs Sh ShProofs Umalloc UmallocProofs Utest Grind Mkfs MkfsProofs MkfsImage
    BlockIO FsRead ReadBack
begin

text \<open>
  A verification library for the xv6-riscv system of this repository (\<open>src/initial-xv6/src\<close>): the kernel, with its lottery
  (\<open>LBS\<close>) and multi-level feedback queue (\<open>MLFQ\<close>) schedulers, system call counting and alarms, the user library and
  programs, and the builder of the file system image.

  \<^bold>\<open>The program.\<close> A trap from user space (\<open>trap.c\<close>) is a system call (\<open>syscall.c\<close>, \<open>sysproc.c\<close>, \<open>sysfile.c\<close>), a device
  interrupt or a timer tick. System calls work on processes (\<open>proc.c\<close>, \<open>exec.c\<close>), their memory (\<open>vm.c\<close>, \<open>kalloc.c\<close>), and
  files and pipes (\<open>file.c\<close>, \<open>pipe.c\<close>); files are inodes (\<open>fs.c\<close>) changed in transactions of a write-ahead log (\<open>log.c\<close>)
  over a buffer cache (\<open>bio.c\<close>) over a disk driver (\<open>virtio_disk.c\<close>). The console (\<open>console.c\<close>, \<open>uart.c\<close>, \<open>printf.c\<close>)
  is a device file. All of it is guarded by spin locks and sleep locks (\<open>spinlock.c\<close>, \<open>sleeplock.c\<close>); a process that
  waits calls \<open>sleep\<close>, gives its hart to the scheduler, and is made runnable by \<open>wakeup\<close>. User programs (\<open>user/\<close>) make system
  calls, most of them through the library (\<open>ulib.c\<close>, \<open>printf.c\<close>, \<open>umalloc.c\<close>); \<open>init\<close> starts the shell, which starts the others.
  \<open>mkfs\<close> (\<open>mkfs/mkfs.c\<close>) runs on the host and writes the disk with which the kernel starts.

  \<^bold>\<open>State and effects.\<close> One hart runs the kernel code: its state is \<open>hst\<close> (interrupt enable, nesting depth, the locks)
  paired with a record of kernel data, which grows from theory to theory: \<open>pst\<close> (process table and scheduler), \<open>vst\<close>
  (memory and page tables), \<open>slst\<close>, \<open>dst\<close> (buffers and disk), \<open>lst\<close> (log), \<open>fsst\<close> (inodes), \<open>cst\<close> and \<open>prst\<close> (console),
  \<open>fist\<close> (files and pipes), \<open>kd\<close> (control registers), \<open>md\<close> (booting). An operation returns \<open>Inl\<close> of a fault, which is a
  panic with its message, spinning for ever on a lock, an access outside an array or through a null pointer, or fuel that
  ran out, or \<open>Inr\<close> of its result and the new state. \<open>KState\<close> has the combinators for sequencing such operations. C integers are
  words of their width (\<open>cint\<close> is the 32-bit \<open>int\<close>, read by \<open>sint\<close>), memory is a function from 64-bit addresses to bytes.
  What is not code of the repository is a parameter: the record \<open>env\<close> has what other processes and devices do while the
  caller has given up its hart (\<open>e_swt\<close>), the addresses the linker chooses (\<open>e_layout\<close>), what device registers read as
  (\<open>e_mmio\<close>), and the value of an uninitialised variable (\<open>e_junk\<close>).

  \<^bold>\<open>User programs\<close> do not share that state: to a program (\<open>uprog\<close> of \<open>User\<close>) the kernel is an operating system \<open>os\<close>, a
  parameter that answers each system call given all calls so far. A run ends with a value, in \<open>exit\<close>, in \<open>exec\<close>, in a fault or
  without fuel, and has the list of calls made. What a program relies on is a hypothesis on these answers: \<open>serves\<close> (reading a
  descriptor delivers a given file in any pieces), \<open>sbrk_ok\<close> and \<open>sbrk_grows\<close> (\<open>sbrk\<close> fails or extends the heap, at its next call or always). Strings are the bytes before the final
  zero. \<open>mkfs\<close> works on a list of sectors, with the files of the host as a parameter.

  \<^bold>\<open>Theories of the kernel\<close>, each with the code it models and what is proved.
  \<^item> \<open>Prelude\<close>: results with faults, folds that may fail, searching lists, machine integers.
  \<^item> \<open>Spinlock\<close> (\<open>spinlock.c\<close>, interrupt bits of \<open>riscv.h\<close>): \<open>acquire\<close> and \<open>release\<close> as one hart runs them, balanced around
    critical sections, and as interleaved memory accesses of any number of harts, with mutual exclusion by rule induction.
  \<^item> \<open>ProcTable\<close> (\<open>proc.h\<close>, globals of \<open>proc.c\<close>, \<open>enqueue\<close>, \<open>dequeue\<close>): the arrays of the queues implement lists; the
    locale \<open>level_queues\<close> is what the scheduler and the process operations use of them.
  \<^item> \<open>Sched\<close> (\<open>scheduler\<close>, \<open>rand\<close>): one pass of the scheduler under each of the three build options, which process it runs
    and when it idles. What a process does in its turn is a parameter; for the round robin it may change the table in any way, and
    \<open>hands_back\<close> says only how it leaves the hart and the locks.
  \<^item> \<open>ProcOps\<close> (\<open>sched\<close>, \<open>yield\<close>, \<open>sleep\<close>, \<open>wakeup\<close>, \<open>kill\<close>, \<open>reparent\<close>, \<open>update_time\<close>): exact effect on the table, the
    invariant \<open>sched_inv\<close> that active processes and no others are queued, the locking protocol of \<open>sched\<close>.
  \<^item> \<open>SleepWake\<close>: \<open>sleep\<close> against \<open>wakeup\<close> as interleaved steps, and that no wakeup is lost.
  \<^item> \<open>Mem\<close>, \<open>KString\<close> (\<open>string.c\<close>): bytes and words of memory, \<open>memmove\<close> with overlap, the string functions.
  \<^item> \<open>Kalloc\<close> (\<open>kalloc.c\<close>): the free list threaded through the free pages implements a list of pages; the locale
    \<open>page_pool\<close> is what its clients use.
  \<^item> \<open>Vm\<close>, \<open>VmProofs\<close>, \<open>VmUser\<close> (\<open>vm.c\<close>): page tables as three-level trees in memory, that mapping and unmapping change just
    the pages asked for and return or take just the frames, and copying between kernel and user memory.
  \<^item> \<open>KState\<close>, \<open>KProofs\<close>, \<open>Sleeplock\<close> (\<open>sleeplock.c\<close>, \<open>either_copyout\<close>, \<open>either_copyin\<close>): the protocol of sleep locks.
  \<^item> \<open>Virtio\<close>, \<open>VirtioProofs\<close> (\<open>virtio_disk.c\<close>): descriptors are taken three at a time or not at all, and all given back.
  \<^item> \<open>Bio\<close>, \<open>BioProofs\<close> (\<open>bio.c\<close>): the linked ring of buffers implements a list in order of use, and \<open>bget\<close> on it.
  \<^item> \<open>Block\<close>, \<open>Log\<close>, \<open>LogProofs\<close> (\<open>log.c\<close>): interleaved operations (\<open>log_step\<close>, shown to be the steps of
    \<open>begin_op\<close>, \<open>log_write\<close> and \<open>end_op\<close>, but for the commit itself), what the reservation of \<open>begin_op\<close> guarantees in the log area of
    \<open>mkfs\<close>, and the one block by which it falls short.
  \<^item> \<open>Fs\<close>, \<open>FsProofs\<close> (\<open>fs.c\<close>): inodes and bitmaps in blocks, the pieces of reads and writes, the elements of path names.
  \<^item> \<open>BlockIO\<close>: a block read through cache, driver and sleeping on the buffer is what the disk has. The disk is the hypothesis
    \<open>disk_serves\<close> on \<open>e_swt\<close>: it answers a request to read, and the process that waits runs again, which is the effect of the device, of
    \<open>virtio_disk_intr\<close> and of the scheduler together; \<open>disk_env\<close> is such a disk.
  \<^item> \<open>FsRead\<close>: on such a disk \<open>ilock\<close> loads the inode, \<open>readi\<close> returns the bytes of the file, \<open>dirlookup\<close> finds the first entry of a
    name, \<open>namei\<close> a file of the root directory; each of them keeps \<open>io_ok\<close> and, but for inodes and their locks, what \<open>frame\<close> has.
  \<^item> \<open>Console\<close>, \<open>Printf\<close>, \<open>PrintfProofs\<close> (\<open>uart.c\<close>, \<open>console.c\<close>, \<open>printf.c\<close>): numbers printed read back.
  \<^item> \<open>File\<close>, \<open>Ring\<close>, \<open>FileProofs\<close> (\<open>file.c\<close>, \<open>pipe.c\<close>): the locale \<open>fifo\<close> of byte queues, interpreted on pipes and on the
    output buffer of the UART; the pieces of \<open>filewrite\<close> fit the log.
  \<^item> \<open>ProcLife\<close> (\<open>allocproc\<close>, \<open>freeproc\<close>, \<open>userinit\<close>, \<open>growproc\<close>, \<open>fork\<close>, \<open>exit\<close>, \<open>wait\<close>, \<open>waitx\<close>), \<open>Exec\<close> (\<open>exec.c\<close>).
  \<^item> \<open>Trap\<close> (\<open>plic.c\<close>, \<open>kerneltrap\<close>, \<open>devintr\<close>, \<open>usertrapret\<close>), \<open>Sysproc\<close>, \<open>Sysfile\<close>, \<open>Usertrap\<close> (\<open>syscall\<close>, \<open>usertrap\<close>,
    \<open>main\<close>), with \<open>TrapProofs\<close> (the tick of the \<open>MLFQ\<close> scheduler: boost, time slices, demotion and preemption), \<open>AlarmProofs\<close> (an alarm and \<open>sigreturn\<close> round trip) and
    \<open>SyscallProofs\<close> (system call counts and unknown calls).

  \<^bold>\<open>Theories of user space and of the image.\<close>
  \<^item> \<open>Digits\<close>, \<open>User\<close>, \<open>Ulib\<close> (\<open>ulib.c\<close>), \<open>Uprintf\<close> (\<open>user/printf.c\<close>), \<open>Uos\<close>: decimal and hexadecimal numerals, programs and their calls,
    the library, what \<open>printf\<close> writes, and operating systems that deliver a file.
  \<^item> \<open>Grep\<close> (\<open>grep.c\<close>): the matcher agrees with the language of its patterns, and the program prints the matching lines.
  \<^item> \<open>Utils\<close>, \<open>UtilsProofs\<close> (\<open>cat.c\<close>, \<open>wc.c\<close>, \<open>echo.c\<close>, \<open>kill.c\<close>, \<open>ln.c\<close>, \<open>mkdir.c\<close>, \<open>rm.c\<close>, \<open>ls.c\<close>, \<open>syscount.c\<close>, \<open>init.c\<close>,
    \<open>zombie.c\<close>, \<open>forktest.c\<close>, \<open>stressfs.c\<close>, \<open>schedulertest.c\<close>): \<open>cat\<close> copies and \<open>wc\<close> counts, however the input is delivered.
  \<^item> \<open>Sh\<close>, \<open>ShProofs\<close> (\<open>sh.c\<close>): commands written out parse back, the parser yields well-formed commands and
    allocates just their nodes, the child of the shell ends.
  \<^item> \<open>Umalloc\<close>, \<open>UmallocProofs\<close> (\<open>umalloc.c\<close>): the circular free list, that \<open>malloc\<close> hands out and \<open>free\<close> takes back just the bytes.
  \<^item> \<open>Utest\<close>, \<open>Grind\<close> (\<open>grind.c\<close>): the random system calls, and that the generator behind them is the one of Park and Miller and
    needs no more than 32 bits.
  \<^item> \<open>Mkfs\<close>, \<open>MkfsProofs\<close>, \<open>MkfsImage\<close> (\<open>mkfs.c\<close>): appending to an inode against the layout of the kernel, and that the image
    represents the list of files it was asked for.
  \<^item> \<open>ReadBack\<close>: the image as the disk of the kernel; the theorem of this theory composes both sides, from the files of the host to
    what \<open>namei\<close>, \<open>ilock\<close> and \<open>readi\<close> return.

  \<^bold>\<open>Bounds and fuel.\<close> Loops over a table or a list recurse over its indices. A loop that sleeps (in \<open>sleep\<close> locks,
  \<open>begin_op\<close>, pipes, the console, the disk driver, \<open>wait\<close>, \<open>sys_sleep\<close>) goes on as long as the environment lets it: it takes
  \<open>e_fuel\<close> rounds and then yields
  \<open>OutOfFuel\<close>, and theorems about it name the state in which it ends. \<open>free_chain\<close> has \<open>NUM + 1\<close> rounds, more than a chain
  of distinct descriptors, and the boost of a level \<open>NPROC + 1\<close>, more than a queue; that both are enough is proved. Walking
  the ring of buffers has \<open>NBUF + 1\<close> steps, enough for a well-linked ring. In user space, the parser of the shell has \<open>4 * n + 4\<close> rounds
  for a line of \<open>n\<close> bytes and \<open>malloc\<close> two turns of its list, of which each node of a command adds at most one entry; both are proved to be enough; loops that read a file take a number of rounds
  that the theorems bound by the length of the file.

  \<^bold>\<open>Not modelled.\<close> \<open>start.c\<close> and the assembly files, which set up and save registers; the lock \<open>kmem.lock\<close> around the free list;
  the disk, the UART and the interrupt controller themselves, which are inputs; scheduling between harts, except for the
  spin lock and for \<open>sleep\<close> against \<open>wakeup\<close>; the test programs \<open>usertests.c\<close>, and \<open>alarmtest.c\<close>, whose handlers
  interrupt it between any two instructions; \<open>usys.pl\<close>, which prints assembly, and \<open>plot.py\<close>, which draws a log.
\<close>

section \<open>From the image to the kernel\<close>

text \<open>
  C8. The kernel reads back what \<open>mkfs\<close> has stored. On a disk with an image that \<open>mkfs\<close> made of files that fit, with
  different names, a process that looks up the path of one of the files with \<open>namei\<close>, locks the inode with \<open>ilock\<close> and reads with \<open>readi\<close>
  finds the file and gets the bytes that the host had, through the directory, the inode table, the buffer cache and the driver of the disk.
\<close>

theorem mkfs_read_back:
  fixes d :: "'a fsst_scheme" and E :: "'a fsst_scheme env" and p k :: nat and n :: int and r :: "nat \<Rightarrow> uint" and h :: hst and off len :: uint
  assumes "2 \<le> length argv" and "\<forall>a \<in> set (drop 2 argv). arg_ok host a" and "fits (mkfs_spec host (drop 2 argv))"
    and "length (root_dir (drop 2 argv)) mod BSIZE \<noteq> 0" and "distinct (map dname (bytes_of ''.'' # bytes_of ''..'' # map fs_name (drop 2 argv)))"
    and "mkfs_main host argv = Inr s" and "k < length argv - 2"
    and "disk_serves E (disk_of (img s))" and "1 < e_fuel E" and "\<exists>b < NBUF. r b = 0"
    and "io_ok (disk_of (img s)) p r {} (h, d)" and "sb d = sb_of_block (img s ! 1)"
    and "itable_ok (disk_of (img s)) n d" and "1 < n" and "n + 1 < 2 ^ 31"
    and "\<exists>i < NINODE. \<exists>j < NINODE. i \<noteq> j \<and> i_ref (inodes d i) = 0 \<and> i_ref (inodes d j) = 0"
    and "components path = [fs_name (argv ! (k + 2))]" and "hd path = slash" and "off \<le> off + len"
  shows "\<exists>ip g1 d1 g2 d2 g3 d3. namei E path (h, d) = Inr (Some ip, (g1, d1)) \<and> ilock E (Some ip) (g1, d1) = Inr ((), (g2, d2)) \<and>
    readi E ip LocalDst off len (g2, d2) =
      Inr (let bs = take (unat len) (drop (unat off) (concat (the (host (argv ! (k + 2)))))) in (of_nat (length bs), bs), (g3, d3))"
proof -
  let ?B = "disk_of (img s)" and ?as = "drop 2 argv" and ?r = "disk_inode (disk_of (img s)) mk_sb ROOTINO"
  note M = mkfs_disk[OF assms(1-4,6)]
  have sb: "sb d = mk_sb" using assms(12) M(1) by simp
  have R: "reader E ?B r" using assms(8-10) by (simp add: reader_def)
  obtain zs where z: "file_bytes ?B ?r = root_dir ?as @ zs" using M(6) by blast
  have k: "k < length ?as" "?as ! k = argv ! (k + 2)" "length ?as < 2 ^ 15"
    using assms(3,7) by (simp_all add: add.commute fits_def mkfs_spec_def NINODES_def)
  note L = lookup_root[OF assms(5) k(1,3), of zs, unfolded k(2)]
  have "0 < k + 2" "k + 2 < 2 ^ 16" "k + 2 \<le> NINODES" using k(1) assms(3,7) by (simp_all add: fits_def mkfs_spec_def NINODES_def)
  note u = small_inum(3)[OF this(1,2)] and un = unat_inum[OF this(3)]
  have nr: "(of_nat (k + 2) :: uint) \<noteq> ROOTINO"
  proof
    assume e: "(of_nat (k + 2) :: uint) = ROOTINO"
    show False using un unfolding e by (simp add: ROOTINO_def)
  qed
  have nl: "i_nlink ?r \<noteq> 0" using M(3) by simp
  obtain ip g d' where a: "namei E path (h, d) = Inr (Some ip, (g, d'))" "io_ok ?B p r {} (g, d')" "i_inum (inodes d' ip) = of_nat (k + 2)"
    "0 < sint (i_ref (inodes d' ip))" "entry_ok ?B (sb d') (n + 2) (inodes d' ip)" "\<not> sl_locked (sleeplocks d' (InodeLk ip))" "sb d' = mk_sb"
    using namei_in_root[OF R assms(11,13-18), unfolded sb, OF M(2) nl M(4,5), unfolded z, OF L(1) refl, unfolded L(2) u, OF nr] by blast
  let ?x = "disk_inode ?B (sb d') (i_inum (inodes d' ip))"
  have x: "i_type ?x \<noteq> 0" "mapped ?B ?x" "file_bytes ?B ?x = concat (the (host (argv ! (k + 2))))"
    using M(7)[OF assms(7)] a(3,7) by (simp_all add: T_FILE_def)
  from ilock_readi[OF R a(2,4,5,6) refl x(1,2) assms(19) refl] a(1) show ?thesis unfolding x(3) Let_def by blast
qed

theorem mkfs_read_back_witness:
  "\<exists>s ip g1 d1 g2 d2 g3 d3. mkfs_main demo_host demo_args = Inr s \<and>
     namei (disk_env (disk_of (img s))) (bytes_of ''/cat'') (ops_hst, demo_fs\<lparr>sb := mk_sb\<rparr>) = Inr (Some ip, (g1, d1)) \<and>
     ilock (disk_env (disk_of (img s))) (Some ip) (g1, d1) = Inr ((), (g2, d2)) \<and>
     readi (disk_env (disk_of (img s))) ip LocalDst 1 10 (g2, d2) = Inr ((2, [2, 3]), (g3, d3))"
proof -
  have a: "2 \<le> length demo_args" "\<forall>a \<in> set (drop 2 demo_args). arg_ok demo_host a"
    by (simp_all add: demo_args_def arg_ok_def demo_host_def shortname_def bytes_of_def)
  obtain s where s: "mkfs_main demo_host demo_args = Inr s" using mkfs_main_steps[OF a demo_fits] by blast
  have l: "length (root_dir (drop 2 demo_args)) mod BSIZE \<noteq> 0"
    by (simp add: root_dir_def dots_def entries_def length_dirent demo_args_def BSIZE_def)
  have dn: "distinct (map dname (bytes_of ''.'' # bytes_of ''..'' # map fs_name (drop 2 demo_args)))"
  proof -
    obtain m where m: "DIRSIZ = Suc (Suc (Suc (Suc m)))" using that[of 10] by (simp add: DIRSIZ_def)
    have "cstr_of [] 0 = 0" by (simp add: cstr_of_def)
    then show ?thesis by (simp add: demo_args_def fs_name_def shortname_def bytes_of_def dname_def m cstr_of_Cons)
  qed
  have sb: "mk_sb = sb_of_block (img s ! 1)" using mkfs_disk(1)[OF a demo_fits l s] by simp
  have io: "io_ok (disk_of (img s)) 0 (\<lambda>_. 0) {} (ops_hst, demo_fs\<lparr>sb := mk_sb\<rparr>)"
    using demo_fs_ok(1)[of "disk_of (img s)"] sched_inv_cong[of "demo_fs\<lparr>sb := mk_sb\<rparr>" demo_fs] by (simp add: io_ok_def at_work_def cache_ok_def)
  have it: "itable_ok (disk_of (img s)) 2 (demo_fs\<lparr>sb := mk_sb\<rparr>)"
    by (simp add: itable_ok_def entry_ok_def demo_fs_fields)
  have fr: "\<exists>i < NINODE. \<exists>j < NINODE. i \<noteq> j \<and> i_ref (inodes (demo_fs\<lparr>sb := mk_sb\<rparr>) i) = 0 \<and> i_ref (inodes (demo_fs\<lparr>sb := mk_sb\<rparr>) j) = 0"
    by (intro exI[of _ 0] conjI exI[of _ "Suc 0"]) (simp_all add: demo_fs_fields NINODE_def)
  have p: "components (bytes_of ''/cat'') = [fs_name (demo_args ! (0 + 2))]" "hd (bytes_of ''/cat'') = slash"
    by (simp_all add: components_def slash_def bytes_of_def demo_args_def fs_name_def shortname_def)
  have nb: "\<exists>b < NBUF. (0 :: uint) = 0" by (intro exI[of _ 0]) (simp add: NBUF_def)
  have "concat (the (demo_host (demo_args ! (0 + 2)))) = [1, 2, 3]" by (simp add: demo_args_def demo_host_def)
  moreover note mkfs_read_back[OF a demo_fits l dn s _ disk_env_serves _ nb io _ it _ _ fr p, of 1 10]
  ultimately show ?thesis using s sb by (auto simp: demo_args_def)
qed

end
